(* ===== verification/Prelude.thy ===== *)
theory Prelude
  imports Main "HOL-Library.Word"
begin

text \<open>
  Shared material of the development: the types that every component uses (bytes, error
  codes), the generic list lemmas, and three interfaces that several components implement:
  an incremental stream decoder, a frame codec on top of it, and a transition system with
  an inductive invariant.
\<close>

section \<open>Types shared by the components\<close>

text \<open>A C++ \<open>uint8_t\<close>, or a \<open>char\<close> read through \<open>static_cast<uint8_t>\<close>.\<close>

type_synonym byte = "8 word"

text \<open>
  The error conditions the sources construct themselves. \<open>Sys_error n\<close> stands for any other
  code that the operating system or the socket layer reports.
\<close>

datatype errc =
    Timed_out
  | Connection_refused
  | Connection_reset
  | Operation_aborted
  | Operation_canceled
  | Operation_not_supported
  | Bad_message
  | Invalid_argument
  | Host_unreachable
  | No_such_device
  | End_of_file
  | Sys_error nat

text \<open>\<open>boost::system::error_code\<close>: \<open>None\<close> is the default-constructed code (no error).\<close>

type_synonym error_code = "errc option"

section \<open>Generic list lemmas\<close>

named_theorems list_facts \<open>facts about lists shared by the component proofs\<close>

lemma length_filter_update [list_facts]:
  assumes "i < length xs"
  shows "length (filter P (xs[i := y])) + (if P (xs ! i) then 1 else 0)
       = length (filter P xs) + (if P y then 1 else 0)"
  using assms
proof (induction xs arbitrary: i)
  case Nil
  then show ?case by simp
next
  case (Cons x xs)
  then show ?case by (cases i) auto
qed

lemma length_filter_snoc [list_facts]:
  "length (filter P (xs @ [y])) = length (filter P xs) + (if P y then 1 else 0)"
  by simp

lemma takeWhile_append_stop [list_facts]:
  "\<forall>x\<in>set xs. P x \<Longrightarrow> \<not> P y \<Longrightarrow> takeWhile P (xs @ y # ys) = xs"
  by (induction xs) auto

lemma dropWhile_append_stop [list_facts]:
  "\<forall>x\<in>set xs. P x \<Longrightarrow> \<not> P y \<Longrightarrow> dropWhile P (xs @ y # ys) = y # ys"
  by (induction xs) auto

lemma set_update_in: "y \<in> set (xs[i := x]) \<Longrightarrow> y = x \<or> y \<in> set xs"
  using set_update_subset_insert by fastforce

section \<open>Steps that may throw\<close>

text \<open>Sequencing of steps that may throw, and the same over a list.\<close>

definition ebind :: "'e + 'a \<Rightarrow> ('a \<Rightarrow> 'e + 'b) \<Rightarrow> 'e + 'b" where
  "ebind r f = (case r of Inl e \<Rightarrow> Inl e | Inr a \<Rightarrow> f a)"

fun emap :: "('a \<Rightarrow> 'e + 'b) \<Rightarrow> 'a list \<Rightarrow> 'e + 'b list" where
  "emap f [] = Inr []"
| "emap f (x # xs) = ebind (f x) (\<lambda>y. ebind (emap f xs) (\<lambda>ys. Inr (y # ys)))"

lemma ebind_Inr [simp]: "ebind (Inr a) f = f a"
  by (simp add: ebind_def)

lemma ebind_Inl [simp]: "ebind (Inl e) f = Inl e"
  by (simp add: ebind_def)

lemma ebind_eq_Inr: "ebind r f = Inr b \<longleftrightarrow> (\<exists>a. r = Inr a \<and> f a = Inr b)"
  by (cases r) auto

lemma ebind_eq_Inl: "ebind r f = Inl e \<longleftrightarrow> r = Inl e \<or> (\<exists>a. r = Inr a \<and> f a = Inl e)"
  by (cases r) auto

lemma emap_cong [fundef_cong]:
  "xs = ys \<Longrightarrow> (\<And>x. x \<in> set ys \<Longrightarrow> f x = g x) \<Longrightarrow> emap f xs = emap g ys"
  by (induction ys arbitrary: xs) auto

lemma emap_Inr: "emap f xs = Inr ys \<longleftrightarrow> list_all2 (\<lambda>x y. f x = Inr y) xs ys"
proof (induction xs arbitrary: ys)
  case Nil
  show ?case by (cases ys) auto
next
  case (Cons x xs)
  show ?case by (cases ys) (auto simp: ebind_eq_Inr Cons)
qed

lemma emap_all:
  "emap f xs = Inr ys \<Longrightarrow> (\<And>x y. f x = Inr y \<Longrightarrow> P y) \<Longrightarrow> \<forall>y\<in>set ys. P y"
  by (induction xs arbitrary: ys) (auto simp: ebind_eq_Inr)

lemma emap_succeeds: "(\<exists>ys. emap f xs = Inr ys) \<longleftrightarrow> (\<forall>x\<in>set xs. \<exists>y. f x = Inr y)"
  by (induction xs) (auto simp: ebind_eq_Inr)

section \<open>Splitting a string\<close>

text \<open>The pieces of a string between the occurrences of a character, at least one.\<close>

fun pieces :: "char \<Rightarrow> string \<Rightarrow> string list" where
  "pieces c [] = [[]]"
| "pieces c (x # xs) =
     (if x = c then [] # pieces c xs
      else (case pieces c xs of [] \<Rightarrow> [[x]] | p # ps \<Rightarrow> (x # p) # ps))"

lemma pieces_not_Nil [simp]: "pieces c s \<noteq> []"
  by (induction s) (auto split: list.splits)

lemma pieces_plain: "c \<notin> set p \<Longrightarrow> pieces c p = [p]"
  by (induction p) auto

lemma pieces_first: "c \<notin> set p \<Longrightarrow> pieces c (p @ c # rest) = p # pieces c rest"
  by (induction p) auto

text \<open>The last component of a path (\<open>std::filesystem::path::filename\<close>).\<close>

definition path_filename :: "string \<Rightarrow> string" where
  "path_filename p = rev (takeWhile (\<lambda>c. c \<noteq> CHR ''/'') (rev p))"

section \<open>Ordered maps\<close>

text \<open>
  A \<open>std::map\<close> is the list of its entries in iteration order, that is sorted by key. \<open>omap_put\<close> is
  \<open>m[k] = v\<close>, \<open>omap_erase\<close> is \<open>m.erase(k)\<close>; lookups are \<open>map_of\<close>.
\<close>

fun omap_put :: "'k :: linorder \<Rightarrow> 'v \<Rightarrow> ('k \<times> 'v) list \<Rightarrow> ('k \<times> 'v) list" where
  "omap_put k v [] = [(k, v)]"
| "omap_put k v ((k', v') # m) =
     (if k = k' then (k, v) # m
      else if k < k' then (k, v) # (k', v') # m
      else (k', v') # omap_put k v m)"

definition omap_erase :: "'k :: linorder \<Rightarrow> ('k \<times> 'v) list \<Rightarrow> ('k \<times> 'v) list" where
  "omap_erase k m = filter (\<lambda>kv. fst kv \<noteq> k) m"

definition omap_ok :: "('k :: linorder \<times> 'v) list \<Rightarrow> bool" where
  "omap_ok m \<longleftrightarrow> sorted_wrt (<) (map fst m)"

lemma map_of_omap_put [simp]: "map_of (omap_put k v m) = (map_of m)(k \<mapsto> v)"
  by (induction m) (auto simp: fun_eq_iff)

lemma map_of_omap_erase [simp]: "map_of (omap_erase k m) = (map_of m)(k := None)"
  by (induction m) (auto simp: fun_eq_iff omap_erase_def)

lemma keys_omap_put: "fst ` set (omap_put k v m) = insert k (fst ` set m)"
  by (induction k v m rule: omap_put.induct) (simp_all add: insert_commute)

lemma set_omap_put: "set (omap_put k v m) \<subseteq> insert (k, v) (set m)"
  by (induction k v m rule: omap_put.induct) auto

lemma omap_ok_put: "omap_ok m \<Longrightarrow> omap_ok (omap_put k v m)"
  unfolding omap_ok_def
proof (induction m)
  case (Cons kv m)
  obtain k' v' where kv: "kv = (k', v')" by (cases kv)
  have "fst ` set (omap_put k v m) = insert k (fst ` set m)" by (rule keys_omap_put)
  with Cons kv show ?case by (auto simp: image_iff)
qed simp

lemma omap_ok_erase: "omap_ok m \<Longrightarrow> omap_ok (omap_erase k m)"
  by (auto simp: omap_ok_def omap_erase_def sorted_wrt_map intro: sorted_wrt_filter)

section \<open>Decimal numbers\<close>

text \<open>
  \<open>std::to_string\<close> of an unsigned number, and the pieces of the library's decimal parsers: blanks,
  digits, and the value of a run of digits.
\<close>

fun to_string :: "nat \<Rightarrow> string" where
  "to_string n = (if n < 10 then [char_of (48 + n)] else to_string (n div 10) @ [char_of (48 + n mod 10)])"

declare to_string.simps [simp del]

definition is_digit :: "char \<Rightarrow> bool" where
  "is_digit c \<longleftrightarrow> 48 \<le> (of_char c :: nat) \<and> (of_char c :: nat) \<le> 57"

definition is_blank :: "char \<Rightarrow> bool" where
  "is_blank c \<longleftrightarrow> of_char c \<in> {9, 10, 11, 12, 13, 32 :: nat}"

definition digits_value :: "string \<Rightarrow> nat" where
  "digits_value ds = foldl (\<lambda>n c. n * 10 + (of_char c - 48)) 0 ds"

lemma to_string_not_Nil: "to_string n \<noteq> []"
  by (subst to_string.simps) simp

lemma digit_char: "n < 10 \<Longrightarrow> is_digit (char_of (48 + n)) \<and> of_char (char_of (48 + n) :: char) = 48 + n" for n :: nat
  by (simp add: is_digit_def)

lemma to_string_digits: "list_all is_digit (to_string n)"
proof (induction n rule: to_string.induct)
  case (1 n)
  then show ?case
    using digit_char [of n] digit_char [of "n mod 10"] by (subst to_string.simps) auto
qed

lemma digits_value_snoc: "digits_value (ds @ [c]) = digits_value ds * 10 + (of_char c - 48)"
  by (simp add: digits_value_def)

lemma digits_value_to_string: "digits_value (to_string n) = n"
proof (induction n rule: to_string.induct)
  case (1 n)
  show ?case
  proof (cases "n < 10")
    case True
    then show ?thesis
      using digit_char [of n] by (subst to_string.simps) (simp add: digits_value_def)
  next
    case False
    then show ?thesis
      using 1 digit_char [of "n mod 10"] by (subst to_string.simps) (simp add: digits_value_snoc)
  qed
qed

section \<open>Incremental stream decoders\<close>

text \<open>
  \<open>feed_all\<close> drives a decoder with the chunks of successive reads, joining the outputs.
\<close>

fun feed_all :: "('s \<Rightarrow> 'i list \<Rightarrow> 's \<times> 'o) \<Rightarrow> 'o \<Rightarrow> ('o \<Rightarrow> 'o \<Rightarrow> 'o) \<Rightarrow> 's \<Rightarrow> 'i list list \<Rightarrow> 's \<times> 'o"
  where
  "feed_all feed emp app s [] = (s, emp)"
| "feed_all feed emp app s (c # cs) =
     (case feed s c of (s', out1) \<Rightarrow>
      case feed_all feed emp app s' cs of (s'', out2) \<Rightarrow> (s'', app out1 out2))"

text \<open>
  A decoder is incremental when feeding a concatenation is feeding the two parts one after
  the other: then the way the transport cuts the stream into reads does not matter.
\<close>

locale stream_decoder =
  fixes feed :: "'s \<Rightarrow> 'i list \<Rightarrow> 's \<times> 'o"
    and emp :: 'o
    and app :: "'o \<Rightarrow> 'o \<Rightarrow> 'o"
  assumes feed_nil: "feed s [] = (s, emp)"
    and feed_append: "feed s (xs @ ys) =
      (case feed s xs of (s', out1) \<Rightarrow> case feed s' ys of (s'', out2) \<Rightarrow> (s'', app out1 out2))"
begin

lemma feed_all_concat: "feed_all feed emp app s cs = feed s (concat cs)"
proof (induction cs arbitrary: s)
  case Nil
  then show ?case by (simp add: feed_nil)
next
  case (Cons c cs)
  then show ?case by (simp add: feed_append split: prod.splits)
qed

end

text \<open>
  A frame codec: every admissible frame, encoded and fed to an idle decoder, comes out as
  its own output and leaves the decoder idle. Sequences of frames then round-trip under any
  chunking.
\<close>

locale frame_codec = stream_decoder feed emp app
  for feed :: "'s \<Rightarrow> 'i list \<Rightarrow> 's \<times> 'o" and emp :: 'o and app :: "'o \<Rightarrow> 'o \<Rightarrow> 'o" +
  fixes idle :: "'s \<Rightarrow> bool"
    and ok :: "'f \<Rightarrow> bool"
    and enc :: "'f \<Rightarrow> 'i list"
    and out :: "'f \<Rightarrow> 'o"
  assumes frame_out: "idle s \<Longrightarrow> ok f \<Longrightarrow> snd (feed s (enc f)) = out f"
    and frame_idle: "idle s \<Longrightarrow> ok f \<Longrightarrow> idle (fst (feed s (enc f)))"
begin

lemma frames_feed:
  assumes "idle s" and "list_all ok fs"
  shows "snd (feed s (concat (map enc fs))) = foldr app (map out fs) emp"
    and "idle (fst (feed s (concat (map enc fs))))"
proof -
  have "snd (feed s (concat (map enc fs))) = foldr app (map out fs) emp
      \<and> idle (fst (feed s (concat (map enc fs))))"
    using assms
  proof (induction fs arbitrary: s)
    case Nil
    then show ?case by (simp add: feed_nil)
  next
    case (Cons f fs)
    obtain s' where f: "feed s (enc f) = (s', out f)" and "idle s'"
      using Cons.prems frame_out [of s f] frame_idle [of s f] by (cases "feed s (enc f)") auto
    moreover have "list_all ok fs" using Cons.prems by simp
    ultimately show ?case
      using Cons.IH [of s'] by (simp add: feed_append case_prod_beta)
  qed
  then show "snd (feed s (concat (map enc fs))) = foldr app (map out fs) emp"
    and "idle (fst (feed s (concat (map enc fs))))" by auto
qed

lemma chunked_frames:
  assumes "idle s" and "list_all ok fs" and "concat cs = concat (map enc fs)"
  shows "snd (feed_all feed emp app s cs) = foldr app (map out fs) emp"
    and "idle (fst (feed_all feed emp app s cs))"
  using frames_feed [OF assms(1,2)] by (simp_all add: feed_all_concat assms(3))

end

section \<open>Transition systems and invariants\<close>

inductive reachable :: "('s \<Rightarrow> bool) \<Rightarrow> ('s \<Rightarrow> 's \<Rightarrow> bool) \<Rightarrow> 's \<Rightarrow> bool"
  for I :: "'s \<Rightarrow> bool" and R :: "'s \<Rightarrow> 's \<Rightarrow> bool" where
  reach_init: "I s \<Longrightarrow> reachable I R s"
| reach_step: "reachable I R s \<Longrightarrow> R s t \<Longrightarrow> reachable I R t"

locale invariant_system =
  fixes init :: "'s \<Rightarrow> bool"
    and step :: "'s \<Rightarrow> 's \<Rightarrow> bool"
    and inv :: "'s \<Rightarrow> bool"
  assumes inv_init: "init s \<Longrightarrow> inv s"
    and inv_step: "inv s \<Longrightarrow> step s t \<Longrightarrow> inv t"
begin

lemma reachable_inv: "reachable init step s \<Longrightarrow> inv s"
  by (induction rule: reachable.induct) (auto intro: inv_init inv_step)

end

end
