(* ===== verification/Telnet.thy ===== *)
theory Telnet
  imports Prelude
begin

text \<open>
  The telnet layer of \<open>src/include/telnet_protocol.hpp\<close>: the incremental IAC decoder, the
  encoder helpers, and the option negotiation state machine. The decoder and the encoders
  are shown to be inverse to each other frame by frame and stream by stream; the negotiator
  is analysed alone and as one end of a connection.
\<close>

unbundle bit_operations_syntax

named_theorems telnet_consts \<open>the protocol's byte constants\<close>

section \<open>Constants\<close>

definition cmd_se :: byte where [telnet_consts]: "cmd_se = 240"
definition cmd_nop :: byte where [telnet_consts]: "cmd_nop = 241"
definition cmd_sb :: byte where [telnet_consts]: "cmd_sb = 250"
definition cmd_will :: byte where [telnet_consts]: "cmd_will = 251"
definition cmd_wont :: byte where [telnet_consts]: "cmd_wont = 252"
definition cmd_doo :: byte where [telnet_consts]: "cmd_doo = 253"
definition cmd_dont :: byte where [telnet_consts]: "cmd_dont = 254"
definition cmd_iac :: byte where [telnet_consts]: "cmd_iac = 255"

definition opt_echo :: byte where [telnet_consts]: "opt_echo = 1"
definition opt_suppressGoAhead :: byte where [telnet_consts]: "opt_suppressGoAhead = 3"
definition opt_terminalType :: byte where [telnet_consts]: "opt_terminalType = 24"
definition opt_naws :: byte where [telnet_consts]: "opt_naws = 31"

definition ttypeIs :: byte where [telnet_consts]: "ttypeIs = 0"
definition ttypeSend :: byte where [telnet_consts]: "ttypeSend = 1"

text \<open>\<open>'\r'\<close> as a byte.\<close>

definition cr_byte :: byte where [telnet_consts]: "cr_byte = 13"

definition maxSubnegotiationSize :: nat where "maxSubnegotiationSize = 1024"

section \<open>Decoder\<close>

datatype Event =
    Negotiation byte byte            \<comment> \<open>verb, option\<close>
  | Subnegotiation byte "byte list"  \<comment> \<open>option, unescaped payload\<close>
  | Command byte

datatype State = St_data | St_cr | St_iac | St_verb | St_sbOption | St_sbData | St_sbIac

record Decoder =
  dec_state :: State
  dec_verb :: byte
  dec_sbOption :: byte
  dec_sbPayload :: "byte list"

definition Decoder_init :: Decoder where
  "Decoder_init = \<lparr>dec_state = St_data, dec_verb = 0, dec_sbOption = 0, dec_sbPayload = []\<rparr>"

definition dataByte :: "byte \<Rightarrow> Decoder \<Rightarrow> byte list \<Rightarrow> Decoder \<times> byte list" where
  "dataByte c d data =
     (if c = cmd_iac then (d\<lparr>dec_state := St_iac\<rparr>, data)
      else (d\<lparr>dec_state := (if c = cr_byte then St_cr else St_data)\<rparr>, data @ [c]))"

definition onIac ::
  "byte \<Rightarrow> Decoder \<Rightarrow> byte list \<Rightarrow> Event list \<Rightarrow> Decoder \<times> byte list \<times> Event list" where
  "onIac c d data events =
     (if c = cmd_iac then (d\<lparr>dec_state := St_data\<rparr>, data @ [cmd_iac], events)
      else if cmd_will \<le> c \<and> c \<le> cmd_dont
        then (d\<lparr>dec_verb := c, dec_state := St_verb\<rparr>, data, events)
      else if c = cmd_sb then (d\<lparr>dec_state := St_sbOption\<rparr>, data, events)
      else (d\<lparr>dec_state := St_data\<rparr>, data, events @ [Command c]))"

definition sbPush :: "byte \<Rightarrow> Decoder \<Rightarrow> Decoder" where
  "sbPush c d =
     (if length (dec_sbPayload d) < maxSubnegotiationSize
      then d\<lparr>dec_sbPayload := dec_sbPayload d @ [c]\<rparr> else d)"

text \<open>One iteration of the loop of \<open>feed\<close>: the switch over the decoder's state.\<close>

fun feed_byte ::
  "byte \<Rightarrow> Decoder \<times> byte list \<times> Event list \<Rightarrow> Decoder \<times> byte list \<times> Event list" where
  "feed_byte c (d, data, events) =
     (case dec_state d of
        St_data \<Rightarrow> (case dataByte c d data of (d', data') \<Rightarrow> (d', data', events))
      | St_cr \<Rightarrow>
          (if c = 0 then (d\<lparr>dec_state := St_data\<rparr>, data, events)
           else (case dataByte c d data of (d', data') \<Rightarrow> (d', data', events)))
      | St_iac \<Rightarrow> onIac c d data events
      | St_verb \<Rightarrow> (d\<lparr>dec_state := St_data\<rparr>, data, events @ [Negotiation (dec_verb d) c])
      | St_sbOption \<Rightarrow>
          (d\<lparr>dec_sbOption := c, dec_sbPayload := [], dec_state := St_sbData\<rparr>, data, events)
      | St_sbData \<Rightarrow>
          (if c = cmd_iac then (d\<lparr>dec_state := St_sbIac\<rparr>, data, events)
           else (sbPush c d, data, events))
      | St_sbIac \<Rightarrow>
          (if c = cmd_se then
             (d\<lparr>dec_sbPayload := [], dec_state := St_data\<rparr>, data,
              events @ [Subnegotiation (dec_sbOption d) (dec_sbPayload d)])
           else if c = cmd_iac then ((sbPush c d)\<lparr>dec_state := St_sbData\<rparr>, data, events)
           else (d\<lparr>dec_sbPayload := [], dec_state := St_data\<rparr>, data, events @ [Command c])))"

definition feed ::
  "byte list \<Rightarrow> Decoder \<Rightarrow> byte list \<Rightarrow> Event list \<Rightarrow> Decoder \<times> byte list \<times> Event list" where
  "feed inp d data events = fold feed_byte inp (d, data, events)"

section \<open>Encoder helpers\<close>

fun escapeIac :: "byte list \<Rightarrow> byte list" where
  "escapeIac [] = []"
| "escapeIac (ch # chs) = (if ch = cmd_iac then [ch, ch] else [ch]) @ escapeIac chs"

definition negotiation :: "byte \<Rightarrow> byte \<Rightarrow> byte list" where
  "negotiation verb option = [cmd_iac, verb, option]"

definition subnegotiation :: "byte \<Rightarrow> byte list \<Rightarrow> byte list" where
  "subnegotiation option payload =
     [cmd_iac, cmd_sb, option] @ escapeIac payload @ [cmd_iac, cmd_se]"

text \<open>The two bytes of a \<open>uint16_t\<close>: \<open>x >> 8\<close> and \<open>x & 0xFF\<close>, each cast to \<open>char\<close>.\<close>

definition hi_byte :: "16 word \<Rightarrow> byte" where "hi_byte x = ucast (drop_bit 8 x)"
definition lo_byte :: "16 word \<Rightarrow> byte" where "lo_byte x = ucast (x AND 0xFF)"

definition naws_payload :: "16 word \<Rightarrow> 16 word \<Rightarrow> byte list" where
  "naws_payload width height = [hi_byte width, lo_byte width, hi_byte height, lo_byte height]"

definition nawsFrame :: "16 word \<Rightarrow> 16 word \<Rightarrow> byte list" where
  "nawsFrame width height = subnegotiation opt_naws (naws_payload width height)"

definition parseNaws :: "byte list \<Rightarrow> (16 word \<times> 16 word) option" where
  "parseNaws payload =
     (case payload of
        [b0, b1, b2, b3] \<Rightarrow>
          Some (push_bit 8 (ucast b0) OR ucast b1, push_bit 8 (ucast b2) OR ucast b3)
      | _ \<Rightarrow> None)"

definition terminalTypeSendFrame :: "byte list" where
  "terminalTypeSendFrame = subnegotiation opt_terminalType [ttypeSend]"

definition terminalTypeIsFrame :: "byte list \<Rightarrow> byte list" where
  "terminalTypeIsFrame name = subnegotiation opt_terminalType (ttypeIs # name)"

definition parseTerminalTypeIs :: "byte list \<Rightarrow> byte list option" where
  "parseTerminalTypeIs payload =
     (case payload of [] \<Rightarrow> None | b # name \<Rightarrow> if b \<noteq> ttypeIs then None else Some name)"

section \<open>Negotiation\<close>

record OptionState =
  enabled :: bool
  pending :: bool

record Policy =
  policy_local :: "byte \<Rightarrow> bool"
  policy_remote :: "byte \<Rightarrow> bool"

record Negotiator =
  policy :: Policy
  us :: "byte \<Rightarrow> OptionState"
  him :: "byte \<Rightarrow> OptionState"

definition OptionState_init :: OptionState where
  "OptionState_init = \<lparr>enabled = False, pending = False\<rparr>"

definition Negotiator_init :: "Policy \<Rightarrow> Negotiator" where
  "Negotiator_init p = \<lparr>policy = p, us = (\<lambda>_. OptionState_init), him = (\<lambda>_. OptionState_init)\<rparr>"

definition requestEnable :: "OptionState \<Rightarrow> byte \<Rightarrow> byte \<Rightarrow> OptionState \<times> byte list" where
  "requestEnable s verb option =
     (if enabled s \<or> pending s then (s, [])
      else (s\<lparr>pending := True\<rparr>, negotiation verb option))"

definition requestDisable :: "OptionState \<Rightarrow> byte \<Rightarrow> byte \<Rightarrow> OptionState \<times> byte list" where
  "requestDisable s verb option =
     (if \<not> enabled s \<and> \<not> pending s then (s, [])
      else (s\<lparr>enabled := False, pending := False\<rparr>, negotiation verb option))"

definition onEnable ::
  "OptionState \<Rightarrow> bool \<Rightarrow> byte \<Rightarrow> byte \<Rightarrow> byte \<Rightarrow> OptionState \<times> byte list" where
  "onEnable s accepted acceptVerb refuseVerb option =
     (if pending s then (s\<lparr>pending := False, enabled := True\<rparr>, [])
      else if \<not> accepted then (s, negotiation refuseVerb option)
      else if enabled s then (s, [])
      else (s\<lparr>enabled := True\<rparr>, negotiation acceptVerb option))"

definition onDisable :: "OptionState \<Rightarrow> byte \<Rightarrow> byte \<Rightarrow> OptionState \<times> byte list" where
  "onDisable s verb option =
     (if enabled s then (s\<lparr>enabled := False\<rparr>, negotiation verb option)
      else (s\<lparr>pending := False\<rparr>, []))"

definition set_us :: "Negotiator \<Rightarrow> byte \<Rightarrow> OptionState \<times> byte list \<Rightarrow> Negotiator \<times> byte list" where
  "set_us n option r = (n\<lparr>us := (us n)(option := fst r)\<rparr>, snd r)"

definition set_him :: "Negotiator \<Rightarrow> byte \<Rightarrow> OptionState \<times> byte list \<Rightarrow> Negotiator \<times> byte list" where
  "set_him n option r = (n\<lparr>him := (him n)(option := fst r)\<rparr>, snd r)"

definition request :: "Negotiator \<Rightarrow> byte \<Rightarrow> byte \<Rightarrow> Negotiator \<times> byte list" where
  "request n verb option =
     (if verb = cmd_will then set_us n option (requestEnable (us n option) cmd_will option)
      else if verb = cmd_wont then set_us n option (requestDisable (us n option) cmd_wont option)
      else if verb = cmd_doo then set_him n option (requestEnable (him n option) cmd_doo option)
      else if verb = cmd_dont then set_him n option (requestDisable (him n option) cmd_dont option)
      else (n, []))"

definition handle :: "Negotiator \<Rightarrow> byte \<Rightarrow> byte \<Rightarrow> Negotiator \<times> byte list" where
  "handle n verb option =
     (if verb = cmd_doo then
        set_us n option
          (onEnable (us n option) (policy_local (policy n) option) cmd_will cmd_wont option)
      else if verb = cmd_dont then set_us n option (onDisable (us n option) cmd_wont option)
      else if verb = cmd_will then
        set_him n option
          (onEnable (him n option) (policy_remote (policy n) option) cmd_doo cmd_dont option)
      else if verb = cmd_wont then set_him n option (onDisable (him n option) cmd_dont option)
      else (n, []))"

definition localEnabled :: "Negotiator \<Rightarrow> byte \<Rightarrow> bool" where
  "localEnabled n option = enabled (us n option)"

definition remoteEnabled :: "Negotiator \<Rightarrow> byte \<Rightarrow> bool" where
  "remoteEnabled n option = enabled (him n option)"


section \<open>The decoder as an incremental stream decoder\<close>

text \<open>\<open>feed\<close> only appends to the buffers it is given.\<close>

lemma feed_byte_frame:
  "feed_byte c (d, data, events) =
     (case feed_byte c (d, [], []) of (d', x, y) \<Rightarrow> (d', data @ x, events @ y))"
  by (auto simp: dataByte_def onIac_def split: State.splits)

lemma feed_Nil [simp]: "feed [] d data events = (d, data, events)"
  by (simp add: feed_def)

lemma feed_Cons: "feed (c # cs) d data events =
  (case feed_byte c (d, data, events) of (d', data', events') \<Rightarrow> feed cs d' data' events')"
  by (simp add: feed_def split: prod.splits)

lemma feed_frame:
  "feed xs d data events = (case feed xs d [] [] of (d', x, y) \<Rightarrow> (d', data @ x, events @ y))"
proof (induction xs arbitrary: d data events)
  case Nil
  then show ?case by simp
next
  case (Cons c cs)
  obtain d1 x1 y1 where b: "feed_byte c (d, [], []) = (d1, x1, y1)" by (metis prod_cases3)
  have "feed (c # cs) d data events = feed cs d1 (data @ x1) (events @ y1)"
    by (simp add: feed_Cons feed_byte_frame [of c d data events] b del: feed_byte.simps)
  also have "\<dots> = (case feed cs d1 [] [] of (d', x, y) \<Rightarrow> (d', data @ x1 @ x, events @ y1 @ y))"
    by (subst Cons.IH) (simp split: prod.splits)
  also have "\<dots> = (case feed (c # cs) d [] [] of (d', x, y) \<Rightarrow> (d', data @ x, events @ y))"
    by (simp add: feed_Cons b Cons.IH [of d1 x1 y1] del: feed_byte.simps split: prod.splits)
  finally show ?case .
qed

lemma feed_append_chunks:
  "feed (xs @ ys) d data events =
     (case feed xs d data events of (d', data', events') \<Rightarrow> feed ys d' data' events')"
  by (simp add: feed_def split: prod.splits)

definition join_output ::
  "byte list \<times> Event list \<Rightarrow> byte list \<times> Event list \<Rightarrow> byte list \<times> Event list" where
  "join_output a b = (fst a @ fst b, snd a @ snd b)"

interpretation tn: stream_decoder "\<lambda>d xs. feed xs d [] []" "([], [])" join_output
proof
  fix s and xs ys :: "byte list"
  obtain d1 x y where 1: "feed xs s [] [] = (d1, x, y)" by (metis prod_cases3)
  obtain d2 u v where 2: "feed ys d1 [] [] = (d2, u, v)" by (metis prod_cases3)
  have "feed ys d1 x y = (d2, x @ u, y @ v)" by (subst feed_frame) (simp add: 2)
  then show "feed (xs @ ys) s [] [] = (case feed xs s [] [] of (s', out1) \<Rightarrow>
          case feed ys s' [] [] of (s'', out2) \<Rightarrow> (s'', join_output out1 out2))"
    by (simp add: feed_append_chunks join_output_def 1 2)
qed simp

section \<open>Decoding what the encoders produce\<close>

text \<open>
  What the telnet data path does to a byte string: a NUL that directly follows a CR is
  dropped (the flag says whether the previous byte was a CR), everything else is kept.
\<close>

fun strip_cr_nul :: "bool \<Rightarrow> byte list \<Rightarrow> byte list" where
  "strip_cr_nul _ [] = []"
| "strip_cr_nul True (c # cs) =
     (if c = 0 then strip_cr_nul False cs else c # strip_cr_nul (c = cr_byte) cs)"
| "strip_cr_nul False (c # cs) = c # strip_cr_nul (c = cr_byte) cs"

lemma dec_state_same [simp]: "dec_state d = st \<Longrightarrow> d\<lparr>dec_state := st\<rparr> = d"
  by (cases d) auto

lemma iac_neqs [simp]:
  "cmd_iac \<noteq> 0" "0 \<noteq> cmd_iac" "cmd_iac \<noteq> cr_byte" "cr_byte \<noteq> cmd_iac"
  "cmd_se \<noteq> cmd_iac" "cmd_iac \<noteq> cmd_se" "cmd_sb \<noteq> cmd_iac" "cmd_iac \<noteq> cmd_sb"
  "cr_byte \<noteq> 0" "0 \<noteq> cr_byte"
  by (simp_all add: telnet_consts)

lemma sb_not_verb [simp]: "\<not> (cmd_will \<le> cmd_sb \<and> cmd_sb \<le> cmd_dont)"
  by (simp add: telnet_consts)

lemma verb_neqs:
  assumes "cmd_will \<le> v" and "v \<le> cmd_dont"
  shows "v \<noteq> cmd_iac"
  using assms by (auto simp: telnet_consts word_le_nat_alt)

lemma feed_data_step:
  assumes "dec_state d = (if b then St_cr else St_data)" and "c \<noteq> cmd_iac"
  shows "feed (c # cs) d [] [] =
     (case feed cs (d\<lparr>dec_state := (if c = cr_byte then St_cr else St_data)\<rparr>) [] [] of
        (d', x, y) \<Rightarrow> (d', (if b \<and> c = 0 then x else c # x), y))"
  using assms
  by (cases b)
     (auto simp: feed_Cons dataByte_def feed_frame [of cs _ "[c]" "[]"] split: prod.splits)

lemma feed_escaped_iac:
  assumes "dec_state d = (if b then St_cr else St_data)"
  shows "feed (cmd_iac # cmd_iac # cs) d [] [] =
     (case feed cs (d\<lparr>dec_state := St_data\<rparr>) [] [] of (d', x, y) \<Rightarrow> (d', cmd_iac # x, y))"
  using assms
  by (cases b)
     (auto simp: feed_Cons dataByte_def onIac_def feed_frame [of cs _ "[cmd_iac]" "[]"]
        split: prod.splits)

lemma feed_escapeIac:
  assumes "dec_state d = (if b then St_cr else St_data)"
  shows "\<exists>st \<in> {St_data, St_cr}.
     feed (escapeIac xs) d [] [] = (d\<lparr>dec_state := st\<rparr>, strip_cr_nul b xs, [])"
  using assms
proof (induction xs arbitrary: d b)
  case Nil
  then show ?case by (cases b) auto
next
  case (Cons c cs)
  show ?case
  proof (cases "c = cmd_iac")
    case True
    with Cons.IH [of "d\<lparr>dec_state := St_data\<rparr>" False] Cons.prems show ?thesis
      by (cases b) (auto simp: feed_escaped_iac [OF Cons.prems])
  next
    case False
    with Cons.IH [of "d\<lparr>dec_state := (if c = cr_byte then St_cr else St_data)\<rparr>" "c = cr_byte"]
    show ?thesis
      by (cases b) (auto simp: feed_data_step [OF Cons.prems] split: if_splits)
  qed
qed

text \<open>Subnegotiation payloads: everything up to the size limit is collected, unescaped.\<close>

lemma feed_sb_payload:
  assumes "dec_state d = St_sbData" and "length (dec_sbPayload d) \<le> maxSubnegotiationSize"
  shows "feed (escapeIac xs) d [] [] =
     (d\<lparr>dec_sbPayload := take maxSubnegotiationSize (dec_sbPayload d @ xs)\<rparr>, [], [])"
  using assms
proof (induction xs arbitrary: d)
  case Nil
  then show ?case by simp
next
  case (Cons c cs)
  let ?d = "sbPush c d"
  have inv: "dec_state ?d = St_sbData" "length (dec_sbPayload ?d) \<le> maxSubnegotiationSize"
    using Cons.prems by (auto simp: sbPush_def)
  have "feed (escapeIac (c # cs)) d [] [] = feed (escapeIac cs) ?d [] []"
    using Cons.prems by (auto simp: feed_Cons sbPush_def)
  also have "\<dots> = (?d\<lparr>dec_sbPayload := take maxSubnegotiationSize (dec_sbPayload ?d @ cs)\<rparr>, [], [])"
    by (rule Cons.IH [OF inv])
  also have "\<dots> = (d\<lparr>dec_sbPayload := take maxSubnegotiationSize (dec_sbPayload d @ c # cs)\<rparr>, [], [])"
    using Cons.prems by (auto simp: sbPush_def take_Cons')
  finally show ?case .
qed

lemma feed_negotiation:
  assumes "dec_state d \<in> {St_data, St_cr}" and "cmd_will \<le> v" and "v \<le> cmd_dont"
  shows "feed (negotiation v opt) d [] [] =
     (d\<lparr>dec_state := St_data, dec_verb := v\<rparr>, [], [Negotiation v opt])"
  using assms verb_neqs [OF assms(2,3)]
  by (auto simp: negotiation_def dataByte_def feed_Cons onIac_def)

lemma feed_subnegotiation:
  assumes "dec_state d \<in> {St_data, St_cr}"
  shows "feed (subnegotiation opt payload) d [] [] =
     (d\<lparr>dec_state := St_data, dec_sbOption := opt, dec_sbPayload := []\<rparr>, [],
      [Subnegotiation opt (take maxSubnegotiationSize payload)])"
proof -
  let ?d1 = "d\<lparr>dec_sbOption := opt, dec_sbPayload := [], dec_state := St_sbData\<rparr>"
  have "feed (subnegotiation opt payload) d [] [] =
     feed (escapeIac payload @ [cmd_iac, cmd_se]) ?d1 [] []"
    using assms sb_not_verb by (auto simp: subnegotiation_def dataByte_def feed_Cons onIac_def)
  also have "\<dots> = feed [cmd_iac, cmd_se]
     (?d1\<lparr>dec_sbPayload := take maxSubnegotiationSize payload\<rparr>) [] []"
    by (simp add: feed_append_chunks feed_sb_payload)
  also have "\<dots> = (d\<lparr>dec_state := St_data, dec_sbOption := opt, dec_sbPayload := []\<rparr>, [],
      [Subnegotiation opt (take maxSubnegotiationSize payload)])"
    by (simp add: feed_Cons)
  finally show ?thesis .
qed

section \<open>Streams of frames\<close>

text \<open>
  What an endpoint sends: escaped application data, negotiations and subnegotiations. A
  data frame is admissible when the data path keeps it as it is, also after a CR; a
  negotiation when its verb is one of the four; a subnegotiation when its payload is within
  the decoder's limit.
\<close>

datatype frame = F_data "byte list" | F_neg byte byte | F_sub byte "byte list"

fun frame_ok :: "frame \<Rightarrow> bool" where
  "frame_ok (F_data xs) = (strip_cr_nul True xs = xs \<and> strip_cr_nul False xs = xs)"
| "frame_ok (F_neg v opt) = (cmd_will \<le> v \<and> v \<le> cmd_dont)"
| "frame_ok (F_sub opt p) = (length p \<le> maxSubnegotiationSize)"

fun frame_enc :: "frame \<Rightarrow> byte list" where
  "frame_enc (F_data xs) = escapeIac xs"
| "frame_enc (F_neg v opt) = negotiation v opt"
| "frame_enc (F_sub opt p) = subnegotiation opt p"

fun frame_data :: "frame \<Rightarrow> byte list" where
  "frame_data (F_data xs) = xs"
| "frame_data _ = []"

fun frame_events :: "frame \<Rightarrow> Event list" where
  "frame_events (F_data xs) = []"
| "frame_events (F_neg v opt) = [Negotiation v opt]"
| "frame_events (F_sub opt p) = [Subnegotiation opt p]"

interpretation tnf: frame_codec "\<lambda>d xs. feed xs d [] []" "([], [])" join_output
  "\<lambda>d. dec_state d \<in> {St_data, St_cr}" frame_ok frame_enc
  "\<lambda>f. (frame_data f, frame_events f)"
proof
  fix s :: Decoder and f
  assume idle: "dec_state s \<in> {St_data, St_cr}" and ok: "frame_ok f"
  have "\<exists>s'. feed (frame_enc f) s [] [] = (s', frame_data f, frame_events f)
      \<and> dec_state s' \<in> {St_data, St_cr}"
  proof (cases f)
    case (F_data xs)
    have "dec_state s = (if dec_state s = St_cr then St_cr else St_data)" using idle by auto
    from feed_escapeIac [OF this, of xs] ok F_data show ?thesis
      by (cases "dec_state s = St_cr") auto
  next
    case (F_neg v opt)
    with ok idle show ?thesis by (simp add: feed_negotiation)
  next
    case (F_sub opt p)
    with ok idle show ?thesis by (simp add: feed_subnegotiation)
  qed
  then show "snd (feed (frame_enc f) s [] []) = (frame_data f, frame_events f)"
    and "dec_state (fst (feed (frame_enc f) s [] [])) \<in> {St_data, St_cr}" by auto
qed

lemma foldr_join_output:
  "foldr join_output (map (\<lambda>f. (frame_data f, frame_events f)) fs) ([], []) =
     (concat (map frame_data fs), concat (map frame_events fs))"
  by (induction fs) (auto simp: join_output_def)

section \<open>NAWS and terminal type payloads\<close>

lemma hi_lo_byte: "push_bit 8 (ucast (hi_byte x)) OR ucast (lo_byte x) = (x :: 16 word)"
proof -
  have m: "(0xFF :: 16 word) = mask 8" by (simp add: mask_eq_exp_minus_1)
  show ?thesis
    unfolding hi_byte_def lo_byte_def m by (rule bit_word_eqI) (auto simp: bit_simps)
qed

lemma parse_naws_payload: "parseNaws (naws_payload w h) = Some (w, h)"
  by (simp add: parseNaws_def naws_payload_def hi_lo_byte)

section \<open>Two negotiators on a link\<close>

text \<open>An endpoint decodes the bytes of a message and handles every negotiation in it.\<close>

fun handle_event :: "Event \<Rightarrow> Negotiator \<times> byte list \<Rightarrow> Negotiator \<times> byte list" where
  "handle_event (Negotiation v opt) (n, r) = (case handle n v opt of (n', r') \<Rightarrow> (n', r @ r'))"
| "handle_event _ (n, r) = (n, r)"

definition receive :: "Negotiator \<Rightarrow> byte list \<Rightarrow> Negotiator \<times> byte list" where
  "receive n bytes = fold handle_event (snd (snd (feed bytes Decoder_init [] []))) (n, [])"

definition negotiation_verb :: "byte \<Rightarrow> bool" where
  "negotiation_verb v \<longleftrightarrow> v = cmd_will \<or> v = cmd_wont \<or> v = cmd_doo \<or> v = cmd_dont"

lemma verb_distinct [simp]:
  "cmd_will \<noteq> cmd_wont" "cmd_will \<noteq> cmd_doo" "cmd_will \<noteq> cmd_dont"
  "cmd_wont \<noteq> cmd_will" "cmd_wont \<noteq> cmd_doo" "cmd_wont \<noteq> cmd_dont"
  "cmd_doo \<noteq> cmd_will" "cmd_doo \<noteq> cmd_wont" "cmd_doo \<noteq> cmd_dont"
  "cmd_dont \<noteq> cmd_will" "cmd_dont \<noteq> cmd_wont" "cmd_dont \<noteq> cmd_doo"
  by (simp_all add: telnet_consts)

lemma receive_empty [simp]: "receive n [] = (n, [])"
  by (simp add: receive_def)

lemma receive_negotiation [simp]:
  assumes "negotiation_verb v"
  shows "receive n (negotiation v opt) = handle n v opt"
proof -
  have "cmd_will \<le> v" and "v \<le> cmd_dont"
    using assms by (auto simp: negotiation_verb_def telnet_consts word_le_nat_alt)
  then have "feed (negotiation v opt) Decoder_init [] []
      = (Decoder_init\<lparr>dec_state := St_data, dec_verb := v\<rparr>, [], [Negotiation v opt])"
    by (intro feed_negotiation) (simp add: Decoder_init_def)
  then show ?thesis by (simp add: receive_def split: prod.splits)
qed

lemma verbs_ok [simp]:
  "negotiation_verb cmd_will" "negotiation_verb cmd_wont"
  "negotiation_verb cmd_doo" "negotiation_verb cmd_dont"
  by (simp_all add: negotiation_verb_def)

lemma negotiation_nonempty [simp]: "negotiation v opt \<noteq> []"
  by (simp add: negotiation_def)

lemmas negotiator_defs =
  handle_def request_def set_us_def set_him_def onEnable_def onDisable_def
  requestEnable_def requestDisable_def

text \<open>
  \<open>exchange k a b msg\<close> delivers \<open>msg\<close> to \<open>b\<close>, its reply to \<open>a\<close>, and so on, until an end has
  nothing to say; \<open>None\<close> when that takes more than \<open>k\<close> deliveries.
\<close>

fun exchange ::
  "nat \<Rightarrow> Negotiator \<Rightarrow> Negotiator \<Rightarrow> byte list \<Rightarrow> (Negotiator \<times> Negotiator) option" where
  "exchange k a b [] = Some (a, b)"
| "exchange 0 a b (c # cs) = None"
| "exchange (Suc k) a b (c # cs) =
     (case receive b (c # cs) of (b', reply) \<Rightarrow>
        map_option (\<lambda>(x, y). (y, x)) (exchange k b' a reply))"

lemma exchange_Suc [simp]: "m \<noteq> [] \<Longrightarrow> exchange (Suc k) a b m =
     (case receive b m of (b', reply) \<Rightarrow>
        map_option (\<lambda>(x, y). (y, x)) (exchange k b' a reply))"
  by (cases m) auto

text \<open>The connection as a transition system: two FIFO channels of messages.\<close>

record link =
  end_a :: Negotiator
  end_b :: Negotiator
  to_b :: "byte list list"
  to_a :: "byte list list"

definition post :: "byte list \<Rightarrow> byte list list \<Rightarrow> byte list list" where
  "post m ch = (if m = [] then ch else ch @ [m])"

inductive link_deliver :: "link \<Rightarrow> link \<Rightarrow> bool" where
  at_b: "to_b l = m # ms \<Longrightarrow> receive (end_b l) m = (b', r) \<Longrightarrow>
     link_deliver l (l\<lparr>end_b := b', to_b := ms, to_a := post r (to_a l)\<rparr>)"
| at_a: "to_a l = m # ms \<Longrightarrow> receive (end_a l) m = (a', r) \<Longrightarrow>
     link_deliver l (l\<lparr>end_a := a', to_a := ms, to_b := post r (to_b l)\<rparr>)"

inductive link_request :: "link \<Rightarrow> link \<Rightarrow> bool" where
  from_a: "request (end_a l) v opt = (a', m) \<Longrightarrow>
     link_request l (l\<lparr>end_a := a', to_b := post m (to_b l)\<rparr>)"
| from_b: "request (end_b l) v opt = (b', m) \<Longrightarrow>
     link_request l (l\<lparr>end_b := b', to_a := post m (to_a l)\<rparr>)"

definition link_step :: "link \<Rightarrow> link \<Rightarrow> bool" where
  "link_step l l' \<longleftrightarrow> link_deliver l l' \<or> link_request l l'"

definition link_init :: "Policy \<Rightarrow> Policy \<Rightarrow> link" where
  "link_init p q =
     \<lparr>end_a = Negotiator_init p, end_b = Negotiator_init q, to_b = [], to_a = []\<rparr>"

inductive_simps link_deliver_iff: "link_deliver l l'"
inductive_simps link_request_iff: "link_request l l'"

section \<open>Properties\<close>

text \<open>
  (C4) Stream round trip. Whatever frames an endpoint sends (escaped data, negotiations,
  subnegotiations, each admissible), and however the transport cuts the byte stream into
  reads, the peer's decoder delivers exactly the data bytes and exactly the events, in
  order, and ends between frames.
\<close>

theorem telnet_stream_roundtrip:
  assumes "list_all frame_ok fs" and "concat chunks = concat (map frame_enc fs)"
  shows "snd (feed_all (\<lambda>d xs. feed xs d [] []) ([], []) join_output Decoder_init chunks)
           = (concat (map frame_data fs), concat (map frame_events fs))
       \<and> dec_state (fst (feed_all (\<lambda>d xs. feed xs d [] []) ([], []) join_output
                            Decoder_init chunks)) \<in> {St_data, St_cr}"
proof -
  have "dec_state Decoder_init \<in> {St_data, St_cr}" by (simp add: Decoder_init_def)
  from tnf.chunked_frames [OF this assms] show ?thesis by (simp add: foldr_join_output)
qed

theorem telnet_stream_roundtrip_witness:
  "snd (feed_all (\<lambda>d xs. feed xs d [] []) ([], []) join_output Decoder_init
     [[104, 255], [255, 255], [253, 1, 255, 250, 24], [0, 255, 255, 255, 240]])
   = ([104, 255], [Negotiation 253 1, Subnegotiation 24 [0, 255]])"
  using telnet_stream_roundtrip
    [of "[F_data [104, 255], F_neg 253 1, F_sub 24 [0, 255]]"
        "[[104, 255], [255, 255], [253, 1, 255, 250, 24], [0, 255, 255, 255, 240]]"]
  by (simp add: telnet_consts negotiation_def subnegotiation_def maxSubnegotiationSize_def)

lemma strip_cr_nul_id_iff:
  "strip_cr_nul b xs = xs \<longleftrightarrow>
     \<not> (b \<and> xs \<noteq> [] \<and> hd xs = 0) \<and> \<not> (\<exists>i. Suc i < length xs \<and> xs ! i = cr_byte \<and> xs ! Suc i = 0)"
proof (induction b xs rule: strip_cr_nul.induct)
  case (1 b)
  then show ?case by simp
next
  case (2 c cs)
  have "length (strip_cr_nul b cs) \<le> length cs" for b
    by (induction b cs rule: strip_cr_nul.induct) (auto simp: le_Suc_eq)
  then have "strip_cr_nul False cs \<noteq> 0 # cs"
    by (metis impossible_Cons)
  with 2 show ?case
    by (auto simp: hd_conv_nth nth_Cons less_Suc_eq_0_disj split: nat.splits)
next
  case (3 c cs)
  then show ?case by (auto simp: hd_conv_nth nth_Cons split: nat.splits)
qed

text \<open>
  The data path. Decoding the escaped form of any byte string yields that string with
  every NUL after a CR removed; so the bytes survive unchanged exactly when no CR is directly
  followed by a NUL, not for every string as the comment on \<open>escapeIac\<close> says.
\<close>

theorem telnet_escape_strips:
  "fst (snd (feed (escapeIac xs) Decoder_init [] [])) = strip_cr_nul False xs
   \<and> snd (snd (feed (escapeIac xs) Decoder_init [] [])) = []
   \<and> (fst (snd (feed (escapeIac xs) Decoder_init [] [])) = xs
      \<longleftrightarrow> \<not> (\<exists>i. Suc i < length xs \<and> xs ! i = cr_byte \<and> xs ! Suc i = 0))"
proof -
  have "dec_state Decoder_init = (if False then St_cr else St_data)"
    by (simp add: Decoder_init_def)
  from feed_escapeIac [OF this, of xs] show ?thesis
    by (auto simp: strip_cr_nul_id_iff)
qed

text \<open>
  Window sizes. A NAWS frame decodes to one subnegotiation event, no data, and its
  payload parses back to the width and height it was built from, for all 16-bit values
  (also those whose bytes are 0xFF and travel escaped).
\<close>

theorem naws_roundtrip:
  "snd (feed (nawsFrame w h) Decoder_init [] []) = ([], [Subnegotiation opt_naws (naws_payload w h)])
   \<and> parseNaws (naws_payload w h) = Some (w, h)"
proof -
  have "dec_state Decoder_init \<in> {St_data, St_cr}" by (simp add: Decoder_init_def)
  moreover have "take maxSubnegotiationSize (naws_payload w h) = naws_payload w h"
    by (simp add: naws_payload_def maxSubnegotiationSize_def)
  ultimately show ?thesis
    by (simp add: nawsFrame_def feed_subnegotiation parse_naws_payload)
qed

text \<open>
  Terminal types. A terminal-type IS frame decodes to one subnegotiation event whose
  payload parses to the name, cut to the 1023 bytes that fit beside the IS byte; the
  name is unchanged when it is no longer than that. A SEND frame parses to no name.
\<close>

theorem terminal_type_roundtrip:
  "\<exists>p. snd (feed (terminalTypeIsFrame name) Decoder_init [] []) = ([], [Subnegotiation opt_terminalType p])
     \<and> parseTerminalTypeIs p = Some (take (maxSubnegotiationSize - 1) name)
   \<and> (\<exists>q. snd (feed terminalTypeSendFrame Decoder_init [] []) = ([], [Subnegotiation opt_terminalType q])
     \<and> parseTerminalTypeIs q = None)"
proof -
  have "dec_state Decoder_init \<in> {St_data, St_cr}" by (simp add: Decoder_init_def)
  then show ?thesis
    by (simp add: terminalTypeIsFrame_def terminalTypeSendFrame_def feed_subnegotiation
        parseTerminalTypeIs_def maxSubnegotiationSize_def take_Cons' telnet_consts)
qed

text \<open>Bounded buffering: the pending payload and every delivered one stay within the limit.\<close>

fun event_bounded :: "Event \<Rightarrow> bool" where
  "event_bounded (Subnegotiation opt p) = (length p \<le> maxSubnegotiationSize)"
| "event_bounded _ = True"

lemma feed_byte_bounded:
  assumes "length (dec_sbPayload d) \<le> maxSubnegotiationSize" and "list_all event_bounded es"
    and "feed_byte c (d, x, es) = (d', x', es')"
  shows "length (dec_sbPayload d') \<le> maxSubnegotiationSize \<and> list_all event_bounded es'"
  using assms
  by (auto simp: dataByte_def onIac_def sbPush_def split: State.splits if_splits)

lemma feed_bounded:
  assumes "length (dec_sbPayload d) \<le> maxSubnegotiationSize" and "list_all event_bounded es"
    and "feed xs d x es = (d', x', es')"
  shows "length (dec_sbPayload d') \<le> maxSubnegotiationSize \<and> list_all event_bounded es'"
  using assms
proof (induction xs arbitrary: d x es)
  case Nil
  then show ?case by simp
next
  case (Cons c cs)
  obtain d1 x1 e1 where b: "feed_byte c (d, x, es) = (d1, x1, e1)" by (metis prod_cases3)
  from feed_byte_bounded [OF Cons.prems(1,2) b] Cons.IH [of d1 e1 x1] Cons.prems(3) show ?case
    by (simp add: feed_Cons b del: feed_byte.simps)
qed

text \<open>
  Bounded memory. Whatever bytes a peer sends, the decoder never buffers more than
  1024 payload bytes and never delivers a longer subnegotiation.
\<close>

theorem telnet_payload_bounded:
  "length (dec_sbPayload (fst (feed xs Decoder_init [] []))) \<le> maxSubnegotiationSize
   \<and> list_all event_bounded (snd (snd (feed xs Decoder_init [] [])))"
proof -
  obtain d x es where f: "feed xs Decoder_init [] [] = (d, x, es)" by (metis prod_cases3)
  have "length (dec_sbPayload Decoder_init) \<le> maxSubnegotiationSize"
    by (simp add: Decoder_init_def)
  from feed_bounded [OF this _ f] f show ?thesis by simp
qed

text \<open>
  A single negotiation dies out. Whatever the states and policies of the two ends, a
  single message is answered by at most four further messages: within five deliveries an
  end has nothing to reply.
\<close>

theorem exchange_quiesces:
  assumes "negotiation_verb v"
  shows "exchange 5 a b (negotiation v opt) \<noteq> None"
proof -
  have "exchange (Suc (Suc (Suc (Suc (Suc 0))))) a b (negotiation v opt) \<noteq> None"
    using assms unfolding negotiation_verb_def
    by (elim disjE) (simp_all add: negotiator_defs)
  then show ?thesis by (simp add: numeral_eq_Suc)
qed

theorem exchange_quiesces_witness:
  "exchange 5 (Negotiator_init \<lparr>policy_local = (\<lambda>_. False), policy_remote = (\<lambda>_. False)\<rparr>)
     (Negotiator_init \<lparr>policy_local = (\<lambda>_. True), policy_remote = (\<lambda>_. True)\<rparr>)
     (negotiation cmd_will opt_echo) \<noteq> None"
  by (rule exchange_quiesces) simp

text \<open>
  Enabling an option. From a state where neither end performs or awaits the option,
  a WILL request is answered once and the answer is not answered again; afterwards both
  ends agree, and the option is on exactly when the peer's policy accepts it.
\<close>

theorem enable_handshake:
  assumes "\<not> localEnabled a opt" "\<not> pending (us a opt)"
    and "\<not> remoteEnabled b opt" "\<not> pending (him b opt)"
    and "request a cmd_will opt = (a1, m)"
  shows "m = negotiation cmd_will opt
     \<and> (\<exists>a2 b1. exchange 2 a1 b m = Some (a2, b1)
          \<and> localEnabled a2 opt = policy_remote (policy b) opt
          \<and> remoteEnabled b1 opt = policy_remote (policy b) opt
          \<and> \<not> pending (us a2 opt) \<and> \<not> pending (him b1 opt))"
  using assms
  by (auto simp: negotiator_defs localEnabled_def remoteEnabled_def numeral_eq_Suc)

theorem enable_handshake_witness:
  "\<exists>a2 b1. exchange 2
       (fst (request (Negotiator_init \<lparr>policy_local = (\<lambda>_. False), policy_remote = (\<lambda>_. False)\<rparr>)
          cmd_will opt_naws))
       (Negotiator_init \<lparr>policy_local = (\<lambda>_. False), policy_remote = (\<lambda>x. x = opt_naws)\<rparr>)
       (negotiation cmd_will opt_naws) = Some (a2, b1)
     \<and> localEnabled a2 opt_naws \<and> remoteEnabled b1 opt_naws"
  using enable_handshake
    [of "Negotiator_init \<lparr>policy_local = (\<lambda>_. False), policy_remote = (\<lambda>_. False)\<rparr>" opt_naws
        "Negotiator_init \<lparr>policy_local = (\<lambda>_. False), policy_remote = (\<lambda>x. x = opt_naws)\<rparr>"]
  by (auto simp: negotiator_defs localEnabled_def remoteEnabled_def Negotiator_init_def
      OptionState_init_def)

text \<open>The run that a withdrawn request starts, and the cycle it enters.\<close>

definition accept_all :: Policy where
  "accept_all = \<lparr>policy_local = (\<lambda>_. True), policy_remote = (\<lambda>_. True)\<rparr>"

definition livelock_state :: "byte \<Rightarrow> link" where
  "livelock_state opt = (link_init accept_all accept_all)
     \<lparr>to_b := [negotiation cmd_will opt, negotiation cmd_wont opt]\<rparr>"

lemmas link_defs = livelock_state_def link_init_def Negotiator_init_def OptionState_init_def
  accept_all_def post_def

lemma livelock_reached:
  "reachable (\<lambda>l. l = link_init accept_all accept_all) link_step (livelock_state opt)"
proof -
  let ?l0 = "link_init accept_all accept_all"
  define l1 where "l1 = ?l0\<lparr>end_a := fst (request (end_a ?l0) cmd_will opt),
     to_b := post (snd (request (end_a ?l0) cmd_will opt)) (to_b ?l0)\<rparr>"
  have 1: "link_step ?l0 l1"
    unfolding link_step_def l1_def by (rule disjI2, rule link_request.from_a) simp
  have "link_request l1 (l1\<lparr>end_a := fst (request (end_a l1) cmd_wont opt),
     to_b := post (snd (request (end_a l1) cmd_wont opt)) (to_b l1)\<rparr>)"
    by (rule link_request.from_a) simp
  also have "l1\<lparr>end_a := fst (request (end_a l1) cmd_wont opt),
     to_b := post (snd (request (end_a l1) cmd_wont opt)) (to_b l1)\<rparr> = livelock_state opt"
    by (simp add: l1_def link_defs negotiator_defs fun_upd_idem)
  finally have "link_step l1 (livelock_state opt)" by (simp add: link_step_def)
  with 1 show ?thesis by (blast intro: reachable.intros)
qed

lemma livelock_cycle: "link_deliver\<^sup>+\<^sup>+ (livelock_state opt) (livelock_state opt)"
proof -
  let ?s0 = "livelock_state opt"
  define s1 where "s1 = ?s0\<lparr>end_b := fst (receive (end_b ?s0) (negotiation cmd_will opt)),
    to_b := [negotiation cmd_wont opt], to_a := [negotiation cmd_doo opt]\<rparr>"
  define s2 where "s2 = ?s0\<lparr>to_b := [], to_a := [negotiation cmd_doo opt, negotiation cmd_dont opt]\<rparr>"
  define s3 where "s3 = s2\<lparr>end_a := fst (receive (end_a s2) (negotiation cmd_doo opt)),
    to_a := [negotiation cmd_dont opt], to_b := [negotiation cmd_will opt]\<rparr>"
  note d = s1_def s2_def s3_def link_deliver_iff link_defs negotiator_defs fun_upd_idem
  have 1: "link_deliver ?s0 s1" by (simp add: d)
  have 2: "link_deliver s1 s2" by (simp add: d)
  have 3: "link_deliver s2 s3" by (simp add: d)
  have 4: "link_deliver s3 ?s0" by (simp add: d)
  from 1 2 3 4 show ?thesis by (meson tranclp.intros)
qed

text \<open>
  A withdrawn request loops for ever. Both ends accept the option; one end sends WILL
  and withdraws it with WONT before the answer. The link then reaches a state from which
  mere deliveries lead back to that same state: the ends exchange WILL/DO and WONT/DONT
  endlessly, with no further request.
\<close>

theorem withdrawn_request_livelock:
  "\<exists>l. reachable (\<lambda>l. l = link_init accept_all accept_all) link_step l
     \<and> link_deliver\<^sup>+\<^sup>+ l l \<and> to_b l \<noteq> []"
proof (intro exI conjI)
  show "reachable (\<lambda>l. l = link_init accept_all accept_all) link_step (livelock_state opt_echo)"
    by (rule livelock_reached)
  show "link_deliver\<^sup>+\<^sup>+ (livelock_state opt_echo) (livelock_state opt_echo)"
    by (rule livelock_cycle)
  show "to_b (livelock_state opt_echo) \<noteq> []" by (simp add: livelock_state_def)
qed

end
