(* ===== verification/Vslip.thy ===== *)
theory Vslip
  imports Prelude
begin

text \<open>
  VSLIP framing, \<open>src/examples/obmc_console/vslip_framer.hpp\<close>: the stateless encoder and the
  stateful decoder that carries a partial frame across reads. The decoder is an instance of
  the stream decoder and frame codec interfaces of the prelude.
\<close>

section \<open>Definitions\<close>

definition vslip_END :: byte where "vslip_END = 0xC0"
definition vslip_ESC :: byte where "vslip_ESC = 0xDB"
definition vslip_ESC_END :: byte where "vslip_ESC_END = 0xDC"
definition vslip_ESC_ESC :: byte where "vslip_ESC_ESC = 0xDD"

lemmas vslip_consts = vslip_END_def vslip_ESC_def vslip_ESC_END_def vslip_ESC_ESC_def

text \<open>The loop of \<open>encode\<close>: the bytes pushed for each payload byte.\<close>

definition escape_byte :: "byte \<Rightarrow> byte list" where
  "escape_byte b =
     (if b = vslip_END then [vslip_ESC, vslip_ESC_END]
      else if b = vslip_ESC then [vslip_ESC, vslip_ESC_ESC]
      else [b])"

definition vslip_encode :: "byte list \<Rightarrow> byte list" where
  "vslip_encode payload = [vslip_END] @ concat (map escape_byte payload) @ [vslip_END]"

record VSlipFramer =
  framer_buf :: "byte list"
  framer_escaping :: bool

definition VSlipFramer_init :: VSlipFramer where
  "VSlipFramer_init = \<lparr>framer_buf = [], framer_escaping = False\<rparr>"

text \<open>One iteration of \<open>feed\<close>, on the framer, the output vector and the completed counter.\<close>

fun framer_byte ::
  "byte \<Rightarrow> VSlipFramer \<times> byte list list \<times> nat \<Rightarrow> VSlipFramer \<times> byte list list \<times> nat" where
  "framer_byte b (f, out, completed) =
     (if framer_escaping f then
        (f\<lparr>framer_escaping := False,
           framer_buf := framer_buf f @
             (if b = vslip_ESC_END then [vslip_END]
              else if b = vslip_ESC_ESC then [vslip_ESC] else [])\<rparr>, out, completed)
      else if b = vslip_END then
        (if framer_buf f \<noteq> []
         then (f\<lparr>framer_buf := []\<rparr>, out @ [framer_buf f], completed + 1)
         else (f, out, completed))
      else if b = vslip_ESC then (f\<lparr>framer_escaping := True\<rparr>, out, completed)
      else (f\<lparr>framer_buf := framer_buf f @ [b]\<rparr>, out, completed))"

definition framer_feed ::
  "byte list \<Rightarrow> VSlipFramer \<Rightarrow> byte list list \<Rightarrow> VSlipFramer \<times> byte list list \<times> nat" where
  "framer_feed raw f out = fold framer_byte raw (f, out, 0)"

definition framer_reset :: "VSlipFramer \<Rightarrow> VSlipFramer" where
  "framer_reset f = f\<lparr>framer_buf := [], framer_escaping := False\<rparr>"

section \<open>The framer as a stream decoder\<close>

lemma framer_byte_frame:
  "framer_byte b (f, out, n) =
     (case framer_byte b (f, [], 0) of (f', x, k) \<Rightarrow> (f', out @ x, n + k))"
  by simp

lemma fold_framer_frame:
  "fold framer_byte bs (f, out, n) =
     (case fold framer_byte bs (f, [], 0) of (f', x, k) \<Rightarrow> (f', out @ x, n + k))"
proof (induction bs arbitrary: f out n)
  case Nil
  then show ?case by simp
next
  case (Cons b bs)
  obtain f1 x1 k1 where b: "framer_byte b (f, [], 0) = (f1, x1, k1)" by (metis prod_cases3)
  obtain f2 x2 k2 where r: "fold framer_byte bs (f1, [], 0) = (f2, x2, k2)" by (metis prod_cases3)
  have "fold framer_byte (b # bs) (f, out, n) = (f2, out @ x1 @ x2, n + k1 + k2)"
    by (simp add: framer_byte_frame [of b f out n] b Cons.IH [of f1 "out @ x1" "n + k1"] r
        del: framer_byte.simps)
  moreover have "fold framer_byte (b # bs) (f, [], 0) = (f2, x1 @ x2, k1 + k2)"
    by (simp add: b Cons.IH [of f1 x1 k1] r del: framer_byte.simps)
  ultimately show ?case by simp
qed

interpretation vs: stream_decoder "\<lambda>f bs. fold framer_byte bs (f, [], 0)" "([], 0)"
  "\<lambda>a b. (fst a @ fst b, snd a + snd b)"
proof
  fix s and xs ys :: "byte list"
  obtain f1 x1 k1 where 1: "fold framer_byte xs (s, [], 0) = (f1, x1, k1)" by (metis prod_cases3)
  show "fold framer_byte (xs @ ys) (s, [], 0) =
      (case fold framer_byte xs (s, [], 0) of (s', out1) \<Rightarrow>
       case fold framer_byte ys (s', [], 0) of (s'', out2) \<Rightarrow>
         (s'', (fst out1 @ fst out2, snd out1 + snd out2)))"
    by (simp add: 1 fold_framer_frame [of ys f1 x1 k1] split: prod.splits)
qed simp

section \<open>Decoding encoded frames\<close>

lemma vslip_neqs [simp]:
  "vslip_END \<noteq> vslip_ESC" "vslip_ESC \<noteq> vslip_END" "vslip_ESC_ESC \<noteq> vslip_ESC_END"
  by (simp_all add: vslip_consts)

lemma framer_escaped_payload:
  "fold framer_byte (concat (map escape_byte p)) (\<lparr>framer_buf = acc, framer_escaping = False\<rparr>, out, n)
     = (\<lparr>framer_buf = acc @ p, framer_escaping = False\<rparr>, out, n)"
  by (induction p arbitrary: acc) (auto simp: escape_byte_def)

lemma framer_encoded:
  "fold framer_byte (vslip_encode p) (\<lparr>framer_buf = acc, framer_escaping = False\<rparr>, out, n)
     = (VSlipFramer_init,
        out @ (if acc = [] then [] else [acc]) @ (if p = [] then [] else [p]),
        n + (if acc = [] then 0 else 1) + (if p = [] then 0 else 1))"
  by (auto simp: vslip_encode_def framer_escaped_payload VSlipFramer_init_def)

interpretation vsf: frame_codec "\<lambda>f bs. fold framer_byte bs (f, [], 0)" "([], 0)"
  "\<lambda>a b. (fst a @ fst b, snd a + snd b)"
  "\<lambda>f. f = VSlipFramer_init" "\<lambda>p. p \<noteq> []" vslip_encode "\<lambda>p. ([p], 1)"
proof
  fix s :: VSlipFramer and f :: "byte list"
  assume "s = VSlipFramer_init" and "f \<noteq> []"
  then show "snd (fold framer_byte (vslip_encode f) (s, [], 0)) = ([f], 1)"
    and "fst (fold framer_byte (vslip_encode f) (s, [], 0)) = VSlipFramer_init"
    using framer_encoded [of f "[]" "[]" 0] by (simp_all add: VSlipFramer_init_def)
qed

lemma vslip_out_fold:
  "foldr (\<lambda>a b. (fst a @ fst b, snd a + snd b)) (map (\<lambda>p. ([p], 1)) ps) ([], 0)
     = (ps, length ps)"
  by (induction ps) auto

section \<open>Properties\<close>

text \<open>
  (C7) VSLIP round trip under any chunking. A sequence of non-empty payloads, each encoded
  and sent, is delivered payload by payload however the reads cut the stream; the completed
  counts add up to the number of payloads and the framer ends empty.
\<close>

theorem vslip_stream_roundtrip:
  assumes "list_all (\<lambda>p. p \<noteq> []) ps" and "concat chunks = concat (map vslip_encode ps)"
  shows "feed_all (\<lambda>f bs. framer_feed bs f []) ([], 0) (\<lambda>a b. (fst a @ fst b, snd a + snd b))
           VSlipFramer_init chunks = (VSlipFramer_init, ps, length ps)"
  using vsf.chunked_frames [OF refl assms] unfolding vslip_out_fold framer_feed_def
  by (auto intro: prod_eqI)

theorem vslip_stream_roundtrip_witness:
  "feed_all (\<lambda>f bs. framer_feed bs f []) ([], 0) (\<lambda>a b. (fst a @ fst b, snd a + snd b))
     VSlipFramer_init [[0xC0, 0x41, 0xDB], [0xDC, 0xC0, 0xC0], [0xDB, 0xDD, 0xC0]]
   = (VSlipFramer_init, [[0x41, 0xC0], [0xDB]], 2)"
  using vslip_stream_roundtrip [of "[[0x41, 0xC0], [0xDB]]"
      "[[0xC0, 0x41, 0xDB], [0xDC, 0xC0, 0xC0], [0xDB, 0xDD, 0xC0]]"]
  by (simp add: vslip_encode_def escape_byte_def vslip_consts)

text \<open>
  Resynchronisation. Whatever bytes came before, as long as they do not end inside an
  escape, the next encoded frame is delivered intact: the leading END flushes what was left
  over as a frame of its own, and the framer is empty afterwards.
\<close>

theorem vslip_resync:
  assumes "\<not> framer_escaping f"
  shows "framer_feed (vslip_encode p) f out =
     (VSlipFramer_init,
      out @ (if framer_buf f = [] then [] else [framer_buf f]) @ (if p = [] then [] else [p]),
      (if framer_buf f = [] then 0 else 1) + (if p = [] then 0 else 1))"
proof -
  have "f = \<lparr>framer_buf = framer_buf f, framer_escaping = False\<rparr>"
    using assms by (cases f) simp
  then show ?thesis
    using framer_encoded [of p "framer_buf f" out 0] by (simp add: framer_feed_def)
qed

theorem vslip_resync_witness:
  "framer_feed (vslip_encode [1, 2]) \<lparr>framer_buf = [7], framer_escaping = False\<rparr> []
   = (VSlipFramer_init, [[7], [1, 2]], 2)"
  using vslip_resync [of "\<lparr>framer_buf = [7], framer_escaping = False\<rparr>" "[1, 2]" "[]"]
  by simp

end
