(* ===== verification/Screen5250.thy ===== *)
theory Screen5250
  imports Prelude
begin

text \<open>
  The IBM 5250 display path of the console client: the EBCDIC table
  (\<open>src/examples/obmc_console/ebcdic.hpp\<close>), the 24 x 80 screen model
  (\<open>screen5250.hpp\<close>) and the order-stream parser (\<open>stream5250_parser.hpp\<close>).
  The fill loop of \<open>repeatToAddress\<close> need not end, so it and everything that calls it return
  an option, with \<open>None\<close> for a call that never returns.
\<close>

unbundle bit_operations_syntax

section \<open>EBCDIC to ASCII\<close>

abbreviation spaces :: "nat \<Rightarrow> string" where
  "spaces n \<equiv> replicate n CHR '' ''"

text \<open>
  The initialisers of the array, one list per row as the source writes and labels them
  (00, 10, 20, ...). The rows labelled 40 and 50 hold fifteen entries each.
\<close>

definition ebcdic_rows :: "string list" where
  "ebcdic_rows =
     [spaces 16,
      spaces 16,
      spaces 16,
      spaces 16,
      spaces 9 @ ''[.<(+|'',
      ''&'' @ spaces 8 @ '']$*);'' @ [CHR 0x5E],
      ''-/'' @ spaces 9 @ '',%_>?'',
      spaces 10 @ '':#@'' @ [CHR 0x27, CHR 0x3D, CHR 0x22],
      '' abcdefghi'' @ spaces 6,
      '' jklmnopqr'' @ spaces 6,
      '' ~stuvwxyz'' @ spaces 6,
      spaces 16,
      ''{ABCDEFGHI'' @ spaces 6,
      ''}JKLMNOPQR'' @ spaces 6,
      [CHR 0x5C] @ '' STUVWXYZ'' @ spaces 6,
      ''0123456789'' @ spaces 6]"

text \<open>The array has 256 elements; those without an initialiser are zero.\<close>

definition kEbcdicToAsciiTable :: string where
  "kEbcdicToAsciiTable =
     concat ebcdic_rows @ replicate (256 - length (concat ebcdic_rows)) (CHR 0x00)"

definition ebcdicToAscii :: "byte \<Rightarrow> char" where
  "ebcdicToAscii e = kEbcdicToAsciiTable ! unat e"

section \<open>The screen\<close>

record Cell5250 =
  ch :: char
  attr :: byte

definition Cell_default :: Cell5250 where
  "Cell_default = \<lparr>ch = CHR '' '', attr = 0x20\<rparr>"

definition ROWS :: int where "ROWS = 24"
definition COLS :: int where "COLS = 80"

record Screen =
  cells :: "Cell5250 list"
  cursorRow :: int
  cursorCol :: int
  inputRow :: int
  inputCol :: int

definition Screen_init :: Screen where
  "Screen_init = \<lparr>cells = replicate (nat (ROWS * COLS)) Cell_default,
     cursorRow = 0, cursorCol = 0, inputRow = 0, inputCol = 0\<rparr>"

definition screen_clear :: "Screen \<Rightarrow> Screen" where
  "screen_clear s = s\<lparr>cells := replicate (length (cells s)) Cell_default,
     cursorRow := 0, cursorCol := 0, inputRow := 0, inputCol := 0\<rparr>"

text \<open>\<open>std::clamp(v, lo, hi)\<close>.\<close>

definition clamp :: "int \<Rightarrow> int \<Rightarrow> int \<Rightarrow> int" where
  "clamp v lo hi = (if v < lo then lo else if hi < v then hi else v)"

definition setCursor :: "int \<Rightarrow> int \<Rightarrow> Screen \<Rightarrow> Screen" where
  "setCursor row col s = s\<lparr>cursorRow := clamp row 0 (ROWS - 1), cursorCol := clamp col 0 (COLS - 1)\<rparr>"

definition setInputCursor :: "int \<Rightarrow> int \<Rightarrow> Screen \<Rightarrow> Screen" where
  "setInputCursor row col s =
     s\<lparr>inputRow := clamp row 0 (ROWS - 1), inputCol := clamp col 0 (COLS - 1)\<rparr>"

definition cell_index :: "int \<Rightarrow> int \<Rightarrow> nat" where
  "cell_index row col = nat (row * COLS + col)"

definition advance :: "Screen \<Rightarrow> Screen" where
  "advance s =
     (if cursorCol s + 1 \<ge> COLS then
        s\<lparr>cursorCol := 0, cursorRow := (if cursorRow s + 1 \<ge> ROWS then 0 else cursorRow s + 1)\<rparr>
      else s\<lparr>cursorCol := cursorCol s + 1\<rparr>)"

definition putChar :: "char \<Rightarrow> byte \<Rightarrow> Screen \<Rightarrow> Screen" where
  "putChar c a s =
     advance (s\<lparr>cells := (cells s)[cell_index (cursorRow s) (cursorCol s) := \<lparr>ch = c, attr = a\<rparr>]\<rparr>)"

text \<open>The fill loop: write and advance until the cursor stands on the target.\<close>

partial_function (option) fill_to :: "int \<Rightarrow> char \<Rightarrow> byte \<Rightarrow> Screen \<Rightarrow> Screen option" where
  "fill_to target c a s =
     (if cursorRow s * COLS + cursorCol s = target then Some s
      else fill_to target c a (putChar c a s))"

definition repeatToAddress :: "int \<Rightarrow> int \<Rightarrow> char \<Rightarrow> byte \<Rightarrow> Screen \<Rightarrow> Screen option" where
  "repeatToAddress toRow toCol c a s = fill_to (toRow * COLS + toCol) c a s"

definition decodeSba :: "byte \<Rightarrow> byte \<Rightarrow> int \<times> int" where
  "decodeSba b0 b1 = (uint (b0 AND 0x3F), uint (b1 AND 0x3F))"

section \<open>The order stream\<close>

text \<open>The loop of \<open>process\<close>, on the part of the record that is still to be read.\<close>

fun orders :: "byte list \<Rightarrow> Screen \<Rightarrow> Screen option" where
  "orders [] s = Some s"
| "orders (b # rest) s =
     (if b = 0x11 then
        (case rest of
           b0 # b1 # rest' \<Rightarrow> (case decodeSba b0 b1 of (row, col) \<Rightarrow> orders rest' (setCursor row col s))
         | _ \<Rightarrow> Some s)
      else if b = 0x13 then orders rest (setInputCursor (cursorRow s) (cursorCol s) s)
      else if b = 0x1D then (case rest of [] \<Rightarrow> Some s | _ # rest' \<Rightarrow> orders rest' s)
      else if b = 0x3C then
        (case rest of
           b0 # b1 # e # rest' \<Rightarrow>
             (case decodeSba b0 b1 of (toRow, toCol) \<Rightarrow>
              case repeatToAddress toRow toCol (ebcdicToAscii e) 0x20 s of
                None \<Rightarrow> None | Some s' \<Rightarrow> orders rest' s')
         | _ \<Rightarrow> Some s)
      else if b = 0x3F then
        (case rest of
           b0 # b1 # rest' \<Rightarrow>
             (case decodeSba b0 b1 of (toRow, toCol) \<Rightarrow>
              case repeatToAddress toRow toCol CHR '' '' 0x20 s of
                None \<Rightarrow> None | Some s' \<Rightarrow> orders rest' s')
         | _ \<Rightarrow> Some s)
      else if b = 0x2B then (case rest of [] \<Rightarrow> Some s | _ # rest' \<Rightarrow> orders rest' s)
      else if b = 0x00 then orders rest s
      else orders rest (putChar (ebcdicToAscii b) 0x20 s))"

definition process :: "byte list \<Rightarrow> Screen \<Rightarrow> Screen option" where
  "process data s =
     (case data of
        [] \<Rightarrow> Some s
      | cmd # rest \<Rightarrow>
          if cmd = 0x40 then Some (screen_clear s)
          else if cmd = 0x11 then orders rest s
          else if cmd = 0xF3 then Some s
          else orders data s)"

section \<open>The cursor and single writes\<close>

definition screen_ok :: "Screen \<Rightarrow> bool" where
  "screen_ok s \<longleftrightarrow> length (cells s) = 1920
     \<and> 0 \<le> cursorRow s \<and> cursorRow s < 24 \<and> 0 \<le> cursorCol s \<and> cursorCol s < 80
     \<and> 0 \<le> inputRow s \<and> inputRow s < 24 \<and> 0 \<le> inputCol s \<and> inputCol s < 80"

definition pos :: "Screen \<Rightarrow> int" where
  "pos s = cursorRow s * 80 + cursorCol s"

lemmas screen_dims = ROWS_def COLS_def

lemma screen_ok_init: "screen_ok Screen_init"
  by (simp add: screen_ok_def Screen_init_def screen_dims)

lemma pos_range: "screen_ok s \<Longrightarrow> 0 \<le> pos s \<and> pos s < 1920"
  by (auto simp: screen_ok_def pos_def)

lemma screen_ok_clear: "screen_ok s \<Longrightarrow> screen_ok (screen_clear s)"
  by (simp add: screen_ok_def screen_clear_def)

lemma screen_ok_setCursor: "screen_ok s \<Longrightarrow> screen_ok (setCursor r c s)"
  by (auto simp: screen_ok_def setCursor_def clamp_def screen_dims)

lemma screen_ok_setInputCursor: "screen_ok s \<Longrightarrow> screen_ok (setInputCursor r c s)"
  by (auto simp: screen_ok_def setInputCursor_def clamp_def screen_dims)

lemma screen_ok_putChar: "screen_ok s \<Longrightarrow> screen_ok (putChar c a s)"
  by (auto simp: screen_ok_def putChar_def advance_def screen_dims)

lemmas screen_ok_intros = screen_ok_init screen_ok_clear screen_ok_setCursor
  screen_ok_setInputCursor screen_ok_putChar

lemma mod_once:
  fixes x m :: int
  assumes "- m \<le> x" and "x < 2 * m"
  shows "x mod m = (if x < 0 then x + m else if x < m then x else x - m)"
proof -
  consider "x < 0" | "0 \<le> x" "x < m" | "m \<le> x" by linarith
  then show ?thesis
  proof cases
    case 1
    have "x mod m = (x + m) mod m" by simp
    also have "\<dots> = x + m" using 1 assms by (intro mod_pos_pos_trivial) auto
    finally show ?thesis using 1 by simp
  next
    case 3
    have "x mod m = (x - m) mod m" by simp
    also have "\<dots> = x - m" using 3 assms by (intro mod_pos_pos_trivial) auto
    finally show ?thesis using 3 assms by simp
  qed simp
qed

lemma pos_putChar:
  assumes "screen_ok s"
  shows "pos (putChar c a s) = (pos s + 1) mod 1920"
  using assms pos_range [OF assms]
  by (auto simp: screen_ok_def pos_def putChar_def advance_def screen_dims mod_once)

lemma cells_putChar:
  "cells (putChar c a s) = (cells s)[nat (pos s) := \<lparr>ch = c, attr = a\<rparr>]"
  by (simp add: putChar_def advance_def cell_index_def pos_def screen_dims)

lemma screen_ok_iterate: "screen_ok s \<Longrightarrow> screen_ok ((putChar c a ^^ n) s)"
  by (induction n) (auto intro: screen_ok_putChar)

lemma pos_iterate: "screen_ok s \<Longrightarrow> pos ((putChar c a ^^ n) s) = (pos s + int n) mod 1920"
proof (induction n)
  case 0
  then show ?case using pos_range [of s] by simp
next
  case (Suc n)
  then show ?case by (simp add: pos_putChar screen_ok_iterate mod_simps ac_simps)
qed

text \<open>Writing \<open>n\<close> characters fills exactly the next \<open>n\<close> cells, in screen order, cyclically.\<close>

lemma cells_iterate:
  assumes "screen_ok s" and "n \<le> 1920" and "i < 1920"
  shows "cells ((putChar c a ^^ n) s) ! i =
     (if (int i - pos s) mod 1920 < int n then \<lparr>ch = c, attr = a\<rparr> else cells s ! i)"
  using assms(2)
proof (induction n)
  case 0
  then show ?case by simp
next
  case (Suc n)
  let ?s = "(putChar c a ^^ n) s"
  have len: "length (cells ?s) = 1920"
    using screen_ok_iterate [OF assms(1)] by (simp add: screen_ok_def)
  have eq: "nat (pos ?s) = i \<longleftrightarrow> (int i - pos s) mod 1920 = int n"
  proof -
    have "int i = (pos s + int n) mod 1920 \<longleftrightarrow> (int i - pos s) mod 1920 = int n"
      using pos_range [OF assms(1)] assms(3) Suc.prems by (auto simp: mod_once)
    then show ?thesis using pos_iterate [OF assms(1)] by auto
  qed
  show ?case
    using Suc eq assms(3) len by (auto simp: cells_putChar nth_list_update)
qed

section \<open>The fill loop\<close>

text \<open>A target on the screen is reached, after the cyclic distance from the cursor.\<close>

lemma fill_to_reaches:
  assumes "screen_ok s" and "0 \<le> target" and "target < 1920"
  shows "fill_to target c a s = Some ((putChar c a ^^ nat ((target - pos s) mod 1920)) s)"
  using assms(1)
proof (induction "nat ((target - pos s) mod 1920)" arbitrary: s)
  case 0
  then have "(target - pos s) mod 1920 = 0"
    using pos_mod_sign [of 1920 "target - pos s"] by simp
  then have "pos s = target"
    using pos_range [OF 0(2)] assms(2,3) by (simp add: mod_once split: if_splits)
  with 0(1) show ?case
    by (subst fill_to.simps) (simp add: pos_def COLS_def)
next
  case (Suc n)
  let ?t = "putChar c a s"
  have d: "(target - pos s) mod 1920 = int n + 1" using Suc(2) by simp
  have ne: "pos s \<noteq> target" using d by auto
  have "(target - pos ?t) mod 1920 = int n"
    using d pos_range [OF Suc(3)] assms(2,3)
    by (auto simp: pos_putChar [OF Suc(3)] mod_once split: if_splits)
  then have "n = nat ((target - pos ?t) mod 1920)" by simp
  with Suc(1) [OF this screen_ok_putChar [OF Suc(3)]]
  have "fill_to target c a ?t = Some ((putChar c a ^^ n) ?t)" by simp
  then have "fill_to target c a s = Some ((putChar c a ^^ n) ?t)"
    using ne by (subst fill_to.simps) (simp add: pos_def COLS_def)
  also have "(putChar c a ^^ n) ?t = (putChar c a ^^ nat ((target - pos s) mod 1920)) s"
    unfolding Suc(2) [symmetric] by (simp add: funpow_swap1)
  finally show ?case .
qed

text \<open>If the loop returns, the cursor stands on the target; so a target off the screen is never reached.\<close>

lemma fill_to_returns:
  assumes "fill_to target c a s = Some r"
  shows "screen_ok s \<longrightarrow> screen_ok r \<and> pos r = target"
proof (rule fill_to.raw_induct
    [where P = "\<lambda>target c a s r. screen_ok s \<longrightarrow> screen_ok r \<and> pos r = target", OF _ assms])
  fix f target c a s r
  assume IH: "\<And>target c a s r. f target c a s = Some r \<Longrightarrow>
      screen_ok s \<longrightarrow> screen_ok r \<and> pos r = target"
    and eq: "(if cursorRow s * COLS + cursorCol s = target then Some s
      else f target c a (putChar c a s)) = Some r"
  show "screen_ok s \<longrightarrow> screen_ok r \<and> pos r = target"
    using eq IH [of target c a "putChar c a s" r]
    by (auto simp: pos_def COLS_def intro: screen_ok_putChar split: if_splits)
qed

lemma fill_to_diverges:
  assumes "screen_ok s" and "1920 \<le> target"
  shows "fill_to target c a s = None"
proof (cases "fill_to target c a s")
  case (Some r)
  with fill_to_returns [OF Some] assms pos_range [of r] show ?thesis by auto
qed simp

lemma six_bits:
  fixes b :: byte
  shows "0 \<le> uint (b AND 0x3F) \<and> uint (b AND 0x3F) < 64"
proof -
  have "b AND 0x3F \<le> (0x3F :: byte)" by (rule word_and_le1)
  then show ?thesis by (simp add: word_le_def)
qed

section \<open>Which records the parser finishes\<close>

definition sba_row :: "byte \<Rightarrow> int" where "sba_row b0 = uint (b0 AND 0x3F)"

text \<open>All fill orders of the stream aim at one of the 24 rows.\<close>

fun fills_on_screen :: "byte list \<Rightarrow> bool" where
  "fills_on_screen [] = True"
| "fills_on_screen (b # rest) =
     (if b = 0x11 then (case rest of b0 # b1 # rest' \<Rightarrow> fills_on_screen rest' | _ \<Rightarrow> True)
      else if b = 0x1D \<or> b = 0x2B then (case rest of [] \<Rightarrow> True | _ # rest' \<Rightarrow> fills_on_screen rest')
      else if b = 0x3C then
        (case rest of b0 # b1 # e # rest' \<Rightarrow> sba_row b0 < 24 \<and> fills_on_screen rest' | _ \<Rightarrow> True)
      else if b = 0x3F then
        (case rest of b0 # b1 # rest' \<Rightarrow> sba_row b0 < 24 \<and> fills_on_screen rest' | _ \<Rightarrow> True)
      else fills_on_screen rest)"

lemma repeat_cases:
  fixes b0 b1 :: byte
  assumes "screen_ok s"
  shows "sba_row b0 < 24 \<Longrightarrow> \<exists>s'. repeatToAddress (uint (b0 AND 0x3F)) (uint (b1 AND 0x3F)) c a s = Some s' \<and> screen_ok s'"
    and "\<not> sba_row b0 < 24 \<Longrightarrow> repeatToAddress (uint (b0 AND 0x3F)) (uint (b1 AND 0x3F)) c a s = None"
proof -
  note b = six_bits [of b0] six_bits [of b1]
  show "\<exists>s'. repeatToAddress (uint (b0 AND 0x3F)) (uint (b1 AND 0x3F)) c a s = Some s' \<and> screen_ok s'"
    if "sba_row b0 < 24"
    using that b assms
    by (auto simp: repeatToAddress_def sba_row_def COLS_def fill_to_reaches screen_ok_iterate)
  show "repeatToAddress (uint (b0 AND 0x3F)) (uint (b1 AND 0x3F)) c a s = None"
    if "\<not> sba_row b0 < 24"
  proof -
    have "1920 \<le> uint (b0 AND 0x3F) * COLS + uint (b1 AND 0x3F)"
      using that b unfolding sba_row_def COLS_def by linarith
    then show ?thesis by (simp add: repeatToAddress_def fill_to_diverges [OF assms])
  qed
qed

definition parser_total :: "byte list \<Rightarrow> Screen \<Rightarrow> bool" where
  "parser_total bs s \<longleftrightarrow>
     (if fills_on_screen bs then (\<exists>s'. orders bs s = Some s' \<and> screen_ok s') else orders bs s = None)"

lemma parser_total_fill:
  fixes b0 b1 :: byte
  assumes "screen_ok s"
    and "\<And>s'. screen_ok s' \<Longrightarrow> parser_total rest' s'"
  shows "(if sba_row b0 < 24 \<and> fills_on_screen rest'
     then \<exists>s'. (case repeatToAddress (uint (b0 AND 0x3F)) (uint (b1 AND 0x3F)) c a s of
                   None \<Rightarrow> None | Some s' \<Rightarrow> orders rest' s') = Some s' \<and> screen_ok s'
     else (case repeatToAddress (uint (b0 AND 0x3F)) (uint (b1 AND 0x3F)) c a s of
                   None \<Rightarrow> None | Some s' \<Rightarrow> orders rest' s') = None)"
proof (cases "sba_row b0 < 24")
  case True
  then obtain s' where "repeatToAddress (uint (b0 AND 0x3F)) (uint (b1 AND 0x3F)) c a s = Some s'"
    and "screen_ok s'" using repeat_cases(1) [OF assms(1)] by blast
  with assms(2) [of s'] True show ?thesis by (simp add: parser_total_def)
next
  case False
  then show ?thesis using repeat_cases(2) [OF assms(1)] by simp
qed

lemmas parser_total_simps = parser_total_def decodeSba_def

lemma parser_total_sba:
  assumes ok: "screen_ok s"
    and IH: "\<And>r s'. length r \<le> length rest \<Longrightarrow> screen_ok s' \<Longrightarrow> parser_total r s'"
  shows "parser_total (0x11 # rest) s"
proof (cases "\<exists>b0 b1 r. rest = b0 # b1 # r")
  case True
  then obtain b0 b1 r where r: "rest = b0 # b1 # r" by blast
  from IH [of r] ok r show ?thesis by (simp add: parser_total_simps screen_ok_setCursor)
next
  case False
  then have "rest = [] \<or> (\<exists>x. rest = [x])" by (metis list.exhaust)
  with ok show ?thesis by (auto simp: parser_total_simps)
qed

lemma parser_total_ra:
  assumes ok: "screen_ok s"
    and IH: "\<And>r s'. length r \<le> length rest \<Longrightarrow> screen_ok s' \<Longrightarrow> parser_total r s'"
  shows "parser_total (0x3C # rest) s"
proof (cases "\<exists>b0 b1 e r. rest = b0 # b1 # e # r")
  case True
  then obtain b0 b1 e r where r: "rest = b0 # b1 # e # r" by blast
  from parser_total_fill [OF ok, of r b0 b1] IH [of r] r show ?thesis
    by (simp add: parser_total_simps)
next
  case False
  then have "rest = [] \<or> (\<exists>x. rest = [x]) \<or> (\<exists>x y. rest = [x, y])" by (metis list.exhaust)
  with ok show ?thesis by (auto simp: parser_total_simps)
qed

lemma parser_total_ea:
  assumes ok: "screen_ok s"
    and IH: "\<And>r s'. length r \<le> length rest \<Longrightarrow> screen_ok s' \<Longrightarrow> parser_total r s'"
  shows "parser_total (0x3F # rest) s"
proof (cases "\<exists>b0 b1 r. rest = b0 # b1 # r")
  case True
  then obtain b0 b1 r where r: "rest = b0 # b1 # r" by blast
  from parser_total_fill [OF ok, of r b0 b1] IH [of r] r show ?thesis
    by (simp add: parser_total_simps)
next
  case False
  then have "rest = [] \<or> (\<exists>x. rest = [x])" by (metis list.exhaust)
  with ok show ?thesis by (auto simp: parser_total_simps)
qed

lemma parser_total_other:
  assumes ok: "screen_ok s" and b: "b \<noteq> 0x11" "b \<noteq> 0x3C" "b \<noteq> 0x3F"
    and IH: "\<And>r s'. length r \<le> length rest \<Longrightarrow> screen_ok s' \<Longrightarrow> parser_total r s'"
  shows "parser_total (b # rest) s"
proof (cases "b = 0x1D \<or> b = 0x2B")
  case True
  with IH [of "tl rest"] ok show ?thesis by (cases rest) (auto simp: parser_total_def)
next
  case False
  with IH [of rest s] IH [of rest "setInputCursor (cursorRow s) (cursorCol s) s"]
    IH [of rest "putChar (ebcdicToAscii b) 0x20 s"] ok b show ?thesis
    by (simp add: parser_total_def screen_ok_putChar screen_ok_setInputCursor)
qed

lemma parser_total_all: "screen_ok s \<Longrightarrow> parser_total bs s"
proof (induction bs arbitrary: s rule: length_induct)
  case (1 bs)
  show ?case
  proof (cases bs)
    case Nil
    with 1 show ?thesis by (simp add: parser_total_def)
  next
    case (Cons b rest)
    have IH: "parser_total r s'" if "length r \<le> length rest" and "screen_ok s'" for r s'
      using 1 that Cons by simp
    note orders = parser_total_sba parser_total_ra parser_total_ea parser_total_other
    consider "b = 0x11" | "b = 0x3C" | "b = 0x3F" | "b \<noteq> 0x11" "b \<noteq> 0x3C" "b \<noteq> 0x3F" by blast
    then show ?thesis
      by cases (simp_all only: Cons, (rule orders [OF \<open>screen_ok s\<close>]; simp add: IH)+)
  qed
qed

section \<open>Properties\<close>

text \<open>The part of a record that \<open>process\<close> reads as orders.\<close>

definition record_orders :: "byte list \<Rightarrow> byte list" where
  "record_orders data =
     (case data of
        [] \<Rightarrow> []
      | cmd # rest \<Rightarrow> if cmd = 0x40 \<or> cmd = 0xF3 then [] else if cmd = 0x11 then rest else data)"

text \<open>
  (C37) The parser's liveness. On a well-formed screen, processing a record returns exactly
  when every fill order (RA, EA) in it names a row below 24, and then the screen is
  well-formed again; with a row of 24 or more (the six address bits allow up to 63) the
  fill loop never meets its target and the call does not return.
\<close>

theorem process_returns_iff:
  assumes "screen_ok s"
  shows "(process data s = None \<longleftrightarrow> \<not> fills_on_screen (record_orders data))
     \<and> (\<forall>s'. process data s = Some s' \<longrightarrow> screen_ok s')"
  using assms parser_total_all [OF assms, of data] parser_total_all [OF assms, of "tl data"]
  by (cases data)
     (auto simp: process_def record_orders_def parser_total_def screen_ok_clear
        simp del: orders.simps(2) fills_on_screen.simps(2) split: if_splits)

theorem process_returns_iff_witness:
  "process [0x11, 0x3F, 24, 0] Screen_init = None
   \<and> process [0x11, 0x3F, 0, 2] Screen_init \<noteq> None"
  using process_returns_iff [OF screen_ok_init, of "[0x11, 0x3F, 24, 0]"]
    process_returns_iff [OF screen_ok_init, of "[0x11, 0x3F, 0, 2]"]
  by (simp add: record_orders_def sba_row_def)

text \<open>
  What a fill writes. A fill to a position on the screen returns; the cells from the
  cursor up to the target, counted cyclically in screen order, hold the character, all
  other cells are as before, and the cursor stands on the target.
\<close>

theorem repeatToAddress_fills:
  assumes "screen_ok s" and "0 \<le> toRow" "toRow < 24" and "0 \<le> toCol" "toCol < 80"
  shows "\<exists>s'. repeatToAddress toRow toCol c a s = Some s' \<and> screen_ok s'
     \<and> pos s' = toRow * 80 + toCol
     \<and> (\<forall>i < 1920. cells s' ! i =
          (if (int i - pos s) mod 1920 < (toRow * 80 + toCol - pos s) mod 1920
           then \<lparr>ch = c, attr = a\<rparr> else cells s ! i))"
proof -
  let ?target = "toRow * 80 + toCol"
  let ?n = "nat ((?target - pos s) mod 1920)"
  have t: "0 \<le> ?target" "?target < 1920" using assms by simp_all
  have n: "?n \<le> 1920" "int ?n = (?target - pos s) mod 1920"
    using pos_mod_bound [of 1920 "?target - pos s"] by simp_all
  have r: "repeatToAddress toRow toCol c a s = Some ((putChar c a ^^ ?n) s)"
    using fill_to_reaches [OF assms(1) t] by (simp add: repeatToAddress_def COLS_def)
  moreover from fill_to_returns [OF r [unfolded repeatToAddress_def]] assms(1)
  have "screen_ok ((putChar c a ^^ ?n) s) \<and> pos ((putChar c a ^^ ?n) s) = ?target"
    by (simp add: COLS_def)
  ultimately show ?thesis
    using cells_iterate [OF assms(1) n(1)] n(2) by auto
qed

theorem repeatToAddress_fills_witness:
  "\<exists>s'. repeatToAddress 1 2 CHR ''x'' 0x20 Screen_init = Some s' \<and> pos s' = 82
     \<and> cells s' ! 81 = \<lparr>ch = CHR ''x'', attr = 0x20\<rparr>"
proof -
  obtain s' where s': "repeatToAddress 1 2 CHR ''x'' 0x20 Screen_init = Some s'"
    and p: "pos s' = 1 * 80 + 2"
    and c: "\<forall>i < 1920. cells s' ! i =
          (if (int i - pos Screen_init) mod 1920 < (1 * 80 + 2 - pos Screen_init) mod 1920
           then \<lparr>ch = CHR ''x'', attr = 0x20\<rparr> else cells Screen_init ! i)"
    using repeatToAddress_fills [OF screen_ok_init, of 1 2 "CHR ''x''" "0x20"] by auto
  have "cells s' ! 81 = \<lparr>ch = CHR ''x'', attr = 0x20\<rparr>"
    using c [rule_format, of 81] by (simp add: pos_def Screen_init_def)
  with s' p show ?thesis by auto
qed

text \<open>
  The EBCDIC table is shifted. Every entry that the source writes in the rows labelled
  60 to F0 is stored two places before its label, because the rows 40 and 50 lack an entry
  each: code 0xC1, the letter A of code page 037, is shown as C, the digit codes are two
  off, and the last two codes are NUL instead of a space.
\<close>

theorem ebcdic_table_shifted:
  "list_all (\<lambda>r. list_all (\<lambda>k. kEbcdicToAsciiTable ! (16 * r + k - 2) = ebcdic_rows ! r ! k) [0..<16])
     [6..<16]
   \<and> ebcdic_rows ! 12 ! 1 = CHR ''A'' \<and> ebcdicToAscii 0xC1 = CHR ''C''
   \<and> ebcdicToAscii 0xF0 = CHR ''2''
   \<and> ebcdicToAscii 0xFE = CHR 0x00 \<and> ebcdicToAscii 0xFF = CHR 0x00"
  by code_simp

end
