(* ===== verification/Ibmi.thy ===== *)
theory Ibmi
  imports Vslip Screen5250
begin

text \<open>
  The IBM i console: the dummy host (\<open>src/examples/obmc_console/ibmi_emulator.hpp\<close>) and the
  client that talks to it (\<open>ibmi_console_client.cpp\<close>: keyboard mapping, disconnect escape,
  receive step). Host and client share the framing of \<open>Vslip\<close> and the screen of
  \<open>Screen5250\<close>. A frame handler returns an option, with \<open>None\<close> for the
  \<open>std::out_of_range\<close> that \<open>std::string::insert\<close> and \<open>erase\<close> raise.
\<close>

section \<open>Text encoding\<close>

text \<open>The search loop of \<open>asciiToEbcdic\<close>: the index of the first table entry equal to the character.\<close>

fun table_search :: "string \<Rightarrow> char \<Rightarrow> nat \<Rightarrow> nat option" where
  "table_search [] c i = None"
| "table_search (t # ts) c i = (if t = c then Some i else table_search ts c (i + 1))"

definition asciiToEbcdic :: "char \<Rightarrow> byte" where
  "asciiToEbcdic ascii =
     (if ascii = CHR '' '' then 0x40
      else case table_search kEbcdicToAsciiTable ascii 0 of
             Some i \<Rightarrow> of_nat i
           | None \<Rightarrow> 0x40)"

section \<open>The host\<close>

datatype EmScreen = signOn | menu
datatype EmField = user | password | selection

record IbmiEmulator =
  em_framer :: VSlipFramer
  em_screen :: EmScreen
  em_field :: EmField
  em_user :: string
  em_password :: string
  em_selection :: string
  em_status :: string
  em_cursor :: nat
  em_closed :: bool

definition IbmiEmulator_init :: IbmiEmulator where
  "IbmiEmulator_init = \<lparr>em_framer = VSlipFramer_init, em_screen = signOn, em_field = user,
     em_user = '''', em_password = '''', em_selection = '''',
     em_status = ''Enter DEMO and PASSWORD to sign on.'', em_cursor = 0, em_closed = False\<rparr>"

definition validUser :: string where "validUser = ''DEMO''"
definition validPassword :: string where "validPassword = ''PASSWORD''"
definition maxInputLength :: nat where "maxInputLength = 20"

text \<open>\<open>std::string::erase(pos, 1)\<close> and \<open>std::string::insert(pos, 1, c)\<close>.\<close>

definition str_erase :: "nat \<Rightarrow> string \<Rightarrow> string option" where
  "str_erase p s = (if length s < p then None else Some (take p s @ drop (p + 1) s))"

definition str_insert :: "nat \<Rightarrow> char \<Rightarrow> string \<Rightarrow> string option" where
  "str_insert p c s = (if length s < p then None else Some (take p s @ [c] @ drop p s))"

text \<open>The string that the local pointer \<open>input\<close> of \<open>processFrame\<close> designates.\<close>

definition em_input :: "IbmiEmulator \<Rightarrow> string" where
  "em_input e =
     (case em_screen e of
        signOn \<Rightarrow> (if em_field e = user then em_user e else em_password e)
      | menu \<Rightarrow> em_selection e)"

definition set_input :: "string \<Rightarrow> IbmiEmulator \<Rightarrow> IbmiEmulator" where
  "set_input t e =
     (case em_screen e of
        signOn \<Rightarrow> (if em_field e = user then e\<lparr>em_user := t\<rparr> else e\<lparr>em_password := t\<rparr>)
      | menu \<Rightarrow> e\<lparr>em_selection := t\<rparr>)"

definition writeText :: "byte list \<Rightarrow> byte \<Rightarrow> byte \<Rightarrow> string \<Rightarrow> byte list" where
  "writeText display row column t = display @ [0x11, row, column] @ map asciiToEbcdic t"

definition em_setInputCursor :: "byte list \<Rightarrow> byte \<Rightarrow> byte \<Rightarrow> byte list" where
  "em_setInputCursor display row column = display @ [0x11, row, column, 0x1D, 0x20, 0x13]"

definition signOn_display :: "IbmiEmulator \<Rightarrow> byte list" where
  "signOn_display e =
     (let d = [0x11];
          d = writeText d 1 0 ''IBM i DUMMY CONSOLE                         SYSTEM: TESTIBMI'';
          d = writeText d 2 0 ''5250 emulator source for ibmi_console_client testing'';
          d = writeText d 4 0 ''                         Sign On'';
          d = writeText d 7 8 ''User . . . . . . . . . . . . . . . . . . . .:'';
          d = writeText d 7 56 (em_user e);
          d = writeText d 9 8 ''Password . . . . . . . . . . . . . . . . . .:'';
          d = writeText d 9 56 (replicate (length (em_password e)) CHR ''*'');
          d = writeText d 13 0 (em_status e);
          d = writeText d 20 0 ''Enter=Next/Sign on   Up/Down=Change field'';
          d = writeText d 22 0 ''F3=Exit   F12=Clear fields''
      in em_setInputCursor d (if em_field e = user then 7 else 9) (of_nat (56 + em_cursor e)))"

definition menu_display :: "IbmiEmulator \<Rightarrow> byte list" where
  "menu_display e =
     (let d = [0x11];
          d = writeText d 1 0 ''IBM i DUMMY CONSOLE                         SYSTEM: TESTIBMI'';
          d = writeText d 4 0 ''                        Main Menu'';
          d = writeText d 7 8 ''1. Work with user profiles'';
          d = writeText d 9 8 ''2. Work with jobs'';
          d = writeText d 11 8 ''3. Display system status'';
          d = writeText d 14 8 ''Selection . . . . . . . . . . . . . . . . . .:'';
          d = writeText d 14 56 (em_selection e);
          d = writeText d 17 0 (em_status e);
          d = writeText d 20 0 ''Type 1, 2, or 3 and press Enter.'';
          d = writeText d 22 0 ''F3=Exit   F12=Sign off''
      in em_setInputCursor d 14 (of_nat (56 + em_cursor e)))"

definition makeDisplay :: "IbmiEmulator \<Rightarrow> byte list" where
  "makeDisplay e =
     (if em_closed e then vslip_encode [0x40]
      else vslip_encode [0x40] @
           vslip_encode (if em_screen e = signOn then signOn_display e else menu_display e))"

definition initialDisplay :: "IbmiEmulator \<Rightarrow> byte list" where
  "initialDisplay e = makeDisplay e"

text \<open>The cases of the key switch, in the order of the source.\<close>

definition enter_key :: "IbmiEmulator \<Rightarrow> IbmiEmulator" where
  "enter_key e =
     (if em_screen e = signOn \<and> em_field e = user then
        e\<lparr>em_field := password, em_cursor := length (em_password e),
          em_status := ''Enter password, then press Enter.''\<rparr>
      else if em_screen e = signOn then
        (if em_user e = validUser \<and> em_password e = validPassword then
           e\<lparr>em_screen := menu, em_field := selection, em_cursor := 0,
             em_status := ''Sign on successful. Select an option.''\<rparr>
         else
           e\<lparr>em_password := '''', em_cursor := 0,
             em_status := ''Sign on failed. Use DEMO / PASSWORD.''\<rparr>)
      else if em_selection e = ''1'' \<or> em_selection e = ''2'' \<or> em_selection e = ''3'' then
        e\<lparr>em_status := ''Option '' @ em_selection e @ '' selected.'', em_selection := '''',
          em_cursor := 0\<rparr>
      else e\<lparr>em_status := ''Enter 1, 2, or 3.''\<rparr>)"

definition clear_key :: "IbmiEmulator \<Rightarrow> IbmiEmulator" where
  "clear_key e =
     (if em_screen e = menu then
        e\<lparr>em_screen := signOn, em_field := user, em_user := '''', em_password := '''',
          em_selection := '''', em_status := ''Signed off. Enter DEMO and PASSWORD.'',
          em_cursor := 0\<rparr>
      else
        e\<lparr>em_user := '''', em_password := '''', em_field := user,
          em_status := ''Fields cleared.'', em_cursor := 0\<rparr>)"

definition backspace_key :: "IbmiEmulator \<Rightarrow> IbmiEmulator option" where
  "backspace_key e =
     (if em_cursor e > 0 then
        (case str_erase (em_cursor e - 1) (em_input e) of
           None \<Rightarrow> None
         | Some t \<Rightarrow> Some (set_input t e\<lparr>em_cursor := em_cursor e - 1\<rparr>))
      else Some e)"

definition right_key :: "IbmiEmulator \<Rightarrow> IbmiEmulator" where
  "right_key e = (if em_cursor e < length (em_input e) then e\<lparr>em_cursor := em_cursor e + 1\<rparr> else e)"

definition left_key :: "IbmiEmulator \<Rightarrow> IbmiEmulator" where
  "left_key e = (if em_cursor e > 0 then e\<lparr>em_cursor := em_cursor e - 1\<rparr> else e)"

definition change_field :: "IbmiEmulator \<Rightarrow> IbmiEmulator" where
  "change_field e =
     (if em_screen e = signOn then
        (if em_field e = user
         then e\<lparr>em_field := password, em_cursor := length (em_password e)\<rparr>
         else e\<lparr>em_field := user, em_cursor := length (em_user e)\<rparr>)
      else e)"

fun type_chars :: "byte list \<Rightarrow> IbmiEmulator \<Rightarrow> IbmiEmulator option" where
  "type_chars [] e = Some e"
| "type_chars (b # bs) e =
     (if ebcdicToAscii b \<noteq> CHR '' '' \<and> length (em_input e) < maxInputLength then
        (case str_insert (em_cursor e) (ebcdicToAscii b) (em_input e) of
           None \<Rightarrow> None
         | Some t \<Rightarrow> type_chars bs (set_input t e\<lparr>em_cursor := em_cursor e + 1\<rparr>))
      else type_chars bs e)"

text \<open>\<open>processFrame\<close> reads \<open>frame.front()\<close>; its caller never passes an empty frame.\<close>

definition processFrame :: "byte list \<Rightarrow> IbmiEmulator \<Rightarrow> IbmiEmulator option" where
  "processFrame frame e =
     (case frame of
        [] \<Rightarrow> None
      | k # _ \<Rightarrow>
          if k = 0xF1 then Some (enter_key e)
          else if k = 0x33 then Some (e\<lparr>em_closed := True\<rparr>)
          else if k = 0x3C then Some (clear_key e)
          else if k = 0x15 then backspace_key e
          else if k = 0x1A then Some (right_key e)
          else if k = 0x1B then Some (left_key e)
          else if k = 0x18 \<or> k = 0x19 then Some (change_field e)
          else type_chars frame e)"

fun process_frames :: "byte list list \<Rightarrow> IbmiEmulator \<Rightarrow> IbmiEmulator option" where
  "process_frames [] e = Some e"
| "process_frames (f # fs) e =
     (if f \<noteq> [] then
        (case processFrame f e of None \<Rightarrow> None | Some e' \<Rightarrow> process_frames fs e')
      else process_frames fs e)"

definition em_process :: "byte list \<Rightarrow> IbmiEmulator \<Rightarrow> (IbmiEmulator \<times> byte list) option" where
  "em_process inp e =
     (case framer_feed inp (em_framer e) [] of (fr, frames, _) \<Rightarrow>
      case process_frames frames (e\<lparr>em_framer := fr\<rparr>) of
        None \<Rightarrow> None
      | Some e' \<Rightarrow> Some (e', makeDisplay e'))"

section \<open>The client\<close>

definition Aid_ENTER :: byte where "Aid_ENTER = 0xF1"
definition Aid_F1 :: byte where "Aid_F1 = 0x31"
definition Aid_PA1 :: byte where "Aid_PA1 = 0x6C"
definition Aid_PA2 :: byte where "Aid_PA2 = 0x6E"

definition makeAidRecord :: "byte \<Rightarrow> int \<Rightarrow> int \<Rightarrow> byte list" where
  "makeAidRecord aid row col = [aid, of_int (row AND 0x3F), of_int (col AND 0x3F)]"

text \<open>
  The decimal number of a function-key sequence, accumulated in an \<open>int\<close>; \<open>None\<close> when a step
  leaves the range of a 32-bit \<open>int\<close>, which is undefined behaviour in the source.
\<close>

fun fn_number :: "byte list \<Rightarrow> int \<Rightarrow> int option" where
  "fn_number [] n = Some n"
| "fn_number (b # bs) n =
     (if 0x30 \<le> b \<and> b \<le> 0x39 then
        (let n' = n * 10 + (uint b - 0x30) in if n' < 2 ^ 31 then fn_number bs n' else None)
      else Some n)"

text \<open>The AID byte of the numbered function-key sequences.\<close>

definition fn_aid :: "int \<Rightarrow> byte option" where
  "fn_aid n =
     (if n = 5 then Some Aid_PA1 else if n = 6 then Some Aid_PA2
      else if 11 \<le> n \<and> n \<le> 15 then Some (of_int (0x31 + (n - 11)))
      else if 17 \<le> n \<and> n \<le> 21 then Some (of_int (0x36 + (n - 17)))
      else if n = 23 then Some 0x3B else if n = 24 then Some 0x3C
      else None)"

definition mapInput :: "byte list \<Rightarrow> Screen \<Rightarrow> byte list option" where
  "mapInput raw s =
     (let aid = (\<lambda>a. makeAidRecord a (inputRow s) (inputCol s)) in
      if raw = [] then Some []
      else if length raw = 1 \<and> (raw ! 0 = 0x0D \<or> raw ! 0 = 0x0A) then Some (aid Aid_ENTER)
      else if length raw = 1 \<and> (raw ! 0 = 0x08 \<or> raw ! 0 = 0x7F) then Some [0x15]
      else if length raw = 3 \<and> raw ! 0 = 0x1B \<and> raw ! 1 = 0x5B then
        Some (if raw ! 2 = 0x41 then [0x18] else if raw ! 2 = 0x42 then [0x19]
              else if raw ! 2 = 0x43 then [0x1A] else if raw ! 2 = 0x44 then [0x1B] else [])
      else if length raw \<ge> 4 \<and> raw ! 0 = 0x1B \<and> raw ! 1 = 0x5B then
        (case fn_number (drop 2 raw) 0 of
           None \<Rightarrow> None
         | Some n \<Rightarrow> Some (case fn_aid n of None \<Rightarrow> [] | Some a \<Rightarrow> aid a))
      else if length raw = 3 \<and> raw ! 0 = 0x1B \<and> raw ! 1 = 0x4F \<and> 0x50 \<le> raw ! 2 \<and> raw ! 2 \<le> 0x53 then
        Some (aid (Aid_F1 + raw ! 2 - 0x50))
      else Some (map (\<lambda>b. asciiToEbcdic (char_of (unat b)))
             (filter (\<lambda>b. 0x20 \<le> b \<and> b \<le> 0x7E) raw)))"

text \<open>The disconnect escape of \<open>sendLoop\<close>: Enter, tilde, dot. The flag is the early return.\<close>

datatype EscState = EscNormal | AfterNewline | AfterTilde

definition esc_step :: "byte \<Rightarrow> EscState \<Rightarrow> EscState \<times> bool" where
  "esc_step c st =
     (case st of
        EscNormal \<Rightarrow> (if c = 0x0D \<or> c = 0x0A then AfterNewline else EscNormal, False)
      | AfterNewline \<Rightarrow> (if c = 0x7E then AfterTilde else EscNormal, False)
      | AfterTilde \<Rightarrow> if c = 0x2E then (AfterTilde, True) else (EscNormal, False))"

fun esc_scan :: "byte list \<Rightarrow> EscState \<Rightarrow> EscState \<times> bool" where
  "esc_scan [] st = (st, False)"
| "esc_scan (c # cs) st =
     (case esc_step c st of (st', quit) \<Rightarrow> if quit then (st', True) else esc_scan cs st')"

text \<open>
  One iteration of \<open>sendLoop\<close> on a buffer read from the keyboard: \<open>Inl\<close> when the session
  ends, \<open>Inr\<close> with the bytes written to the socket otherwise (\<open>None\<close> as in \<open>mapInput\<close>).
\<close>

definition send_step :: "byte list \<Rightarrow> Screen \<Rightarrow> EscState \<Rightarrow> (EscState + EscState \<times> byte list) option" where
  "send_step raw s st =
     (case esc_scan raw st of (st', quit) \<Rightarrow>
      if quit then Some (Inl st')
      else (case mapInput raw s of
              None \<Rightarrow> None
            | Some payload \<Rightarrow> Some (Inr (st', if payload = [] then [] else vslip_encode payload))))"

text \<open>One iteration of \<open>receiveLoop\<close>: decode, then apply every frame to the screen.\<close>

fun apply_frames :: "byte list list \<Rightarrow> Screen \<Rightarrow> Screen option" where
  "apply_frames [] s = Some s"
| "apply_frames (f # fs) s = (case process f s of None \<Rightarrow> None | Some s' \<Rightarrow> apply_frames fs s')"

definition receive_step :: "byte list \<Rightarrow> VSlipFramer \<Rightarrow> Screen \<Rightarrow> (VSlipFramer \<times> Screen) option" where
  "receive_step buf fr s =
     (case framer_feed buf fr [] of (fr', frames, _) \<Rightarrow>
      case apply_frames frames s of None \<Rightarrow> None | Some s' \<Rightarrow> Some (fr', s'))"

section \<open>Text on the screen\<close>

lemma table_length: "length kEbcdicToAsciiTable = 256"
  by code_simp

lemma table_controls_blank: "list_all (\<lambda>c. c = CHR '' '') (take 65 kEbcdicToAsciiTable)"
  by code_simp

lemma table_search_Some:
  "table_search ts c n = Some i \<Longrightarrow> n \<le> i \<and> i < n + length ts \<and> ts ! (i - n) = c"
proof (induction ts arbitrary: n)
  case (Cons t ts)
  show ?case
  proof (cases "t = c")
    case False
    then have "Suc n \<le> i \<and> i < Suc n + length ts \<and> ts ! (i - Suc n) = c"
      using Cons.IH [of "Suc n"] Cons.prems by simp
    then show ?thesis by (auto simp: nth_Cons split: nat.splits)
      (metis Suc_diff_Suc Suc_le_lessD nat.inject)
  qed (use Cons.prems in simp)
qed simp

lemma table_search_None: "table_search ts c n = None \<longleftrightarrow> c \<notin> set ts"
  by (induction ts arbitrary: n) auto

lemma byte_unat: "unat b < 256" for b :: byte
  using unsigned_less [of b, where 'a = nat] by simp

lemma ebcdic_blank:
  assumes "unat b \<le> 64"
  shows "ebcdicToAscii b = CHR '' ''"
  using assms table_controls_blank
  by (auto simp: ebcdicToAscii_def list_all_length table_length)

text \<open>Every character is encoded as a byte that the parser shows, never as an order.\<close>

lemma asciiToEbcdic_displayable:
  "64 \<le> unat (asciiToEbcdic c)
   \<and> ebcdicToAscii (asciiToEbcdic c) = (if c \<in> set kEbcdicToAsciiTable then c else CHR '' '')"
proof (cases "c = CHR '' '' \<or> c \<notin> set kEbcdicToAsciiTable")
  case True
  then have "asciiToEbcdic c = 0x40"
    by (auto simp: asciiToEbcdic_def table_search_None [of _ _ 0, THEN iffD2])
  with True show ?thesis by (auto simp: ebcdic_blank)
next
  case False
  then obtain i where i: "table_search kEbcdicToAsciiTable c 0 = Some i"
    using table_search_None [of kEbcdicToAsciiTable c 0] by auto
  from table_search_Some [OF this] have t: "i < 256" "kEbcdicToAsciiTable ! i = c"
    by (auto simp: table_length)
  then have u: "unat (of_nat i :: byte) = i" by (simp add: unat_of_nat)
  have "\<not> unat (of_nat i :: byte) \<le> 64"
    using ebcdic_blank [of "of_nat i"] False t(2) u by (auto simp: ebcdicToAscii_def)
  with i u t False show ?thesis by (auto simp: asciiToEbcdic_def ebcdicToAscii_def)
qed

lemma orders_displayable:
  assumes "64 \<le> unat b"
  shows "orders (b # rest) s = orders rest (putChar (ebcdicToAscii b) 0x20 s)"
proof -
  have "b \<noteq> 0x11" "b \<noteq> 0x13" "b \<noteq> 0x1D" "b \<noteq> 0x3C" "b \<noteq> 0x3F" "b \<noteq> 0x2B" "b \<noteq> 0"
    using assms by auto
  then show ?thesis by simp
qed

definition shown :: "char \<Rightarrow> char" where
  "shown c = (if c \<in> set kEbcdicToAsciiTable then c else CHR '' '')"

text \<open>Writing a text at the cursor, character by character.\<close>

definition put_text :: "string \<Rightarrow> Screen \<Rightarrow> Screen" where
  "put_text t s = fold (\<lambda>c. putChar (shown c) 0x20) t s"

lemma orders_text:
  "orders (map asciiToEbcdic t @ rest) s = orders rest (put_text t s)"
proof (induction t arbitrary: s)
  case (Cons c t)
  then show ?case
    using asciiToEbcdic_displayable [of c] orders_displayable
    by (simp add: put_text_def shown_def del: orders.simps(2))
qed (simp add: put_text_def)

lemma orders_writeText:
  "orders (0x11 # r # c # map asciiToEbcdic t @ rest) s =
     orders rest (put_text t (setCursor (uint (r AND 0x3F)) (uint (c AND 0x3F)) s))"
  by (simp add: decodeSba_def orders_text)

text \<open>Writing \<open>c\<close> at \<open>q\<close> and then the rest behind it is writing \<open>c # t\<close> at \<open>q\<close>.\<close>

lemma text_cell_cons:
  assumes "0 \<le> q" and "nat q < length xs"
    and "x = (if q + 1 \<le> int i \<and> int i < q + 1 + int (length t)
              then f (t ! (i - nat (q + 1))) else xs[nat q := f c] ! i)"
  shows "x = (if q \<le> int i \<and> int i < q + int (length (c # t))
              then f ((c # t) ! (i - nat q)) else xs ! i)"
proof -
  consider "int i = q" | "int i < q" | "q < int i" by linarith
  then show ?thesis
  proof cases
    case 3
    then obtain k where "i - nat q = Suc k" using assms(1) by (cases "i - nat q") auto
    moreover from this have "i - nat (q + 1) = k" using assms(1) by simp
    ultimately show ?thesis using 3 assms by auto
  qed (use assms in \<open>auto simp: nth_list_update\<close>)
qed

lemma put_text_cells:
  assumes "screen_ok s" and "pos s + int (length t) \<le> 1920"
  shows "screen_ok (put_text t s)
     \<and> inputRow (put_text t s) = inputRow s \<and> inputCol (put_text t s) = inputCol s
     \<and> (\<forall>i < 1920. cells (put_text t s) ! i =
          (if pos s \<le> int i \<and> int i < pos s + int (length t)
           then \<lparr>ch = shown (t ! (i - nat (pos s))), attr = 0x20\<rparr> else cells s ! i))"
  using assms
proof (induction t arbitrary: s)
  case Nil
  then show ?case by (auto simp: put_text_def)
next
  case (Cons c t)
  let ?s = "putChar (shown c) 0x20 s"
  have ok: "screen_ok ?s" by (rule screen_ok_putChar [OF Cons.prems(1)])
  have inp: "inputRow ?s = inputRow s" "inputCol ?s = inputCol s"
    by (simp_all add: putChar_def advance_def)
  have step: "put_text (c # t) s = put_text t ?s" by (simp add: put_text_def)
  have r: "0 \<le> pos s" "pos s < 1920" and len: "length (cells s) = 1920"
    using pos_range [OF Cons.prems(1)] Cons.prems(1) by (auto simp: screen_ok_def)
  show ?case
  proof (cases "t = []")
    case True
    then show ?thesis
      using ok inp r len by (auto simp: put_text_def cells_putChar nth_list_update split: if_splits)
  next
    case False
    then have p: "pos ?s = pos s + 1"
      using Cons.prems r by (cases t) (auto simp: pos_putChar)
    have IH: "screen_ok (put_text t ?s) \<and> inputRow (put_text t ?s) = inputRow ?s
        \<and> inputCol (put_text t ?s) = inputCol ?s
        \<and> (\<forall>i < 1920. cells (put_text t ?s) ! i =
            (if pos ?s \<le> int i \<and> int i < pos ?s + int (length t)
             then \<lparr>ch = shown (t ! (i - nat (pos ?s))), attr = 0x20\<rparr> else cells ?s ! i))"
      using Cons.IH [OF ok] Cons.prems(2) p by simp
    have "cells (put_text (c # t) s) ! i =
        (if pos s \<le> int i \<and> int i < pos s + int (length (c # t))
         then \<lparr>ch = shown ((c # t) ! (i - nat (pos s))), attr = 0x20\<rparr> else cells s ! i)"
      if i: "i < 1920" for i
      using IH i r len step p
      by (intro text_cell_cons [where f = "\<lambda>c. \<lparr>ch = shown c, attr = 0x20\<rparr>"]) (simp_all add: cells_putChar)
    then show ?thesis using IH inp step by simp
  qed
qed

lemma put_text_at:
  assumes "screen_ok s" and "0 \<le> r" "r < 24" "0 \<le> c" "c < 80"
    and "r * 80 + c + int (length t) \<le> 1920"
  shows "screen_ok (put_text t (setCursor r c s))"
    and "i < 1920 \<Longrightarrow> cells (put_text t (setCursor r c s)) ! i =
          (if r * 80 + c \<le> int i \<and> int i < r * 80 + c + int (length t)
           then \<lparr>ch = shown (t ! (i - nat (r * 80 + c))), attr = 0x20\<rparr> else cells s ! i)"
proof -
  have p: "pos (setCursor r c s) = r * 80 + c"
    using assms by (simp add: pos_def setCursor_def clamp_def screen_dims)
  have c: "cells (setCursor r c s) = cells s" by (simp add: setCursor_def)
  note * = put_text_cells [OF screen_ok_setCursor [OF assms(1)], of r c t, unfolded p c]
  show "screen_ok (put_text t (setCursor r c s))" using * assms(6) by blast
  show "cells (put_text t (setCursor r c s)) ! i =
          (if r * 80 + c \<le> int i \<and> int i < r * 80 + c + int (length t)
           then \<lparr>ch = shown (t ! (i - nat (r * 80 + c))), attr = 0x20\<rparr> else cells s ! i)"
    if "i < 1920" using * assms(6) that by blast
qed

section \<open>The host's invariant\<close>

definition typed_ok :: "string \<Rightarrow> bool" where
  "typed_ok t \<longleftrightarrow> length t \<le> maxInputLength \<and> set t \<subseteq> set kEbcdicToAsciiTable - {CHR '' ''}"

definition em_ok :: "IbmiEmulator \<Rightarrow> bool" where
  "em_ok e \<longleftrightarrow> em_cursor e \<le> length (em_input e)
     \<and> typed_ok (em_user e) \<and> typed_ok (em_password e) \<and> typed_ok (em_selection e)
     \<and> length (em_status e) \<le> 40
     \<and> (em_screen e = menu \<longrightarrow> em_user e = validUser \<and> em_password e = validPassword)"

lemma typed_ok_Nil [simp]: "typed_ok ''''"
  by (simp add: typed_ok_def)

lemma em_ok_init: "em_ok IbmiEmulator_init"
  by (simp add: em_ok_def IbmiEmulator_init_def em_input_def)

lemma em_ok_framer [simp]: "em_ok (e\<lparr>em_framer := f\<rparr>) = em_ok e"
  by (simp add: em_ok_def em_input_def cong: if_cong EmScreen.case_cong)

lemma em_ok_closed [simp]: "em_ok (e\<lparr>em_closed := b\<rparr>) = em_ok e"
  by (simp add: em_ok_def em_input_def cong: if_cong EmScreen.case_cong)

lemma em_ok_enter: "em_ok e \<Longrightarrow> em_ok (enter_key e)"
  by (auto simp: em_ok_def enter_key_def em_input_def validUser_def validPassword_def
      split: EmScreen.splits if_splits)

lemma em_ok_clear: "em_ok e \<Longrightarrow> em_ok (clear_key e)"
  by (auto simp: em_ok_def clear_key_def em_input_def split: EmScreen.splits if_splits)

lemma em_ok_right: "em_ok e \<Longrightarrow> em_ok (right_key e)"
  by (auto simp: em_ok_def right_key_def em_input_def split: EmScreen.splits if_splits)

lemma em_ok_left: "em_ok e \<Longrightarrow> em_ok (left_key e)"
  by (auto simp: em_ok_def left_key_def em_input_def split: EmScreen.splits if_splits)

lemma em_ok_change_field: "em_ok e \<Longrightarrow> em_ok (change_field e)"
  by (auto simp: em_ok_def change_field_def em_input_def split: EmScreen.splits if_splits)

text \<open>Replacing the current input keeps the invariant when the new text and cursor are good.\<close>

lemma em_ok_edit:
  assumes "em_ok e" and "typed_ok t" and "n \<le> length t"
  shows "em_ok (set_input t e\<lparr>em_cursor := n\<rparr>)"
  using assms by (auto simp: em_ok_def set_input_def em_input_def split: EmScreen.splits if_splits)

lemma typed_ok_input: "em_ok e \<Longrightarrow> typed_ok (em_input e)"
  by (simp add: em_ok_def em_input_def split: EmScreen.splits)

lemma str_erase_ok:
  assumes "typed_ok t" and "n < length t"
  shows "\<exists>t'. str_erase n t = Some t' \<and> typed_ok t' \<and> n \<le> length t'"
  using assms by (auto simp: str_erase_def typed_ok_def dest!: in_set_takeD in_set_dropD)

lemma str_insert_ok:
  assumes "typed_ok t" and "n \<le> length t" and "length t < maxInputLength"
    and "ebcdicToAscii b \<noteq> CHR '' ''"
  shows "\<exists>t'. str_insert n (ebcdicToAscii b) t = Some t' \<and> typed_ok t' \<and> n + 1 \<le> length t'"
proof -
  have "ebcdicToAscii b \<in> set kEbcdicToAsciiTable"
    by (simp add: ebcdicToAscii_def table_length byte_unat)
  with assms show ?thesis
    by (auto simp: str_insert_def typed_ok_def dest!: in_set_takeD in_set_dropD)
qed

lemma em_ok_backspace:
  assumes "em_ok e"
  shows "\<exists>e'. backspace_key e = Some e' \<and> em_ok e'"
proof (cases "em_cursor e = 0")
  case False
  with assms have "em_cursor e - 1 < length (em_input e)" by (auto simp: em_ok_def)
  from str_erase_ok [OF typed_ok_input [OF assms] this]
  obtain t where t: "str_erase (em_cursor e - 1) (em_input e) = Some t"
    "typed_ok t" "em_cursor e - 1 \<le> length t" by blast
  from em_ok_edit [OF assms t(2,3)] t(1) False show ?thesis by (simp add: backspace_key_def)
qed (use assms in \<open>simp add: backspace_key_def\<close>)

lemma em_ok_type: "em_ok e \<Longrightarrow> \<exists>e'. type_chars bs e = Some e' \<and> em_ok e'"
proof (induction bs arbitrary: e)
  case (Cons b bs)
  show ?case
  proof (cases "ebcdicToAscii b \<noteq> CHR '' '' \<and> length (em_input e) < maxInputLength")
    case True
    moreover obtain t where t: "str_insert (em_cursor e) (ebcdicToAscii b) (em_input e) = Some t"
      "typed_ok t" "em_cursor e + 1 \<le> length t"
      using str_insert_ok [OF typed_ok_input [OF Cons.prems], of "em_cursor e" b] True Cons.prems
      by (auto simp: em_ok_def)
    ultimately show ?thesis
      using Cons.IH [OF em_ok_edit [OF Cons.prems t(2,3)]] by simp
  next
    case False
    then show ?thesis using Cons by auto
  qed
qed simp

lemmas em_ok_keys = em_ok_enter em_ok_clear em_ok_right em_ok_left em_ok_change_field

lemma em_ok_processFrame:
  assumes "em_ok e" and "frame \<noteq> []"
  shows "\<exists>e'. processFrame frame e = Some e' \<and> em_ok e'"
  using assms em_ok_keys [OF assms(1)] em_ok_backspace [OF assms(1)] em_ok_type [OF assms(1)]
  by (cases frame) (simp_all add: processFrame_def del: type_chars.simps)

lemma em_ok_frames: "em_ok e \<Longrightarrow> \<exists>e'. process_frames fs e = Some e' \<and> em_ok e'"
proof (induction fs arbitrary: e)
  case (Cons f fs)
  then show ?case using em_ok_processFrame [OF Cons.prems, of f] by fastforce
qed simp

lemma em_ok_process:
  assumes "em_ok e"
  obtains e' where "em_process inp e = Some (e', makeDisplay e')" and "em_ok e'"
proof -
  obtain fr frames n where f: "framer_feed inp (em_framer e) [] = (fr, frames, n)"
    by (metis prod_cases3)
  obtain e' where "process_frames frames (e\<lparr>em_framer := fr\<rparr>) = Some e'" and "em_ok e'"
    using em_ok_frames [of "e\<lparr>em_framer := fr\<rparr>" frames] assms by auto
  with f that show ?thesis by (auto simp: em_process_def)
qed

text \<open>Closing is permanent: no frame handler clears the flag.\<close>

lemma closed_set_input [simp]: "em_closed (set_input t e) = em_closed e"
  by (simp add: set_input_def split: EmScreen.splits)

lemma closed_type: "type_chars bs e = Some e' \<Longrightarrow> em_closed e' = em_closed e"
  by (induction bs arbitrary: e) (auto split: if_splits option.splits)

lemma closed_processFrame:
  "processFrame frame e = Some e' \<Longrightarrow> em_closed e \<Longrightarrow> em_closed e'"
  by (auto simp: processFrame_def enter_key_def clear_key_def backspace_key_def right_key_def
      left_key_def change_field_def dest: closed_type split: list.splits if_splits option.splits)

lemma closed_frames: "process_frames fs e = Some e' \<Longrightarrow> em_closed e \<Longrightarrow> em_closed e'"
  by (induction fs arbitrary: e) (auto dest: closed_processFrame split: if_splits option.splits)

text \<open>Sessions: the host's states over any sequence of reads.\<close>

inductive em_step :: "IbmiEmulator \<Rightarrow> IbmiEmulator \<Rightarrow> bool" where
  "em_process inp e = Some (e', out) \<Longrightarrow> em_step e e'"

inductive_cases em_stepE: "em_step e e'"

interpretation em: invariant_system "\<lambda>e. e = IbmiEmulator_init" em_step em_ok
proof
  fix s t assume "em_ok s" and "em_step s t"
  then obtain inp out where "em_process inp s = Some (t, out)" by (blast elim: em_stepE)
  with em_ok_process [OF \<open>em_ok s\<close>, of inp] show "em_ok t" by auto
qed (use em_ok_init in simp)

text \<open>
  The dummy host never fails and never lets anyone in unchecked. In every state of every
  session, whatever bytes arrived in whatever chunks: the next read is processed without
  \<open>std::out_of_range\<close>, every input is at most 20 characters long, the main menu is shown only
  when the user and password fields hold the valid pair, and a closed session stays closed.
\<close>

theorem ibmi_session_safe:
  assumes "reachable (\<lambda>e. e = IbmiEmulator_init) em_step e"
  shows "(\<exists>e'. em_process inp e = Some (e', makeDisplay e') \<and> (em_closed e \<longrightarrow> em_closed e'))
     \<and> length (em_user e) \<le> 20 \<and> length (em_password e) \<le> 20 \<and> length (em_selection e) \<le> 20
     \<and> (em_screen e = menu \<longrightarrow> em_user e = ''DEMO'' \<and> em_password e = ''PASSWORD'')"
proof -
  have ok: "em_ok e" by (rule em.reachable_inv [OF assms])
  then obtain e' where e': "em_process inp e = Some (e', makeDisplay e')" by (rule em_ok_process)
  then have "em_closed e \<longrightarrow> em_closed e'"
    by (auto simp: em_process_def dest: closed_frames split: prod.splits option.splits)
  with e' ok show ?thesis
    by (auto simp: em_ok_def typed_ok_def maxInputLength_def validUser_def validPassword_def)
qed

theorem ibmi_session_safe_witness:
  "\<exists>e'. em_process [0xC0, 0x15, 0xC0] IbmiEmulator_init = Some (e', makeDisplay e')"
  using ibmi_session_safe [OF reach_init, of IbmiEmulator_init "[0xC0, 0x15, 0xC0]"] by auto

section \<open>What the client shows\<close>

lemma six_bit_mod:
  fixes b :: byte
  shows "uint (b AND 0x3F) = uint b mod 64"
proof -
  have "(0x3F :: byte) = mask 6" by (simp add: mask_eq_exp_minus_1)
  then have "b AND 0x3F = take_bit 6 b" by (simp only: take_bit_eq_mask)
  then show ?thesis by (simp only: unsigned_take_bit_eq) (simp add: take_bit_eq_mod)
qed

text \<open>A display is a list of texts at positions, drawn in order.\<close>

definition draw :: "(int \<times> int \<times> string) list \<Rightarrow> Screen \<Rightarrow> Screen" where
  "draw xs s = fold (\<lambda>(r, c, t) s. put_text t (setCursor r c s)) xs s"

definition fits :: "int \<times> int \<times> string \<Rightarrow> bool" where
  "fits x = (case x of (r, c, t) \<Rightarrow>
     0 \<le> r \<and> r < 24 \<and> 0 \<le> c \<and> c < 80 \<and> r * 80 + c + int (length t) \<le> 1920)"

text \<open>The cell contents after drawing one text over a cell that held \<open>v\<close>.\<close>

definition drawn_at :: "nat \<Rightarrow> int \<times> int \<times> string \<Rightarrow> Cell5250 \<Rightarrow> Cell5250" where
  "drawn_at i x v = (case x of (r, c, t) \<Rightarrow>
     if r * 80 + c \<le> int i \<and> int i < r * 80 + c + int (length t)
     then \<lparr>ch = shown (t ! (i - nat (r * 80 + c))), attr = 0x20\<rparr> else v)"

lemma draw_cells:
  assumes "screen_ok s" and "list_all fits xs"
  shows "screen_ok (draw xs s)
    \<and> (\<forall>i < 1920. cells (draw xs s) ! i = fold (drawn_at i) xs (cells s ! i))"
  using assms
proof (induction xs arbitrary: s)
  case Nil
  then show ?case by (simp add: draw_def)
next
  case (Cons x xs)
  obtain r c t where x: "x = (r, c, t)" by (cases x)
  with Cons.prems have b: "0 \<le> r" "r < 24" "0 \<le> c" "c < 80" "r * 80 + c + int (length t) \<le> 1920"
    by (simp_all add: fits_def)
  let ?s = "put_text t (setCursor r c s)"
  note one = put_text_at [OF Cons.prems(1) b]
  from Cons.IH [OF one(1)] Cons.prems(2)
  have "screen_ok (draw xs ?s)
      \<and> (\<forall>i < 1920. cells (draw xs ?s) ! i = fold (drawn_at i) xs (cells ?s ! i))" by simp
  moreover have "draw (x # xs) s = draw xs ?s" by (simp add: draw_def x)
  moreover have "cells ?s ! i = drawn_at i x (cells s ! i)" if "i < 1920" for i
    using one(2) [OF that] by (simp add: drawn_at_def x)
  ultimately show ?case by simp
qed

text \<open>The text of an input field: the non-blank run that starts in column 56.\<close>

definition field_text :: "nat \<Rightarrow> Screen \<Rightarrow> string" where
  "field_text row s =
     takeWhile (\<lambda>c. c \<noteq> CHR '' '') (map (\<lambda>k. ch (cells s ! (row * 80 + 56 + k))) [0..<24])"

lemma field_text_eq:
  assumes "length t \<le> 20" and "CHR '' '' \<notin> set t"
    and "\<And>k. k < 24 \<Longrightarrow> ch (cells s ! (row * 80 + 56 + k)) = (if k < length t then t ! k else CHR '' '')"
  shows "field_text row s = t"
proof -
  have "map (\<lambda>k. ch (cells s ! (row * 80 + 56 + k))) [0..<24] = t @ spaces (24 - length t)"
    using assms(1,3) by (intro nth_equalityI) (auto simp: nth_append)
  moreover have "24 - length t = Suc (23 - length t)" using assms(1) by simp
  ultimately have "map (\<lambda>k. ch (cells s ! (row * 80 + 56 + k))) [0..<24] =
      t @ CHR '' '' # spaces (23 - length t)" by simp
  moreover have "takeWhile (\<lambda>c. c \<noteq> CHR '' '') (t @ CHR '' '' # spaces (23 - length t)) = t"
    by (rule takeWhile_append_stop) (use assms(2) in auto)
  ultimately show ?thesis by (simp only: field_text_def)
qed

lemma orders_input_cursor:
  "orders [0x11, r, c, 0x1D, 0x20, 0x13] s =
     (let s' = setCursor (uint (r AND 0x3F)) (uint (c AND 0x3F)) s
      in Some (setInputCursor (cursorRow s') (cursorCol s') s'))"
  by (simp add: decodeSba_def Let_def)

lemmas display_unfold = Let_def writeText_def em_setInputCursor_def append_assoc append_Cons append_Nil

lemma orders_at:
  "orders (0x11 # r # c # map asciiToEbcdic t @ rest) s =
     orders rest (draw [(uint (r AND 0x3F), uint (c AND 0x3F), t)] s)"
  by (simp add: orders_writeText draw_def del: orders.simps)

lemma draw_draw: "draw ys (draw xs s) = draw (xs @ ys) s"
  by (simp add: draw_def)

definition signOn_layout :: "IbmiEmulator \<Rightarrow> (int \<times> int \<times> string) list" where
  "signOn_layout e =
     [(1, 0, ''IBM i DUMMY CONSOLE                         SYSTEM: TESTIBMI''),
      (2, 0, ''5250 emulator source for ibmi_console_client testing''),
      (4, 0, ''                         Sign On''),
      (7, 8, ''User . . . . . . . . . . . . . . . . . . . .:''),
      (7, 56, em_user e),
      (9, 8, ''Password . . . . . . . . . . . . . . . . . .:''),
      (9, 56, replicate (length (em_password e)) CHR ''*''),
      (13, 0, em_status e),
      (20, 0, ''Enter=Next/Sign on   Up/Down=Change field''),
      (22, 0, ''F3=Exit   F12=Clear fields'')]"

definition menu_layout :: "IbmiEmulator \<Rightarrow> (int \<times> int \<times> string) list" where
  "menu_layout e =
     [(1, 0, ''IBM i DUMMY CONSOLE                         SYSTEM: TESTIBMI''),
      (4, 0, ''                        Main Menu''),
      (7, 8, ''1. Work with user profiles''),
      (9, 8, ''2. Work with jobs''),
      (11, 8, ''3. Display system status''),
      (14, 8, ''Selection . . . . . . . . . . . . . . . . . .:''),
      (14, 56, em_selection e),
      (17, 0, em_status e),
      (20, 0, ''Type 1, 2, or 3 and press Enter.''),
      (22, 0, ''F3=Exit   F12=Sign off'')]"

definition place_cursor :: "int \<Rightarrow> IbmiEmulator \<Rightarrow> Screen \<Rightarrow> Screen" where
  "place_cursor row e s =
     (let s' = setCursor row (uint (of_nat (56 + em_cursor e) AND 0x3F :: byte)) s
      in setInputCursor (cursorRow s') (cursorCol s') s')"

lemma signOn_screen:
  "process (signOn_display e) s =
     Some (place_cursor (if em_field e = user then 7 else 9) e (draw (signOn_layout e) s))"
proof -
  have "process (signOn_display e) s =
      orders [0x11, if em_field e = user then 7 else 9, of_nat (56 + em_cursor e), 0x1D, 0x20, 0x13]
        (draw (signOn_layout e) s)"
    unfolding signOn_display_def process_def signOn_layout_def
    by (simp only: display_unfold list.case orders_at draw_draw if_True if_False)
       (simp add: decodeSba_def)
  then show ?thesis
    by (simp only: orders_input_cursor place_cursor_def Let_def) simp
qed

lemma menu_screen:
  "process (menu_display e) s = Some (place_cursor 14 e (draw (menu_layout e) s))"
proof -
  have "process (menu_display e) s =
      orders [0x11, 14, of_nat (56 + em_cursor e), 0x1D, 0x20, 0x13] (draw (menu_layout e) s)"
    unfolding menu_display_def process_def menu_layout_def
    by (simp only: display_unfold list.case orders_at draw_draw if_True if_False)
       (simp add: decodeSba_def)
  then show ?thesis
    by (simp only: orders_input_cursor place_cursor_def Let_def) simp
qed

lemma place_cursor_ok:
  assumes "screen_ok s" and "em_ok e" and "0 \<le> row" and "row < 24"
  shows "screen_ok (place_cursor row e s)" and "cells (place_cursor row e s) = cells s"
    and "inputRow (place_cursor row e s) = row"
    and "inputCol (place_cursor row e s) = int ((56 + em_cursor e) mod 64)"
proof -
  have "em_cursor e \<le> 20"
    using assms(2) typed_ok_input [OF assms(2)]
    by (auto simp: em_ok_def typed_ok_def maxInputLength_def)
  then have "uint (of_nat (56 + em_cursor e) :: byte) = int (56 + em_cursor e)"
    by (simp only: unsigned_of_nat) (simp add: take_bit_eq_mod)
  then have u: "uint (of_nat (56 + em_cursor e) AND 0x3F :: byte) = int ((56 + em_cursor e) mod 64)"
    unfolding six_bit_mod by (simp only: zmod_int) simp
  show "screen_ok (place_cursor row e s)"
    by (simp add: place_cursor_def Let_def screen_ok_intros assms)
  show "cells (place_cursor row e s) = cells s"
    by (simp add: place_cursor_def Let_def setCursor_def setInputCursor_def)
  have "(56 + em_cursor e) mod 64 < 64" by simp
  then have "clamp (int ((56 + em_cursor e) mod 64)) 0 79 = int ((56 + em_cursor e) mod 64)"
    by (simp add: clamp_def)
  then show "inputCol (place_cursor row e s) = int ((56 + em_cursor e) mod 64)"
    unfolding place_cursor_def Let_def u
    by (simp add: setCursor_def setInputCursor_def screen_dims)
  show "inputRow (place_cursor row e s) = row"
    using assms(3,4) by (simp add: place_cursor_def Let_def setCursor_def setInputCursor_def clamp_def screen_dims)
qed

lemma layouts_fit:
  assumes "em_ok e"
  shows "list_all fits (signOn_layout e)" and "list_all fits (menu_layout e)"
  using assms
  by (simp_all add: signOn_layout_def menu_layout_def fits_def em_ok_def typed_ok_def maxInputLength_def)

lemma cleared_cells: "screen_ok s \<Longrightarrow> i < 1920 \<Longrightarrow> cells (screen_clear s) ! i = Cell_default"
  by (simp add: screen_clear_def screen_ok_def)

lemma drawn_outside:
  "\<not> (r * 80 + c \<le> int i \<and> int i < r * 80 + c + int (length t)) \<Longrightarrow> drawn_at i (r, c, t) v = v"
  by (auto simp: drawn_at_def)

lemma drawn_inside:
  assumes "r * 80 + c = int a" and "k < length t"
  shows "drawn_at (a + k) (r, c, t) v = \<lparr>ch = shown (t ! k), attr = 0x20\<rparr>"
  using assms by (simp add: drawn_at_def)

text \<open>Only the field's own text covers the 24 cells of an input field.\<close>

lemma field_cells:
  assumes "em_ok e" and "screen_ok s" and "k < 24"
  shows "fold (drawn_at (616 + k)) (signOn_layout e) v = drawn_at (616 + k) (7, 56, em_user e) v"
    and "fold (drawn_at (776 + k)) (signOn_layout e) v =
         drawn_at (776 + k) (9, 56, replicate (length (em_password e)) CHR ''*'') v"
    and "fold (drawn_at (1176 + k)) (menu_layout e) v = drawn_at (1176 + k) (14, 56, em_selection e) v"
  using assms
  by (simp_all add: signOn_layout_def menu_layout_def drawn_outside em_ok_def typed_ok_def maxInputLength_def)

lemma star_in_table: "CHR ''*'' \<in> set kEbcdicToAsciiTable"
  by code_simp

lemma field_shows:
  assumes "screen_ok s" and "list_all fits xs" and "em_ok e"
    and t: "length t \<le> 20" "set t \<subseteq> set kEbcdicToAsciiTable - {CHR '' ''}"
    and only: "\<And>k v. k < 24 \<Longrightarrow>
      fold (drawn_at (row * 80 + 56 + k)) xs v = drawn_at (row * 80 + 56 + k) (int row, 56, t) v"
    and row: "row < 24"
    and s': "cells s' = cells (draw xs (screen_clear s))"
  shows "field_text row s' = t"
proof (rule field_text_eq)
  show "length t \<le> 20" by (rule t)
  show "CHR '' '' \<notin> set t" using t by auto
  fix k :: nat
  assume k: "k < 24"
  let ?i = "row * 80 + 56 + k"
  have i: "?i < 1920" using k row by simp
  have c: "cells s' ! ?i = drawn_at ?i (int row, 56, t) Cell_default"
    using draw_cells [OF screen_ok_clear [OF assms(1)] assms(2)] i only [OF k]
    by (simp add: s' cleared_cells [OF assms(1) i])
  show "ch (cells s' ! ?i) = (if k < length t then t ! k else CHR '' '')"
  proof (cases "k < length t")
    case True
    then have "t ! k \<in> set kEbcdicToAsciiTable" using t(2) nth_mem by blast
    then show ?thesis
      unfolding c using drawn_inside [of "int row" 56 "row * 80 + 56" k t] True
      by (simp add: shown_def)
  next
    case False
    then show ?thesis unfolding c by (simp add: drawn_outside Cell_default_def)
  qed
qed

lemma receive_display:
  assumes "\<not> em_closed e"
  shows "receive_step (makeDisplay e) VSlipFramer_init s =
     (case process (if em_screen e = signOn then signOn_display e else menu_display e) (screen_clear s) of
        None \<Rightarrow> None | Some s' \<Rightarrow> Some (VSlipFramer_init, s'))"
proof -
  let ?d = "if em_screen e = signOn then signOn_display e else menu_display e"
  have ne: "?d \<noteq> []"
    by (simp add: signOn_display_def menu_display_def Let_def em_setInputCursor_def)
  have "framer_feed (vslip_encode [0x40] @ vslip_encode ?d) VSlipFramer_init [] =
      (VSlipFramer_init, [[0x40], ?d], 2)"
    using framer_encoded [of "[0x40]" "[]" "[]" 0] framer_encoded [of ?d "[]" "[[0x40]]" 1] ne
    by (simp add: framer_feed_def VSlipFramer_init_def)
  then have "receive_step (makeDisplay e) VSlipFramer_init s =
      (case apply_frames [[0x40], ?d] s of None \<Rightarrow> None | Some s' \<Rightarrow> Some (VSlipFramer_init, s'))"
    using assms by (simp add: receive_step_def makeDisplay_def)
  also have "apply_frames [[0x40], ?d] s = process ?d (screen_clear s)"
    by (simp add: process_def [of "[0x40]"] split: option.split)
  finally show ?thesis .
qed

text \<open>
  (C9) Host to client, end to end. In every open state of every session, the bytes the host
  sends for its display, decoded by the client's framer and parser over any screen, show the
  user field in row 7, as many asterisks as the password has characters in row 9 (or the
  selection in row 14 of the menu), and place the input cursor in the active field's row. Its column,
  however, is 56 plus the host's cursor position reduced modulo 64.
\<close>

theorem ibmi_display_faithful:
  assumes "reachable (\<lambda>e. e = IbmiEmulator_init) em_step e" and "\<not> em_closed e" and "screen_ok s"
  shows "\<exists>s'. receive_step (makeDisplay e) VSlipFramer_init s = Some (VSlipFramer_init, s')
    \<and> screen_ok s'
    \<and> (if em_screen e = signOn
       then field_text 7 s' = em_user e
          \<and> field_text 9 s' = replicate (length (em_password e)) CHR ''*''
          \<and> inputRow s' = (if em_field e = user then 7 else 9)
       else field_text 14 s' = em_selection e \<and> inputRow s' = 14)
    \<and> inputCol s' = int ((56 + em_cursor e) mod 64)"
proof -
  have ok: "em_ok e" by (rule em.reachable_inv [OF assms(1)])
  then have t: "length (em_user e) \<le> 20" "length (em_password e) \<le> 20" "length (em_selection e) \<le> 20"
      "set (em_user e) \<subseteq> set kEbcdicToAsciiTable - {CHR '' ''}"
      "set (em_selection e) \<subseteq> set kEbcdicToAsciiTable - {CHR '' ''}"
    by (auto simp: em_ok_def typed_ok_def maxInputLength_def)
  note fits = layouts_fit [OF ok]
  note dok = draw_cells [OF screen_ok_clear [OF assms(3)], THEN conjunct1]
  note field = field_cells [OF ok assms(3)]
  show ?thesis
  proof (cases "em_screen e = signOn")
    case True
    let ?s = "place_cursor (if em_field e = user then 7 else 9) e
        (draw (signOn_layout e) (screen_clear s))"
    note p = place_cursor_ok [OF dok [OF fits(1)] ok, of "if em_field e = user then 7 else 9"]
    have "field_text 7 ?s = em_user e"
      by (rule field_shows [OF assms(3) fits(1) ok]) (use t field p in simp_all)
    moreover have "field_text 9 ?s = replicate (length (em_password e)) CHR ''*''"
      by (rule field_shows [OF assms(3) fits(1) ok]) (use t field p star_in_table in auto)
    moreover have "receive_step (makeDisplay e) VSlipFramer_init s = Some (VSlipFramer_init, ?s)"
      by (simp add: receive_display [OF assms(2)] signOn_screen True)
    ultimately show ?thesis using True p by auto
  next
    case False
    let ?s = "place_cursor 14 e (draw (menu_layout e) (screen_clear s))"
    note p = place_cursor_ok [OF dok [OF fits(2)] ok, of 14]
    have "field_text 14 ?s = em_selection e"
      by (rule field_shows [OF assms(3) fits(2) ok]) (use t field p in simp_all)
    moreover have "receive_step (makeDisplay e) VSlipFramer_init s = Some (VSlipFramer_init, ?s)"
      by (simp add: receive_display [OF assms(2)] menu_screen False)
    ultimately show ?thesis using False p by auto
  qed
qed

theorem ibmi_display_faithful_witness:
  "\<exists>s'. receive_step (makeDisplay IbmiEmulator_init) VSlipFramer_init Screen_init
       = Some (VSlipFramer_init, s')
     \<and> field_text 7 s' = '''' \<and> inputRow s' = 7 \<and> inputCol s' = 56"
  using ibmi_display_faithful [OF reach_init, of IbmiEmulator_init Screen_init] screen_ok_init
  by (auto simp: IbmiEmulator_init_def)

section \<open>What the host makes of a key\<close>

lemma key_code_of_char:
  assumes "c \<in> set kEbcdicToAsciiTable" and "c \<noteq> CHR '' ''" and "c \<noteq> CHR ''3''"
  shows "asciiToEbcdic c \<noteq> 0xF1 \<and> 64 < unat (asciiToEbcdic c)"
proof -
  have "ebcdicToAscii 0xF1 = CHR ''3''" by code_simp
  with assms asciiToEbcdic_displayable [of c] have "asciiToEbcdic c \<noteq> 0xF1" by metis
  moreover have "unat (asciiToEbcdic c) \<noteq> 64"
    using assms asciiToEbcdic_displayable [of c] ebcdic_blank [of "asciiToEbcdic c"] by auto
  ultimately show ?thesis using asciiToEbcdic_displayable [of c] by auto
qed

lemma processFrame_character:
  assumes "64 < unat b" and "b \<noteq> 0xF1"
  shows "processFrame [b] e = type_chars [b] e"
proof -
  have "b \<noteq> 0x33" "b \<noteq> 0x3C" "b \<noteq> 0x15" "b \<noteq> 0x1A" "b \<noteq> 0x1B" "b \<noteq> 0x18" "b \<noteq> 0x19"
    using assms(1) by auto
  with assms(2) show ?thesis by (simp add: processFrame_def)
qed

lemma em_process_frame:
  assumes "em_framer e = VSlipFramer_init" and "f \<noteq> []"
  shows "em_process (vslip_encode f) e =
     (case processFrame f e of None \<Rightarrow> None | Some e' \<Rightarrow> Some (e', makeDisplay e'))"
proof -
  have "framer_feed (vslip_encode f) VSlipFramer_init [] = (VSlipFramer_init, [f], 1)"
    using framer_encoded [of f "[]" "[]" 0] assms(2) by (simp add: framer_feed_def VSlipFramer_init_def)
  moreover have eta: "e\<lparr>em_framer := VSlipFramer_init\<rparr> = e" using assms(1) by (cases e) simp
  ultimately show ?thesis using assms by (simp add: em_process_def eta split: option.split)
qed

lemma send_key:
  fixes b :: byte
  assumes "0x20 < b" and "b \<le> 0x7E"
  shows "send_step [b] s EscNormal =
     Some (Inr (EscNormal, vslip_encode [asciiToEbcdic (char_of (unat b))]))"
proof -
  have "\<not> b \<le> 0x0D" using assms(1) by (auto simp: not_le intro: less_trans [of _ "0x20"])
  then have "b \<noteq> 0x0D" "b \<noteq> 0x0A" "b \<noteq> 0x08" by auto
  moreover have "b \<noteq> 0x7F" using assms(2) by auto
  ultimately show ?thesis
    using assms less_imp_le [OF assms(1)] by (simp add: send_step_def esc_step_def mapInput_def Let_def)
qed

lemma input_set_input [simp]: "em_input (set_input t e\<lparr>em_cursor := n\<rparr>) = t"
  by (auto simp: em_input_def set_input_def split: EmScreen.splits)

text \<open>
  A key typed at the client, end to end. In every state of a session between frames,
  with room in the active input, a printable character of the code table that the client
  maps, frames and sends is inserted by the host at its cursor, with one exception: the
  digit 3 is encoded as 0xF1, the code of the Enter key, and the host runs the Enter action
  instead (so menu option 3 cannot be typed).
\<close>

theorem typed_key_reaches_host:
  fixes b :: byte
  assumes "reachable (\<lambda>e. e = IbmiEmulator_init) em_step e" and "em_framer e = VSlipFramer_init"
    and "0x20 < b" and "b \<le> 0x7E" and "char_of (unat b) \<in> set kEbcdicToAsciiTable"
    and "length (em_input e) < 20"
  shows "\<exists>bytes e'. send_step [b] s EscNormal = Some (Inr (EscNormal, bytes))
    \<and> em_process bytes e = Some (e', makeDisplay e')
    \<and> (if b = 0x33 then e' = enter_key e
       else em_input e' = take (em_cursor e) (em_input e) @ char_of (unat b) # drop (em_cursor e) (em_input e)
          \<and> em_cursor e' = em_cursor e + 1)"
proof -
  let ?c = "char_of (unat b) :: char"
  have ok: "em_ok e" by (rule em.reachable_inv [OF assms(1)])
  note send = send_key [OF assms(3,4), of s]
  have proc: "em_process (vslip_encode [asciiToEbcdic ?c]) e =
      (case processFrame [asciiToEbcdic ?c] e of None \<Rightarrow> None | Some e' \<Rightarrow> Some (e', makeDisplay e'))"
    by (rule em_process_frame [OF assms(2)]) simp
  show ?thesis
  proof (cases "b = 0x33")
    case True
    moreover have "asciiToEbcdic (char_of (unat (0x33 :: byte))) = 0xF1" by code_simp
    ultimately have "asciiToEbcdic ?c = 0xF1" by (simp only:)
    with True send proc show ?thesis by (simp add: processFrame_def)
  next
    case False
    have of_c: "of_char ?c = unat b" using byte_unat [of b] by simp
    have "?c \<noteq> CHR ''3''"
    proof
      assume "?c = CHR ''3''"
      then have "unat b = 0x33" using of_c by simp
      then show False using False by (simp add: word_unat_eq_iff)
    qed
    moreover have "?c \<noteq> CHR '' ''"
    proof
      assume "?c = CHR '' ''"
      then have "unat b = 0x20" using of_c by simp
      then show False using assms(3) by (simp add: word_less_nat_alt)
    qed
    ultimately have "processFrame [asciiToEbcdic ?c] e = type_chars [asciiToEbcdic ?c] e"
      and "ebcdicToAscii (asciiToEbcdic ?c) = ?c" and "?c \<noteq> CHR '' ''"
      using key_code_of_char [OF assms(5)] processFrame_character asciiToEbcdic_displayable [of ?c] assms(5)
      by simp_all
    moreover have "em_cursor e \<le> length (em_input e)" using ok by (simp add: em_ok_def)
    ultimately show ?thesis
      using send proc assms(6) False by (simp add: str_insert_def maxInputLength_def)
  qed
qed

theorem typed_key_reaches_host_witness:
  "(\<exists>bytes e'. send_step [0x44] Screen_init EscNormal = Some (Inr (EscNormal, bytes))
      \<and> em_process bytes IbmiEmulator_init = Some (e', makeDisplay e') \<and> em_input e' = ''D'')
   \<and> (\<exists>bytes e'. send_step [0x33] Screen_init EscNormal = Some (Inr (EscNormal, bytes))
      \<and> em_process bytes IbmiEmulator_init = Some (e', makeDisplay e') \<and> em_field e' = password)"
proof -
  have t: "char_of (unat (0x44 :: byte)) \<in> set kEbcdicToAsciiTable"
      "char_of (unat (0x33 :: byte)) \<in> set kEbcdicToAsciiTable" by code_simp+
  note key = typed_key_reaches_host [OF reach_init, of IbmiEmulator_init, OF refl]
  have i: "em_framer IbmiEmulator_init = VSlipFramer_init" "length (em_input IbmiEmulator_init) < 20"
    "em_input IbmiEmulator_init = ''''" "em_field (enter_key IbmiEmulator_init) = password"
    by (simp_all add: IbmiEmulator_init_def em_input_def enter_key_def)
  have D: "char_of (68 :: nat) = CHR ''D''" by code_simp
  show ?thesis
    using key [OF i(1) _ _ t(1) i(2), of Screen_init] key [OF i(1) _ _ t(2) i(2), of Screen_init] i
    by (auto simp: D)
qed

end
