(* ===== verification/ConnectionPool.thy ===== *)
theory ConnectionPool
  imports Prelude "HOL-Library.AList" "HOL-Library.Char_ord" "HOL-Library.List_Lexorder"
begin

text \<open>
  The HTTP connection pool, \<open>src/include/connection_pool.hpp\<close>, with the per-connection parser
  state of \<open>src/include/http_client.hpp\<close>. The pool is a record of host states; the timers
  that waiting coroutines sleep on are an explicit store, because the queue and the sleeping
  coroutine share them. A coroutine that runs \<open>acquire\<close> is cut at its suspension points; a
  pool system is the pool together with all coroutines, and its steps are the segments
  between suspensions, the expiry of a timer, the operations on leases and \<open>clear\<close>, in any order.
\<close>

section \<open>Data\<close>

datatype EndpointKey = EndpointKey (hostOrPath: string) (port: string)

text \<open>The order of \<open>EndpointKey::operator<\<close>: lexicographic on the pair (\<open>std::tie\<close>).\<close>

instantiation EndpointKey :: linorder
begin

definition less_EndpointKey :: "EndpointKey \<Rightarrow> EndpointKey \<Rightarrow> bool" where
  "less_EndpointKey a b \<longleftrightarrow>
     hostOrPath a < hostOrPath b \<or> hostOrPath a = hostOrPath b \<and> port a < port b"

definition less_eq_EndpointKey :: "EndpointKey \<Rightarrow> EndpointKey \<Rightarrow> bool" where
  "less_eq_EndpointKey a b \<longleftrightarrow> a < b \<or> a = (b :: EndpointKey)"

instance
proof
  fix x y z :: EndpointKey
  show "(x < y) = (x \<le> y \<and> \<not> y \<le> x)"
    by (auto simp: less_EndpointKey_def less_eq_EndpointKey_def)
  show "x \<le> x" by (simp add: less_eq_EndpointKey_def)
  show "x \<le> y \<Longrightarrow> y \<le> z \<Longrightarrow> x \<le> z"
    by (auto simp: less_EndpointKey_def less_eq_EndpointKey_def)
  show "x \<le> y \<Longrightarrow> y \<le> x \<Longrightarrow> x = y"
    by (auto simp: less_EndpointKey_def less_eq_EndpointKey_def)
  show "x \<le> y \<or> y \<le> x"
    by (cases x; cases y) (auto simp: less_EndpointKey_def less_eq_EndpointKey_def)
qed

end

text \<open>
  A client connection: its identity, the endpoint it was connected to, the stored header
  parser (here the status it parsed) and the two read buffers.
\<close>

record HttpClient =
  hc_id :: nat
  hc_endpoint :: EndpointKey
  headerParser :: "nat option"
  beastBuffer :: string
  sseBuffer :: string

definition HttpClient_new :: "nat \<Rightarrow> EndpointKey \<Rightarrow> HttpClient" where
  "HttpClient_new i k = \<lparr>hc_id = i, hc_endpoint = k, headerParser = None, beastBuffer = [], sseBuffer = []\<rparr>"

definition resetParserState :: "HttpClient \<Rightarrow> HttpClient" where
  "resetParserState c = c\<lparr>headerParser := None, beastBuffer := []\<rparr>"

record ConnectionPoolConfig =
  maxConnectionsPerHost :: nat
  idleTimeout :: int
  acquireTimeout :: int

record IdleEntry =
  ie_client :: HttpClient
  lastUsed :: int

record HostState =
  activeCount :: nat
  idle :: "IdleEntry list"
  waiters :: "nat list"

definition HostState_default :: HostState where
  "HostState_default = \<lparr>activeCount = 0, idle = [], waiters = []\<rparr>"

text \<open>
  A \<open>steady_timer\<close> with a wait on it: pending, expired with its completion queued, or
  cancelled. \<open>cancel\<close> has no effect on a wait that has already completed.
\<close>

datatype TimerState = Pending | Fired | Aborted

definition timer_cancel :: "nat \<Rightarrow> (nat \<Rightarrow> TimerState) \<Rightarrow> nat \<Rightarrow> TimerState" where
  "timer_cancel t tm = (if tm t = Pending then tm(t := Aborted) else tm)"

record Pool =
  config :: ConnectionPoolConfig
  hosts :: "(EndpointKey \<times> HostState) list"
  timers :: "nat \<Rightarrow> TimerState"
  next_timer :: nat
  next_client :: nat

definition Pool_create :: "ConnectionPoolConfig \<Rightarrow> Pool" where
  "Pool_create cfg = \<lparr>config = cfg, hosts = [], timers = (\<lambda>_. Aborted),
     next_timer = 0, next_client = 0\<rparr>"

text \<open>
  \<open>hosts_\<close> is an association list, searched with \<open>map_of\<close>; \<open>hosts_[key]\<close> default-constructs a
  missing entry.
\<close>

definition host :: "Pool \<Rightarrow> EndpointKey \<Rightarrow> HostState" where
  "host p k = (case map_of (hosts p) k of None \<Rightarrow> HostState_default | Some st \<Rightarrow> st)"

definition set_host :: "EndpointKey \<Rightarrow> HostState \<Rightarrow> Pool \<Rightarrow> Pool" where
  "set_host k st p = p\<lparr>hosts := AList.update k st (hosts p)\<rparr>"

section \<open>Pool operations\<close>

text \<open>The loop of \<open>extractIdleConnection\<close>, on the idle vector; it takes from the back.\<close>

function extractIdle :: "int \<Rightarrow> int \<Rightarrow> IdleEntry list \<Rightarrow> HttpClient option \<times> IdleEntry list" where
  "extractIdle timeout now xs =
     (if xs = [] then (None, [])
      else if now - lastUsed (last xs) \<le> timeout
           then (Some (resetParserState (ie_client (last xs))), butlast xs)
           else extractIdle timeout now (butlast xs))"
  by pat_completeness auto
termination by (relation "measure (\<lambda>(_, _, xs). length xs)") auto

declare extractIdle.simps [simp del]

definition notifyWaiter :: "EndpointKey \<Rightarrow> Pool \<Rightarrow> Pool" where
  "notifyWaiter k p =
     (case map_of (hosts p) k of
        None \<Rightarrow> p
      | Some st \<Rightarrow>
          (case waiters st of
             [] \<Rightarrow> p
           | t # ts \<Rightarrow> set_host k (st\<lparr>waiters := ts\<rparr>) (p\<lparr>timers := timer_cancel t (timers p)\<rparr>)))"

definition returnConnection :: "EndpointKey \<Rightarrow> HttpClient option \<Rightarrow> bool \<Rightarrow> int \<Rightarrow> Pool \<Rightarrow> Pool" where
  "returnConnection k client valid now p =
     (case map_of (hosts p) k of
        None \<Rightarrow> p
      | Some st \<Rightarrow>
          let st = st\<lparr>activeCount := activeCount st - 1\<rparr>;
              st = (case client of
                      Some c \<Rightarrow> if valid then st\<lparr>idle := idle st @ [\<lparr>ie_client = c, lastUsed = now\<rparr>]\<rparr> else st
                    | None \<Rightarrow> st)
          in notifyWaiter k (set_host k st p))"

text \<open>\<open>clear\<close> cancels every queued timer and forgets all hosts.\<close>

definition clear :: "Pool \<Rightarrow> Pool" where
  "clear p = p\<lparr>timers := fold timer_cancel (concat (map (\<lambda>(k, st). waiters st) (hosts p))) (timers p),
              hosts := []\<rparr>"

definition pool_activeCount :: "EndpointKey \<Rightarrow> Pool \<Rightarrow> nat" where
  "pool_activeCount k p = (case map_of (hosts p) k of Some st \<Rightarrow> activeCount st | None \<Rightarrow> 0)"

definition pool_idleCount :: "EndpointKey \<Rightarrow> Pool \<Rightarrow> nat" where
  "pool_idleCount k p = (case map_of (hosts p) k of Some st \<Rightarrow> length (idle st) | None \<Rightarrow> 0)"

section \<open>Leases\<close>

record PooledConnection =
  lease_pool :: bool
  lease_key :: EndpointKey
  lease_client :: "HttpClient option"
  lease_valid :: bool

definition Lease :: "EndpointKey \<Rightarrow> HttpClient \<Rightarrow> PooledConnection" where
  "Lease k c = \<lparr>lease_pool = True, lease_key = k, lease_client = Some c, lease_valid = True\<rparr>"

definition Lease_empty :: PooledConnection where
  "Lease_empty = \<lparr>lease_pool = False, lease_key = EndpointKey [] [], lease_client = None, lease_valid = False\<rparr>"

definition isValid :: "PooledConnection \<Rightarrow> bool" where
  "isValid l \<longleftrightarrow> lease_valid l \<and> lease_client l \<noteq> None"

definition markInvalid :: "PooledConnection \<Rightarrow> PooledConnection" where
  "markInvalid l = l\<lparr>lease_client := map_option resetParserState (lease_client l), lease_valid := False\<rparr>"

definition release :: "int \<Rightarrow> PooledConnection \<Rightarrow> Pool \<Rightarrow> PooledConnection \<times> Pool" where
  "release now l p =
     (if lease_pool l \<and> lease_client l \<noteq> None then
        (l\<lparr>lease_pool := False, lease_client := None, lease_valid := False\<rparr>,
         returnConnection (lease_key l) (lease_client l) (lease_valid l) now p)
      else (l\<lparr>lease_client := None, lease_valid := False\<rparr>, p))"

definition releaseClient :: "int \<Rightarrow> PooledConnection \<Rightarrow> Pool \<Rightarrow> HttpClient option \<times> PooledConnection \<times> Pool" where
  "releaseClient now l p =
     (if lease_pool l then
        (lease_client l, l\<lparr>lease_pool := False, lease_client := None, lease_valid := False\<rparr>,
         returnConnection (lease_key l) None False now p)
      else (lease_client l, l\<lparr>lease_client := None, lease_valid := False\<rparr>, p))"

text \<open>The move constructor: the new lease and what is left of the old one.\<close>

definition lease_move :: "PooledConnection \<Rightarrow> PooledConnection \<times> PooledConnection" where
  "lease_move l = (l, l\<lparr>lease_pool := False, lease_client := None, lease_valid := False\<rparr>)"

section \<open>Acquiring\<close>

text \<open>
  A coroutine inside \<open>acquire\<close>, cut at its suspension points. \<open>t0\<close> is the time captured once,
  on entry. \<open>Acquiring\<close>: about to run the loop body. \<open>Connecting\<close>: suspended in
  \<open>createNewConnection\<close>. \<open>Waiting\<close>: suspended in \<open>waitForAvailableSlot\<close>. \<open>Holding\<close>: returned
  with a lease. \<open>Failed\<close>: returned with an error and an empty lease.
\<close>

datatype coro =
    Acquiring EndpointKey int
  | Connecting EndpointKey int HttpClient
  | Waiting EndpointKey int nat
  | Holding PooledConnection
  | Failed errc

definition createNewConnection_start :: "EndpointKey \<Rightarrow> Pool \<Rightarrow> HttpClient \<times> Pool" where
  "createNewConnection_start k p =
     (let st = host p k
      in (HttpClient_new (next_client p) k,
          set_host k (st\<lparr>activeCount := activeCount st + 1\<rparr>) (p\<lparr>next_client := next_client p + 1\<rparr>)))"

definition createNewConnection_failed :: "EndpointKey \<Rightarrow> Pool \<Rightarrow> Pool" where
  "createNewConnection_failed k p =
     (let st = host p k
      in notifyWaiter k (set_host k (st\<lparr>activeCount := activeCount st - 1\<rparr>) p))"

definition waitForAvailableSlot_start :: "EndpointKey \<Rightarrow> Pool \<Rightarrow> nat \<times> Pool" where
  "waitForAvailableSlot_start k p =
     (let t = next_timer p; st = host p k
      in (t, set_host k (st\<lparr>waiters := waiters st @ [t]\<rparr>)
               (p\<lparr>timers := (timers p)(t := Pending), next_timer := t + 1\<rparr>)))"

definition waitForAvailableSlot_done :: "EndpointKey \<Rightarrow> nat \<Rightarrow> Pool \<Rightarrow> errc option \<times> Pool" where
  "waitForAvailableSlot_done k t p =
     (if timers p t \<noteq> Aborted
      then (Some Timed_out,
            set_host k ((host p k)\<lparr>waiters := filter (\<lambda>w. w \<noteq> t) (waiters (host p k))\<rparr>) p)
      else (None, p))"

text \<open>One pass through the loop body of \<open>acquire\<close>, up to the next suspension or return.\<close>

definition acquire_iter :: "EndpointKey \<Rightarrow> int \<Rightarrow> Pool \<Rightarrow> coro \<times> Pool" where
  "acquire_iter k t0 p =
     (let st = host p k in
      case extractIdle (idleTimeout (config p)) t0 (idle st) of
        (Some c, rest) \<Rightarrow>
          (Holding (Lease k c), set_host k (st\<lparr>activeCount := activeCount st + 1, idle := rest\<rparr>) p)
      | (None, rest) \<Rightarrow>
          let p = set_host k (st\<lparr>idle := rest\<rparr>) p in
          if activeCount st < maxConnectionsPerHost (config p) then
            (case createNewConnection_start k p of (c, p') \<Rightarrow> (Connecting k t0 c, p'))
          else
            (case waitForAvailableSlot_start k p of (t, p') \<Rightarrow> (Waiting k t0 t, p')))"

section \<open>The pool system\<close>

record pool_sys =
  pool :: Pool
  coros :: "coro list"
  detached :: "HttpClient list"
  clock :: int

datatype pool_action =
    Start EndpointKey
  | Iterate nat
  | Connected nat "errc option"
  | Expire nat
  | Wake nat
  | Use nat HttpClient
  | MarkInvalid nat
  | Release nat
  | ReleaseClient nat
  | Move nat
  | Clear
  | Tick nat

text \<open>
  \<open>Start\<close> calls \<open>acquire\<close>; \<open>Iterate\<close> runs the loop body; \<open>Connected\<close> completes a connect;
  \<open>Expire\<close> lets a timer expire; \<open>Wake\<close> resumes a waiter whose wait has completed; \<open>Use\<close> is
  traffic on a leased connection, which changes its parser state and buffers only;
  \<open>Release\<close> is an explicit release or the destructor; \<open>Move\<close> moves the lease to a new owner.
  A step that is not enabled is \<open>None\<close>.
\<close>

definition pool_step :: "pool_action \<Rightarrow> pool_sys \<Rightarrow> pool_sys option" where
  "pool_step a s =
     (case a of
        Start k \<Rightarrow> Some (s\<lparr>coros := coros s @ [Acquiring k (clock s)]\<rparr>)
      | Iterate i \<Rightarrow>
          (if i < length (coros s) then
             (case coros s ! i of
                Acquiring k t0 \<Rightarrow>
                  (case acquire_iter k t0 (pool s) of (c, p) \<Rightarrow>
                     Some (s\<lparr>pool := p, coros := (coros s)[i := c]\<rparr>))
              | _ \<Rightarrow> None)
           else None)
      | Connected i ec \<Rightarrow>
          (if i < length (coros s) then
             (case coros s ! i of
                Connecting k t0 c \<Rightarrow>
                  (case ec of
                     None \<Rightarrow> Some (s\<lparr>coros := (coros s)[i := Holding (Lease k c)]\<rparr>)
                   | Some e \<Rightarrow> Some (s\<lparr>pool := createNewConnection_failed k (pool s),
                                      coros := (coros s)[i := Failed e]\<rparr>))
              | _ \<Rightarrow> None)
           else None)
      | Expire t \<Rightarrow>
          (if timers (pool s) t = Pending
           then Some (s\<lparr>pool := (pool s)\<lparr>timers := (timers (pool s))(t := Fired)\<rparr>\<rparr>)
           else None)
      | Wake i \<Rightarrow>
          (if i < length (coros s) then
             (case coros s ! i of
                Waiting k t0 t \<Rightarrow>
                  (if timers (pool s) t = Pending then None
                   else (case waitForAvailableSlot_done k t (pool s) of
                           (Some e, p) \<Rightarrow> Some (s\<lparr>pool := p, coros := (coros s)[i := Failed e]\<rparr>)
                         | (None, p) \<Rightarrow> Some (s\<lparr>pool := p, coros := (coros s)[i := Acquiring k t0]\<rparr>)))
              | _ \<Rightarrow> None)
           else None)
      | Use i c' \<Rightarrow>
          (if i < length (coros s) then
             (case coros s ! i of
                Holding l \<Rightarrow>
                  (case lease_client l of
                     Some c \<Rightarrow>
                       if hc_id c' = hc_id c \<and> hc_endpoint c' = hc_endpoint c
                       then Some (s\<lparr>coros := (coros s)[i := Holding (l\<lparr>lease_client := Some c'\<rparr>)]\<rparr>)
                       else None
                   | None \<Rightarrow> None)
              | _ \<Rightarrow> None)
           else None)
      | MarkInvalid i \<Rightarrow>
          (if i < length (coros s) then
             (case coros s ! i of
                Holding l \<Rightarrow> Some (s\<lparr>coros := (coros s)[i := Holding (markInvalid l)]\<rparr>)
              | _ \<Rightarrow> None)
           else None)
      | Release i \<Rightarrow>
          (if i < length (coros s) then
             (case coros s ! i of
                Holding l \<Rightarrow>
                  (case release (clock s) l (pool s) of (l', p) \<Rightarrow>
                     Some (s\<lparr>pool := p, coros := (coros s)[i := Holding l']\<rparr>))
              | _ \<Rightarrow> None)
           else None)
      | ReleaseClient i \<Rightarrow>
          (if i < length (coros s) then
             (case coros s ! i of
                Holding l \<Rightarrow>
                  (case releaseClient (clock s) l (pool s) of (c, l', p) \<Rightarrow>
                     Some (s\<lparr>pool := p, coros := (coros s)[i := Holding l'],
                             detached := detached s @ (case c of None \<Rightarrow> [] | Some c \<Rightarrow> [c])\<rparr>))
              | _ \<Rightarrow> None)
           else None)
      | Move i \<Rightarrow>
          (if i < length (coros s) then
             (case coros s ! i of
                Holding l \<Rightarrow>
                  (case lease_move l of (l1, l0) \<Rightarrow>
                     Some (s\<lparr>coros := (coros s)[i := Holding l0] @ [Holding l1]\<rparr>))
              | _ \<Rightarrow> None)
           else None)
      | Clear \<Rightarrow> Some (s\<lparr>pool := clear (pool s)\<rparr>)
      | Tick n \<Rightarrow> Some (s\<lparr>clock := clock s + int n\<rparr>))"

definition sys_init :: "ConnectionPoolConfig \<Rightarrow> pool_sys" where
  "sys_init cfg = \<lparr>pool = Pool_create cfg, coros = [], detached = [], clock = 0\<rparr>"

fun pool_run :: "pool_action list \<Rightarrow> pool_sys \<Rightarrow> pool_sys option" where
  "pool_run [] s = Some s"
| "pool_run (a # as) s = (case pool_step a s of None \<Rightarrow> None | Some s' \<Rightarrow> pool_run as s')"

section \<open>Effects of the operations\<close>

named_theorems pool_simps \<open>effects of the pool operations on hosts, timers and counters\<close>

lemma host_set_host [pool_simps]: "host (set_host k st p) k' = (if k' = k then st else host p k')"
  by (simp add: host_def set_host_def update_conv)

lemma host_frame [pool_simps]:
  "host (p\<lparr>timers := tm\<rparr>) k = host p k" "host (p\<lparr>next_client := n\<rparr>) k = host p k"
  "host (p\<lparr>timers := tm, next_timer := n\<rparr>) k = host p k"
  by (simp_all add: host_def)

lemma set_host_frame [pool_simps]:
  "config (set_host k st p) = config p" "timers (set_host k st p) = timers p"
  "next_timer (set_host k st p) = next_timer p" "next_client (set_host k st p) = next_client p"
  by (simp_all add: set_host_def)

lemma host_clear [pool_simps]: "host (clear p) k = HostState_default"
  by (simp add: clear_def host_def)

lemma clear_frame [pool_simps]:
  "config (clear p) = config p" "next_timer (clear p) = next_timer p" "next_client (clear p) = next_client p"
  by (simp_all add: clear_def)

lemma HostState_default_sel [pool_simps]:
  "activeCount HostState_default = 0" "idle HostState_default = []" "waiters HostState_default = []"
  by (simp_all add: HostState_default_def)

lemma host_notifyWaiter [pool_simps]:
  "host (notifyWaiter k p) k' =
     (if k' = k then (host p k)\<lparr>waiters := tl (waiters (host p k))\<rparr> else host p k')"
  by (auto simp: notifyWaiter_def pool_simps host_def [of p] HostState_default_def
      split: option.splits list.splits)

lemma notifyWaiter_frame [pool_simps]:
  "config (notifyWaiter k p) = config p" "next_timer (notifyWaiter k p) = next_timer p"
  "next_client (notifyWaiter k p) = next_client p"
  by (simp_all add: notifyWaiter_def pool_simps split: option.splits list.splits)

lemma timers_notifyWaiter [pool_simps]:
  "timers (notifyWaiter k p) =
     (case waiters (host p k) of [] \<Rightarrow> timers p | t # _ \<Rightarrow> timer_cancel t (timers p))"
  by (simp add: notifyWaiter_def pool_simps host_def HostState_default_def split: option.splits list.splits)

text \<open>The host state just before \<open>returnConnection\<close> wakes a waiter.\<close>

definition returned :: "HttpClient option \<Rightarrow> bool \<Rightarrow> int \<Rightarrow> HostState \<Rightarrow> HostState" where
  "returned client valid now st =
     st\<lparr>activeCount := activeCount st - 1,
        idle := idle st @ (case client of Some c \<Rightarrow> if valid then [\<lparr>ie_client = c, lastUsed = now\<rparr>] else []
                           | None \<Rightarrow> [])\<rparr>"

lemma returnConnection_eq:
  "returnConnection k client valid now p =
     (if map_of (hosts p) k = None then p
      else notifyWaiter k (set_host k (returned client valid now (host p k)) p))"
  by (auto simp: returnConnection_def returned_def host_def split: option.splits)

lemma host_missing: "map_of (hosts p) k = None \<Longrightarrow> host p k = HostState_default"
  by (simp add: host_def)

lemma returnConnection_frame [pool_simps]:
  "config (returnConnection k c v now p) = config p"
  "next_timer (returnConnection k c v now p) = next_timer p"
  "next_client (returnConnection k c v now p) = next_client p"
  by (simp_all add: returnConnection_eq pool_simps)

lemma host_returnConnection:
  assumes "0 < activeCount (host p k)"
  shows "host (returnConnection k c v now p) k' =
     (if k' = k then (returned c v now (host p k))\<lparr>waiters := tl (waiters (host p k))\<rparr> else host p k')"
proof -
  have "map_of (hosts p) k \<noteq> None"
    using assms host_missing [of p k] by (metis HostState_default_sel(1) less_nat_zero_code)
  then show ?thesis by (auto simp: returnConnection_eq pool_simps returned_def)
qed

text \<open>The entry that is taken is one of the idle entries, its parser state reset; the rest is a prefix.\<close>

lemma extractIdle_spec:
  assumes "extractIdle to now xs = (r, rest)"
  shows "\<exists>ys. xs = rest @ ys \<and> (case r of
      None \<Rightarrow> rest = [] \<and> list_all (\<lambda>e. now - lastUsed e > to) xs
    | Some c \<Rightarrow> \<exists>e zs. ys = e # zs \<and> c = resetParserState (ie_client e)
        \<and> now - lastUsed e \<le> to \<and> list_all (\<lambda>e. now - lastUsed e > to) zs)"
  using assms
proof (induction to now xs rule: extractIdle.induct)
  case (1 to now xs)
  consider "xs = []" | "xs \<noteq> []" "now - lastUsed (last xs) \<le> to"
    | "xs \<noteq> []" "\<not> now - lastUsed (last xs) \<le> to" by blast
  then show ?case
  proof cases
    case 1
    with "1.prems" show ?thesis by (subst (asm) extractIdle.simps) auto
  next
    case 2
    with "1.prems" have r: "r = Some (resetParserState (ie_client (last xs)))" "rest = butlast xs"
      by (auto simp: extractIdle.simps [of to now xs])
    have "xs = rest @ last xs # []" using 2 r by simp
    with r(1) 2(2) show ?thesis by fastforce
  next
    case 3
    with "1.prems" have "extractIdle to now (butlast xs) = (r, rest)"
      by (simp add: extractIdle.simps [of to now xs])
    from "1.IH" [OF 3 this] obtain ys where ys: "butlast xs = rest @ ys"
      and c: "case r of
        None \<Rightarrow> rest = [] \<and> list_all (\<lambda>e. now - lastUsed e > to) (butlast xs)
      | Some c \<Rightarrow> \<exists>e zs. ys = e # zs \<and> c = resetParserState (ie_client e)
          \<and> now - lastUsed e \<le> to \<and> list_all (\<lambda>e. now - lastUsed e > to) zs" by blast
    have x: "xs = butlast xs @ [last xs]" using 3 by simp
    then have "xs = rest @ ys @ [last xs]" using ys by simp
    moreover have "r = None \<Longrightarrow> list_all (\<lambda>e. now - lastUsed e > to) xs"
      using c 3 list_all_append [of "\<lambda>e. now - lastUsed e > to" "butlast xs" "[last xs]"] by simp
    ultimately show ?thesis
      using c 3 by (intro exI [of _ "ys @ [last xs]"]) (auto split: option.splits)
  qed
qed

section \<open>Counting connections\<close>

text \<open>A coroutine uses up one of the endpoint's connections: it is connecting, or holds a lease.\<close>

definition uses :: "EndpointKey \<Rightarrow> coro \<Rightarrow> bool" where
  "uses k c = (case c of
     Connecting k' _ _ \<Rightarrow> k' = k
   | Holding l \<Rightarrow> lease_client l \<noteq> None \<and> lease_key l = k
   | _ \<Rightarrow> False)"

definition in_use :: "EndpointKey \<Rightarrow> coro list \<Rightarrow> nat" where
  "in_use k cs = length (filter (uses k) cs)"

definition lease_wf :: "coro \<Rightarrow> bool" where
  "lease_wf c = (case c of Holding l \<Rightarrow> lease_pool l = (lease_client l \<noteq> None) | _ \<Rightarrow> True)"

definition inv_count :: "ConnectionPoolConfig \<Rightarrow> pool_sys \<Rightarrow> bool" where
  "inv_count cfg s \<longleftrightarrow> config (pool s) = cfg
     \<and> (\<forall>k. activeCount (host (pool s) k) = in_use k (coros s))
     \<and> (\<forall>k. in_use k (coros s) + length (idle (host (pool s) k)) \<le> maxConnectionsPerHost cfg)
     \<and> list_all lease_wf (coros s)"

lemma in_use_update:
  "i < length cs \<Longrightarrow>
   in_use k (cs[i := c]) + (if uses k (cs ! i) then 1 else 0) = in_use k cs + (if uses k c then 1 else 0)"
  unfolding in_use_def by (rule length_filter_update)

lemma in_use_snoc: "in_use k (cs @ [c]) = in_use k cs + (if uses k c then 1 else 0)"
  by (simp add: in_use_def)

lemma in_use_positive:
  "i < length cs \<Longrightarrow> uses k (cs ! i) \<Longrightarrow> 0 < in_use k cs"
  using length_pos_if_in_set [of "cs ! i" "filter (uses k) cs"] by (simp add: in_use_def)

lemma list_all_update: "list_all P xs \<Longrightarrow> P y \<Longrightarrow> list_all P (xs[i := y])"
  by (auto simp: list_all_iff dest: set_update_in)

lemma inv_countD:
  assumes "inv_count cfg s"
  shows "config (pool s) = cfg" "activeCount (host (pool s) k) = in_use k (coros s)"
    "activeCount (host (pool s) k) + length (idle (host (pool s) k)) \<le> maxConnectionsPerHost cfg"
    "list_all lease_wf (coros s)"
  using assms by (simp_all add: inv_count_def)

lemma inv_count_frame [simp]:
  "inv_count cfg (s\<lparr>detached := d\<rparr>) = inv_count cfg s" "inv_count cfg (s\<lparr>clock := n\<rparr>) = inv_count cfg s"
  by (simp_all add: inv_count_def)

lemma inv_count_updI:
  assumes "inv_count cfg s" and "i < length (coros s)" and "lease_wf c"
    and "config p = config (pool s)"
    and "\<And>k. activeCount (host p k) + (if uses k (coros s ! i) then 1 else 0)
           = activeCount (host (pool s) k) + (if uses k c then 1 else 0)"
    and "\<And>k. activeCount (host p k) + length (idle (host p k)) \<le> maxConnectionsPerHost cfg"
  shows "inv_count cfg (s\<lparr>pool := p, coros := (coros s)[i := c]\<rparr>)"
  using assms in_use_update [OF assms(2), of _ c]
  unfolding inv_count_def by (simp add: list_all_update) (metis add_right_imp_eq)

lemma acquire_iter_cases:
  assumes "acquire_iter k t0 p = (c, p')"
  obtains (reuse) cl rest where "extractIdle (idleTimeout (config p)) t0 (idle (host p k)) = (Some cl, rest)"
      "c = Holding (Lease k cl)"
      "p' = set_host k ((host p k)\<lparr>activeCount := activeCount (host p k) + 1, idle := rest\<rparr>) p"
  | (connect) "extractIdle (idleTimeout (config p)) t0 (idle (host p k)) = (None, [])"
      "activeCount (host p k) < maxConnectionsPerHost (config p)"
      "c = Connecting k t0 (HttpClient_new (next_client p) k)"
      "p' = set_host k ((host p k)\<lparr>idle := [], activeCount := activeCount (host p k) + 1\<rparr>)
              (set_host k ((host p k)\<lparr>idle := []\<rparr>) p\<lparr>next_client := next_client p + 1\<rparr>)"
  | (wait) "extractIdle (idleTimeout (config p)) t0 (idle (host p k)) = (None, [])"
      "\<not> activeCount (host p k) < maxConnectionsPerHost (config p)"
      "c = Waiting k t0 (next_timer p)"
      "p' = set_host k ((host p k)\<lparr>idle := [], waiters := waiters (host p k) @ [next_timer p]\<rparr>)
              (set_host k ((host p k)\<lparr>idle := []\<rparr>) p
                 \<lparr>timers := (timers p)(next_timer p := Pending), next_timer := next_timer p + 1\<rparr>)"
proof (cases "extractIdle (idleTimeout (config p)) t0 (idle (host p k))")
  case (Pair r rest)
  show thesis
  proof (cases r)
    case None
    then have "rest = []" using extractIdle_spec [OF Pair] by auto
    with None Pair assms connect wait show thesis
      by (auto simp: acquire_iter_def createNewConnection_start_def waitForAvailableSlot_start_def
          pool_simps Let_def split: if_splits)
  next
    case (Some cl)
    with Pair assms reuse show thesis by (auto simp: acquire_iter_def Let_def)
  qed
qed

text \<open>Every step but \<open>clear\<close> keeps the counting invariant.\<close>

lemmas inv_count_unfold = inv_count_def uses_def lease_wf_def Lease_def

lemma inv_count_iter:
  assumes inv: "inv_count cfg s" and i: "i < length (coros s)" "coros s ! i = Acquiring k t0"
    and a: "acquire_iter k t0 (pool s) = (c, p')"
  shows "inv_count cfg (s\<lparr>pool := p', coros := (coros s)[i := c]\<rparr>)"
proof (rule inv_count_updI [OF inv i(1)])
  have *: "activeCount (host (pool s) k') + length (idle (host (pool s) k')) \<le> maxConnectionsPerHost cfg"
    for k' using inv by (rule inv_countD)
  have cfg: "config (pool s) = cfg" using inv by (rule inv_countD)
  have l: "length rest < length (idle (host (pool s) k))"
    if "extractIdle (idleTimeout (config (pool s))) t0 (idle (host (pool s) k)) = (Some cl, rest)" for cl rest
    using extractIdle_spec [OF that] by auto
  from a show "lease_wf c" "config p' = config (pool s)"
    "activeCount (host p' k') + (if uses k' (coros s ! i) then 1 else 0)
       = activeCount (host (pool s) k') + (if uses k' c then 1 else 0)"
    "activeCount (host p' k') + length (idle (host p' k')) \<le> maxConnectionsPerHost cfg" for k'
    using * [of k'] * [of k] cfg i(2) l
    by (cases rule: acquire_iter_cases;
        fastforce simp: pool_simps uses_def lease_wf_def Lease_def)+
qed

lemma returned_sel [simp]:
  "activeCount (returned c v now st) = activeCount st - 1"
  "waiters (returned c v now st) = waiters st"
  "length (idle (returned c v now st)) \<le> length (idle st) + 1"
  by (auto simp: returned_def split: option.splits)

lemma inv_count_return:
  assumes inv: "inv_count cfg s" and i: "i < length (coros s)" "coros s ! i = Holding l"
    and l: "lease_client l \<noteq> None" and c: "lease_wf c" "\<And>k. \<not> uses k c"
  shows "inv_count cfg (s\<lparr>pool := returnConnection (lease_key l) cl v now (pool s),
                          coros := (coros s)[i := c]\<rparr>)"
proof (rule inv_count_updI [OF inv i(1) c(1)])
  have u: "uses k' (coros s ! i) \<longleftrightarrow> lease_key l = k'" for k'
    using i(2) l by (simp add: uses_def)
  then have pos: "0 < activeCount (host (pool s) (lease_key l))"
    using in_use_positive [OF i(1)] inv by (simp add: inv_count_def)
  have *: "activeCount (host (pool s) k') + length (idle (host (pool s) k')) \<le> maxConnectionsPerHost cfg" for k'
    using inv by (rule inv_countD)
  show "config (returnConnection (lease_key l) cl v now (pool s)) = config (pool s)"
    by (simp add: pool_simps)
  fix k'
  show "activeCount (host (returnConnection (lease_key l) cl v now (pool s)) k')
        + (if uses k' (coros s ! i) then 1 else 0)
      = activeCount (host (pool s) k') + (if uses k' c then 1 else 0)"
    using u pos c(2) by (auto simp: host_returnConnection [OF pos])
  show "activeCount (host (returnConnection (lease_key l) cl v now (pool s)) k')
        + length (idle (host (returnConnection (lease_key l) cl v now (pool s)) k'))
      \<le> maxConnectionsPerHost cfg"
    using pos * [of k'] returned_sel(3) [of cl v now "host (pool s) (lease_key l)"]
    by (auto simp: host_returnConnection [OF pos])
qed

lemma inv_count_coro:
  assumes "inv_count cfg s" and "i < length (coros s)" and "lease_wf c"
    and "\<And>k. uses k c = uses k (coros s ! i)"
  shows "inv_count cfg (s\<lparr>coros := (coros s)[i := c]\<rparr>)"
  using inv_count_updI [OF assms(1-3), of "pool s"] assms(4) inv_countD(3) [OF assms(1)] by simp

lemma inv_count_wf_nth: "inv_count cfg s \<Longrightarrow> i < length (coros s) \<Longrightarrow> lease_wf (coros s ! i)"
  by (simp add: inv_count_def list_all_length)

lemma pool_step_Holding:
  assumes "pool_step a s = Some s'"
    and "a \<in> {Use i c', MarkInvalid i, Release i, ReleaseClient i, Move i}"
  obtains l where "i < length (coros s)" and "coros s ! i = Holding l"
  using assms by (auto simp: pool_step_def split: if_splits coro.splits)

lemma inv_count_lease:
  assumes inv: "inv_count cfg s" and st: "pool_step a s = Some s'"
    and a: "a \<in> {Use i c', MarkInvalid i, Release i, ReleaseClient i, Move i}"
  shows "inv_count cfg s'"
proof -
  from st a obtain l where i: "i < length (coros s)" "coros s ! i = Holding l"
    by (rule pool_step_Holding)
  have wf: "lease_pool l = (lease_client l \<noteq> None)"
    using inv_count_wf_nth [OF inv i(1)] i(2) by (simp add: lease_wf_def)
  note ret = inv_count_return [OF inv i]
  note upd = inv_count_coro [OF inv i(1)]
  from a consider "a = Use i c'" | "a = MarkInvalid i" | "a = Release i" | "a = ReleaseClient i" | "a = Move i"
    by blast
  then show ?thesis
  proof cases
    case 1
    with st i show ?thesis
      by (auto simp: pool_step_def uses_def lease_wf_def wf split: option.splits if_splits intro!: upd)
  next
    case 2
    with st i show ?thesis
      by (auto simp: pool_step_def uses_def lease_wf_def wf markInvalid_def intro!: upd)
  next
    case 3
    with st i wf show ?thesis
      by (cases "lease_client l")
        (auto simp: pool_step_def release_def uses_def lease_wf_def intro!: ret upd)
  next
    case 4
    let ?l0 = "l\<lparr>lease_pool := False, lease_client := None, lease_valid := False\<rparr>"
    show ?thesis
    proof (cases "lease_client l")
      case None
      with 4 st i wf show ?thesis
        by (auto simp: pool_step_def releaseClient_def uses_def lease_wf_def intro!: upd)
    next
      case (Some c)
      have "inv_count cfg (s\<lparr>pool := returnConnection (lease_key l) None False (clock s) (pool s),
                             coros := (coros s)[i := Holding ?l0]\<rparr>\<lparr>detached := detached s @ [c]\<rparr>)"
        unfolding inv_count_frame by (rule ret) (simp_all add: Some uses_def lease_wf_def)
      with 4 st i wf Some show ?thesis by (simp add: pool_step_def releaseClient_def)
    qed
  next
    case 5
    let ?l0 = "l\<lparr>lease_pool := False, lease_client := None, lease_valid := False\<rparr>"
    have s': "s' = s\<lparr>coros := (coros s)[i := Holding ?l0] @ [Holding l]\<rparr>"
      using st i 5 by (simp add: pool_step_def lease_move_def)
    have "in_use k ((coros s)[i := Holding ?l0] @ [Holding l]) = in_use k (coros s)" for k
      using in_use_update [OF i(1), of k "Holding ?l0"] i(2) by (simp add: in_use_snoc uses_def)
    moreover have "list_all lease_wf ((coros s)[i := Holding ?l0])"
      using inv by (intro list_all_update) (simp_all add: inv_count_def lease_wf_def)
    ultimately show ?thesis using inv wf by (simp add: s' inv_count_def lease_wf_def)
  qed
qed

lemma inv_count_pool:
  assumes "inv_count cfg s" and "config p = config (pool s)"
    and "\<And>k. activeCount (host p k) = activeCount (host (pool s) k) \<and> idle (host p k) = idle (host (pool s) k)"
  shows "inv_count cfg (s\<lparr>pool := p\<rparr>)"
  using assms by (simp add: inv_count_def)

lemma inv_count_connected:
  assumes inv: "inv_count cfg s" and st: "pool_step (Connected i ec) s = Some s'"
  shows "inv_count cfg s'"
proof -
  from st obtain k t0 c where i: "i < length (coros s)" "coros s ! i = Connecting k t0 c"
    by (auto simp: pool_step_def split: if_splits coro.splits)
  show ?thesis
  proof (cases ec)
    case None
    with st i have "s' = s\<lparr>coros := (coros s)[i := Holding (Lease k c)]\<rparr>" by (simp add: pool_step_def)
    moreover have "uses k' (Holding (Lease k c)) = uses k' (coros s ! i)" for k'
      by (simp add: i(2) uses_def Lease_def)
    ultimately show ?thesis
      using inv_count_coro [OF inv i(1)] by (simp add: lease_wf_def Lease_def)
  next
    case (Some e)
    with st i have s': "s' = s\<lparr>pool := createNewConnection_failed k (pool s), coros := (coros s)[i := Failed e]\<rparr>"
      by (simp add: pool_step_def)
    have u: "uses k' (coros s ! i) \<longleftrightarrow> k = k'" for k' by (simp add: i(2) uses_def)
    then have pos: "0 < activeCount (host (pool s) k)"
      using in_use_positive [OF i(1), of k] inv_countD(2) [OF inv, of k] by simp
    note host' = pool_simps createNewConnection_failed_def Let_def
    show ?thesis unfolding s'
    proof (rule inv_count_updI [OF inv i(1)])
      fix k'
      show "activeCount (host (createNewConnection_failed k (pool s)) k') + (if uses k' (coros s ! i) then 1 else 0)
          = activeCount (host (pool s) k') + (if uses k' (Failed e) then 1 else 0)"
        using pos u by (auto simp: host' uses_def [of _ "Failed e"])
      show "activeCount (host (createNewConnection_failed k (pool s)) k')
            + length (idle (host (createNewConnection_failed k (pool s)) k')) \<le> maxConnectionsPerHost cfg"
        using inv_countD(3) [OF inv, of k'] by (auto simp: host')
    qed (simp_all add: lease_wf_def host')
  qed
qed

lemma inv_count_wake:
  assumes inv: "inv_count cfg s" and st: "pool_step (Wake i) s = Some s'"
  shows "inv_count cfg s'"
proof -
  from st obtain k t0 t where i: "i < length (coros s)" "coros s ! i = Waiting k t0 t"
    by (auto simp: pool_step_def split: if_splits coro.splits)
  have keep: "inv_count cfg (s\<lparr>pool := p, coros := (coros s)[i := c]\<rparr>)"
    if "lease_wf c" "\<And>k. \<not> uses k c" "config p = config (pool s)"
      "\<And>k'. activeCount (host p k') = activeCount (host (pool s) k') \<and> idle (host p k') = idle (host (pool s) k')"
    for p c
    using inv_count_coro [OF inv i(1) that(1)] inv_count_pool [of cfg _ p] that i(2)
    by (simp add: inv_count_def uses_def)
  show ?thesis
    using st i
    by (auto simp: pool_step_def waitForAvailableSlot_done_def pool_simps uses_def lease_wf_def
        split: if_splits intro!: keep inv_count_coro [OF inv i(1)])
qed

lemma inv_count_step:
  assumes inv: "inv_count cfg s" and st: "pool_step a s = Some s'" and a: "a \<noteq> Clear"
  shows "inv_count cfg s'"
proof (cases a)
  case (Start k)
  with st inv show ?thesis
    by (auto simp: pool_step_def inv_count_def in_use_snoc uses_def lease_wf_def)
next
  case (Iterate i)
  with st inv show ?thesis
    by (auto simp: pool_step_def split: if_splits coro.splits prod.splits intro: inv_count_iter)
next
  case (Connected i ec)
  with st inv show ?thesis by (blast intro: inv_count_connected)
next
  case (Expire t)
  with st inv show ?thesis
    by (auto simp: pool_step_def pool_simps split: if_splits intro!: inv_count_pool)
next
  case (Wake i)
  with st inv show ?thesis by (blast intro: inv_count_wake)
next
  case (Tick n)
  with st inv show ?thesis by (auto simp: pool_step_def)
qed (use inv st a inv_count_lease in \<open>blast+\<close>)

inductive pool_trans :: "pool_sys \<Rightarrow> pool_sys \<Rightarrow> bool" where
  "pool_step a s = Some s' \<Longrightarrow> pool_trans s s'"

inductive pool_trans_noclear :: "pool_sys \<Rightarrow> pool_sys \<Rightarrow> bool" where
  "pool_step a s = Some s' \<Longrightarrow> a \<noteq> Clear \<Longrightarrow> pool_trans_noclear s s'"

inductive_cases pool_transE: "pool_trans s s'"
inductive_cases pool_trans_noclearE: "pool_trans_noclear s s'"

lemma inv_count_init: "inv_count cfg (sys_init cfg)"
  by (simp add: inv_count_def sys_init_def Pool_create_def in_use_def host_def pool_simps)

interpretation pc: invariant_system "\<lambda>s. s = sys_init cfg" pool_trans_noclear "inv_count cfg" for cfg
  by unfold_locales (auto intro: inv_count_init inv_count_step elim!: pool_trans_noclearE)

section \<open>Exclusive use of a connection\<close>

definition coro_client :: "coro \<Rightarrow> HttpClient option" where
  "coro_client c = (case c of Connecting _ _ cl \<Rightarrow> Some cl | Holding l \<Rightarrow> lease_client l | _ \<Rightarrow> None)"

definition has_id :: "nat \<Rightarrow> HttpClient option \<Rightarrow> bool" where
  "has_id x c = (case c of Some cl \<Rightarrow> hc_id cl = x | None \<Rightarrow> False)"

definition coro_places :: "nat \<Rightarrow> coro list \<Rightarrow> nat" where
  "coro_places x cs = length (filter (\<lambda>c. has_id x (coro_client c)) cs)"

definition idle_places :: "nat \<Rightarrow> HostState \<Rightarrow> nat" where
  "idle_places x st = length (filter (\<lambda>e. hc_id (ie_client e) = x) (idle st))"

definition pool_places :: "nat \<Rightarrow> Pool \<Rightarrow> nat" where
  "pool_places x p = sum_list (map (\<lambda>(k, st). idle_places x st) (hosts p))"

text \<open>The number of places (coroutines, detached clients, idle vectors) where connection \<open>x\<close> is found.\<close>

definition places :: "nat \<Rightarrow> pool_sys \<Rightarrow> nat" where
  "places x s = coro_places x (coros s) + length (filter (\<lambda>c. hc_id c = x) (detached s)) + pool_places x (pool s)"

definition coro_key_ok :: "coro \<Rightarrow> bool" where
  "coro_key_ok c = (case c of
     Connecting k _ cl \<Rightarrow> hc_endpoint cl = k
   | Holding l \<Rightarrow> (case lease_client l of Some cl \<Rightarrow> hc_endpoint cl = lease_key l | None \<Rightarrow> True)
   | _ \<Rightarrow> True)"

definition inv_excl :: "pool_sys \<Rightarrow> bool" where
  "inv_excl s \<longleftrightarrow> (\<forall>x. places x s \<le> (if x < next_client (pool s) then 1 else 0))
     \<and> list_all coro_key_ok (coros s)
     \<and> (\<forall>k. list_all (\<lambda>e. hc_endpoint (ie_client e) = k) (idle (host (pool s) k)))"

lemma sum_list_update:
  fixes f :: "'a \<times> 'b \<Rightarrow> nat"
  shows "sum_list (map f (AList.update k v al)) + (case map_of al k of None \<Rightarrow> 0 | Some w \<Rightarrow> f (k, w))
    = sum_list (map f al) + f (k, v)"
  by (induction al) (auto split: option.splits)

lemma pool_places_set_host:
  "pool_places x (set_host k st p) + idle_places x (host p k) = pool_places x p + idle_places x st"
  using sum_list_update [of "\<lambda>(k, st). idle_places x st" k st "hosts p"]
  by (auto simp: pool_places_def set_host_def host_def idle_places_def HostState_default_def split: option.splits)

lemma pool_places_same:
  "idle st = idle (host p k) \<Longrightarrow> pool_places x (set_host k st p) = pool_places x p"
  using pool_places_set_host [of x k st p] by (simp add: idle_places_def)

lemma pool_places_frame [simp]:
  "pool_places x (p\<lparr>timers := tm\<rparr>) = pool_places x p"
  "pool_places x (p\<lparr>next_client := n\<rparr>) = pool_places x p"
  "pool_places x (p\<lparr>timers := tm, next_timer := n\<rparr>) = pool_places x p"
  by (simp_all add: pool_places_def)

lemma pool_places_notify: "pool_places x (notifyWaiter k p) = pool_places x p"
  by (auto simp: notifyWaiter_def host_def pool_places_same split: option.splits list.splits)

lemma pool_places_return:
  "pool_places x (returnConnection k c v now p) \<le> pool_places x p + (if has_id x c then 1 else 0)"
proof -
  have "pool_places x (set_host k (returned c v now (host p k)) p)
      \<le> pool_places x p + (if has_id x c then 1 else 0)"
    using pool_places_set_host [of x k "returned c v now (host p k)" p]
    by (auto simp: idle_places_def returned_def has_id_def split: option.splits if_splits)
  then show ?thesis by (auto simp: returnConnection_eq pool_places_notify split: if_splits)
qed

lemma pool_places_clear: "pool_places x (clear p) = 0"
  by (simp add: pool_places_def clear_def)

lemma coro_places_update:
  "i < length cs \<Longrightarrow>
   coro_places x (cs[i := c]) + (if has_id x (coro_client (cs ! i)) then 1 else 0)
     = coro_places x cs + (if has_id x (coro_client c) then 1 else 0)"
  unfolding coro_places_def by (rule length_filter_update)

lemma coro_places_snoc:
  "coro_places x (cs @ [c]) = coro_places x cs + (if has_id x (coro_client c) then 1 else 0)"
  by (simp add: coro_places_def)

lemma inv_exclD:
  assumes "inv_excl s"
  shows "places x s \<le> (if x < next_client (pool s) then 1 else 0)"
    and "list_all coro_key_ok (coros s)"
    and "list_all (\<lambda>e. hc_endpoint (ie_client e) = k) (idle (host (pool s) k))"
  using assms by (simp_all add: inv_excl_def)

text \<open>
  One coroutine changes: the invariant is kept when no connection gains a place, counting
  the changed coroutine, the pool and the newly detached clients.
\<close>

lemma inv_excl_updI:
  assumes inv: "inv_excl s" and i: "i < length (coros s)" and "coro_key_ok c"
    and "next_client p = next_client (pool s)"
    and le: "\<And>x. pool_places x p + length (filter (\<lambda>c. hc_id c = x) d) + (if has_id x (coro_client c) then 1 else 0)
        \<le> pool_places x (pool s) + (if has_id x (coro_client (coros s ! i)) then 1 else 0)"
    and "\<And>k. list_all (\<lambda>e. hc_endpoint (ie_client e) = k) (idle (host p k))"
  shows "inv_excl (s\<lparr>pool := p, coros := (coros s)[i := c], detached := detached s @ d\<rparr>)"
proof -
  let ?s' = "s\<lparr>pool := p, coros := (coros s)[i := c], detached := detached s @ d\<rparr>"
  have "places x ?s' \<le> places x s" for x
    using le [of x] coro_places_update [OF i, of x c] by (simp add: places_def)
  then have "places x ?s' \<le> (if x < next_client p then 1 else 0)" for x
    using inv_exclD(1) [OF inv, of x] assms(4) by (metis order_trans)
  then show ?thesis
    using assms by (simp add: inv_excl_def list_all_update)
qed

lemma inv_excl_coro:
  assumes "inv_excl s" and "i < length (coros s)" and "coro_key_ok c"
    and "\<And>x. has_id x (coro_client c) \<Longrightarrow> has_id x (coro_client (coros s ! i))"
  shows "inv_excl (s\<lparr>coros := (coros s)[i := c]\<rparr>)"
  using inv_excl_updI [OF assms(1-3), of "pool s" "[]"] assms(4) inv_exclD(3) [OF assms(1)] by simp

lemma inv_excl_pool_coro:
  assumes "inv_excl s" and "i < length (coros s)" and "coro_key_ok c"
    and "next_client p = next_client (pool s)"
    and "\<And>x. pool_places x p + (if has_id x (coro_client c) then 1 else 0)
        \<le> pool_places x (pool s) + (if has_id x (coro_client (coros s ! i)) then 1 else 0)"
    and "\<And>k. list_all (\<lambda>e. hc_endpoint (ie_client e) = k) (idle (host p k))"
  shows "inv_excl (s\<lparr>pool := p, coros := (coros s)[i := c]\<rparr>)"
  using inv_excl_updI [OF assms(1-4), of "[]"] assms(5,6) by simp

lemma idle_returnConnection:
  assumes "list_all (\<lambda>e. hc_endpoint (ie_client e) = k') (idle (host p k'))"
    and "\<And>cl. c = Some cl \<Longrightarrow> hc_endpoint cl = k"
  shows "list_all (\<lambda>e. hc_endpoint (ie_client e) = k') (idle (host (returnConnection k c v now p) k'))"
  using assms by (auto simp: returnConnection_eq pool_simps returned_def split: option.splits)

lemma reset_frame [simp]:
  "hc_id (resetParserState c) = hc_id c" "hc_endpoint (resetParserState c) = hc_endpoint c"
  by (simp_all add: resetParserState_def)

lemma inv_excl_iter:
  assumes inv: "inv_excl s" and i: "i < length (coros s)" "coros s ! i = Acquiring k t0"
    and a: "acquire_iter k t0 (pool s) = (c, p')"
  shows "inv_excl (s\<lparr>pool := p', coros := (coros s)[i := c]\<rparr>)"
  using a
proof (cases rule: acquire_iter_cases)
  case (reuse cl rest)
  from extractIdle_spec [OF reuse(1)] obtain e zs
    where id: "idle (host (pool s) k) = rest @ e # zs" and cl: "cl = resetParserState (ie_client e)"
    by auto
  let ?st = "(host (pool s) k)\<lparr>activeCount := activeCount (host (pool s) k) + 1, idle := rest\<rparr>"
  have le: "idle_places x ?st + (if hc_id cl = x then 1 else 0) \<le> idle_places x (host (pool s) k)" for x
    by (simp add: idle_places_def id cl)
  have "pool_places x p' + (if hc_id cl = x then 1 else 0) \<le> pool_places x (pool s)" for x
    using pool_places_set_host [of x k ?st "pool s"] le [of x] unfolding reuse(3) by linarith
  moreover have "has_id x (coro_client c) \<longleftrightarrow> hc_id cl = x" for x
    by (simp add: coro_client_def has_id_def Lease_def reuse(2))
  ultimately have "pool_places x p' + (if has_id x (coro_client c) then 1 else 0) \<le> pool_places x (pool s)" for x
    by simp
  moreover have ep: "list_all (\<lambda>e. hc_endpoint (ie_client e) = k') (idle (host (pool s) k'))" for k'
    by (rule inv_exclD(3) [OF inv])
  then have "hc_endpoint cl = k" using ep [of k] id cl by simp
  moreover have "list_all (\<lambda>e. hc_endpoint (ie_client e) = k') (idle (host p' k'))" for k'
    using ep [of k'] id reuse(3) by (auto simp: pool_simps)
  ultimately show ?thesis
    using reuse i
    by (intro inv_excl_pool_coro [OF inv i(1)])
      (simp_all add: coro_key_ok_def Lease_def pool_simps coro_client_def has_id_def)
next
  case connect
  let ?n = "next_client (pool s)"
  have pp: "pool_places x p' \<le> pool_places x (pool s)" for x
    using pool_places_set_host [of x k "(host (pool s) k)\<lparr>idle := []\<rparr>" "pool s"]
    by (simp add: connect(4) pool_places_same pool_simps idle_places_def)
  have new: "places x (s\<lparr>pool := p', coros := (coros s)[i := c]\<rparr>) \<le> places x s + (if x = ?n then 1 else 0)" for x
    using coro_places_update [OF i(1), of x c] pp [of x] i(2)
    by (simp add: places_def coro_client_def has_id_def connect(3) HttpClient_new_def split: if_splits)
  have "places x (s\<lparr>pool := p', coros := (coros s)[i := c]\<rparr>) \<le> (if x < Suc ?n then 1 else 0)" for x
    using new [of x] inv_exclD(1) [OF inv, of x] by (auto simp: less_Suc_eq split: if_splits)
  then show ?thesis
    using inv_exclD(2,3) [OF inv] connect
    by (auto simp: inv_excl_def pool_simps coro_key_ok_def HttpClient_new_def intro!: list_all_update)
next
  case wait
  have "pool_places x p' \<le> pool_places x (pool s)" for x
    using pool_places_set_host [of x k "(host (pool s) k)\<lparr>idle := []\<rparr>" "pool s"]
    by (simp add: wait(4) pool_places_same pool_simps idle_places_def)
  then show ?thesis
    using wait i inv_exclD(3) [OF inv]
    by (intro inv_excl_pool_coro [OF inv i(1)])
      (simp_all add: coro_key_ok_def pool_simps coro_client_def has_id_def)
qed

lemma inv_excl_key_nth: "inv_excl s \<Longrightarrow> i < length (coros s) \<Longrightarrow> coro_key_ok (coros s ! i)"
  by (simp add: inv_excl_def list_all_length)

lemma inv_excl_return:
  assumes inv: "inv_excl s" and i: "i < length (coros s)" "coros s ! i = Holding l"
    and c: "coro_client c = None" "coro_key_ok c"
  shows "inv_excl (s\<lparr>pool := returnConnection (lease_key l) (lease_client l) v now (pool s),
                     coros := (coros s)[i := c]\<rparr>)"
    and "inv_excl (s\<lparr>pool := returnConnection (lease_key l) None False now (pool s),
                     coros := (coros s)[i := c],
                     detached := detached s @ (case lease_client l of None \<Rightarrow> [] | Some cl \<Rightarrow> [cl])\<rparr>)"
proof -
  have key: "lease_client l = Some cl \<Longrightarrow> hc_endpoint cl = lease_key l" for cl
    using inv_excl_key_nth [OF inv i(1)] i(2) by (simp add: coro_key_ok_def)
  have old: "coro_client (coros s ! i) = lease_client l" by (simp add: i(2) coro_client_def)
  show "inv_excl (s\<lparr>pool := returnConnection (lease_key l) (lease_client l) v now (pool s),
                     coros := (coros s)[i := c]\<rparr>)"
  proof (rule inv_excl_pool_coro [OF inv i(1) c(2)])
    show "pool_places x (returnConnection (lease_key l) (lease_client l) v now (pool s))
        + (if has_id x (coro_client c) then 1 else 0)
      \<le> pool_places x (pool s) + (if has_id x (coro_client (coros s ! i)) then 1 else 0)" for x
      using pool_places_return [of x "lease_key l" "lease_client l" v now "pool s"]
      by (simp add: old c(1) has_id_def [of _ None])
  qed (use key in \<open>auto simp: pool_simps intro!: idle_returnConnection inv_exclD(3) [OF inv]\<close>)
  show "inv_excl (s\<lparr>pool := returnConnection (lease_key l) None False now (pool s),
                     coros := (coros s)[i := c],
                     detached := detached s @ (case lease_client l of None \<Rightarrow> [] | Some cl \<Rightarrow> [cl])\<rparr>)"
  proof (rule inv_excl_updI [OF inv i(1) c(2)])
    show "pool_places x (returnConnection (lease_key l) None False now (pool s))
        + length (filter (\<lambda>c. hc_id c = x) (case lease_client l of None \<Rightarrow> [] | Some cl \<Rightarrow> [cl]))
        + (if has_id x (coro_client c) then 1 else 0)
      \<le> pool_places x (pool s) + (if has_id x (coro_client (coros s ! i)) then 1 else 0)" for x
      using pool_places_return [of x "lease_key l" None False now "pool s"]
      by (auto simp: old c(1) has_id_def split: option.splits)
  qed (auto simp: pool_simps intro!: idle_returnConnection inv_exclD(3) [OF inv])
qed

lemma inv_excl_detach:
  assumes inv: "inv_excl s" and i: "i < length (coros s)" "coros s ! i = Holding l"
    and c: "coro_client c = None" "coro_key_ok c"
  shows "inv_excl (s\<lparr>coros := (coros s)[i := c],
                     detached := detached s @ (case lease_client l of None \<Rightarrow> [] | Some cl \<Rightarrow> [cl])\<rparr>)"
  using inv_excl_updI [OF inv i(1) c(2), of "pool s" "case lease_client l of None \<Rightarrow> [] | Some cl \<Rightarrow> [cl]"]
    inv_exclD(3) [OF inv] c(1) i(2)
  by (auto simp: has_id_def coro_client_def split: option.splits)

lemma inv_excl_lease:
  assumes inv: "inv_excl s" and st: "pool_step a s = Some s'"
    and a: "a \<in> {Use i c', MarkInvalid i, Release i, ReleaseClient i, Move i}"
  shows "inv_excl s'"
proof -
  from st a obtain l where i: "i < length (coros s)" "coros s ! i = Holding l"
    by (rule pool_step_Holding)
  note ret = inv_excl_return [OF inv i] and det = inv_excl_detach [OF inv i]
  note upd = inv_excl_coro [OF inv i(1)]
  have key: "lease_client l = Some cl \<Longrightarrow> hc_endpoint cl = lease_key l" for cl
    using inv_excl_key_nth [OF inv i(1)] i(2) by (simp add: coro_key_ok_def)
  from a consider "a = Use i c'" | "a = MarkInvalid i" | "a = Release i" | "a = ReleaseClient i" | "a = Move i"
    by blast
  then show ?thesis
  proof cases
    case 1
    with st i key show ?thesis
      by (auto simp: pool_step_def coro_key_ok_def coro_client_def has_id_def
          split: option.splits if_splits intro!: upd)
  next
    case 2
    with st i key show ?thesis
      by (auto simp: pool_step_def markInvalid_def coro_key_ok_def coro_client_def has_id_def
          split: option.splits intro!: upd)
  next
    case 3
    show ?thesis
    proof (cases "lease_pool l \<and> lease_client l \<noteq> None")
      case True
      with st i 3 show ?thesis
        by (auto simp: pool_step_def release_def coro_key_ok_def coro_client_def
            simp del: not_None_eq intro!: ret(1))
    next
      case False
      with st i 3 show ?thesis
        by (auto simp: pool_step_def release_def coro_key_ok_def coro_client_def has_id_def
            split: if_splits intro!: upd)
    qed
  next
    case 4
    with st i show ?thesis
      by (auto simp: pool_step_def releaseClient_def coro_key_ok_def coro_client_def
          split: if_splits intro!: ret(2) det)
  next
    case 5
    let ?l0 = "l\<lparr>lease_pool := False, lease_client := None, lease_valid := False\<rparr>"
    have s': "s' = s\<lparr>coros := (coros s)[i := Holding ?l0] @ [Holding l]\<rparr>"
      using st i 5 by (simp add: pool_step_def lease_move_def)
    have "coro_places x ((coros s)[i := Holding ?l0] @ [Holding l]) = coro_places x (coros s)" for x
      using coro_places_update [OF i(1), of x "Holding ?l0"] i(2)
      by (simp add: coro_places_snoc coro_client_def has_id_def [of _ None])
    moreover have "list_all coro_key_ok ((coros s)[i := Holding ?l0])"
      using inv_exclD(2) [OF inv] by (intro list_all_update) (simp_all add: coro_key_ok_def)
    ultimately show ?thesis
      using inv inv_excl_key_nth [OF inv i(1)] i(2) by (simp add: s' inv_excl_def places_def)
  qed
qed

lemma inv_excl_pool:
  assumes "inv_excl s" and "next_client p = next_client (pool s)"
    and "\<And>x. pool_places x p \<le> pool_places x (pool s)"
    and "\<And>k. list_all (\<lambda>e. hc_endpoint (ie_client e) = k) (idle (host p k))"
  shows "inv_excl (s\<lparr>pool := p\<rparr>)"
proof -
  have "places x (s\<lparr>pool := p\<rparr>) \<le> places x s" for x using assms(3) by (simp add: places_def)
  then have "places x (s\<lparr>pool := p\<rparr>) \<le> (if x < next_client p then 1 else 0)" for x
    using inv_exclD(1) [OF assms(1), of x] assms(2) by (metis order_trans)
  then show ?thesis using assms by (simp add: inv_excl_def)
qed

lemma inv_excl_step:
  assumes inv: "inv_excl s" and st: "pool_step a s = Some s'"
  shows "inv_excl s'"
proof (cases a)
  case (Start k)
  with st have s': "s' = s\<lparr>coros := coros s @ [Acquiring k (clock s)]\<rparr>" by (simp add: pool_step_def)
  then have "places x s' = places x s" for x
    by (simp add: places_def coro_places_snoc coro_client_def has_id_def)
  with inv s' show ?thesis by (simp add: inv_excl_def coro_key_ok_def)
next
  case (Iterate i)
  with st inv show ?thesis
    by (auto simp: pool_step_def split: if_splits coro.splits prod.splits intro: inv_excl_iter)
next
  case (Connected i ec)
  then obtain k t0 c where i: "i < length (coros s)" "coros s ! i = Connecting k t0 c"
    using st by (auto simp: pool_step_def split: if_splits coro.splits)
  have key: "hc_endpoint c = k" using inv_excl_key_nth [OF inv i(1)] i(2) by (simp add: coro_key_ok_def)
  show ?thesis
  proof (cases ec)
    case None
    with Connected st i key show ?thesis
      by (auto simp: pool_step_def coro_key_ok_def coro_client_def Lease_def intro!: inv_excl_coro [OF inv])
  next
    case (Some e)
    with Connected st i show ?thesis
      using inv_exclD(3) [OF inv]
      by (auto simp: pool_step_def coro_key_ok_def coro_client_def has_id_def
          pool_places_notify pool_places_same createNewConnection_failed_def Let_def pool_simps intro!: inv_excl_pool_coro [OF inv i(1)])
  qed
next
  case (Expire t)
  with st inv show ?thesis
    using inv_exclD(3) [OF inv]
    by (auto simp: pool_step_def pool_simps split: if_splits intro!: inv_excl_pool)
next
  case (Wake i)
  then obtain k t0 t where i: "i < length (coros s)" "coros s ! i = Waiting k t0 t"
    using st by (auto simp: pool_step_def split: if_splits coro.splits)
  with st Wake show ?thesis
    using inv_exclD(3) [OF inv]
    by (auto simp: pool_step_def waitForAvailableSlot_done_def coro_key_ok_def coro_client_def has_id_def
        pool_simps pool_places_same split: if_splits
        intro!: inv_excl_pool_coro [OF inv i(1)] inv_excl_coro [OF inv i(1)])
next
  case Clear
  with st inv show ?thesis
    by (auto simp: pool_step_def pool_simps pool_places_clear intro!: inv_excl_pool)
next
  case (Tick n)
  then have "s' = s\<lparr>clock := clock s + int n\<rparr>" using st by (simp add: pool_step_def)
  moreover from this have "places x s' = places x s" for x by (simp add: places_def)
  ultimately show ?thesis using inv by (simp add: inv_excl_def)
qed (use inv st inv_excl_lease in \<open>blast+\<close>)

lemma inv_excl_init: "inv_excl (sys_init cfg)"
  by (simp add: inv_excl_def sys_init_def Pool_create_def places_def coro_places_def pool_places_def
      host_def pool_simps)

interpretation px: invariant_system "\<lambda>s. s = sys_init cfg" pool_trans inv_excl for cfg
  by unfold_locales (auto intro: inv_excl_init inv_excl_step elim!: pool_transE)

section \<open>Waiters\<close>

text \<open>A coroutine that sleeps on a pending timer is in its endpoint's queue.\<close>

definition wait_ok :: "Pool \<Rightarrow> coro \<Rightarrow> bool" where
  "wait_ok p c = (case c of
     Waiting k _ t \<Rightarrow> t < next_timer p \<and> (timers p t = Pending \<longrightarrow> t \<in> set (waiters (host p k)))
   | _ \<Rightarrow> True)"

definition inv_wait :: "pool_sys \<Rightarrow> bool" where
  "inv_wait s \<longleftrightarrow> list_all (wait_ok (pool s)) (coros s)"

text \<open>How an operation may change the pool without hiding a waiter.\<close>

definition keeps_waiters :: "Pool \<Rightarrow> Pool \<Rightarrow> bool" where
  "keeps_waiters p p' \<longleftrightarrow> next_timer p \<le> next_timer p'
     \<and> (\<forall>t < next_timer p. timers p' t = Pending \<longrightarrow> timers p t = Pending
          \<and> (\<forall>k. t \<in> set (waiters (host p k)) \<longrightarrow> t \<in> set (waiters (host p' k))))"

lemma wait_ok_keeps: "wait_ok p c \<Longrightarrow> keeps_waiters p p' \<Longrightarrow> wait_ok p' c"
  by (auto simp: wait_ok_def keeps_waiters_def split: coro.splits)

lemma inv_wait_updI:
  assumes "inv_wait s" and "keeps_waiters (pool s) p" and "wait_ok p c"
  shows "inv_wait (s\<lparr>pool := p, coros := (coros s)[i := c], detached := d\<rparr>)"
proof -
  have "list_all (wait_ok p) (coros s)"
    using assms(1,2) by (auto simp: inv_wait_def list_all_iff intro: wait_ok_keeps)
  with assms(3) show ?thesis by (simp add: inv_wait_def list_all_update)
qed

lemma inv_wait_pool_coro:
  assumes "inv_wait s" and "keeps_waiters (pool s) p" and "wait_ok p c"
  shows "inv_wait (s\<lparr>pool := p, coros := (coros s)[i := c]\<rparr>)"
  using inv_wait_updI [OF assms, where i = i and d = "detached s"] by simp

lemma keeps_refl [simp]: "keeps_waiters p p"
  by (simp add: keeps_waiters_def)

lemma keeps_trans: "keeps_waiters p q \<Longrightarrow> keeps_waiters q r \<Longrightarrow> keeps_waiters p r"
  by (auto simp: keeps_waiters_def)

lemma keeps_set_host:
  "set (waiters (host p k)) \<subseteq> set (waiters st) \<Longrightarrow> keeps_waiters p (set_host k st p)"
  by (auto simp: keeps_waiters_def pool_simps)

lemma keeps_notify: "keeps_waiters p (notifyWaiter k p)"
  by (cases "waiters (host p k)") (auto simp: keeps_waiters_def pool_simps timer_cancel_def)

lemma keeps_return: "keeps_waiters p (returnConnection k c v now p)"
  unfolding returnConnection_eq by (auto intro: keeps_trans [OF keeps_set_host keeps_notify])

lemma cancel_all: "fold timer_cancel ts tm t = (if t \<in> set ts \<and> tm t = Pending then Aborted else tm t)"
  by (induction ts arbitrary: tm) (auto simp: timer_cancel_def)

lemma keeps_clear: "keeps_waiters p (clear p)"
  unfolding keeps_waiters_def
proof (intro conjI allI impI)
  fix t assume t: "timers (clear p) t = Pending"
  show "timers p t = Pending" using t by (auto simp: clear_def cancel_all split: if_splits)
  fix k assume w: "t \<in> set (waiters (host p k))"
  then obtain st where "map_of (hosts p) k = Some st" "t \<in> set (waiters st)"
    by (auto simp: host_def HostState_default_def split: option.splits)
  then have "t \<in> set (concat (map (\<lambda>(k, st). waiters st) (hosts p)))"
    by (auto dest!: map_of_SomeD)
  with t show "t \<in> set (waiters (host (clear p) k))"
    by (auto simp: clear_def cancel_all split: if_splits)
qed (simp add: pool_simps)

lemma inv_wait_iter:
  assumes inv: "inv_wait s" and a: "acquire_iter k t0 (pool s) = (c, p')"
  shows "inv_wait (s\<lparr>pool := p', coros := (coros s)[i := c]\<rparr>)"
proof (rule inv_wait_pool_coro [OF inv])
  from a show "keeps_waiters (pool s) p'"
    by (cases rule: acquire_iter_cases) (auto simp: keeps_waiters_def pool_simps)
  from a show "wait_ok p' c"
    by (cases rule: acquire_iter_cases) (auto simp: wait_ok_def pool_simps)
qed

lemma inv_wait_step:
  assumes inv: "inv_wait s" and st: "pool_step a s = Some s'"
  shows "inv_wait s'"
proof -
  note upd = inv_wait_updI [OF inv] inv_wait_pool_coro [OF inv]
  have pool: "inv_wait (s\<lparr>pool := p\<rparr>)" if "keeps_waiters (pool s) p" for p
    using inv that by (auto simp: inv_wait_def list_all_iff intro: wait_ok_keeps)
  have coro: "inv_wait (s\<lparr>coros := (coros s)[i := c], detached := d\<rparr>)" if "wait_ok (pool s) c" for i c d
    using inv_wait_updI [OF inv keeps_refl that, where i = i and d = d] by simp
  have coro': "inv_wait (s\<lparr>coros := (coros s)[i := c]\<rparr>)" if "wait_ok (pool s) c" for i c
    using coro [OF that, where i = i and d = "detached s"] by simp
  show ?thesis
  proof (cases a)
    case (Iterate i)
    with st show ?thesis
      by (auto simp: pool_step_def split: if_splits coro.splits prod.splits intro: inv_wait_iter [OF inv])
  next
    case (Connected i ec)
    with st show ?thesis
      by (auto simp: pool_step_def wait_ok_def createNewConnection_failed_def Let_def
          split: if_splits coro.splits option.splits
          intro!: upd coro' keeps_trans [OF keeps_set_host keeps_notify])
  next
    case (Expire t)
    with st show ?thesis
      by (auto simp: pool_step_def keeps_waiters_def pool_simps split: if_splits intro!: pool)
  next
    case (Wake i)
    have fired: "keeps_waiters p (set_host k ((host p k)\<lparr>waiters := filter (\<lambda>w. w \<noteq> t) (waiters (host p k))\<rparr>) p)"
      if "timers p t = Fired" for p k t
      using that by (auto simp: keeps_waiters_def pool_simps)
    have "timers p t = Fired" if "timers p t \<noteq> Pending" "timers p t \<noteq> Aborted" for p t
      using that by (cases "timers p t") auto
    with Wake st show ?thesis
      by (auto simp: pool_step_def wait_ok_def waitForAvailableSlot_done_def
          split: if_splits coro.splits intro!: upd coro' fired)
  next
    case (Use i c)
    with st show ?thesis
      by (auto simp: pool_step_def wait_ok_def split: if_splits coro.splits option.splits intro!: coro')
  next
    case (Release i)
    with st show ?thesis
      by (auto simp: pool_step_def wait_ok_def release_def split: if_splits coro.splits
          intro!: upd coro' keeps_return)
  next
    case (ReleaseClient i)
    with st show ?thesis
      by (auto simp: pool_step_def wait_ok_def releaseClient_def split: if_splits coro.splits
          intro!: upd coro keeps_return)
  next
    case (Move i)
    with st show ?thesis
      using inv by (auto simp: pool_step_def inv_wait_def wait_ok_def lease_move_def
          split: if_splits coro.splits intro!: list_all_update)
  next
    case (Start k)
    with st inv show ?thesis by (auto simp: pool_step_def inv_wait_def wait_ok_def)
  next
    case (MarkInvalid i)
    with st show ?thesis
      by (auto simp: pool_step_def wait_ok_def split: if_splits coro.splits intro!: coro')
  next
    case Clear
    with st show ?thesis by (auto simp: pool_step_def intro!: pool keeps_clear)
  next
    case (Tick n)
    with st inv show ?thesis by (auto simp: pool_step_def inv_wait_def)
  qed
qed

lemma inv_wait_init: "inv_wait (sys_init cfg)"
  by (simp add: inv_wait_def sys_init_def)

interpretation pw: invariant_system "\<lambda>s. s = sys_init cfg" pool_trans inv_wait for cfg
  by unfold_locales (auto intro: inv_wait_init inv_wait_step elim!: pool_transE)

lemma reachable_run:
  assumes "pool_run as s = Some s'" and "reachable I pool_trans s"
  shows "reachable I pool_trans s'"
  using assms
proof (induction as arbitrary: s)
  case (Cons a as)
  then show ?case
    using reach_step [OF Cons.prems(2) pool_trans.intros] by (auto split: option.splits)
qed simp

lemma reachable_run_noclear:
  assumes "pool_run as s = Some s'" and "Clear \<notin> set as" and "reachable I pool_trans_noclear s"
  shows "reachable I pool_trans_noclear s'"
  using assms
proof (induction as arbitrary: s)
  case (Cons a as)
  then show ?case
    using reach_step [OF Cons.prems(3) pool_trans_noclear.intros] by (auto split: option.splits)
qed simp

section \<open>Properties\<close>

text \<open>A configuration and two endpoints for the concrete runs.\<close>

definition cfg1 :: ConnectionPoolConfig where
  "cfg1 = \<lparr>maxConnectionsPerHost = 1, idleTimeout = 30, acquireTimeout = 10\<rparr>"

abbreviation kA :: EndpointKey where "kA \<equiv> EndpointKey ''a'' ''443''"

text \<open>
  (C1) The per-host limit. In every state reached by any interleaving of coroutines, timer
  expiries and lease operations (other than \<open>clear\<close>), the active count of an endpoint is
  exactly the number of coroutines that are connecting to it or hold a live lease on it,
  and active plus idle connections never exceed the configured maximum.
\<close>

theorem pool_respects_limit:
  assumes "reachable (\<lambda>s. s = sys_init cfg) pool_trans_noclear s"
  shows "pool_activeCount k (pool s) = in_use k (coros s)
    \<and> pool_activeCount k (pool s) + pool_idleCount k (pool s) \<le> maxConnectionsPerHost cfg"
proof -
  have "pool_activeCount k (pool s) = activeCount (host (pool s) k)"
    "pool_idleCount k (pool s) = length (idle (host (pool s) k))"
    by (simp_all add: pool_activeCount_def pool_idleCount_def host_def HostState_default_def split: option.splits)
  then show ?thesis
    using inv_countD [OF pc.reachable_inv [OF assms]] by simp
qed

theorem pool_respects_limit_witness:
  "\<exists>s. pool_run [Start kA, Iterate 0, Connected 0 None, Start kA, Iterate 1, Release 0] (sys_init cfg1) = Some s
     \<and> pool_activeCount kA (pool s) + pool_idleCount kA (pool s) \<le> 1"
proof -
  let ?as = "[Start kA, Iterate 0, Connected 0 None, Start kA, Iterate 1, Release 0]"
  have "pool_run ?as (sys_init cfg1) \<noteq> None" by code_simp
  then obtain s where s: "pool_run ?as (sys_init cfg1) = Some s" by blast
  have "reachable (\<lambda>s. s = sys_init cfg1) pool_trans_noclear s"
    by (rule reachable_run_noclear [OF s]) (auto intro: reach_init)
  from pool_respects_limit [OF this, of kA] s show ?thesis by (auto simp: cfg1_def)
qed

text \<open>
  (C2) Exclusive use. In every reachable state, \<open>clear\<close> included, two coroutines never hold the
  same connection, a held connection is not in the idle list of any endpoint, and it is
  connected to the endpoint its lease was acquired for.
\<close>

theorem pool_exclusive_leases:
  assumes "reachable (\<lambda>s. s = sys_init cfg) pool_trans s"
    and "i < length (coros s)" and "coros s ! i = Holding l" and "lease_client l = Some c"
  shows "hc_endpoint c = lease_key l
    \<and> (\<forall>j l' c'. j < length (coros s) \<and> j \<noteq> i \<and> coros s ! j = Holding l' \<and> lease_client l' = Some c'
          \<longrightarrow> hc_id c' \<noteq> hc_id c)
    \<and> (\<forall>k e. e \<in> set (idle (host (pool s) k)) \<longrightarrow> hc_id (ie_client e) \<noteq> hc_id c)"
proof -
  let ?x = "hc_id c"
  have inv: "inv_excl s" by (rule px.reachable_inv [OF assms(1)])
  have one: "places ?x s \<le> 1" using inv_exclD(1) [OF inv, of ?x] by (simp split: if_splits)
  have i: "has_id ?x (coro_client (coros s ! i))"
    using assms by (simp add: coro_client_def has_id_def)
  have ci: "coro_places ?x ((coros s)[i := Acquiring (lease_key l) 0]) + 1 = coro_places ?x (coros s)"
    using coro_places_update [OF assms(2), of ?x "Acquiring (lease_key l) 0"] i
    by (simp add: coro_client_def has_id_def)
  have other: "hc_id c' \<noteq> ?x" if j: "j < length (coros s)" "j \<noteq> i" "coros s ! j = Holding l'" "lease_client l' = Some c'"
    for j l' c'
  proof
    assume "hc_id c' = ?x"
    then have "has_id ?x (coro_client ((coros s)[i := Acquiring (lease_key l) 0] ! j))"
      using j by (simp add: coro_client_def has_id_def)
    moreover have "(coros s)[i := Acquiring (lease_key l) 0] ! j \<in> set ((coros s)[i := Acquiring (lease_key l) 0])"
      using j(1) by (intro nth_mem) simp
    ultimately have "0 < coro_places ?x ((coros s)[i := Acquiring (lease_key l) 0])"
      unfolding coro_places_def by (intro length_pos_if_in_set) simp
    with ci one show False by (simp add: places_def)
  qed
  have idle: "hc_id (ie_client e) \<noteq> ?x" if e: "e \<in> set (idle (host (pool s) k))" for k e
  proof
    assume x: "hc_id (ie_client e) = ?x"
    have "0 < idle_places ?x (host (pool s) k)"
      unfolding idle_places_def using e x by (intro length_pos_if_in_set) simp
    moreover have "idle_places ?x (host (pool s) k) \<le> pool_places ?x (pool s)"
      using pool_places_set_host [of ?x k "HostState_default" "pool s"]
      by (simp add: idle_places_def [of _ HostState_default] pool_simps)
    ultimately show False using ci one by (simp add: places_def)
  qed
  have "coro_key_ok (coros s ! i)" by (rule inv_excl_key_nth [OF inv assms(2)])
  with other idle assms(3,4) show ?thesis by (auto simp: coro_key_ok_def)
qed

theorem pool_exclusive_leases_witness:
  "\<exists>s l c. pool_run [Start kA, Iterate 0, Connected 0 None] (sys_init cfg1) = Some s
     \<and> coros s ! 0 = Holding l \<and> lease_client l = Some c \<and> hc_endpoint c = kA \<and> lease_key l = kA"
proof -
  let ?as = "[Start kA, Iterate 0, Connected 0 None]"
  let ?l = "Lease kA (HttpClient_new 0 kA)"
  have r: "map_option coros (pool_run ?as (sys_init cfg1)) = Some [Holding ?l]"
    by code_simp
  then obtain s where s: "pool_run ?as (sys_init cfg1) = Some s" "coros s = [Holding ?l]" by auto
  have "reachable (\<lambda>s. s = sys_init cfg1) pool_trans s"
    by (rule reachable_run [OF s(1)]) (auto intro: reach_init)
  from pool_exclusive_leases [OF this, of 0 ?l] s show ?thesis by (auto simp: Lease_def)
qed

text \<open>
  What \<open>acquire\<close> decides. If an idle connection of the endpoint is fresh with respect to the
  time captured on entry, the one nearest the back is leased with its parser state and read
  buffer cleared, the stale ones behind it are dropped and those before it are kept; if none is fresh, a new
  connection is opened when the active count is below the limit, and otherwise the coroutine
  queues behind the earlier waiters. The lists of other endpoints are not touched.
\<close>

theorem acquire_decision:
  assumes "acquire_iter k t0 p = (c, p')"
  shows "(\<forall>k'. k' \<noteq> k \<longrightarrow> host p' k' = host p k')
    \<and> (case c of
        Holding l \<Rightarrow> \<exists>e old stale. idle (host p k) = old @ e # stale
            \<and> t0 - lastUsed e \<le> idleTimeout (config p)
            \<and> list_all (\<lambda>e. idleTimeout (config p) < t0 - lastUsed e) stale
            \<and> l = Lease k (resetParserState (ie_client e)) \<and> isValid l
            \<and> idle (host p' k) = old \<and> activeCount (host p' k) = activeCount (host p k) + 1
      | Connecting k' _ cl \<Rightarrow> k' = k \<and> hc_endpoint cl = k
            \<and> list_all (\<lambda>e. idleTimeout (config p) < t0 - lastUsed e) (idle (host p k))
            \<and> activeCount (host p k) < maxConnectionsPerHost (config p)
            \<and> idle (host p' k) = [] \<and> activeCount (host p' k) = activeCount (host p k) + 1
      | Waiting k' _ t \<Rightarrow> k' = k
            \<and> list_all (\<lambda>e. idleTimeout (config p) < t0 - lastUsed e) (idle (host p k))
            \<and> maxConnectionsPerHost (config p) \<le> activeCount (host p k)
            \<and> waiters (host p' k) = waiters (host p k) @ [t] \<and> timers p' t = Pending
            \<and> activeCount (host p' k) = activeCount (host p k)
      | _ \<Rightarrow> False)"
  using assms
proof (cases rule: acquire_iter_cases)
  case (reuse cl rest)
  with extractIdle_spec [OF reuse(1)] show ?thesis
    by (auto simp: pool_simps isValid_def Lease_def)
next
  case connect
  with extractIdle_spec [OF connect(1)] show ?thesis
    by (auto simp: pool_simps HttpClient_new_def)
next
  case wait
  with extractIdle_spec [OF wait(1)] show ?thesis by (auto simp: pool_simps)
qed

theorem acquire_decision_witness:
  "idle (host (snd (acquire_iter kA 0 (Pool_create cfg1))) kA) = []
   \<and> activeCount (host (snd (acquire_iter kA 0 (Pool_create cfg1))) kA) = 1"
proof -
  have "fst (acquire_iter kA 0 (Pool_create cfg1)) = Connecting kA 0 (HttpClient_new 0 kA)"
    by code_simp
  then have e: "acquire_iter kA 0 (Pool_create cfg1)
      = (Connecting kA 0 (HttpClient_new 0 kA), snd (acquire_iter kA 0 (Pool_create cfg1)))"
    by (simp add: prod_eq_iff)
  have "activeCount (host (Pool_create cfg1) kA) = 0" by code_simp
  then show ?thesis using acquire_decision [OF e] by simp
qed

text \<open>
  Hand-over to the first waiter. In every reachable state, when a coroutine sleeps on a
  pending timer at the head of its endpoint's queue, releasing a live lease on that endpoint
  removes it from the queue and makes it runnable, and its next step resumes the acquire loop.
\<close>

theorem release_wakes_first_waiter:
  assumes "reachable (\<lambda>s. s = sys_init cfg) pool_trans_noclear s"
    and "i < length (coros s)" and "coros s ! i = Holding l" and "lease_client l \<noteq> None"
    and "j < length (coros s)" and "coros s ! j = Waiting (lease_key l) t0 t"
    and "waiters (host (pool s) (lease_key l)) = t # ts" and "timers (pool s) t = Pending"
  shows "\<exists>s' s''. pool_step (Release i) s = Some s' \<and> waiters (host (pool s') (lease_key l)) = ts
    \<and> pool_step (Wake j) s' = Some s'' \<and> coros s'' ! j = Acquiring (lease_key l) t0"
proof -
  have inv: "inv_count cfg s" by (rule pc.reachable_inv [OF assms(1)])
  have lp: "lease_pool l" using inv_count_wf_nth [OF inv assms(2)] assms(3,4) by (simp add: lease_wf_def)
  have "uses (lease_key l) (coros s ! i)" using assms(3,4) by (simp add: uses_def)
  then have pos: "0 < activeCount (host (pool s) (lease_key l))"
    using in_use_positive [OF assms(2)] inv_countD(2) [OF inv] by simp
  let ?p = "returnConnection (lease_key l) (lease_client l) (lease_valid l) (clock s) (pool s)"
  have "map_of (hosts (pool s)) (lease_key l) \<noteq> None"
    using pos host_missing [of "pool s" "lease_key l"] by (metis HostState_default_sel(1) less_nat_zero_code)
  then have tm: "timers ?p t = Aborted"
    using assms(7,8) by (simp add: returnConnection_eq pool_simps timer_cancel_def)
  have w: "waiters (host ?p (lease_key l)) = ts"
    using assms(7) by (simp add: host_returnConnection [OF pos])
  have ij: "i \<noteq> j" using assms(3,6) by auto
  let ?s' = "s\<lparr>pool := ?p, coros := (coros s)[i := Holding
      (l\<lparr>lease_pool := False, lease_client := None, lease_valid := False\<rparr>)]\<rparr>"
  have "pool_step (Release i) s = Some ?s'"
    using assms(2-4) lp by (simp add: pool_step_def release_def)
  moreover have "pool_step (Wake j) ?s' = Some (?s'\<lparr>coros := (coros ?s')[j := Acquiring (lease_key l) t0]\<rparr>)"
    using assms(5,6) ij tm by (simp add: pool_step_def waitForAvailableSlot_done_def)
  ultimately show ?thesis using w assms(5) by fastforce
qed

theorem release_wakes_first_waiter_witness:
  "\<exists>s s' s''. pool_run [Start kA, Iterate 0, Connected 0 None, Start kA, Iterate 1] (sys_init cfg1) = Some s
     \<and> pool_step (Release 0) s = Some s' \<and> pool_step (Wake 1) s' = Some s'' \<and> coros s'' ! 1 = Acquiring kA 0"
proof -
  let ?as = "[Start kA, Iterate 0, Connected 0 None, Start kA, Iterate 1]"
  let ?l = "Lease kA (HttpClient_new 0 kA)"
  have "map_option (\<lambda>s. (coros s, waiters (host (pool s) kA), timers (pool s) 0)) (pool_run ?as (sys_init cfg1))
      = Some ([Holding ?l, Waiting kA 0 0], [0], Pending)"
    by code_simp
  then obtain s where s: "pool_run ?as (sys_init cfg1) = Some s" "coros s = [Holding ?l, Waiting kA 0 0]"
    "waiters (host (pool s) kA) = [0]" "timers (pool s) 0 = Pending" by auto
  have "reachable (\<lambda>s. s = sys_init cfg1) pool_trans_noclear s"
    by (rule reachable_run_noclear [OF s(1)]) (auto intro: reach_init)
  from release_wakes_first_waiter [OF this, of 0 ?l 1 0 0 "[]"] s show ?thesis
    by (auto simp: Lease_def)
qed

text \<open>What an observer of the pool sees after a run.\<close>

definition observe :: "EndpointKey \<Rightarrow> pool_sys \<Rightarrow> nat \<times> nat \<times> nat \<times> nat list" where
  "observe k s = (pool_activeCount k (pool s), pool_idleCount k (pool s), in_use k (coros s),
     waiters (host (pool s) k))"

text \<open>
  \<open>clear\<close> breaks the limit. With at most one connection per host: a lease taken before
  \<open>clear\<close> and returned after a new one was opened decrements the new active count, and joins
  the idle list; a third caller reuses it while the second still holds its own, so that two
  connections to the endpoint are in use and the pool counts one.
\<close>

theorem clear_breaks_limit:
  "map_option (observe kA)
     (pool_run [Start kA, Iterate 0, Connected 0 None, Clear,
                Start kA, Iterate 1, Connected 1 None, Release 0, Start kA, Iterate 2] (sys_init cfg1))
   = Some (1, 0, 2, [])"
  by code_simp

text \<open>
  A lost wake-up. With at most one connection per host: when the first waiter's timer has
  expired but the waiter has not yet resumed, the returned connection's only notification
  goes to that waiter, whose cancellation has no effect. It reports a timeout, and the
  second waiter stays asleep in the queue while the connection is idle and nothing is in use.
\<close>

theorem lost_wakeup:
  "map_option (\<lambda>s. (observe kA s, map (timers (pool s)) [0, 1], coros s ! 1, coros s ! 2))
     (pool_run [Start kA, Iterate 0, Connected 0 None, Start kA, Iterate 1, Start kA, Iterate 2,
                Expire 0, Release 0, Wake 1] (sys_init cfg1))
   = Some ((0, 1, 0, [1]), [Fired, Pending], Failed Timed_out, Waiting kA 0 1)"
  by code_simp

end
