(* ===== verification/HttpRouting.thy ===== *)
theory HttpRouting
  imports Prelude
begin

text \<open>
  The HTTP server's request path: string splitting (\<open>src/include/utilities.hpp\<close>), the target
  parser (\<open>http_target_parser.hpp\<close>), route patterns (\<open>request_mapper.hpp\<close>), the insertion-ordered
  map (\<open>flat_map.hpp\<close>), the error responses (\<open>http_errors.hpp\<close>), and the router and connection
  handler (\<open>http_server.hpp\<close>). Handlers are a parameter: a function from a handler, the request
  and the parsed target to a response or an exception. Reading the first or last character of an
  empty view is undefined behaviour in the source and is the value \<open>UB\<close> here.
\<close>

section \<open>Strings\<close>

datatype 'a outcome = UB | Val 'a

text \<open>\<open>std::views::split\<close>: the empty string has no pieces, and a delimiter at the end leaves an empty piece.\<close>

definition split :: "string \<Rightarrow> char \<Rightarrow> nat \<Rightarrow> string list" where
  "split s c skip = drop skip (if s = [] then [] else pieces c s)"

definition join :: "string list \<Rightarrow> char \<Rightarrow> string" where
  "join vs c = concat (map (\<lambda>v. c # v) vs)"

definition replaced :: "string \<Rightarrow> char \<Rightarrow> char \<Rightarrow> string" where
  "replaced s c r = map (\<lambda>ch. if ch = c then r else ch) s"

section \<open>The target parser\<close>

record http_function =
  fn_name :: string
  fn_params :: "(string \<times> string) list"

text \<open>\<open>http_function::operator[]\<close>: the value of the first parameter of that name, or the empty string.\<close>

definition fn_lookup :: "http_function \<Rightarrow> string \<Rightarrow> string" where
  "fn_lookup f n = (case map_of (fn_params f) n of Some v \<Rightarrow> v | None \<Rightarrow> [])"

definition hexNibble :: "char \<Rightarrow> nat option" where
  "hexNibble c =
     (let n = of_char c :: nat in
      if 48 \<le> n \<and> n \<le> 57 then Some (n - 48)
      else if 65 \<le> n \<and> n \<le> 70 then Some (n - 65 + 10)
      else if 97 \<le> n \<and> n \<le> 102 then Some (n - 97 + 10)
      else None)"

fun url_decode :: "string \<Rightarrow> string" where
  "url_decode [] = []"
| "url_decode (c # cs) =
     (if c = CHR ''+'' then CHR '' '' # url_decode cs
      else if c = CHR ''%'' then
        (case cs of
           a # b # rest \<Rightarrow>
             (case (hexNibble a, hexNibble b) of
                (Some hi, Some lo) \<Rightarrow> char_of (hi * 16 + lo) # url_decode rest
              | _ \<Rightarrow> c # url_decode cs)
         | _ \<Rightarrow> c # url_decode cs)
      else c # url_decode cs)"

text \<open>The parameter loop of \<open>parse_function\<close>.\<close>

fun parse_params :: "string list \<Rightarrow> (string \<times> string) list" where
  "parse_params [] = []"
| "parse_params (p # ps) =
     (case split p CHR ''='' 0 of
        k # v # _ \<Rightarrow> if k = [] then parse_params ps else (k, url_decode v) # parse_params ps
      | _ \<Rightarrow> parse_params ps)"

definition parse_function :: "string \<Rightarrow> http_function" where
  "parse_function target =
     (if CHR ''/'' \<in> set target then
        (case split target CHR ''?'' 0 of
           [] \<Rightarrow> \<lparr>fn_name = target, fn_params = []\<rparr>
         | [func] \<Rightarrow> \<lparr>fn_name = func, fn_params = []\<rparr>
         | func # paramstring # _ \<Rightarrow>
             \<lparr>fn_name = func, fn_params = parse_params (split paramstring CHR ''&'' 0)\<rparr>)
      else \<lparr>fn_name = target, fn_params = []\<rparr>)"

definition is_wildcard :: "string \<Rightarrow> bool outcome" where
  "is_wildcard s = (if s = [] then UB else Val (hd s = CHR ''{'' \<and> last s = CHR ''}''))"

definition path_param :: "string \<Rightarrow> string \<Rightarrow> (string \<times> string) outcome" where
  "path_param s1 s2 =
     (case is_wildcard s1 of
        UB \<Rightarrow> UB
      | Val True \<Rightarrow> Val (take (length s1 - 2) (drop 1 s1), s2)
      | Val False \<Rightarrow> Val (s1, []))"

fun path_params :: "string list \<Rightarrow> string list \<Rightarrow> (string \<times> string) list outcome" where
  "path_params (s1 # ss1) (s2 # ss2) =
     (case path_param s1 s2 of
        UB \<Rightarrow> UB
      | Val p \<Rightarrow> (case path_params ss1 ss2 of UB \<Rightarrow> UB | Val ps \<Rightarrow> Val (p # ps)))"
| "path_params _ _ = Val []"

definition extract_params_from_path :: "http_function \<Rightarrow> string \<Rightarrow> string \<Rightarrow> http_function outcome" where
  "extract_params_from_path f handlerfuncname pathfuncname =
     (let segs1 = split handlerfuncname CHR ''/'' 1;
          segs2 = split pathfuncname CHR ''/'' 1
      in if length segs1 \<noteq> length segs2 then Val f
         else (case path_params segs1 segs2 of
                 UB \<Rightarrow> UB
               | Val ps \<Rightarrow> Val (f\<lparr>fn_params := fn_params f @ ps\<rparr>)))"

section \<open>Route patterns and the handler map\<close>

datatype verb = get | put | post | delete_verb | other nat

record request_mapper =
  path :: string
  verb_of :: verb

definition seg_match :: "string \<Rightarrow> string \<Rightarrow> bool outcome" where
  "seg_match s1 s2 = (if s1 = s2 then Val True else is_wildcard s1)"

text \<open>\<open>std::transform\<close> compares every pair before \<open>all_of\<close> looks at the results.\<close>

fun segs_match :: "string list \<Rightarrow> string list \<Rightarrow> bool outcome" where
  "segs_match (s1 # ss1) (s2 # ss2) =
     (case seg_match s1 s2 of
        UB \<Rightarrow> UB
      | Val b \<Rightarrow> (case segs_match ss1 ss2 of UB \<Rightarrow> UB | Val b' \<Rightarrow> Val (b \<and> b')))"
| "segs_match _ _ = Val True"

definition mapper_eq :: "request_mapper \<Rightarrow> request_mapper \<Rightarrow> bool outcome" where
  "mapper_eq m1 m2 =
     (if verb_of m1 \<noteq> verb_of m2 then Val False
      else let segs1 = split (path m1) CHR ''/'' 0; segs2 = split (path m2) CHR ''/'' 0
           in if length segs1 \<noteq> length segs2 then Val False else segs_match segs1 segs2)"

type_synonym 'h flat_map = "(request_mapper \<times> 'h) list"

text \<open>\<open>flat_map::find\<close>: the first entry whose key equals the argument, with its position.\<close>

fun flat_find :: "'h flat_map \<Rightarrow> request_mapper \<Rightarrow> nat \<Rightarrow> (nat \<times> request_mapper \<times> 'h) option outcome" where
  "flat_find [] key i = Val None"
| "flat_find ((k, v) # rest) key i =
     (case mapper_eq k key of
        UB \<Rightarrow> UB
      | Val True \<Rightarrow> Val (Some (i, k, v))
      | Val False \<Rightarrow> flat_find rest key (i + 1))"

text \<open>\<open>map[key] = value\<close>: assign to the entry that is found, or append.\<close>

definition flat_assign :: "'h flat_map \<Rightarrow> request_mapper \<Rightarrow> 'h \<Rightarrow> 'h flat_map outcome" where
  "flat_assign m key v =
     (case flat_find m key 0 of
        UB \<Rightarrow> UB
      | Val (Some (i, k, _)) \<Rightarrow> Val (m[i := (k, v)])
      | Val None \<Rightarrow> Val (m @ [(key, v)]))"

definition flat_remove :: "'h flat_map \<Rightarrow> request_mapper \<Rightarrow> 'h flat_map outcome" where
  "flat_remove m key =
     (case flat_find m key 0 of
        UB \<Rightarrow> UB
      | Val (Some (i, _)) \<Rightarrow> Val (take i m @ drop (i + 1) m)
      | Val None \<Rightarrow> Val m)"

section \<open>Responses and the router\<close>

record Request =
  req_verb :: verb
  req_target :: string
  req_version :: nat
  req_body :: string

record Response =
  res_status :: nat
  res_version :: nat
  res_type :: string
  res_keep_alive :: bool
  res_body :: string

definition text_response :: "nat \<Rightarrow> nat \<Rightarrow> string \<Rightarrow> Response" where
  "text_response st v body =
     \<lparr>res_status = st, res_version = v, res_type = ''text/plain'', res_keep_alive = False, res_body = body\<rparr>"

definition make_file_not_found_error :: "string \<Rightarrow> nat \<Rightarrow> Response" where
  "make_file_not_found_error p v = text_response 404 v (''File Not Found: '' @ p)"

definition make_internal_server_error :: "string \<Rightarrow> nat \<Rightarrow> Response" where
  "make_internal_server_error m v = text_response 500 v (''Internal Server Error: '' @ m)"

definition make_bad_request_error :: "string \<Rightarrow> nat \<Rightarrow> Response" where
  "make_bad_request_error m v = text_response 400 v (''Bad Request: '' @ m)"

definition make_unauthorized_error :: "string \<Rightarrow> nat \<Rightarrow> Response" where
  "make_unauthorized_error m v = text_response 401 v (''Unauthorized: '' @ m)"

definition make_forbidden_error :: "string \<Rightarrow> nat \<Rightarrow> Response" where
  "make_forbidden_error m v = text_response 403 v (''Forbidden: '' @ m)"

definition make_success_response :: "string \<Rightarrow> nat \<Rightarrow> nat \<Rightarrow> string \<Rightarrow> Response" where
  "make_success_response data st v ct =
     \<lparr>res_status = st, res_version = v, res_type = ct, res_keep_alive = False, res_body = data\<rparr>"

record 'h HttpRouter =
  get_handlers :: "'h flat_map"
  post_handlers :: "'h flat_map"
  delete_handlers :: "'h flat_map"
  empty_handlers :: "'h flat_map"
  sse_handlers :: "string \<Rightarrow> 'h option"
  fallback_handler :: "'h option"

definition HttpRouter_init :: "'h HttpRouter" where
  "HttpRouter_init = \<lparr>get_handlers = [], post_handlers = [], delete_handlers = [], empty_handlers = [],
     sse_handlers = (\<lambda>_. None), fallback_handler = None\<rparr>"

definition handler_for_verb :: "verb \<Rightarrow> 'h HttpRouter \<Rightarrow> 'h flat_map" where
  "handler_for_verb v r =
     (case v of get \<Rightarrow> get_handlers r | put \<Rightarrow> post_handlers r | post \<Rightarrow> post_handlers r
      | delete_verb \<Rightarrow> delete_handlers r | other _ \<Rightarrow> empty_handlers r)"

definition set_handlers :: "verb \<Rightarrow> 'h flat_map \<Rightarrow> 'h HttpRouter \<Rightarrow> 'h HttpRouter" where
  "set_handlers v m r =
     (case v of get \<Rightarrow> r\<lparr>get_handlers := m\<rparr> | put \<Rightarrow> r\<lparr>post_handlers := m\<rparr> | post \<Rightarrow> r\<lparr>post_handlers := m\<rparr>
      | delete_verb \<Rightarrow> r\<lparr>delete_handlers := m\<rparr> | other _ \<Rightarrow> r\<lparr>empty_handlers := m\<rparr>)"

definition add_handler :: "request_mapper \<Rightarrow> 'h \<Rightarrow> 'h HttpRouter \<Rightarrow> 'h HttpRouter outcome" where
  "add_handler m h r =
     (case flat_assign (handler_for_verb (verb_of m) r) m h of
        UB \<Rightarrow> UB
      | Val hs \<Rightarrow> Val (set_handlers (verb_of m) hs r))"

definition add_sse_handler :: "string \<Rightarrow> 'h \<Rightarrow> 'h HttpRouter \<Rightarrow> 'h HttpRouter" where
  "add_sse_handler p h r = r\<lparr>sse_handlers := (sse_handlers r)(p \<mapsto> h)\<rparr>"

definition findSseHandler :: "string \<Rightarrow> 'h HttpRouter \<Rightarrow> 'h option" where
  "findSseHandler p r = sse_handlers r p"

definition set_fallback_handler :: "'h \<Rightarrow> 'h HttpRouter \<Rightarrow> 'h HttpRouter" where
  "set_fallback_handler h r = r\<lparr>fallback_handler := Some h\<rparr>"

definition make_error_response :: "string \<Rightarrow> Response" where
  "make_error_response m = text_response 404 11 (''Not Found '' @ m)"

text \<open>
  \<open>process_request\<close>. The parameter \<open>handle\<close> runs a handler: \<open>Inl\<close> is an exception it throws.
\<close>

definition process_request ::
  "('h \<Rightarrow> Request \<Rightarrow> http_function \<Rightarrow> 'e + Response) \<Rightarrow> Request \<Rightarrow> 'h HttpRouter \<Rightarrow> ('e + Response) outcome" where
  "process_request handle req r =
     (let f = parse_function (req_target req) in
      case flat_find (handler_for_verb (req_verb req) r) \<lparr>path = fn_name f, verb_of = req_verb req\<rparr> 0 of
        UB \<Rightarrow> UB
      | Val (Some (_, k, h)) \<Rightarrow>
          (case extract_params_from_path f (path k) (fn_name f) of
             UB \<Rightarrow> UB
           | Val f' \<Rightarrow> Val (handle h req f'))
      | Val None \<Rightarrow>
          (case fallback_handler r of
             Some h \<Rightarrow> Val (handle h req f)
           | None \<Rightarrow> Val (Inr (make_error_response (fn_name f)))))"

text \<open>
  The connection handler, after the handshake: what it writes to the socket. The read gives
  a request or an error; \<open>write_ec\<close> is the error of the response (or header) write; the event
  list a streaming handler writes is the parameter \<open>sse\<close>.
\<close>

datatype io =
    WriteResponse Response
  | WriteSseHeader nat
  | WriteChunk string
  | WriteLastChunk
  | Shutdown

definition sse_frame :: "string \<Rightarrow> string" where
  "sse_frame data = ''data: '' @ data @ [CHR 0x0A, CHR 0x0A]"

definition handle_sse_client :: "error_code \<Rightarrow> ('h \<Rightarrow> Request \<Rightarrow> http_function \<Rightarrow> string list) \<Rightarrow> 'h \<Rightarrow> Request
    \<Rightarrow> http_function \<Rightarrow> io list" where
  "handle_sse_client write_ec sse h req f =
     (if write_ec \<noteq> None then [WriteSseHeader (req_version req)]
      else WriteSseHeader (req_version req) # map (\<lambda>d. WriteChunk (sse_frame d)) (sse h req f)
           @ [WriteLastChunk, Shutdown])"

definition handle_client ::
  "('h \<Rightarrow> Request \<Rightarrow> http_function \<Rightarrow> 'e + Response) \<Rightarrow> ('h \<Rightarrow> Request \<Rightarrow> http_function \<Rightarrow> string list)
    \<Rightarrow> errc + Request \<Rightarrow> error_code \<Rightarrow> 'h HttpRouter \<Rightarrow> io list outcome" where
  "handle_client handle sse rd write_ec r =
     (case rd of
        Inl e \<Rightarrow> Val []
      | Inr req \<Rightarrow>
          let f = parse_function (req_target req) in
          (case (if req_verb req = get then findSseHandler (fn_name f) r else None) of
             Some h \<Rightarrow> Val (handle_sse_client write_ec sse h req f)
           | None \<Rightarrow>
               (case process_request handle req r of
                  UB \<Rightarrow> UB
                | Val out \<Rightarrow>
                    let res = (case out of
                                 Inr res \<Rightarrow> res
                               | Inl _ \<Rightarrow> make_internal_server_error ''Internal Server Error'' (req_version req))
                    in Val (if write_ec \<noteq> None then [WriteResponse res] else [WriteResponse res, Shutdown]))))"

section \<open>Splitting and joining\<close>

lemma join_pieces: "join (pieces c s) c = c # s"
  by (induction s) (auto simp: join_def split: list.splits)

lemma pieces_join:
  assumes "ps \<noteq> []" and "\<forall>p\<in>set ps. c \<notin> set p"
  shows "pieces c (tl (join ps c)) = ps"
  using assms
proof (induction ps)
  case (Cons p ps)
  show ?case
  proof (cases ps)
    case Nil
    with Cons.prems show ?thesis by (simp add: join_def pieces_plain)
  next
    case (Cons q qs)
    then have "tl (join (p # ps) c) = p @ c # tl (join ps c)" by (simp add: join_def)
    with Cons Cons.IH Cons.prems show ?thesis by (simp add: pieces_first)
  qed
qed simp

lemma split_join:
  assumes "ps \<noteq> []" and "\<forall>p\<in>set ps. c \<notin> set p"
  shows "split (join ps c) c 0 = [] # ps" and "split (join ps c) c 1 = ps"
proof -
  obtain t where t: "join ps c = c # t" using assms(1) by (cases ps) (simp_all add: join_def)
  then have "pieces c t = ps" using pieces_join [OF assms] by simp
  then show "split (join ps c) c 0 = [] # ps" and "split (join ps c) c 1 = ps"
    by (simp_all add: t split_def)
qed

text \<open>
  Splitting and joining are inverse. Joining the segments of a path (a string that
  starts with the delimiter) gives the path back, and splitting a join gives the segments
  back when none contains the delimiter.
\<close>

theorem split_join_inverse:
  assumes "s \<noteq> []" and "hd s = c" and "ps \<noteq> []" and "\<forall>p\<in>set ps. c \<notin> set p"
  shows "join (split s c 1) c = s \<and> split (join ps c) c 1 = ps"
proof -
  obtain t where s: "s = c # t" using assms(1,2) by (cases s) auto
  have "join (split s c 1) c = s" by (simp add: s split_def join_pieces)
  then show ?thesis using split_join [OF assms(3,4)] by simp
qed

theorem split_join_inverse_witness:
  "join (split ''/a//b/'' CHR ''/'' 1) CHR ''/'' = ''/a//b/''
   \<and> split (join [''a'', '''', ''b''] CHR ''/'') CHR ''/'' 1 = [''a'', '''', ''b'']"
  using split_join_inverse [of "''/a//b/''" "CHR ''/''" "[''a'', '''', ''b'']"] by simp

section \<open>Decoding\<close>

text \<open>A reference encoder: letters, digits and the unreserved marks stay, the rest is percent-encoded.\<close>

definition unreserved :: "char \<Rightarrow> bool" where
  "unreserved c = (let n = of_char c :: nat in
     48 \<le> n \<and> n \<le> 57 \<or> 65 \<le> n \<and> n \<le> 90 \<or> 97 \<le> n \<and> n \<le> 122 \<or> n \<in> {45, 46, 95, 126})"

definition hex_digit :: "nat \<Rightarrow> char" where
  "hex_digit n = char_of (if n < 10 then 48 + n else 55 + n)"

definition encode_char :: "char \<Rightarrow> string" where
  "encode_char c = (if unreserved c then [c]
     else [CHR ''%'', hex_digit (of_char c div 16), hex_digit (of_char c mod 16)])"

definition url_encode :: "string \<Rightarrow> string" where
  "url_encode s = concat (map encode_char s)"

lemma hexNibble_digit: "n < 16 \<Longrightarrow> hexNibble (hex_digit n) = Some n"
  by (auto simp: hexNibble_def hex_digit_def Let_def)

lemma char_of_nibbles: "char_of (of_char c div 16 * 16 + of_char c mod 16 :: nat) = c"
  by simp

lemma of_char_small: "of_char c div 16 < (16 :: nat)"
proof -
  have "of_char c < (256 :: nat)" by (rule nat_of_char_less_256)
  then show ?thesis by (simp add: less_mult_imp_div_less)
qed

lemma decode_encode_char: "url_decode (encode_char c @ s) = c # url_decode s"
proof (cases "unreserved c")
  case True
  then have "c \<noteq> CHR ''+''" "c \<noteq> CHR ''%''" by (auto simp: unreserved_def)
  with True show ?thesis by (simp add: encode_char_def)
next
  case False
  then show ?thesis
    by (simp add: encode_char_def hexNibble_digit of_char_small char_of_nibbles)
qed

lemma url_decode_encode: "url_decode (url_encode s) = s"
  by (induction s) (simp_all add: url_encode_def decode_encode_char del: url_decode.simps(2))

lemma url_decode_length: "length (url_decode s) \<le> length s"
proof (induction s rule: length_induct)
  case (1 s)
  show ?case
  proof (cases s)
    case (Cons c cs)
    have "length (url_decode cs) \<le> length cs" using 1 Cons by simp
    moreover have "length (url_decode r) \<le> Suc (Suc (length r))" if "cs = a # b # r" for a b r
      using 1 Cons that by (simp add: le_SucI)
    ultimately show ?thesis using Cons by (auto split: list.splits option.splits simp del: url_decode.simps(2)
        simp: url_decode.simps(2) [of c cs])
  qed simp
qed

lemma url_decode_plain: "CHR ''+'' \<notin> set s \<Longrightarrow> CHR ''%'' \<notin> set s \<Longrightarrow> url_decode s = s"
  by (induction s) auto

text \<open>
  Percent decoding. Decoding undoes percent-encoding for every string of bytes, never
  lengthens its input, and leaves a string without plus and percent signs as it is.
\<close>

theorem url_decode_correct:
  "url_decode (url_encode s) = s \<and> length (url_decode t) \<le> length t
   \<and> (CHR ''+'' \<notin> set t \<and> CHR ''%'' \<notin> set t \<longrightarrow> url_decode t = t)"
  by (simp add: url_decode_encode url_decode_length url_decode_plain)

theorem url_decode_correct_witness:
  "url_decode ''plain-text'' = ''plain-text'' \<and> url_decode (url_encode ''a b%+'') = ''a b%+''"
  using url_decode_correct [of "''a b%+''" "''plain-text''"] by simp

section \<open>Parsing a target\<close>

definition query_token :: "string \<times> string \<Rightarrow> string" where
  "query_token kv = fst kv @ CHR ''='' # url_encode (snd kv)"

text \<open>The target a well-behaved client builds from a path and its parameters.\<close>

definition build_target :: "string \<Rightarrow> (string \<times> string) list \<Rightarrow> string" where
  "build_target p kvs = p @ CHR ''?'' # tl (join (map query_token kvs) CHR ''&'')"

definition key_ok :: "string \<Rightarrow> bool" where
  "key_ok k \<longleftrightarrow> k \<noteq> [] \<and> set k \<inter> {CHR ''?'', CHR ''&'', CHR ''=''} = {}"

lemma hex_digit_unreserved: "n < 16 \<Longrightarrow> unreserved (hex_digit n)"
  by (auto simp: unreserved_def hex_digit_def Let_def)

lemma url_encode_chars: "x \<in> set (url_encode s) \<Longrightarrow> unreserved x \<or> x = CHR ''%''"
  by (auto simp: url_encode_def encode_char_def hex_digit_unreserved of_char_small split: if_splits)

lemma url_encode_reserved [simp]:
  "CHR ''?'' \<notin> set (url_encode s)" "CHR ''&'' \<notin> set (url_encode s)" "CHR ''='' \<notin> set (url_encode s)"
  using url_encode_chars [of _ s] by (force simp: unreserved_def)+

lemma parse_params_tokens:
  "list_all (\<lambda>kv. key_ok (fst kv)) kvs \<Longrightarrow> parse_params (map query_token kvs) = kvs"
proof (induction kvs)
  case (Cons kv kvs)
  have "split (query_token kv) CHR ''='' 0 = [fst kv, url_encode (snd kv)]"
    using Cons.prems by (simp add: split_def query_token_def key_ok_def pieces_first pieces_plain)
  with Cons show ?case by (simp add: key_ok_def url_decode_encode)
qed simp

lemma parse_build:
  assumes "CHR ''/'' \<in> set p" and "CHR ''?'' \<notin> set p" and "list_all (\<lambda>kv. key_ok (fst kv)) kvs"
  shows "parse_function (build_target p kvs) = \<lparr>fn_name = p, fn_params = kvs\<rparr>"
proof -
  let ?q = "tl (join (map query_token kvs) CHR ''&'')"
  have tok: "CHR ''?'' \<notin> set (query_token kv)" "CHR ''&'' \<notin> set (query_token kv)"
    if "kv \<in> set kvs" for kv
    using assms(3) that by (auto simp: query_token_def key_ok_def list_all_iff)
  then have "CHR ''?'' \<notin> set (join (map query_token kvs) CHR ''&'')" by (auto simp: join_def)
  then have "CHR ''?'' \<notin> set ?q" by (metis list.set_sel(2) tl_Nil)
  then have "split (build_target p kvs) CHR ''?'' 0 = [p, ?q]"
    using assms(2) by (simp add: split_def build_target_def pieces_first pieces_plain)
  moreover have "split ?q CHR ''&'' 0 = map query_token kvs"
  proof (cases kvs)
    case Nil
    then show ?thesis by (simp add: split_def join_def)
  next
    case (Cons kv rest)
    then have "query_token kv \<noteq> []" by (simp add: query_token_def)
    then have "?q \<noteq> []" using Cons by (simp add: join_def)
    moreover have "pieces CHR ''&'' ?q = map query_token kvs"
      using tok(2) Cons by (intro pieces_join) auto
    ultimately show ?thesis by (simp add: split_def)
  qed
  ultimately show ?thesis
    using assms(1) parse_params_tokens [OF assms(3)] by (simp add: parse_function_def build_target_def)
qed

text \<open>
  Round trip of a request target. A target built from a path and a list of parameters,
  with percent-encoded values and names free of the characters question mark, ampersand and equals, is
  parsed back into exactly that path and those parameters, in order.
\<close>

theorem target_roundtrip:
  assumes "CHR ''/'' \<in> set p" and "CHR ''?'' \<notin> set p" and "list_all (\<lambda>kv. key_ok (fst kv)) kvs"
  shows "parse_function (build_target p kvs) = \<lparr>fn_name = p, fn_params = kvs\<rparr>"
  by (rule parse_build [OF assms])

theorem target_roundtrip_witness:
  "parse_function (build_target ''/u/7'' [(''q'', ''a&b=c''), (''r'', '''')])
   = \<lparr>fn_name = ''/u/7'', fn_params = [(''q'', ''a&b=c''), (''r'', '''')]\<rparr>"
  by (rule target_roundtrip) (auto simp: key_ok_def)

section \<open>Routing\<close>

text \<open>What the router is meant to do, on segment lists.\<close>

definition wildcard :: "string \<Rightarrow> bool" where
  "wildcard s \<longleftrightarrow> s \<noteq> [] \<and> hd s = CHR ''{'' \<and> last s = CHR ''}''"

definition seg_ok :: "string \<Rightarrow> bool" where
  "seg_ok s \<longleftrightarrow> s \<noteq> [] \<and> CHR ''/'' \<notin> set s"

text \<open>A route in the usual form: a slash before each of its non-empty segments.\<close>

definition route_segs :: "string \<Rightarrow> string list" where
  "route_segs p = split p CHR ''/'' 1"

definition route_ok :: "string \<Rightarrow> bool" where
  "route_ok p \<longleftrightarrow> p \<noteq> [] \<and> hd p = CHR ''/'' \<and> list_all seg_ok (route_segs p)"

definition segs_fit :: "string list \<Rightarrow> string list \<Rightarrow> bool" where
  "segs_fit = list_all2 (\<lambda>s1 s2. s1 = s2 \<or> wildcard s1)"

definition bindings :: "string list \<Rightarrow> string list \<Rightarrow> (string \<times> string) list" where
  "bindings ss1 ss2 =
     map2 (\<lambda>s1 s2. if wildcard s1 then (butlast (tl s1), s2) else (s1, [])) ss1 ss2"

definition route_fits :: "verb \<Rightarrow> string \<Rightarrow> request_mapper \<times> 'h \<Rightarrow> bool" where
  "route_fits v p kh \<longleftrightarrow> verb_of (fst kh) = v \<and> segs_fit (route_segs (path (fst kh))) (route_segs p)"

lemma is_wildcard_ok: "s \<noteq> [] \<Longrightarrow> is_wildcard s = Val (wildcard s)"
  by (simp add: is_wildcard_def wildcard_def)

lemma segs_match_ok:
  assumes "list_all seg_ok ss1" and "length ss1 = length ss2"
  shows "segs_match ss1 ss2 = Val (segs_fit ss1 ss2)"
  using assms(2,1)
proof (induction ss1 ss2 rule: list_induct2)
  case (Cons s1 ss1 s2 ss2)
  then show ?case
    by (auto simp: seg_match_def is_wildcard_ok seg_ok_def segs_fit_def)
qed (simp add: segs_fit_def)

lemma split_path:
  assumes "p \<noteq> []" and "hd p = CHR ''/''"
  shows "split p CHR ''/'' 0 = [] # route_segs p" and "route_segs p \<noteq> []"
  using assms by (cases p; simp add: split_def route_segs_def)+

lemma mapper_eq_ok:
  assumes "route_ok (path k)" and "p \<noteq> []" and "hd p = CHR ''/''"
  shows "mapper_eq k \<lparr>path = p, verb_of = v\<rparr> = Val (route_fits v p (k, h))"
proof -
  have s: "split (path k) CHR ''/'' 0 = [] # route_segs (path k)" "split p CHR ''/'' 0 = [] # route_segs p"
    using assms split_path by (auto simp: route_ok_def)
  show ?thesis
    using assms(1) segs_match_ok [of "route_segs (path k)" "route_segs p"]
    by (auto simp: mapper_eq_def s seg_match_def route_fits_def route_ok_def segs_fit_def
        dest: list_all2_lengthD)
qed

lemma flat_find_ok:
  assumes "list_all (\<lambda>kh. route_ok (path (fst kh))) m" and "p \<noteq> []" and "hd p = CHR ''/''"
  shows "\<exists>j. flat_find m \<lparr>path = p, verb_of = v\<rparr> i =
     Val (map_option (\<lambda>kh. (j, fst kh, snd kh)) (List.find (route_fits v p) m))"
  using assms(1)
proof (induction m arbitrary: i)
  case (Cons kh m)
  obtain k h where kh: "kh = (k, h)" by (cases kh)
  have "mapper_eq k \<lparr>path = p, verb_of = v\<rparr> = Val (route_fits v p (k, h))"
    using Cons.prems kh by (intro mapper_eq_ok assms(2,3)) simp
  then show ?case using Cons kh by auto
qed simp

lemma path_params_ok:
  assumes "list_all seg_ok ss1" and "length ss1 = length ss2"
  shows "path_params ss1 ss2 = Val (bindings ss1 ss2)"
  using assms(2,1)
proof (induction ss1 ss2 rule: list_induct2)
  case (Cons s1 ss1 s2 ss2)
  have "path_param s1 s2 = Val (if wildcard s1 then (butlast (tl s1), s2) else (s1, []))"
    using Cons.prems by (simp add: path_param_def is_wildcard_ok seg_ok_def butlast_conv_take drop_Suc numeral_2_eq_2)
  with Cons show ?case by (simp add: bindings_def)
qed (simp add: bindings_def)

lemma dispatch_none:
  assumes "list_all (\<lambda>kh. route_ok (path (fst kh))) (handler_for_verb (req_verb req) r)"
    and "fn_name (parse_function (req_target req)) \<noteq> []"
    and "hd (fn_name (parse_function (req_target req))) = CHR ''/''"
    and "List.find (route_fits (req_verb req) (fn_name (parse_function (req_target req))))
           (handler_for_verb (req_verb req) r) = None"
  shows "process_request handle req r = Val
    (case fallback_handler r of
       Some h \<Rightarrow> handle h req (parse_function (req_target req))
     | None \<Rightarrow> Inr (make_error_response (fn_name (parse_function (req_target req)))))"
  using flat_find_ok [OF assms(1-3), of "req_verb req" 0] assms(4)
  by (auto simp: process_request_def Let_def split: option.split)

lemma dispatch_found:
  assumes routes: "list_all (\<lambda>kh. route_ok (path (fst kh))) (handler_for_verb (req_verb req) r)"
    and target: "fn_name (parse_function (req_target req)) \<noteq> []"
      "hd (fn_name (parse_function (req_target req))) = CHR ''/''"
    and found: "List.find (route_fits (req_verb req) (fn_name (parse_function (req_target req))))
           (handler_for_verb (req_verb req) r) = Some (k, h)"
  shows "process_request handle req r = Val (handle h req
     (parse_function (req_target req)\<lparr>fn_params := fn_params (parse_function (req_target req))
        @ bindings (route_segs (path k)) (route_segs (fn_name (parse_function (req_target req))))\<rparr>))"
proof -
  let ?f = "parse_function (req_target req)"
  let ?m = "handler_for_verb (req_verb req) r"
  obtain j where find: "flat_find ?m \<lparr>path = fn_name ?f, verb_of = req_verb req\<rparr> 0 = Val (Some (j, k, h))"
    using flat_find_ok [OF routes target, of "req_verb req" 0] found by auto
  from found have mem: "(k, h) \<in> set ?m" and fit: "route_fits (req_verb req) (fn_name ?f) (k, h)"
    by (auto simp: find_Some_iff)
  from mem routes have ok: "route_ok (path k)" by (auto simp: list_all_iff)
  have len: "length (route_segs (path k)) = length (route_segs (fn_name ?f))"
    using fit by (auto simp: route_fits_def segs_fit_def dest: list_all2_lengthD)
  have "extract_params_from_path ?f (path k) (fn_name ?f) =
      Val (?f\<lparr>fn_params := fn_params ?f @ bindings (route_segs (path k)) (route_segs (fn_name ?f))\<rparr>)"
    using ok len path_params_ok [of "route_segs (path k)" "route_segs (fn_name ?f)"]
    by (simp add: extract_params_from_path_def route_ok_def route_segs_def)
  with find show ?thesis by (simp add: process_request_def Let_def)
qed

text \<open>
  (C3) Dispatch. On a router whose routes have non-empty segments, a request whose path starts
  with a slash is never undefined: it goes to the first registered route of its verb whose
  segments are equal to, or wildcards for, those of the path, with the bound path parameters
  appended to the query parameters; if there is none, to the fallback handler, and without one the
  answer is 404.
\<close>

theorem process_request_dispatch:
  assumes "list_all (\<lambda>kh. route_ok (path (fst kh))) (handler_for_verb (req_verb req) r)"
    and "fn_name (parse_function (req_target req)) \<noteq> []"
    and "hd (fn_name (parse_function (req_target req))) = CHR ''/''"
  shows "process_request handle req r = Val
    (let f = parse_function (req_target req) in
     case List.find (route_fits (req_verb req) (fn_name f)) (handler_for_verb (req_verb req) r) of
       Some (k, h) \<Rightarrow> handle h req
         (f\<lparr>fn_params := fn_params f @ bindings (route_segs (path k)) (route_segs (fn_name f))\<rparr>)
     | None \<Rightarrow>
         (case fallback_handler r of
            Some h \<Rightarrow> handle h req f
          | None \<Rightarrow> Inr (make_error_response (fn_name f))))"
  using dispatch_none [OF assms] dispatch_found [OF assms]
  by (auto simp: Let_def split: option.split)

text \<open>A handler for the examples: it answers with the value of the parameter it is named after.\<close>

definition echo_handler :: "string \<Rightarrow> Request \<Rightarrow> http_function \<Rightarrow> string + Response" where
  "echo_handler h req f = Inr (make_success_response (h @ ''='' @ fn_lookup f h) 200 11 ''text/plain'')"

abbreviation get_request :: "string \<Rightarrow> Request" where
  "get_request t \<equiv> \<lparr>req_verb = get, req_target = t, req_version = 11, req_body = []\<rparr>"

abbreviation get_route :: "string \<Rightarrow> request_mapper" where
  "get_route p \<equiv> \<lparr>path = p, verb_of = get\<rparr>"

theorem process_request_dispatch_witness:
  "process_request echo_handler (get_request ''/user/42?x=1'')
     (HttpRouter_init\<lparr>get_handlers := [(get_route ''/user'', ''a''), (get_route ''/user/{id}'', ''id'')]\<rparr>)
   = Val (Inr (make_success_response ''id=42'' 200 11 ''text/plain''))"
proof -
  let ?r = "HttpRouter_init\<lparr>get_handlers := [(get_route ''/user'', ''a''), (get_route ''/user/{id}'', ''id'')]\<rparr>"
  let ?q = "get_request ''/user/42?x=1''"
  have f: "parse_function ''/user/42?x=1'' = \<lparr>fn_name = ''/user/42'', fn_params = [(''x'', ''1'')]\<rparr>"
    by code_simp
  have h: "handler_for_verb get ?r = [(get_route ''/user'', ''a''), (get_route ''/user/{id}'', ''id'')]"
    by (simp add: handler_for_verb_def)
  have ok: "list_all (\<lambda>kh. route_ok (path (fst kh))) (handler_for_verb get ?r)"
    unfolding h by code_simp
  have fd: "List.find (route_fits get ''/user/42'') [(get_route ''/user'', ''a''), (get_route ''/user/{id}'', ''id'')]
      = Some (get_route ''/user/{id}'', ''id'')" by code_simp
  have b: "bindings (route_segs ''/user/{id}'') (route_segs ''/user/42'') = [(''user'', ''''), (''id'', ''42'')]"
    by code_simp
  show ?thesis
    using process_request_dispatch [of ?q ?r echo_handler] ok
    by (simp add: f h fd b Let_def echo_handler_def fn_lookup_def del: find.simps)
qed

text \<open>
  One answer per request. Whatever the handlers do, a request that was read and is not a
  streaming subscription gets exactly one response, written once: the handler's, or
  a 500 when it throws; the connection is shut down unless the write failed.
\<close>

theorem one_response_per_request:
  assumes "process_request handle req r = Val out"
    and "req_verb req \<noteq> get \<or> findSseHandler (fn_name (parse_function (req_target req))) r = None"
  shows "handle_client handle sse (Inr req) write_ec r = Val
    (WriteResponse (case out of
        Inr res \<Rightarrow> res
      | Inl e \<Rightarrow> text_response 500 (req_version req) ''Internal Server Error: Internal Server Error'')
     # (if write_ec = None then [Shutdown] else []))"
  using assms by (auto simp: handle_client_def make_internal_server_error_def Let_def split: sum.split)

theorem one_response_per_request_witness:
  "handle_client (\<lambda>h req f. Inl ()) (\<lambda>h req f. []) (Inr (get_request ''/a'')) None
     (HttpRouter_init\<lparr>get_handlers := [(get_route ''/a'', ())]\<rparr>)
   = Val [WriteResponse (text_response 500 11 ''Internal Server Error: Internal Server Error''), Shutdown]"
proof -
  let ?r = "HttpRouter_init\<lparr>get_handlers := [(get_route ''/a'', ())]\<rparr>"
  have "process_request (\<lambda>h req f. Inl ()) (get_request ''/a'') ?r = Val (Inl ())" by code_simp
  from one_response_per_request [OF this, of "\<lambda>h req f. []" None] show ?thesis
    by (simp add: findSseHandler_def HttpRouter_init_def)
qed

text \<open>
  Registration goes through the matching comparison. Registering a specific route after a
  wildcard route that covers it does not add a route: it replaces the wildcard's handler, so
  that every path the wildcard matches is answered by the specific handler.
\<close>

theorem specific_route_hijacks_wildcard:
  "(case add_handler (get_route ''/user/{id}'') ''id'' HttpRouter_init of
      UB \<Rightarrow> UB | Val r \<Rightarrow> add_handler (get_route ''/user/me'') ''me'' r)
   = Val (HttpRouter_init\<lparr>get_handlers := [(get_route ''/user/{id}'', ''me'')]\<rparr>)"
  by (simp add: add_handler_def flat_assign_def handler_for_verb_def set_handlers_def HttpRouter_init_def
      mapper_eq_def split_def seg_match_def is_wildcard_def)

text \<open>
  A query parameter shadows the path parameter of the same name, because the bound path
  parameters are appended after the query parameters and the lookup takes the first.
\<close>

theorem query_shadows_path_parameter:
  "process_request echo_handler (get_request ''/user/42?id=7'')
     (HttpRouter_init\<lparr>get_handlers := [(get_route ''/user/{id}'', ''id'')]\<rparr>)
   = Val (Inr (make_success_response ''id=7'' 200 11 ''text/plain''))"
  by code_simp

text \<open>
  The root route reads past an empty segment. With a handler registered for \<open>/\<close>, a request
  for \<open>/\<close> itself, and a request for any other one-segment path, evaluate the first character of
  an empty segment.
\<close>

theorem root_route_undefined:
  assumes "s \<noteq> []" and "CHR ''/'' \<notin> set s"
  shows "mapper_eq (get_route ''/'') (get_route (CHR ''/'' # s)) = UB
    \<and> extract_params_from_path f ''/'' ''/'' = UB"
  using assms
  by (simp add: mapper_eq_def split_def pieces_plain seg_match_def is_wildcard_def
      extract_params_from_path_def path_param_def)

theorem root_route_undefined_witness:
  "process_request echo_handler (get_request ''/x'')
     (HttpRouter_init\<lparr>get_handlers := [(get_route ''/'', ''h'')]\<rparr>) = UB"
proof -
  have "mapper_eq (get_route ''/'') (get_route ''/x'') = UB"
    using root_route_undefined [of "''x''"] by simp
  moreover have "parse_function ''/x'' = \<lparr>fn_name = ''/x'', fn_params = []\<rparr>" by code_simp
  ultimately show ?thesis
    by (simp add: process_request_def handler_for_verb_def Let_def)
qed

end
