(* ===== verification/WebClient.thy ===== *)
theory WebClient
  imports ConnectionPool HttpRouting "HOL-Library.Sublist"
begin

text \<open>
  The HTTP client, \<open>src/include/webclient.hpp\<close>: the request builder, the retry loops of the
  string, file and buffer executors, the server-sent-event client and its mailbox. The loops
  run against a record of operations on a world: leasing from the pool, the exchanges that the
  HTTP library performs on a leased connection, and the file system. The interface the client
  needs of the pool is the locale \<open>web_pool\<close>; it is interpreted on the model of
  \<open>ConnectionPool\<close>, with the outcomes of the network and the disk supplied by oracles.
\<close>

section \<open>Requests\<close>

record WebRequest =
  wr_method :: verb
  wr_target :: string
  wr_body :: string
  wr_params :: "(string \<times> string) list"
  wr_version :: nat
  wr_headers :: "(string \<times> string) list"
  wr_keepAlive :: bool
  wr_frameDelimiter :: string

datatype ClientData = TcpData string string | UnixData string

record WebClient =
  wc_data :: ClientData
  wc_request :: WebRequest
  wc_maxTries :: int
  wc_downloadTimeout :: int

text \<open>\<open>initDefaults\<close> and the member initialisers, for the TCP and the Unix socket instance.\<close>

definition WebRequest_default :: WebRequest where
  "WebRequest_default = \<lparr>wr_method = get, wr_target = ''/'', wr_body = [], wr_params = [], wr_version = 11,
     wr_headers = [], wr_keepAlive = True, wr_frameDelimiter = [CHR 0x0A, CHR 0x0A]\<rparr>"

definition WebClient_tcp :: WebClient where
  "WebClient_tcp = \<lparr>wc_data = TcpData [] ''443'', wc_request = WebRequest_default, wc_maxTries = 3,
     wc_downloadTimeout = 300\<rparr>"

definition WebClient_unix :: WebClient where
  "WebClient_unix = \<lparr>wc_data = UnixData [], wc_request = WebRequest_default, wc_maxTries = 3,
     wc_downloadTimeout = 300\<rparr>"

text \<open>
  The setters. The \<open>std::get\<close> on the other alternative is excluded by a \<open>static_assert\<close>;
  here it leaves the client unchanged. \<open>withUrl\<close> takes the parts of the parsed URL.
\<close>

definition withHost :: "string \<Rightarrow> WebClient \<Rightarrow> WebClient" where
  "withHost h c = (case wc_data c of TcpData _ p \<Rightarrow> c\<lparr>wc_data := TcpData h p\<rparr> | _ \<Rightarrow> c)"

definition withPort :: "string \<Rightarrow> WebClient \<Rightarrow> WebClient" where
  "withPort p c = (case wc_data c of TcpData h _ \<Rightarrow> c\<lparr>wc_data := TcpData h p\<rparr> | _ \<Rightarrow> c)"

definition withName :: "string \<Rightarrow> WebClient \<Rightarrow> WebClient" where
  "withName n c = (case wc_data c of UnixData _ \<Rightarrow> c\<lparr>wc_data := UnixData n\<rparr> | _ \<Rightarrow> c)"

definition withKeepAlive :: "bool \<Rightarrow> WebClient \<Rightarrow> WebClient" where
  "withKeepAlive b c = c\<lparr>wc_request := (wc_request c)\<lparr>wr_keepAlive := b\<rparr>\<rparr>"

definition withRetries :: "int \<Rightarrow> WebClient \<Rightarrow> WebClient" where
  "withRetries n c = c\<lparr>wc_maxTries := n\<rparr>"

definition withTarget :: "string \<Rightarrow> WebClient \<Rightarrow> WebClient" where
  "withTarget t c = c\<lparr>wc_request := (wc_request c)\<lparr>wr_target := t\<rparr>\<rparr>"

definition withParams :: "(string \<times> string) list \<Rightarrow> WebClient \<Rightarrow> WebClient" where
  "withParams ps c = c\<lparr>wc_request := (wc_request c)\<lparr>wr_params := ps\<rparr>\<rparr>"

definition withUrl :: "string \<Rightarrow> string \<Rightarrow> string \<Rightarrow> (string \<times> string) list \<Rightarrow> WebClient \<Rightarrow> WebClient" where
  "withUrl h p pth ps c =
     (let c = withPort (if p = [] then ''443'' else p) (withHost h c);
          c = withTarget (if pth = [] then ''/'' else pth) c
      in withParams (fold (\<lambda>(k, v) m. omap_put k v m) ps (wr_params (wc_request c))) c)"

text \<open>A request as the HTTP library holds it; \<open>msg_fields\<close> is the sequence of \<open>set\<close> calls.\<close>

record HttpMessage =
  msg_method :: verb
  msg_target :: string
  msg_version :: nat
  msg_keep_alive :: bool
  msg_fields :: "(string \<times> string) list"
  msg_body :: string

fun params_string :: "bool \<Rightarrow> (string \<times> string) list \<Rightarrow> string" where
  "params_string first [] = []"
| "params_string first ((k, v) # ps) =
     (if first then CHR ''?'' else CHR ''&'') # k @ ''='' @ v @ params_string False ps"

definition buildRequest :: "WebClient \<Rightarrow> HttpMessage" where
  "buildRequest c =
     (let r = wc_request c in
      \<lparr>msg_method = wr_method r, msg_target = wr_target r @ params_string True (wr_params r),
       msg_version = wr_version r, msg_keep_alive = wr_keepAlive r,
       msg_fields = (''Host'', case wc_data c of TcpData h _ \<Rightarrow> h | UnixData _ \<Rightarrow> ''localhost'') # wr_headers r,
       msg_body = wr_body r\<rparr>)"

definition getEndpoint :: "WebClient \<Rightarrow> EndpointKey" where
  "getEndpoint c = (case wc_data c of TcpData h p \<Rightarrow> EndpointKey h p | UnixData p \<Rightarrow> EndpointKey p [])"

section \<open>The operations the executors call\<close>

text \<open>
  Leases are named by a number. \<open>op_acquire\<close> to \<open>op_releaseClient\<close> are the pool's; \<open>op_send\<close>,
  \<open>op_receive\<close>, \<open>op_header\<close> and \<open>op_body\<close> are the exchanges of \<open>HttpClient\<close> on a leased
  connection; \<open>op_open\<close> opens the destination file. \<open>keep_alive\<close> is the response accessor.
\<close>

record ('w, 'rs) web_ops =
  op_acquire :: "EndpointKey \<Rightarrow> 'w \<Rightarrow> (errc + nat) \<times> 'w"
  op_markInvalid :: "nat \<Rightarrow> 'w \<Rightarrow> 'w"
  op_release :: "nat \<Rightarrow> 'w \<Rightarrow> 'w"
  op_releaseClient :: "nat \<Rightarrow> 'w \<Rightarrow> 'w"
  op_send :: "nat \<Rightarrow> HttpMessage \<Rightarrow> 'w \<Rightarrow> error_code \<times> 'w"
  op_receive :: "nat \<Rightarrow> 'w \<Rightarrow> (errc + 'rs) \<times> 'w"
  op_header :: "nat \<Rightarrow> 'w \<Rightarrow> (errc + nat) \<times> 'w"
  op_body :: "nat \<Rightarrow> int \<Rightarrow> 'w \<Rightarrow> (errc + 'rs) \<times> 'w"
  op_open :: "string \<Rightarrow> 'w \<Rightarrow> error_code \<times> 'w"
  keep_alive :: "'rs \<Rightarrow> bool"

text \<open>
  One iteration of an executor's loop: \<open>Inl\<close> is \<open>continue\<close> with the error recorded, \<open>Inr\<close> is
  \<open>co_return\<close>. The lease is a local of the iteration, so its destructor, which releases it, runs
  when the iteration is left, whichever way: \<open>scoped_lease\<close>. An empty lease has nothing to release.
\<close>

definition scoped_lease :: "('w, 'rs) web_ops \<Rightarrow> nat \<Rightarrow> ('w \<Rightarrow> 'a \<times> 'w) \<Rightarrow> 'w \<Rightarrow> 'a \<times> 'w" where
  "scoped_lease ops i block w = (case block w of (r, w) \<Rightarrow> (r, op_release ops i w))"

definition string_attempt ::
  "('w, 'rs) web_ops \<Rightarrow> WebClient \<Rightarrow> ('rs \<Rightarrow> 'w \<Rightarrow> 'a \<times> 'w) \<Rightarrow> 'w \<Rightarrow> (errc + 'a) \<times> 'w" where
  "string_attempt ops c success w =
     (case op_acquire ops (getEndpoint c) w of
        (Inl e, w) \<Rightarrow> (Inl e, w)
      | (Inr i, w) \<Rightarrow> scoped_lease ops i (\<lambda>w.
          (case op_send ops i (buildRequest c) w of
             (Some e, w) \<Rightarrow> (Inl e, op_markInvalid ops i w)
           | (None, w) \<Rightarrow>
               (case op_receive ops i w of
                  (Inl e, w) \<Rightarrow> (Inl e, op_markInvalid ops i w)
                | (Inr res, w) \<Rightarrow>
                    let w = (if \<not> keep_alive ops res \<or> \<not> wr_keepAlive (wc_request c)
                             then op_markInvalid ops i w else w)
                    in case success res w of (a, w) \<Rightarrow> (Inr a, w)))) w)"

definition file_attempt ::
  "('w, 'rs) web_ops \<Rightarrow> WebClient \<Rightarrow> string \<Rightarrow> 'w \<Rightarrow> (errc + error_code \<times> string) \<times> 'w" where
  "file_attempt ops c filePath w =
     (case op_acquire ops (getEndpoint c) w of
        (Inl e, w) \<Rightarrow> (Inl e, w)
      | (Inr i, w) \<Rightarrow> scoped_lease ops i (\<lambda>w.
          (case op_send ops i (buildRequest c) w of
             (Some e, w) \<Rightarrow> (Inl e, op_markInvalid ops i w)
           | (None, w) \<Rightarrow>
               (case op_header ops i w of
                  (Inl e, w) \<Rightarrow> (Inl e, op_markInvalid ops i w)
                | (Inr status, w) \<Rightarrow>
                    if status < 200 \<or> status \<ge> 300 then (Inl Connection_refused, op_markInvalid ops i w)
                    else
                      (case op_open ops filePath w of
                         (Some e, w) \<Rightarrow> (Inr (Some e, filePath), op_markInvalid ops i w)
                       | (None, w) \<Rightarrow>
                           (case op_body ops i (wc_downloadTimeout c) w of
                              (Inl e, w) \<Rightarrow> (Inl e, op_markInvalid ops i w)
                            | (Inr res, w) \<Rightarrow>
                                let w = (if \<not> keep_alive ops res \<or> \<not> wr_keepAlive (wc_request c)
                                         then op_markInvalid ops i w else w)
                                in (Inr (None, filePath), w)))))) w)"

definition buffer_attempt :: "('w, 'rs) web_ops \<Rightarrow> WebClient \<Rightarrow> 'w \<Rightarrow> (errc + 'rs) \<times> 'w" where
  "buffer_attempt ops c w =
     (case op_acquire ops (getEndpoint c) w of
        (Inl e, w) \<Rightarrow> (Inl e, w)
      | (Inr i, w) \<Rightarrow> scoped_lease ops i (\<lambda>w.
          (case op_send ops i (buildRequest c) w of
             (Some e, w) \<Rightarrow> (Inl e, op_markInvalid ops i w)
           | (None, w) \<Rightarrow>
               (case op_receive ops i w of
                  (Inl e, w) \<Rightarrow> (Inl e, op_markInvalid ops i w)
                | (Inr res, w) \<Rightarrow>
                    let w = (if \<not> keep_alive ops res \<or> \<not> wr_keepAlive (wc_request c)
                             then op_markInvalid ops i w else w)
                    in (Inr res, w)))) w)"

text \<open>The loop over the attempts; it ends with \<open>lastEc\<close>, initially no error.\<close>

fun retry_loop :: "('w \<Rightarrow> (errc + 'a) \<times> 'w) \<Rightarrow> nat \<Rightarrow> error_code \<Rightarrow> 'w \<Rightarrow> (error_code + 'a) \<times> 'w" where
  "retry_loop attempt 0 lastEc w = (Inl lastEc, w)"
| "retry_loop attempt (Suc n) lastEc w =
     (case attempt w of
        (Inl e, w) \<Rightarrow> retry_loop attempt n (Some e) w
      | (Inr a, w) \<Rightarrow> (Inr a, w))"

definition maxAttempts :: "WebClient \<Rightarrow> nat" where
  "maxAttempts c = nat (max 1 (wc_maxTries c))"

text \<open>\<open>execute<Response>\<close> returns the pair; the other instance runs the stored handlers.\<close>

definition execute_pair :: "('w, 'rs) web_ops \<Rightarrow> WebClient \<Rightarrow> 'w \<Rightarrow> (error_code \<times> 'rs option) \<times> 'w" where
  "execute_pair ops c w =
     (case retry_loop (string_attempt ops c (\<lambda>res w. (res, w))) (maxAttempts c) None w of
        (Inr res, w) \<Rightarrow> ((None, Some res), w)
      | (Inl ec, w) \<Rightarrow> ((ec, None), w))"

definition execute_handlers ::
  "('w, 'rs) web_ops \<Rightarrow> WebClient \<Rightarrow> ('rs \<Rightarrow> 'w \<Rightarrow> error_code \<times> 'w) \<Rightarrow> (error_code \<Rightarrow> 'w \<Rightarrow> error_code \<times> 'w)
    \<Rightarrow> 'w \<Rightarrow> error_code \<times> 'w" where
  "execute_handlers ops c thenHandler orElseHandler w =
     (case retry_loop (string_attempt ops c thenHandler) (maxAttempts c) None w of
        (Inr ec, w) \<Rightarrow> (ec, w)
      | (Inl ec, w) \<Rightarrow> orElseHandler ec w)"

definition execute_file :: "('w, 'rs) web_ops \<Rightarrow> WebClient \<Rightarrow> string \<Rightarrow> 'w \<Rightarrow> (error_code \<times> string) \<times> 'w" where
  "execute_file ops c filePath w =
     (case retry_loop (file_attempt ops c filePath) (maxAttempts c) None w of
        (Inr r, w) \<Rightarrow> (r, w)
      | (Inl ec, w) \<Rightarrow> ((ec, filePath), w))"

definition execute_buffer :: "('w, 'rs) web_ops \<Rightarrow> WebClient \<Rightarrow> 'w \<Rightarrow> (error_code \<times> 'rs option) \<times> 'w" where
  "execute_buffer ops c w =
     (case retry_loop (buffer_attempt ops c) (maxAttempts c) None w of
        (Inr res, w) \<Rightarrow> ((None, Some res), w)
      | (Inl ec, w) \<Rightarrow> ((ec, None), w))"

text \<open>
  \<open>executeAndReturnAs\<close> for a type parsed from JSON: \<open>body\<close> and \<open>parse\<close> are the library's
  accessor and parser (\<open>None\<close> is the exception), \<open>dflt\<close> the default-constructed value.
\<close>

definition executeAndReturnAs ::
  "('w, 'rs) web_ops \<Rightarrow> WebClient \<Rightarrow> ('rs \<Rightarrow> string) \<Rightarrow> (string \<Rightarrow> 'v option) \<Rightarrow> 'v \<Rightarrow> 'w \<Rightarrow> (error_code \<times> 'v) \<times> 'w" where
  "executeAndReturnAs ops c body parse dflt w =
     (case execute_pair ops c w of
        ((None, Some res), w) \<Rightarrow>
          (case parse (body res) of
             Some v \<Rightarrow> ((None, v), w)
           | None \<Rightarrow> ((Some Bad_message, dflt), w))
      | ((ec, _), w) \<Rightarrow> ((ec, dflt), w))"

text \<open>\<open>executeAsStream\<close>, up to the hand-over of the connection to the frame producer.\<close>

definition sse_request :: "HttpMessage \<Rightarrow> HttpMessage" where
  "sse_request m = m\<lparr>msg_fields := msg_fields m @ [(''Accept'', ''text/event-stream''), (''Cache-Control'', ''no-cache'')],
     msg_keep_alive := True\<rparr>"

definition executeAsStream :: "('w, 'rs) web_ops \<Rightarrow> WebClient \<Rightarrow> 'w \<Rightarrow> (errc + nat) \<times> 'w" where
  "executeAsStream ops c w =
     (case op_acquire ops (getEndpoint c) w of
        (Inl e, w) \<Rightarrow> (Inl e, w)
      | (Inr i, w) \<Rightarrow> scoped_lease ops i (\<lambda>w.
          (case op_send ops i (sse_request (buildRequest c)) w of
             (Some e, w) \<Rightarrow> (Inl e, op_markInvalid ops i w)
           | (None, w) \<Rightarrow>
               (case op_header ops i w of
                  (Inl e, w) \<Rightarrow> (Inl e, op_markInvalid ops i w)
                | (Inr status, w) \<Rightarrow>
                    if status < 200 \<or> status \<ge> 300 then (Inl Connection_refused, op_markInvalid ops i w)
                    else (Inr i, op_releaseClient ops i w)))) w)"

text \<open>The attempts with the release written at each exit.\<close>

definition drop_lease :: "('w, 'rs) web_ops \<Rightarrow> nat \<Rightarrow> 'w \<Rightarrow> 'w" where
  "drop_lease ops i w = op_release ops i (op_markInvalid ops i w)"

lemma string_attempt_unfold:
  "string_attempt ops c success w =
     (case op_acquire ops (getEndpoint c) w of
        (Inl e, w) \<Rightarrow> (Inl e, w)
      | (Inr i, w) \<Rightarrow>
          (case op_send ops i (buildRequest c) w of
             (Some e, w) \<Rightarrow> (Inl e, drop_lease ops i w)
           | (None, w) \<Rightarrow>
               (case op_receive ops i w of
                  (Inl e, w) \<Rightarrow> (Inl e, drop_lease ops i w)
                | (Inr res, w) \<Rightarrow>
                    let w = (if \<not> keep_alive ops res \<or> \<not> wr_keepAlive (wc_request c)
                             then op_markInvalid ops i w else w)
                    in case success res w of (a, w) \<Rightarrow> (Inr a, op_release ops i w))))"
  by (auto simp: string_attempt_def scoped_lease_def drop_lease_def Let_def split: prod.split sum.split option.split)

lemma file_attempt_unfold:
  "file_attempt ops c filePath w =
     (case op_acquire ops (getEndpoint c) w of
        (Inl e, w) \<Rightarrow> (Inl e, w)
      | (Inr i, w) \<Rightarrow>
          (case op_send ops i (buildRequest c) w of
             (Some e, w) \<Rightarrow> (Inl e, drop_lease ops i w)
           | (None, w) \<Rightarrow>
               (case op_header ops i w of
                  (Inl e, w) \<Rightarrow> (Inl e, drop_lease ops i w)
                | (Inr status, w) \<Rightarrow>
                    if status < 200 \<or> status \<ge> 300 then (Inl Connection_refused, drop_lease ops i w)
                    else
                      (case op_open ops filePath w of
                         (Some e, w) \<Rightarrow> (Inr (Some e, filePath), drop_lease ops i w)
                       | (None, w) \<Rightarrow>
                           (case op_body ops i (wc_downloadTimeout c) w of
                              (Inl e, w) \<Rightarrow> (Inl e, drop_lease ops i w)
                            | (Inr res, w) \<Rightarrow>
                                let w = (if \<not> keep_alive ops res \<or> \<not> wr_keepAlive (wc_request c)
                                         then op_markInvalid ops i w else w)
                                in (Inr (None, filePath), op_release ops i w))))))"
  by (auto simp: file_attempt_def scoped_lease_def drop_lease_def Let_def split: prod.split sum.split option.split)

lemma buffer_attempt_unfold:
  "buffer_attempt ops c w =
     (case op_acquire ops (getEndpoint c) w of
        (Inl e, w) \<Rightarrow> (Inl e, w)
      | (Inr i, w) \<Rightarrow>
          (case op_send ops i (buildRequest c) w of
             (Some e, w) \<Rightarrow> (Inl e, drop_lease ops i w)
           | (None, w) \<Rightarrow>
               (case op_receive ops i w of
                  (Inl e, w) \<Rightarrow> (Inl e, drop_lease ops i w)
                | (Inr res, w) \<Rightarrow>
                    let w = (if \<not> keep_alive ops res \<or> \<not> wr_keepAlive (wc_request c)
                             then op_markInvalid ops i w else w)
                    in (Inr res, op_release ops i w))))"
  by (auto simp: buffer_attempt_def scoped_lease_def drop_lease_def Let_def split: prod.split sum.split option.split)

lemma executeAsStream_unfold:
  "executeAsStream ops c w =
     (case op_acquire ops (getEndpoint c) w of
        (Inl e, w) \<Rightarrow> (Inl e, w)
      | (Inr i, w) \<Rightarrow>
          (case op_send ops i (sse_request (buildRequest c)) w of
             (Some e, w) \<Rightarrow> (Inl e, drop_lease ops i w)
           | (None, w) \<Rightarrow>
               (case op_header ops i w of
                  (Inl e, w) \<Rightarrow> (Inl e, drop_lease ops i w)
                | (Inr status, w) \<Rightarrow>
                    if status < 200 \<or> status \<ge> 300 then (Inl Connection_refused, drop_lease ops i w)
                    else (Inr i, op_release ops i (op_releaseClient ops i w)))))"
  by (auto simp: executeAsStream_def scoped_lease_def drop_lease_def Let_def split: prod.split sum.split option.split)

section \<open>The interface to the pool\<close>

text \<open>
  What the executors rely on: the live leases of the world, whether a lease is valid, the
  endpoint it is for, and the number of pooled idle connections per endpoint. Exchanges on a leased
  connection leave leases and pool alone; releasing pools the connection exactly when the
  lease is valid.
\<close>

definition same_leases :: "('w \<Rightarrow> nat set) \<Rightarrow> ('w \<Rightarrow> nat \<Rightarrow> bool) \<Rightarrow> ('w \<Rightarrow> nat \<Rightarrow> EndpointKey)
    \<Rightarrow> ('w \<Rightarrow> EndpointKey \<Rightarrow> nat) \<Rightarrow> 'w \<Rightarrow> 'w \<Rightarrow> bool" where
  "same_leases live valid endpoint pooled w w' \<longleftrightarrow> live w' = live w \<and> pooled w' = pooled w
     \<and> (\<forall>i \<in> live w. valid w' i = valid w i \<and> endpoint w' i = endpoint w i)"

locale web_pool =
  fixes ops :: "('w, 'rs) web_ops"
    and ok :: "'w \<Rightarrow> bool"
    and live :: "'w \<Rightarrow> nat set"
    and valid :: "'w \<Rightarrow> nat \<Rightarrow> bool"
    and endpoint :: "'w \<Rightarrow> nat \<Rightarrow> EndpointKey"
    and pooled :: "'w \<Rightarrow> EndpointKey \<Rightarrow> nat"
    and disk :: "'w \<Rightarrow> 'd"
  assumes acquire: "ok w \<Longrightarrow> op_acquire ops k w = (r, w') \<Longrightarrow>
      ok w' \<and> disk w' = disk w \<and> (case r of
        Inl e \<Rightarrow> live w' = live w
      | Inr i \<Rightarrow> i \<notin> live w \<and> live w' = insert i (live w) \<and> valid w' i \<and> endpoint w' i = k)"
    and markInvalid: "ok w \<Longrightarrow> i \<in> live w \<Longrightarrow>
      ok (op_markInvalid ops i w) \<and> disk (op_markInvalid ops i w) = disk w
      \<and> live (op_markInvalid ops i w) = live w \<and> pooled (op_markInvalid ops i w) = pooled w
      \<and> \<not> valid (op_markInvalid ops i w) i \<and> endpoint (op_markInvalid ops i w) i = endpoint w i"
    and release: "ok w \<Longrightarrow> i \<in> live w \<Longrightarrow>
      ok (op_release ops i w) \<and> disk (op_release ops i w) = disk w
      \<and> live (op_release ops i w) = live w - {i}
      \<and> pooled (op_release ops i w) (endpoint w i) = pooled w (endpoint w i) + (if valid w i then 1 else 0)"
    and releaseClient: "ok w \<Longrightarrow> i \<in> live w \<Longrightarrow>
      ok (op_release ops i (op_releaseClient ops i w))
      \<and> disk (op_release ops i (op_releaseClient ops i w)) = disk w
      \<and> live (op_release ops i (op_releaseClient ops i w)) = live w - {i}
      \<and> pooled (op_release ops i (op_releaseClient ops i w)) = pooled w"
    and send: "ok w \<Longrightarrow> i \<in> live w \<Longrightarrow> op_send ops i m w = (ec, w') \<Longrightarrow>
      ok w' \<and> disk w' = disk w \<and> same_leases live valid endpoint pooled w w'"
    and receive: "ok w \<Longrightarrow> i \<in> live w \<Longrightarrow> op_receive ops i w = (rs, w') \<Longrightarrow>
      ok w' \<and> disk w' = disk w \<and> same_leases live valid endpoint pooled w w'"
    and header: "ok w \<Longrightarrow> i \<in> live w \<Longrightarrow> op_header ops i w = (st, w') \<Longrightarrow>
      ok w' \<and> disk w' = disk w \<and> same_leases live valid endpoint pooled w w'"
    and body: "ok w \<Longrightarrow> i \<in> live w \<Longrightarrow> op_body ops i t w = (rs, w') \<Longrightarrow>
      ok w' \<and> same_leases live valid endpoint pooled w w'"
    and openfile: "ok w \<Longrightarrow> op_open ops p w = (ec, w') \<Longrightarrow>
      ok w' \<and> same_leases live valid endpoint pooled w w'"
begin

text \<open>A step of an executor that holds lease \<open>i\<close>, given back at the end.\<close>

lemma drop: "ok w \<Longrightarrow> i \<in> live w \<Longrightarrow>
   ok (drop_lease ops i w) \<and> live (drop_lease ops i w) = live w - {i} \<and> disk (drop_lease ops i w) = disk w
   \<and> pooled (drop_lease ops i w) (endpoint w i) = pooled w (endpoint w i)"
  using markInvalid [of w i] release [of "op_markInvalid ops i w" i] by (simp add: drop_lease_def)

text \<open>\<open>holding i w0 w\<close>: in \<open>w\<close> the iteration that began in \<open>w0\<close> holds the one lease \<open>i\<close> more.\<close>

definition holding :: "nat \<Rightarrow> 'w \<Rightarrow> 'w \<Rightarrow> bool" where
  "holding i w0 w \<longleftrightarrow> ok w \<and> i \<in> live w \<and> live w - {i} = live w0"

definition settled :: "'w \<Rightarrow> 'w \<Rightarrow> bool" where
  "settled w0 w \<longleftrightarrow> ok w \<and> live w = live w0"

definition balanced :: "('w \<Rightarrow> 'a \<times> 'w) \<Rightarrow> bool" where
  "balanced f \<longleftrightarrow> (\<forall>w. ok w \<longrightarrow> settled w (snd (f w)))"

lemma balancedI: "(\<And>w. ok w \<Longrightarrow> settled w (snd (f w))) \<Longrightarrow> balanced f"
  by (simp add: balanced_def)

lemma acquire_failed: "op_acquire ops k w = (Inl e, w') \<Longrightarrow> ok w \<Longrightarrow> settled w w'"
  using acquire [of w k "Inl e" w'] by (simp add: settled_def)

lemma acquire_holding: "op_acquire ops k w = (Inr i, w') \<Longrightarrow> ok w \<Longrightarrow> holding i w w'"
  using acquire [of w k "Inr i" w'] by (auto simp: holding_def)

lemma exchange_holding:
  "op_send ops i m w = (ec, w') \<Longrightarrow> holding i w0 w \<Longrightarrow> holding i w0 w'"
  "op_receive ops i w = (rs, w') \<Longrightarrow> holding i w0 w \<Longrightarrow> holding i w0 w'"
  "op_header ops i w = (st, w') \<Longrightarrow> holding i w0 w \<Longrightarrow> holding i w0 w'"
  "op_body ops i t w = (rs, w') \<Longrightarrow> holding i w0 w \<Longrightarrow> holding i w0 w'"
  "op_open ops p w = (ec, w') \<Longrightarrow> holding i w0 w \<Longrightarrow> holding i w0 w'"
  using send [of w i m ec w'] receive [of w i rs w'] header [of w i st w'] body [of w i t rs w']
    openfile [of w p ec w']
  by (auto simp: holding_def same_leases_def)

lemma mark_holding: "holding i w0 w \<Longrightarrow> holding i w0 (op_markInvalid ops i w)"
  using markInvalid [of w i] by (auto simp: holding_def)

lemma release_settled: "holding i w0 w \<Longrightarrow> settled w0 (op_release ops i w)"
  using release [of w i] by (auto simp: holding_def settled_def)

lemma drop_settled: "holding i w0 w \<Longrightarrow> settled w0 (drop_lease ops i w)"
  using drop [of w i] by (auto simp: holding_def settled_def)

lemma detach_settled: "holding i w0 w \<Longrightarrow> settled w0 (op_release ops i (op_releaseClient ops i w))"
  using releaseClient [of w i] by (auto simp: holding_def settled_def)

lemma run_holding: "holding i w0 w \<Longrightarrow> balanced f \<Longrightarrow> holding i w0 (snd (f w))"
  by (auto simp: holding_def balanced_def settled_def)

text \<open>Rules for the sequential composition in the executors.\<close>

lemma settled_acquire:
  assumes "ok w" and "\<And>i w'. holding i w w' \<Longrightarrow> settled w (snd (g i w'))"
  shows "settled w (snd (case op_acquire ops k w of (Inl e, w') \<Rightarrow> (Inl e, w') | (Inr i, w') \<Rightarrow> g i w'))"
  using assms acquire_failed acquire_holding by (auto split: prod.split sum.split)

lemma settled_send:
  assumes "holding i w0 w" and "\<And>e w'. holding i w0 w' \<Longrightarrow> settled w0 (snd (f e w'))"
    and "\<And>w'. holding i w0 w' \<Longrightarrow> settled w0 (snd (g w'))"
  shows "settled w0 (snd (case op_send ops i m w of (Some e, w') \<Rightarrow> f e w' | (None, w') \<Rightarrow> g w'))"
  using assms exchange_holding(1) by (auto split: prod.split option.split)

lemma settled_open:
  assumes "holding i w0 w" and "\<And>e w'. holding i w0 w' \<Longrightarrow> settled w0 (snd (f e w'))"
    and "\<And>w'. holding i w0 w' \<Longrightarrow> settled w0 (snd (g w'))"
  shows "settled w0 (snd (case op_open ops p w of (Some e, w') \<Rightarrow> f e w' | (None, w') \<Rightarrow> g w'))"
  using assms exchange_holding(5) by (auto split: prod.split option.split)

lemma settled_receive:
  assumes "holding i w0 w" and "\<And>e w'. holding i w0 w' \<Longrightarrow> settled w0 (snd (f e w'))"
    and "\<And>r w'. holding i w0 w' \<Longrightarrow> settled w0 (snd (g r w'))"
  shows "settled w0 (snd (case op_receive ops i w of (Inl e, w') \<Rightarrow> f e w' | (Inr r, w') \<Rightarrow> g r w'))"
  using assms exchange_holding(2) by (auto split: prod.split sum.split)

lemma settled_header:
  assumes "holding i w0 w" and "\<And>e w'. holding i w0 w' \<Longrightarrow> settled w0 (snd (f e w'))"
    and "\<And>r w'. holding i w0 w' \<Longrightarrow> settled w0 (snd (g r w'))"
  shows "settled w0 (snd (case op_header ops i w of (Inl e, w') \<Rightarrow> f e w' | (Inr r, w') \<Rightarrow> g r w'))"
  using assms exchange_holding(3) by (auto split: prod.split sum.split)

lemma settled_body:
  assumes "holding i w0 w" and "\<And>e w'. holding i w0 w' \<Longrightarrow> settled w0 (snd (f e w'))"
    and "\<And>r w'. holding i w0 w' \<Longrightarrow> settled w0 (snd (g r w'))"
  shows "settled w0 (snd (case op_body ops i t w of (Inl e, w') \<Rightarrow> f e w' | (Inr r, w') \<Rightarrow> g r w'))"
  using assms exchange_holding(4) by (auto split: prod.split sum.split)

lemma settled_finish:
  assumes "holding i w0 w" and "balanced f"
  shows "settled w0 (snd (case f (if b then op_markInvalid ops i w else w) of (a, w) \<Rightarrow> (Inr a, op_release ops i w)))"
proof -
  have "holding i w0 (if b then op_markInvalid ops i w else w)" using assms(1) by (simp add: mark_holding)
  from run_holding [OF this assms(2)] show ?thesis by (simp only: case_prod_beta snd_conv release_settled)
qed

lemma settled_return:
  "holding i w0 w \<Longrightarrow> settled w0 (snd (x, op_release ops i (if b then op_markInvalid ops i w else w)))"
  by (simp add: mark_holding release_settled)

lemma settled_detach: "holding i w0 w \<Longrightarrow> settled w0 (snd (x, op_release ops i (op_releaseClient ops i w)))"
  by (simp add: detach_settled)

lemma settled_if:
  "(b \<Longrightarrow> settled w0 (snd x)) \<Longrightarrow> (\<not> b \<Longrightarrow> settled w0 (snd y)) \<Longrightarrow> settled w0 (snd (if b then x else y))"
  by simp

lemma settled_drop: "holding i w0 w \<Longrightarrow> settled w0 (snd (x, drop_lease ops i w))"
  using drop_settled by simp

lemma balanced_result: "balanced (\<lambda>w. (a, w))"
  by (simp add: balanced_def settled_def)

lemmas settled_rules = settled_acquire settled_send settled_open settled_receive settled_header
  settled_body settled_finish settled_return settled_detach settled_if settled_drop

lemma string_balanced:
  assumes "\<And>res. balanced (success res)"
  shows "balanced (string_attempt ops c success)"
  unfolding string_attempt_unfold Let_def by (intro balancedI settled_rules assms)

lemma buffer_balanced: "balanced (buffer_attempt ops c)"
  unfolding buffer_attempt_unfold Let_def by (intro balancedI settled_rules)

lemma file_balanced: "balanced (file_attempt ops c p)"
  unfolding file_attempt_unfold Let_def by (intro balancedI settled_rules)

lemma stream_balanced: "balanced (executeAsStream ops c)"
  unfolding executeAsStream_unfold by (intro balancedI settled_rules)

lemma retry_balanced:
  assumes "balanced attempt"
  shows "balanced (retry_loop attempt n ec)"
proof -
  have "ok w \<Longrightarrow> settled w (snd (retry_loop attempt n ec w))" for w
  proof (induction n arbitrary: ec w)
    case (Suc n)
    obtain r w1 where a: "attempt w = (r, w1)" by (cases "attempt w")
    with assms Suc.prems have "settled w w1" by (auto simp: balanced_def)
    then show ?case using Suc.IH [of w1] a by (cases r) (auto simp: settled_def)
  qed (simp add: settled_def)
  then show ?thesis by (simp add: balanced_def)
qed

end

context web_pool begin

lemma balancedD: "balanced f \<Longrightarrow> ok w \<Longrightarrow> f w = (r, w') \<Longrightarrow> settled w w'"
  by (metis balanced_def snd_conv)

lemma executors_settled:
  assumes w: "ok w"
  shows "settled w (snd (execute_pair ops c w))"
    and "settled w (snd (execute_file ops c p w))"
    and "settled w (snd (execute_buffer ops c w))"
    and "settled w (snd (executeAsStream ops c w))"
proof -
  show "settled w (snd (execute_pair ops c w))"
    using balancedD [OF retry_balanced [OF string_balanced] w, of _ c _ None] balanced_result
    unfolding execute_pair_def by (auto split: prod.split sum.split)
  show "settled w (snd (execute_file ops c p w))"
    using balancedD [OF retry_balanced [OF file_balanced] w, of c p _ None]
    unfolding execute_file_def by (auto split: prod.split sum.split)
  show "settled w (snd (execute_buffer ops c w))"
    using balancedD [OF retry_balanced [OF buffer_balanced] w, of c _ None]
    unfolding execute_buffer_def by (auto split: prod.split sum.split)
  show "settled w (snd (executeAsStream ops c w))"
    using balancedD [OF stream_balanced w, of c] by (metis prod.collapse)
qed

lemma handlers_settled:
  assumes w: "ok w" and th: "\<And>res. balanced (th res)" and oe: "\<And>ec. balanced (oe ec)"
  shows "settled w (snd (execute_handlers ops c th oe w))"
proof -
  obtain r w' where r: "retry_loop (string_attempt ops c th) (maxAttempts c) None w = (r, w')"
    by (cases "retry_loop (string_attempt ops c th) (maxAttempts c) None w")
  have "balanced (retry_loop (string_attempt ops c th) (maxAttempts c) None)"
    by (intro retry_balanced string_balanced th)
  from balancedD [OF this w] r have "settled w w'" by blast
  then show ?thesis
    using r oe by (cases r) (auto simp: execute_handlers_def balanced_def settled_def)
qed

text \<open>A successful exchange pools the connection exactly when both sides keep it alive.\<close>

lemma string_attempt_pools:
  assumes "ok w" and "string_attempt ops c (\<lambda>res w. (res, w)) w = (Inr res, w')"
  obtains i w1 where "op_acquire ops (getEndpoint c) w = (Inr i, w1)"
    "live w1 = insert i (live w)" "i \<notin> live w"
    "pooled w' (getEndpoint c) = pooled w1 (getEndpoint c)
       + (if keep_alive ops res \<and> wr_keepAlive (wc_request c) then 1 else 0)"
proof -
  from assms(2) obtain i w1 w2 w3 where
    a: "op_acquire ops (getEndpoint c) w = (Inr i, w1)"
    and s: "op_send ops i (buildRequest c) w1 = (None, w2)"
    and v: "op_receive ops i w2 = (Inr res, w3)"
    and w': "w' = op_release ops i (if \<not> keep_alive ops res \<or> \<not> wr_keepAlive (wc_request c)
        then op_markInvalid ops i w3 else w3)"
    unfolding string_attempt_unfold Let_def
    by (auto split: prod.splits sum.splits option.splits)
  from acquire [OF assms(1) a]
  have 1: "ok w1" "i \<notin> live w" "live w1 = insert i (live w)" "valid w1 i" "endpoint w1 i = getEndpoint c"
    by auto
  from send [OF 1(1) _ s] 1(3)
  have 2: "ok w2" "same_leases live valid endpoint pooled w1 w2" by auto
  then have i2: "i \<in> live w2" using 1(3) by (simp add: same_leases_def)
  from receive [OF 2(1) i2 v]
  have 3: "ok w3" "same_leases live valid endpoint pooled w2 w3" by auto
  have i3: "i \<in> live w3" "valid w3 i" "endpoint w3 i = getEndpoint c" "pooled w3 = pooled w1"
    using 1(3-5) 2(2) 3(2) by (auto simp: same_leases_def)
  have "pooled w' (getEndpoint c) = pooled w1 (getEndpoint c)
      + (if keep_alive ops res \<and> wr_keepAlive (wc_request c) then 1 else 0)"
    using release [OF 3(1) i3(1)] markInvalid [OF 3(1) i3(1)]
      release [of "op_markInvalid ops i w3" i] i3 by (auto simp: w')
  with 1 a that show thesis by blast
qed

end

text \<open>A server that never answers with a success status, as a property of the world that lasts.\<close>

locale refusing_server = web_pool ops ok live valid endpoint pooled disk
  for ops :: "('w, 'rs) web_ops" and ok :: "'w \<Rightarrow> bool" and live :: "'w \<Rightarrow> nat set"
    and valid :: "'w \<Rightarrow> nat \<Rightarrow> bool" and endpoint :: "'w \<Rightarrow> nat \<Rightarrow> EndpointKey"
    and pooled :: "'w \<Rightarrow> EndpointKey \<Rightarrow> nat" and disk :: "'w \<Rightarrow> 'd" +
  fixes refusing :: "'w \<Rightarrow> bool"
  assumes refuses: "refusing w \<Longrightarrow> op_header ops i w = (Inr st, w') \<Longrightarrow> st < 200 \<or> 300 \<le> st"
    and lasting: "refusing w \<Longrightarrow> refusing (snd (op_acquire ops k w))"
      "refusing w \<Longrightarrow> refusing (snd (op_send ops i m w))"
      "refusing w \<Longrightarrow> refusing (snd (op_header ops i w))"
      "refusing w \<Longrightarrow> refusing (drop_lease ops i w)"
begin

text \<open>A download from such a server leaves the disk alone and reports an error.\<close>

lemma file_attempt_refused:
  assumes w: "ok w" "refusing w"
  obtains e w' where "file_attempt ops c p w = (Inl e, w')" "disk w' = disk w" "ok w'" "refusing w'"
proof -
  let ?thesis' = "disk (snd (file_attempt ops c p w)) = disk w \<and> refusing (snd (file_attempt ops c p w))
    \<and> (\<exists>e. fst (file_attempt ops c p w) = Inl e)"
  obtain r1 w1 where a: "op_acquire ops (getEndpoint c) w = (r1, w1)" by (cases "op_acquire ops (getEndpoint c) w")
  note A = acquire [OF w(1) a]
  have f1: "refusing w1" using lasting(1) [OF w(2), of "getEndpoint c"] a by simp
  have ?thesis'
  proof (cases r1)
    case (Inl e)
    with a A f1 show ?thesis by (simp add: file_attempt_unfold)
  next
    case (Inr i)
    with A have 1: "ok w1" "i \<in> live w1" "disk w1 = disk w" by auto
    obtain r2 w2 where s: "op_send ops i (buildRequest c) w1 = (r2, w2)" by (cases "op_send ops i (buildRequest c) w1")
    from send [OF 1(1,2) s] 1 have 2: "ok w2" "i \<in> live w2" "disk w2 = disk w" by (auto simp: same_leases_def)
    have f2: "refusing w2" using lasting(2) [OF f1, of i "buildRequest c"] s by simp
    obtain r3 w3 where h: "op_header ops i w2 = (r3, w3)" by (cases "op_header ops i w2")
    from header [OF 2(1,2) h] 2 have 3: "ok w3" "i \<in> live w3" "disk w3 = disk w" by (auto simp: same_leases_def)
    have f3: "refusing w3" using lasting(3) [OF f2, of i] h by simp
    have "r2 = None \<Longrightarrow> r3 = Inr st \<Longrightarrow> st < 200 \<or> 300 \<le> st" for st using refuses [OF f2] h by blast
    then show ?thesis
      using a s h Inr drop [OF 2(1,2)] drop [OF 3(1,2)] 2(3) 3(3) lasting(4) [OF f2] lasting(4) [OF f3]
      by (cases r2; cases r3) (simp_all add: file_attempt_unfold)
  qed
  moreover have "ok (snd (file_attempt ops c p w))"
    using file_balanced w(1) by (auto simp: balanced_def settled_def)
  ultimately show thesis using that by (cases "file_attempt ops c p w") auto
qed

lemma download_refused:
  assumes "ok w" and "refusing w"
  shows "disk (snd (retry_loop (file_attempt ops c p) n ec w)) = disk w
    \<and> (\<exists>e. fst (retry_loop (file_attempt ops c p) n ec w) = Inl e \<and> (0 < n \<longrightarrow> e \<noteq> None))"
  using assms
proof (induction n arbitrary: ec w)
  case (Suc n)
  obtain e w' where a: "file_attempt ops c p w = (Inl e, w')" "disk w' = disk w" "ok w'" "refusing w'"
    using file_attempt_refused [OF Suc.prems, of c p] by blast
  with Suc.IH [OF a(3,4), of "Some e"] show ?case by (cases n) auto
qed simp

end

section \<open>The client on the pool model\<close>

text \<open>
  The pool together with oracles for everything the network and the disk decide: each
  operation takes the next entry of its list, and an exhausted list gives an error. The
  client runs alone: a lease that must wait can only time out.
\<close>

record pool_world =
  pw_sys :: pool_sys
  pw_connect :: "error_code list"
  pw_send :: "error_code list"
  pw_recv :: "(errc + Response) list"
  pw_header :: "(errc + nat) list"
  pw_open :: "error_code list"
  pw_disk :: "(string \<times> string) list"

definition next_or :: "'a \<Rightarrow> 'a list \<Rightarrow> 'a" where
  "next_or d xs = (case xs of [] \<Rightarrow> d | x # _ \<Rightarrow> x)"

definition do_step :: "pool_action \<Rightarrow> pool_world \<Rightarrow> pool_world" where
  "do_step a w = (case pool_step a (pw_sys w) of Some s \<Rightarrow> w\<lparr>pw_sys := s\<rparr> | None \<Rightarrow> w)"

definition acquire_now :: "EndpointKey \<Rightarrow> pool_world \<Rightarrow> (errc + nat) \<times> pool_world" where
  "acquire_now k w =
     (let i = length (coros (pw_sys w));
          w = do_step (Iterate i) (do_step (Start k) w)
      in case coros (pw_sys w) ! i of
           Holding l \<Rightarrow> (Inr i, w)
         | Connecting _ _ _ \<Rightarrow>
             let ec = next_or (Some Connection_refused) (pw_connect w);
                 w = do_step (Connected i ec) (w\<lparr>pw_connect := tl (pw_connect w)\<rparr>)
             in (case ec of None \<Rightarrow> (Inr i, w) | Some e \<Rightarrow> (Inl e, w))
         | Waiting _ _ t \<Rightarrow> (Inl Timed_out, do_step (Wake i) (do_step (Expire t) w))
         | _ \<Rightarrow> (Inl Operation_canceled, w))"

definition pool_ops :: "(pool_world, Response) web_ops" where
  "pool_ops = \<lparr>op_acquire = acquire_now,
     op_markInvalid = (\<lambda>i. do_step (MarkInvalid i)),
     op_release = (\<lambda>i. do_step (Release i)),
     op_releaseClient = (\<lambda>i. do_step (ReleaseClient i)),
     op_send = (\<lambda>i m w. (next_or (Some Connection_reset) (pw_send w), w\<lparr>pw_send := tl (pw_send w)\<rparr>)),
     op_receive = (\<lambda>i w. (next_or (Inl End_of_file) (pw_recv w), w\<lparr>pw_recv := tl (pw_recv w)\<rparr>)),
     op_header = (\<lambda>i w. (next_or (Inl End_of_file) (pw_header w), w\<lparr>pw_header := tl (pw_header w)\<rparr>)),
     op_body = (\<lambda>i t w. (next_or (Inl End_of_file) (pw_recv w), w\<lparr>pw_recv := tl (pw_recv w)\<rparr>)),
     op_open = (\<lambda>p w. (case next_or (Some Invalid_argument) (pw_open w) of
         None \<Rightarrow> (None, w\<lparr>pw_open := tl (pw_open w), pw_disk := AList.update p [] (pw_disk w)\<rparr>)
       | Some e \<Rightarrow> (Some e, w\<lparr>pw_open := tl (pw_open w)\<rparr>))),
     keep_alive = res_keep_alive\<rparr>"

definition holds :: "coro \<Rightarrow> bool" where
  "holds c = (case c of Holding l \<Rightarrow> lease_client l \<noteq> None | _ \<Rightarrow> False)"

definition live_leases :: "pool_world \<Rightarrow> nat set" where
  "live_leases w = {i. i < length (coros (pw_sys w)) \<and> holds (coros (pw_sys w) ! i)}"

definition lease_at :: "pool_world \<Rightarrow> nat \<Rightarrow> PooledConnection" where
  "lease_at w i = (case coros (pw_sys w) ! i of Holding l \<Rightarrow> l | _ \<Rightarrow> Lease_empty)"

definition idle_at :: "pool_world \<Rightarrow> EndpointKey \<Rightarrow> nat" where
  "idle_at w k = length (idle (host (pool (pw_sys w)) k))"

lemma coros_do_step:
  "pool_step a (pw_sys w) = Some s \<Longrightarrow> do_step a w = w\<lparr>pw_sys := s\<rparr>"
  by (simp add: do_step_def)

lemma do_step_frame [simp]:
  "pw_connect (do_step a w) = pw_connect w" "pw_send (do_step a w) = pw_send w"
  "pw_recv (do_step a w) = pw_recv w" "pw_header (do_step a w) = pw_header w"
  "pw_open (do_step a w) = pw_open w" "pw_disk (do_step a w) = pw_disk w"
  by (simp_all add: do_step_def split: option.split)

lemma do_step_count:
  "inv_count cfg (pw_sys w) \<Longrightarrow> a \<noteq> Clear \<Longrightarrow> inv_count cfg (pw_sys (do_step a w))"
  by (auto simp: do_step_def split: option.split intro: inv_count_step)

lemma live_set:
  assumes "coros (pw_sys w') = (coros (pw_sys w))[i := c]" and "i < length (coros (pw_sys w))"
  shows "live_leases w' = (live_leases w - {i}) \<union> (if holds c then {i} else {})"
  using assms by (auto simp: live_leases_def nth_list_update)

lemma live_snoc:
  assumes "coros (pw_sys w') = coros (pw_sys w) @ [c]"
  shows "live_leases w' = live_leases w \<union> (if holds c then {length (coros (pw_sys w))} else {})"
  using assms by (auto simp: live_leases_def nth_append less_Suc_eq)

lemma liveE:
  assumes "i \<in> live_leases w"
  obtains l c where "i < length (coros (pw_sys w))" "coros (pw_sys w) ! i = Holding l" "lease_client l = Some c"
  using assms by (auto simp: live_leases_def holds_def split: coro.splits)

lemma acquire_iter_result:
  assumes "acquire_iter k t0 p = (c, p')"
  obtains cl where "c = Holding (Lease k cl)" | cl where "c = Connecting k t0 cl"
    | "c = Waiting k t0 (next_timer p)" "timers p' (next_timer p) = Pending"
  using assms by (cases rule: acquire_iter_cases) (auto simp: pool_simps)

lemma acquire_now_laws:
  assumes inv: "inv_count cfg (pw_sys w)" and a: "acquire_now k w = (r, w')"
  shows "inv_count cfg (pw_sys w') \<and> pw_disk w' = pw_disk w \<and> (case r of
     Inl e \<Rightarrow> live_leases w' = live_leases w
   | Inr i \<Rightarrow> i \<notin> live_leases w \<and> live_leases w' = insert i (live_leases w)
       \<and> lease_valid (lease_at w' i) \<and> lease_key (lease_at w' i) = k)"
proof -
  let ?cs = "coros (pw_sys w)"
  let ?i = "length ?cs"
  obtain c p where it: "acquire_iter k (clock (pw_sys w)) (pool (pw_sys w)) = (c, p)"
    by (cases "acquire_iter k (clock (pw_sys w)) (pool (pw_sys w))")
  let ?w2 = "do_step (Iterate ?i) (do_step (Start k) w)"
  have s2: "pw_sys ?w2 = (pw_sys w)\<lparr>coros := ?cs @ [c], pool := p\<rparr>"
    by (simp add: do_step_def pool_step_def it)
  have fresh: "?i \<notin> live_leases w" by (simp add: live_leases_def)
  have i2: "inv_count cfg (pw_sys ?w2)" by (intro do_step_count inv) simp_all
  have l2: "live_leases ?w2 = live_leases w \<union> (if holds c then {?i} else {})"
    by (rule live_snoc) (simp add: s2)
  from it show ?thesis
  proof (cases rule: acquire_iter_result)
    case (1 cl)
    then have "r = Inr ?i" "w' = ?w2" using a s2 by (simp_all add: acquire_now_def Let_def)
    with i2 l2 fresh 1 s2 show ?thesis by (auto simp: holds_def Lease_def lease_at_def)
  next
    case (2 cl)
    let ?ec = "next_or (Some Connection_refused) (pw_connect w)"
    let ?w3 = "do_step (Connected ?i ?ec) (?w2\<lparr>pw_connect := tl (pw_connect w)\<rparr>)"
    have w': "w' = ?w3" and r: "r = (case ?ec of None \<Rightarrow> Inr ?i | Some e \<Rightarrow> Inl e)"
      using a s2 2 by (auto simp: acquire_now_def Let_def split: option.splits)
    have i3: "inv_count cfg (pw_sys ?w3)" by (rule do_step_count) (use i2 in simp_all)
    let ?c3 = "case ?ec of None \<Rightarrow> Holding (Lease k cl) | Some e \<Rightarrow> Failed e"
    have c3: "coros (pw_sys ?w3) = ?cs @ [?c3]"
      using 2 by (simp add: do_step_def pool_step_def it split: option.split)
    have "live_leases ?w3 = live_leases w \<union> (if holds ?c3 then {?i} else {})"
      by (rule live_snoc [OF c3])
    with i3 fresh c3 show ?thesis
      by (cases ?ec) (auto simp: w' r holds_def Lease_def lease_at_def)
  next
    case 3
    let ?t = "next_timer (pool (pw_sys w))"
    let ?w4 = "do_step (Wake ?i) (do_step (Expire ?t) ?w2)"
    have w': "w' = ?w4" and r: "r = Inl Timed_out"
      using a s2 3 by (simp_all add: acquire_now_def Let_def)
    have i4: "inv_count cfg (pw_sys ?w4)" by (rule do_step_count [OF do_step_count [OF i2]]) simp_all
    have c4: "coros (pw_sys ?w4) = ?cs @ [Failed Timed_out]"
      using 3 by (simp add: do_step_def pool_step_def it waitForAvailableSlot_done_def)
    from live_snoc [OF c4] i4 show ?thesis by (simp add: w' r holds_def)
  qed
qed

interpretation wp: web_pool pool_ops "\<lambda>w. inv_count cfg (pw_sys w)" live_leases
  "\<lambda>w i. lease_valid (lease_at w i)" "\<lambda>w i. lease_key (lease_at w i)" idle_at pw_disk for cfg
proof
  fix w w' :: pool_world and k r
  assume "inv_count cfg (pw_sys w)" and "op_acquire pool_ops k w = (r, w')"
  then show "inv_count cfg (pw_sys w') \<and> pw_disk w' = pw_disk w \<and> (case r of
     Inl e \<Rightarrow> live_leases w' = live_leases w
   | Inr i \<Rightarrow> i \<notin> live_leases w \<and> live_leases w' = insert i (live_leases w)
       \<and> lease_valid (lease_at w' i) \<and> lease_key (lease_at w' i) = k)"
    by (intro acquire_now_laws) (simp_all add: pool_ops_def)
next
  fix w i
  assume inv: "inv_count cfg (pw_sys w)" and live: "i \<in> live_leases w"
  from live obtain l c where i: "i < length (coros (pw_sys w))" "coros (pw_sys w) ! i = Holding l"
    "lease_client l = Some c" by (rule liveE)
  have lp: "lease_pool l"
    using inv_count_wf_nth [OF inv i(1)] i(2,3) by (simp add: lease_wf_def)
  have pos: "0 < activeCount (host (pool (pw_sys w)) (lease_key l))"
    using in_use_positive [OF i(1), of "lease_key l"] inv_countD(2) [OF inv] i(2,3) by (simp add: uses_def)
  let ?off = "l\<lparr>lease_pool := False, lease_client := None, lease_valid := False\<rparr>"
  {
    have s: "pw_sys (do_step (MarkInvalid i) w) =
        (pw_sys w)\<lparr>coros := (coros (pw_sys w))[i := Holding (markInvalid l)]\<rparr>"
      using i by (simp add: do_step_def pool_step_def)
    have "live_leases (do_step (MarkInvalid i) w) = live_leases w"
      using live_set [of "do_step (MarkInvalid i) w" w i "Holding (markInvalid l)"] i live
      by (auto simp: s holds_def markInvalid_def)
    then show "inv_count cfg (pw_sys (op_markInvalid pool_ops i w)) \<and>
        pw_disk (op_markInvalid pool_ops i w) = pw_disk w \<and>
        live_leases (op_markInvalid pool_ops i w) = live_leases w \<and>
        idle_at (op_markInvalid pool_ops i w) = idle_at w \<and>
        \<not> lease_valid (lease_at (op_markInvalid pool_ops i w) i) \<and>
        lease_key (lease_at (op_markInvalid pool_ops i w) i) = lease_key (lease_at w i)"
      using do_step_count [OF inv, of "MarkInvalid i"] i
      by (auto simp: pool_ops_def s idle_at_def lease_at_def markInvalid_def)
  }
  {
    have s: "pw_sys (do_step (Release i) w) = (pw_sys w)\<lparr>
        pool := returnConnection (lease_key l) (Some c) (lease_valid l) (clock (pw_sys w)) (pool (pw_sys w)),
        coros := (coros (pw_sys w))[i := Holding ?off]\<rparr>"
      using i lp by (simp add: do_step_def pool_step_def release_def)
    have "live_leases (do_step (Release i) w) = live_leases w - {i}"
      using live_set [of "do_step (Release i) w" w i "Holding ?off"] i by (simp add: s holds_def)
    then show "inv_count cfg (pw_sys (op_release pool_ops i w)) \<and>
        pw_disk (op_release pool_ops i w) = pw_disk w \<and>
        live_leases (op_release pool_ops i w) = live_leases w - {i} \<and>
        idle_at (op_release pool_ops i w) (lease_key (lease_at w i)) =
          idle_at w (lease_key (lease_at w i)) + (if lease_valid (lease_at w i) then 1 else 0)"
      using do_step_count [OF inv, of "Release i"] i
      by (simp add: pool_ops_def s idle_at_def lease_at_def host_returnConnection [OF pos] returned_def)
  }
  {
    let ?w1 = "do_step (ReleaseClient i) w"
    have s: "pw_sys ?w1 = (pw_sys w)\<lparr>
        pool := returnConnection (lease_key l) None False (clock (pw_sys w)) (pool (pw_sys w)),
        coros := (coros (pw_sys w))[i := Holding ?off], detached := detached (pw_sys w) @ [c]\<rparr>"
      using i lp by (simp add: do_step_def pool_step_def releaseClient_def)
    have s2: "pw_sys (do_step (Release i) ?w1) = (pw_sys ?w1)\<lparr>coros := (coros (pw_sys w))[i := Holding ?off]\<rparr>"
      using i by (simp add: do_step_def [of "Release i"] pool_step_def s release_def)
    have "live_leases (do_step (Release i) ?w1) = live_leases w - {i}"
      using live_set [of "do_step (Release i) ?w1" w i "Holding ?off"] i by (simp add: s2 holds_def)
    then show "inv_count cfg (pw_sys (op_release pool_ops i (op_releaseClient pool_ops i w))) \<and>
        pw_disk (op_release pool_ops i (op_releaseClient pool_ops i w)) = pw_disk w \<and>
        live_leases (op_release pool_ops i (op_releaseClient pool_ops i w)) = live_leases w - {i} \<and>
        idle_at (op_release pool_ops i (op_releaseClient pool_ops i w)) = idle_at w"
      using do_step_count [OF do_step_count [OF inv, of "ReleaseClient i"], of "Release i"]
      by (auto simp: pool_ops_def s s2 idle_at_def host_returnConnection [OF pos] returned_def fun_eq_iff)
  }
qed (auto simp: pool_ops_def same_leases_def live_leases_def lease_at_def idle_at_def split: option.splits)

definition no_success :: "errc + nat \<Rightarrow> bool" where
  "no_success h = (case h of Inr st \<Rightarrow> st < 200 \<or> 300 \<le> st | Inl _ \<Rightarrow> True)"

lemma acquire_now_header: "pw_header (snd (acquire_now k w)) = pw_header w"
  by (simp add: acquire_now_def Let_def split: coro.split option.split)

interpretation wr: refusing_server pool_ops "\<lambda>w. inv_count cfg (pw_sys w)" live_leases
  "\<lambda>w i. lease_valid (lease_at w i)" "\<lambda>w i. lease_key (lease_at w i)" idle_at pw_disk
  "\<lambda>w. list_all no_success (pw_header w)" for cfg
proof
  fix w w' :: pool_world and i st
  assume "list_all no_success (pw_header w)" and "op_header pool_ops i w = (Inr st, w')"
  then show "st < 200 \<or> 300 \<le> st"
    by (cases "pw_header w") (auto simp: pool_ops_def next_or_def no_success_def)
next
  fix w :: pool_world and k i
  assume *: "list_all no_success (pw_header w)"
  show "list_all no_success (pw_header (snd (op_acquire pool_ops k w)))"
    using * by (simp add: pool_ops_def acquire_now_header)
  show "list_all no_success (pw_header (snd (op_send pool_ops i m w)))" for m
    using * by (simp add: pool_ops_def)
  show "list_all no_success (pw_header (snd (op_header pool_ops i w)))"
    using * by (cases "pw_header w") (simp_all add: pool_ops_def)
  show "list_all no_success (pw_header (drop_lease pool_ops i w))"
    using * by (simp add: pool_ops_def drop_lease_def)
qed

section \<open>Properties of the executors\<close>

text \<open>A fresh world for the examples: a pool with one connection per host, and the given oracles.\<close>

definition world1 :: "error_code list \<Rightarrow> error_code list \<Rightarrow> (errc + Response) list \<Rightarrow> (errc + nat) list
    \<Rightarrow> error_code list \<Rightarrow> pool_world" where
  "world1 cs ss rs hs os = \<lparr>pw_sys = sys_init cfg1, pw_connect = cs, pw_send = ss, pw_recv = rs,
     pw_header = hs, pw_open = os, pw_disk = []\<rparr>"

text \<open>
  No executor leaks a lease on the pool model. From every state of the pool reachable without \<open>clear\<close>, and
  whatever the network does on each attempt (connect, send, header or body failing or not,
  refused statuses, file errors), the string, file, buffer and streaming executors end with
  exactly the live leases they started with.
\<close>

theorem executors_return_leases:
  assumes "reachable (\<lambda>s. s = sys_init cfg) pool_trans_noclear (pw_sys w)"
  shows "live_leases (snd (execute_pair pool_ops c w)) = live_leases w
    \<and> live_leases (snd (execute_file pool_ops c p w)) = live_leases w
    \<and> live_leases (snd (execute_buffer pool_ops c w)) = live_leases w
    \<and> live_leases (snd (executeAsStream pool_ops c w)) = live_leases w"
  using wp.executors_settled [OF pc.reachable_inv [OF assms]] by (simp add: wp.settled_def)

theorem executors_return_leases_witness:
  "live_leases (snd (execute_file pool_ops WebClient_tcp ''fw'' (world1 [None] [None] [] [Inr 404] []))) = {}"
proof -
  let ?w = "world1 [None] [None] [] [Inr 404] []"
  have "reachable (\<lambda>s. s = sys_init cfg1) pool_trans_noclear (pw_sys ?w)"
    by (rule reach_init) (simp add: world1_def)
  from executors_return_leases [OF this, of WebClient_tcp "''fw''"] show ?thesis
    by (simp add: live_leases_def world1_def sys_init_def)
qed

text \<open>
  Keep-alive decides reuse. After a successful exchange the leased connection is put back
  among the idle connections of its endpoint exactly when both the response and the request
  ask for it; otherwise it is dropped.
\<close>

theorem keep_alive_pools_connection:
  assumes "reachable (\<lambda>s. s = sys_init cfg) pool_trans_noclear (pw_sys w)"
    and "string_attempt pool_ops c (\<lambda>res w. (res, w)) w = (Inr res, w')"
  shows "\<exists>i w1. op_acquire pool_ops (getEndpoint c) w = (Inr i, w1)
    \<and> idle_at w' (getEndpoint c) = idle_at w1 (getEndpoint c)
        + (if res_keep_alive res \<and> wr_keepAlive (wc_request c) then 1 else 0)
    \<and> live_leases w' = live_leases w"
proof -
  note ok = pc.reachable_inv [OF assms(1)]
  from wp.string_attempt_pools [OF ok assms(2)] obtain i w1 where
    "op_acquire pool_ops (getEndpoint c) w = (Inr i, w1)"
    "idle_at w' (getEndpoint c) = idle_at w1 (getEndpoint c)
       + (if keep_alive pool_ops res \<and> wr_keepAlive (wc_request c) then 1 else 0)" by blast
  moreover have "live_leases w' = live_leases w"
    using wp.balancedD [OF wp.string_balanced [OF wp.balanced_result] ok assms(2)]
    by (simp add: wp.settled_def)
  ultimately show ?thesis by (auto simp: pool_ops_def)
qed

definition resp200 :: Response where
  "resp200 = \<lparr>res_status = 200, res_version = 11, res_type = ''text/plain'', res_keep_alive = True, res_body = ''ok''\<rparr>"

theorem keep_alive_pools_connection_witness:
  "\<exists>w'. string_attempt pool_ops WebClient_tcp (\<lambda>res w. (res, w)) (world1 [None] [None] [Inr resp200] [] [])
       = (Inr resp200, w') \<and> idle_at w' (EndpointKey [] ''443'') = 1"
proof -
  let ?w = "world1 [None] [None] [Inr resp200] [] []"
  let ?r = "string_attempt pool_ops WebClient_tcp (\<lambda>res w. (res, w)) ?w"
  have ini: "reachable (\<lambda>s. s = sys_init cfg1) pool_trans_noclear (pw_sys ?w)"
    by (rule reach_init) (simp add: world1_def)
  have r: "?r = (Inr resp200, snd ?r)"
  proof -
    have "fst ?r = Inr resp200" by code_simp
    then show ?thesis by (metis prod.collapse)
  qed
  have idle0: "idle_at (snd (op_acquire pool_ops (EndpointKey [] ''443'') ?w)) (EndpointKey [] ''443'') = 0"
    by code_simp
  have e: "getEndpoint WebClient_tcp = EndpointKey [] ''443''" by code_simp
  have k: "res_keep_alive resp200" "wr_keepAlive (wc_request WebClient_tcp)"
    by (simp_all add: resp200_def WebClient_tcp_def WebRequest_default_def)
  from keep_alive_pools_connection [OF ini r] e k idle0 have "idle_at (snd ?r) (EndpointKey [] ''443'') = 1"
    by auto
  with r show ?thesis by blast
qed

text \<open>
  A refused download writes nothing. If every response header of the session carries a
  status outside 200 to 299 (or cannot be read), the file executor returns an error after its attempts and
  the disk is exactly as it was, so an error page never ends up in the firmware file.
\<close>

theorem refused_download_writes_nothing:
  assumes "reachable (\<lambda>s. s = sys_init cfg) pool_trans_noclear (pw_sys w)"
    and "list_all no_success (pw_header w)"
  shows "pw_disk (snd (execute_file pool_ops c p w)) = pw_disk w
    \<and> (\<exists>e. fst (execute_file pool_ops c p w) = (Some e, p))"
proof -
  let ?l = "retry_loop (file_attempt pool_ops c p) (maxAttempts c) None w"
  have "0 < maxAttempts c" by (simp add: maxAttempts_def)
  with wr.download_refused [OF pc.reachable_inv [OF assms(1)] assms(2), of c p "maxAttempts c" None]
  obtain e where "fst ?l = Inl (Some e)" "pw_disk (snd ?l) = pw_disk w" by auto
  then show ?thesis by (cases ?l) (auto simp: execute_file_def)
qed

theorem refused_download_writes_nothing_witness:
  "\<exists>e. fst (execute_file pool_ops WebClient_tcp ''fw'' (world1 [None] [None] [] [Inr 302] [])) = (Some e, ''fw'')"
proof -
  let ?w = "world1 [None] [None] [] [Inr 302] []"
  have "reachable (\<lambda>s. s = sys_init cfg1) pool_trans_noclear (pw_sys ?w)"
    by (rule reach_init) (simp add: world1_def)
  from refused_download_writes_nothing [OF this, of WebClient_tcp "''fw''"] show ?thesis
    by (simp add: world1_def no_success_def)
qed

text \<open>A loop that also counts how often it calls the attempt.\<close>

definition counted :: "('w \<Rightarrow> (errc + 'a) \<times> 'w) \<Rightarrow> 'w \<times> nat \<Rightarrow> (errc + 'a) \<times> 'w \<times> nat" where
  "counted f wn = (case wn of (w, n) \<Rightarrow> case f w of (r, w') \<Rightarrow> (r, w', n + 1))"

lemma retry_counted:
  "\<exists>k \<le> n. retry_loop (counted f) n ec (w, m) =
      (fst (retry_loop f n ec w), snd (retry_loop f n ec w), m + k)
    \<and> (case fst (retry_loop f n ec w) of Inl e \<Rightarrow> k = n \<and> (0 < n \<longrightarrow> e \<noteq> None) | Inr _ \<Rightarrow> 0 < k)"
proof (induction n arbitrary: ec w m)
  case (Suc n)
  obtain r w' where f: "f w = (r, w')" by (cases "f w")
  show ?case
  proof (cases r)
    case (Inr a)
    then show ?thesis using f by (intro exI [of _ 1]) (simp add: counted_def)
  next
    case (Inl e)
    from Suc.IH [of "Some e" w' "m + 1"] obtain k where k: "k \<le> n"
      "retry_loop (counted f) n (Some e) (w', m + 1) =
        (fst (retry_loop f n (Some e) w'), snd (retry_loop f n (Some e) w'), m + 1 + k)"
      "case fst (retry_loop f n (Some e) w') of Inl e \<Rightarrow> k = n \<and> (0 < n \<longrightarrow> e \<noteq> None) | Inr _ \<Rightarrow> 0 < k" by blast
    have cw: "counted f (w, m) = (Inl e, w', m + 1)" using f Inl by (simp add: counted_def)
    show ?thesis
      using k f Inl cw by (intro exI [of _ "Suc k"]) (cases n; auto split: sum.splits)
  qed
qed simp

text \<open>
  The retry policy. Whatever one attempt does, the loop makes at least one and at most
  max(1, maxTries) attempts, for any configured number of tries, negative ones included;
  when it gives up it has made all of them and reports an error, never success.
\<close>

theorem retry_policy:
  "\<exists>k. retry_loop (counted attempt) (maxAttempts c) None (w, 0)
       = (fst (retry_loop attempt (maxAttempts c) None w), snd (retry_loop attempt (maxAttempts c) None w), k)
     \<and> 1 \<le> k \<and> int k \<le> max 1 (wc_maxTries c)
     \<and> (case fst (retry_loop attempt (maxAttempts c) None w) of
          Inl ec \<Rightarrow> int k = max 1 (wc_maxTries c) \<and> ec \<noteq> None
        | Inr _ \<Rightarrow> True)"
proof -
  have n: "0 < maxAttempts c" "int (maxAttempts c) = max 1 (wc_maxTries c)" by (simp_all add: maxAttempts_def)
  from retry_counted [of "maxAttempts c" attempt None w 0] obtain k where
    "k \<le> maxAttempts c"
    "retry_loop (counted attempt) (maxAttempts c) None (w, 0)
       = (fst (retry_loop attempt (maxAttempts c) None w), snd (retry_loop attempt (maxAttempts c) None w), k)"
    "case fst (retry_loop attempt (maxAttempts c) None w) of
       Inl e \<Rightarrow> k = maxAttempts c \<and> (0 < maxAttempts c \<longrightarrow> e \<noteq> None) | Inr _ \<Rightarrow> 0 < k" by auto
  with n show ?thesis by (intro exI [of _ k]) (auto split: sum.splits)
qed

section \<open>What the executors do, call by call\<close>
































section \<open>Client and server agree on the target\<close>

definition value_ok :: "string \<Rightarrow> bool" where
  "value_ok v \<longleftrightarrow> set v \<inter> {CHR ''?'', CHR ''&'', CHR ''='', CHR ''%'', CHR ''+''} = {}"

definition raw_token :: "string \<times> string \<Rightarrow> string" where
  "raw_token kv = fst kv @ ''='' @ snd kv"

lemma params_string_join: "params_string False ps = join (map raw_token ps) CHR ''&''"
  by (induction ps) (auto simp: join_def raw_token_def)

lemma parse_raw_tokens:
  "list_all (\<lambda>kv. key_ok (fst kv) \<and> value_ok (snd kv)) ps \<Longrightarrow> parse_params (map raw_token ps) = ps"
proof (induction ps)
  case (Cons kv ps)
  have "split (raw_token kv) CHR ''='' 0 = [fst kv, snd kv]"
    using Cons.prems
    by (simp add: HttpRouting.split_def raw_token_def key_ok_def value_ok_def pieces_first pieces_plain)
  moreover have "url_decode (snd kv) = snd kv"
    using Cons.prems by (intro url_decode_plain) (auto simp: value_ok_def)
  ultimately show ?case using Cons by (simp add: key_ok_def)
qed simp

lemma parse_built_target:
  assumes "CHR ''/'' \<in> set t" and "CHR ''?'' \<notin> set t"
    and "list_all (\<lambda>kv. key_ok (fst kv) \<and> value_ok (snd kv)) ps"
  shows "parse_function (t @ params_string True ps) = \<lparr>fn_name = t, fn_params = ps\<rparr>"
proof (cases ps)
  case Nil
  with assms(1,2) show ?thesis
    by (auto simp: parse_function_def HttpRouting.split_def pieces_plain)
next
  case (Cons kv rest)
  let ?q = "tl (join (map raw_token ps) CHR ''&'')"
  have str: "params_string True ps = CHR ''?'' # ?q"
    using params_string_join [of rest] by (cases kv) (simp add: Cons join_def raw_token_def)
  have tok: "CHR ''?'' \<notin> set (raw_token x)" "CHR ''&'' \<notin> set (raw_token x)" if "x \<in> set ps" for x
    using assms(3) that by (auto simp: raw_token_def key_ok_def value_ok_def list_all_iff)
  then have "CHR ''?'' \<notin> set (join (map raw_token ps) CHR ''&'')" by (auto simp: join_def)
  then have "CHR ''?'' \<notin> set ?q" by (metis list.set_sel(2) tl_Nil)
  then have "split (t @ CHR ''?'' # ?q) CHR ''?'' 0 = [t, ?q]"
    using assms(2) by (simp add: HttpRouting.split_def pieces_first pieces_plain)
  moreover have "?q \<noteq> []" using Cons by (simp add: join_def raw_token_def)
  moreover have "pieces CHR ''&'' ?q = map raw_token ps"
    using tok(2) Cons by (intro pieces_join) auto
  ultimately show ?thesis
    using assms(1) parse_raw_tokens [OF assms(3)]
    by (simp add: str parse_function_def HttpRouting.split_def [of ?q])
qed

text \<open>
  Client and server agree. The target that \<open>buildRequest\<close> produces is parsed by the
  server's \<open>parse_function\<close> back into the client's path and parameters, in order, as long as names and values
  contain none of the characters with a meaning in a query.
\<close>

theorem client_server_target:
  assumes "CHR ''/'' \<in> set (wr_target (wc_request c))" and "CHR ''?'' \<notin> set (wr_target (wc_request c))"
    and "list_all (\<lambda>kv. key_ok (fst kv) \<and> value_ok (snd kv)) (wr_params (wc_request c))"
  shows "parse_function (msg_target (buildRequest c)) =
    \<lparr>fn_name = wr_target (wc_request c), fn_params = wr_params (wc_request c)\<rparr>"
  using parse_built_target [OF assms] by (simp add: buildRequest_def Let_def)

theorem client_server_target_witness:
  "parse_function (msg_target (buildRequest (withParams [(''q'', ''7''), (''r'', ''x'')] (withTarget ''/a/b'' WebClient_tcp))))
   = \<lparr>fn_name = ''/a/b'', fn_params = [(''q'', ''7''), (''r'', ''x'')]\<rparr>"
  using client_server_target [of "withParams [(''q'', ''7''), (''r'', ''x'')] (withTarget ''/a/b'' WebClient_tcp)"]
  by (simp add: withParams_def withTarget_def key_ok_def value_ok_def)

text \<open>
  Parameter values are not escaped. A value with an ampersand reaches the server as two
  parameters: the client can send \<open>q = a&role=admin\<close> only as \<open>q = a\<close> and \<open>role = admin\<close>.
\<close>

theorem client_params_unescaped:
  "parse_function (msg_target (buildRequest (withParams [(''q'', ''a&role=admin'')] (withTarget ''/a'' WebClient_tcp))))
   = \<lparr>fn_name = ''/a'', fn_params = [(''q'', ''a''), (''role'', ''admin'')]\<rparr>"
  by code_simp

section \<open>The event mailbox\<close>

text \<open>
  \<open>SseStream\<close>: the slot, and the consumer, which is away, suspended on the timer, or woken by
  the cancellation and about to resume. \<open>cancel\<close> wakes the consumer only if it is suspended. \<open>posted\<close>
  and \<open>delivered\<close> record what went in and came out.
\<close>

datatype frame = Frame error_code string

datatype consumer = Away | Suspended | Woken

record SseStream =
  slot :: "frame option"
  consumer :: consumer
  posted :: "frame list"
  delivered :: "frame list"

definition SseStream_init :: SseStream where
  "SseStream_init = \<lparr>slot = None, consumer = Away, posted = [], delivered = []\<rparr>"

definition sse_post :: "frame \<Rightarrow> SseStream \<Rightarrow> SseStream" where
  "sse_post f s = s\<lparr>slot := Some f, consumer := (if consumer s = Suspended then Woken else consumer s),
     posted := posted s @ [f]\<rparr>"

text \<open>\<open>next\<close> first suspends on the timer, whatever the slot holds, and takes the frame when resumed.\<close>

definition sse_next_start :: "SseStream \<Rightarrow> SseStream option" where
  "sse_next_start s = (if consumer s = Away then Some (s\<lparr>consumer := Suspended\<rparr>) else None)"

definition sse_next_resume :: "SseStream \<Rightarrow> SseStream option" where
  "sse_next_resume s =
     (if consumer s = Woken then
        Some (case slot s of
                None \<Rightarrow> s\<lparr>consumer := Away, delivered := delivered s @ [Frame (Some End_of_file) []]\<rparr>
              | Some f \<Rightarrow> s\<lparr>consumer := Away, slot := None, delivered := delivered s @ [f]\<rparr>)
      else None)"

text \<open>The loop of \<open>frameProducer\<close>: the frames it posts for a sequence of reads.\<close>

fun producer_frames :: "(errc + string) list \<Rightarrow> frame list" where
  "producer_frames [] = []"
| "producer_frames (Inl e # rs) = [Frame (Some e) []]"
| "producer_frames (Inr d # rs) = Frame None d # producer_frames rs"

inductive sse_step :: "SseStream \<Rightarrow> SseStream \<Rightarrow> bool" where
  Post: "sse_step s (sse_post f s)"
| Suspend: "sse_next_start s = Some s' \<Longrightarrow> sse_step s s'"
| Resume: "sse_next_resume s = Some s' \<Longrightarrow> sse_step s s'"

inductive_cases sse_stepE: "sse_step s s'"

definition inv_sse :: "SseStream \<Rightarrow> bool" where
  "inv_sse s \<longleftrightarrow> subseq (delivered s @ (case slot s of None \<Rightarrow> [] | Some f \<Rightarrow> [f])) (posted s)
     \<and> (consumer s = Woken \<longrightarrow> slot s \<noteq> None)
     \<and> (\<forall>f. slot s = Some f \<longrightarrow> posted s \<noteq> [] \<and> last (posted s) = f)"

lemma subseq_front: "subseq (xs @ ys) zs \<Longrightarrow> subseq xs zs"
  by (rule subseq_order.trans [of _ "xs @ ys"]) (simp_all add: prefix_imp_subseq)

lemma inv_sse_step: "inv_sse s \<Longrightarrow> sse_step s s' \<Longrightarrow> inv_sse s'"
  by (auto simp: inv_sse_def sse_post_def sse_next_start_def sse_next_resume_def
      split: option.splits if_splits elim!: sse_stepE intro: subseq_front)

lemma inv_sse_init: "inv_sse SseStream_init"
  by (simp add: SseStream_init_def inv_sse_def)

interpretation se: invariant_system "\<lambda>s. s = SseStream_init" sse_step inv_sse
  by unfold_locales (simp_all add: inv_sse_init inv_sse_step)

text \<open>
  What the mailbox guarantees. In every interleaving of the producer and the consumer the
  frames delivered, followed by the one in the slot, are a subsequence of the frames posted: frames
  are never duplicated, reordered or invented, and the frame in the slot is the latest one. (A woken consumer always finds a frame.)
\<close>

theorem sse_delivers_subsequence:
  assumes "reachable (\<lambda>s. s = SseStream_init) sse_step s"
  shows "subseq (delivered s @ (case slot s of None \<Rightarrow> [] | Some f \<Rightarrow> [f])) (posted s)
    \<and> (consumer s = Woken \<longrightarrow> slot s = Some (last (posted s)))"
  using se.reachable_inv [OF assms] by (auto simp: inv_sse_def)

definition sse_run2 :: "frame \<Rightarrow> frame \<Rightarrow> SseStream option" where
  "sse_run2 f g =
     (case sse_next_start SseStream_init of
        None \<Rightarrow> None
      | Some s \<Rightarrow> (case sse_next_resume (sse_post f s) of None \<Rightarrow> None | Some s \<Rightarrow> Some (sse_post g s)))"

theorem sse_delivers_subsequence_witness:
  "\<exists>s. sse_run2 (Frame None ''a'') (Frame None ''b'') = Some s
     \<and> subseq (delivered s @ [Frame None ''b'']) [Frame None ''a'', Frame None ''b'']"
proof -
  let ?f = "Frame None ''a''" and ?g = "Frame None ''b''"
  let ?s1 = "SseStream_init\<lparr>consumer := Suspended\<rparr>"
  let ?s3 = "(sse_post ?f ?s1)\<lparr>consumer := Away, slot := None, delivered := [?f]\<rparr>"
  have 1: "sse_next_start SseStream_init = Some ?s1" by (simp add: sse_next_start_def SseStream_init_def)
  have 3: "sse_next_resume (sse_post ?f ?s1) = Some ?s3"
    by (simp add: sse_next_resume_def sse_post_def SseStream_init_def)
  let ?R = "reachable (\<lambda>s. s = SseStream_init) sse_step"
  have "?R SseStream_init" by (simp add: reach_init)
  then have "?R ?s1" by (rule reach_step) (rule Suspend [OF 1])
  then have "?R (sse_post ?f ?s1)" by (rule reach_step) (rule Post)
  then have "?R ?s3" by (rule reach_step) (rule Resume [OF 3])
  then have "?R (sse_post ?g ?s3)" by (rule reach_step) (rule Post)
  note sub = sse_delivers_subsequence [OF this]
  have "sse_run2 ?f ?g = Some (sse_post ?g ?s3)" by (simp only: sse_run2_def 1 3 option.case)
  moreover have "slot (sse_post ?g ?s3) = Some ?g" "posted (sse_post ?g ?s3) = [?f, ?g]"
    by (simp_all add: sse_post_def SseStream_init_def)
  ultimately show ?thesis using sub by (metis option.simps(5))
qed

text \<open>
  Frames can be lost and the consumer can sleep on a full mailbox. A frame posted before
  the consumer calls \<open>next\<close> does not wake it: it suspends with the frame in the slot. The next frame
  overwrites that one, and the consumer receives only the second.
\<close>

theorem sse_frame_lost:
  "sse_next_start (sse_post f SseStream_init) =
     Some \<lparr>slot = Some f, consumer = Suspended, posted = [f], delivered = []\<rparr>
   \<and> sse_next_resume \<lparr>slot = Some f, consumer = Suspended, posted = [f], delivered = []\<rparr> = None
   \<and> map_option delivered
       (sse_next_resume (sse_post g \<lparr>slot = Some f, consumer = Suspended, posted = [f], delivered = []\<rparr>))
     = Some [g]"
  by (simp add: sse_next_start_def sse_next_resume_def sse_post_def SseStream_init_def)

end
