(* ===== verification/TaskQueue.thy ===== *)
theory TaskQueue
  imports Prelude "HOL-Library.Multiset"
begin

text \<open>
  The task queue, \<open>src/include/taskqueue.hpp\<close>: tasks waiting in a deque, the client connections
  that run them, and the coroutines (\<open>processTasks\<close>, \<open>getTask\<close>, \<open>getAvailableClient\<close>,
  \<open>tryConnect\<close>, \<open>handleTask\<close>) cut at their suspension points. A spawned coroutine may start
  at any later time. A task holds a reference to its client; a use of a client that has been
  removed in the meantime is recorded in \<open>tq_dangling\<close>.
\<close>

section \<open>State\<close>

record Client =
  cl_id :: nat
  cl_available :: bool
  cl_open :: bool

text \<open>
  \<open>Process\<close>: a spawned \<open>processTasks\<close>. \<open>ConnectTry c i\<close>: inside \<open>tryConnect\<close> with attempt \<open>i\<close> under way
  for the new client \<open>c\<close>, which is not in the vector yet. \<open>Backoff\<close>: waiting five seconds before
  trying again. \<open>Handle t c\<close>: a spawned \<open>handleTask\<close>. \<open>Running t c\<close>: suspended in the task.
\<close>

datatype 't tq_coro =
    Process
  | ConnectTry nat nat
  | Backoff
  | Handle 't nat
  | Running 't nat
  | Ended

record 't TaskQueue =
  taskHandlers :: "'t list"
  clients :: "Client list"
  endPointSet :: bool
  maxClients :: nat
  tq_coros :: "'t tq_coro list"
  tq_next :: nat
  tq_finished :: "'t list"
  tq_dangling :: bool

definition maxRetryCount :: nat where "maxRetryCount = 3"

definition TaskQueue_init :: "nat \<Rightarrow> bool \<Rightarrow> 't TaskQueue" where
  "TaskQueue_init n ep = \<lparr>taskHandlers = [], clients = [], endPointSet = ep, maxClients = n, tq_coros = [],
     tq_next = 0, tq_finished = [], tq_dangling = False\<rparr>"

section \<open>Operations\<close>

definition spawn :: "'t tq_coro \<Rightarrow> 't TaskQueue \<Rightarrow> 't TaskQueue" where
  "spawn c q = q\<lparr>tq_coros := tq_coros q @ [c]\<rparr>"

text \<open>
  Of the end point only whether it is set (\<open>!url.empty()\<close>) is kept: the url and the port reach
  nothing but \<open>connect\<close>, whose outcome is chosen by the environment.
\<close>

definition setEndPoint :: "string \<Rightarrow> string \<Rightarrow> 't TaskQueue \<Rightarrow> 't TaskQueue" where
  "setEndPoint url port q = spawn Process (q\<lparr>endPointSet := (url \<noteq> [])\<rparr>)"

definition addTask :: "'t \<Rightarrow> bool \<Rightarrow> 't TaskQueue \<Rightarrow> 't TaskQueue" where
  "addTask t front q =
     (let processNow = length (taskHandlers q) < maxClients q;
          q = q\<lparr>taskHandlers := (if front then t # taskHandlers q else taskHandlers q @ [t])\<rparr>
      in if processNow then spawn Process q else q)"

definition set_available :: "nat \<Rightarrow> bool \<Rightarrow> Client list \<Rightarrow> Client list" where
  "set_available c b = map (\<lambda>cl. if cl_id cl = c then cl\<lparr>cl_available := b\<rparr> else cl)"

text \<open>\<open>Client::acquire\<close> and \<open>release\<close> through a reference: the object may be gone.\<close>

definition touch_client :: "nat \<Rightarrow> bool \<Rightarrow> 't TaskQueue \<Rightarrow> 't TaskQueue" where
  "touch_client c b q =
     (if c \<in> cl_id ` set (clients q) then q\<lparr>clients := set_available c b (clients q)\<rparr>
      else q\<lparr>tq_dangling := True\<rparr>)"

definition getFreeClient :: "'t TaskQueue \<Rightarrow> nat option" where
  "getFreeClient q = map_option cl_id (List.find cl_available (clients q))"

definition removeClient :: "nat \<Rightarrow> 't TaskQueue \<Rightarrow> 't TaskQueue" where
  "removeClient c q = q\<lparr>clients := filter cl_open (filter (\<lambda>cl. cl_id cl \<noteq> c) (clients q))\<rparr>"

text \<open>The end of \<open>getTask\<close> with a client in hand, and what \<open>processTasks\<close> does with its result.\<close>

definition dispatch :: "nat \<Rightarrow> nat \<Rightarrow> 't TaskQueue \<Rightarrow> 't TaskQueue" where
  "dispatch i c q =
     (case taskHandlers q of
        [] \<Rightarrow> (touch_client c True q)\<lparr>tq_coros := (tq_coros q)[i := Backoff]\<rparr>
      | t # ts \<Rightarrow> spawn (Handle t c) (q\<lparr>taskHandlers := ts, tq_coros := (tq_coros q)[i := Ended]\<rparr>))"

text \<open>\<open>processTasks\<close> up to its first suspension.\<close>

definition run_process :: "nat \<Rightarrow> 't TaskQueue \<Rightarrow> 't TaskQueue" where
  "run_process i q =
     (if \<not> endPointSet q \<or> taskHandlers q = [] then q\<lparr>tq_coros := (tq_coros q)[i := Ended]\<rparr>
      else
        (case getFreeClient q of
           Some c \<Rightarrow> dispatch i c (touch_client c False q)
         | None \<Rightarrow>
             if length (clients q) < maxClients q
             then q\<lparr>tq_coros := (tq_coros q)[i := ConnectTry (tq_next q) 0], tq_next := tq_next q + 1\<rparr>
             else q\<lparr>tq_coros := (tq_coros q)[i := Backoff]\<rparr>))"

text \<open>The result of a connect attempt in \<open>tryConnect\<close>; the third failure gives up.\<close>

definition connect_done :: "nat \<Rightarrow> nat \<Rightarrow> nat \<Rightarrow> bool \<Rightarrow> 't TaskQueue \<Rightarrow> 't TaskQueue" where
  "connect_done i c n success q =
     (if success then
        dispatch i c (q\<lparr>clients := clients q @ [\<lparr>cl_id = c, cl_available = False, cl_open = True\<rparr>]\<rparr>)
      else if n + 1 < maxRetryCount then q\<lparr>tq_coros := (tq_coros q)[i := ConnectTry c (n + 1)]\<rparr>
      else q\<lparr>tq_coros := (tq_coros q)[i := Backoff]\<rparr>)"

text \<open>\<open>handleTask\<close> after the task returned.\<close>

definition handle_done :: "nat \<Rightarrow> 't \<Rightarrow> nat \<Rightarrow> bool \<Rightarrow> 't TaskQueue \<Rightarrow> 't TaskQueue" where
  "handle_done i t c success q =
     (let q = q\<lparr>tq_coros := (tq_coros q)[i := Ended], tq_finished := tq_finished q @ [t]\<rparr> in
      if success then
        (let q = touch_client c True q in
         case taskHandlers q of
           [] \<Rightarrow> q
         | t' # ts \<Rightarrow> spawn (Handle t' c) (q\<lparr>taskHandlers := ts\<rparr>))
      else spawn Process (removeClient c q))"

datatype 't tq_action =
    SetEndPoint string string
  | AddTask 't bool
  | RunProcess nat
  | ConnectDone nat bool
  | BackoffDone nat
  | HandleStart nat
  | CloseSocket nat
  | TaskDone nat bool

definition tq_step :: "'t tq_action \<Rightarrow> 't TaskQueue \<Rightarrow> 't TaskQueue option" where
  "tq_step a q =
     (case a of
        SetEndPoint url port \<Rightarrow> Some (setEndPoint url port q)
      | AddTask t front \<Rightarrow> Some (addTask t front q)
      | RunProcess i \<Rightarrow>
          (if i < length (tq_coros q) then
             (case tq_coros q ! i of Process \<Rightarrow> Some (run_process i q) | _ \<Rightarrow> None)
           else None)
      | ConnectDone i success \<Rightarrow>
          (if i < length (tq_coros q) then
             (case tq_coros q ! i of ConnectTry c n \<Rightarrow> Some (connect_done i c n success q) | _ \<Rightarrow> None)
           else None)
      | BackoffDone i \<Rightarrow>
          (if i < length (tq_coros q) then
             (case tq_coros q ! i of
                Backoff \<Rightarrow> Some (spawn Process (q\<lparr>tq_coros := (tq_coros q)[i := Ended]\<rparr>))
              | _ \<Rightarrow> None)
           else None)
      | HandleStart i \<Rightarrow>
          (if i < length (tq_coros q) then
             (case tq_coros q ! i of
                Handle t c \<Rightarrow> Some (touch_client c False (q\<lparr>tq_coros := (tq_coros q)[i := Running t c]\<rparr>))
              | _ \<Rightarrow> None)
           else None)
      | CloseSocket i \<Rightarrow>
          (if i < length (tq_coros q) then
             (case tq_coros q ! i of
                Running t c \<Rightarrow> Some (q\<lparr>clients := map (\<lambda>cl. if cl_id cl = c then cl\<lparr>cl_open := False\<rparr> else cl) (clients q)\<rparr>)
              | _ \<Rightarrow> None)
           else None)
      | TaskDone i success \<Rightarrow>
          (if i < length (tq_coros q) then
             (case tq_coros q ! i of Running t c \<Rightarrow> Some (handle_done i t c success q) | _ \<Rightarrow> None)
           else None))"

fun tq_run :: "'t tq_action list \<Rightarrow> 't TaskQueue \<Rightarrow> 't TaskQueue option" where
  "tq_run [] q = Some q"
| "tq_run (a # as) q = (case tq_step a q of None \<Rightarrow> None | Some q' \<Rightarrow> tq_run as q')"

section \<open>No task is lost\<close>

text \<open>The tasks a coroutine carries, and all tasks that are waiting or under way.\<close>

definition coro_task :: "'t tq_coro \<Rightarrow> 't multiset" where
  "coro_task c = (case c of Handle t _ \<Rightarrow> {#t#} | Running t _ \<Rightarrow> {#t#} | _ \<Rightarrow> {#})"

definition pending :: "'t TaskQueue \<Rightarrow> 't multiset" where
  "pending q = mset (taskHandlers q) + sum_list (map coro_task (tq_coros q))"

lemma sum_list_upd:
  fixes f :: "'a \<Rightarrow> 'b multiset"
  assumes "i < length xs"
  shows "sum_list (map f (xs[i := y])) + f (xs ! i) = sum_list (map f xs) + f y"
  using assms
proof (induction xs arbitrary: i)
  case (Cons x xs)
  then show ?case by (cases i) (auto simp: ac_simps)
qed simp

lemma coros_upd_empty:
  assumes "i < length cs" and "coro_task (cs ! i) = {#}" and "coro_task c = {#}"
  shows "sum_list (map coro_task (cs[i := c])) = sum_list (map coro_task cs)"
  using sum_list_upd [OF assms(1), of coro_task c] assms(2,3) by simp

lemma pending_spawn [simp]: "pending (spawn c q) = pending q + coro_task c"
  by (simp add: pending_def spawn_def)

lemma coro_task_simps [simp]:
  "coro_task Process = {#}" "coro_task (ConnectTry c n) = {#}" "coro_task Backoff = {#}"
  "coro_task Ended = {#}" "coro_task (Handle t c) = {#t#}" "coro_task (Running t c) = {#t#}"
  by (simp_all add: coro_task_def)

lemma touch_frame [simp]:
  "taskHandlers (touch_client c b q) = taskHandlers q" "tq_coros (touch_client c b q) = tq_coros q"
  "tq_finished (touch_client c b q) = tq_finished q" "maxClients (touch_client c b q) = maxClients q"
  "endPointSet (touch_client c b q) = endPointSet q" "tq_next (touch_client c b q) = tq_next q"
  by (simp_all add: touch_client_def)

lemma pending_touch [simp]: "pending (touch_client c b q) = pending q"
  by (simp add: pending_def)

lemma pending_addTask: "pending (addTask t front q) = add_mset t (pending q)"
  by (simp add: addTask_def Let_def) (simp add: pending_def)

lemma pending_dispatch:
  assumes "i < length (tq_coros q)" and "coro_task (tq_coros q ! i) = {#}"
  shows "pending (dispatch i c q) = pending q" and "tq_finished (dispatch i c q) = tq_finished q"
  using coros_upd_empty [OF assms]
  by (auto simp: dispatch_def pending_def spawn_def split: list.split)

lemma pending_upd:
  assumes "i < length (tq_coros q)" and "coro_task (tq_coros q ! i) = {#}" and "coro_task c = {#}"
  shows "pending (q\<lparr>tq_coros := (tq_coros q)[i := c]\<rparr>) = pending q"
    and "pending (q\<lparr>tq_coros := (tq_coros q)[i := c], tq_next := n\<rparr>) = pending q"
  using coros_upd_empty [OF assms] by (simp_all add: pending_def)

lemma pending_frame [simp]: "pending (q\<lparr>clients := cs\<rparr>) = pending q"
  by (simp add: pending_def)

text \<open>The effect of every step on the tasks that are waiting or under way, and on those finished.\<close>

lemma pending_run_process:
  assumes "i < length (tq_coros q)" and "tq_coros q ! i = Process"
  shows "pending (run_process i q) = pending q \<and> tq_finished (run_process i q) = tq_finished q"
  using assms pending_dispatch [of i "touch_client c False q" for c]
  by (simp add: run_process_def pending_upd split: option.split)

lemma pending_connect_done:
  assumes "i < length (tq_coros q)" and "tq_coros q ! i = ConnectTry c n"
  shows "pending (connect_done i c n b q) = pending q \<and> tq_finished (connect_done i c n b q) = tq_finished q"
proof -
  let ?q = "q\<lparr>clients := clients q @ [\<lparr>cl_id = c, cl_available = False, cl_open = True\<rparr>]\<rparr>"
  show ?thesis
    using assms pending_dispatch [of i ?q c] by (simp add: connect_done_def pending_upd)
qed

lemma pending_handle_done:
  assumes "i < length (tq_coros q)" and "tq_coros q ! i = Running t c"
  shows "add_mset t (pending (handle_done i t c b q)) = pending q
    \<and> tq_finished (handle_done i t c b q) = tq_finished q @ [t]"
proof -
  let ?q = "q\<lparr>tq_coros := (tq_coros q)[i := Ended], tq_finished := tq_finished q @ [t]\<rparr>"
  have q: "add_mset t (pending ?q) = pending q"
    using sum_list_upd [OF assms(1), of coro_task Ended] assms(2) by (simp add: pending_def)
  show ?thesis
  proof (cases b)
    case True
    have "pending (handle_done i t c b q) = pending ?q"
      using True by (simp add: handle_done_def Let_def split: list.split) (auto simp: pending_def spawn_def)
    with q True show ?thesis by (simp add: handle_done_def Let_def spawn_def split: list.split)
  next
    case False
    then show ?thesis using q by (simp add: handle_done_def Let_def removeClient_def) (simp add: spawn_def)
  qed
qed

definition added :: "'t tq_action list \<Rightarrow> 't multiset" where
  "added as = sum_list (map (\<lambda>a. case a of AddTask t _ \<Rightarrow> {#t#} | _ \<Rightarrow> {#}) as)"

lemma tq_step_tasks:
  assumes "tq_step a q = Some q'"
  shows "pending q' + mset (tq_finished q') = pending q + mset (tq_finished q) + added [a]"
proof (cases a)
  case (SetEndPoint url port)
  then show ?thesis using assms
    by (auto simp: tq_step_def added_def setEndPoint_def pending_def spawn_def)
next
  case (AddTask t f)
  then show ?thesis using assms
    by (auto simp: tq_step_def added_def pending_addTask) (simp add: addTask_def Let_def spawn_def)
next
  case (RunProcess i)
  then show ?thesis using assms pending_run_process [of i q]
    by (auto simp: tq_step_def added_def split: if_splits tq_coro.splits)
next
  case (ConnectDone i b)
  then show ?thesis using assms pending_connect_done [of i q]
    by (auto simp: tq_step_def added_def split: if_splits tq_coro.splits)
next
  case (BackoffDone i)
  then show ?thesis using assms
    by (auto simp: tq_step_def added_def pending_upd split: if_splits tq_coro.splits) (simp add: spawn_def)
next
  case (HandleStart i)
  then show ?thesis using assms sum_list_upd [of i "tq_coros q" coro_task]
    by (auto simp: tq_step_def added_def pending_def split: if_splits tq_coro.splits)
       (metis add_mset_add_single add_right_cancel coro_task_simps(5,6))
next
  case (CloseSocket i)
  then show ?thesis using assms by (auto simp: tq_step_def added_def split: if_splits tq_coro.splits)
next
  case (TaskDone i b)
  then obtain t c where "i < length (tq_coros q)" "tq_coros q ! i = Running t c" "q' = handle_done i t c b q"
    using assms by (auto simp: tq_step_def split: if_splits tq_coro.splits)
  with pending_handle_done [of i q t c b] TaskDone show ?thesis by (auto simp: added_def)
qed

text \<open>Steps other than adding a task and finishing one leave both groups of tasks alone.\<close>

lemma tq_step_internal:
  assumes st: "tq_step a q = Some q'" and a: "\<And>t f. a \<noteq> AddTask t f" "\<And>i b. a \<noteq> TaskDone i b"
  shows "pending q' = pending q" and "tq_finished q' = tq_finished q"
proof -
  show fin: "tq_finished q' = tq_finished q"
  proof (cases a)
    case (RunProcess i)
    then show ?thesis using st pending_run_process [of i q]
      by (auto simp: tq_step_def split: if_splits tq_coro.splits)
  next
    case (ConnectDone i b)
    then show ?thesis using st pending_connect_done [of i q]
      by (auto simp: tq_step_def split: if_splits tq_coro.splits)
  next
    case (AddTask t f)
    then show ?thesis using a(1) by blast
  next
    case (TaskDone i b)
    then show ?thesis using a(2) by blast
  qed (use st in \<open>auto simp: tq_step_def setEndPoint_def spawn_def split: if_splits tq_coro.splits\<close>)
  have "added [a] = {#}" using a by (auto simp: added_def split: tq_action.split)
  with tq_step_tasks [OF st] fin show "pending q' = pending q" by simp
qed

section \<open>The queue does not stall\<close>

definition attended :: "'t TaskQueue \<Rightarrow> bool" where
  "attended q \<longleftrightarrow> 0 < maxClients q
     \<and> (endPointSet q \<and> taskHandlers q \<noteq> [] \<longrightarrow> (\<exists>c \<in> set (tq_coros q). c \<noteq> Ended))"

lemma attended_spawn: "0 < maxClients q \<Longrightarrow> c \<noteq> Ended \<Longrightarrow> attended (spawn c q)"
  by (auto simp: attended_def spawn_def)

lemma attended_set: "0 < maxClients q \<Longrightarrow> i < length (tq_coros q) \<Longrightarrow> c \<noteq> Ended
    \<Longrightarrow> tq_coros q' = (tq_coros q)[i := c] \<Longrightarrow> maxClients q' = maxClients q \<Longrightarrow> attended q'"
  by (auto simp: attended_def intro!: bexI [of _ c] set_update_memI)

lemma attended_upd:
  assumes "0 < maxClients q" and "i < length (tq_coros q)" and "c \<noteq> Ended"
  shows "attended (q\<lparr>tq_coros := (tq_coros q)[i := c]\<rparr>)"
    and "attended (q\<lparr>tq_coros := (tq_coros q)[i := c], tq_next := n\<rparr>)"
  by (rule attended_set [OF assms]; simp)+

lemma attended_dispatch:
  assumes "0 < maxClients q" and "i < length (tq_coros q)"
  shows "attended (dispatch i c q)"
proof (cases "taskHandlers q")
  case Nil
  then show ?thesis
    using assms by (intro attended_set [of q i Backoff]) (simp_all add: dispatch_def)
next
  case (Cons t ts)
  then show ?thesis using assms by (simp add: dispatch_def attended_spawn)
qed

lemma attended_handle_done:
  assumes "0 < maxClients q"
  shows "attended (handle_done i t c b q)"
proof -
  have "attended q'" if "0 < maxClients q'" "taskHandlers q' = []" for q' :: "'a TaskQueue"
    using that by (simp add: attended_def)
  with assms show ?thesis
    by (auto simp: handle_done_def Let_def removeClient_def split: list.split intro!: attended_spawn)
qed

lemma attended_step:
  assumes att: "attended q" and st: "tq_step a q = Some q'"
  shows "attended q'"
proof -
  from att have pos: "0 < maxClients q" by (simp add: attended_def)
  show ?thesis
  proof (cases a)
    case (SetEndPoint url port)
    then show ?thesis using st pos by (auto simp: tq_step_def setEndPoint_def intro!: attended_spawn)
  next
    case (AddTask t f)
    then show ?thesis using st pos att
      by (auto simp: tq_step_def addTask_def Let_def intro!: attended_spawn) (auto simp: attended_def)
  next
    case (RunProcess i)
    then have i: "i < length (tq_coros q)" "q' = run_process i q"
      using st by (auto simp: tq_step_def split: if_splits tq_coro.splits)
    show ?thesis
    proof (cases "\<not> endPointSet q \<or> taskHandlers q = []")
      case True
      then show ?thesis using pos i by (auto simp: run_process_def attended_def)
    next
      case False
      then show ?thesis
        using i pos attended_dispatch [of "touch_client c False q" i c for c]
        by (auto simp: run_process_def split: option.split intro!: attended_upd)
    qed
  next
    case (ConnectDone i b)
    then obtain c n where i: "i < length (tq_coros q)" "q' = connect_done i c n b q"
      using st by (auto simp: tq_step_def split: if_splits tq_coro.splits)
    then show ?thesis
      using pos by (auto simp: connect_done_def intro!: attended_dispatch attended_upd)
  next
    case (BackoffDone i)
    then show ?thesis using st pos
      by (auto simp: tq_step_def split: if_splits tq_coro.splits intro!: attended_spawn)
  next
    case (HandleStart i)
    then obtain t c where i: "i < length (tq_coros q)"
      "q' = touch_client c False (q\<lparr>tq_coros := (tq_coros q)[i := Running t c]\<rparr>)"
      using st by (auto simp: tq_step_def split: if_splits tq_coro.splits)
    show ?thesis by (rule attended_set [OF pos i(1), of "Running t c"]) (simp_all add: i(2))
  next
    case (CloseSocket i)
    then show ?thesis using st att
      by (auto simp: tq_step_def attended_def split: if_splits tq_coro.splits)
  next
    case (TaskDone i b)
    then show ?thesis using st pos
      by (auto simp: tq_step_def split: if_splits tq_coro.splits intro!: attended_handle_done)
  qed
qed

lemma tq_run_invariant:
  assumes "tq_run as q = Some q'" and "P q" and "\<And>a q q'. P q \<Longrightarrow> tq_step a q = Some q' \<Longrightarrow> P q'"
  shows "P q'"
  using assms(1,2) by (induction as arbitrary: q) (auto split: option.splits intro: assms(3))

section \<open>Properties\<close>

text \<open>
  (C5) Tasks are conserved. After any run of the queue's coroutines, in any interleaving and with
  any outcome of connects and tasks, the tasks that are waiting, that are under way and
  that have run are together exactly the tasks that were added: none is lost and none runs twice.
\<close>

theorem tasks_conserved:
  assumes "tq_run as (TaskQueue_init n ep) = Some q"
  shows "pending q + mset (tq_finished q) = added as"
proof -
  have "pending q' + mset (tq_finished q') = pending q + mset (tq_finished q) + added as"
    if "tq_run as q = Some q'" for as and q q' :: "'a TaskQueue"
    using that
  proof (induction as arbitrary: q)
    case (Cons a as)
    then obtain q1 where "tq_step a q = Some q1" "tq_run as q1 = Some q'" by (auto split: option.splits)
    with Cons.IH [of q1] tq_step_tasks [of a q q1] show ?case by (simp add: added_def ac_simps)
  qed (simp add: added_def)
  from this [OF assms] show ?thesis by (simp add: TaskQueue_init_def pending_def)
qed

abbreviation tq_example :: "nat tq_action list" where
  "tq_example \<equiv> [AddTask 7 False, RunProcess 0, ConnectDone 0 True, AddTask 8 False, HandleStart 1, TaskDone 1 True]"

theorem tasks_conserved_witness:
  "\<exists>q. tq_run tq_example (TaskQueue_init 1 True) = Some q \<and> pending q + mset (tq_finished q) = {#7, 8#}"
proof -
  have "tq_run tq_example (TaskQueue_init 1 True) \<noteq> None" by code_simp
  then obtain q where q: "tq_run tq_example (TaskQueue_init 1 True) = Some q" by blast
  from tasks_conserved [OF q] q show ?thesis by (auto simp: added_def)
qed

text \<open>
  (C36) Waiting tasks are attended to. With at least one client allowed and the endpoint set,
  in every state reached by any run, tasks in the deque mean that some coroutine is still
  at work on the queue (connecting, waiting to retry, or running a task): the queue never goes to sleep on them.
\<close>

theorem queue_never_stalls:
  assumes "tq_run as (TaskQueue_init n ep) = Some q" and "0 < n"
    and "endPointSet q" and "taskHandlers q \<noteq> []"
  shows "\<exists>c \<in> set (tq_coros q). c \<noteq> Ended"
proof -
  have "attended (TaskQueue_init n ep :: 'a TaskQueue)" using assms(2) by (simp add: attended_def TaskQueue_init_def)
  with assms(1) have "attended q" by (rule tq_run_invariant) (rule attended_step)
  with assms(3,4) show ?thesis by (simp add: attended_def)
qed

theorem queue_never_stalls_witness:
  "\<exists>q. tq_run [AddTask (7 :: nat) False, AddTask 8 False] (TaskQueue_init 1 True) = Some q
     \<and> (\<exists>c \<in> set (tq_coros q). c \<noteq> Ended)"
proof -
  let ?as = "[AddTask (7 :: nat) False, AddTask 8 False]"
  have "map_option (\<lambda>q. (endPointSet q, taskHandlers q)) (tq_run ?as (TaskQueue_init 1 True)) = Some (True, [7, 8])"
    by code_simp
  then obtain q where q: "tq_run ?as (TaskQueue_init 1 True) = Some q" "endPointSet q" "taskHandlers q \<noteq> []"
    by auto
  from queue_never_stalls [OF q(1) _ q(2,3)] q(1) show ?thesis by auto
qed

text \<open>
  The connection limit is not kept. A task that requeues itself and then fails, as the event
  queue's sender does, starts two \<open>processTasks\<close>; both check the number of clients
  before either has connected, and a queue for one client ends up with two.
\<close>

theorem max_clients_exceeded:
  "map_option (\<lambda>q. (length (clients q), maxClients q))
     (tq_run [AddTask (1 :: nat) False, RunProcess 0, ConnectDone 0 True, HandleStart 1,
              AddTask 1 True, TaskDone 1 False, RunProcess 2, RunProcess 3, ConnectDone 2 True, ConnectDone 3 True]
        (TaskQueue_init 1 True))
   = Some (2, 1)"
  by code_simp

text \<open>
  Removing one client can free another that is in use. When a task has closed its socket and is still
  running, the failure of a second task erases every client that is not open, and the first task
  then releases a client that no longer exists.
\<close>

theorem removed_client_in_use:
  "map_option tq_dangling
     (tq_run [AddTask (1 :: nat) False, AddTask 2 False, RunProcess 0, RunProcess 1,
              ConnectDone 0 True, ConnectDone 1 True, HandleStart 2, HandleStart 3,
              CloseSocket 2, TaskDone 3 False, TaskDone 2 True]
        (TaskQueue_init 2 True))
   = Some True"
  by code_simp

end
