(* ===== verification/EventQueue.thy ===== *)
theory EventQueue
  imports TaskQueue HttpRouting
begin

text \<open>
  The persistent event queue, \<open>src/include/eventqueue.hpp\<close>, with the event text helpers of
  \<open>eventmethods.hpp\<close>. Events wait in a map from their 64-bit id, the time of creation in
  microseconds, to their text; each has a task in the queue of \<open>TaskQueue\<close> that sends it. The
  outcome of the exchange with the peer (write, header read, provider) is an input of the
  handler, and so is the clock.
\<close>

section \<open>Event text\<close>

definition DONE :: string where "DONE = ''Done''"

definition HEDER_DELIM :: string where "HEDER_DELIM = [CHR 0x0D, CHR 0x0A, CHR 0x0D, CHR 0x0A]"

definition makeEvent :: "string \<Rightarrow> string \<Rightarrow> string \<Rightarrow> string" where
  "makeEvent i data delim = i @ '':'' @ data @ delim"

definition makeEvent1 :: "string \<Rightarrow> string" where
  "makeEvent1 data = data @ HEDER_DELIM"

definition parseEvent :: "string \<Rightarrow> string \<times> string" where
  "parseEvent event =
     (if CHR '':'' \<in> set event
      then (takeWhile (\<lambda>c. c \<noteq> CHR '':'') event, tl (dropWhile (\<lambda>c. c \<noteq> CHR '':'') event))
      else (event, []))"

text \<open>What \<open>readHeader\<close> makes of the text up to and including the delimiter.\<close>

definition strip_delim :: "string \<Rightarrow> string" where
  "strip_delim data = take (length data - length HEDER_DELIM) data"

definition sendHeader_text :: "string \<Rightarrow> string" where
  "sendHeader_text data = data @ HEDER_DELIM"

text \<open>A string built from \<open>data()\<close> ends at the first NUL.\<close>

definition c_str :: "string \<Rightarrow> string" where
  "c_str s = takeWhile (\<lambda>c. c \<noteq> CHR 0x00) s"

definition getEventId :: "string \<Rightarrow> string" where
  "getEventId event =
     (if CHR '':'' \<in> set event then takeWhile (\<lambda>c. c \<noteq> CHR '':'') event else c_str event)"

fun contains_text :: "string \<Rightarrow> string \<Rightarrow> bool" where
  "contains_text pat [] = (pat = [])"
| "contains_text pat (c # cs) = (take (length pat) (c # cs) = pat \<or> contains_text pat cs)"

section \<open>State and operations\<close>

datatype ev_task = Send "64 word" string string | BarrierTask string

record EventQueue =
  events :: "(64 word \<times> string) list"
  eventProviders :: "string list"
  eventConsumers :: "string list"
  taskQueue :: "ev_task TaskQueue"
  lastBarrierTime :: "64 word"

definition EventQueue_init :: "nat \<Rightarrow> bool \<Rightarrow> EventQueue" where
  "EventQueue_init n ep = \<lparr>events = [], eventProviders = [''default''], eventConsumers = [''default''],
     taskQueue = TaskQueue_init n ep, lastBarrierTime = 0\<rparr>"

definition TIMETOLIVE :: int where "TIMETOLIVE = 60"

definition addEventProvider :: "string \<Rightarrow> EventQueue \<Rightarrow> EventQueue" where
  "addEventProvider i q = q\<lparr>eventProviders := (if i \<in> set (eventProviders q) then eventProviders q else i # eventProviders q)\<rparr>"

definition addEventConsumer :: "string \<Rightarrow> EventQueue \<Rightarrow> EventQueue" where
  "addEventConsumer i q = q\<lparr>eventConsumers := (if i \<in> set (eventConsumers q) then eventConsumers q else i # eventConsumers q)\<rparr>"

definition removeEvent :: "64 word \<Rightarrow> EventQueue \<Rightarrow> EventQueue" where
  "removeEvent i q = q\<lparr>events := omap_erase i (events q)\<rparr>"

definition queue_task :: "ev_task \<Rightarrow> bool \<Rightarrow> EventQueue \<Rightarrow> EventQueue" where
  "queue_task t front q = q\<lparr>taskQueue := addTask t front (taskQueue q)\<rparr>"

definition addEvent_id :: "string \<Rightarrow> 64 word \<Rightarrow> EventQueue \<Rightarrow> EventQueue" where
  "addEvent_id event i q =
     (let q = q\<lparr>events := omap_put i event (events q)\<rparr>;
          eventId = getEventId event;
          provider = (if eventId \<in> set (eventProviders q) then eventId else ''default'')
      in queue_task (Send i provider event) False q)"

definition addEvent :: "string \<Rightarrow> 64 word \<Rightarrow> EventQueue \<Rightarrow> EventQueue" where
  "addEvent event now q =
     (if contains_text ''Barrier'' event then queue_task (BarrierTask event) False q
      else addEvent_id event now q)"

definition beginBarrier :: "64 word \<Rightarrow> EventQueue \<Rightarrow> EventQueue" where
  "beginBarrier now q = addEvent (makeEvent ''Barrier'' ''Begin'' '''') now q"

definition endBarrier :: "64 word \<Rightarrow> EventQueue \<Rightarrow> EventQueue" where
  "endBarrier now q = addEvent (makeEvent ''Barrier'' ''End'' '''') now q"

text \<open>
  The age check of \<open>resendEvent\<close>: the difference is an unsigned 64-bit number, converted to the
  signed count of a \<open>milliseconds\<close> and then to whole seconds, rounding towards zero.
\<close>

definition age_seconds :: "64 word \<Rightarrow> 64 word \<Rightarrow> int" where
  "age_seconds now i =
     (let d = sint (now - i) in if 0 \<le> d then d div 1000 else - ((- d) div 1000))"

definition resendEvent :: "64 word \<Rightarrow> string \<Rightarrow> 64 word \<Rightarrow> EventQueue \<Rightarrow> EventQueue" where
  "resendEvent i provider now q =
     (let event = (case map_of (events q) i of Some e \<Rightarrow> e | None \<Rightarrow> []);
          q = (case map_of (events q) i of Some _ \<Rightarrow> q | None \<Rightarrow> q\<lparr>events := omap_put i [] (events q)\<rparr>)
      in if age_seconds now i > TIMETOLIVE then removeEvent i q
         else queue_task (Send i provider event) True q)"

text \<open>The exchange with the peer: the errors of the write and the provider, and the header read.\<close>

record exchange =
  ex_write :: error_code
  ex_header :: "errc + string"
  ex_provider :: error_code

definition sendEventHandler :: "64 word \<Rightarrow> string \<Rightarrow> exchange \<Rightarrow> 64 word \<Rightarrow> EventQueue \<Rightarrow> error_code \<times> EventQueue" where
  "sendEventHandler i provider ex now q =
     (case ex_write ex of
        Some e \<Rightarrow> (Some e, resendEvent i provider now q)
      | None \<Rightarrow>
          (case ex_header ex of
             Inl e \<Rightarrow> (Some e, resendEvent i provider now q)
           | Inr header \<Rightarrow>
               if header = DONE then (None, removeEvent i q)
               else (case ex_provider ex of
                       Some e \<Rightarrow> (Some e, resendEvent i provider now q)
                     | None \<Rightarrow> (None, removeEvent i q))))"

definition barrierHandler :: "string \<Rightarrow> 64 word \<Rightarrow> EventQueue \<Rightarrow> error_code \<times> EventQueue" where
  "barrierHandler event now q =
     (None, if snd (parseEvent event) = ''Begin'' then q\<lparr>lastBarrierTime := now\<rparr> else q)"

definition run_task :: "ev_task \<Rightarrow> exchange \<Rightarrow> 64 word \<Rightarrow> EventQueue \<Rightarrow> error_code \<times> EventQueue" where
  "run_task t ex now q =
     (case t of
        Send i provider event \<Rightarrow> sendEventHandler i provider ex now q
      | BarrierTask event \<Rightarrow> barrierHandler event now q)"

definition eventExists :: "string \<Rightarrow> EventQueue \<Rightarrow> bool" where
  "eventExists event q = list_ex (\<lambda>(_, e). e = event) (events q)"

text \<open>
  The receiving side: \<open>next\<close> reads a header, picks the consumer and answers. The parameter runs the
  consumer; the result is the error that ends the connection, or the bytes of the answer.
\<close>

definition parseAndHandle :: "(string \<Rightarrow> string \<Rightarrow> error_code) \<Rightarrow> string \<Rightarrow> EventQueue \<Rightarrow> errc + string" where
  "parseAndHandle consumer header q =
     (let consumerId = getEventId header;
          c = (if consumerId \<in> set (eventConsumers q) then consumerId else ''default'')
      in case consumer c (c_str header) of
           Some e \<Rightarrow> Inl e
         | None \<Rightarrow> Inr (sendHeader_text DONE))"

section \<open>Storing and loading\<close>

text \<open>\<open>std::stoull\<close> (\<open>None\<close> is the exception it throws).\<close>

definition stoull :: "string \<Rightarrow> 64 word option" where
  "stoull s =
     (let s = dropWhile is_blank s;
          neg = (s \<noteq> [] \<and> hd s = CHR ''-'');
          s = (if s \<noteq> [] \<and> (hd s = CHR ''-'' \<or> hd s = CHR ''+'') then tl s else s);
          ds = takeWhile is_digit s
      in if ds = [] \<or> 2 ^ 64 \<le> digits_value ds then None
         else Some (if neg then - of_nat (digits_value ds) else of_nat (digits_value ds)))"

text \<open>The strings that are written to the file.\<close>

definition eq_store :: "EventQueue \<Rightarrow> string list" where
  "eq_store q = map (\<lambda>(i, e). to_string (unat i) @ '','' @ e) (events q)"

text \<open>\<open>eventmap[1]\<close> of a vector without a second element is undefined.\<close>

fun eq_load :: "string list \<Rightarrow> EventQueue \<Rightarrow> EventQueue option outcome" where
  "eq_load [] q = Val (Some q)"
| "eq_load (s # ss) q =
     (case split s CHR '','' 0 of
        i # e # _ \<Rightarrow>
          (case stoull i of
             None \<Rightarrow> Val None
           | Some n \<Rightarrow> eq_load ss (addEvent_id e n q))
      | _ \<Rightarrow> UB)"

section \<open>The queue as a system\<close>

datatype eq_action =
    AddEvent string "64 word"
  | Network "ev_task tq_action"
  | Finish nat exchange "64 word"

definition eq_step :: "eq_action \<Rightarrow> EventQueue \<Rightarrow> EventQueue option" where
  "eq_step a q =
     (case a of
        AddEvent e now \<Rightarrow> Some (addEvent e now q)
      | Network b \<Rightarrow>
          (case b of
             AddTask _ _ \<Rightarrow> None
           | TaskDone _ _ \<Rightarrow> None
           | _ \<Rightarrow> map_option (\<lambda>tq. q\<lparr>taskQueue := tq\<rparr>) (tq_step b (taskQueue q)))
      | Finish i ex now \<Rightarrow>
          (if i < length (tq_coros (taskQueue q)) then
             (case tq_coros (taskQueue q) ! i of
                Running t c \<Rightarrow>
                  (case run_task t ex now q of (ec, q') \<Rightarrow>
                     Some (q'\<lparr>taskQueue := handle_done i t c (ec = None) (taskQueue q')\<rparr>))
              | _ \<Rightarrow> None)
           else None))"

section \<open>No event is forgotten\<close>

text \<open>Every stored event has a sending task that is waiting or under way.\<close>

definition covered :: "EventQueue \<Rightarrow> bool" where
  "covered q \<longleftrightarrow> (\<forall>i. map_of (events q) i \<noteq> None \<longrightarrow> (\<exists>p e. Send i p e \<in># pending (taskQueue q)))"

lemma covered_queue_task: "covered q \<Longrightarrow> covered (queue_task t f q)"
  by (auto simp: covered_def queue_task_def pending_addTask) blast

lemma covered_remove: "covered q \<Longrightarrow> covered (removeEvent i q)"
  by (auto simp: covered_def removeEvent_def)

lemma covered_addEvent_id: "covered q \<Longrightarrow> covered (addEvent_id e i q)"
  by (auto simp: covered_def addEvent_id_def queue_task_def pending_addTask Let_def split: if_splits)

lemma covered_addEvent: "covered q \<Longrightarrow> covered (addEvent e now q)"
  by (simp add: addEvent_def covered_queue_task covered_addEvent_id)

text \<open>
  The sender of \<open>i\<close>, whose own task is about to leave the queue, has removed the event or queued
  another task for it.
\<close>

definition covered_without :: "ev_task \<Rightarrow> EventQueue \<Rightarrow> bool" where
  "covered_without t q \<longleftrightarrow>
     (\<forall>i. map_of (events q) i \<noteq> None \<longrightarrow> (\<exists>p e. Send i p e \<in># pending (taskQueue q) - {#t#}))"

lemma covered_other:
  assumes "covered q" and "map_of (events q) j \<noteq> None" and "j \<noteq> i"
  shows "\<exists>p e. Send j p e \<in># pending (taskQueue q) - {#Send i pr ev#}"
proof -
  obtain p e where "Send j p e \<in># pending (taskQueue q)" using assms(1,2) by (auto simp: covered_def)
  then have "Send j p e \<in># pending (taskQueue q) - {#Send i pr ev#}"
    using assms(3) by (simp add: in_diff_count)
  then show ?thesis by blast
qed

lemma removed_without:
  assumes "covered q"
  shows "covered_without (Send i p e) (removeEvent i q)"
  using covered_other [OF assms] by (auto simp: covered_without_def removeEvent_def)

lemma resent_without:
  assumes "covered q" and m: "Send i p e \<in># pending (taskQueue q)"
  shows "covered_without (Send i p e) (resendEvent i pr now q)"
proof -
  let ?q = "case map_of (events q) i of Some _ \<Rightarrow> q | None \<Rightarrow> q\<lparr>events := omap_put i [] (events q)\<rparr>"
  have tq: "taskQueue ?q = taskQueue q" and ev: "\<And>j. j \<noteq> i \<Longrightarrow> map_of (events ?q) j = map_of (events q) j"
    by (simp_all split: option.split)
  have other: "\<exists>p' e'. Send j p' e' \<in># pending (taskQueue q) - {#Send i p e#}"
    if "map_of (events ?q) j \<noteq> None" "j \<noteq> i" for j
    using covered_other [OF assms(1), of j i] that ev by auto
  obtain M where M: "pending (taskQueue q) = add_mset (Send i p e) M" using m by (metis insert_DiffM)
  then have add: "add_mset t (pending (taskQueue q)) - {#Send i p e#} = add_mset t (pending (taskQueue q) - {#Send i p e#})" for t
    by (simp add: add_mset_commute [of t])
  show ?thesis
  proof (cases "age_seconds now i > TIMETOLIVE")
    case True
    then have r: "resendEvent i pr now q = removeEvent i ?q" by (simp add: resendEvent_def Let_def)
    have "\<exists>p' e'. Send j p' e' \<in># pending (taskQueue q) - {#Send i p e#}"
      if "map_of (events (removeEvent i ?q)) j \<noteq> None" for j
      using other [of j] that by (cases "j = i") (simp_all add: removeEvent_def)
    moreover have "taskQueue (removeEvent i ?q) = taskQueue q" using tq by (simp add: removeEvent_def)
    ultimately show ?thesis by (simp add: r covered_without_def)
  next
    case False
    let ?x = "case map_of (events q) i of Some e \<Rightarrow> e | None \<Rightarrow> []"
    have r: "resendEvent i pr now q = queue_task (Send i pr ?x) True ?q"
      using False by (simp add: resendEvent_def Let_def)
    have "\<exists>p' e'. Send j p' e' \<in># add_mset (Send i pr ?x) (pending (taskQueue q)) - {#Send i p e#}"
      if "map_of (events ?q) j \<noteq> None" for j
      unfolding add using other [of j] that by (cases "j = i") auto
    moreover have "pending (taskQueue (queue_task (Send i pr ?x) True ?q)) =
        add_mset (Send i pr ?x) (pending (taskQueue q))"
      using tq by (simp add: queue_task_def pending_addTask)
    moreover have "events (queue_task (Send i pr ?x) True ?q) = events ?q" by (simp add: queue_task_def)
    ultimately show ?thesis by (simp add: r covered_without_def)
  qed
qed

lemma barrier_without:
  assumes "covered q"
  shows "covered_without (BarrierTask b) (snd (barrierHandler b now q))"
  unfolding covered_without_def
proof (intro allI impI)
  fix i assume "map_of (events (snd (barrierHandler b now q))) i \<noteq> None"
  then obtain p e where "Send i p e \<in># pending (taskQueue q)"
    using assms by (auto simp: covered_def barrierHandler_def split: if_splits)
  then have "Send i p e \<in># pending (taskQueue q) - {#BarrierTask b#}" by (simp add: in_diff_count)
  then show "\<exists>p e. Send i p e \<in># pending (taskQueue (snd (barrierHandler b now q))) - {#BarrierTask b#}"
    by (auto simp: barrierHandler_def)
qed

lemma run_task_without:
  assumes "covered q" and "t \<in># pending (taskQueue q)"
  shows "covered_without t (snd (run_task t ex now q))"
proof (cases t)
  case (Send i p e)
  then show ?thesis
    using assms removed_without [OF assms(1)] resent_without [OF assms(1)]
    by (auto simp: run_task_def sendEventHandler_def split: option.split sum.split)
next
  case (BarrierTask b)
  then show ?thesis using barrier_without [OF assms(1)] by (simp add: run_task_def)
qed

text \<open>A handler leaves the running coroutines where they are.\<close>

lemma addTask_coros:
  "i < length (tq_coros q) \<Longrightarrow> i < length (tq_coros (addTask t f q)) \<and> tq_coros (addTask t f q) ! i = tq_coros q ! i"
  by (auto simp: addTask_def Let_def spawn_def nth_append)

lemma run_task_coros:
  assumes "i < length (tq_coros (taskQueue q))"
  shows "i < length (tq_coros (taskQueue (snd (run_task t ex now q))))
    \<and> tq_coros (taskQueue (snd (run_task t ex now q))) ! i = tq_coros (taskQueue q) ! i"
  using assms addTask_coros [of i "taskQueue q"]
  by (simp add: run_task_def sendEventHandler_def barrierHandler_def resendEvent_def removeEvent_def
      queue_task_def Let_def split: ev_task.split option.split sum.split)

lemma covered_finish:
  assumes "covered_without t q" and "i < length (tq_coros (taskQueue q))"
    and "tq_coros (taskQueue q) ! i = Running t c"
  shows "covered (q\<lparr>taskQueue := handle_done i t c b (taskQueue q)\<rparr>)"
proof -
  have "add_mset t (pending (handle_done i t c b (taskQueue q))) = pending (taskQueue q)"
    using pending_handle_done [OF assms(2,3)] by blast
  then have "pending (handle_done i t c b (taskQueue q)) = pending (taskQueue q) - {#t#}"
    by (metis add_mset_remove_trivial)
  with assms(1) show ?thesis by (simp add: covered_def covered_without_def)
qed

lemma running_pending:
  assumes "i < length (tq_coros q)" and "tq_coros q ! i = Running t c"
  shows "t \<in># pending q"
  using assms nth_mem [OF assms(1)] by (auto simp: pending_def intro!: bexI [of _ "tq_coros q ! i"])

lemma covered_step:
  assumes cov: "covered q" and st: "eq_step a q = Some q'"
  shows "covered q'"
proof (cases a)
  case (AddEvent e now)
  with st cov show ?thesis by (auto simp: eq_step_def intro: covered_addEvent)
next
  case (Network b)
  with st have *: "\<And>t f. b \<noteq> AddTask t f" "\<And>i s. b \<noteq> TaskDone i s"
    by (auto simp: eq_step_def)
  with Network st obtain tq where tq: "tq_step b (taskQueue q) = Some tq" "q' = q\<lparr>taskQueue := tq\<rparr>"
    by (cases b) (auto simp: eq_step_def)
  from tq_step_internal(1) [OF tq(1) *] cov show ?thesis by (simp add: tq(2) covered_def)
next
  case (Finish i ex now)
  with st obtain t c where i: "i < length (tq_coros (taskQueue q))" "tq_coros (taskQueue q) ! i = Running t c"
    and q': "q' = (snd (run_task t ex now q))\<lparr>taskQueue :=
        handle_done i t c (fst (run_task t ex now q) = None) (taskQueue (snd (run_task t ex now q)))\<rparr>"
    by (auto simp: eq_step_def case_prod_beta split: if_splits tq_coro.splits)
  have "covered_without t (snd (run_task t ex now q))"
    by (rule run_task_without [OF cov running_pending [OF i]])
  moreover note run_task_coros [OF i(1), of t ex now]
  ultimately show ?thesis unfolding q' using i(2) by (intro covered_finish) auto
qed

inductive eq_trans :: "EventQueue \<Rightarrow> EventQueue \<Rightarrow> bool" where
  "eq_step a q = Some q' \<Longrightarrow> eq_trans q q'"

inductive_cases eq_transE: "eq_trans q q'"

lemma covered_init: "covered (EventQueue_init n ep)"
  by (simp add: covered_def EventQueue_init_def)

interpretation ev: invariant_system "\<lambda>q. q = EventQueue_init n ep" eq_trans covered for n ep
  by unfold_locales (auto intro: covered_init covered_step elim!: eq_transE)

section \<open>Properties\<close>

text \<open>
  (C10) No event is forgotten. In every state reached by any interleaving of new events, network
  progress and finished exchanges (whatever fails in them), each event still stored has a
  sending task that is waiting in the task queue or under way.
\<close>

theorem no_event_forgotten:
  assumes "reachable (\<lambda>q. q = EventQueue_init n ep) eq_trans q" and "map_of (events q) i = Some e"
  shows "\<exists>p e'. Send i p e' \<in># pending (taskQueue q)"
  using ev.reachable_inv [OF assms(1)] assms(2) by (simp add: covered_def)

theorem no_event_forgotten_witness:
  "\<exists>p e'. Send 5 p e' \<in># pending (taskQueue (addEvent ''Temp:9'' 5 (EventQueue_init 1 True)))"
proof -
  have "reachable (\<lambda>q. q = EventQueue_init 1 True) eq_trans (EventQueue_init 1 True)" by (simp add: reach_init)
  then have r: "reachable (\<lambda>q. q = EventQueue_init 1 True) eq_trans (addEvent ''Temp:9'' 5 (EventQueue_init 1 True))"
    by (rule reach_step) (rule eq_trans.intros [of "AddEvent ''Temp:9'' 5"], simp add: eq_step_def)
  have e: "map_of (events (addEvent ''Temp:9'' 5 (EventQueue_init 1 True))) 5 = Some ''Temp:9''" by code_simp
  show ?thesis by (rule no_event_forgotten [OF r e])
qed

text \<open>
  (C38) When an event is given up. For a clock that has not run backwards, a failed event is
  dropped exactly when at least 61000 microseconds have passed since its creation, that is
  after 61 milliseconds: the ids are microseconds, the age check reads their difference as
  milliseconds, and the intended limit of 60 seconds is applied to it.
\<close>

theorem resend_time_to_live:
  assumes "unat now = unat i + d" and "d < 2 ^ 63" and "map_of (events q) i = Some e"
  shows "map_of (events (resendEvent i p now q)) i = (if 61000 \<le> d then None else Some e)
    \<and> pending (taskQueue (resendEvent i p now q)) =
        (if 61000 \<le> d then pending (taskQueue q) else add_mset (Send i p e) (pending (taskQueue q)))"
proof -
  have "(of_nat (unat now) :: 64 word) = of_nat (unat i + d)" by (simp only: assms(1))
  then have "now = i + of_nat d" by simp
  then have "now - i = of_nat d" by simp
  then have s: "sint (now - i) = int d"
    using assms(2) by (simp add: signed_of_nat signed_take_bit_int_eq_self)
  have "age_seconds now i > TIMETOLIVE \<longleftrightarrow> 61000 \<le> d"
    unfolding age_seconds_def s TIMETOLIVE_def Let_def by auto
  then show ?thesis
    using assms(3) by (simp add: resendEvent_def Let_def removeEvent_def queue_task_def pending_addTask)
qed

theorem resend_time_to_live_witness:
  "map_of (events (resendEvent 1000000 ''default'' 1061000 (addEvent ''Temp:9'' 1000000 (EventQueue_init 1 True)))) 1000000
   = None"
proof -
  let ?q = "addEvent ''Temp:9'' 1000000 (EventQueue_init 1 True)"
  have "map_of (events ?q) 1000000 = Some ''Temp:9''" by code_simp
  from resend_time_to_live [of 1061000 1000000 61000 ?q, OF _ _ this] show ?thesis by simp
qed

section \<open>Decimal numbers\<close>

lemma stoull_to_string: "stoull (to_string (unat i)) = Some i"
proof -
  let ?s = "to_string (unat i)"
  have d: "x \<in> set ?s \<Longrightarrow> is_digit x" for x using to_string_digits by (auto simp: list_all_iff)
  obtain c cs where c: "?s = c # cs" using to_string_not_Nil by (cases ?s) auto
  with d have "is_digit c" by simp
  then have "\<not> is_blank c" "c \<noteq> CHR ''-''" "c \<noteq> CHR ''+''"
    by (auto simp: is_digit_def is_blank_def)
  then have "dropWhile is_blank ?s = ?s" "hd ?s \<noteq> CHR ''-''" "hd ?s \<noteq> CHR ''+''" using c by simp_all
  moreover have t: "takeWhile is_digit ?s = ?s" using d by (simp add: takeWhile_eq_all_conv)
  moreover have "unat i < 2 ^ 64" using unsigned_less [of i, where 'a = nat] by simp
  ultimately show ?thesis
    by (simp add: stoull_def Let_def t to_string_not_Nil digits_value_to_string del: power_numeral)
qed

section \<open>Storing and loading\<close>

lemma pieces_head: "\<exists>rest. pieces c e = takeWhile (\<lambda>x. x \<noteq> c) e # rest"
  by (induction e) auto

lemma load_entry:
  "eq_load ((to_string (unat i) @ '','' @ e) # ss) q =
     eq_load ss (addEvent_id (takeWhile (\<lambda>c. c \<noteq> CHR '','') e) i q)"
proof -
  have "CHR '','' \<notin> set (to_string (unat i))"
    using to_string_digits [of "unat i"] by (auto simp: list_all_iff is_digit_def)
  moreover obtain rest where "pieces CHR '','' e = takeWhile (\<lambda>c. c \<noteq> CHR '','') e # rest"
    using pieces_head by blast
  ultimately have "split (to_string (unat i) @ '','' @ e) CHR '','' 0 =
      to_string (unat i) # takeWhile (\<lambda>c. c \<noteq> CHR '','') e # rest"
    by (simp add: split_def pieces_first)
  then show ?thesis by (simp add: stoull_to_string)
qed

lemma load_entries:
  "eq_load (map (\<lambda>(i, e). to_string (unat i) @ '','' @ e) evs) q =
     Val (Some (fold (\<lambda>(i, e). addEvent_id (takeWhile (\<lambda>c. c \<noteq> CHR '','') e) i) evs q))"
proof (induction evs arbitrary: q)
  case (Cons ie evs)
  obtain i e where "ie = (i, e)" by (cases ie)
  then show ?case using Cons load_entry [of i e] by (simp del: eq_load.simps(2))
qed simp

lemma addEvent_id_events: "map_of (events (addEvent_id e i q)) = (map_of (events q))(i \<mapsto> e)"
  by (simp add: addEvent_id_def Let_def queue_task_def)

lemma addEvent_id_tasks: "\<exists>p. pending (taskQueue (addEvent_id e i q)) = add_mset (Send i p e) (pending (taskQueue q))"
  by (auto simp: addEvent_id_def Let_def queue_task_def pending_addTask)

lemma loaded_events:
  assumes "distinct (map fst evs)"
  shows "map_of (events (fold (\<lambda>(i, e). addEvent_id (f e) i) evs q)) j =
     (case map_of evs j of Some e \<Rightarrow> Some (f e) | None \<Rightarrow> map_of (events q) j)"
  using assms
proof (induction evs arbitrary: q)
  case (Cons ie evs)
  obtain i e where ie: "ie = (i, e)" by (cases ie)
  have "map_of evs i = None" using Cons.prems ie by (simp add: map_of_eq_None_iff)
  with Cons ie show ?case by (auto simp: addEvent_id_events split: option.split)
qed simp

lemma omap_ok_distinct: "omap_ok m \<Longrightarrow> distinct (map fst m)"
  by (simp add: omap_ok_def strict_sorted_iff)

text \<open>
  Storing and loading. What \<open>store\<close> writes, \<open>load\<close> reads without an exception: in an empty
  queue it restores every event under its id, cut off before its first comma. Events without a comma are
  restored exactly; the rest of any other event is lost.
\<close>

theorem store_load_events:
  assumes "omap_ok (events q)"
  shows "\<exists>q'. eq_load (eq_store q) (EventQueue_init n ep) = Val (Some q')
    \<and> (\<forall>i. map_of (events q') i = map_option (takeWhile (\<lambda>c. c \<noteq> CHR '','')) (map_of (events q) i))"
proof -
  let ?cut = "takeWhile (\<lambda>c. c \<noteq> CHR '','') :: string \<Rightarrow> string"
  let ?q' = "fold (\<lambda>(i, e). addEvent_id (?cut e) i) (events q) (EventQueue_init n ep)"
  have "eq_load (eq_store q) (EventQueue_init n ep) = Val (Some ?q')"
    unfolding eq_store_def by (rule load_entries)
  moreover have "map_of (events ?q') i = map_option ?cut (map_of (events q) i)" for i
    using loaded_events [OF omap_ok_distinct [OF assms], of ?cut "EventQueue_init n ep" i]
    by (simp add: EventQueue_init_def split: option.split)
  ultimately show ?thesis by blast
qed

theorem store_load_events_witness:
  "\<exists>q'. eq_load [''5,Temp:9'', ''12,Fan:1,2''] (EventQueue_init 1 True) = Val (Some q')
     \<and> map_of (events q') 5 = Some ''Temp:9'' \<and> map_of (events q') 12 = Some ''Fan:1''"
proof -
  let ?q = "(EventQueue_init 1 True)\<lparr>events := [(5, ''Temp:9''), (12, ''Fan:1,2'')]\<rparr>"
  have ok: "omap_ok (events ?q)" by (simp add: omap_ok_def)
  have st: "eq_store ?q = [''5,Temp:9'', ''12,Fan:1,2'']" by code_simp
  from store_load_events [OF ok, of 1 True] show ?thesis unfolding st by auto
qed

text \<open>
  Round trip of an event's text. \<open>parseEvent\<close> takes what \<open>makeEvent\<close> builds apart again when the name has no colon;
  the routing id of the event is its name; and the header text that is sent, read back with its delimiter, is the original text.
\<close>

theorem event_text_roundtrip:
  assumes "CHR '':'' \<notin> set i"
  shows "parseEvent (makeEvent i data '''') = (i, data) \<and> getEventId (makeEvent i data delim) = i
    \<and> strip_delim (makeEvent i data HEDER_DELIM) = makeEvent i data ''''
    \<and> strip_delim (sendHeader_text txt) = txt"
proof -
  have "takeWhile (\<lambda>c. c \<noteq> CHR '':'') (i @ CHR '':'' # data) = i"
    "dropWhile (\<lambda>c. c \<noteq> CHR '':'') (i @ CHR '':'' # data) = CHR '':'' # data" for data
    using assms by (auto intro!: takeWhile_append_stop dropWhile_append_stop)
  then show ?thesis
    by (simp add: parseEvent_def makeEvent_def getEventId_def strip_delim_def sendHeader_text_def)
qed

theorem event_text_roundtrip_witness:
  "parseEvent ''Temp:9:x'' = (''Temp'', ''9:x'')"
  using event_text_roundtrip [of "''Temp''" "''9:x''"] by (simp add: makeEvent_def)

text \<open>
  Two events in the same microsecond share an id. The second replaces the first in the
  store, so that when the exchange of the first fails the second one's text is sent in its
  place: the first event is lost and the second is sent twice.
\<close>

theorem same_microsecond_collision:
  "events (addEvent ''B:2'' 5 (addEvent ''A:1'' 5 (EventQueue_init 1 True))) = [(5, ''B:2'')]
   \<and> taskHandlers (taskQueue (resendEvent 5 ''default'' 6
       (addEvent ''B:2'' 5 (addEvent ''A:1'' 5 (EventQueue_init 1 True)))))
     = [Send 5 ''default'' ''B:2'', Send 5 ''default'' ''A:1'', Send 5 ''default'' ''B:2'']"
  by code_simp

end
