(* ===== verification/WhenAll.thy ===== *)
theory WhenAll
  imports Prelude
begin

text \<open>
  \<open>when_all.hpp\<close>: waiting for a group of concurrently spawned tasks. The spawned coroutines and
  the completion handlers of \<open>co_spawn\<close> run interleaved in an order the executor chooses; the
  model is a scheduler (\<open>group_step\<close>) whose steps are "the body of task \<open>i\<close> ran to its end with
  this outcome" and "the completion handler of task \<open>i\<close> ran". It is shared with \<open>when_any.hpp\<close>
  (theory WhenAny), which runs the same scheduler with its own body and its own barrier.

  The barrier waits on a timer that never expires (\<open>expires_at(time_point::max())\<close>) and is
  released by \<open>cancel()\<close> only. Every spawned body first posts itself to the executor, so on
  the single-threaded \<open>io_context\<close> of the programs no body runs before the launching coroutine
  has suspended in \<open>barrier.wait()\<close>: a group starts with the wait pending.
\<close>

section \<open>Tasks and schedules\<close>

text \<open>The exceptions a task can end with, and those the combinators throw themselves.\<close>

datatype exn =
    system_error errc
  | runtime_error string
  | invalid_argument string
  | other_exn nat

text \<open>How a task's coroutine ends: \<open>co_return v\<close> or an exception that leaves it.\<close>

datatype 'v task_outcome = Returns 'v | Throws exn

text \<open>
  What the caller of a combinator gets: a value, an exception, or undefined behaviour (a
  dereferenced empty \<open>std::optional\<close>, an index past the end of a vector).
\<close>

datatype 'a call_result = Undefined | Raised exn | Returned 'a

datatype 'v group_action = Finish nat "'v task_outcome" | Handler nat

text \<open>
  A launched group: the storage the bodies write to, the barrier, the tasks whose body still
  runs and the tasks whose completion handler is still due.
\<close>

record ('s, 'b) task_group =
  shared :: 's
  bar :: 'b
  running :: "nat list"
  handlers_due :: "nat list"

text \<open>
  One step of the executor. A body ends once, and the completion handler of a task runs once,
  after the body of that task; nothing else is ordered.
\<close>

fun group_step ::
  "(nat \<Rightarrow> 'v task_outcome \<Rightarrow> 's \<Rightarrow> 's) \<Rightarrow> ('b \<Rightarrow> 'b) \<Rightarrow> 'v group_action
     \<Rightarrow> ('s, 'b) task_group \<Rightarrow> ('s, 'b) task_group option" where
  "group_step body completion (Finish i out) g =
     (if i \<in> set (running g)
      then Some (g\<lparr>shared := body i out (shared g), running := remove1 i (running g),
                   handlers_due := i # handlers_due g\<rparr>)
      else None)"
| "group_step body completion (Handler i) g =
     (if i \<in> set (handlers_due g)
      then Some (g\<lparr>bar := completion (bar g), handlers_due := remove1 i (handlers_due g)\<rparr>)
      else None)"

fun group_run ::
  "(nat \<Rightarrow> 'v task_outcome \<Rightarrow> 's \<Rightarrow> 's) \<Rightarrow> ('b \<Rightarrow> 'b) \<Rightarrow> 'v group_action list
     \<Rightarrow> ('s, 'b) task_group \<Rightarrow> ('s, 'b) task_group option" where
  "group_run body completion [] g = Some g"
| "group_run body completion (a # as) g =
     (case group_step body completion a g of
        None \<Rightarrow> None
      | Some g' \<Rightarrow> group_run body completion as g')"

definition launch :: "'s \<Rightarrow> 'b \<Rightarrow> nat \<Rightarrow> ('s, 'b) task_group" where
  "launch st b n = \<lparr>shared = st, bar = b, running = [0..<n], handlers_due = []\<rparr>"

section \<open>task_barrier\<close>

text \<open>
  \<open>task_barrier\<close>: \<open>remaining\<close> is \<open>remaining_\<close>, \<open>waiting\<close> says that \<open>wait()\<close> is suspended on the
  timer, \<open>released\<close> that the suspended \<open>async_wait\<close> has been cancelled and the waiter resumes.
  \<open>timer->cancel()\<close> reaches only a wait that is pending. The counter is a \<open>size_t\<close>; there is one
  handler per task, so it is decremented at most \<open>count\<close> times and never passes below zero.
\<close>

record task_barrier =
  remaining :: nat
  waiting :: bool
  released :: bool

definition task_barrier_new :: "nat \<Rightarrow> task_barrier" where
  "task_barrier_new n = \<lparr>remaining = n, waiting = False, released = False\<rparr>"

definition barrier_wait :: "'a task_barrier_scheme \<Rightarrow> 'a task_barrier_scheme" where
  "barrier_wait b = b\<lparr>waiting := True\<rparr>"

definition barrier_timer_cancel :: "'a task_barrier_scheme \<Rightarrow> 'a task_barrier_scheme" where
  "barrier_timer_cancel b = (if waiting b then b\<lparr>waiting := False, released := True\<rparr> else b)"

definition completion_handler :: "'a task_barrier_scheme \<Rightarrow> 'a task_barrier_scheme" where
  "completion_handler b =
     (let b' = b\<lparr>remaining := remaining b - 1\<rparr>
      in if remaining b' = 0 then barrier_timer_cancel b' else b')"

section \<open>when_all\<close>

text \<open>The \<open>values\<close> and \<open>errors\<close> arrays the bodies write to (\<open>SharedState\<close> of the vector overload).\<close>

record 'v all_store =
  all_values :: "'v option list"
  all_errors :: "exn option list"

definition all_store_new :: "nat \<Rightarrow> 'v all_store" where
  "all_store_new n = \<lparr>all_values = replicate n None, all_errors = replicate n None\<rparr>"

text \<open>The body spawned for task \<open>i\<close>: \<open>values[i] = co_await task\<close>, or \<open>errors[i] = current_exception()\<close>.\<close>

fun all_body :: "nat \<Rightarrow> 'v task_outcome \<Rightarrow> 'v all_store \<Rightarrow> 'v all_store" where
  "all_body i (Returns v) s = s\<lparr>all_values := (all_values s)[i := Some v]\<rparr>"
| "all_body i (Throws x) s = s\<lparr>all_errors := (all_errors s)[i := Some x]\<rparr>"

text \<open>\<open>check_and_rethrow_errors\<close>: the exception it rethrows, if any.\<close>

fun check_and_rethrow_errors :: "exn option list \<Rightarrow> exn option" where
  "check_and_rethrow_errors [] = None"
| "check_and_rethrow_errors (Some x # es) = Some x"
| "check_and_rethrow_errors (None # es) = check_and_rethrow_errors es"

text \<open>After the barrier: rethrow, or move the values out (\<open>*value\<close> of each optional).\<close>

definition when_all_value_result :: "'v all_store \<Rightarrow> 'v list call_result" where
  "when_all_value_result s =
     (case check_and_rethrow_errors (all_errors s) of
        Some x \<Rightarrow> Raised x
      | None \<Rightarrow> if None \<in> set (all_values s) then Undefined
                else Returned (map the (all_values s)))"

definition when_all_void_result :: "'v all_store \<Rightarrow> unit call_result" where
  "when_all_void_result s =
     (case check_and_rethrow_errors (all_errors s) of Some x \<Rightarrow> Raised x | None \<Rightarrow> Returned ())"

text \<open>\<open>when_all\<close> suspended at its barrier after launching \<open>n\<close> tasks.\<close>

definition when_all_start :: "nat \<Rightarrow> ('v all_store, task_barrier) task_group" where
  "when_all_start n = launch (all_store_new n) (barrier_wait (task_barrier_new n)) n"

definition when_all_run ::
  "'v group_action list \<Rightarrow> nat \<Rightarrow> ('v all_store, task_barrier) task_group option" where
  "when_all_run sched n = group_run all_body completion_handler sched (when_all_start n)"

text \<open>
  The result of \<open>when_all\<close> over a vector (\<open>when_all_vector\<close>) and over a parameter pack
  (\<open>when_all_tuple\<close>) under a schedule: \<open>None\<close> while it is still suspended. The vector overload
  returns at once for an empty vector; the pack has no such case.
\<close>

definition when_all_tuple :: "'v group_action list \<Rightarrow> nat \<Rightarrow> 'v list call_result option" where
  "when_all_tuple sched n =
     (case when_all_run sched n of
        None \<Rightarrow> None
      | Some g \<Rightarrow> if released (bar g) then Some (when_all_value_result (shared g)) else None)"

definition when_all_tuple_void :: "'v group_action list \<Rightarrow> nat \<Rightarrow> unit call_result option" where
  "when_all_tuple_void sched n =
     (case when_all_run sched n of
        None \<Rightarrow> None
      | Some g \<Rightarrow> if released (bar g) then Some (when_all_void_result (shared g)) else None)"

definition when_all_vector :: "'v group_action list \<Rightarrow> nat \<Rightarrow> 'v list call_result option" where
  "when_all_vector sched n =
     (if n = 0 then Some (Returned [])
      else case when_all_run sched n of
             None \<Rightarrow> None
           | Some g \<Rightarrow> if released (bar g) then Some (when_all_value_result (shared g)) else None)"

section \<open>Schedules\<close>

lemma group_run_snoc:
  "group_run body completion (as @ [a]) g =
     (case group_run body completion as g of
        None \<Rightarrow> None
      | Some g' \<Rightarrow> group_step body completion a g')"
  by (induction as arbitrary: g) (auto split: option.splits)

text \<open>
  Induction over a schedule that ran from a launch, forwards: what holds at the launch and is
  kept by every step holds at the end.
\<close>

lemma group_run_induct [consumes 1, case_names launch step]:
  assumes "group_run body completion sched g0 = Some g"
    and "P [] g0"
    and "\<And>as a g g'. group_run body completion as g0 = Some g \<Longrightarrow> P as g
           \<Longrightarrow> group_step body completion a g = Some g' \<Longrightarrow> P (as @ [a]) g'"
  shows "P sched g"
  using assms(1)
proof (induction sched arbitrary: g rule: rev_induct)
  case Nil
  with assms(2) show ?case by simp
next
  case (snoc a as)
  then show ?case using assms(3) by (auto simp: group_run_snoc split: option.splits)
qed

text \<open>Which bodies have ended, and how many steps are left, is a matter of the schedule alone.\<close>

definition body_ended :: "'v group_action list \<Rightarrow> nat \<Rightarrow> bool" where
  "body_ended sched i \<longleftrightarrow> (\<exists>out. Finish i out \<in> set sched)"

definition group_ok :: "nat \<Rightarrow> 'v group_action list \<Rightarrow> ('s, 'b) task_group \<Rightarrow> bool" where
  "group_ok n sched g \<longleftrightarrow>
     distinct (running g) \<and> distinct (handlers_due g)
   \<and> set (running g) = {i. i < n \<and> \<not> body_ended sched i}
   \<and> set (handlers_due g) \<subseteq> {i. i < n}
   \<and> length sched + 2 * length (running g) + length (handlers_due g) = 2 * n
   \<and> (\<forall>i out out'. Finish i out \<in> set sched \<and> Finish i out' \<in> set sched \<longrightarrow> out = out')
   \<and> (\<forall>i. body_ended sched i \<longrightarrow> i < n)
   \<and> set (handlers_due g) \<inter> set (running g) = {}"

lemma group_ok_launch: "group_ok n [] (launch st b n)"
  by (auto simp: group_ok_def launch_def body_ended_def)

lemma body_ended_snoc:
  "body_ended (as @ [a]) i \<longleftrightarrow> body_ended as i \<or> (\<exists>out. a = Finish i out)"
  by (auto simp: body_ended_def)

lemma length_remove1_in: "i \<in> set xs \<Longrightarrow> length xs = Suc (length (remove1 i xs))"
  by (induction xs) auto

lemma group_ok_finish:
  assumes ok: "group_ok n as g" and i: "i \<in> set (running g)"
    and g': "running g' = remove1 i (running g)" "handlers_due g' = i # handlers_due g"
  shows "group_ok n (as @ [Finish i out]) g'"
proof -
  have new: "\<not> body_ended as i" "i < n" "i \<notin> set (handlers_due g)"
    using i ok by (auto simp: group_ok_def)
  have once: "\<forall>j out1 out2. Finish j out1 \<in> set (as @ [Finish i out])
      \<and> Finish j out2 \<in> set (as @ [Finish i out]) \<longrightarrow> out1 = out2"
    using new(1) ok unfolding group_ok_def body_ended_def by auto
  show ?thesis
    using ok new once length_remove1_in [OF i]
    unfolding group_ok_def body_ended_snoc g' by (intro conjI) auto
qed

lemma group_ok_handler:
  assumes ok: "group_ok n as g" and i: "i \<in> set (handlers_due g)"
    and g': "running g' = running g" "handlers_due g' = remove1 i (handlers_due g)"
  shows "group_ok n (as @ [Handler i]) g'"
  using ok length_remove1_in [OF i]
  unfolding group_ok_def body_ended_snoc g' by (intro conjI) (auto simp: body_ended_def)

lemma group_ok_step:
  assumes "group_ok n as g" and "group_step body completion a g = Some g'"
  shows "group_ok n (as @ [a]) g'"
  using assms by (cases a) (auto split: if_splits intro: group_ok_finish group_ok_handler)

lemma group_run_ok:
  assumes "group_run body completion sched (launch st b n) = Some g"
  shows "group_ok n sched g"
  using assms by (induction rule: group_run_induct) (auto intro: group_ok_launch group_ok_step)

text \<open>
  As long as a body runs or a handler is due, the executor can take a step, whatever the
  outcomes \<open>f\<close> of the tasks are.
\<close>

lemma group_progress:
  assumes "running g \<noteq> [] \<or> handlers_due g \<noteq> []"
  shows "\<exists>a g'. group_step body completion a g = Some g' \<and> (\<forall>i out. a = Finish i out \<longrightarrow> out = f i)"
proof (cases "running g")
  case Nil
  with assms obtain i js where "handlers_due g = i # js" by (cases "handlers_due g") auto
  then have "group_step body completion (Handler i) g \<noteq> None" by simp
  then show ?thesis by blast
next
  case (Cons i js)
  then have "group_step body completion (Finish i (f i)) g \<noteq> None" by simp
  then show ?thesis by blast
qed

section \<open>Countdown barriers\<close>

text \<open>
  What a combinator relies on from its barrier: a completion counts one down, and the one that
  reaches zero releases a waiter that is suspended.
\<close>

locale countdown_barrier =
  fixes completion :: "'b \<Rightarrow> 'b"
    and left :: "'b \<Rightarrow> nat"
    and suspended :: "'b \<Rightarrow> bool"
    and opened :: "'b \<Rightarrow> bool"
  assumes left_completion: "left (completion b) = left b - 1"
    and stays_suspended: "suspended b \<Longrightarrow> left b > 1 \<Longrightarrow> suspended (completion b)"
    and last_releases: "suspended b \<Longrightarrow> left b = 1 \<Longrightarrow> opened (completion b)"
    and suspended_closed: "suspended b \<Longrightarrow> \<not> opened b"
begin

lemma barrier_invariant:
  assumes "group_run body completion sched (launch st b n) = Some g"
    and "left b = n" and "suspended b"
  shows "left (bar g) = length (running g) + length (handlers_due g)
       \<and> (if 0 < n \<and> left (bar g) = 0 then opened (bar g) else suspended (bar g))"
  using assms(1)
proof (induction rule: group_run_induct)
  case launch
  then show ?case using assms(2,3) by (auto simp: launch_def)
next
  case (step as a g g')
  show ?case
  proof (cases a)
    case (Finish i out)
    with step have i: "i \<in> set (running g)"
      and g': "bar g' = bar g" "running g' = remove1 i (running g)"
        "handlers_due g' = i # handlers_due g"
      by (auto split: if_splits)
    with step.IH length_remove1_in [OF i] show ?thesis by simp
  next
    case (Handler i)
    with step have i: "i \<in> set (handlers_due g)"
      and g': "bar g' = completion (bar g)" "running g' = running g"
        "handlers_due g' = remove1 i (handlers_due g)"
      by (auto split: if_splits)
    have len: "length (handlers_due g) = Suc (length (remove1 i (handlers_due g)))"
      using i by (rule length_remove1_in)
    have ok: "group_ok n as g" using step.hyps(1) by (rule group_run_ok)
    then have "0 < n" using i by (auto simp: group_ok_def)
    moreover have susp: "suspended (bar g)" "0 < left (bar g)" using step.IH len by auto
    moreover have "left (bar g) = 1 \<or> 1 < left (bar g)" using susp(2) by arith
    ultimately show ?thesis
      using step.IH g' len left_completion [of "bar g"] stays_suspended last_releases by auto
  qed
qed

lemma opened_iff_all_done:
  assumes "group_run body completion sched (launch st b n) = Some g"
    and "left b = n" and "suspended b" and "0 < n"
  shows "opened (bar g) \<longleftrightarrow> running g = [] \<and> handlers_due g = []"
  using barrier_invariant [OF assms(1-3)] assms(4) suspended_closed by (auto split: if_splits)

lemma opened_iff_length:
  assumes "group_run body completion sched (launch st b n) = Some g"
    and "left b = n" and "suspended b" and "0 < n"
  shows "opened (bar g) \<longleftrightarrow> length sched = 2 * n"
proof -
  have "length sched + 2 * length (running g) + length (handlers_due g) = 2 * n"
    using group_run_ok [OF assms(1)] by (simp add: group_ok_def)
  then show ?thesis by (auto simp: opened_iff_all_done [OF assms])
qed

lemma not_opened_progress:
  assumes "group_run body completion sched (launch st b n) = Some g"
    and "left b = n" and "suspended b" and "0 < n" and "\<not> opened (bar g)"
  shows "\<exists>a. group_run body completion (sched @ [a]) (launch st b n) \<noteq> None
           \<and> (\<forall>i out. a = Finish i out \<longrightarrow> out = f i)"
proof -
  obtain a g' where "group_step body completion a g = Some g'"
    and "\<forall>i out. a = Finish i out \<longrightarrow> out = f i"
    using group_progress opened_iff_all_done [OF assms(1-4)] assms(5) by blast
  with assms(1) show ?thesis by (auto simp: group_run_snoc)
qed

lemma empty_group_stuck:
  assumes "group_run body completion sched (launch st b 0) = Some g"
    and "left b = 0" and "suspended b"
  shows "\<not> opened (bar g)"
  using barrier_invariant [OF assms] suspended_closed by auto

end

interpretation tb: countdown_barrier
  "completion_handler :: task_barrier \<Rightarrow> task_barrier" remaining
  "\<lambda>b. waiting b \<and> \<not> released b" released
  by unfold_locales
     (auto simp: completion_handler_def barrier_timer_cancel_def Let_def)

lemma task_barrier_start:
  "remaining (barrier_wait (task_barrier_new n)) = n"
  "waiting (barrier_wait (task_barrier_new n)) \<and> \<not> released (barrier_wait (task_barrier_new n))"
  by (simp_all add: barrier_wait_def task_barrier_new_def)

section \<open>What when_all returns\<close>

text \<open>
  The specification does not mention any order: the exception of the failing task with the
  lowest index, and otherwise all the values, in the order of the tasks.
\<close>

fun first_exn :: "'v task_outcome list \<Rightarrow> exn option" where
  "first_exn [] = None"
| "first_exn (Throws x # outs) = Some x"
| "first_exn (Returns v # outs) = first_exn outs"

fun outcome_value :: "'v task_outcome \<Rightarrow> 'v option" where
  "outcome_value (Returns v) = Some v"
| "outcome_value (Throws x) = None"

fun outcome_exn :: "'v task_outcome \<Rightarrow> exn option" where
  "outcome_exn (Returns v) = None"
| "outcome_exn (Throws x) = Some x"

definition when_all_spec :: "'v task_outcome list \<Rightarrow> 'v list call_result" where
  "when_all_spec outs =
     (case first_exn outs of Some x \<Rightarrow> Raised x | None \<Rightarrow> Returned (map (the \<circ> outcome_value) outs))"

text \<open>A schedule of tasks whose outcomes are \<open>outs\<close>.\<close>

definition follows :: "'v task_outcome list \<Rightarrow> 'v group_action list \<Rightarrow> bool" where
  "follows outs sched \<longleftrightarrow>
     list_all (\<lambda>a. case a of Finish i out \<Rightarrow> i < length outs \<longrightarrow> out = outs ! i | Handler i \<Rightarrow> True) sched"

lemma check_errors_first_exn: "check_and_rethrow_errors (map outcome_exn outs) = first_exn outs"
  by (induction outs rule: first_exn.induct) simp_all

lemma no_exn_values: "first_exn outs = None \<Longrightarrow> None \<notin> set (map outcome_value outs)"
  by (induction outs rule: first_exn.induct) auto

definition store_matches :: "nat \<Rightarrow> 'v group_action list \<Rightarrow> 'v all_store \<Rightarrow> bool" where
  "store_matches n sched s \<longleftrightarrow>
     length (all_values s) = n \<and> length (all_errors s) = n
   \<and> (\<forall>i<n. \<not> body_ended sched i \<longrightarrow> all_values s ! i = None \<and> all_errors s ! i = None)
   \<and> (\<forall>i<n. \<forall>out. Finish i out \<in> set sched \<longrightarrow>
          all_values s ! i = outcome_value out \<and> all_errors s ! i = outcome_exn out)"

lemma store_matches_body:
  assumes "store_matches n as s" and "\<not> body_ended as i" and "i < n"
  shows "store_matches n (as @ [Finish i out]) (all_body i out s)"
proof -
  have "\<forall>out'. Finish i out' \<notin> set as" using assms(2) by (simp add: body_ended_def)
  with assms show ?thesis
    by (cases out) (auto simp: store_matches_def body_ended_snoc nth_list_update)
qed

lemma store_matches_handler:
  "store_matches n as s \<Longrightarrow> store_matches n (as @ [Handler i]) s"
  by (auto simp: store_matches_def body_ended_snoc)

lemma all_run_store:
  assumes "when_all_run sched n = Some g"
  shows "store_matches n sched (shared g)"
  using assms unfolding when_all_run_def when_all_start_def
proof (induction rule: group_run_induct)
  case launch
  then show ?case
    by (simp add: store_matches_def all_store_new_def WhenAll.launch_def)
next
  case (step as a g g')
  have ok: "group_ok n as g" using step.hyps(1) by (rule group_run_ok)
  show ?case
  proof (cases a)
    case (Finish i out)
    then have "i \<in> set (running g)" and "shared g' = all_body i out (shared g)"
      using step by (auto split: if_splits)
    then show ?thesis
      using Finish step.IH ok by (auto simp: group_ok_def intro!: store_matches_body)
  next
    case (Handler i)
    then have "shared g' = shared g" using step by (auto split: if_splits)
    then show ?thesis using Handler step.IH by (simp add: store_matches_handler)
  qed
qed

lemma all_run_ok: "when_all_run sched n = Some g \<Longrightarrow> group_ok n sched g"
  unfolding when_all_run_def when_all_start_def by (rule group_run_ok)

lemma complete_store:
  assumes run: "when_all_run sched (length outs) = Some g" and out: "follows outs sched"
    and fin: "running g = []"
  shows "all_values (shared g) = map outcome_value outs"
    and "all_errors (shared g) = map outcome_exn outs"
proof -
  have match: "store_matches (length outs) sched (shared g)" using run by (rule all_run_store)
  have "\<forall>i<length outs. Finish i (outs ! i) \<in> set sched"
  proof (intro allI impI)
    fix i assume i: "i < length outs"
    then have "body_ended sched i" using all_run_ok [OF run] fin by (auto simp: group_ok_def)
    then obtain out' where "Finish i out' \<in> set sched" by (auto simp: body_ended_def)
    moreover from this have "out' = outs ! i"
      using out i by (auto simp: follows_def list_all_iff)
    ultimately show "Finish i (outs ! i) \<in> set sched" by simp
  qed
  with match show "all_values (shared g) = map outcome_value outs"
    and "all_errors (shared g) = map outcome_exn outs"
    by (auto simp: store_matches_def intro!: nth_equalityI)
qed

lemma all_released_iff:
  assumes "outs \<noteq> []" and "when_all_run sched (length outs) = Some g"
  shows "released (bar g) \<longleftrightarrow> length sched = 2 * length outs"
    and "released (bar g) \<longleftrightarrow> running g = [] \<and> handlers_due g = []"
  using assms tb.opened_iff_length [OF _ task_barrier_start, of all_body sched]
    tb.opened_iff_all_done [OF _ task_barrier_start, of all_body sched]
  unfolding when_all_run_def when_all_start_def by fastforce+

definition when_all_void_spec :: "'v task_outcome list \<Rightarrow> unit call_result" where
  "when_all_void_spec outs =
     (case first_exn outs of Some x \<Rightarrow> Raised x | None \<Rightarrow> Returned ())"

lemma complete_results:
  assumes "when_all_run sched (length outs) = Some g" and "follows outs sched"
    and "running g = []"
  shows "when_all_value_result (shared g) = when_all_spec outs"
    and "when_all_void_result (shared g) = when_all_void_spec outs"
  using complete_store [OF assms] no_exn_values [of outs]
  by (auto simp: when_all_value_result_def when_all_void_result_def when_all_spec_def
      when_all_void_spec_def check_errors_first_exn split: option.split)

text \<open>
  (C6) \<^bold>\<open>when_all returns exactly when every body and every completion handler has run, and its
  result does not depend on the schedule .\<close> For tasks with the outcomes \<open>outs\<close>, under every
  interleaving of the bodies and of the completion handlers: \<open>when_all\<close> is suspended as long as
  one of the \<open>2 * n\<close> steps is missing; after the last one it rethrows the exception of the failing
  task with the lowest index, whichever task failed first, and otherwise returns the values in
  the order of the tasks. No optional is dereferenced empty. The pack, void and vector overloads
  agree.
\<close>

theorem when_all_any_schedule:
  assumes "outs \<noteq> []" and "when_all_run sched (length outs) = Some g" and "follows outs sched"
  shows "when_all_tuple sched (length outs)
           = (if length sched = 2 * length outs then Some (when_all_spec outs) else None)
       \<and> when_all_vector sched (length outs) = when_all_tuple sched (length outs)
       \<and> when_all_tuple_void sched (length outs)
           = (if length sched = 2 * length outs then Some (when_all_void_spec outs) else None)"
proof -
  note rel = all_released_iff [OF assms(1,2)]
  have "released (bar g) \<Longrightarrow> when_all_value_result (shared g) = when_all_spec outs"
    and "released (bar g) \<Longrightarrow> when_all_void_result (shared g) = when_all_void_spec outs"
    using complete_results [OF assms(2,3)] rel(2) by auto
  with rel(1) assms show ?thesis
    by (auto simp: when_all_tuple_def when_all_tuple_void_def when_all_vector_def)
qed

definition two_failures :: "nat task_outcome list" where
  "two_failures = [Returns 7, Throws (other_exn 1), Throws (system_error Timed_out)]"

definition two_failures_sched :: "nat group_action list" where
  "two_failures_sched =
     [Finish 2 (Throws (system_error Timed_out)), Handler 2, Finish 0 (Returns 7),
      Finish 1 (Throws (other_exn 1)), Handler 1, Handler 0]"

theorem when_all_any_schedule_witness:
  "when_all_tuple two_failures_sched 3 = Some (Raised (other_exn 1))
 \<and> when_all_vector two_failures_sched 3 = Some (Raised (other_exn 1))
 \<and> when_all_tuple_void two_failures_sched 3 = Some (Raised (other_exn 1))"
proof -
  have "map_option running (when_all_run two_failures_sched 3) = Some []" by code_simp
  then obtain g where "when_all_run two_failures_sched (length two_failures) = Some g"
    by (auto simp: two_failures_def numeral_3_eq_3)
  moreover have "follows two_failures two_failures_sched" by code_simp
  moreover have "two_failures \<noteq> []" by (simp add: two_failures_def)
  ultimately show ?thesis
    using when_all_any_schedule [of two_failures two_failures_sched g]
    by (simp add: two_failures_def two_failures_sched_def when_all_spec_def when_all_void_spec_def
        numeral_3_eq_3)
qed

text \<open>
  \<^bold>\<open>A group is never stuck and needs at most two steps per task .\<close> Whatever the outcomes
  \<open>outs\<close> of the tasks are, after every schedule either \<open>when_all\<close> has returned or some body or
  completion handler can still run, and no schedule is longer than \<open>2 * n\<close>: every execution in
  which the tasks end returns.
\<close>

theorem when_all_never_stuck:
  assumes "outs \<noteq> []" and "when_all_run sched (length outs) = Some g" and "follows outs sched"
  shows "length sched \<le> 2 * length outs
       \<and> (when_all_tuple sched (length outs) \<noteq> None
        \<or> (\<exists>a. when_all_run (sched @ [a]) (length outs) \<noteq> None \<and> follows outs (sched @ [a])))"
proof (cases "released (bar g)")
  case True
  then show ?thesis
    using assms(2) all_run_ok [OF assms(2)] by (simp add: when_all_tuple_def group_ok_def)
next
  case False
  then obtain a where "when_all_run (sched @ [a]) (length outs) \<noteq> None"
    and a: "\<forall>i out. a = Finish i out \<longrightarrow> out = outs ! i"
    using tb.not_opened_progress [OF _ task_barrier_start, of all_body sched _ "length outs" g "(!) outs"]
      assms(1,2)
    unfolding when_all_run_def when_all_start_def by blast
  moreover from a assms(3) have "follows outs (sched @ [a])"
    by (auto simp: follows_def split: group_action.split)
  ultimately show ?thesis using all_run_ok [OF assms(2)] by (auto simp: group_ok_def)
qed

theorem when_all_never_stuck_witness:
  "\<exists>a. when_all_run ([Finish 0 (Returns (7::nat))] @ [a]) 1 \<noteq> None
     \<and> follows [Returns 7] ([Finish 0 (Returns 7)] @ [a])"
proof -
  have "map_option running (when_all_run [Finish 0 (Returns (7::nat))] 1) = Some []" by code_simp
  then obtain g where "when_all_run [Finish 0 (Returns (7::nat))] (length [Returns (7::nat)]) = Some g"
    by auto
  moreover have "follows [Returns (7::nat)] [Finish 0 (Returns 7)]" by code_simp
  moreover have "when_all_tuple [Finish 0 (Returns (7::nat))] 1 = None" by code_simp
  ultimately show ?thesis
    using when_all_never_stuck [of "[Returns (7::nat)]" "[Finish 0 (Returns 7)]" g] by simp
qed

text \<open>
  \<^bold>\<open>when_all() with no awaitables never returns .\<close> The pack overload has no case for an empty
  pack: it launches nothing, so nobody cancels the barrier's timer and no schedule makes it
  return. The vector overload answers the empty vector at once.
\<close>

theorem when_all_empty_pack_hangs:
  "(\<forall>sched. when_all_tuple (sched :: 'v group_action list) 0 = None \<and> when_all_tuple_void sched 0 = None)
 \<and> when_all_vector ([] :: 'v group_action list) 0 = Some (Returned [])"
proof -
  have "\<not> released (bar g)" if "when_all_run (sched :: 'v group_action list) 0 = Some g" for sched g
    using that tb.empty_group_stuck [OF _ task_barrier_start, of all_body sched _ g]
    unfolding when_all_run_def when_all_start_def by simp
  then show ?thesis
    by (auto simp: when_all_tuple_def when_all_tuple_void_def when_all_vector_def split: option.split)
qed

end
