(* ===== verification/WhenAny.thy ===== *)
theory WhenAny
  imports WhenAll
begin

text \<open>
  \<open>when_any.hpp\<close>: racing a group of tasks. The executor is the scheduler of theory WhenAll, with
  the bodies and the barrier of \<open>when_any\<close>: a body that ends without an exception claims
  \<open>completed_index\<close> if nobody has, and the first completion handler asks the other tasks to
  stop. What a task does with its stop token is its own business, so a schedule carries the
  outcome of every task and no assumption is made on it.
\<close>

section \<open>race_barrier\<close>

record race_barrier = task_barrier +
  completed :: bool
  stop_requested :: bool

definition race_barrier_new :: "nat \<Rightarrow> race_barrier" where
  "race_barrier_new n =
     \<lparr>remaining = n, waiting = False, released = False, completed = False, stop_requested = False\<rparr>"

text \<open>
  The handler of \<open>race_barrier\<close>: the first one to run requests the stop, then the counter is
  decremented and the last one cancels the timer, as in \<open>task_barrier\<close>.
\<close>

definition race_completion_handler :: "race_barrier \<Rightarrow> race_barrier" where
  "race_completion_handler b =
     (let b1 = (if completed b then b else b\<lparr>completed := True, stop_requested := True\<rparr>);
          b2 = b1\<lparr>remaining := remaining b1 - 1\<rparr>
      in if remaining b2 = 0 then barrier_timer_cancel b2 else b2)"

section \<open>when_any\<close>

record 'v any_store =
  any_values :: "'v option list"
  any_errors :: "exn option list"
  completed_index :: nat

definition any_store_new :: "nat \<Rightarrow> 'v any_store" where
  "any_store_new n =
     \<lparr>any_values = replicate n None, any_errors = replicate n None, completed_index = n\<rparr>"

text \<open>\<open>completed_index.compare_exchange_strong(expected = n, i)\<close>\<close>

definition claim_index :: "nat \<Rightarrow> nat \<Rightarrow> 'v any_store \<Rightarrow> 'v any_store" where
  "claim_index n i s = (if completed_index s = n then s\<lparr>completed_index := i\<rparr> else s)"

text \<open>The body of the factory overloads (pack and vector): every exception is recorded.\<close>

fun any_body :: "nat \<Rightarrow> nat \<Rightarrow> 'v task_outcome \<Rightarrow> 'v any_store \<Rightarrow> 'v any_store" where
  "any_body n i (Returns v) s = claim_index n i (s\<lparr>any_values := (any_values s)[i := Some v]\<rparr>)"
| "any_body n i (Throws x) s = s\<lparr>any_errors := (any_errors s)[i := Some x]\<rparr>"

text \<open>The body of the overload for plain awaitables: \<open>operation_aborted\<close> is not recorded.\<close>

fun legacy_body :: "nat \<Rightarrow> nat \<Rightarrow> 'v task_outcome \<Rightarrow> 'v any_store \<Rightarrow> 'v any_store" where
  "legacy_body n i (Returns v) s = claim_index n i (s\<lparr>any_values := (any_values s)[i := Some v]\<rparr>)"
| "legacy_body n i (Throws x) s =
     (if x = system_error Operation_aborted then s
      else s\<lparr>any_errors := (any_errors s)[i := Some x]\<rparr>)"

text \<open>After the barrier: \<open>winner < n \<and> errors[winner]\<close> rethrows.\<close>

definition winner_error :: "nat \<Rightarrow> 'v any_store \<Rightarrow> exn option" where
  "winner_error n s =
     (if completed_index s < n then any_errors s ! completed_index s else None)"

definition any_void_result :: "nat \<Rightarrow> 'v any_store \<Rightarrow> nat call_result" where
  "any_void_result n s =
     (case winner_error n s of Some x \<Rightarrow> Raised x | None \<Rightarrow> Returned (completed_index s))"

definition no_value_error :: exn where
  "no_value_error = runtime_error ''Winner task did not produce a value''"

definition any_value_result :: "nat \<Rightarrow> 'v any_store \<Rightarrow> (nat \<times> 'v) call_result" where
  "any_value_result n s =
     (case winner_error n s of
        Some x \<Rightarrow> Raised x
      | None \<Rightarrow>
          (if completed_index s < n then
             (case any_values s ! completed_index s of
                Some v \<Rightarrow> Returned (completed_index s, v)
              | None \<Rightarrow> Raised no_value_error)
           else Raised no_value_error))"

text \<open>The plain-awaitable overload dereferences \<open>values[winner]\<close> without a check.\<close>

definition legacy_value_result :: "nat \<Rightarrow> 'v any_store \<Rightarrow> (nat \<times> 'v) call_result" where
  "legacy_value_result n s =
     (case winner_error n s of
        Some x \<Rightarrow> Raised x
      | None \<Rightarrow>
          (if completed_index s < n then
             (case any_values s ! completed_index s of
                Some v \<Rightarrow> Returned (completed_index s, v)
              | None \<Rightarrow> Undefined)
           else Undefined))"

definition when_any_start :: "nat \<Rightarrow> ('v any_store, race_barrier) task_group" where
  "when_any_start n = launch (any_store_new n) (barrier_wait (race_barrier_new n)) n"

definition when_any_run ::
  "'v group_action list \<Rightarrow> nat \<Rightarrow> ('v any_store, race_barrier) task_group option" where
  "when_any_run sched n = group_run (any_body n) race_completion_handler sched (when_any_start n)"

definition legacy_any_run ::
  "'v group_action list \<Rightarrow> nat \<Rightarrow> ('v any_store, race_barrier) task_group option" where
  "legacy_any_run sched n = group_run (legacy_body n) race_completion_handler sched (when_any_start n)"

definition resume_with ::
  "('v any_store \<Rightarrow> 'a call_result) \<Rightarrow> ('v any_store, race_barrier) task_group option
     \<Rightarrow> 'a call_result option" where
  "resume_with result r =
     (case r of
        None \<Rightarrow> None
      | Some g \<Rightarrow> if released (bar g) then Some (result (shared g)) else None)"

text \<open>
  The overloads under a schedule (\<open>None\<close>: still suspended). The two vector overloads reject an
  empty vector; the pack overload requires a non-empty pack.
\<close>

definition when_any_value :: "'v group_action list \<Rightarrow> nat \<Rightarrow> (nat \<times> 'v) call_result option" where
  "when_any_value sched n =
     (if n = 0 then Some (Raised (invalid_argument ''when_any requires at least one factory''))
      else resume_with (any_value_result n) (when_any_run sched n))"

definition when_any_void :: "'v group_action list \<Rightarrow> nat \<Rightarrow> nat call_result option" where
  "when_any_void sched n =
     (if n = 0 then Some (Raised (invalid_argument ''when_any requires at least one factory''))
      else resume_with (any_void_result n) (when_any_run sched n))"

definition when_any_legacy_value :: "'v group_action list \<Rightarrow> nat \<Rightarrow> (nat \<times> 'v) call_result option" where
  "when_any_legacy_value sched n =
     (if n = 0 then Some (Raised (invalid_argument ''when_any requires at least one awaitable''))
      else resume_with (legacy_value_result n) (legacy_any_run sched n))"

definition when_any_legacy_void :: "'v group_action list \<Rightarrow> nat \<Rightarrow> nat call_result option" where
  "when_any_legacy_void sched n =
     (if n = 0 then Some (Raised (invalid_argument ''when_any requires at least one awaitable''))
      else resume_with (any_void_result n) (legacy_any_run sched n))"

section \<open>The race\<close>

interpretation rb: countdown_barrier race_completion_handler remaining
  "\<lambda>b. waiting b \<and> \<not> released b" released
  by unfold_locales
     (auto simp: race_completion_handler_def barrier_timer_cancel_def Let_def)

lemma race_barrier_start:
  "remaining (barrier_wait (race_barrier_new n)) = n"
  "waiting (barrier_wait (race_barrier_new n)) \<and> \<not> released (barrier_wait (race_barrier_new n))"
  by (simp_all add: barrier_wait_def race_barrier_new_def)

text \<open>The first task, in schedule order, whose body ends without an exception.\<close>

fun first_success :: "'v group_action list \<Rightarrow> (nat \<times> 'v) option" where
  "first_success [] = None"
| "first_success (Finish i (Returns v) # as) = Some (i, v)"
| "first_success (a # as) = first_success as"

lemma first_success_snoc:
  "first_success (as @ [a]) =
     (case first_success as of Some p \<Rightarrow> Some p | None \<Rightarrow> first_success [a])"
  by (induction as rule: first_success.induct) auto

lemma first_success_in: "first_success as = Some (i, v) \<Longrightarrow> Finish i (Returns v) \<in> set as"
  by (induction as rule: first_success.induct) auto

definition winner :: "nat \<Rightarrow> 'v group_action list \<Rightarrow> nat" where
  "winner n sched = (case first_success sched of Some (i, v) \<Rightarrow> i | None \<Rightarrow> n)"

definition race_ok :: "nat \<Rightarrow> 'v group_action list \<Rightarrow> 'v any_store \<Rightarrow> bool" where
  "race_ok n sched s \<longleftrightarrow>
     length (any_values s) = n \<and> length (any_errors s) = n \<and> completed_index s = winner n sched
   \<and> (\<forall>i<n. \<not> body_ended sched i \<longrightarrow> any_errors s ! i = None)
   \<and> (\<forall>i<n. \<forall>v. Finish i (Returns v) \<in> set sched \<longrightarrow>
          any_values s ! i = Some v \<and> any_errors s ! i = None)"

text \<open>
  What the race relies on from the bodies: a returning task stores its value and claims the
  index, a throwing one touches at most its own error slot. Both kinds of body give this.
\<close>

locale race_body =
  fixes body :: "nat \<Rightarrow> nat \<Rightarrow> 'v task_outcome \<Rightarrow> 'v any_store \<Rightarrow> 'v any_store"
  assumes on_return: "body n i (Returns v) s = claim_index n i (s\<lparr>any_values := (any_values s)[i := Some v]\<rparr>)"
    and on_throw: "\<exists>e. body n i (Throws x) s = s\<lparr>any_errors := (any_errors s)[i := e]\<rparr>"
begin

lemma race_ok_return:
  assumes "race_ok n as s" and "\<not> body_ended as i" and "i < n"
    and ended: "\<And>j. body_ended as j \<Longrightarrow> j < n"
  shows "race_ok n (as @ [Finish i (Returns v)]) (body n i (Returns v) s)"
proof -
  have new: "\<forall>out'. Finish i out' \<notin> set as" using assms(2) by (simp add: body_ended_def)
  have "j < n" if "first_success as = Some (j, w)" for j w
    using first_success_in [OF that] ended by (auto simp: body_ended_def)
  then have "completed_index (body n i (Returns v) s) = winner n (as @ [Finish i (Returns v)])"
    using assms(1)
    by (auto simp: race_ok_def on_return claim_index_def winner_def first_success_snoc
        split: option.splits)
  with assms new show ?thesis
    by (auto simp: race_ok_def on_return claim_index_def body_ended_snoc nth_list_update)
qed

lemma race_ok_throw:
  assumes "race_ok n as s" and "\<not> body_ended as i" and "i < n"
  shows "race_ok n (as @ [Finish i (Throws x)]) (body n i (Throws x) s)"
proof -
  have new: "\<forall>out'. Finish i out' \<notin> set as" using assms(2) by (simp add: body_ended_def)
  obtain e where "body n i (Throws x) s = s\<lparr>any_errors := (any_errors s)[i := e]\<rparr>"
    using on_throw by blast
  with assms new show ?thesis
    by (auto simp: race_ok_def winner_def first_success_snoc body_ended_snoc nth_list_update
        split: option.split)
qed

lemma race_run_ok:
  assumes "group_run (body n) race_completion_handler sched (when_any_start n) = Some g"
  shows "race_ok n sched (shared g)"
  using assms unfolding when_any_start_def
proof (induction rule: group_run_induct)
  case launch
  then show ?case
    by (simp add: race_ok_def any_store_new_def WhenAll.launch_def winner_def)
next
  case (step as a g g')
  have ok: "group_ok n as g" using step.hyps(1) by (rule group_run_ok)
  show ?case
  proof (cases a)
    case (Finish i out)
    then have "i \<in> set (running g)" and "shared g' = body n i out (shared g)"
      using step by (auto split: if_splits)
    moreover from this have "\<not> body_ended as i" "i < n" using ok by (auto simp: group_ok_def)
    moreover have "\<And>j. body_ended as j \<Longrightarrow> j < n" using ok by (auto simp: group_ok_def)
    ultimately show ?thesis
      using Finish step.IH by (cases out) (auto intro: race_ok_return race_ok_throw)
  next
    case (Handler i)
    then have "shared g' = shared g" using step by (auto split: if_splits)
    then show ?thesis
      using Handler step.IH
      by (auto simp: race_ok_def winner_def first_success_snoc body_ended_snoc split: option.split)
  qed
qed

lemma race_released_iff:
  assumes "group_run (body n) race_completion_handler sched (when_any_start n) = Some g" and "0 < n"
  shows "released (bar g) \<longleftrightarrow> length sched = 2 * n"
  using assms rb.opened_iff_length [OF _ race_barrier_start, of "body n" sched _ n g]
  unfolding when_any_start_def by simp

lemma race_store_won:
  assumes run: "group_run (body n) race_completion_handler sched (when_any_start n) = Some g"
    and won: "first_success sched = Some (i, v)"
  shows "i < n" and "completed_index (shared g) = i"
    and "any_values (shared g) ! i = Some v" and "any_errors (shared g) ! i = None"
proof -
  have fin: "Finish i (Returns v) \<in> set sched" using won by (rule first_success_in)
  then have "body_ended sched i" by (auto simp: body_ended_def)
  moreover have "group_ok n sched g" using run unfolding when_any_start_def by (rule group_run_ok)
  ultimately show "i < n" by (auto simp: group_ok_def)
  with fin won race_run_ok [OF run] show "completed_index (shared g) = i"
    and "any_values (shared g) ! i = Some v" and "any_errors (shared g) ! i = None"
    by (auto simp: race_ok_def winner_def)
qed

lemma race_store_lost:
  assumes "group_run (body n) race_completion_handler sched (when_any_start n) = Some g"
    and "first_success sched = None"
  shows "completed_index (shared g) = n"
  using assms race_run_ok [OF assms(1)] by (simp add: race_ok_def winner_def)

lemma race_results:
  assumes run: "group_run (body n) race_completion_handler sched (when_any_start n) = Some g"
  shows "any_void_result n (shared g) = Returned (winner n sched)"
    and "any_value_result n (shared g)
       = (case first_success sched of Some p \<Rightarrow> Returned p | None \<Rightarrow> Raised no_value_error)"
    and "legacy_value_result n (shared g)
       = (case first_success sched of Some p \<Rightarrow> Returned p | None \<Rightarrow> Undefined)"
  using race_store_won [OF run] race_store_lost [OF run]
  by (cases "first_success sched";
      auto simp: any_void_result_def any_value_result_def legacy_value_result_def
        winner_error_def winner_def)+

end

interpretation ab: race_body any_body
  by unfold_locales auto

interpretation lb: race_body legacy_body
proof
  fix n i :: nat and x :: exn and s :: "'a any_store"
  show "\<exists>e. legacy_body n i (Throws x) s = s\<lparr>any_errors := (any_errors s)[i := e]\<rparr>"
    by (cases "x = system_error Operation_aborted")
       (auto intro: exI [of _ "any_errors s ! i"])
qed auto

text \<open>
  \<^bold>\<open>when_any returns only once every task has ended.\<close> The comments say that it waits for the first; under every
  interleaving, and whatever the tasks do with their stop token: the factory overloads are
  suspended until the last completion handler has run; then the value overload returns the
  index and the value of the first body, in schedule order, that ended without an exception,
  and throws a \<open>runtime_error\<close> when there is none. The void overload returns the index of that
  task, and \<open>n\<close> (no task) when all of them threw: their exceptions are dropped.
\<close>

lemma when_any_returns_last:
  assumes "0 < n" and "when_any_run sched n = Some g"
  shows "when_any_value sched n
           = (if length sched = 2 * n
              then Some (case first_success sched of Some p \<Rightarrow> Returned p | None \<Rightarrow> Raised no_value_error)
              else None)
       \<and> when_any_void sched n
           = (if length sched = 2 * n then Some (Returned (winner n sched)) else None)"
  using assms ab.race_released_iff [of n sched g] ab.race_results [of n sched g]
  by (simp add: resume_with_def when_any_value_def when_any_void_def when_any_run_def)

text \<open>
  \<^bold>\<open>The first completion stops the others, even a failed one.\<close> The stop is requested exactly
  when some completion handler has run, whatever the outcome of its task was: a task that
  throws at once makes the combinator ask the tasks that could still succeed to stop.
\<close>

lemma when_any_stop_request:
  assumes "when_any_run sched n = Some g"
  shows "stop_requested (bar g) \<longleftrightarrow> (\<exists>i. Handler i \<in> set sched)"
proof -
  have "stop_requested (bar g) = completed (bar g)
      \<and> (completed (bar g) \<longleftrightarrow> (\<exists>i. Handler i \<in> set sched))"
    using assms unfolding when_any_run_def when_any_start_def
  proof (induction rule: group_run_induct)
    case launch
    then show ?case by (simp add: WhenAll.launch_def barrier_wait_def race_barrier_new_def)
  next
    case (step as a g g')
    then show ?case
      by (cases a) (auto simp: race_completion_handler_def barrier_timer_cancel_def Let_def split: if_splits)
  qed
  then show ?thesis by simp
qed

text \<open>
  (C23) \<^bold>\<open>when_any picks the first task that succeeds and stops the others.\<close> Under every interleaving of
  bodies and completion handlers, and whatever the tasks do with their stop token: the stop is requested of
  all tasks exactly from the first completion handler on, whether its task succeeded or threw; and
  when the handlers have all run, the value overload has returned the index and the value of the first
  body, in schedule order, that ended without an exception, or thrown a \<open>runtime_error\<close> if there is none, and the
  void overload the index of that task, or \<open>n\<close> (no task) if all of them threw.
\<close>

theorem when_any_winner:
  assumes "0 < n" and "when_any_run sched n = Some g"
  shows "(stop_requested (bar g) \<longleftrightarrow> (\<exists>i. Handler i \<in> set sched))
       \<and> (length sched = 2 * n \<longrightarrow>
            when_any_value sched n
              = Some (case first_success sched of Some p \<Rightarrow> Returned p | None \<Rightarrow> Raised no_value_error)
          \<and> when_any_void sched n = Some (Returned (winner n sched)))"
  using when_any_returns_last [OF assms] when_any_stop_request [OF assms(2)] by simp

definition slow_then_fast :: "nat group_action list" where
  "slow_then_fast =
     [Finish 1 (Throws (other_exn 4)), Handler 1, Finish 2 (Returns 20), Finish 0 (Returns 10),
      Handler 0, Handler 2]"

theorem when_any_winner_witness:
  "map_option (stop_requested \<circ> bar) (when_any_run slow_then_fast 3) = Some True
 \<and> when_any_value slow_then_fast 3 = Some (Returned (2, 20))
 \<and> when_any_void slow_then_fast 3 = Some (Returned 2)"
proof -
  have "map_option running (when_any_run slow_then_fast 3) = Some []" by code_simp
  then obtain g where "when_any_run slow_then_fast 3 = Some g" by auto
  then show ?thesis
    using when_any_winner [of 3 slow_then_fast g] by (auto simp: slow_then_fast_def winner_def)
qed

lemma when_any_stop_request_witness:
  "map_option (stop_requested \<circ> bar) (when_any_run (take 2 slow_then_fast) 3) = Some True"
proof -
  have "map_option running (when_any_run (take 2 slow_then_fast) 3) = Some [0, 2]" by code_simp
  then obtain g where g: "when_any_run (take 2 slow_then_fast) 3 = Some g" by auto
  have "Handler 1 \<in> set (take 2 slow_then_fast)" by (simp add: slow_then_fast_def)
  then have "stop_requested (bar g)" using when_any_stop_request [OF g] by blast
  with g show ?thesis by simp
qed

text \<open>
  \<^bold>\<open>The awaitable overload dereferences an empty optional when every task throws .\<close> Under
  every complete schedule the overload for plain awaitables agrees with the factory overloads as
  long as one task succeeds; when none does, \<open>values[num_tasks]\<close> is dereferenced: undefined
  behaviour where the factory overload throws.
\<close>

theorem when_any_legacy_undefined:
  assumes "0 < n" and "legacy_any_run sched n = Some g" and "length sched = 2 * n"
  shows "when_any_legacy_value sched n
           = Some (case first_success sched of Some p \<Rightarrow> Returned p | None \<Rightarrow> Undefined)
       \<and> when_any_legacy_void sched n = Some (Returned (winner n sched))"
  using assms lb.race_released_iff [of n sched g] lb.race_results [of n sched g]
  by (simp add: resume_with_def when_any_legacy_value_def when_any_legacy_void_def legacy_any_run_def)

theorem when_any_legacy_undefined_witness:
  "when_any_legacy_value [Finish 0 (Throws (other_exn 1) :: nat task_outcome), Handler 0] 1 = Some Undefined"
proof -
  have "map_option running (legacy_any_run [Finish 0 (Throws (other_exn 1) :: nat task_outcome), Handler 0] 1)
      = Some []" by code_simp
  then obtain g where
    "legacy_any_run [Finish 0 (Throws (other_exn 1) :: nat task_outcome), Handler 0] 1 = Some g" by auto
  then show ?thesis
    using when_any_legacy_undefined [of 1 "[Finish 0 (Throws (other_exn 1)), Handler 0]" g] by simp
qed

end
