(* ===== verification/GraphqlLexer.thy ===== *)
theory GraphqlLexer
  imports Prelude
begin

text \<open>
  The tokenizer of \<open>examples/graphql_server/include/graphql/parser.hpp\<close> (class \<open>Tokenizer\<close>). Its state,
  the input and a position in it, is the position and the rest of the input from there; \<open>peek\<close> past
  the end is the NUL character, which is neither a digit nor any of the characters compared with.
  A thrown \<open>std::runtime_error\<close> is \<open>Inl\<close> with its message.
\<close>

section \<open>Tokens\<close>

datatype TokenType =
    TEnd | TName | TInt | TFloat | TString | TDollar | TBang | TColon | TEquals | TAt | TSpread
  | TLeftParen | TRightParen | TLeftBrace | TRightBrace | TLeftBracket | TRightBracket | TComma

datatype Token = Token (tok_type: TokenType) (tok_text: string) (tok_pos: nat)

text \<open>\<open><cctype>\<close> in the C locale.\<close>

definition isalpha :: "char \<Rightarrow> bool" where
  "isalpha c \<longleftrightarrow> (65 \<le> (of_char c :: nat) \<and> (of_char c :: nat) \<le> 90)
     \<or> (97 \<le> (of_char c :: nat) \<and> (of_char c :: nat) \<le> 122)"

abbreviation isdigit :: "char \<Rightarrow> bool" where
  "isdigit \<equiv> is_digit"

abbreviation isspace :: "char \<Rightarrow> bool" where
  "isspace \<equiv> is_blank"

definition name_start :: "char \<Rightarrow> bool" where
  "name_start c \<longleftrightarrow> isalpha c \<or> c = CHR ''_''"

definition name_char :: "char \<Rightarrow> bool" where
  "name_char c \<longleftrightarrow> isalpha c \<or> isdigit c \<or> c = CHR ''_''"

section \<open>Scanning\<close>

abbreviation newline_char :: char where "newline_char \<equiv> CHR 0x0A"
abbreviation return_char :: char where "return_char \<equiv> CHR 0x0D"

function skipIgnored :: "nat \<Rightarrow> string \<Rightarrow> nat \<times> string" where
  "skipIgnored p s =
     (case s of
        [] \<Rightarrow> (p, [])
      | ch # rest \<Rightarrow>
          if isspace ch \<or> ch = CHR '','' then skipIgnored (p + 1) rest
          else if ch = CHR ''#'' then
            let c = takeWhile (\<lambda>x. x \<noteq> newline_char \<and> x \<noteq> return_char) s
            in skipIgnored (p + length c) (drop (length c) s)
          else (p, s))"
  by pat_completeness auto
termination
  by (relation "measure (\<lambda>(p, s). length s)") auto

declare skipIgnored.simps [simp del]

definition readName :: "nat \<Rightarrow> string \<Rightarrow> Token \<times> nat \<times> string" where
  "readName p s =
     (let n = takeWhile name_char s
      in (Token TName n p, p + length n, drop (length n) s))"

text \<open>\<open>match('-')\<close>, the digits, an optional fraction and an optional exponent, one after the other.\<close>

definition take_sign :: "string \<Rightarrow> string" where
  "take_sign s = (if s \<noteq> [] \<and> hd s = CHR ''-'' then [CHR ''-''] else [])"

definition take_fraction :: "string \<Rightarrow> string" where
  "take_fraction s =
     (case s of
        c # d # rest \<Rightarrow> if c = CHR ''.'' \<and> isdigit d then c # takeWhile isdigit (d # rest) else []
      | _ \<Rightarrow> [])"

definition take_exponent :: "string \<Rightarrow> string" where
  "take_exponent s =
     (case s of
        c # rest \<Rightarrow>
          if c = CHR ''e'' \<or> c = CHR ''E'' then
            let sg = (if rest \<noteq> [] \<and> hd rest \<in> {CHR ''+'', CHR ''-''} then [hd rest] else [])
            in c # sg @ takeWhile isdigit (drop (length sg) rest)
          else []
      | [] \<Rightarrow> [])"

definition readNumber :: "nat \<Rightarrow> string \<Rightarrow> Token \<times> nat \<times> string" where
  "readNumber p s =
     (let sg = take_sign s;
          ds = takeWhile isdigit (drop (length sg) s);
          s1 = drop (length (sg @ ds)) s;
          fr = take_fraction s1;
          s2 = drop (length fr) s1;
          ex = take_exponent s2;
          txt = sg @ ds @ fr @ ex
      in (Token (if fr = [] \<and> ex = [] then TInt else TFloat) txt p, p + length txt, drop (length txt) s))"

definition unescape :: "char \<Rightarrow> char" where
  "unescape c =
     (if c = CHR ''b'' then CHR 0x08 else if c = CHR ''f'' then CHR 0x0C
      else if c = CHR ''n'' then CHR 0x0A else if c = CHR ''r'' then CHR 0x0D
      else if c = CHR ''t'' then CHR 0x09 else c)"

abbreviation quote_char :: char where "quote_char \<equiv> CHR 0x22"
abbreviation backslash_char :: char where "backslash_char \<equiv> CHR 0x5C"

text \<open>The loop of \<open>readString\<close> behind the opening quote.\<close>

fun string_chars :: "nat \<Rightarrow> nat \<Rightarrow> string \<Rightarrow> string \<Rightarrow> string + Token \<times> nat \<times> string" where
  "string_chars start p res [] =
     Inl (''Unterminated string at position '' @ to_string start)"
| "string_chars start p res (ch # s) =
     (if ch = quote_char then Inr (Token TString res start, p + 1, s)
      else if ch = backslash_char then
        (case s of
           [] \<Rightarrow> Inl (''Unterminated escape sequence at position '' @ to_string (p + 1))
         | e # s' \<Rightarrow> string_chars start (p + 2) (res @ [unescape e]) s')
      else string_chars start (p + 1) (res @ [ch]) s)"

definition readString :: "nat \<Rightarrow> string \<Rightarrow> string + Token \<times> nat \<times> string" where
  "readString p s = string_chars p (p + 1) [] (tl s)"

definition punctuation :: "char \<Rightarrow> TokenType option" where
  "punctuation ch =
     map_of [(CHR ''$'', TDollar), (CHR ''!'', TBang), (CHR '':'', TColon), (CHR ''='', TEquals),
             (CHR ''@'', TAt), (CHR ''('', TLeftParen), (CHR '')'', TRightParen),
             (CHR ''{'', TLeftBrace), (CHR ''}'', TRightBrace), (CHR ''['', TLeftBracket),
             (CHR '']'', TRightBracket), (CHR '','', TComma)] ch"

definition next_token :: "nat \<Rightarrow> string \<Rightarrow> string + Token \<times> nat \<times> string" where
  "next_token p0 s0 =
     (case skipIgnored p0 s0 of (p, s) \<Rightarrow>
      case s of
        [] \<Rightarrow> Inr (Token TEnd [] p, p, [])
      | ch # rest \<Rightarrow>
          if name_start ch then Inr (readName p s)
          else if isdigit ch \<or> (ch = CHR ''-'' \<and> rest \<noteq> [] \<and> isdigit (hd rest)) then Inr (readNumber p s)
          else
            (case punctuation ch of
               Some ty \<Rightarrow> Inr (Token ty [ch] p, p + 1, rest)
             | None \<Rightarrow>
                 if ch = quote_char then readString p s
                 else if ch = CHR ''.'' \<and> take 2 rest = ''..'' then Inr (Token TSpread ''...'' p, p + 3, drop 2 rest)
                 else Inl (''Unexpected character '' @ [CHR 0x27, ch, CHR 0x27] @ '' at position '' @ to_string p)))"

section \<open>Every token makes progress\<close>

lemma skipIgnored_Nil [simp]: "skipIgnored p [] = (p, [])"
  by (simp add: skipIgnored.simps)

lemma skipIgnored_blank:
  "isspace ch \<or> ch = CHR '','' \<Longrightarrow> skipIgnored p (ch # s) = skipIgnored (p + 1) s"
  by (simp add: skipIgnored.simps [of p "ch # s"])

lemma skipIgnored_comment:
  "c = takeWhile (\<lambda>x. x \<noteq> newline_char \<and> x \<noteq> return_char) (CHR ''#'' # s)
    \<Longrightarrow> skipIgnored p (CHR ''#'' # s) = skipIgnored (p + length c) (drop (length c) (CHR ''#'' # s))"
  by (simp add: skipIgnored.simps [of p "CHR ''#'' # s"] is_blank_def Let_def)

lemma skipIgnored_stop:
  "\<not> isspace ch \<Longrightarrow> ch \<noteq> CHR '','' \<Longrightarrow> ch \<noteq> CHR ''#'' \<Longrightarrow> skipIgnored p (ch # s) = (p, ch # s)"
  by (simp add: skipIgnored.simps [of p "ch # s"])

lemma skipIgnored_length: "length (snd (skipIgnored p s)) \<le> length s"
proof (induction "length s" arbitrary: p s rule: less_induct)
  case less
  show ?case
  proof (cases s)
    case Nil
    then show ?thesis by simp
  next
    case (Cons ch rest)
    let ?c = "takeWhile (\<lambda>x. x \<noteq> newline_char \<and> x \<noteq> return_char) (CHR ''#'' # rest)"
    consider "isspace ch \<or> ch = CHR '',''" | "ch = CHR ''#''"
      | "\<not> isspace ch" "ch \<noteq> CHR '',''" "ch \<noteq> CHR ''#''" by blast
    then show ?thesis
    proof cases
      case 1
      then show ?thesis using less [of rest "p + 1"] Cons by (simp add: skipIgnored_blank)
    next
      case 2
      have "length (drop (length ?c) (CHR ''#'' # rest)) < length s" using Cons by simp
      from less [OF this, of "p + length ?c"] this show ?thesis
        unfolding Cons 2 skipIgnored_comment [OF refl] by linarith
    next
      case 3
      then show ?thesis using Cons by (simp add: skipIgnored_stop)
    qed
  qed
qed

lemma string_chars_result:
  assumes "string_chars start p res s = Inr (t, p', s')"
  shows "length s' < length s" and "tok_type t = TString"
proof -
  have "length s' < length s \<and> tok_type t = TString"
    using assms
  proof (induction start p res s rule: string_chars.induct)
    case (2 start p res ch s)
    then show ?case by (cases s) (auto split: if_splits)
  qed simp
  then show "length s' < length s" and "tok_type t = TString" by auto
qed

text \<open>
  A token other than the end marker consumes at least one character, and the end marker comes
  only when the rest is empty.
\<close>

lemma next_token_progress:
  assumes "next_token p s = Inr (t, p', s')"
  shows "if tok_type t = TEnd then s' = [] else length s' < length s"
proof -
  obtain q r where q: "skipIgnored p s = (q, r)" by (cases "skipIgnored p s")
  have "length r \<le> length s" using skipIgnored_length [of p s] q by simp
  moreover have "if tok_type t = TEnd then s' = [] else length s' < length r"
  proof (cases r)
    case Nil
    then show ?thesis using assms q by (auto simp: next_token_def)
  next
    case (Cons ch rest)
    then show ?thesis
      using assms q
      by (auto simp: next_token_def readName_def readNumber_def readString_def Let_def name_start_def
          name_char_def take_sign_def punctuation_def
          split: if_splits dest: string_chars_result)
  qed
  ultimately show ?thesis by (auto split: if_splits)
qed

section \<open>Printed tokens are read back\<close>

text \<open>
  The text of a token, and what a printed token may hold. Floating-point numbers are left out:
  nothing prints them.
\<close>

definition escape_char :: "char \<Rightarrow> string" where
  "escape_char c = (if c = quote_char \<or> c = backslash_char then [backslash_char, c] else [c])"

fun show_token :: "TokenType \<times> string \<Rightarrow> string" where
  "show_token (TString, tx) = quote_char # concat (map escape_char tx) @ [quote_char]"
| "show_token (ty, tx) = tx"

definition name_ok :: "string \<Rightarrow> bool" where
  "name_ok tx \<longleftrightarrow> tx \<noteq> [] \<and> name_start (hd tx) \<and> list_all name_char tx"

definition int_ok :: "string \<Rightarrow> bool" where
  "int_ok tx \<longleftrightarrow> (let ds = drop (length (take_sign tx)) tx in ds \<noteq> [] \<and> list_all isdigit ds)"

fun tok_ok :: "TokenType \<times> string \<Rightarrow> bool" where
  "tok_ok (TName, tx) = name_ok tx"
| "tok_ok (TInt, tx) = int_ok tx"
| "tok_ok (TString, tx) = True"
| "tok_ok (TSpread, tx) = (tx = ''...'')"
| "tok_ok (ty, tx) = (length tx = 1 \<and> punctuation (hd tx) = Some ty \<and> ty \<noteq> TComma)"

abbreviation space_char :: char where "space_char \<equiv> CHR '' ''"

lemma next_token_blank: "next_token p (space_char # s) = next_token (p + 1) s"
  by (simp add: next_token_def skipIgnored_blank is_blank_def)

lemma class_disjoint:
  "isalpha c \<Longrightarrow> \<not> isspace c" "isdigit c \<Longrightarrow> \<not> isspace c"
  "isalpha c \<Longrightarrow> \<not> isdigit c"
  by (auto simp: isalpha_def is_digit_def is_blank_def)

lemma name_start_stop: "name_start c \<Longrightarrow> \<not> isspace c \<and> c \<noteq> CHR '','' \<and> c \<noteq> CHR ''#''"
  by (auto simp: name_start_def isalpha_def is_blank_def)

lemma blank_classes: "\<not> name_char space_char" "\<not> isdigit space_char" "\<not> name_start space_char"
  by (simp_all add: name_char_def name_start_def isalpha_def is_digit_def)

lemma lex_name:
  assumes "name_ok tx"
  shows "next_token p (tx @ space_char # s) = Inr (Token TName tx p, p + length tx, space_char # s)"
proof -
  obtain c tx' where tx: "tx = c # tx'" using assms by (cases tx) (auto simp: name_ok_def)
  have "takeWhile name_char (tx @ space_char # s) = tx"
    using assms by (auto simp: name_ok_def list_all_iff takeWhile_append_stop blank_classes)
  moreover have "name_start c" using assms tx by (simp add: name_ok_def)
  ultimately show ?thesis
    using name_start_stop [of c] tx
    by (simp add: next_token_def skipIgnored_stop readName_def)
qed

lemma take_fraction_blank [simp]: "take_fraction (space_char # s) = []"
  by (cases s) (simp_all add: take_fraction_def)

lemma take_exponent_blank [simp]: "take_exponent (space_char # s) = []"
  by (simp add: take_exponent_def)

lemma readNumber_int:
  assumes "sg = [] \<or> sg = [CHR ''-'']" and "ds \<noteq> []" and "\<forall>x\<in>set ds. isdigit x"
  shows "readNumber p ((sg @ ds) @ space_char # s)
       = (Token TInt (sg @ ds) p, p + length (sg @ ds), space_char # s)"
proof -
  let ?s = "(sg @ ds) @ space_char # s"
  have "hd ds \<noteq> CHR ''-''" using assms(2,3) by (cases ds) (auto simp: is_digit_def)
  then have sign: "take_sign ?s = sg" using assms(1,2) by (auto simp: take_sign_def)
  have digits: "takeWhile isdigit (drop (length sg) ?s) = ds"
    using assms(3) by (simp add: takeWhile_append_stop blank_classes)
  show ?thesis unfolding readNumber_def sign Let_def digits by simp
qed

lemma next_token_number:
  assumes "isdigit c \<or> c = CHR ''-'' \<and> s \<noteq> [] \<and> isdigit (hd s)"
  shows "next_token p (c # s) = Inr (readNumber p (c # s))"
proof -
  have "\<not> name_start c" "\<not> isspace c" "c \<noteq> CHR '',''" "c \<noteq> CHR ''#''"
    using assms by (auto simp: name_start_def isalpha_def is_digit_def is_blank_def)
  then show ?thesis using assms by (simp add: next_token_def skipIgnored_stop)
qed

lemma lex_int:
  assumes "int_ok tx"
  shows "next_token p (tx @ space_char # s) = Inr (Token TInt tx p, p + length tx, space_char # s)"
proof -
  define sg where "sg = take_sign tx"
  define ds where "ds = drop (length sg) tx"
  have ds: "ds \<noteq> []" "\<forall>x\<in>set ds. isdigit x" using assms
    by (auto simp: int_ok_def ds_def sg_def Let_def list_all_iff)
  have tx: "tx = sg @ ds" by (cases tx) (auto simp: ds_def sg_def take_sign_def)
  have sg: "sg = [] \<or> sg = [CHR ''-'']" by (simp add: sg_def take_sign_def)
  obtain c r where c: "tx @ space_char # s = c # r" by (cases "tx @ space_char # s") auto
  have "isdigit c \<or> c = CHR ''-'' \<and> r \<noteq> [] \<and> isdigit (hd r)"
    using sg ds tx c by (cases ds) auto
  then have "next_token p (tx @ space_char # s) = Inr (readNumber p (tx @ space_char # s))"
    unfolding c by (rule next_token_number)
  then show ?thesis unfolding tx readNumber_int [OF sg ds] .
qed

lemma lex_string_chars:
  "string_chars start p res (concat (map escape_char tx) @ quote_char # s)
     = Inr (Token TString (res @ tx) start, p + length (concat (map escape_char tx)) + 1, s)"
proof (induction tx arbitrary: p res)
  case (Cons c tx)
  have "unescape quote_char = quote_char" "unescape backslash_char = backslash_char"
    by (simp_all add: unescape_def)
  then show ?case using Cons by (auto simp: escape_char_def)
qed simp

lemma lex_string:
  "next_token p (show_token (TString, tx) @ s)
     = Inr (Token TString tx p, p + length (show_token (TString, tx)), s)"
proof -
  have "\<not> name_start quote_char" "\<not> isdigit quote_char" "\<not> isspace quote_char"
    by (simp_all add: name_start_def isalpha_def is_digit_def is_blank_def)
  then show ?thesis
    by (simp add: next_token_def skipIgnored_stop punctuation_def readString_def lex_string_chars)
qed

lemma punctuation_class:
  assumes "punctuation c = Some ty" and "ty \<noteq> TComma"
  shows "\<not> name_start c \<and> \<not> isdigit c \<and> \<not> isspace c \<and> c \<noteq> CHR '','' \<and> c \<noteq> CHR ''#'' \<and> c \<noteq> CHR ''-''"
  using assms
  by (auto simp: punctuation_def name_start_def isalpha_def is_digit_def is_blank_def split: if_splits)

lemma lex_punctuation:
  assumes "punctuation c = Some ty" and "ty \<noteq> TComma"
  shows "next_token p (c # s) = Inr (Token ty [c] p, p + 1, s)"
  using punctuation_class [OF assms] assms by (simp add: next_token_def skipIgnored_stop)

lemma lex_spread: "next_token p (''...'' @ s) = Inr (Token TSpread ''...'' p, p + 3, s)"
  by (simp add: next_token_def skipIgnored_stop punctuation_def name_start_def isalpha_def is_digit_def
      is_blank_def)

lemma lex_token:
  assumes "tok_ok t"
  shows "next_token p (show_token t @ space_char # s)
       = Inr (Token (fst t) (snd t) p, p + length (show_token t), space_char # s)"
proof -
  obtain ty tx where t: "t = (ty, tx)" by (cases t)
  have punct: ?thesis if "length tx = 1" "punctuation (hd tx) = Some ty" "ty \<noteq> TComma" "ty \<noteq> TString"
    using that t lex_punctuation [of "hd tx" ty p "space_char # s"] by (cases tx; cases ty) auto
  show ?thesis
    using assms t punct lex_name [of tx p s] lex_int [of tx p s] lex_string [of p tx "space_char # s"]
      lex_spread [of p "space_char # s"]
    by (cases ty) (auto simp del: show_token.simps(1))
qed

text \<open>The tokens, without their positions, that the tokenizer delivers from a state.\<close>

fun lexes :: "nat \<Rightarrow> string \<Rightarrow> (TokenType \<times> string) list \<Rightarrow> bool" where
  "lexes p s [] \<longleftrightarrow> (\<exists>q. next_token p s = Inr (Token TEnd [] q, q, []))"
| "lexes p s (t # ts) \<longleftrightarrow>
     (\<exists>q p' s'. next_token p s = Inr (Token (fst t) (snd t) q, p', s') \<and> lexes p' s' ts)"

definition show_tokens :: "(TokenType \<times> string) list \<Rightarrow> string" where
  "show_tokens ts = concat (map (\<lambda>t. show_token t @ [space_char]) ts)"

lemma lexes_blank: "lexes p (space_char # s) ts = lexes (p + 1) s ts"
  by (cases ts) (simp_all add: next_token_blank)

lemma lexes_show:
  "list_all tok_ok ts \<Longrightarrow> lexes p (show_tokens ts) ts"
proof (induction ts arbitrary: p)
  case Nil
  then show ?case by (simp add: show_tokens_def next_token_def)
next
  case (Cons t ts)
  then have "lexes (p + length (show_token t)) (space_char # show_tokens ts) ts"
    by (simp add: lexes_blank)
  with Cons.prems show ?case by (simp add: show_tokens_def lex_token)
qed

end
