(* ===== verification/Json.thy ===== *)
theory Json
  imports Prelude "HOL-Library.Char_ord" "HOL-Library.List_Lexorder"
begin

text \<open>
  The JSON values of the GraphQL programs (\<open>nlohmann::json\<close> as the sources use it). An object is
  the list of its members in iteration order, that is sorted by key, as the library's default
  object type keeps them. \<open>'f\<close> stands for \<open>double\<close>.
\<close>

datatype 'f json =
    JNull
  | JBool bool
  | JInt int
  | JFloat 'f
  | JStr string
  | JArr "'f json list"
  | JObj "(string \<times> 'f json) list"

fun is_object :: "'f json \<Rightarrow> bool" where
  "is_object (JObj m) = True"
| "is_object _ = False"

fun is_array :: "'f json \<Rightarrow> bool" where
  "is_array (JArr xs) = True"
| "is_array _ = False"

text \<open>\<open>j.contains(k)\<close> and the member behind it; a value that is not an object contains nothing.\<close>

fun json_get :: "'f json \<Rightarrow> string \<Rightarrow> 'f json option" where
  "json_get (JObj m) k = map_of m k"
| "json_get _ k = None"

abbreviation json_contains :: "'f json \<Rightarrow> string \<Rightarrow> bool" where
  "json_contains j k \<equiv> json_get j k \<noteq> None"

text \<open>\<open>j[k] = v\<close> on an object, or on a null value, which becomes an object.\<close>

fun json_put :: "string \<Rightarrow> 'f json \<Rightarrow> 'f json \<Rightarrow> 'f json" where
  "json_put k v (JObj m) = JObj (omap_put k v m)"
| "json_put k v JNull = JObj [(k, v)]"
| "json_put k v j = j"

text \<open>
  The members seen by a loop from \<open>begin()\<close> to \<open>end()\<close> that calls \<open>it.key()\<close>. \<open>None\<close> is the exception
  that \<open>key()\<close> throws on the elements of an array and on the single element of a scalar.
\<close>

fun json_items :: "'f json \<Rightarrow> (string \<times> 'f json) list option" where
  "json_items (JObj m) = Some m"
| "json_items JNull = Some []"
| "json_items (JArr []) = Some []"
| "json_items _ = None"

lemma json_get_put:
  assumes "is_object j"
  shows "json_get (json_put k v j) k' = (if k' = k then Some v else json_get j k')"
  using assms by (cases j) auto

lemma is_object_put [simp]: "is_object (json_put k v j) \<longleftrightarrow> is_object j \<or> j = JNull"
  by (cases j) auto

text \<open>Setting the members of a list one after the other.\<close>

definition json_puts :: "(string \<times> 'f json) list \<Rightarrow> 'f json \<Rightarrow> 'f json" where
  "json_puts kvs j = fold (\<lambda>(k, v). json_put k v) kvs j"

lemma json_puts_Nil [simp]: "json_puts [] j = j"
  by (simp add: json_puts_def)

lemma json_puts_Cons [simp]: "json_puts ((k, v) # kvs) j = json_puts kvs (json_put k v j)"
  by (simp add: json_puts_def)

lemma is_object_puts: "is_object j \<Longrightarrow> is_object (json_puts kvs j)"
  by (induction kvs arbitrary: j) auto

lemma json_get_puts:
  assumes "is_object j"
  shows "json_get (json_puts kvs j) k =
     (case map_of (rev kvs) k of Some v \<Rightarrow> Some v | None \<Rightarrow> json_get j k)"
  using assms
proof (induction kvs arbitrary: j)
  case (Cons kv kvs)
  then show ?case
    by (cases kv) (auto simp: json_get_put map_add_def split: option.split)
qed simp

text \<open>Rebuilding an object from its members in order gives the object back.\<close>

lemma omap_put_last:
  "\<forall>x\<in>set m. fst x < k \<Longrightarrow> omap_put k v m = m @ [(k, v)]"
  by (induction m) (auto simp: less_imp_neq dest: less_asym)

lemma json_puts_sorted_from:
  assumes "omap_ok (m @ kvs)"
  shows "json_puts kvs (JObj m) = JObj (m @ kvs)"
  using assms
proof (induction kvs arbitrary: m)
  case (Cons kv kvs)
  obtain k v where kv: "kv = (k, v)" by (cases kv)
  have "\<forall>x\<in>set m. fst x < k" using Cons.prems kv by (auto simp: omap_ok_def sorted_wrt_append)
  then have "json_puts (kv # kvs) (JObj m) = json_puts kvs (JObj (m @ [kv]))"
    by (simp add: kv omap_put_last)
  with Cons.IH [of "m @ [kv]"] Cons.prems show ?case by simp
qed simp

lemma json_puts_sorted: "omap_ok kvs \<Longrightarrow> json_puts kvs (JObj []) = JObj kvs"
  using json_puts_sorted_from [of "[]" kvs] by simp

section \<open>Typed access\<close>

text \<open>Exceptions of the JSON library: a missing key (\<open>at\<close>), a value of the wrong type.\<close>

datatype json_exn = Out_of_range string | Type_error

fun get_string :: "'f json \<Rightarrow> json_exn + string" where
  "get_string (JStr s) = Inr s"
| "get_string _ = Inl Type_error"

fun get_bool :: "'f json \<Rightarrow> json_exn + bool" where
  "get_bool (JBool b) = Inr b"
| "get_bool _ = Inl Type_error"

text \<open>\<open>get<int>\<close>: numbers and booleans are converted; \<open>trunc\<close> converts a floating-point number.\<close>

fun get_int :: "('f \<Rightarrow> int) \<Rightarrow> 'f json \<Rightarrow> json_exn + int" where
  "get_int trunc (JInt i) = Inr (sint (word_of_int i :: 32 word))"
| "get_int trunc (JFloat f) = Inr (trunc f)"
| "get_int trunc (JBool b) = Inr (of_bool b)"
| "get_int trunc _ = Inl Type_error"

fun get_string_list :: "'f json \<Rightarrow> json_exn + string list" where
  "get_string_list (JArr xs) = emap get_string xs"
| "get_string_list _ = Inl Type_error"

fun json_at :: "'f json \<Rightarrow> string \<Rightarrow> json_exn + 'f json" where
  "json_at (JObj m) k = (case map_of m k of Some v \<Rightarrow> Inr v | None \<Rightarrow> Inl (Out_of_range k))"
| "json_at _ k = Inl Type_error"

text \<open>\<open>j.value(key, fallback)\<close> with a reader for the type of the fallback.\<close>

definition json_value :: "('f json \<Rightarrow> json_exn + 'a) \<Rightarrow> 'f json \<Rightarrow> string \<Rightarrow> 'a \<Rightarrow> json_exn + 'a" where
  "json_value rd j k fallback =
     (if \<not> is_object j then Inl Type_error
      else case json_get j k of Some v \<Rightarrow> rd v | None \<Rightarrow> Inr fallback)"

end
