(* ===== verification/GraphqlParser.thy ===== *)
theory GraphqlParser
  imports GraphqlLexer Json
begin

text \<open>
  The syntax trees of \<open>examples/graphql_server/include/graphql/ast.hpp\<close> and the recursive-descent
  parser \<open>Parser::Impl\<close> of \<open>parser.hpp\<close>. A parser maps the parser object's state (the current token
  and the tokenizer) to a result: a value with the state behind it, or the message of the thrown
  exception. The loops and the recursion of the parser count down a fuel; \<open>OutOfFuel\<close> is not an
  outcome of the program, and \<open>parse\<close> supplies fuel that is shown to be enough for every text.
  \<open>stod\<close>, the library's conversion of a decimal text to a \<open>double\<close>, is a parameter.
\<close>

section \<open>Syntax trees\<close>

datatype Kind = KInt | KFloat | KString | KBoolean | KNull | KEnum | KList | KObject | KVariable

datatype 'f Value = Value (val_kind: Kind) (val_json: "'f json")

datatype 'f Argument = Argument (arg_name: string) (arg_value: "'f Value")

datatype 'f Directive = Directive (dir_name: string) (dir_arguments: "'f Argument list")

datatype 'f FieldSelection =
  FieldSelection (fs_name: string) (fs_alias: string) (fs_spread: string)
    (fs_arguments: "'f Argument list") (fs_directives: "'f Directive list")
    (fs_selections: "'f FieldSelection list")

datatype 'f FragmentDefinition =
  FragmentDefinition (frag_name: string) (frag_typeCondition: string)
    (frag_directives: "'f Directive list") (frag_selections: "'f FieldSelection list")

datatype 'f VariableDefinition =
  VariableDefinition (var_name: string) (var_typeName: string) (var_nonNull: bool) (var_isList: bool)
    (var_default: "'f Value option")

datatype OperationType = Query | Mutation | Subscription

text \<open>\<open>fragments\<close> is an unordered map that is only looked up by name; here it is kept in key order.\<close>

record 'f Operation =
  op_type :: OperationType
  op_name :: string
  op_variables :: "'f VariableDefinition list"
  op_directives :: "'f Directive list"
  op_selections :: "'f FieldSelection list"
  op_fragments :: "(string \<times> 'f FragmentDefinition) list"

section \<open>Parsers\<close>

type_synonym pstate = "Token \<times> nat \<times> string"

datatype 'a presult = Parsed 'a pstate | Failed string | OutOfFuel

type_synonym 'a parser = "pstate \<Rightarrow> 'a presult"

definition preturn :: "'a \<Rightarrow> 'a parser" where
  "preturn a s = Parsed a s"

definition pbind :: "'a parser \<Rightarrow> ('a \<Rightarrow> 'b parser) \<Rightarrow> 'b parser" where
  "pbind p f s =
     (case p s of
        Parsed a s' \<Rightarrow> f a s'
      | Failed m \<Rightarrow> Failed m
      | OutOfFuel \<Rightarrow> OutOfFuel)"

definition throwError :: "string \<Rightarrow> 'a parser" where
  "throwError message s = Failed (message @ '' at position '' @ to_string (tok_pos (fst s)))"

definition advance_token :: "unit parser" where
  "advance_token s =
     (case next_token (fst (snd s)) (snd (snd s)) of
        Inl m \<Rightarrow> Failed m
      | Inr s' \<Rightarrow> Parsed () s')"

definition if_type :: "TokenType \<Rightarrow> 'a parser \<Rightarrow> 'a parser \<Rightarrow> 'a parser" where
  "if_type ty p q s = (if tok_type (fst s) = ty then p s else q s)"

definition current_text :: "string parser" where
  "current_text s = Parsed (tok_text (fst s)) s"

definition isName :: "string \<Rightarrow> pstate \<Rightarrow> bool" where
  "isName tx s \<longleftrightarrow> tok_type (fst s) = TName \<and> tok_text (fst s) = tx"

definition if_name :: "string \<Rightarrow> 'a parser \<Rightarrow> 'a parser \<Rightarrow> 'a parser" where
  "if_name tx p q s = (if isName tx s then p s else q s)"

text \<open>\<open>expect\<close>: the text of the consumed token is all that its callers use.\<close>

definition expect :: "TokenType \<Rightarrow> string \<Rightarrow> string parser" where
  "expect ty message =
     if_type ty (pbind current_text (\<lambda>tx. pbind advance_token (\<lambda>_. preturn tx))) (throwError message)"

definition accept :: "TokenType \<Rightarrow> bool parser" where
  "accept ty = if_type ty (pbind advance_token (\<lambda>_. preturn True)) (preturn False)"

text \<open>A loop that collects what its body returns, while the current token's type is as asked.\<close>

fun pmany :: "nat \<Rightarrow> (TokenType \<Rightarrow> bool) \<Rightarrow> 'a parser \<Rightarrow> 'a list parser" where
  "pmany 0 c p = (\<lambda>s. OutOfFuel)"
| "pmany (Suc n) c p =
     (\<lambda>s. if c (tok_type (fst s))
          then pbind p (\<lambda>x. pbind (pmany n c p) (\<lambda>xs. preturn (x # xs))) s
          else Parsed [] s)"

section \<open>Values\<close>

abbreviation (input) kIntMin :: int where "kIntMin \<equiv> - (2 ^ 63)"
abbreviation (input) kIntMax :: int where "kIntMax \<equiv> 2 ^ 63 - 1"

text \<open>\<open>std::stoll\<close> on the text of an \<open>Int\<close> token; \<open>None\<close> is the exception for a number out of range.\<close>

definition stoll :: "string \<Rightarrow> int option" where
  "stoll tx =
     (let v = (if take_sign tx = [] then int (digits_value tx) else - int (digits_value (tl tx)))
      in if kIntMin \<le> v \<and> v \<le> kIntMax then Some v else None)"

definition variable_json :: "string \<Rightarrow> 'f json" where
  "variable_json n = JObj [(''$variable'', JStr n)]"

definition int_value :: "string \<Rightarrow> 'f Value" where
  "int_value tx =
     (case stoll tx of
        Some v \<Rightarrow> Value KInt (JInt v)
      | None \<Rightarrow> Value KInt (JStr tx))"

definition float_value :: "(string \<Rightarrow> 'f option) \<Rightarrow> string \<Rightarrow> 'f Value" where
  "float_value stod tx =
     (case stod tx of
        Some v \<Rightarrow> Value KFloat (JFloat v)
      | None \<Rightarrow> Value KFloat (JStr tx))"

definition name_value :: "string \<Rightarrow> 'f Value" where
  "name_value tx =
     (if tx = ''true'' then Value KBoolean (JBool True)
      else if tx = ''false'' then Value KBoolean (JBool False)
      else if tx = ''null'' then Value KNull JNull
      else Value KEnum (JStr tx))"

text \<open>
  \<open>parseListValue\<close> and \<open>parseObjectValue\<close>, given the parser of the values inside. The test behind
  \<open>accept(Comma)\<close> in their loops changes nothing: both branches go on with the loop.
\<close>

definition parseListValue :: "nat \<Rightarrow> 'f Value parser \<Rightarrow> 'f Value parser" where
  "parseListValue n pv =
     pbind (expect TLeftBracket ''Expected '[' to start list value'') (\<lambda>_.
     pbind (pmany n (\<lambda>ty. ty \<noteq> TRightBracket)
              (pbind pv (\<lambda>v. pbind (accept TComma) (\<lambda>_. preturn (val_json v))))) (\<lambda>vs.
     pbind (expect TRightBracket ''Expected ']' to end list value'') (\<lambda>_.
     preturn (Value KList (JArr vs)))))"

definition parse_member :: "'f Value parser \<Rightarrow> (string \<times> 'f json) parser" where
  "parse_member pv =
     pbind (expect TName ''Expected field name in object value'') (\<lambda>fieldName.
     pbind (expect TColon ''Expected ':' after object field name'') (\<lambda>_.
     pbind pv (\<lambda>v.
     pbind (accept TComma) (\<lambda>_.
     preturn (fieldName, val_json v)))))"

definition parseObjectValue :: "nat \<Rightarrow> 'f Value parser \<Rightarrow> 'f Value parser" where
  "parseObjectValue n pv =
     pbind (expect TLeftBrace ''Expected '{' to start object value'') (\<lambda>_.
     pbind (pmany n (\<lambda>ty. ty \<noteq> TRightBrace) (parse_member pv)) (\<lambda>kvs.
     pbind (expect TRightBrace ''Expected '}' to end object value'') (\<lambda>_.
     preturn (Value KObject (json_puts kvs (JObj []))))))"

text \<open>A token that is a value of its own.\<close>

definition take_text :: "(string \<Rightarrow> 'a) \<Rightarrow> 'a parser" where
  "take_text f = pbind current_text (\<lambda>tx. pbind advance_token (\<lambda>_. preturn (f tx)))"

fun parseValue :: "(string \<Rightarrow> 'f option) \<Rightarrow> nat \<Rightarrow> 'f Value parser" where
  "parseValue stod 0 = (\<lambda>s. OutOfFuel)"
| "parseValue stod (Suc n) =
     if_type TDollar
       (pbind advance_token (\<lambda>_.
        pbind (expect TName (''Expected variable name after '$'' @ [CHR 0x27])) (\<lambda>variableName.
        preturn (Value KVariable (variable_json variableName)))))
     (if_type TString (take_text (\<lambda>tx. Value KString (JStr tx)))
     (if_type TInt (take_text int_value)
     (if_type TFloat (take_text (float_value stod))
     (if_type TLeftBracket (parseListValue n (parseValue stod n))
     (if_type TLeftBrace (parseObjectValue n (parseValue stod n))
     (if_type TName (take_text name_value)
     (throwError ''Expected value'')))))))"

section \<open>Arguments and directives\<close>

definition parse_argument :: "(string \<Rightarrow> 'f option) \<Rightarrow> nat \<Rightarrow> 'f Argument parser" where
  "parse_argument stod n =
     pbind (expect TName ''Expected argument name in field arguments'') (\<lambda>nm.
     pbind (expect TColon ''Expected ':' after argument name'') (\<lambda>_.
     pbind (parseValue stod n) (\<lambda>v.
     pbind (accept TComma) (\<lambda>_.
     preturn (Argument nm v)))))"

definition parseArguments :: "(string \<Rightarrow> 'f option) \<Rightarrow> nat \<Rightarrow> 'f Argument list parser" where
  "parseArguments stod n =
     pbind (expect TLeftParen ''Expected '(' to start arguments'') (\<lambda>_.
     pbind (pmany n (\<lambda>ty. ty \<noteq> TRightParen) (parse_argument stod n)) (\<lambda>args.
     pbind (expect TRightParen ''Expected ')' after arguments'') (\<lambda>_.
     preturn args)))"

definition parseDirective :: "(string \<Rightarrow> 'f option) \<Rightarrow> nat \<Rightarrow> 'f Directive parser" where
  "parseDirective stod n =
     pbind (expect TAt ''Expected '@' to start directive'') (\<lambda>_.
     pbind (expect TName ''Expected directive name'') (\<lambda>nm.
     pbind (if_type TLeftParen (parseArguments stod n) (preturn [])) (\<lambda>args.
     preturn (Directive nm args))))"

definition parseDirectives :: "(string \<Rightarrow> 'f option) \<Rightarrow> nat \<Rightarrow> 'f Directive list parser" where
  "parseDirectives stod n = pmany n (\<lambda>ty. ty = TAt) (parseDirective stod n)"

section \<open>Selection sets\<close>

definition kMaxDepth :: nat where
  "kMaxDepth = 20"

text \<open>\<open>parseField\<close> and the spreads, given the parser \<open>sel\<close> of selection sets at a depth.\<close>

definition parseField ::
  "(string \<Rightarrow> 'f option) \<Rightarrow> nat \<Rightarrow> (nat \<Rightarrow> 'f FieldSelection list parser) \<Rightarrow> nat \<Rightarrow> 'f FieldSelection parser"
where
  "parseField stod n sel depth =
     pbind (expect TName ''Expected field name in selection set'') (\<lambda>fieldName.
     pbind (accept TColon) (\<lambda>aliased.
     pbind (if aliased then expect TName ''Expected field name after alias'' else preturn fieldName) (\<lambda>nm.
     pbind (if_type TLeftParen (parseArguments stod n) (preturn [])) (\<lambda>args.
     pbind (parseDirectives stod n) (\<lambda>dirs.
     pbind (if_type TLeftBrace (sel (depth + 1)) (preturn [])) (\<lambda>sels.
     preturn (FieldSelection nm (if aliased then fieldName else []) [] args dirs sels)))))))"

definition parseInlineFragment ::
  "(string \<Rightarrow> 'f option) \<Rightarrow> nat \<Rightarrow> (nat \<Rightarrow> 'f FieldSelection list parser) \<Rightarrow> nat \<Rightarrow> 'f FieldSelection list parser"
where
  "parseInlineFragment stod n sel depth =
     pbind (if_name ''on''
              (pbind advance_token (\<lambda>_. expect TName ''Expected inline fragment type condition''))
              (preturn [])) (\<lambda>_.
     pbind (parseDirectives stod n) (\<lambda>_.
     sel depth))"

definition parseFragmentSpread ::
  "(string \<Rightarrow> 'f option) \<Rightarrow> nat \<Rightarrow> (nat \<Rightarrow> 'f FieldSelection list parser) \<Rightarrow> nat \<Rightarrow> 'f FieldSelection list parser"
where
  "parseFragmentSpread stod n sel depth =
     pbind (expect TSpread (''Expected '...'' @ [CHR 0x27])) (\<lambda>_.
     if_name ''on'' (parseInlineFragment stod n sel depth)
       (pbind (expect TName (''Expected fragment name after '...'' @ [CHR 0x27])) (\<lambda>nm.
        pbind (parseDirectives stod n) (\<lambda>_.
        preturn [FieldSelection [] [] nm [] [] []]))))"

definition parse_selection ::
  "(string \<Rightarrow> 'f option) \<Rightarrow> nat \<Rightarrow> (nat \<Rightarrow> 'f FieldSelection list parser) \<Rightarrow> nat \<Rightarrow> 'f FieldSelection list parser"
where
  "parse_selection stod n sel depth =
     if_type TSpread (parseFragmentSpread stod n sel depth)
       (pbind (parseField stod n sel depth) (\<lambda>f. preturn [f]))"

fun parseSelectionSet :: "(string \<Rightarrow> 'f option) \<Rightarrow> nat \<Rightarrow> nat \<Rightarrow> 'f FieldSelection list parser" where
  "parseSelectionSet stod 0 depth = (\<lambda>s. OutOfFuel)"
| "parseSelectionSet stod (Suc n) depth =
     (if depth \<ge> kMaxDepth
      then throwError (''Query exceeds maximum nesting depth of '' @ to_string kMaxDepth)
      else
        pbind (expect TLeftBrace ''Expected '{' to start selection set'') (\<lambda>_.
        pbind (pmany n (\<lambda>ty. ty \<noteq> TRightBrace)
                 (parse_selection stod n (parseSelectionSet stod n) depth)) (\<lambda>fss.
        pbind (expect TRightBrace ''Expected '}' to end selection set'') (\<lambda>_.
        preturn (concat fss)))))"

section \<open>Documents\<close>

definition skipTypeReference :: "(string \<times> bool \<times> bool) parser" where
  "skipTypeReference =
     pbind (accept TLeftBracket) (\<lambda>isList.
     pbind (expect TName ''Expected type name in variable definition'') (\<lambda>typeName.
     pbind (if isList then expect TRightBracket ''Expected ']' in type reference'' else preturn []) (\<lambda>_.
     pbind (accept TBang) (\<lambda>nonNull.
     preturn (typeName, nonNull, isList)))))"

definition parse_variable :: "(string \<Rightarrow> 'f option) \<Rightarrow> nat \<Rightarrow> 'f VariableDefinition parser" where
  "parse_variable stod n =
     pbind (expect TDollar ''Expected '$' in variable definition'') (\<lambda>_.
     pbind (expect TName ''Expected variable name in definition'') (\<lambda>nm.
     pbind (expect TColon ''Expected ':' after variable name'') (\<lambda>_.
     pbind skipTypeReference (\<lambda>(typeName, nonNull, isList).
     pbind (accept TEquals) (\<lambda>eq.
     pbind (if eq then pbind (parseValue stod n) (\<lambda>v. preturn (Some v)) else preturn None) (\<lambda>dv.
     pbind (accept TComma) (\<lambda>_.
     preturn (VariableDefinition nm typeName nonNull isList dv))))))))"

definition parseVariableDefinitions :: "(string \<Rightarrow> 'f option) \<Rightarrow> nat \<Rightarrow> 'f VariableDefinition list parser" where
  "parseVariableDefinitions stod n =
     pbind (expect TLeftParen ''Expected '(' to start variable definitions'') (\<lambda>_.
     pbind (pmany n (\<lambda>ty. ty \<noteq> TRightParen) (parse_variable stod n)) (\<lambda>vs.
     pbind (expect TRightParen ''Expected ')' after variable definitions'') (\<lambda>_.
     preturn vs)))"

definition operation_type :: "OperationType parser" where
  "operation_type =
     if_name ''query'' (take_text (\<lambda>_. Query))
     (if_name ''mutation'' (take_text (\<lambda>_. Mutation))
     (if_name ''subscription'' (take_text (\<lambda>_. Subscription))
     (throwError ''Expected operation type or selection set'')))"

definition parseOperationDefinition :: "(string \<Rightarrow> 'f option) \<Rightarrow> nat \<Rightarrow> 'f Operation parser" where
  "parseOperationDefinition stod n =
     pbind
       (if_type TLeftBrace (preturn (Query, [], [], []))
       (if_type TName
         (pbind operation_type (\<lambda>ty.
          pbind (if_type TName (take_text (\<lambda>tx. tx)) (preturn [])) (\<lambda>nm.
          pbind (if_type TLeftParen (parseVariableDefinitions stod n) (preturn [])) (\<lambda>vs.
          pbind (parseDirectives stod n) (\<lambda>dirs.
          preturn (ty, nm, vs, dirs))))))
       (throwError ''Expected operation definition''))) (\<lambda>(ty, nm, vs, dirs).
     pbind (parseSelectionSet stod n 0) (\<lambda>sels.
     preturn \<lparr>op_type = ty, op_name = nm, op_variables = vs, op_directives = dirs,
              op_selections = sels, op_fragments = []\<rparr>))"

definition parseFragmentDefinition :: "(string \<Rightarrow> 'f option) \<Rightarrow> nat \<Rightarrow> 'f FragmentDefinition parser" where
  "parseFragmentDefinition stod n =
     pbind (expect TName ''Expected 'fragment' keyword'') (\<lambda>_.
     pbind (expect TName ''Expected fragment name'') (\<lambda>nm.
     pbind (if_name ''on'' advance_token (throwError ''Expected 'on' in fragment definition'')) (\<lambda>_.
     pbind (expect TName ''Expected type condition in fragment definition'') (\<lambda>tc.
     pbind (parseDirectives stod n) (\<lambda>dirs.
     pbind (parseSelectionSet stod n 0) (\<lambda>sels.
     preturn (FragmentDefinition nm tc dirs sels)))))))"

fun parse_fragments ::
  "(string \<Rightarrow> 'f option) \<Rightarrow> nat \<Rightarrow> nat \<Rightarrow> 'f Operation \<Rightarrow> 'f Operation parser"
where
  "parse_fragments stod n 0 op = (\<lambda>s. OutOfFuel)"
| "parse_fragments stod n (Suc k) op =
     if_name ''fragment''
       (pbind (parseFragmentDefinition stod n) (\<lambda>frag.
        parse_fragments stod n k
          (op\<lparr>op_fragments := omap_put (frag_name frag) frag (op_fragments op)\<rparr>)))
       (preturn op)"

definition parseDocument :: "(string \<Rightarrow> 'f option) \<Rightarrow> nat \<Rightarrow> 'f Operation parser" where
  "parseDocument stod n =
     pbind (parseOperationDefinition stod n) (\<lambda>op.
     pbind (parse_fragments stod n n op) (\<lambda>op'.
     if_type TEnd (preturn op') (throwError ''Unexpected token after operation'')))"

text \<open>The tokens left: no parser can consume more of them than there are characters.\<close>

definition fuel_for :: "string \<Rightarrow> nat" where
  "fuel_for query = length query + 2"

text \<open>The constructor reads the first token; \<open>Token{}\<close> is the initial current token.\<close>

definition run_parser :: "(string \<Rightarrow> 'f option) \<Rightarrow> string \<Rightarrow> 'f Operation presult" where
  "run_parser stod query =
     pbind advance_token (\<lambda>_. parseDocument stod (fuel_for query)) (Token TEnd [] 0, 0, query)"

text \<open>
  \<open>Parser::tryParse\<close>: the exception of \<open>parse\<close> as an error value. \<open>None\<close> would be a parse that does not
  end.
\<close>

definition tryParse :: "(string \<Rightarrow> 'f option) \<Rightarrow> string \<Rightarrow> (string + 'f Operation) option" where
  "tryParse stod query =
     (case run_parser stod query of
        Parsed op s \<Rightarrow> Some (Inr op)
      | Failed m \<Rightarrow> Some (Inl m)
      | OutOfFuel \<Rightarrow> None)"

text \<open>\<open>validate\<close>: the answer and the error message left in \<open>errorMsg\<close>.\<close>

definition validate_query :: "(string \<Rightarrow> 'f option) \<Rightarrow> string \<Rightarrow> (bool \<times> string) option" where
  "validate_query stod query =
     map_option (\<lambda>r. case r of Inr op \<Rightarrow> (True, []) | Inl m \<Rightarrow> (False, m)) (tryParse stod query)"

section \<open>Every parse ends\<close>

text \<open>
  The tokens still to come are bounded by the characters left. A parser \<open>eats_at\<close> a state when, from
  there, it fails or returns with fewer left, and \<open>keeps_at\<close> it when it fails or returns with no
  more left; neither runs out of fuel.
\<close>

definition left :: "pstate \<Rightarrow> nat" where
  "left s = (if tok_type (fst s) = TEnd then 0 else Suc (length (snd (snd s))))"

definition eats_at :: "pstate \<Rightarrow> 'a parser \<Rightarrow> bool" where
  "eats_at s p \<longleftrightarrow>
     (case p s of Parsed a s' \<Rightarrow> left s' < left s | Failed m \<Rightarrow> True | OutOfFuel \<Rightarrow> False)"

definition keeps_at :: "pstate \<Rightarrow> 'a parser \<Rightarrow> bool" where
  "keeps_at s p \<longleftrightarrow>
     (case p s of Parsed a s' \<Rightarrow> left s' \<le> left s | Failed m \<Rightarrow> True | OutOfFuel \<Rightarrow> False)"

lemma eats_keeps: "eats_at s p \<Longrightarrow> keeps_at s p"
  by (auto simp: eats_at_def keeps_at_def split: presult.splits)

lemma keeps_preturn [intro]: "keeps_at s (preturn a)"
  by (simp add: keeps_at_def preturn_def)

lemma eats_throw [intro]: "eats_at s (throwError m)"
  by (simp add: eats_at_def throwError_def)

lemma eats_advance: "tok_type (fst s) \<noteq> TEnd \<Longrightarrow> eats_at s advance_token"
  using next_token_progress [of "fst (snd s)" "snd (snd s)"]
  by (force simp: eats_at_def advance_token_def left_def split: sum.split prod.splits if_splits)

lemma eats_bind:
  assumes "eats_at s p" and "\<And>a s'. left s' < left s \<Longrightarrow> keeps_at s' (f a)"
  shows "eats_at s (pbind p f)"
proof (cases "p s")
  case (Parsed a s')
  then have "left s' < left s" using assms(1) by (simp add: eats_at_def)
  with assms(2) [of s' a] Parsed show ?thesis
    by (auto simp: eats_at_def keeps_at_def pbind_def split: presult.splits)
qed (use assms(1) in \<open>auto simp: eats_at_def pbind_def\<close>)

lemma keeps_bind:
  assumes "keeps_at s p" and "\<And>a s'. left s' \<le> left s \<Longrightarrow> keeps_at s' (f a)"
  shows "keeps_at s (pbind p f)"
proof (cases "p s")
  case (Parsed a s')
  then have "left s' \<le> left s" using assms(1) by (simp add: keeps_at_def)
  with assms(2) [of s' a] Parsed show ?thesis
    by (auto simp: keeps_at_def pbind_def split: presult.splits)
qed (use assms(1) in \<open>auto simp: keeps_at_def pbind_def\<close>)

lemma keeps_eats_bind:
  assumes "keeps_at s p" and "\<And>a s'. left s' \<le> left s \<Longrightarrow> eats_at s' (f a)"
  shows "eats_at s (pbind p f)"
proof (cases "p s")
  case (Parsed a s')
  then have "left s' \<le> left s" using assms(1) by (simp add: keeps_at_def)
  with assms(2) [of s' a] Parsed show ?thesis
    by (auto simp: eats_at_def pbind_def split: presult.splits)
qed (use assms(1) in \<open>auto simp: keeps_at_def eats_at_def pbind_def\<close>)

lemma eats_if_type:
  "(tok_type (fst s) = ty \<Longrightarrow> eats_at s p) \<Longrightarrow> (tok_type (fst s) \<noteq> ty \<Longrightarrow> eats_at s q)
    \<Longrightarrow> eats_at s (if_type ty p q)"
  by (simp add: eats_at_def if_type_def)

lemma keeps_if_type:
  "(tok_type (fst s) = ty \<Longrightarrow> keeps_at s p) \<Longrightarrow> (tok_type (fst s) \<noteq> ty \<Longrightarrow> keeps_at s q)
    \<Longrightarrow> keeps_at s (if_type ty p q)"
  by (simp add: keeps_at_def if_type_def)

lemma eats_if_name:
  "(tok_type (fst s) = TName \<Longrightarrow> eats_at s p) \<Longrightarrow> eats_at s q \<Longrightarrow> eats_at s (if_name tx p q)"
  by (simp add: eats_at_def if_name_def isName_def)

lemma keeps_if_name:
  "(tok_type (fst s) = TName \<Longrightarrow> keeps_at s p) \<Longrightarrow> keeps_at s q \<Longrightarrow> keeps_at s (if_name tx p q)"
  by (simp add: keeps_at_def if_name_def isName_def)

lemma keeps_current_text: "keeps_at s current_text"
  by (simp add: keeps_at_def current_text_def)

lemma eats_take_text: "tok_type (fst s) \<noteq> TEnd \<Longrightarrow> eats_at s (take_text f)"
  using eats_bind [OF eats_advance, of s "\<lambda>_. preturn (f (tok_text (fst s)))"]
  by (auto simp: take_text_def eats_at_def pbind_def current_text_def)

lemma expect_take: "expect ty m = if_type ty (take_text (\<lambda>tx. tx)) (throwError m)"
  by (simp add: expect_def take_text_def)

lemma eats_expect: "ty \<noteq> TEnd \<Longrightarrow> eats_at s (expect ty m)"
  unfolding expect_take by (rule eats_if_type) (auto intro: eats_take_text)

lemma keeps_accept: "ty \<noteq> TEnd \<Longrightarrow> keeps_at s (accept ty)"
  unfolding accept_def
  by (rule keeps_if_type) (auto intro!: eats_keeps [OF eats_bind [OF eats_advance]])

lemma keeps_many:
  assumes "\<And>s'. left s' \<le> left s \<Longrightarrow> eats_at s' p" and "left s < n"
  shows "keeps_at s (pmany n c p)"
  using assms
proof (induction n arbitrary: s)
  case (Suc n)
  have "keeps_at s' (pbind (pmany n c p) (\<lambda>xs. preturn (x # xs)))" if "left s' < left s" for s' x
    using Suc that by (intro keeps_bind keeps_preturn) auto
  then have "eats_at s (pbind p (\<lambda>x. pbind (pmany n c p) (\<lambda>xs. preturn (x # xs))))"
    using Suc.prems(1) by (blast intro: eats_bind)
  then show ?case by (auto simp: keeps_at_def eats_at_def split: presult.splits)
qed simp

lemmas eats_rules = eats_throw eats_expect eats_if_type eats_if_name eats_take_text
lemmas keeps_rules = keeps_preturn keeps_accept keeps_if_type keeps_if_name keeps_current_text

lemma eats_parse_member:
  assumes "\<And>s'. left s' < left s \<Longrightarrow> eats_at s' pv"
  shows "eats_at s (parse_member pv)"
  unfolding parse_member_def
  by (rule eats_bind keeps_bind eats_expect eats_keeps [OF eats_expect] eats_keeps [OF assms] keeps_accept
      keeps_preturn TokenType.distinct | simp)+

lemma eats_parseListValue:
  assumes "\<And>s'. left s' < left s \<Longrightarrow> eats_at s' pv" and "left s \<le> n"
  shows "eats_at s (parseListValue n pv)"
  unfolding parseListValue_def
proof (rule eats_bind [OF eats_expect], simp)
  fix a s' assume s': "left s' < left s"
  have "eats_at t (pbind pv (\<lambda>v. pbind (accept TComma) (\<lambda>_. preturn (val_json v))))"
    if "left t \<le> left s'" for t
    using assms(1) [of t] that s' by (intro eats_bind keeps_bind keeps_accept keeps_preturn) auto
  then have "keeps_at s' (pmany n (\<lambda>ty. ty \<noteq> TRightBracket)
      (pbind pv (\<lambda>v. pbind (accept TComma) (\<lambda>_. preturn (val_json v)))))"
    using s' assms(2) by (intro keeps_many) auto
  then show "keeps_at s' (pbind (pmany n (\<lambda>ty. ty \<noteq> TRightBracket)
      (pbind pv (\<lambda>v. pbind (accept TComma) (\<lambda>_. preturn (val_json v)))))
      (\<lambda>vs. pbind (expect TRightBracket ''Expected ']' to end list value'')
        (\<lambda>_. preturn (Value KList (JArr vs)))))"
    by (rule keeps_bind) (intro keeps_bind eats_keeps [OF eats_expect] keeps_preturn, simp)
qed

lemma eats_parseObjectValue:
  assumes "\<And>s'. left s' < left s \<Longrightarrow> eats_at s' pv" and "left s \<le> n"
  shows "eats_at s (parseObjectValue n pv)"
  unfolding parseObjectValue_def
proof (rule eats_bind [OF eats_expect], simp)
  fix a s' assume s': "left s' < left s"
  have "keeps_at s' (pmany n (\<lambda>ty. ty \<noteq> TRightBrace) (parse_member pv))"
    using s' assms by (intro keeps_many eats_parse_member) auto
  then show "keeps_at s' (pbind (pmany n (\<lambda>ty. ty \<noteq> TRightBrace) (parse_member pv))
      (\<lambda>kvs. pbind (expect TRightBrace ''Expected '}' to end object value'')
        (\<lambda>_. preturn (Value KObject (json_puts kvs (JObj []))))))"
    by (rule keeps_bind) (intro keeps_bind eats_keeps [OF eats_expect] keeps_preturn, simp)
qed

lemma eats_parseValue: "left s < n \<Longrightarrow> eats_at s (parseValue stod n)"
proof (induction n arbitrary: s)
  case (Suc n)
  have inner: "eats_at s' (parseValue stod n)" if "left s' < left s" for s'
    using Suc that by simp
  have variable: "eats_at s (pbind advance_token (\<lambda>_. pbind (expect TName m)
      (\<lambda>v. preturn (Value KVariable (variable_json v)))))" if "tok_type (fst s) = TDollar" for m
    using that by (intro eats_bind eats_advance keeps_bind eats_keeps [OF eats_expect] keeps_preturn) auto
  show ?case
    unfolding parseValue.simps using Suc.prems inner
    by (intro eats_if_type variable eats_take_text eats_parseListValue eats_parseObjectValue eats_throw)
      auto
qed simp

lemma eats_parse_argument:
  assumes "left s \<le> n"
  shows "eats_at s (parse_argument stod n)"
  unfolding parse_argument_def
  by (rule eats_bind keeps_bind eats_expect eats_keeps [OF eats_expect] eats_keeps [OF eats_parseValue]
      keeps_accept keeps_preturn | (use assms in simp))+

lemma eats_parseArguments:
  assumes "left s \<le> n"
  shows "eats_at s (parseArguments stod n)"
  unfolding parseArguments_def
  by (rule eats_bind keeps_bind eats_expect eats_keeps [OF eats_expect] keeps_many eats_parse_argument
      keeps_preturn | (use assms in simp))+

lemma keeps_optional_arguments:
  "left s \<le> n \<Longrightarrow> keeps_at s (if_type TLeftParen (parseArguments stod n) (preturn []))"
  by (intro keeps_if_type eats_keeps [OF eats_parseArguments] keeps_preturn)

lemma eats_parseDirective:
  assumes "left s \<le> n"
  shows "eats_at s (parseDirective stod n)"
  unfolding parseDirective_def
  by (rule eats_bind keeps_bind eats_expect eats_keeps [OF eats_expect] keeps_optional_arguments
      keeps_preturn | (use assms in simp))+

lemma keeps_parseDirectives:
  "left s < n \<Longrightarrow> keeps_at s (parseDirectives stod n)"
  unfolding parseDirectives_def by (intro keeps_many eats_parseDirective) auto

lemma keeps_if:
  "(b \<Longrightarrow> keeps_at s p) \<Longrightarrow> (\<not> b \<Longrightarrow> keeps_at s q) \<Longrightarrow> keeps_at s (if b then p else q)"
  by simp

lemma eats_parseField:
  assumes "\<And>s' d. left s' < left s \<Longrightarrow> eats_at s' (sel d)" and "left s \<le> n"
  shows "eats_at s (parseField stod n sel depth)"
  unfolding parseField_def
  by (rule eats_bind keeps_bind keeps_if eats_expect eats_keeps [OF eats_expect] keeps_accept
      keeps_optional_arguments keeps_parseDirectives keeps_if_type eats_keeps [OF assms(1)] keeps_preturn
      | (use assms(2) in simp; fail))+

lemma keeps_type_condition:
  "keeps_at s (if_name ''on'' (pbind advance_token (\<lambda>_. expect TName m)) (preturn []))"
  by (intro keeps_if_name keeps_preturn eats_keeps [OF eats_bind] eats_advance eats_keeps [OF eats_expect])
    auto

lemma eats_parseFragmentSpread:
  assumes "\<And>s' d. left s' < left s \<Longrightarrow> eats_at s' (sel d)" and "left s \<le> n"
  shows "eats_at s (parseFragmentSpread stod n sel depth)"
  unfolding parseFragmentSpread_def parseInlineFragment_def
  by (rule eats_bind keeps_type_condition keeps_if_name keeps_bind eats_expect eats_keeps [OF eats_expect]
      keeps_parseDirectives eats_keeps [OF assms(1)] keeps_preturn
      | (use assms(2) in simp; fail))+

lemma eats_parse_selection:
  assumes "\<And>s' d. left s' < left s \<Longrightarrow> eats_at s' (sel d)" and "left s \<le> n"
  shows "eats_at s (parse_selection stod n sel depth)"
  unfolding parse_selection_def
  by (intro eats_if_type eats_parseFragmentSpread eats_bind eats_parseField keeps_preturn assms)

lemma eats_parseSelectionSet: "left s < n \<Longrightarrow> eats_at s (parseSelectionSet stod n depth)"
proof (induction n arbitrary: s depth)
  case (Suc n)
  have inner: "eats_at s' (parseSelectionSet stod n d)" if "left s' < left s" for s' d
    using Suc that by simp
  have "eats_at s (pbind (expect TLeftBrace m) (\<lambda>_.
      pbind (pmany n (\<lambda>ty. ty \<noteq> TRightBrace) (parse_selection stod n (parseSelectionSet stod n) depth))
      (\<lambda>fss. pbind (expect TRightBrace m') (\<lambda>_. preturn (concat fss)))))" for m m'
    by (rule eats_bind keeps_bind eats_expect eats_keeps [OF eats_expect] keeps_many
        eats_parse_selection inner keeps_preturn | (use Suc.prems in simp))+
  then show ?case by (simp add: eats_throw)
qed simp

lemma keeps_skipTypeReference: "keeps_at s skipTypeReference"
  unfolding skipTypeReference_def
  by (rule keeps_bind keeps_if keeps_accept eats_keeps [OF eats_expect] keeps_preturn | (simp; fail))+

lemma eats_parse_variable:
  assumes "left s \<le> n"
  shows "eats_at s (parse_variable stod n)"
  unfolding parse_variable_def case_prod_beta
  by (rule eats_bind keeps_bind keeps_if keeps_skipTypeReference eats_expect eats_keeps [OF eats_expect]
      eats_keeps [OF eats_parseValue] keeps_accept keeps_preturn | (use assms in simp; fail))+

lemma eats_parseVariableDefinitions:
  assumes "left s \<le> n"
  shows "eats_at s (parseVariableDefinitions stod n)"
  unfolding parseVariableDefinitions_def
  by (rule eats_bind keeps_bind eats_expect eats_keeps [OF eats_expect] keeps_many eats_parse_variable
      keeps_preturn | (use assms in simp; fail))+

lemma eats_operation_type: "eats_at s operation_type"
  unfolding operation_type_def by (intro eats_if_name eats_take_text eats_throw) auto

lemma keeps_operation_name:
  "keeps_at s (if_type TName (take_text (\<lambda>tx. tx)) (preturn []))"
  by (intro keeps_if_type eats_keeps [OF eats_take_text] keeps_preturn) auto

lemma keeps_operation_variables:
  "left s \<le> n \<Longrightarrow> keeps_at s (if_type TLeftParen (parseVariableDefinitions stod n) (preturn []))"
  by (intro keeps_if_type eats_keeps [OF eats_parseVariableDefinitions] keeps_preturn)

lemma keeps_throw: "keeps_at s (throwError m)"
  by (rule eats_keeps [OF eats_throw])

lemma eats_parseOperationDefinition:
  assumes "left s < n"
  shows "eats_at s (parseOperationDefinition stod n)"
  unfolding parseOperationDefinition_def case_prod_beta
  by (rule keeps_eats_bind eats_bind keeps_operation_name keeps_operation_variables keeps_if_type
      keeps_throw eats_keeps [OF eats_operation_type] keeps_bind keeps_parseDirectives
      eats_parseSelectionSet keeps_preturn | (use assms in simp; fail))+

lemma keeps_on: "keeps_at s (if_name ''on'' advance_token (throwError m))"
  by (intro keeps_if_name keeps_throw eats_keeps [OF eats_advance]) auto

lemma eats_parseFragmentDefinition:
  assumes "left s < n"
  shows "eats_at s (parseFragmentDefinition stod n)"
  unfolding parseFragmentDefinition_def
  by (rule eats_bind keeps_on keeps_bind eats_expect eats_keeps [OF eats_expect] keeps_parseDirectives
      eats_keeps [OF eats_parseSelectionSet] keeps_preturn | (use assms in simp; fail))+

lemma keeps_parse_fragments:
  "left s < k \<Longrightarrow> left s < n \<Longrightarrow> keeps_at s (parse_fragments stod n k op)"
proof (induction k arbitrary: s op)
  case (Suc k)
  then have "eats_at s (pbind (parseFragmentDefinition stod n) (\<lambda>frag. parse_fragments stod n k
      (op\<lparr>op_fragments := omap_put (frag_name frag) frag (op_fragments op)\<rparr>)))"
    by (intro eats_bind eats_parseFragmentDefinition Suc.IH) auto
  then show ?case by (simp add: keeps_if_name eats_keeps keeps_preturn)
qed simp

lemma keeps_parseDocument: "left s < n \<Longrightarrow> keeps_at s (parseDocument stod n)"
  unfolding parseDocument_def
  by (rule keeps_bind eats_keeps [OF eats_parseOperationDefinition] keeps_parse_fragments keeps_if_type
      keeps_throw keeps_preturn | (simp; fail))+

lemma advance_token_start:
  assumes "advance_token (t, p, query) = Parsed a s"
  shows "left s < fuel_for query"
  using assms next_token_progress [of p query]
  by (fastforce simp: advance_token_def left_def fuel_for_def split: sum.splits if_splits)

lemma run_parser_not_OutOfFuel: "run_parser stod query \<noteq> OutOfFuel"
proof (cases "advance_token (Token TEnd [] 0, 0, query)")
  case (Parsed a s)
  then have "keeps_at s (parseDocument stod (fuel_for query))"
    by (intro keeps_parseDocument advance_token_start)
  with Parsed show ?thesis
    by (auto simp: run_parser_def pbind_def keeps_at_def split: presult.splits)
qed (auto simp: run_parser_def pbind_def advance_token_def split: sum.splits)

text \<open>
  (C12) Parsing a GraphQL document ends on every text, with an operation or an error message:
  no list, object, directive or selection loop can go round without consuming a token, not even
  at the end of the text, and the recursion is bounded by the text.
\<close>

theorem parser_total: "\<exists>r. tryParse stod query = Some r"
  using run_parser_not_OutOfFuel [of stod query]
  by (cases "run_parser stod query") (auto simp: tryParse_def)

section \<open>Nesting\<close>

text \<open>The nesting of a field: 0 for a leaf.\<close>

fun nesting :: "'f FieldSelection \<Rightarrow> nat" where
  "nesting (FieldSelection nm al sp args dirs sels) =
     (if sels = [] then 0 else Suc (foldr (\<lambda>f m. max (nesting f) m) sels 0))"

definition nestings :: "'f FieldSelection list \<Rightarrow> nat" where
  "nestings sels = foldr (\<lambda>f m. max (nesting f) m) sels 0"

lemma nestings_le: "nestings sels \<le> k \<longleftrightarrow> (\<forall>f\<in>set sels. nesting f \<le> k)"
  by (induction sels) (auto simp: nestings_def)

lemma nesting_Field: "nesting (FieldSelection nm al sp args dirs sels)
    = (if sels = [] then 0 else Suc (nestings sels))"
  by (simp add: nestings_def)

declare nesting.simps [simp del]

text \<open>What holds of every value a parser returns.\<close>

definition yields :: "'a parser \<Rightarrow> ('a \<Rightarrow> bool) \<Rightarrow> bool" where
  "yields p Q \<longleftrightarrow> (\<forall>s a s'. p s = Parsed a s' \<longrightarrow> Q a)"

lemma yields_any: "yields p (\<lambda>_. True)"
  by (simp add: yields_def)

lemma yields_return: "Q a \<Longrightarrow> yields (preturn a) Q"
  by (simp add: yields_def preturn_def)

lemma yields_throw: "yields (throwError m) Q"
  by (simp add: yields_def throwError_def)

lemma yields_bind:
  assumes "yields p P" and "\<And>a. P a \<Longrightarrow> yields (f a) Q"
  shows "yields (pbind p f) Q"
  unfolding yields_def pbind_def
proof (intro allI impI)
  fix s b s''
  assume "(case p s of Parsed a s' \<Rightarrow> f a s' | Failed m \<Rightarrow> Failed m | OutOfFuel \<Rightarrow> OutOfFuel) = Parsed b s''"
  then obtain a s' where "p s = Parsed a s'" "f a s' = Parsed b s''" by (cases "p s") auto
  with assms show "Q b" unfolding yields_def by blast
qed

lemma yields_skip: "(\<And>a. yields (f a) Q) \<Longrightarrow> yields (pbind p f) Q"
  by (rule yields_bind [OF yields_any])

lemma yields_if_type: "yields p Q \<Longrightarrow> yields q Q \<Longrightarrow> yields (if_type ty p q) Q"
  by (simp add: yields_def if_type_def)

lemma yields_if_name: "yields p Q \<Longrightarrow> yields q Q \<Longrightarrow> yields (if_name tx p q) Q"
  by (simp add: yields_def if_name_def)

lemma yields_many:
  assumes "yields p Q"
  shows "yields (pmany n c p) (\<lambda>xs. \<forall>x\<in>set xs. Q x)"
proof (induction n)
  case (Suc n)
  have "yields (pbind p (\<lambda>x. pbind (pmany n c p) (\<lambda>xs. preturn (x # xs)))) (\<lambda>xs. \<forall>x\<in>set xs. Q x)"
    using assms Suc by (intro yields_bind [OF assms] yields_bind [OF Suc] yields_return) auto
  then show ?case by (simp add: yields_def)
qed (simp add: yields_def)

abbreviation nested_within :: "nat \<Rightarrow> 'f FieldSelection list \<Rightarrow> bool" where
  "nested_within d fs \<equiv> d < kMaxDepth \<and> nestings fs \<le> kMaxDepth - (d + 1)"

lemma yields_weaken: "yields p P \<Longrightarrow> (\<And>a. P a \<Longrightarrow> Q a) \<Longrightarrow> yields p Q"
  unfolding yields_def by blast

lemma yields_parseField:
  assumes "yields (sel (d + 1)) (nested_within (d + 1))"
  shows "yields (parseField stod n sel d) (\<lambda>f. d < kMaxDepth \<longrightarrow> nesting f \<le> kMaxDepth - (d + 1))"
proof -
  have "yields (if_type TLeftBrace (sel (d + 1)) (preturn [])) (\<lambda>fs. fs = [] \<or> nested_within (d + 1) fs)"
    by (intro yields_if_type yields_weaken [OF assms] yields_return) auto
  note last = yields_bind [OF this]
  show ?thesis
    unfolding parseField_def
    by (rule last yields_skip yields_return)+ (auto simp: nesting_Field)
qed

lemma yields_parse_selection:
  assumes "\<And>d. yields (sel d) (nested_within d)" and "d < kMaxDepth"
  shows "yields (parse_selection stod n sel d) (\<lambda>fs. nestings fs \<le> kMaxDepth - (d + 1))"
proof -
  let ?Q = "\<lambda>fs. nestings fs \<le> kMaxDepth - (d + 1)"
  have sel: "yields (sel d) ?Q" by (rule yields_weaken [OF assms(1)]) simp
  have inline: "yields (parseInlineFragment stod n sel d) ?Q"
    unfolding parseInlineFragment_def by (rule yields_skip sel)+
  have "yields (parseFragmentSpread stod n sel d) ?Q"
    unfolding parseFragmentSpread_def
    by (rule yields_skip yields_if_name inline yields_return)+ (simp add: nestings_le nesting_Field)
  moreover have "yields (pbind (parseField stod n sel d) (\<lambda>f. preturn [f])) ?Q"
    by (rule yields_bind [OF yields_parseField [where sel = sel, OF assms(1)]], rule yields_return)
      (use assms(2) in \<open>simp add: nestings_le\<close>)
  ultimately show ?thesis unfolding parse_selection_def by (rule yields_if_type)
qed

lemma yields_parseSelectionSet: "yields (parseSelectionSet stod n d) (nested_within d)"
proof (induction n arbitrary: d)
  case (Suc n)
  let ?p = "parse_selection stod n (parseSelectionSet stod n) d"
  show ?case
  proof (cases "d < kMaxDepth")
    case True
    have "yields (pmany n (\<lambda>ty. ty \<noteq> TRightBrace) ?p)
        (\<lambda>fss. \<forall>fs\<in>set fss. nestings fs \<le> kMaxDepth - (d + 1))"
      by (intro yields_many yields_parse_selection Suc.IH True)
    note loop = yields_bind [OF this]
    have "yields (pbind (expect TLeftBrace m) (\<lambda>_. pbind (pmany n (\<lambda>ty. ty \<noteq> TRightBrace) ?p)
         (\<lambda>fss. pbind (expect TRightBrace m') (\<lambda>_. preturn (concat fss))))) (nested_within d)" for m m'
      by (rule loop yields_skip yields_return)+ (use True in \<open>auto simp: nestings_le\<close>)
    then show ?thesis using True by simp
  qed (simp add: yields_throw)
qed (simp add: yields_def)

text \<open>The well-formed operations: nesting below the limit, and fragments filed under their names.\<close>

definition frag_ok :: "string \<times> 'f FragmentDefinition \<Rightarrow> bool" where
  "frag_ok = (\<lambda>(nm, fr). nm = frag_name fr \<and> nestings (frag_selections fr) < kMaxDepth)"

definition operation_ok :: "'f Operation \<Rightarrow> bool" where
  "operation_ok op \<longleftrightarrow>
     nestings (op_selections op) < kMaxDepth \<and> list_all frag_ok (op_fragments op) \<and> omap_ok (op_fragments op)"

lemma yields_parseOperationDefinition:
  "yields (parseOperationDefinition stod n) operation_ok"
proof -
  have "yields (pbind (parseSelectionSet stod n 0) (\<lambda>sels.
     preturn \<lparr>op_type = ty, op_name = nm, op_variables = vs, op_directives = dirs,
              op_selections = sels, op_fragments = []\<rparr>)) operation_ok" for ty nm vs dirs
    by (rule yields_bind [OF yields_parseSelectionSet])
      (rule yields_return, auto simp: operation_ok_def omap_ok_def)
  then show ?thesis
    unfolding parseOperationDefinition_def case_prod_beta by (rule yields_skip)
qed

lemma yields_parseFragmentDefinition:
  "yields (parseFragmentDefinition stod n) (\<lambda>fr. nestings (frag_selections fr) < kMaxDepth)"
  unfolding parseFragmentDefinition_def
  by (rule yields_bind [OF yields_parseSelectionSet] yields_skip yields_return)+ auto

lemma operation_ok_fragment:
  assumes "operation_ok op" and "nestings (frag_selections fr) < kMaxDepth"
  shows "operation_ok (op\<lparr>op_fragments := omap_put (frag_name fr) fr (op_fragments op)\<rparr>)"
  using assms set_omap_put [of "frag_name fr" fr "op_fragments op"]
  by (auto simp: operation_ok_def omap_ok_put list_all_iff frag_ok_def)

lemma yields_parse_fragments:
  "operation_ok op \<Longrightarrow> yields (parse_fragments stod n k op) operation_ok"
proof (induction k arbitrary: op)
  case (Suc k)
  have "yields (pbind (parseFragmentDefinition stod n) (\<lambda>fr. parse_fragments stod n k
      (op\<lparr>op_fragments := omap_put (frag_name fr) fr (op_fragments op)\<rparr>))) operation_ok"
    by (rule yields_bind [OF yields_parseFragmentDefinition]) (intro Suc.IH operation_ok_fragment Suc.prems)
  then show ?case using Suc.prems by (simp add: yields_if_name yields_return)
qed (simp add: yields_def)

lemma yields_parseDocument: "yields (parseDocument stod n) operation_ok"
  unfolding parseDocument_def
  by (rule yields_bind [OF yields_parseOperationDefinition], rule yields_bind [OF yields_parse_fragments])
    (auto intro: yields_if_type yields_return yields_throw)

lemma tryParse_Parsed: "tryParse stod query = Some (Inr op) \<Longrightarrow> \<exists>s. run_parser stod query = Parsed op s"
  by (cases "run_parser stod query") (auto simp: tryParse_def)

text \<open>
  Every operation the parser accepts is well formed: no field nests deeper than the limit of
  20 levels, in the operation or in any fragment, however fields, inline fragments and spreads are
  combined, and every fragment is filed once, under its own name.
\<close>

theorem parsed_operation_ok:
  assumes "tryParse stod query = Some (Inr op)"
  shows "operation_ok op"
proof -
  have "yields (pbind advance_token (\<lambda>_. parseDocument stod (fuel_for query))) operation_ok"
    by (rule yields_bind [OF yields_any yields_parseDocument])
  then show ?thesis
    using tryParse_Parsed [OF assms] unfolding run_parser_def yields_def by blast
qed

text \<open>A document, from its text to its tree.\<close>

abbreviation sample_query :: "nat Operation" where
  "sample_query \<equiv>
     \<lparr>op_type = Query, op_name = [], op_variables = [], op_directives = [],
      op_selections = [FieldSelection ''a'' [] [] [] [] []], op_fragments = []\<rparr>"

lemmas parser_defs =
  tryParse_def run_parser_def parseDocument_def parseOperationDefinition_def parse_selection_def
  parseField_def parseFragmentSpread_def parseDirectives_def pbind_def preturn_def if_type_def if_name_def isName_def
  expect_def accept_def take_text_def current_text_def advance_token_def throwError_def fuel_for_def
  kMaxDepth_def

lemmas lexer_defs =
  next_token_def skipIgnored_stop readName_def punctuation_def name_start_def name_char_def isalpha_def
  is_digit_def is_blank_def

lemma parse_sample: "tryParse (\<lambda>tx. None) ''{a}'' = Some (Inr sample_query)"
  by (simp add: parser_defs lexer_defs numeral_eq_Suc)

theorem parsed_operation_ok_witness:
  "tryParse (\<lambda>tx. None) ''{a}'' = Some (Inr sample_query) \<and> operation_ok sample_query"
  using parse_sample parsed_operation_ok [OF parse_sample] by blast

end
