(* ===== verification/GraphqlPrinter.thy ===== *)
theory GraphqlPrinter
  imports GraphqlParser
begin

text \<open>
  A printer for the syntax trees of the GraphQL parser, and the proof that the parser reads back
  what it prints. The server itself never prints a query: the printer is the reference definition of
  the language the parser accepts.
\<close>

section \<open>Printed operations\<close>

text \<open>
  The text of a syntax tree, as a list of tokens, and the trees that have one: names that are
  names, integers in the range of \<open>long long\<close>, no floating-point number, and values whose kind is
  that of their JSON value. A spread is a field with only \<open>fragmentSpreadName\<close>.
\<close>

type_synonym tokens = "(TokenType \<times> string) list"

definition int_text :: "int \<Rightarrow> string" where
  "int_text i = (if i < 0 then CHR ''-'' # to_string (nat (- i)) else to_string (nat i))"

fun variable_name :: "(string \<times> 'f json) list \<Rightarrow> string option" where
  "variable_name [(k, JStr n)] = (if k = ''$variable'' then Some n else None)"
| "variable_name _ = None"

abbreviation "tok_lbracket \<equiv> (TLeftBracket, ''['')"
abbreviation "tok_rbracket \<equiv> (TRightBracket, '']'')"
abbreviation "tok_lbrace \<equiv> (TLeftBrace, ''{'')"
abbreviation "tok_rbrace \<equiv> (TRightBrace, ''}'')"
abbreviation "tok_lparen \<equiv> (TLeftParen, ''('')"
abbreviation "tok_rparen \<equiv> (TRightParen, '')'')"
abbreviation "tok_colon \<equiv> (TColon, '':'')"
abbreviation "tok_dollar \<equiv> (TDollar, ''$'')"

fun print_json :: "'f json \<Rightarrow> tokens" where
  "print_json JNull = [(TName, ''null'')]"
| "print_json (JBool b) = [(TName, if b then ''true'' else ''false'')]"
| "print_json (JInt i) = [(TInt, int_text i)]"
| "print_json (JFloat d) = []"
| "print_json (JStr tx) = [(TString, tx)]"
| "print_json (JArr xs) = tok_lbracket # concat (map print_json xs) @ [tok_rbracket]"
| "print_json (JObj m) =
     (case variable_name m of
        Some n \<Rightarrow> [tok_dollar, (TName, n)]
      | None \<Rightarrow> tok_lbrace # concat (map (\<lambda>(k, v). (TName, k) # tok_colon # print_json v) m) @ [tok_rbrace])"

fun json_ok :: "'f json \<Rightarrow> bool" where
  "json_ok (JInt i) \<longleftrightarrow> kIntMin \<le> i \<and> i \<le> kIntMax"
| "json_ok (JFloat d) \<longleftrightarrow> False"
| "json_ok (JArr xs) \<longleftrightarrow> list_all json_ok xs"
| "json_ok (JObj m) \<longleftrightarrow>
     (case variable_name m of
        Some n \<Rightarrow> name_ok n
      | None \<Rightarrow> omap_ok m \<and> list_all (\<lambda>(k, v). name_ok k \<and> json_ok v) m)"
| "json_ok _ \<longleftrightarrow> True"

fun kind_of :: "'f json \<Rightarrow> Kind" where
  "kind_of JNull = KNull"
| "kind_of (JBool b) = KBoolean"
| "kind_of (JInt i) = KInt"
| "kind_of (JFloat d) = KFloat"
| "kind_of (JStr tx) = KString"
| "kind_of (JArr xs) = KList"
| "kind_of (JObj m) = (if variable_name m = None then KObject else KVariable)"

fun print_value :: "'f Value \<Rightarrow> tokens" where
  "print_value (Value KEnum (JStr tx)) = [(TName, tx)]"
| "print_value (Value k j) = print_json j"

fun ast_value_ok :: "'f Value \<Rightarrow> bool" where
  "ast_value_ok (Value KEnum (JStr tx)) \<longleftrightarrow> name_ok tx \<and> tx \<notin> {''true'', ''false'', ''null''}"
| "ast_value_ok (Value k j) \<longleftrightarrow> json_ok j \<and> k = kind_of j"

fun print_argument :: "'f Argument \<Rightarrow> tokens" where
  "print_argument (Argument nm v) = (TName, nm) # tok_colon # print_value v"

fun argument_ok :: "'f Argument \<Rightarrow> bool" where
  "argument_ok (Argument nm v) \<longleftrightarrow> name_ok nm \<and> ast_value_ok v"

definition print_arguments :: "'f Argument list \<Rightarrow> tokens" where
  "print_arguments args =
     (if args = [] then [] else tok_lparen # concat (map print_argument args) @ [tok_rparen])"

fun print_directive :: "'f Directive \<Rightarrow> tokens" where
  "print_directive (Directive nm args) = (TAt, ''@'') # (TName, nm) # print_arguments args"

fun directive_ok :: "'f Directive \<Rightarrow> bool" where
  "directive_ok (Directive nm args) \<longleftrightarrow> name_ok nm \<and> list_all argument_ok args"

definition print_directives :: "'f Directive list \<Rightarrow> tokens" where
  "print_directives dirs = concat (map print_directive dirs)"

fun print_field :: "'f FieldSelection \<Rightarrow> tokens" where
  "print_field (FieldSelection nm al sp args dirs sels) =
     (if sp \<noteq> [] then [(TSpread, ''...''), (TName, sp)]
      else (if al = [] then [] else [(TName, al), tok_colon]) @ [(TName, nm)]
        @ print_arguments args @ print_directives dirs
        @ (if sels = [] then [] else tok_lbrace # concat (map print_field sels) @ [tok_rbrace]))"

fun field_ok :: "'f FieldSelection \<Rightarrow> bool" where
  "field_ok (FieldSelection nm al sp args dirs sels) \<longleftrightarrow>
     (if sp \<noteq> [] then nm = [] \<and> al = [] \<and> args = [] \<and> dirs = [] \<and> sels = [] \<and> name_ok sp \<and> sp \<noteq> ''on''
      else name_ok nm \<and> (al = [] \<or> name_ok al) \<and> list_all argument_ok args \<and> list_all directive_ok dirs
        \<and> list_all field_ok sels)"

definition print_selections :: "'f FieldSelection list \<Rightarrow> tokens" where
  "print_selections sels = tok_lbrace # concat (map print_field sels) @ [tok_rbrace]"

fun print_variable :: "'f VariableDefinition \<Rightarrow> tokens" where
  "print_variable (VariableDefinition nm ty nn li dv) =
     [tok_dollar, (TName, nm), tok_colon]
       @ (if li then [tok_lbracket, (TName, ty), tok_rbracket] else [(TName, ty)])
       @ (if nn then [(TBang, ''!'')] else [])
       @ (case dv of None \<Rightarrow> [] | Some v \<Rightarrow> (TEquals, ''='') # print_value v)"

fun variable_ok :: "'f VariableDefinition \<Rightarrow> bool" where
  "variable_ok (VariableDefinition nm ty nn li dv) \<longleftrightarrow>
     name_ok nm \<and> name_ok ty \<and> (case dv of None \<Rightarrow> True | Some v \<Rightarrow> ast_value_ok v)"

definition print_variables :: "'f VariableDefinition list \<Rightarrow> tokens" where
  "print_variables vs = (if vs = [] then [] else tok_lparen # concat (map print_variable vs) @ [tok_rparen])"

fun type_keyword :: "OperationType \<Rightarrow> string" where
  "type_keyword Query = ''query''"
| "type_keyword Mutation = ''mutation''"
| "type_keyword Subscription = ''subscription''"

fun print_fragment :: "string \<times> 'f FragmentDefinition \<Rightarrow> tokens" where
  "print_fragment (k, FragmentDefinition nm tc dirs sels) =
     [(TName, ''fragment''), (TName, nm), (TName, ''on''), (TName, tc)]
       @ print_directives dirs @ print_selections sels"

fun fragment_ok :: "string \<times> 'f FragmentDefinition \<Rightarrow> bool" where
  "fragment_ok (k, FragmentDefinition nm tc dirs sels) \<longleftrightarrow>
     k = nm \<and> name_ok nm \<and> name_ok tc \<and> list_all directive_ok dirs \<and> list_all field_ok sels"

definition print_operation :: "'f Operation \<Rightarrow> tokens" where
  "print_operation op =
     (TName, type_keyword (op_type op))
       # (if op_name op = [] then [] else [(TName, op_name op)])
       @ print_variables (op_variables op) @ print_directives (op_directives op)
       @ print_selections (op_selections op) @ concat (map print_fragment (op_fragments op))"

definition printable :: "'f Operation \<Rightarrow> bool" where
  "printable op \<longleftrightarrow>
     (op_name op = [] \<or> name_ok (op_name op)) \<and> list_all variable_ok (op_variables op)
     \<and> list_all directive_ok (op_directives op) \<and> list_all field_ok (op_selections op)
     \<and> list_all fragment_ok (op_fragments op)"

text \<open>The text of an operation: its tokens, a blank behind each.\<close>

definition operation_text :: "'f Operation \<Rightarrow> string" where
  "operation_text op = show_tokens (print_operation op)"

section \<open>Reading printed tokens\<close>

definition hd_type :: "tokens \<Rightarrow> TokenType" where
  "hd_type ts = (case ts of [] \<Rightarrow> TEnd | t # _ \<Rightarrow> fst t)"

text \<open>The tokens a parser state has before it.\<close>

definition sees :: "pstate \<Rightarrow> tokens \<Rightarrow> bool" where
  "sees s ts \<longleftrightarrow> list_all tok_ok ts \<and>
     (case ts of
        [] \<Rightarrow> tok_type (fst s) = TEnd
      | t # ts' \<Rightarrow> tok_type (fst s) = fst t \<and> tok_text (fst s) = snd t \<and> lexes (fst (snd s)) (snd (snd s)) ts')"

text \<open>
  \<open>reads p ts a F\<close>: on the tokens \<open>ts\<close>, when the token behind them is not of a type in \<open>F\<close>, \<open>p\<close> consumes
  them all and returns \<open>a\<close>.
\<close>

definition reads :: "'a parser \<Rightarrow> tokens \<Rightarrow> 'a \<Rightarrow> TokenType set \<Rightarrow> bool" where
  "reads p ts a F \<longleftrightarrow>
     (\<forall>s rest. sees s (ts @ rest) \<and> hd_type rest \<notin> F \<longrightarrow> (\<exists>s'. p s = Parsed a s' \<and> sees s' rest))"

lemma sees_type: "sees s ts \<Longrightarrow> tok_type (fst s) = hd_type ts"
  by (auto simp: sees_def hd_type_def split: list.splits)

lemma sees_Cons_text: "sees s ((ty, tx) # ts) \<Longrightarrow> tok_text (fst s) = tx"
  by (simp add: sees_def)

lemma advance_sees:
  assumes "sees s (t # ts)"
  shows "\<exists>s'. advance_token s = Parsed () s' \<and> sees s' ts"
  using assms by (cases ts) (fastforce simp: sees_def advance_token_def)+

lemma hd_type_simps [simp]:
  "hd_type [] = TEnd" "hd_type (t # ts) = fst t"
  by (simp_all add: hd_type_def)

lemma hd_type_append: "hd_type (xs @ ys) = (if xs = [] then hd_type ys else hd_type xs)"
  by (cases xs) simp_all

lemma readsI:
  "(\<And>s rest. sees s (ts @ rest) \<Longrightarrow> hd_type rest \<notin> F \<Longrightarrow> \<exists>s'. p s = Parsed a s' \<and> sees s' rest)
    \<Longrightarrow> reads p ts a F"
  unfolding reads_def by blast

lemma pbind_preturn [simp]: "pbind (preturn a) f = f a"
  by (simp add: fun_eq_iff pbind_def preturn_def)

lemma reads_return: "reads (preturn a) [] a F"
  by (rule readsI) (auto simp: preturn_def)

lemma reads_bind:
  assumes "reads p ts1 a F1" and "reads (f a) ts2 b F"
    and "\<And>rest. hd_type rest \<notin> F \<Longrightarrow> hd_type (ts2 @ rest) \<notin> F1"
  shows "reads (pbind p f) (ts1 @ ts2) b F"
  unfolding reads_def
proof (intro allI impI, elim conjE)
  fix s rest
  assume "sees s ((ts1 @ ts2) @ rest)" and F: "hd_type rest \<notin> F"
  then obtain s1 where "p s = Parsed a s1" "sees s1 (ts2 @ rest)"
    using assms(1) assms(3) [OF F] unfolding reads_def by (metis append_assoc)
  moreover from this(2) F obtain s2 where "f a s1 = Parsed b s2" "sees s2 rest"
    using assms(2) unfolding reads_def by blast
  ultimately show "\<exists>s'. pbind p f s = Parsed b s' \<and> sees s' rest" by (simp add: pbind_def)
qed

lemma reads_take_text: "reads (take_text f) [(ty, tx)] (f tx) F"
proof (rule readsI)
  fix s rest
  assume "sees s ([(ty, tx)] @ rest)"
  then have s: "sees s ((ty, tx) # rest)" by simp
  from advance_sees [OF s] obtain s' where "advance_token s = Parsed () s'" "sees s' rest" by blast
  with sees_Cons_text [OF s] show "\<exists>s'. take_text f s = Parsed (f tx) s' \<and> sees s' rest"
    by (auto simp: take_text_def pbind_def current_text_def preturn_def)
qed

lemma reads_if_type_yes:
  "reads p ts a F \<Longrightarrow> hd_type ts = ty \<Longrightarrow> ts \<noteq> [] \<Longrightarrow> reads (if_type ty p q) ts a F"
  unfolding reads_def if_type_def using sees_type hd_type_append by metis

lemma reads_if_type_no:
  "reads q ts a F \<Longrightarrow> hd_type ts \<noteq> ty \<Longrightarrow> ts \<noteq> [] \<Longrightarrow> reads (if_type ty p q) ts a F"
  unfolding reads_def if_type_def using sees_type hd_type_append by metis

lemma reads_if_type_skip: "reads q [] a F \<Longrightarrow> reads (if_type ty p q) [] a (insert ty F)"
  unfolding reads_def if_type_def using sees_type by (metis append_Nil insertCI)

lemma reads_weaken: "reads p ts a F \<Longrightarrow> F \<subseteq> F' \<Longrightarrow> reads p ts a F'"
  unfolding reads_def by blast

lemma reads_if_name_yes: "reads p ((TName, tx) # ts) a F \<Longrightarrow> reads (if_name tx p q) ((TName, tx) # ts) a F"
  unfolding reads_def if_name_def isName_def using sees_type sees_Cons_text
  by (metis append_Cons fst_conv hd_type_simps(2))

lemma reads_if_name_no:
  "reads q ((ty, tx') # ts) a F \<Longrightarrow> tx' \<noteq> tx \<or> ty \<noteq> TName \<Longrightarrow> reads (if_name tx p q) ((ty, tx') # ts) a F"
  unfolding reads_def if_name_def isName_def using sees_type sees_Cons_text
  by (metis append_Cons fst_conv hd_type_simps(2))

lemma reads_if_name_skip: "reads q [] a F \<Longrightarrow> reads (if_name tx p q) [] a (insert TName F)"
  unfolding reads_def if_name_def isName_def using sees_type by (metis append_Nil insertCI)

lemma reads_expect: "reads (expect ty m) [(ty, tx)] tx F"
  unfolding expect_take by (rule reads_if_type_yes [OF reads_take_text]) simp_all

lemma reads_advance: "reads advance_token [t] () F"
  unfolding reads_def using advance_sees by fastforce

lemma reads_accept_yes: "reads (accept ty) [(ty, tx)] True F"
proof -
  have "reads (pbind advance_token (\<lambda>_. preturn True)) ([(ty, tx)] @ []) True F"
    by (rule reads_bind [OF reads_advance [where F = "{}"] reads_return]) simp
  then show ?thesis unfolding accept_def by (intro reads_if_type_yes) simp_all
qed

lemma reads_accept_no: "reads (accept ty) [] False {ty}"
  unfolding accept_def by (rule reads_if_type_skip [OF reads_return])

lemma sees_not_comma: "sees s ts \<Longrightarrow> tok_type (fst s) \<noteq> TComma"
proof -
  have "tok_ok t \<Longrightarrow> fst t \<noteq> TComma" for t by (cases t rule: tok_ok.cases) auto
  then show "sees s ts \<Longrightarrow> tok_type (fst s) \<noteq> TComma" by (auto simp: sees_def split: list.splits)
qed

lemma reads_accept_comma: "reads (accept TComma) [] False F"
  by (rule readsI) (use sees_not_comma in \<open>auto simp: accept_def if_type_def preturn_def\<close>)

lemma reads_many:
  assumes "\<And>x. x \<in> set xs \<Longrightarrow> reads p (pr x) (val x) F"
    and "\<And>x. x \<in> set xs \<Longrightarrow> pr x \<noteq> [] \<and> c (hd_type (pr x)) \<and> hd_type (pr x) \<notin> F"
    and "length xs < n"
  shows "reads (pmany n c p) (concat (map pr xs)) (map val xs) ({ty. c ty} \<union> F)"
  using assms
proof (induction xs arbitrary: n)
  case Nil
  then obtain k where "n = Suc k" by (cases n) auto
  then show ?case by (auto simp: reads_def dest: sees_type)
next
  case (Cons x xs)
  then obtain k where n: "n = Suc k" by (cases n) auto
  let ?F = "{ty. c ty} \<union> F"
  have tail: "reads (pmany k c p) (concat (map pr xs)) (map val xs) ?F"
    using Cons n by auto
  have follow: "hd_type (concat (map pr xs) @ rest) \<notin> F" if "hd_type rest \<notin> ?F" for rest
    using that Cons.prems(2) by (cases xs) (auto simp: hd_type_append)
  have "reads (pbind (pmany k c p) (\<lambda>xs. preturn (val x # xs))) (concat (map pr xs) @ [])
      (map val (x # xs)) ?F"
    by (rule reads_bind [OF tail]) (simp_all add: reads_return)
  with Cons.prems(1) [of x] have all: "reads (pbind p (\<lambda>x. pbind (pmany k c p) (\<lambda>xs. preturn (x # xs))))
      (concat (map pr (x # xs))) (map val (x # xs)) ?F"
    using follow by (auto intro: reads_bind)
  have hd: "c (hd_type (concat (map pr (x # xs)) @ rest))" for rest
    using Cons.prems(2) [of x] by (simp add: hd_type_append)
  show ?case
    unfolding reads_def n pmany.simps
  proof (intro allI impI)
    fix s rest
    assume s: "sees s (concat (map pr (x # xs)) @ rest) \<and> hd_type rest \<notin> ?F"
    then have "c (tok_type (fst s))" using hd sees_type by metis
    moreover have "\<exists>s'. pbind p (\<lambda>x. pbind (pmany k c p) (\<lambda>xs. preturn (x # xs))) s
        = Parsed (map val (x # xs)) s' \<and> sees s' rest"
      using all s unfolding reads_def by blast
    ultimately show "\<exists>s'. (if c (tok_type (fst s)) then pbind p (\<lambda>x. pbind (pmany k c p) (\<lambda>xs. preturn (x # xs))) s
        else Parsed [] s) = Parsed (map val (x # xs)) s' \<and> sees s' rest" by simp
  qed
qed

lemma reads_expect_bind:
  assumes "reads (f tx) ts b F"
  shows "reads (pbind (expect ty m) f) ((ty, tx) # ts) b F"
  using reads_bind [where f = f, OF reads_expect [where F = "{}"] assms] by simp

lemma reads_skip_bind:
  assumes "reads p [] a F1" and "reads (f a) ts b F" and "\<And>rest. hd_type rest \<notin> F \<Longrightarrow> hd_type (ts @ rest) \<notin> F1"
  shows "reads (pbind p f) ts b F"
  using reads_bind [where f = f, OF assms] by simp

lemma reads_last_bind:
  assumes "reads p ts a F1" and "reads (f a) [] b F" and "F1 \<subseteq> F"
  shows "reads (pbind p f) ts b F"
  using reads_bind [where f = f, OF assms(1,2)] assms(3) by auto

lemmas reads_comma_bind = reads_skip_bind [OF reads_accept_comma [where F = "{}"]]

lemma length_concat_items:
  assumes "\<And>x. x \<in> set xs \<Longrightarrow> pr x \<noteq> []"
  shows "length xs \<le> length (concat (map pr xs))"
  using assms
proof (induction xs)
  case (Cons x xs)
  then have "pr x \<noteq> []" "length xs \<le> length (concat (map pr xs))" by auto
  then show ?case by (cases "pr x") auto
qed simp

lemma length_concat_item: "x \<in> set xs \<Longrightarrow> length (pr x) \<le> length (concat (map pr xs))"
  by (induction xs) auto

text \<open>A bracketed loop over printed items.\<close>

lemma reads_bracketed:
  assumes "\<And>x. x \<in> set xs \<Longrightarrow> reads p (pr x) (val x) F"
    and "\<And>x. x \<in> set xs \<Longrightarrow> pr x \<noteq> [] \<and> hd_type (pr x) \<noteq> close \<and> hd_type (pr x) \<notin> F"
    and "length (concat (map pr xs)) < n" and "close \<notin> F"
    and "reads (f (map val xs)) [] b G"
  shows "reads (pbind (expect open m) (\<lambda>_. pbind (pmany n (\<lambda>ty. ty \<noteq> close) p)
      (\<lambda>ys. pbind (expect close m') (\<lambda>_. f ys)))) ((open, t) # concat (map pr xs) @ [(close, t')]) b G"
proof (rule reads_expect_bind, rule reads_bind)
  show "reads (pmany n (\<lambda>ty. ty \<noteq> close) p) (concat (map pr xs)) (map val xs) ({ty. ty \<noteq> close} \<union> F)"
    using assms(2) length_concat_items [of xs pr] assms(3)
    by (intro reads_many assms(1)) auto
  show "reads (pbind (expect close m') (\<lambda>_. f (map val xs))) [(close, t')] b G"
    by (rule reads_expect_bind [OF assms(5)])
qed (use assms(4) in auto)

lemma reads_parseListValue:
  assumes "\<And>x. x \<in> set xs \<Longrightarrow> reads pv (pr x) (Value (kd x) x) {}"
    and "\<And>x. x \<in> set xs \<Longrightarrow> pr x \<noteq> [] \<and> hd_type (pr x) \<noteq> TRightBracket"
    and "length (concat (map pr xs)) < n"
  shows "reads (parseListValue n pv) (tok_lbracket # concat (map pr xs) @ [tok_rbracket]) (Value KList (JArr xs)) {}"
proof -
  let ?p = "pbind pv (\<lambda>v. pbind (accept TComma) (\<lambda>_. preturn (val_json v)))"
  have item: "reads ?p (pr x) x {}" if "x \<in> set xs" for x
  proof (rule reads_last_bind [OF assms(1) [OF that]])
    show "reads (pbind (accept TComma) (\<lambda>_. preturn (val_json (Value (kd x) x)))) [] x {}"
      by (rule reads_comma_bind) (simp_all add: reads_return)
  qed simp
  show ?thesis
    unfolding parseListValue_def
    by (rule reads_bracketed [where val = "\<lambda>x. x" and F = "{}"])
      (use item assms(2,3) in \<open>simp_all add: reads_return\<close>)
qed

lemma reads_parse_member:
  assumes "reads pv ts (Value kd v) {}"
  shows "reads (parse_member pv) ((TName, k) # tok_colon # ts) (k, v) {}"
  unfolding parse_member_def
proof (rule reads_expect_bind, rule reads_expect_bind, rule reads_last_bind [OF assms])
  show "reads (pbind (accept TComma) (\<lambda>_. preturn (k, val_json (Value kd v)))) [] (k, v) {}"
    by (rule reads_comma_bind) (simp_all add: reads_return)
qed simp

lemma reads_parseObjectValue:
  assumes "\<And>k v. (k, v) \<in> set kvs \<Longrightarrow> reads pv (pr v) (Value (kd v) v) {}"
    and "length (concat (map (\<lambda>(k, v). (TName, k) # tok_colon # pr v) kvs)) < n" and "omap_ok kvs"
  shows "reads (parseObjectValue n pv)
      (tok_lbrace # concat (map (\<lambda>(k, v). (TName, k) # tok_colon # pr v) kvs) @ [tok_rbrace])
      (Value KObject (JObj kvs)) {}"
  unfolding parseObjectValue_def
  by (rule reads_bracketed [where val = "\<lambda>x. x" and F = "{}"])
    (use assms in \<open>auto intro: reads_parse_member reads_return simp: json_puts_sorted\<close>)

section \<open>Values are read back\<close>

lemma reads_value_name: "reads (parseValue stod (Suc n)) [(TName, tx)] (name_value tx) F"
  by (simp add: reads_if_type_no reads_if_type_yes reads_take_text)

lemma reads_value_string: "reads (parseValue stod (Suc n)) [(TString, tx)] (Value KString (JStr tx)) F"
  unfolding parseValue.simps
  by (rule reads_if_type_no, rule reads_if_type_yes, rule reads_take_text) simp_all

lemma reads_value_int: "reads (parseValue stod (Suc n)) [(TInt, tx)] (int_value tx) F"
  by (simp add: reads_if_type_no reads_if_type_yes reads_take_text)

lemma reads_value_variable:
  "reads (parseValue stod (Suc n)) [tok_dollar, (TName, tx)] (Value KVariable (variable_json tx)) F"
proof -
  have "reads (pbind advance_token (\<lambda>_. pbind (expect TName m)
      (\<lambda>nm. preturn (Value KVariable (variable_json nm))))) ([tok_dollar] @ [(TName, tx)])
      (Value KVariable (variable_json tx)) F" for m
    by (rule reads_bind [OF reads_advance [where F = "{}"]]) (auto intro: reads_expect_bind reads_return)
  then show ?thesis unfolding parseValue.simps by (intro reads_if_type_yes) simp_all
qed

lemma to_string_sign: "hd (to_string n) \<noteq> CHR ''-''"
proof -
  have "isdigit (hd (to_string n))"
    using to_string_digits [of n] to_string_not_Nil [of n] by (cases "to_string n") auto
  then show ?thesis by (auto simp: is_digit_def)
qed

lemma int_text_ok: "int_ok (int_text i)"
  by (simp add: int_ok_def int_text_def take_sign_def to_string_sign to_string_digits to_string_not_Nil)

lemma stoll_int_text: "kIntMin \<le> i \<Longrightarrow> i \<le> kIntMax \<Longrightarrow> stoll (int_text i) = Some i"
  by (auto simp: stoll_def int_text_def take_sign_def digits_value_to_string to_string_sign to_string_not_Nil)

lemma print_json_start:
  "json_ok j \<Longrightarrow> print_json j \<noteq> [] \<and> hd_type (print_json j) \<notin> {TRightBracket, TRightBrace, TRightParen}"
  by (cases j) (auto split: option.splits)

lemma variable_name_Some: "variable_name m = Some n \<longleftrightarrow> m = [(''$variable'', JStr n)]"
  by (induction m rule: variable_name.induct) auto

lemma reads_json:
  "json_ok j \<Longrightarrow> length (print_json j) < n \<Longrightarrow>
     reads (parseValue stod n) (print_json j) (Value (kind_of j) j) {}"
proof (induction j arbitrary: n rule: print_json.induct)
  case 1
  then show ?case using reads_value_name [of stod _ "''null''"] by (cases n) (auto simp: name_value_def)
next
  case (2 b)
  then show ?case
    using reads_value_name [of stod _ "if b then ''true'' else ''false''"]
    by (cases n; cases b) (auto simp: name_value_def)
next
  case (3 i)
  then show ?case
    using reads_value_int [of stod _ "int_text i"] stoll_int_text [of i]
    by (cases n) (auto simp: int_value_def simp del: parseValue.simps)
next
  case (4 d)
  then show ?case by simp
next
  case (5 tx)
  then show ?case
    using reads_value_string [of stod _ tx] by (cases n) (auto simp del: parseValue.simps)
next
  case (6 xs)
  then obtain k where n: "n = Suc k" by (cases n) auto
  have ok: "json_ok x" if "x \<in> set xs" for x using 6(2) that by (auto simp: list_all_iff)
  have len: "length (print_json x) < k" if "x \<in> set xs" for x
    using 6(3) n length_concat_item [OF that, of print_json] by simp
  have "reads (parseListValue k (parseValue stod k)) (print_json (JArr xs)) (Value KList (JArr xs)) {}"
    unfolding print_json.simps using print_json_start [OF ok] 6(3) n
    by (intro reads_parseListValue [where kd = kind_of] 6(1) ok len) auto
  then show ?case unfolding n parseValue.simps kind_of.simps
    by (intro reads_if_type_no reads_if_type_yes) (assumption | simp)+
next
  case (7 m)
  then obtain k where n: "n = Suc k" by (cases n) auto
  show ?case
  proof (cases "variable_name m")
    case (Some v)
    then show ?thesis
      using reads_value_variable [of stod k v "{}"] n
      by (simp add: variable_name_Some variable_json_def del: parseValue.simps)
  next
    case None
    let ?pr = "\<lambda>(k, v). (TName, k) # tok_colon # print_json v"
    have ok: "json_ok v" if "(a, v) \<in> set m" for a v using 7(2) None that by (auto simp: list_all_iff)
    have len: "length (print_json v) < k" if "(a, v) \<in> set m" for a v
      using 7(3) n None length_concat_item [OF that, of ?pr] by simp
    have "reads (parseObjectValue k (parseValue stod k)) (print_json (JObj m)) (Value KObject (JObj m)) {}"
      using None 7(2,3) n unfolding print_json.simps
      by (auto intro!: reads_parseObjectValue [where kd = kind_of] 7(1) intro: ok len)
    then show ?thesis unfolding n parseValue.simps using None
      by (intro reads_if_type_no reads_if_type_yes) (assumption | simp)+
  qed
qed

lemma ast_value_ok_cases:
  assumes "ast_value_ok v"
  obtains (enum) tx where "v = name_value tx" "name_ok tx" "print_value v = [(TName, tx)]"
  | (json) j where "v = Value (kind_of j) j" "json_ok j" "print_value v = print_json j"
proof (cases v rule: ast_value_ok.cases)
  case (1 tx)
  then show ?thesis using assms enum [of tx] by (simp add: name_value_def)
qed (use assms json in auto)

lemma print_value_start:
  "ast_value_ok v \<Longrightarrow> print_value v \<noteq> [] \<and> hd_type (print_value v) \<notin> {TRightBracket, TRightBrace, TRightParen}"
  by (erule ast_value_ok_cases) (use print_json_start in auto)

lemma reads_value:
  assumes "ast_value_ok v" and "length (print_value v) < n"
  shows "reads (parseValue stod n) (print_value v) v {}"
  using assms(1)
proof (cases rule: ast_value_ok_cases)
  case (enum tx)
  then show ?thesis using reads_value_name [of stod _ tx "{}"] assms(2) by (cases n) auto
next
  case (json j)
  then show ?thesis using reads_json [of j n stod] assms(2) by simp
qed

section \<open>Operations are read back\<close>

lemma reads_argument:
  assumes "argument_ok a" and "length (print_argument a) < n"
  shows "reads (parse_argument stod n) (print_argument a) a {}"
proof -
  obtain nm v where a: "a = Argument nm v" by (cases a)
  have "reads (pbind (accept TComma) (\<lambda>_. preturn (Argument nm v))) [] a {}"
    by (rule reads_comma_bind) (simp_all add: a reads_return)
  then have "reads (pbind (parseValue stod n) (\<lambda>v. pbind (accept TComma) (\<lambda>_. preturn (Argument nm v))))
      (print_value v) a {}"
    using reads_last_bind [OF reads_value, of v n "\<lambda>v. pbind (accept TComma) (\<lambda>_. preturn (Argument nm v))"]
      assms a by simp
  then show ?thesis
    unfolding parse_argument_def a print_argument.simps by (intro reads_expect_bind)
qed

lemma print_argument_start: "print_argument a \<noteq> [] \<and> hd_type (print_argument a) = TName"
  by (cases a) simp

lemma reads_arguments:
  assumes "list_all argument_ok args" and "length (print_arguments args) < n"
  shows "reads (if_type TLeftParen (parseArguments stod n) (preturn [])) (print_arguments args) args {TLeftParen}"
proof (cases "args = []")
  case True
  then show ?thesis by (simp add: print_arguments_def reads_if_type_skip reads_return)
next
  case False
  have "length (print_argument a) < n" if "a \<in> set args" for a
    using assms(2) False length_concat_item [OF that, of print_argument] by (simp add: print_arguments_def)
  then have item: "reads (parse_argument stod n) (print_argument a) a {}" if "a \<in> set args" for a
    using assms(1) that by (intro reads_argument) (auto simp: list_all_iff)
  have "reads (parseArguments stod n) (print_arguments args) args {TLeftParen}"
    unfolding parseArguments_def print_arguments_def if_not_P [OF False]
    by (rule reads_bracketed [where val = "\<lambda>x. x" and F = "{}"])
      (use item assms(2) False print_argument_start in \<open>auto simp: print_arguments_def reads_return\<close>)
  then show ?thesis
    by (rule reads_if_type_yes) (simp_all add: print_arguments_def False)
qed

lemma reads_directive:
  assumes "directive_ok d" and "length (print_directive d) < n"
  shows "reads (parseDirective stod n) (print_directive d) d {TLeftParen}"
proof -
  obtain nm args where d: "d = Directive nm args" by (cases d)
  have "reads (if_type TLeftParen (parseArguments stod n) (preturn [])) (print_arguments args) args {TLeftParen}"
    using assms d by (intro reads_arguments) auto
  then have "reads (pbind (if_type TLeftParen (parseArguments stod n) (preturn [])) (\<lambda>args. preturn (Directive nm args)))
      (print_arguments args) d {TLeftParen}"
    by (rule reads_last_bind) (simp_all add: d reads_return)
  then show ?thesis unfolding parseDirective_def d print_directive.simps by (intro reads_expect_bind)
qed

lemma print_directive_start: "print_directive d \<noteq> [] \<and> hd_type (print_directive d) = TAt"
  by (cases d) simp

lemma reads_directives:
  assumes "list_all directive_ok dirs" and "length (print_directives dirs) < n"
  shows "reads (parseDirectives stod n) (print_directives dirs) dirs {TAt, TLeftParen}"
proof -
  have "length (print_directive d) < n" if "d \<in> set dirs" for d
    using assms(2) length_concat_item [OF that, of print_directive] by (simp add: print_directives_def)
  then have "reads (parseDirective stod n) (print_directive d) d {TLeftParen}" if "d \<in> set dirs" for d
    using assms(1) that by (intro reads_directive) (auto simp: list_all_iff)
  moreover have "length dirs < n"
    using assms(2) length_concat_items [of dirs print_directive] print_directive_start
    by (force simp: print_directives_def)
  ultimately have "reads (pmany n (\<lambda>ty. ty = TAt) (parseDirective stod n)) (concat (map print_directive dirs))
      (map (\<lambda>d. d) dirs) ({ty. ty = TAt} \<union> {TLeftParen})"
    by (intro reads_many) (auto simp: print_directive_start)
  then show ?thesis by (simp add: parseDirectives_def print_directives_def insert_commute)
qed

lemma hd_type_directives: "hd_type (print_directives dirs @ ts) = (if dirs = [] then hd_type ts else TAt)"
  using print_directive_start by (cases dirs) (auto simp: print_directives_def hd_type_append)

lemma hd_type_arguments: "hd_type (print_arguments args @ ts) = (if args = [] then hd_type ts else TLeftParen)"
  by (simp add: print_arguments_def)

definition optional_selections :: "'f FieldSelection list \<Rightarrow> tokens" where
  "optional_selections sels = (if sels = [] then [] else print_selections sels)"

lemma hd_type_optional_selections:
  "hd_type (optional_selections sels @ ts) = (if sels = [] then hd_type ts else TLeftBrace)"
  by (simp add: optional_selections_def print_selections_def)

text \<open>What follows the name of a field.\<close>

lemma reads_field_body:
  assumes "list_all argument_ok args" and "list_all directive_ok dirs"
    and "length (print_arguments args) < n" and "length (print_directives dirs) < n"
    and "sels \<noteq> [] \<Longrightarrow> reads sel (print_selections sels) sels {}"
  shows "reads (pbind (if_type TLeftParen (parseArguments stod n) (preturn [])) (\<lambda>args.
     pbind (parseDirectives stod n) (\<lambda>dirs.
     pbind (if_type TLeftBrace sel (preturn [])) (\<lambda>sels.
     preturn (FieldSelection nm al [] args dirs sels)))))
     (print_arguments args @ print_directives dirs @ optional_selections sels)
     (FieldSelection nm al [] args dirs sels) {TLeftParen, TAt, TLeftBrace}"
proof -
  let ?F = "{TLeftParen, TAt, TLeftBrace}"
  have "reads (if_type TLeftBrace sel (preturn [])) (optional_selections sels) sels {TLeftBrace}"
  proof (cases "sels = []")
    case True
    then show ?thesis by (simp add: optional_selections_def reads_if_type_skip reads_return)
  next
    case False
    then have "reads sel (optional_selections sels) sels {TLeftBrace}"
      using reads_weaken [OF assms(5)] by (simp add: optional_selections_def)
    then show ?thesis
      by (rule reads_if_type_yes) (simp_all add: False optional_selections_def print_selections_def)
  qed
  then have sels: "reads (pbind (if_type TLeftBrace sel (preturn [])) (\<lambda>sels. preturn (FieldSelection nm al [] args dirs sels)))
      (optional_selections sels) (FieldSelection nm al [] args dirs sels) ?F"
    by (rule reads_last_bind) (simp_all add: reads_return)
  have dirs: "reads (pbind (parseDirectives stod n) (\<lambda>dirs. pbind (if_type TLeftBrace sel (preturn []))
      (\<lambda>sels. preturn (FieldSelection nm al [] args dirs sels))))
      (print_directives dirs @ optional_selections sels) (FieldSelection nm al [] args dirs sels) ?F"
    by (rule reads_bind [OF reads_directives [OF assms(2,4)]])
      (use sels in \<open>auto simp: hd_type_optional_selections\<close>)
  show ?thesis
    by (rule reads_bind [OF reads_arguments [OF assms(1,3)]])
      (use dirs in \<open>auto simp: hd_type_directives hd_type_optional_selections\<close>)
qed

text \<open>One entry of a selection set: the parsers of the fields inside read what is printed.\<close>

lemma print_field_text:
  "print_field (FieldSelection nm al [] args dirs sels) =
     (if al = [] then [] else [(TName, al), tok_colon]) @ (TName, nm)
       # print_arguments args @ print_directives dirs @ optional_selections sels"
  by (simp add: optional_selections_def print_selections_def)

lemma print_field_start: "print_field f \<noteq> [] \<and> hd_type (print_field f) \<in> {TName, TSpread}"
  by (cases f) auto

lemma reads_field:
  assumes "field_ok (FieldSelection nm al [] args dirs sels)"
    and "length (print_field (FieldSelection nm al [] args dirs sels)) < n"
    and "sels \<noteq> [] \<Longrightarrow> reads (sel (d + 1)) (print_selections sels) sels {}"
  shows "reads (parseField stod n sel d) (print_field (FieldSelection nm al [] args dirs sels))
     (FieldSelection nm al [] args dirs sels) {TColon, TLeftParen, TAt, TLeftBrace}"
proof -
  let ?ts = "print_arguments args @ print_directives dirs @ optional_selections sels"
  let ?F = "{TLeftParen, TAt, TLeftBrace}"
  have len: "length (print_arguments args) < n" "length (print_directives dirs) < n"
    using assms(2) unfolding print_field_text by (auto split: if_splits)
  have oks: "list_all argument_ok args" "list_all directive_ok dirs" using assms(1) by auto
  note body = reads_field_body [OF oks len assms(3), where nm = nm and al = al and stod = stod]
  have hd: "hd_type (?ts @ rest) \<noteq> TColon" if "hd_type rest \<notin> insert TColon ?F" for rest
    using that by (simp add: hd_type_arguments hd_type_directives hd_type_optional_selections)
  note body' = reads_weaken [OF body, of "insert TColon ?F"]
  show ?thesis
  proof (cases "al = []")
    case True
    show ?thesis
      unfolding parseField_def print_field_text using True
      by (simp, intro reads_expect_bind reads_skip_bind [OF reads_accept_no])
        (use body' hd True in auto)
  next
    case False
    have "reads (pbind (accept TColon) (\<lambda>aliased.
       pbind (if aliased then expect TName ''Expected field name after alias'' else preturn al) (\<lambda>nm.
       pbind (if_type TLeftParen (parseArguments stod n) (preturn [])) (\<lambda>args.
       pbind (parseDirectives stod n) (\<lambda>dirs.
       pbind (if_type TLeftBrace (sel (d + 1)) (preturn [])) (\<lambda>sels.
       preturn (FieldSelection nm (if aliased then al else []) [] args dirs sels)))))))
       ([tok_colon] @ (TName, nm) # ?ts) (FieldSelection nm al [] args dirs sels) (insert TColon ?F)"
      by (rule reads_bind [OF reads_accept_yes [where F = "{}"]])
        (use body' in \<open>auto intro!: reads_expect_bind\<close>)
    then show ?thesis
      unfolding parseField_def print_field_text using False by (auto intro!: reads_expect_bind)
  qed
qed

lemma reads_spread:
  assumes "name_ok sp" and "sp \<noteq> ''on''" and "0 < n"
  shows "reads (parseFragmentSpread stod n sel d) [(TSpread, ''...''), (TName, sp)]
     [FieldSelection [] [] sp [] [] []] {TAt, TLeftParen}"
proof -
  have dirs: "reads (pbind (parseDirectives stod n) (\<lambda>_. preturn [FieldSelection [] [] sp [] [] []])) []
      [FieldSelection [] [] sp [] [] []] {TAt, TLeftParen}"
    using reads_directives [of "[]" n stod] assms(3)
    by (intro reads_skip_bind [where a = "[]"]) (auto simp: print_directives_def reads_return)
  show ?thesis
    unfolding parseFragmentSpread_def
    by (intro reads_expect_bind reads_if_name_no dirs) (use assms(2) in simp)
qed

lemma reads_selection:
  assumes "field_ok f" and "length (print_field f) < n"
    and "fs_selections f \<noteq> [] \<Longrightarrow> reads (sel (d + 1)) (print_selections (fs_selections f)) (fs_selections f) {}"
  shows "reads (parse_selection stod n sel d) (print_field f) [f] {TColon, TLeftParen, TAt, TLeftBrace}"
proof -
  obtain nm al sp args dirs sels where f: "f = FieldSelection nm al sp args dirs sels" by (cases f)
  show ?thesis
  proof (cases "sp = []")
    case True
    then have "reads (parseField stod n sel d) (print_field f) f {TColon, TLeftParen, TAt, TLeftBrace}"
      using assms unfolding f True by (intro reads_field) auto
    then have "reads (pbind (parseField stod n sel d) (\<lambda>f. preturn [f])) (print_field f) [f]
        {TColon, TLeftParen, TAt, TLeftBrace}"
      by (rule reads_last_bind) (simp_all add: reads_return)
    then show ?thesis
      unfolding parse_selection_def
      by (rule reads_if_type_no) (use True f in \<open>simp_all add: hd_type_append\<close>)
  next
    case False
    then have "reads (parseFragmentSpread stod n sel d) (print_field f) [f] {TAt, TLeftParen}"
      using assms(1,2) f by (auto intro: reads_spread)
    then have "reads (parseFragmentSpread stod n sel d) (print_field f) [f] {TColon, TLeftParen, TAt, TLeftBrace}"
      by (rule reads_weaken) simp
    then show ?thesis
      unfolding parse_selection_def
      by (rule reads_if_type_yes) (use False f in simp_all)
  qed
qed

lemma reads_selections:
  "list_all field_ok sels \<Longrightarrow> nestings sels + d < kMaxDepth \<Longrightarrow> length (print_selections sels) \<le> n \<Longrightarrow>
     reads (parseSelectionSet stod n d) (print_selections sels) sels {}"
proof (induction n arbitrary: sels d)
  case 0
  then show ?case by (simp add: print_selections_def)
next
  case (Suc n)
  let ?sel = "parseSelectionSet stod n"
  have len: "length (concat (map print_field sels)) < n" using Suc.prems(3) by (simp add: print_selections_def)
  have item: "reads (parse_selection stod n ?sel d) (print_field f) [f] {TColon, TLeftParen, TAt, TLeftBrace}"
    if f: "f \<in> set sels" for f
  proof (rule reads_selection)
    show ok: "field_ok f" using Suc.prems(1) f by (simp add: list_all_iff)
    show lf: "length (print_field f) < n" using len length_concat_item [OF f, of print_field] by simp
    obtain nm al sp args dirs ss where fs: "f = FieldSelection nm al sp args dirs ss" by (cases f)
    assume ne: "fs_selections f \<noteq> []"
    then have "sp = []" using ok fs by (auto split: if_splits)
    then have "length (print_selections ss) \<le> n" "list_all field_ok ss"
      using lf ok ne fs by (auto simp: print_selections_def)
    moreover have "nesting f \<le> nestings sels" using f nestings_le by blast
    then have "nestings ss + (d + 1) < kMaxDepth" using Suc.prems(2) fs ne by (simp add: nesting_Field)
    ultimately show "reads (?sel (d + 1)) (print_selections (fs_selections f)) (fs_selections f) {}"
      using Suc.IH fs by simp
  qed
  have "reads (pbind (expect TLeftBrace m) (\<lambda>_.
        pbind (pmany n (\<lambda>ty. ty \<noteq> TRightBrace) (parse_selection stod n ?sel d)) (\<lambda>fss.
        pbind (expect TRightBrace m') (\<lambda>_. preturn (concat fss))))) (print_selections sels) sels {}" for m m'
    unfolding print_selections_def
  proof (rule reads_bracketed [where val = "\<lambda>f. [f]" and F = "{TColon, TLeftParen, TAt, TLeftBrace}"])
    fix f assume "f \<in> set sels"
    then show "reads (parse_selection stod n ?sel d) (print_field f) [f] {TColon, TLeftParen, TAt, TLeftBrace}"
      by (rule item)
    show "print_field f \<noteq> [] \<and> hd_type (print_field f) \<noteq> TRightBrace \<and>
        hd_type (print_field f) \<notin> {TColon, TLeftParen, TAt, TLeftBrace}"
      using print_field_start [of f] by auto
  next
    show "reads (preturn (concat (map (\<lambda>f. [f]) sels))) [] sels {}"
      by (simp add: concat_map_singleton reads_return)
  qed (use len in simp_all)
  then show ?case using Suc.prems(2) by simp
qed

lemma reads_accept_flag:
  "reads (accept ty) (if b then [(ty, tx)] else []) b {ty}"
  by (cases b) (simp_all add: reads_accept_yes reads_accept_no)

lemma reads_skipTypeReference:
  "reads skipTypeReference
     ((if li then [tok_lbracket, (TName, ty), tok_rbracket] else [(TName, ty)]) @ (if nn then [(TBang, ''!'')] else []))
     (ty, nn, li) {TBang}"
proof -
  have bang: "reads (pbind (accept TBang) (\<lambda>nonNull. preturn (ty, nonNull, li)))
      (if nn then [(TBang, ''!'')] else []) (ty, nn, li) {TBang}"
    by (rule reads_last_bind [OF reads_accept_flag]) (simp_all add: reads_return)
  show ?thesis
  proof (cases li)
    case True
    have "reads skipTypeReference ([tok_lbracket] @ (TName, ty) # tok_rbracket # (if nn then [(TBang, ''!'')] else []))
        (ty, nn, li) {TBang}"
      unfolding skipTypeReference_def
      by (rule reads_bind [OF reads_accept_yes [where F = "{}"]])
        (use bang True in \<open>auto intro!: reads_expect_bind\<close>)
    then show ?thesis using True by simp
  next
    case False
    have "reads skipTypeReference ((TName, ty) # (if nn then [(TBang, ''!'')] else [])) (ty, nn, li) {TBang}"
      unfolding skipTypeReference_def
      by (rule reads_skip_bind [OF reads_accept_no])
        (use bang False in \<open>auto intro!: reads_expect_bind\<close>)
    then show ?thesis using False by simp
  qed
qed

lemma reads_default:
  assumes "case dv of None \<Rightarrow> True | Some v \<Rightarrow> ast_value_ok v \<and> length (print_value v) < n"
  shows "reads (pbind (accept TEquals) (\<lambda>eq.
     pbind (if eq then pbind (parseValue stod n) (\<lambda>v. preturn (Some v)) else preturn None) (\<lambda>dv.
     pbind (accept TComma) (\<lambda>_. preturn (VariableDefinition nm ty nn li dv)))))
     (case dv of None \<Rightarrow> [] | Some v \<Rightarrow> (TEquals, ''='') # print_value v)
     (VariableDefinition nm ty nn li dv) {TEquals}"
proof -
  have finish: "reads (pbind (accept TComma) (\<lambda>_. preturn (VariableDefinition nm ty nn li dv))) []
      (VariableDefinition nm ty nn li dv) F" for dv F
    by (rule reads_comma_bind) (simp_all add: reads_return)
  show ?thesis
  proof (cases dv)
    case None
    show ?thesis
      unfolding None by (rule reads_skip_bind [OF reads_accept_no]) (use finish in simp_all)
  next
    case (Some v)
    have "reads (parseValue stod n) (print_value v) v {}" using assms Some by (auto intro: reads_value)
    then have "reads (pbind (parseValue stod n) (\<lambda>v. preturn (Some v))) (print_value v) dv {}"
      by (rule reads_last_bind) (simp_all add: Some reads_return)
    then have "reads (pbind (pbind (parseValue stod n) (\<lambda>v. preturn (Some v)))
        (\<lambda>dv. pbind (accept TComma) (\<lambda>_. preturn (VariableDefinition nm ty nn li dv))))
        (print_value v) (VariableDefinition nm ty nn li dv) {TEquals}"
      by (rule reads_last_bind) (simp_all add: finish)
    then have "reads (pbind (accept TEquals) (\<lambda>eq.
       pbind (if eq then pbind (parseValue stod n) (\<lambda>v. preturn (Some v)) else preturn None) (\<lambda>dv.
       pbind (accept TComma) (\<lambda>_. preturn (VariableDefinition nm ty nn li dv)))))
       ([(TEquals, ''='')] @ print_value v) (VariableDefinition nm ty nn li dv) {TEquals}"
      by (intro reads_bind [OF reads_accept_yes [where F = "{}"]]) simp_all
    then show ?thesis using Some by simp
  qed
qed

lemma reads_variable:
  assumes "variable_ok d" and "length (print_variable d) < n"
  shows "reads (parse_variable stod n) (print_variable d) d {TBang, TEquals}"
proof -
  obtain nm ty nn li dv where d: "d = VariableDefinition nm ty nn li dv" by (cases d)
  let ?dv = "case dv of None \<Rightarrow> [] | Some v \<Rightarrow> (TEquals, ''='') # print_value v"
  have "reads (pbind (accept TEquals) (\<lambda>eq.
     pbind (if eq then pbind (parseValue stod n) (\<lambda>v. preturn (Some v)) else preturn None) (\<lambda>dv.
     pbind (accept TComma) (\<lambda>_. preturn (VariableDefinition nm ty nn li dv))))) ?dv d {TBang, TEquals}"
    unfolding d using assms d
    by (intro reads_weaken [OF reads_default]) (auto split: option.splits)
  then have "reads (pbind skipTypeReference (\<lambda>(typeName, nonNull, isList). pbind (accept TEquals) (\<lambda>eq.
     pbind (if eq then pbind (parseValue stod n) (\<lambda>v. preturn (Some v)) else preturn None) (\<lambda>dv.
     pbind (accept TComma) (\<lambda>_. preturn (VariableDefinition nm typeName nonNull isList dv))))))
     (((if li then [tok_lbracket, (TName, ty), tok_rbracket] else [(TName, ty)])
        @ (if nn then [(TBang, ''!'')] else [])) @ ?dv) d {TBang, TEquals}"
    by (intro reads_bind [OF reads_skipTypeReference]) (auto split: option.splits)
  then show ?thesis
    unfolding parse_variable_def d print_variable.simps append_Cons append_Nil append_assoc
    by (intro reads_expect_bind)
qed

lemma print_variable_start: "print_variable d \<noteq> [] \<and> hd_type (print_variable d) = TDollar"
  by (cases d) simp

lemma reads_variables:
  assumes "list_all variable_ok vs" and "length (print_variables vs) < n"
  shows "reads (if_type TLeftParen (parseVariableDefinitions stod n) (preturn [])) (print_variables vs) vs {TLeftParen}"
proof (cases "vs = []")
  case True
  then show ?thesis by (simp add: print_variables_def reads_if_type_skip reads_return)
next
  case False
  have "length (print_variable a) < n" if "a \<in> set vs" for a
    using assms(2) False length_concat_item [OF that, of print_variable] by (simp add: print_variables_def)
  then have item: "reads (parse_variable stod n) (print_variable a) a {TBang, TEquals}" if "a \<in> set vs" for a
    using assms(1) that by (intro reads_variable) (auto simp: list_all_iff)
  have "reads (parseVariableDefinitions stod n) (print_variables vs) vs {TLeftParen}"
    unfolding parseVariableDefinitions_def print_variables_def if_not_P [OF False]
    by (rule reads_bracketed [where val = "\<lambda>x. x" and F = "{TBang, TEquals}"])
      (use item assms(2) False print_variable_start in \<open>auto simp: print_variables_def reads_return\<close>)
  then show ?thesis
    by (rule reads_if_type_yes) (simp_all add: print_variables_def False)
qed

lemma hd_type_variables: "hd_type (print_variables vs @ ts) = (if vs = [] then hd_type ts else TLeftParen)"
  by (simp add: print_variables_def)

lemma reads_operation_type: "reads operation_type [(TName, type_keyword ty)] ty F"
  using reads_take_text [of "\<lambda>_. ty" TName "type_keyword ty" F]
  by (cases ty) (auto simp: operation_type_def intro!: reads_if_name_yes reads_if_name_no)

lemma reads_operation_name:
  "reads (if_type TName (take_text (\<lambda>tx. tx)) (preturn [])) (if nm = [] then [] else [(TName, nm)]) nm {TName}"
  using reads_take_text [of "\<lambda>tx. tx" TName nm "{TName}"]
  by (auto intro: reads_if_type_skip reads_if_type_yes reads_return)

lemma reads_operation_head:
  assumes "list_all variable_ok vs" and "list_all directive_ok dirs"
    and "length (print_variables vs) < n" and "length (print_directives dirs) < n"
  shows "reads (pbind operation_type (\<lambda>ty.
          pbind (if_type TName (take_text (\<lambda>tx. tx)) (preturn [])) (\<lambda>nm.
          pbind (if_type TLeftParen (parseVariableDefinitions stod n) (preturn [])) (\<lambda>vs.
          pbind (parseDirectives stod n) (\<lambda>dirs.
          preturn (ty, nm, vs, dirs))))))
     ([(TName, type_keyword ty)] @ (if nm = [] then [] else [(TName, nm)]) @ print_variables vs @ print_directives dirs)
     (ty, nm, vs, dirs) {TName, TLeftParen, TAt}"
proof -
  let ?F = "{TName, TLeftParen, TAt}"
  have dirs: "reads (pbind (parseDirectives stod n) (\<lambda>dirs. preturn (ty, nm, vs, dirs)))
      (print_directives dirs) (ty, nm, vs, dirs) ?F"
    by (rule reads_last_bind [OF reads_directives [OF assms(2,4)]]) (simp_all add: reads_return)
  have vars: "reads (pbind (if_type TLeftParen (parseVariableDefinitions stod n) (preturn [])) (\<lambda>vs.
      pbind (parseDirectives stod n) (\<lambda>dirs. preturn (ty, nm, vs, dirs))))
      (print_variables vs @ print_directives dirs) (ty, nm, vs, dirs) ?F"
    by (rule reads_bind [OF reads_variables [OF assms(1,3)]])
      (use dirs in \<open>auto simp: hd_type_directives\<close>)
  have name: "reads (pbind (if_type TName (take_text (\<lambda>tx. tx)) (preturn [])) (\<lambda>nm.
      pbind (if_type TLeftParen (parseVariableDefinitions stod n) (preturn [])) (\<lambda>vs.
      pbind (parseDirectives stod n) (\<lambda>dirs. preturn (ty, nm, vs, dirs)))))
      ((if nm = [] then [] else [(TName, nm)]) @ print_variables vs @ print_directives dirs) (ty, nm, vs, dirs) ?F"
    by (rule reads_bind [OF reads_operation_name])
      (use vars in \<open>auto simp: hd_type_directives hd_type_variables\<close>)
  show ?thesis
    by (rule reads_bind [OF reads_operation_type [where F = "{}"]]) (use name in auto)
qed

abbreviation operation_tokens :: "'f Operation \<Rightarrow> tokens" where
  "operation_tokens op \<equiv>
     (TName, type_keyword (op_type op)) # (if op_name op = [] then [] else [(TName, op_name op)])
       @ print_variables (op_variables op) @ print_directives (op_directives op)"

lemma reads_operation:
  assumes "printable op" and "nestings (op_selections op) < kMaxDepth" and "op_fragments op = []"
    and "length (operation_tokens op @ print_selections (op_selections op)) < n"
  shows "reads (parseOperationDefinition stod n) (operation_tokens op @ print_selections (op_selections op)) op {}"
proof -
  let ?head = "if_type TLeftBrace (preturn (Query, [], [], []))
       (if_type TName
         (pbind operation_type (\<lambda>ty.
          pbind (if_type TName (take_text (\<lambda>tx. tx)) (preturn [])) (\<lambda>nm.
          pbind (if_type TLeftParen (parseVariableDefinitions stod n) (preturn [])) (\<lambda>vs.
          pbind (parseDirectives stod n) (\<lambda>dirs.
          preturn (ty, nm, vs, dirs))))))
       (throwError ''Expected operation definition''))"
  have head: "reads ?head (operation_tokens op) (op_type op, op_name op, op_variables op, op_directives op)
      {TName, TLeftParen, TAt}"
    using reads_operation_head [of "op_variables op" "op_directives op" n stod "op_type op" "op_name op"] assms
    by (intro reads_if_type_no reads_if_type_yes) (auto simp: printable_def)
  have "reads (parseSelectionSet stod n 0) (print_selections (op_selections op)) (op_selections op) {}"
    using assms by (intro reads_selections) (auto simp: printable_def)
  moreover have "\<lparr>op_type = op_type op, op_name = op_name op, op_variables = op_variables op,
      op_directives = op_directives op, op_selections = op_selections op, op_fragments = []\<rparr> = op"
    using assms(3) by (cases op) simp
  ultimately have sels: "reads (pbind (parseSelectionSet stod n 0) (\<lambda>sels.
      preturn \<lparr>op_type = op_type op, op_name = op_name op, op_variables = op_variables op,
        op_directives = op_directives op, op_selections = sels, op_fragments = []\<rparr>))
      (print_selections (op_selections op)) op {}"
    by (intro reads_last_bind) (auto simp: reads_return)
  show ?thesis
    unfolding parseOperationDefinition_def
    by (rule reads_bind [OF head]) (use sels in \<open>auto simp: print_selections_def\<close>)
qed

lemma reads_fragment:
  assumes "fragment_ok (k, fr)" and "nestings (frag_selections fr) < kMaxDepth"
    and "length (print_fragment (k, fr)) < n"
  shows "reads (parseFragmentDefinition stod n) (print_fragment (k, fr)) fr {}"
proof -
  obtain nm tc dirs sels where fr: "fr = FragmentDefinition nm tc dirs sels" by (cases fr)
  have "reads (parseSelectionSet stod n 0) (print_selections sels) sels {}"
    using assms fr by (intro reads_selections) auto
  then have sels: "reads (pbind (parseSelectionSet stod n 0) (\<lambda>sels. preturn (FragmentDefinition nm tc dirs sels)))
      (print_selections sels) fr {}"
    by (rule reads_last_bind) (simp_all add: fr reads_return)
  have "reads (parseDirectives stod n) (print_directives dirs) dirs {TAt, TLeftParen}"
    using assms fr by (intro reads_directives) auto
  then have dirs: "reads (pbind (parseDirectives stod n) (\<lambda>dirs. pbind (parseSelectionSet stod n 0)
      (\<lambda>sels. preturn (FragmentDefinition nm tc dirs sels)))) (print_directives dirs @ print_selections sels) fr {}"
    by (rule reads_bind) (use sels in \<open>auto simp: print_selections_def\<close>)
  have on: "reads (if_name ''on'' advance_token (throwError m)) [(TName, ''on'')] () {}" for m
    by (rule reads_if_name_yes [OF reads_advance])
  have "reads (pbind (if_name ''on'' advance_token (throwError m)) (\<lambda>_.
      pbind (expect TName m') (\<lambda>tc. pbind (parseDirectives stod n) (\<lambda>dirs. pbind (parseSelectionSet stod n 0)
      (\<lambda>sels. preturn (FragmentDefinition nm tc dirs sels))))))
      ([(TName, ''on'')] @ (TName, tc) # print_directives dirs @ print_selections sels) fr {}" for m m'
    by (rule reads_bind [OF on]) (use dirs in \<open>auto intro!: reads_expect_bind\<close>)
  then show ?thesis
    unfolding parseFragmentDefinition_def fr print_fragment.simps append_Cons append_Nil
    by (intro reads_expect_bind)
qed

lemma print_fragment_start: "\<exists>ts. print_fragment x = (TName, ''fragment'') # ts"
  by (cases x rule: print_fragment.cases) simp

lemma reads_fragments:
  assumes "list_all fragment_ok frs" and "list_all frag_ok frs" and "length (concat (map print_fragment frs)) < n"
    and "length frs < k" and "omap_ok (op_fragments op @ frs)"
  shows "reads (parse_fragments stod n k op) (concat (map print_fragment frs))
     (op\<lparr>op_fragments := op_fragments op @ frs\<rparr>) {TName}"
  using assms
proof (induction frs arbitrary: k op)
  case Nil
  then obtain j where "k = Suc j" by (cases k) auto
  then show ?case by (simp add: reads_if_name_skip reads_return)
next
  case (Cons x frs)
  then obtain j where k: "k = Suc j" by (cases k) auto
  obtain nm fr where x: "x = (nm, fr)" by (cases x)
  have nm: "nm = frag_name fr" using Cons.prems(2) x by (simp add: frag_ok_def)
  let ?op = "op\<lparr>op_fragments := omap_put (frag_name fr) fr (op_fragments op)\<rparr>"
  have "\<forall>y\<in>set (op_fragments op). fst y < nm"
    using Cons.prems(5) x by (auto simp: omap_ok_def sorted_wrt_append)
  then have put: "omap_put (frag_name fr) fr (op_fragments op) = op_fragments op @ [x]"
    using omap_put_last x nm by metis
  have "reads (parse_fragments stod n j ?op) (concat (map print_fragment frs))
      (?op\<lparr>op_fragments := op_fragments ?op @ frs\<rparr>) {TName}"
    using Cons.prems k by (intro Cons.IH) (auto simp: put)
  then have rest: "reads (parse_fragments stod n j ?op) (concat (map print_fragment frs))
      (op\<lparr>op_fragments := op_fragments op @ x # frs\<rparr>) {TName}"
    by (simp add: put)
  have "reads (parseFragmentDefinition stod n) (print_fragment x) fr {}"
    using Cons.prems x by (auto intro!: reads_fragment simp: frag_ok_def)
  then have "reads (pbind (parseFragmentDefinition stod n) (\<lambda>frag. parse_fragments stod n j
      (op\<lparr>op_fragments := omap_put (frag_name frag) frag (op_fragments op)\<rparr>)))
      (print_fragment x @ concat (map print_fragment frs)) (op\<lparr>op_fragments := op_fragments op @ x # frs\<rparr>) {TName}"
    by (rule reads_bind) (use rest in auto)
  then show ?case
    using print_fragment_start [of x] k by (auto intro: reads_if_name_yes)
qed

text \<open>Printed tokens are tokens.\<close>

lemma tok_ok_punctuation [simp]:
  "tok_ok tok_lbracket" "tok_ok tok_rbracket" "tok_ok tok_lbrace" "tok_ok tok_rbrace"
  "tok_ok tok_lparen" "tok_ok tok_rparen" "tok_ok tok_colon" "tok_ok tok_dollar"
  "tok_ok (TAt, ''@'')" "tok_ok (TBang, ''!'')" "tok_ok (TEquals, ''='')"
  by (simp_all add: punctuation_def)

lemma name_ok_keywords [simp]:
  "name_ok ''null''" "name_ok ''true''" "name_ok ''false''" "name_ok ''fragment''" "name_ok ''on''"
  "name_ok (type_keyword ty)"
  by (cases ty; simp add: name_ok_def name_start_def name_char_def isalpha_def)+

lemma tok_ok_concat: "list_all tok_ok (concat (map pr xs)) \<longleftrightarrow> (\<forall>x\<in>set xs. list_all tok_ok (pr x))"
  by (induction xs) auto

declare tok_ok.simps(5-) [simp del]

lemma tok_ok_json: "json_ok j \<Longrightarrow> list_all tok_ok (print_json j)"
proof (induction j rule: print_json.induct)
  case (7 m)
  then show ?case by (auto simp: tok_ok_concat list_all_iff split: option.splits)
qed (auto simp: int_text_ok tok_ok_concat list_all_iff)

lemma tok_ok_value: "ast_value_ok v \<Longrightarrow> list_all tok_ok (print_value v)"
  by (erule ast_value_ok_cases) (simp_all add: tok_ok_json)

lemma tok_ok_arguments: "list_all argument_ok args \<Longrightarrow> list_all tok_ok (print_arguments args)"
proof -
  have "argument_ok a \<Longrightarrow> list_all tok_ok (print_argument a)" for a :: "'f Argument"
    by (cases a) (simp add: tok_ok_value)
  then show "list_all argument_ok args \<Longrightarrow> list_all tok_ok (print_arguments args)"
    by (auto simp: print_arguments_def tok_ok_concat list_all_iff)
qed

lemma tok_ok_directives: "list_all directive_ok dirs \<Longrightarrow> list_all tok_ok (print_directives dirs)"
proof -
  have "directive_ok d \<Longrightarrow> list_all tok_ok (print_directive d)" for d :: "'f Directive"
    by (cases d) (simp add: tok_ok_arguments)
  then show "list_all directive_ok dirs \<Longrightarrow> list_all tok_ok (print_directives dirs)"
    by (auto simp: print_directives_def tok_ok_concat list_all_iff)
qed

lemma tok_ok_field: "field_ok f \<Longrightarrow> list_all tok_ok (print_field f)"
proof (induction f rule: print_field.induct)
  case (1 nm al sp args dirs sels)
  then show ?case
    by (auto simp: tok_ok_concat list_all_iff [of field_ok] tok_ok_arguments tok_ok_directives split: if_splits)
qed

lemma tok_ok_selections: "list_all field_ok sels \<Longrightarrow> list_all tok_ok (print_selections sels)"
  by (auto simp: print_selections_def tok_ok_concat list_all_iff [of field_ok] tok_ok_field)

lemma tok_ok_variables: "list_all variable_ok vs \<Longrightarrow> list_all tok_ok (print_variables vs)"
proof -
  have "variable_ok d \<Longrightarrow> list_all tok_ok (print_variable d)" for d :: "'f VariableDefinition"
    by (cases d) (auto simp: tok_ok_value split: option.splits)
  then show "list_all variable_ok vs \<Longrightarrow> list_all tok_ok (print_variables vs)"
    by (auto simp: print_variables_def tok_ok_concat list_all_iff)
qed

lemma tok_ok_fragment: "fragment_ok x \<Longrightarrow> list_all tok_ok (print_fragment x)"
  by (cases x rule: print_fragment.cases) (auto simp: tok_ok_directives tok_ok_selections)

lemma tok_ok_operation: "printable op \<Longrightarrow> list_all tok_ok (print_operation op)"
  by (auto simp: printable_def print_operation_def tok_ok_variables tok_ok_directives tok_ok_selections
      tok_ok_concat list_all_iff [of fragment_ok] tok_ok_fragment)

lemma length_show_tokens: "length ts \<le> length (show_tokens ts)"
  by (induction ts) (auto simp: show_tokens_def)

lemma run_parser_reads:
  assumes "list_all tok_ok ts" and "ts \<noteq> []" and "reads (parseDocument stod (fuel_for (show_tokens ts))) ts op F"
    and "TEnd \<notin> F"
  shows "tryParse stod (show_tokens ts) = Some (Inr op)"
proof -
  obtain t ts' where ts: "ts = t # ts'" using assms(2) by (cases ts) auto
  have "lexes 0 (show_tokens ts) ts" by (rule lexes_show [OF assms(1)])
  then obtain q p s where "next_token 0 (show_tokens ts) = Inr (Token (fst t) (snd t) q, p, s)" "lexes p s ts'"
    unfolding ts by auto
  then have "advance_token (Token TEnd [] 0, 0, show_tokens ts) = Parsed () (Token (fst t) (snd t) q, p, s)"
    and sees: "sees (Token (fst t) (snd t) q, p, s) (ts @ [])"
    using assms(1) ts by (auto simp: advance_token_def sees_def)
  moreover obtain s' where "parseDocument stod (fuel_for (show_tokens ts)) (Token (fst t) (snd t) q, p, s) = Parsed op s'"
    using assms(3,4) sees unfolding reads_def by fastforce
  ultimately show ?thesis by (simp add: tryParse_def run_parser_def pbind_def)
qed

lemma reads_document:
  assumes "printable op" and "operation_ok op" and "length (print_operation op) < n"
  shows "reads (parseDocument stod n) (print_operation op) op (- {TEnd})"
proof -
  let ?op = "op\<lparr>op_fragments := []\<rparr>"
  have len: "length (op_fragments op) \<le> length (concat (map print_fragment (op_fragments op)))"
    by (rule length_concat_items) (metis print_fragment_start list.distinct(1))
  have first: "reads (parseOperationDefinition stod n) (operation_tokens ?op @ print_selections (op_selections ?op)) ?op {}"
    using assms by (intro reads_operation) (auto simp: printable_def operation_ok_def print_operation_def)
  have "reads (parse_fragments stod n n ?op) (concat (map print_fragment (op_fragments op)))
      (?op\<lparr>op_fragments := op_fragments ?op @ op_fragments op\<rparr>) {TName}"
    using assms len by (intro reads_fragments) (auto simp: printable_def operation_ok_def print_operation_def)
  then have frags: "reads (parse_fragments stod n n ?op) (concat (map print_fragment (op_fragments op))) op {TName}"
    by simp
  have stop: "reads (if_type TEnd (preturn op) (throwError m)) [] op (- {TEnd})" for m
    by (rule readsI) (auto simp: if_type_def preturn_def dest: sees_type)
  have "reads (pbind (parse_fragments stod n n ?op) (\<lambda>op'. if_type TEnd (preturn op') (throwError m)))
      (concat (map print_fragment (op_fragments op))) op (- {TEnd})" for m
    by (rule reads_last_bind [OF frags]) (auto simp: stop)
  then have "reads (parseDocument stod n) ((operation_tokens ?op @ print_selections (op_selections ?op))
      @ concat (map print_fragment (op_fragments op))) op (- {TEnd})"
    unfolding parseDocument_def by (intro reads_bind [OF first]) auto
  then show ?thesis by (cases "op_name op = []") (simp_all add: print_operation_def)
qed

text \<open>
  (C11) Parsing what an operation prints gives the operation back: every query, mutation and
  subscription, with variables and their defaults, aliases, arguments holding nested lists, objects
  and variables, directives, nested selections, spreads and fragment definitions, as long as fields
  nest at most 20 deep. No construct is confused with another and nothing is dropped.
\<close>

theorem parse_print:
  assumes "printable op" and "operation_ok op"
  shows "tryParse stod (operation_text op) = Some (Inr op)"
proof -
  have "length (print_operation op) < fuel_for (show_tokens (print_operation op))"
    using length_show_tokens [of "print_operation op"] by (simp add: fuel_for_def)
  note doc = reads_document [OF assms this]
  have "print_operation op \<noteq> []" by (simp add: print_operation_def)
  from run_parser_reads [OF tok_ok_operation [OF assms(1)] this doc] show ?thesis
    by (simp add: operation_text_def)
qed

definition sample_operation :: "nat Operation" where
  "sample_operation =
     \<lparr>op_type = Query, op_name = ''Q'',
      op_variables = [VariableDefinition ''id'' ''String'' True False None],
      op_directives = [],
      op_selections =
        [FieldSelection ''system'' ''s'' []
           [Argument ''id'' (Value KVariable (variable_json ''id'')),
            Argument ''at'' (Value KList (JArr [JInt (- 3), JStr ''x''])) ]
           [] [FieldSelection [] [] ''F'' [] [] []]],
      op_fragments = [(''F'', FragmentDefinition ''F'' ''System'' [] [FieldSelection ''power'' [] [] [] [] []])]\<rparr>"

lemma sample_printable: "printable sample_operation"
  by (simp add: sample_operation_def printable_def variable_json_def name_ok_def name_start_def name_char_def
      isalpha_def)

lemma sample_ok: "operation_ok sample_operation"
  by (simp add: sample_operation_def operation_ok_def nestings_def nesting.simps kMaxDepth_def frag_ok_def
      omap_ok_def)

theorem parse_print_witness:
  "printable sample_operation \<and> operation_ok sample_operation
    \<and> tryParse (\<lambda>tx. None) (operation_text sample_operation) = Some (Inr sample_operation)"
  using sample_printable sample_ok parse_print [OF sample_printable sample_ok] by blast

end
