(* ===== verification/GraphqlSchema.thy ===== *)
theory GraphqlSchema
  imports GraphqlParser WhenAll
begin

text \<open>
  \<open>graphql/util.hpp\<close> (variables, fragment expansion, field filtering) and \<open>graphql/typed_schema.hpp\<close>
  (the typed schema: loading it from JSON, looking up fields and validating an operation). An
  exception is a value of \<open>exn\<close>: \<open>std::runtime_error\<close> as in the source, and the exceptions of
  \<open>nlohmann::json\<close> by their numbers (302 and 304 for a value of the wrong type, 306 for \<open>value()\<close> on a value that
  is not an object, 403 for a missing key). The unordered maps are only looked up by key, and are
  kept in key order.
\<close>

section \<open>Errors\<close>

abbreviation json_type_error :: exn where "json_type_error \<equiv> other_exn 302"
abbreviation json_at_error :: exn where "json_at_error \<equiv> other_exn 304"
abbreviation json_value_error :: exn where "json_value_error \<equiv> other_exn 306"
abbreviation json_key_error :: exn where "json_key_error \<equiv> other_exn 403"

text \<open>\<open>get<std::string>()\<close> and \<open>get<bool>()\<close>.\<close>

fun get_string :: "'f json \<Rightarrow> exn + string" where
  "get_string (JStr s) = Inr s"
| "get_string _ = Inl json_type_error"

fun get_bool :: "'f json \<Rightarrow> exn + bool" where
  "get_bool (JBool b) = Inr b"
| "get_bool _ = Inl json_type_error"

section \<open>Variables\<close>

text \<open>\<open>value.contains("$variable") && value.size() == 1\<close>, and the member.\<close>

fun variable_ref :: "(string \<times> 'f json) list \<Rightarrow> 'f json option" where
  "variable_ref [(k, v)] = (if k = ''$variable'' then Some v else None)"
| "variable_ref _ = None"

fun resolveVariables :: "'f json \<Rightarrow> 'f json \<Rightarrow> exn + 'f json" where
  "resolveVariables vars (JObj m) =
     (case variable_ref m of
        Some v \<Rightarrow> ebind (get_string v) (\<lambda>n. Inr (case json_get vars n of Some x \<Rightarrow> x | None \<Rightarrow> JNull))
      | None \<Rightarrow>
          ebind (emap (\<lambda>(k, v). ebind (resolveVariables vars v) (\<lambda>v'. Inr (k, v'))) m)
            (\<lambda>kvs. Inr (json_puts kvs (JObj []))))"
| "resolveVariables vars (JArr xs) = ebind (emap (resolveVariables vars) xs) (\<lambda>ys. Inr (JArr ys))"
| "resolveVariables vars v = Inr v"

text \<open>The loop of \<open>argumentsToJson\<close>.\<close>

fun arguments_loop :: "'f json \<Rightarrow> 'f Argument list \<Rightarrow> 'f json \<Rightarrow> exn + 'f json" where
  "arguments_loop vars [] result = Inr result"
| "arguments_loop vars (a # args) result =
     ebind (resolveVariables vars (val_json (arg_value a)))
       (\<lambda>v. arguments_loop vars args (json_put (arg_name a) v result))"

definition argumentsToJson :: "'f Argument list \<Rightarrow> 'f json \<Rightarrow> exn + 'f json" where
  "argumentsToJson args vars = arguments_loop vars args (JObj [])"

definition initialVariables :: "'f Operation \<Rightarrow> 'f json" where
  "initialVariables op =
     fold (\<lambda>d. json_put (var_name d) (case var_default d of Some v \<Rightarrow> val_json v | None \<Rightarrow> JNull))
       (op_variables op) (JObj [])"

text \<open>
  \<open>mergedVariables\<close>: the caller's variables over the defaults, the same loop in all the executors.
\<close>

definition merge_variables :: "'f Operation \<Rightarrow> 'f json \<Rightarrow> exn + 'f json" where
  "merge_variables op vars =
     (case json_items vars of
        None \<Rightarrow> Inl (other_exn 207)
      | Some kvs \<Rightarrow> Inr (json_puts kvs (initialVariables op)))"

section \<open>Fragments\<close>

lemma fresh_names_decrease:
  assumes "sp \<notin> set visited" and "map_of frags sp = Some fr"
  shows "card (fst ` set frags - insert sp (set visited)) < card (fst ` set frags - set visited)"
proof (rule psubset_card_mono)
  have "sp \<in> fst ` set frags" using assms(2) by (force dest: map_of_SomeD)
  with assms(1) show "fst ` set frags - insert sp (set visited) \<subset> fst ` set frags - set visited" by blast
qed simp

function expand_selections ::
  "(string \<times> 'f FragmentDefinition) list \<Rightarrow> string list \<Rightarrow> 'f FieldSelection list \<Rightarrow> exn + 'f FieldSelection list"
where
  "expand_selections frags visited [] = Inr []"
| "expand_selections frags visited (FieldSelection nm al sp args dirs sels # rest) =
     (if sp \<noteq> [] then
        if sp \<in> set visited then Inl (runtime_error (''Circular fragment reference: '' @ sp))
        else
          (case map_of frags sp of
             None \<Rightarrow> Inl (runtime_error (''Unknown fragment: '' @ sp))
           | Some fr \<Rightarrow>
               ebind (expand_selections frags (sp # visited) (frag_selections fr)) (\<lambda>fs.
               ebind (expand_selections frags visited rest) (\<lambda>rs.
               Inr (fs @ rs))))
      else
        ebind (expand_selections frags visited sels) (\<lambda>ss.
        ebind (expand_selections frags visited rest) (\<lambda>rs.
        Inr (FieldSelection nm al sp args dirs ss # rs))))"
  by pat_completeness auto

termination
  by (relation "measures [\<lambda>(frags, visited, sels). card (fst ` set frags - set visited),
      \<lambda>(frags, visited, sels). size_list size sels]")
    (auto simp: fresh_names_decrease less_Suc_eq_le trans_le_add1)

definition expandFragments :: "'f Operation \<Rightarrow> exn + 'f Operation" where
  "expandFragments op =
     ebind (expand_selections (op_fragments op) [] (op_selections op))
       (\<lambda>sels. Inr (op\<lparr>op_selections := sels\<rparr>))"

section \<open>Filtering\<close>

text \<open>\<open>selection.alias.empty() ? selection.name : selection.alias\<close>\<close>

definition outputName :: "'f FieldSelection \<Rightarrow> string" where
  "outputName sel = (if fs_alias sel = [] then fs_name sel else fs_alias sel)"

lemma size_selections: "size_list size (fs_selections sel) < size sel"
  by (cases sel) simp

function (sequential) filterFields :: "'f json \<Rightarrow> 'f FieldSelection list \<Rightarrow> 'f json"
  and filter_members :: "'f json \<Rightarrow> 'f FieldSelection list \<Rightarrow> 'f json \<Rightarrow> 'f json"
where
  "filterFields data sels =
     (if sels = [] then data
      else
        (case data of
           JArr xs \<Rightarrow> JArr (map (\<lambda>x. filterFields x sels) xs)
         | JObj m \<Rightarrow> filter_members data sels (JObj [])
         | _ \<Rightarrow> data))"
| "filter_members data [] result = result"
| "filter_members data (sel # sels) result =
     (case json_get data (fs_name sel) of
        None \<Rightarrow> filter_members data sels result
      | Some v \<Rightarrow>
          filter_members data sels
            (json_put (outputName sel) (if fs_selections sel = [] then v else filterFields v (fs_selections sel)) result))"
  by pat_completeness auto

termination
proof (relation "measures [
    \<lambda>x. case x of Inl (data, sels) \<Rightarrow> size_list size sels | Inr (data, sels, result) \<Rightarrow> size_list size sels,
    \<lambda>x. case x of Inl (data, sels) \<Rightarrow> Suc (size data) | Inr (data, sels, result) \<Rightarrow> 0]",
    goal_cases)
qed (auto simp: less_Suc_eq_le size_list_estimation' size_selections less_imp_le trans_less_add1 intro: order.strict_trans)

section \<open>The typed schema\<close>

record ArgumentSpec =
  as_name :: string
  as_typeName :: string
  as_required :: bool
  as_defaultValue :: string

record FieldSpec =
  fsp_name :: string
  fsp_responseKey :: string
  fsp_returnType :: string
  fsp_isList :: bool
  fsp_scalar :: bool
  fsp_arguments :: "ArgumentSpec list"
  fsp_redfishPath :: string
  fsp_expandMembers :: bool
  fsp_collectionLink :: bool

record ObjectSpec =
  os_name :: string
  os_fields :: "(string \<times> FieldSpec) list"

record DbusWatcher =
  dw_object :: string
  dw_interface :: string
  dw_property :: string
  dw_graphqlFields :: "string list"

record TypedSchema =
  rootQueries :: "(string \<times> FieldSpec) list"
  rootSubscriptions :: "(string \<times> FieldSpec) list"
  schema_objects :: "(string \<times> ObjectSpec) list"
  dbusWatchers :: "DbusWatcher list"

definition empty_schema :: TypedSchema where
  "empty_schema = \<lparr>rootQueries = [], rootSubscriptions = [], schema_objects = [], dbusWatchers = []\<rparr>"

definition addObject :: "ObjectSpec \<Rightarrow> TypedSchema \<Rightarrow> TypedSchema" where
  "addObject ob sch = sch\<lparr>schema_objects := omap_put (os_name ob) ob (schema_objects sch)\<rparr>"

definition addRootQuery :: "FieldSpec \<Rightarrow> TypedSchema \<Rightarrow> TypedSchema" where
  "addRootQuery f sch = sch\<lparr>rootQueries := omap_put (fsp_name f) f (rootQueries sch)\<rparr>"

definition addRootSubscription :: "FieldSpec \<Rightarrow> TypedSchema \<Rightarrow> TypedSchema" where
  "addRootSubscription f sch = sch\<lparr>rootSubscriptions := omap_put (fsp_name f) f (rootSubscriptions sch)\<rparr>"

definition addDbusWatcher :: "DbusWatcher \<Rightarrow> TypedSchema \<Rightarrow> TypedSchema" where
  "addDbusWatcher w sch = sch\<lparr>dbusWatchers := dbusWatchers sch @ [w]\<rparr>"

definition getDbusWatchers :: "TypedSchema \<Rightarrow> DbusWatcher list" where
  "getDbusWatchers sch = dbusWatchers sch"

definition getRootQueryField :: "TypedSchema \<Rightarrow> string \<Rightarrow> FieldSpec option" where
  "getRootQueryField sch name = map_of (rootQueries sch) name"

definition getRootSubscriptionField :: "TypedSchema \<Rightarrow> string \<Rightarrow> FieldSpec option" where
  "getRootSubscriptionField sch name = map_of (rootSubscriptions sch) name"

definition getObject :: "TypedSchema \<Rightarrow> string \<Rightarrow> ObjectSpec option" where
  "getObject sch name = map_of (schema_objects sch) name"

section \<open>Loading a schema\<close>

text \<open>\<open>j.at(k)\<close>, \<open>j.value(k, default)\<close> and the elements a range-based \<open>for\<close> over a JSON value visits.\<close>

definition json_at :: "string \<Rightarrow> 'f json \<Rightarrow> exn + 'f json" where
  "json_at k j =
     (if is_object j then (case json_get j k of Some v \<Rightarrow> Inr v | None \<Rightarrow> Inl json_key_error)
      else Inl json_at_error)"

definition json_value :: "string \<Rightarrow> ('f json \<Rightarrow> exn + 'a) \<Rightarrow> 'a \<Rightarrow> 'f json \<Rightarrow> exn + 'a" where
  "json_value k get d j =
     (if is_object j then (case json_get j k of Some v \<Rightarrow> get v | None \<Rightarrow> Inr d)
      else Inl json_value_error)"

fun json_elements :: "'f json \<Rightarrow> 'f json list" where
  "json_elements JNull = []"
| "json_elements (JArr xs) = xs"
| "json_elements (JObj m) = map snd m"
| "json_elements j = [j]"

fun get_strings :: "'f json \<Rightarrow> exn + string list" where
  "get_strings (JArr xs) = emap get_string xs"
| "get_strings _ = Inl json_type_error"

text \<open>\<open>with_default\<close>: the object fields' arguments carry no default, the root fields' do.\<close>

definition load_argument :: "bool \<Rightarrow> 'f json \<Rightarrow> exn + ArgumentSpec" where
  "load_argument with_default a =
     ebind (ebind (json_at ''name'' a) get_string) (\<lambda>nm.
     ebind (ebind (json_at ''typeName'' a) get_string) (\<lambda>ty.
     ebind (json_value ''required'' get_bool False a) (\<lambda>req.
     ebind (if with_default then json_value ''default'' get_string [] a else Inr []) (\<lambda>d.
     Inr \<lparr>as_name = nm, as_typeName = ty, as_required = req, as_defaultValue = d\<rparr>))))"

definition load_arguments :: "bool \<Rightarrow> 'f json \<Rightarrow> exn + ArgumentSpec list" where
  "load_arguments with_default f =
     ebind (json_value ''arguments'' Inr (JArr []) f) (\<lambda>args.
     emap (load_argument with_default) (json_elements args))"

definition load_object_field :: "'f json \<Rightarrow> exn + FieldSpec" where
  "load_object_field f =
     ebind (ebind (json_at ''name'' f) get_string) (\<lambda>nm.
     ebind (ebind (json_at ''responseKey'' f) get_string) (\<lambda>rk.
     ebind (ebind (json_at ''returnType'' f) get_string) (\<lambda>rt.
     ebind (json_value ''isList'' get_bool False f) (\<lambda>li.
     ebind (json_value ''scalar'' get_bool False f) (\<lambda>sc.
     ebind (json_value ''collectionLink'' get_bool False f) (\<lambda>cl.
     ebind (load_arguments False f) (\<lambda>args.
     Inr \<lparr>fsp_name = nm, fsp_responseKey = rk, fsp_returnType = rt, fsp_isList = li, fsp_scalar = sc,
          fsp_arguments = args, fsp_redfishPath = [], fsp_expandMembers = False,
          fsp_collectionLink = cl\<rparr>)))))))"

definition load_object :: "'f json \<Rightarrow> exn + ObjectSpec" where
  "load_object obj =
     ebind (ebind (json_at ''name'' obj) get_string) (\<lambda>nm.
     ebind (json_at ''fields'' obj) (\<lambda>fields.
     ebind (emap load_object_field (json_elements fields)) (\<lambda>fs.
     Inr \<lparr>os_name = nm, os_fields = fold (\<lambda>f. omap_put (fsp_name f) f) fs []\<rparr>)))"

definition load_root_field :: "'f json \<Rightarrow> exn + FieldSpec" where
  "load_root_field f =
     ebind (ebind (json_at ''name'' f) get_string) (\<lambda>nm.
     ebind (json_value ''responseKey'' get_string [] f) (\<lambda>rk.
     ebind (ebind (json_at ''returnType'' f) get_string) (\<lambda>rt.
     ebind (json_value ''isList'' get_bool False f) (\<lambda>li.
     ebind (json_value ''scalar'' get_bool False f) (\<lambda>sc.
     ebind (json_value ''redfishPath'' get_string [] f) (\<lambda>rp.
     ebind (json_value ''expandMembers'' get_bool False f) (\<lambda>em.
     ebind (load_arguments True f) (\<lambda>args.
     Inr \<lparr>fsp_name = nm, fsp_responseKey = rk, fsp_returnType = rt, fsp_isList = li, fsp_scalar = sc,
          fsp_arguments = args, fsp_redfishPath = rp, fsp_expandMembers = em,
          fsp_collectionLink = False\<rparr>))))))))"

definition loadFields :: "'f json \<Rightarrow> exn + FieldSpec list" where
  "loadFields arr = emap load_root_field (json_elements arr)"

definition load_watcher :: "'f json \<Rightarrow> exn + DbusWatcher" where
  "load_watcher e =
     ebind (json_value ''dbusObject'' get_string [] e) (\<lambda>ob.
     ebind (ebind (json_at ''dbusInterface'' e) get_string) (\<lambda>ifc.
     ebind (json_value ''dbusProperty'' get_string [] e) (\<lambda>pr.
     ebind (ebind (json_at ''graphqlFields'' e) get_strings) (\<lambda>fs.
     Inr \<lparr>dw_object = ob, dw_interface = ifc, dw_property = pr, dw_graphqlFields = fs\<rparr>))))"

definition load_schema :: "'f json \<Rightarrow> exn + TypedSchema" where
  "load_schema doc =
     ebind (json_at ''objects'' doc) (\<lambda>objs.
     ebind (emap load_object (json_elements objs)) (\<lambda>obs.
     ebind (ebind (json_value ''queries'' Inr (JArr []) doc) loadFields) (\<lambda>qs.
     ebind (ebind (json_value ''subscriptions'' Inr (JArr []) doc) loadFields) (\<lambda>subs.
     ebind (json_value ''dbusWatchers'' Inr (JArr []) doc) (\<lambda>ws.
     ebind (emap load_watcher (json_elements ws)) (\<lambda>watchers.
     Inr (fold addDbusWatcher watchers
           (fold addRootSubscription subs
             (fold addRootQuery qs (fold addObject obs empty_schema))))))))))"

text \<open>
  The exceptions become error values; \<open>what\<close> is the text the JSON library gives an exception.
\<close>

definition fromJson :: "(exn \<Rightarrow> string) \<Rightarrow> 'f json \<Rightarrow> string + TypedSchema" where
  "fromJson what doc =
     (case load_schema doc of
        Inl e \<Rightarrow> Inl (''Schema JSON parse error: '' @ what e)
      | Inr sch \<Rightarrow> Inr sch)"

text \<open>\<open>fromFile\<close>: \<open>contents\<close> is the file, if it can be opened, and \<open>parse\<close> the library's JSON parser.\<close>

definition fromFile ::
  "(exn \<Rightarrow> string) \<Rightarrow> (string \<Rightarrow> 'f json option) \<Rightarrow> (string \<Rightarrow> string option) \<Rightarrow> string \<Rightarrow> string + TypedSchema"
where
  "fromFile what parse contents path =
     (case contents path of
        None \<Rightarrow> Inl (''Cannot open schema file: '' @ path)
      | Some txt \<Rightarrow>
          (case parse txt of
             None \<Rightarrow> Inl (''Invalid JSON in schema file: '' @ path)
           | Some doc \<Rightarrow> fromJson what doc))"

text \<open>\<open>buildRedfishTypedSchema\<close>: the fallback definitions are compiled out, so it is empty.\<close>

definition buildRedfishTypedSchema ::
  "(exn \<Rightarrow> string) \<Rightarrow> (string \<Rightarrow> 'f json option) \<Rightarrow> (string \<Rightarrow> bool) \<Rightarrow> (string \<Rightarrow> string option) \<Rightarrow> string
     \<Rightarrow> string + TypedSchema"
where
  "buildRedfishTypedSchema what parse exists contents path =
     (if exists path then fromFile what parse contents path else Inr empty_schema)"

section \<open>Validation\<close>

text \<open>A validation gives an error message, or \<open>None\<close>.\<close>

definition known_argument :: "FieldSpec \<Rightarrow> 'f Argument \<Rightarrow> bool" where
  "known_argument fsp a \<longleftrightarrow> list_ex (\<lambda>sp. as_name sp = arg_name a) (fsp_arguments fsp)"

definition quoted :: "string \<Rightarrow> string" where
  "quoted s = CHR 0x27 # s @ [CHR 0x27]"

definition validateArguments :: "'f FieldSelection \<Rightarrow> FieldSpec \<Rightarrow> string option" where
  "validateArguments field fsp =
     (case find (\<lambda>a. \<not> known_argument fsp a) (fs_arguments field) of
        Some a \<Rightarrow> Some (''Unknown argument '' @ quoted (arg_name a) @ '' on field '' @ quoted (fs_name field))
      | None \<Rightarrow>
          (case find (\<lambda>sp. as_required sp \<and> as_name sp \<notin> set (map arg_name (fs_arguments field)))
                  (fsp_arguments fsp) of
             Some sp \<Rightarrow> Some (''Missing required argument '' @ quoted (as_name sp) @ '' on field ''
                          @ quoted (fs_name field))
           | None \<Rightarrow> None))"

definition scalar_error :: "'f FieldSelection \<Rightarrow> string" where
  "scalar_error sel = ''Scalar field cannot have sub-selections: '' @ fs_name sel"

definition unknown_type :: "string \<Rightarrow> string" where
  "unknown_type tn = ''Unknown object type: '' @ tn"

definition unknown_field :: "'f FieldSelection \<Rightarrow> string \<Rightarrow> string" where
  "unknown_field sel tn = ''Unknown field '' @ quoted (fs_name sel) @ '' on type '' @ quoted tn"

function validateSelections :: "TypedSchema \<Rightarrow> 'f FieldSelection list \<Rightarrow> string \<Rightarrow> string option"
  and validate_fields :: "TypedSchema \<Rightarrow> ObjectSpec \<Rightarrow> string \<Rightarrow> 'f FieldSelection list \<Rightarrow> string option"
where
  "validateSelections sch sels tn =
     (case getObject sch tn of
        None \<Rightarrow> Some (unknown_type tn)
      | Some ob \<Rightarrow> validate_fields sch ob tn sels)"
| "validate_fields sch ob tn [] = None"
| "validate_fields sch ob tn (sel # sels) =
     (case map_of (os_fields ob) (fs_name sel) of
        None \<Rightarrow> Some (unknown_field sel tn)
      | Some fsp \<Rightarrow>
          (case validateArguments sel fsp of
             Some e \<Rightarrow> Some e
           | None \<Rightarrow>
               if fsp_scalar fsp then
                 if fs_selections sel \<noteq> [] then Some (scalar_error sel) else validate_fields sch ob tn sels
               else
                 (case validateSelections sch (fs_selections sel) (fsp_returnType fsp) of
                    Some e \<Rightarrow> Some e
                  | None \<Rightarrow> validate_fields sch ob tn sels)))"
  by pat_completeness auto
termination
  by (relation "measures [
      \<lambda>x. case x of Inl (sch, sels, tn) \<Rightarrow> size_list size sels | Inr (sch, ob, tn, sels) \<Rightarrow> size_list size sels,
      \<lambda>x. case x of Inl (sch, sels, tn) \<Rightarrow> 1 | Inr (sch, ob, tn, sels) \<Rightarrow> 0]")
    (auto simp: less_SucI less_Suc_eq_le size_selections less_imp_le trans_less_add1)

declare validateSelections.simps [simp del]

text \<open>The loop of \<open>validateOperation\<close>, with the look-up of the operation's type.\<close>

fun validate_roots ::
  "TypedSchema \<Rightarrow> (string \<Rightarrow> FieldSpec option) \<Rightarrow> 'f FieldSelection list \<Rightarrow> string option"
where
  "validate_roots sch root [] = None"
| "validate_roots sch root (sel # sels) =
     (case root (fs_name sel) of
        None \<Rightarrow> Some (''Unknown field: '' @ fs_name sel)
      | Some fsp \<Rightarrow>
          (case validateArguments sel fsp of
             Some e \<Rightarrow> Some e
           | None \<Rightarrow>
               if \<not> fsp_scalar fsp then
                 (case validateSelections sch (fs_selections sel) (fsp_returnType fsp) of
                    Some e \<Rightarrow> Some e
                  | None \<Rightarrow> validate_roots sch root sels)
               else if fs_selections sel \<noteq> [] then Some (scalar_error sel)
               else validate_roots sch root sels))"

definition validateOperation :: "TypedSchema \<Rightarrow> 'f Operation \<Rightarrow> string option" where
  "validateOperation sch op =
     (if op_type op \<noteq> Query \<and> op_type op \<noteq> Subscription
      then Some ''Only query and subscription operations are supported''
      else
        validate_roots sch
          (if op_type op = Subscription then getRootSubscriptionField sch else getRootQueryField sch)
          (op_selections op))"

section \<open>Expansion\<close>

fun spread_free :: "'f FieldSelection \<Rightarrow> bool" where
  "spread_free (FieldSelection nm al sp args dirs sels) \<longleftrightarrow> sp = [] \<and> list_all spread_free sels"

lemma expand_spread_free:
  "expand_selections frags visited sels = Inr fs \<Longrightarrow> list_all spread_free fs"
proof (induction frags visited sels arbitrary: fs rule: expand_selections.induct)
  case (2 frags visited nm al sp args dirs sels rest)
  then show ?case by (auto simp: ebind_eq_Inr split: if_splits option.splits)
qed simp

lemma expand_identity:
  "list_all spread_free sels \<Longrightarrow> expand_selections frags visited sels = Inr sels"
proof (induction frags visited sels rule: expand_selections.induct)
  case (2 frags visited nm al sp args dirs sels rest)
  then show ?case by auto
qed simp

lemma nestings_append: "nestings (xs @ ys) = max (nestings xs) (nestings ys)"
  by (induction xs) (auto simp: nestings_def)

lemma nestings_Cons: "nestings (f # fs) = max (nesting f) (nestings fs)"
  by (simp add: nestings_def)

text \<open>
  A spread puts the fragment's fields where it stands, so every fragment on the way adds at most
  its own nesting.
\<close>

lemma nestings_expand:
  assumes "expand_selections frags visited sels = Inr fs"
    and "\<And>x. x \<in> set frags \<Longrightarrow> nestings (frag_selections (snd x)) \<le> N"
  shows "nestings fs \<le> nestings sels + card (fst ` set frags - set visited) * N"
  using assms
proof (induction frags visited sels arbitrary: fs rule: expand_selections.induct)
  case (1 frags visited)
  then show ?case by (simp add: nestings_def)
next
  case (2 frags visited nm al sp args dirs sels rest)
  let ?b = "card (fst ` set frags - set visited) * N"
  let ?f = "FieldSelection nm al sp args dirs sels"
  show ?case
  proof (cases "sp = []")
    case True
    then obtain ss rs where e: "expand_selections frags visited sels = Inr ss"
        "expand_selections frags visited rest = Inr rs" "fs = FieldSelection nm al sp args dirs ss # rs"
      using 2(5) by (auto simp: ebind_eq_Inr)
    have "nestings ss \<le> nestings sels + ?b" "nestings rs \<le> nestings rest + ?b"
      using 2(3) [OF _ e(1) 2(6)] 2(4) [OF _ e(2) 2(6)] True by auto
    moreover have "sels = [] \<Longrightarrow> ss = []" using e(1) by auto
    ultimately show ?thesis
      using e(3) by (auto simp: nestings_Cons nesting_Field max_def split: if_splits)
  next
    case False
    then obtain fr fs1 rs where v: "sp \<notin> set visited" "map_of frags sp = Some fr"
        and e: "expand_selections frags (sp # visited) (frag_selections fr) = Inr fs1"
        "expand_selections frags visited rest = Inr rs" "fs = fs1 @ rs"
      using 2(5) by (auto simp: ebind_eq_Inr split: if_splits option.splits)
    have fr: "(sp, fr) \<in> set frags" using v(2) by (rule map_of_SomeD)
    have "nestings fs1 \<le> nestings (frag_selections fr) + card (fst ` set frags - set (sp # visited)) * N"
      using 2(1) [OF False v e(1) 2(6)] by simp
    also have "\<dots> \<le> N + card (fst ` set frags - set (sp # visited)) * N"
      using 2(6) [OF fr] by simp
    also have "\<dots> = Suc (card (fst ` set frags - set (sp # visited))) * N" by simp
    also have "\<dots> \<le> ?b"
      using fresh_names_decrease [OF v] by (intro mult_le_mono1) simp
    finally have "nestings fs1 \<le> ?b" .
    moreover have "nestings rs \<le> nestings rest + ?b"
      using 2(2) [OF False v e(2) 2(6)] by simp
    ultimately show ?thesis using e(3) by (auto simp: nestings_append nestings_Cons)
  qed
qed

text \<open>
  Expanding the fragments of a parsed operation always ends, circular or not, and when it
  succeeds no spread is left at any depth and the operation nests at most 19 levels for itself and
  19 for each of its fragments.
\<close>

theorem expandFragments_ok:
  assumes "operation_ok op" and "expandFragments op = Inr op'"
  shows "list_all spread_free (op_selections op')
       \<and> nestings (op_selections op') \<le> (kMaxDepth - 1) * (1 + length (op_fragments op))
       \<and> op_type op' = op_type op \<and> op_variables op' = op_variables op"
proof -
  from assms(2) obtain sels where sels: "expand_selections (op_fragments op) [] (op_selections op) = Inr sels"
    and op': "op' = op\<lparr>op_selections := sels\<rparr>" by (auto simp: expandFragments_def ebind_eq_Inr)
  have frag: "nestings (frag_selections (snd x)) \<le> kMaxDepth - 1" if "x \<in> set (op_fragments op)" for x
    using assms(1) that by (auto simp: operation_ok_def list_all_iff frag_ok_def)
  have "card (fst ` set (op_fragments op) - set []) \<le> length (op_fragments op)"
    using card_image_le [of "set (op_fragments op)" fst] card_length [of "op_fragments op"] by simp
  then have "card (fst ` set (op_fragments op) - set []) * (kMaxDepth - 1) \<le> length (op_fragments op) * (kMaxDepth - 1)"
    by (rule mult_le_mono1)
  moreover have "nestings (op_selections op) \<le> kMaxDepth - 1" using assms(1) by (auto simp: operation_ok_def)
  ultimately have "nestings sels \<le> (kMaxDepth - 1) * (1 + length (op_fragments op))"
    using nestings_expand [OF sels frag] by (simp add: algebra_simps)
  then show ?thesis using expand_spread_free [OF sels] op' by simp
qed

definition frag_query :: "nat Operation" where
  "frag_query =
     \<lparr>op_type = Query, op_name = [], op_variables = [], op_directives = [],
      op_selections = [FieldSelection ''a'' [] [] [] [] [FieldSelection [] [] ''F'' [] [] []]],
      op_fragments = [(''F'', FragmentDefinition ''F'' ''T'' [] [FieldSelection ''b'' [] [] [] [] []])]\<rparr>"

theorem expandFragments_ok_witness:
  "expandFragments frag_query = Inr (frag_query\<lparr>op_selections :=
      [FieldSelection ''a'' [] [] [] [] [FieldSelection ''b'' [] [] [] [] []]]\<rparr>)
   \<and> list_all spread_free [FieldSelection ''a'' [] [] [] [] [FieldSelection ''b'' [] [] [] [] []] :: nat FieldSelection]"
proof -
  have ok: "operation_ok frag_query"
    by (simp add: frag_query_def operation_ok_def nestings_def nesting.simps kMaxDepth_def frag_ok_def omap_ok_def)
  have ex: "expandFragments frag_query = Inr (frag_query\<lparr>op_selections :=
      [FieldSelection ''a'' [] [] [] [] [FieldSelection ''b'' [] [] [] [] []]]\<rparr>)"
    by (simp add: expandFragments_def frag_query_def)
  show ?thesis using expandFragments_ok [OF ok ex] ex by simp
qed

section \<open>Schemas are filed by name\<close>

definition filed :: "('v \<Rightarrow> string) \<Rightarrow> (string \<times> 'v) list \<Rightarrow> bool" where
  "filed nm m \<longleftrightarrow> omap_ok m \<and> list_all (\<lambda>(k, v). k = nm v) m"

lemma filed_Nil [simp]: "filed nm []"
  by (simp add: filed_def omap_ok_def)

lemma filed_put: "filed nm m \<Longrightarrow> filed nm (omap_put (nm v) v m)"
  using set_omap_put [of "nm v" v m] by (auto simp: filed_def omap_ok_put list_all_iff)

lemma filed_fold: "filed nm m \<Longrightarrow> filed nm (fold (\<lambda>v. omap_put (nm v) v) vs m)"
  by (induction vs arbitrary: m) (auto simp: filed_put)

definition schema_ok :: "TypedSchema \<Rightarrow> bool" where
  "schema_ok sch \<longleftrightarrow>
     filed fsp_name (rootQueries sch) \<and> filed fsp_name (rootSubscriptions sch)
     \<and> filed os_name (schema_objects sch) \<and> list_all (\<lambda>(k, ob). filed fsp_name (os_fields ob)) (schema_objects sch)"

lemma schema_ok_empty: "schema_ok empty_schema"
  by (simp add: schema_ok_def empty_schema_def)

lemma schema_ok_addObject:
  "schema_ok sch \<Longrightarrow> filed fsp_name (os_fields ob) \<Longrightarrow> schema_ok (addObject ob sch)"
  using set_omap_put [of "os_name ob" ob "schema_objects sch"]
  by (auto simp: schema_ok_def addObject_def filed_put list_all_iff)

lemma schema_ok_addRootQuery: "schema_ok sch \<Longrightarrow> schema_ok (addRootQuery f sch)"
  by (simp add: schema_ok_def addRootQuery_def filed_put)

lemma schema_ok_addRootSubscription: "schema_ok sch \<Longrightarrow> schema_ok (addRootSubscription f sch)"
  by (simp add: schema_ok_def addRootSubscription_def filed_put)

lemma schema_ok_addDbusWatcher: "schema_ok sch \<Longrightarrow> schema_ok (addDbusWatcher w sch)"
  by (simp add: schema_ok_def addDbusWatcher_def)

lemma fold_keeps: "P sch \<Longrightarrow> (\<And>x s. x \<in> set xs \<Longrightarrow> P s \<Longrightarrow> P (f x s)) \<Longrightarrow> P (fold f xs sch)"
  by (induction xs arbitrary: sch) auto

lemma load_object_filed: "load_object j = Inr ob \<Longrightarrow> filed fsp_name (os_fields ob)"
  by (auto simp: load_object_def ebind_eq_Inr intro!: filed_fold)

lemma load_schema_ok:
  fixes doc :: "'f json"
  assumes "load_schema doc = Inr sch"
  shows "schema_ok sch"
proof -
  from assms obtain objs :: "'f json" and obs qs subs ws where obs: "emap load_object (json_elements objs) = Inr obs"
    and sch: "sch = fold addDbusWatcher ws (fold addRootSubscription subs (fold addRootQuery qs (fold addObject obs empty_schema)))"
    unfolding load_schema_def ebind_eq_Inr sum.inject by blast
  have "\<forall>ob\<in>set obs. filed fsp_name (os_fields ob)"
    by (rule emap_all [OF obs load_object_filed])
  then show ?thesis
    unfolding sch
    by (intro fold_keeps [where P = schema_ok] schema_ok_addDbusWatcher schema_ok_addRootSubscription
        schema_ok_addRootQuery schema_ok_addObject schema_ok_empty) auto
qed

text \<open>
  A schema loaded from JSON files every object, every field of an object and every root field
  once and under its own name, whatever the document holds.
\<close>

theorem fromJson_schema_ok: "fromJson what doc = Inr sch \<Longrightarrow> schema_ok sch"
  by (auto simp: fromJson_def load_schema_ok split: sum.splits)

end
