(* ===== verification/GraphqlExecutor.thy ===== *)
theory GraphqlExecutor
  imports GraphqlSchema "HOL-Library.Sublist"
begin

text \<open>
  Query execution: \<open>graphql/typed_executor.hpp\<close> with the Redfish provider and executor of
  \<open>graphql_redfish_provider.cpp\<close> and \<open>graphql_redfish_executor.cpp\<close>, and
  \<open>graphql/simple_executor.hpp\<close>. A coroutine returning \<open>Result<T>\<close> ends with a value, an error
  message or an exception: \<open>(string + 'a) task_outcome\<close>. The Redfish service is a parameter: what a
  request for a target is answered with during one execution, and the JSON library's parser. The
  provider's cache outlives an execution and is passed along.
\<close>

section \<open>The provider\<close>

text \<open>
  A coroutine that returns \<open>Result<T>\<close>. The Redfish client may throw itself: a login answered with a
  status that is not in its table, or created without a token, ends in an exception (theory Redfish).
\<close>

type_synonym 'a gresult = "(string + 'a) task_outcome"

record 'f service =
  service_execute :: "string \<Rightarrow> string gresult"
  service_parse :: "string \<Rightarrow> 'f json option"

type_synonym 'f cache = "(string \<times> 'f json) list"

definition getFresh :: "'f service \<Rightarrow> string \<Rightarrow> 'f json gresult" where
  "getFresh svc target =
     (case service_execute svc target of
        Throws e \<Rightarrow> Throws e
      | Returns (Inl m) \<Rightarrow> Returns (Inl (''Failed Redfish request for '' @ quoted target @ '': '' @ m))
      | Returns (Inr body) \<Rightarrow>
          (case service_parse svc body of
             None \<Rightarrow> Returns (Inl (''Invalid JSON response for '' @ quoted target))
           | Some parsed \<Rightarrow> Returns (Inr parsed)))"

definition get_cached :: "'f service \<Rightarrow> string \<Rightarrow> 'f cache \<Rightarrow> 'f json gresult \<times> 'f cache" where
  "get_cached svc target cache =
     (case map_of cache target of
        Some j \<Rightarrow> (Returns (Inr j), cache)
      | None \<Rightarrow>
          (case service_execute svc target of
             Throws e \<Rightarrow> (Throws e, cache)
           | Returns (Inl m) \<Rightarrow> (Returns (Inl (''Failed Redfish request for '' @ quoted target @ '': '' @ m)), cache)
           | Returns (Inr body) \<Rightarrow>
               (case service_parse svc body of
                  None \<Rightarrow> (Returns (Inl (''Invalid JSON response for '' @ quoted target)), cache)
                | Some parsed \<Rightarrow> (Returns (Inr parsed), omap_put target parsed cache))))"

section \<open>Results\<close>

definition gbind :: "'a gresult \<Rightarrow> ('a \<Rightarrow> 'b gresult) \<Rightarrow> 'b gresult" where
  "gbind r f =
     (case r of
        Throws e \<Rightarrow> Throws e
      | Returns (Inl m) \<Rightarrow> Returns (Inl m)
      | Returns (Inr a) \<Rightarrow> f a)"

definition may_throw :: "exn + 'a \<Rightarrow> 'a gresult" where
  "may_throw r = (case r of Inl e \<Rightarrow> Throws e | Inr a \<Rightarrow> Returns (Inr a))"

text \<open>A loop that stops at the first error, and one that skips what fails.\<close>

fun collect_all :: "'a gresult list \<Rightarrow> 'a list gresult" where
  "collect_all [] = Returns (Inr [])"
| "collect_all (r # rs) = gbind r (\<lambda>a. gbind (collect_all rs) (\<lambda>as. Returns (Inr (a # as))))"

fun collect_ok :: "'a gresult list \<Rightarrow> 'a list gresult" where
  "collect_ok [] = Returns (Inr [])"
| "collect_ok (Throws e # rs) = Throws e"
| "collect_ok (Returns (Inl m) # rs) = collect_ok rs"
| "collect_ok (Returns (Inr a) # rs) = gbind (collect_ok rs) (\<lambda>as. Returns (Inr (a # as)))"

section \<open>Projection\<close>

definition expand_suffix :: string where
  "expand_suffix = ''?$expand=*($levels=1)''"

fun json_array :: "'f json option \<Rightarrow> 'f json list option" where
  "json_array (Some (JArr xs)) = Some xs"
| "json_array _ = None"

function projectObject ::
    "TypedSchema \<Rightarrow> 'f service \<Rightarrow> 'f json \<Rightarrow> string \<Rightarrow> 'f FieldSelection list \<Rightarrow> 'f json gresult"
  and project_fields ::
    "TypedSchema \<Rightarrow> 'f service \<Rightarrow> 'f json \<Rightarrow> string \<Rightarrow> ObjectSpec \<Rightarrow> 'f FieldSelection list \<Rightarrow> 'f json \<Rightarrow> 'f json gresult"
  and projectField ::
    "TypedSchema \<Rightarrow> 'f service \<Rightarrow> 'f FieldSelection \<Rightarrow> FieldSpec \<Rightarrow> 'f json \<Rightarrow> 'f json gresult"
where
  "projectObject sch svc source tn sels =
     (case getObject sch tn of
        None \<Rightarrow> Returns (Inl (unknown_type tn))
      | Some ob \<Rightarrow>
          if sels = [] then Returns (Inr source)
          else project_fields sch svc source tn ob sels (JObj []))"
| "project_fields sch svc source tn ob [] result = Returns (Inr result)"
| "project_fields sch svc source tn ob (sel # sels) result =
     (case map_of (os_fields ob) (fs_name sel) of
        None \<Rightarrow> Returns (Inl (unknown_field sel tn))
      | Some fsp \<Rightarrow>
          gbind (projectField sch svc sel fsp source) (\<lambda>v.
          project_fields sch svc source tn ob sels (json_put (outputName sel) v result)))"
| "projectField sch svc sel fsp source =
     (case json_get source (fsp_responseKey fsp) of
        None \<Rightarrow> Returns (Inr JNull)
      | Some value \<Rightarrow>
          if fsp_scalar fsp then Returns (Inr value)
          else if fsp_isList fsp then
            if fsp_collectionLink fsp then
              (case json_get value ''@odata.id'' of
                 None \<Rightarrow> Returns (Inl (''Expected collection link object for field '' @ quoted (fs_name sel)))
               | Some link \<Rightarrow>
                   gbind (may_throw (get_string link)) (\<lambda>url.
                   gbind (getFresh svc (url @ expand_suffix)) (\<lambda>coll.
                   (case json_array (json_get coll ''Members'') of
                      None \<Rightarrow> Returns (Inl (''Expected Members array in collection link for '' @ quoted (fs_name sel)))
                    | Some members \<Rightarrow>
                        gbind (collect_ok (map (\<lambda>member. projectObject sch svc member (fsp_returnType fsp) (fs_selections sel))
                                 members)) (\<lambda>items. Returns (Inr (JArr items)))))))
            else
              (case json_array (Some value) of
                 None \<Rightarrow> Returns (Inl (''Expected array for field '' @ quoted (fs_name sel)))
               | Some items \<Rightarrow>
                   gbind (collect_all (map (\<lambda>item. projectObject sch svc item (fsp_returnType fsp) (fs_selections sel)) items))
                     (\<lambda>items. Returns (Inr (JArr items))))
          else projectObject sch svc value (fsp_returnType fsp) (fs_selections sel))"
  by pat_completeness auto

text \<open>The recursion goes into the sub-selections, whatever the objects are.\<close>

termination
  by (relation "measures [
      \<lambda>x. case x of Inl (sch, svc, source, tn, sels) \<Rightarrow> size_list size sels
          | Inr (Inl (sch, svc, source, tn, ob, sels, result)) \<Rightarrow> size_list size sels
          | Inr (Inr (sch, svc, sel, fsp, source)) \<Rightarrow> size sel,
      \<lambda>x. case x of Inl _ \<Rightarrow> 1 | _ \<Rightarrow> 0]")
    (auto simp: size_selections trans_less_add1)

declare projectObject.simps [simp del] projectField.simps [simp del]

section \<open>Paths\<close>

fun replace_all :: "string \<Rightarrow> string \<Rightarrow> string \<Rightarrow> string" where
  "replace_all ph v [] = []"
| "replace_all ph v (c # cs) =
     (if prefix ph (c # cs) then v @ replace_all ph v (drop (length ph - 1) cs)
      else c # replace_all ph v cs)"

definition path_arguments :: "'f json \<Rightarrow> FieldSpec \<Rightarrow> 'f json" where
  "path_arguments args fsp =
     (let defaults = fold (\<lambda>sp. json_put (as_name sp) (JStr (as_defaultValue sp)))
            (filter (\<lambda>sp. as_defaultValue sp \<noteq> []) (fsp_arguments fsp)) (JObj [])
      in json_puts (filter (\<lambda>(k, v). v \<noteq> JNull) (the (json_items args))) defaults)"

fun substitute :: "(string \<times> 'f json) list \<Rightarrow> string \<Rightarrow> exn + string" where
  "substitute [] result = Inr result"
| "substitute ((k, v) # kvs) result =
     ebind (get_string v) (\<lambda>value. substitute kvs (replace_all (''{'' @ k @ ''}'') value result))"

definition expandPath :: "string \<Rightarrow> 'f json \<Rightarrow> FieldSpec \<Rightarrow> exn + string" where
  "expandPath pathTemplate args fsp = substitute (the (json_items (path_arguments args fsp))) pathTemplate"

section \<open>Resolution\<close>

definition fetchAndProject ::
  "TypedSchema \<Rightarrow> 'f service \<Rightarrow> string \<Rightarrow> string \<Rightarrow> 'f FieldSelection list \<Rightarrow> 'f json option task_outcome"
where
  "fetchAndProject sch svc memberId returnType sels =
     (case getFresh svc memberId of
        Throws e \<Rightarrow> Throws e
      | Returns (Inl e) \<Rightarrow> Returns None
      | Returns (Inr item) \<Rightarrow>
          (case projectObject sch svc item returnType sels of
             Throws e \<Rightarrow> Throws e
           | Returns (Inl e) \<Rightarrow> Returns None
           | Returns (Inr j) \<Rightarrow> Returns (Some j)))"

definition kBatchSize :: nat where
  "kBatchSize = 3"

text \<open>
  The loop over the batches. What \<open>when_all\<close> gives for the tasks of a batch is \<open>when_all_spec\<close> of
  their outcomes, whatever order they complete in (shown in theory WhenAll); it is never
  \<open>Undefined\<close>.
\<close>

function fetch_batches :: "(string \<Rightarrow> 'a option task_outcome) \<Rightarrow> string list \<Rightarrow> 'a list \<Rightarrow> 'a list gresult" where
  "fetch_batches task [] result = Returns (Inr result)"
| "fetch_batches task (i # is) result =
     (case when_all_spec (map task (take kBatchSize (i # is))) of
        Returned outcomes \<Rightarrow> fetch_batches task (drop kBatchSize (i # is)) (result @ List.map_filter (\<lambda>x. x) outcomes)
      | Raised e \<Rightarrow> Throws e
      | Undefined \<Rightarrow> Throws (other_exn 0))"
  by pat_completeness auto
termination
  by (relation "measure (\<lambda>(task, is, result). length is)") (auto simp: kBatchSize_def)

fun member_ids :: "'f json list \<Rightarrow> exn + string list" where
  "member_ids [] = Inr []"
| "member_ids (m # ms) =
     (case json_get m ''@odata.id'' of
        None \<Rightarrow> member_ids ms
      | Some v \<Rightarrow> ebind (get_string v) (\<lambda>i. ebind (member_ids ms) (\<lambda>is. Inr (i # is))))"

text \<open>What \<open>resolveByPath\<close> makes of the payload.\<close>

definition resolve_payload ::
  "TypedSchema \<Rightarrow> 'f service \<Rightarrow> 'f FieldSelection \<Rightarrow> FieldSpec \<Rightarrow> 'f json \<Rightarrow> 'f json gresult"
where
  "resolve_payload sch svc sel fsp payload =
     (if fsp_isList fsp then
        (case json_array (json_get payload ''Members'') of
           None \<Rightarrow> Returns (Inl (''Expected collection Members array for '' @ quoted (fsp_name fsp)))
         | Some members \<Rightarrow>
             if fsp_expandMembers fsp then
               gbind (collect_ok (map (\<lambda>m. projectObject sch svc m (fsp_returnType fsp) (fs_selections sel)) members))
                 (\<lambda>items. Returns (Inr (JArr items)))
             else
               gbind (may_throw (member_ids members)) (\<lambda>ids.
               gbind (fetch_batches (\<lambda>i. fetchAndProject sch svc i (fsp_returnType fsp) (fs_selections sel)) ids [])
                 (\<lambda>items. Returns (Inr (JArr items)))))
      else if fsp_scalar fsp then Returns (Inr payload)
      else projectObject sch svc payload (fsp_returnType fsp) (fs_selections sel))"

definition path_target :: "'f FieldSelection \<Rightarrow> FieldSpec \<Rightarrow> 'f json \<Rightarrow> exn + string" where
  "path_target sel fsp vars =
     ebind (argumentsToJson (fs_arguments sel) vars) (\<lambda>args.
     ebind (expandPath (fsp_redfishPath fsp) args fsp) (\<lambda>target.
     Inr (if fsp_expandMembers fsp \<and> fsp_isList fsp then target @ expand_suffix else target)))"

definition resolveByPath ::
  "TypedSchema \<Rightarrow> 'f service \<Rightarrow> bool \<Rightarrow> 'f FieldSelection \<Rightarrow> FieldSpec \<Rightarrow> 'f json \<Rightarrow> 'f cache
     \<Rightarrow> 'f json gresult \<times> 'f cache"
where
  "resolveByPath sch svc fresh sel fsp vars cache =
     (if fsp_redfishPath fsp = []
      then (Returns (Inl (''No redfishPath defined for field: '' @ fsp_name fsp)), cache)
      else
        (case path_target sel fsp vars of
           Inl e \<Rightarrow> (Throws e, cache)
         | Inr target \<Rightarrow>
             let (r, cache') = (if fresh then (getFresh svc target, cache) else get_cached svc target cache)
             in (gbind r (resolve_payload sch svc sel fsp), cache')))"

definition resolveRootField ::
  "TypedSchema \<Rightarrow> 'f service \<Rightarrow> 'f FieldSelection \<Rightarrow> FieldSpec \<Rightarrow> 'f json \<Rightarrow> 'f cache \<Rightarrow> 'f json gresult \<times> 'f cache"
where
  "resolveRootField sch svc = resolveByPath sch svc False"

definition resolveSubscriptionField ::
  "TypedSchema \<Rightarrow> 'f service \<Rightarrow> 'f FieldSelection \<Rightarrow> FieldSpec \<Rightarrow> 'f json \<Rightarrow> 'f cache \<Rightarrow> 'f json gresult \<times> 'f cache"
where
  "resolveSubscriptionField sch svc = resolveByPath sch svc True"

section \<open>Execution\<close>

text \<open>The loop that \<open>executeSelections\<close> and \<open>executeSubscriptionSelections\<close> both are.\<close>

fun execute_roots ::
  "(string \<Rightarrow> FieldSpec option) \<Rightarrow> string
     \<Rightarrow> ('f FieldSelection \<Rightarrow> FieldSpec \<Rightarrow> 'f cache \<Rightarrow> 'f json gresult \<times> 'f cache)
     \<Rightarrow> 'f FieldSelection list \<Rightarrow> 'f json \<Rightarrow> 'f cache \<Rightarrow> 'f json gresult \<times> 'f cache"
where
  "execute_roots root unknown resolve [] result cache = (Returns (Inr result), cache)"
| "execute_roots root unknown resolve (sel # sels) result cache =
     (case root (fs_name sel) of
        None \<Rightarrow> (Returns (Inl (unknown @ fs_name sel)), cache)
      | Some fsp \<Rightarrow>
          (case resolve sel fsp cache of
             (Returns (Inr v), cache') \<Rightarrow>
               execute_roots root unknown resolve sels (json_put (outputName sel) v result) cache'
           | (r, cache') \<Rightarrow> (r, cache')))"

definition executeSelections ::
  "TypedSchema \<Rightarrow> 'f service \<Rightarrow> 'f FieldSelection list \<Rightarrow> 'f json \<Rightarrow> 'f cache \<Rightarrow> 'f json gresult \<times> 'f cache"
where
  "executeSelections sch svc sels vars cache =
     execute_roots (getRootQueryField sch) ''Unknown query field: ''
       (\<lambda>sel fsp. resolveRootField sch svc sel fsp vars) sels (JObj []) cache"

definition executeSubscriptionSelections ::
  "TypedSchema \<Rightarrow> 'f service \<Rightarrow> 'f FieldSelection list \<Rightarrow> 'f json \<Rightarrow> 'f cache \<Rightarrow> 'f json gresult \<times> 'f cache"
where
  "executeSubscriptionSelections sch svc sels vars cache =
     execute_roots (getRootSubscriptionField sch) ''Unknown subscription field: ''
       (\<lambda>sel fsp. resolveSubscriptionField sch svc sel fsp vars) sels (JObj []) cache"

definition error_response :: "string \<Rightarrow> 'f json" where
  "error_response m = JObj [(''errors'', JArr [JObj [(''message'', JStr m)]])]"

definition data_response :: "'f json \<Rightarrow> 'f json" where
  "data_response d = JObj [(''data'', d)]"

definition result_response :: "'f json gresult \<Rightarrow> 'f json task_outcome" where
  "result_response r =
     (case r of
        Throws e \<Rightarrow> Throws e
      | Returns (Inl m) \<Rightarrow> Returns (error_response m)
      | Returns (Inr d) \<Rightarrow> Returns (data_response d))"

text \<open>\<open>execute\<close> behind the parser: expansion, validation, variables, resolution.\<close>

definition execute_operation ::
  "TypedSchema \<Rightarrow> 'f service \<Rightarrow> 'f Operation \<Rightarrow> 'f json \<Rightarrow> 'f cache \<Rightarrow> 'f json task_outcome \<times> 'f cache"
where
  "execute_operation sch svc op vars cache =
     (case expandFragments op of
        Inl e \<Rightarrow> (Throws e, cache)
      | Inr op' \<Rightarrow>
          (case validateOperation sch op' of
             Some e \<Rightarrow> (Returns (error_response e), cache)
           | None \<Rightarrow>
               (case merge_variables op' vars of
                  Inl e \<Rightarrow> (Throws e, cache)
                | Inr merged \<Rightarrow>
                    let (r, cache') = executeSelections sch svc (op_selections op') merged cache
                    in (result_response r, cache'))))"

definition execute_query ::
  "(string \<Rightarrow> 'f option) \<Rightarrow> TypedSchema \<Rightarrow> 'f service \<Rightarrow> string \<Rightarrow> 'f json \<Rightarrow> 'f cache
     \<Rightarrow> ('f json task_outcome \<times> 'f cache) option"
where
  "execute_query stod sch svc query vars cache =
     (case tryParse stod query of
        None \<Rightarrow> None
      | Some (Inl m) \<Rightarrow> Some (Returns (error_response m), cache)
      | Some (Inr op) \<Rightarrow> Some (execute_operation sch svc op vars cache))"

section \<open>Validated selections are projected without type errors\<close>

text \<open>The schema's complaints all start with \<open>Unknown\<close>; a result is sound when it is not one of them.\<close>

definition sound :: "'a gresult \<Rightarrow> bool" where
  "sound r \<longleftrightarrow> (\<forall>e. r = Returns (Inl e) \<longrightarrow> \<not> prefix ''Unknown '' e)"

lemma sound_value [simp]: "sound (Returns (Inr a))"
  by (simp add: sound_def)

lemma sound_throws [simp]: "sound (Throws e)"
  by (simp add: sound_def)

lemma sound_error [simp]: "sound (Returns (Inl e)) \<longleftrightarrow> \<not> prefix ''Unknown '' e"
  by (simp add: sound_def)

lemma gbind_simps [simp]:
  "gbind (Throws e) f = Throws e" "gbind (Returns (Inl m)) f = Returns (Inl m)" "gbind (Returns (Inr a)) f = f a"
  by (simp_all add: gbind_def)

lemma gresult_cases:
  obtains (throws) e where "r = Throws e" | (error) m where "r = Returns (Inl m)" | (val) a where "r = Returns (Inr a)"
  by (cases r; metis sum.exhaust)

lemma sound_bind: "sound r \<Longrightarrow> (\<And>a. r = Returns (Inr a) \<Longrightarrow> sound (f a)) \<Longrightarrow> sound (gbind r f)"
  by (cases r rule: gresult_cases) auto

lemma gbind_value: "gbind r f = Returns (Inr b) \<longleftrightarrow> (\<exists>a. r = Returns (Inr a) \<and> f a = Returns (Inr b))"
  by (cases r rule: gresult_cases) auto

lemma sound_may_throw [simp]: "sound (may_throw r)"
  by (cases r) (simp_all add: may_throw_def)

lemma get_cached_getFresh:
  "get_cached svc target cache =
     (case map_of cache target of
        Some j \<Rightarrow> (Returns (Inr j), cache)
      | None \<Rightarrow> (getFresh svc target,
          case getFresh svc target of Returns (Inr parsed) \<Rightarrow> omap_put target parsed cache | _ \<Rightarrow> cache))"
  by (simp add: get_cached_def getFresh_def split: option.split task_outcome.split sum.split)

lemma sound_getFresh: "sound (getFresh svc target)"
  by (auto simp: getFresh_def sound_def split: sum.splits option.splits task_outcome.splits)

lemma sound_collect_ok: "sound (collect_ok rs)"
  by (induction rs rule: collect_ok.induct) (auto intro: sound_bind)

lemma sound_collect_all: "\<forall>r\<in>set rs. sound r \<Longrightarrow> sound (collect_all rs)"
  by (induction rs) (auto intro!: sound_bind)

lemma sound_projectField:
  assumes "fsp_scalar fsp \<or> (\<forall>item. sound (projectObject sch svc item (fsp_returnType fsp) (fs_selections sel)))"
  shows "sound (projectField sch svc sel fsp source)"
  using assms
  by (auto simp: projectField.simps intro!: sound_bind sound_getFresh sound_collect_ok sound_collect_all
      split: option.split)

lemma sound_project_fields:
  assumes "\<And>sel. sel \<in> set sels \<Longrightarrow>
      \<exists>fsp. map_of (os_fields ob) (fs_name sel) = Some fsp \<and> sound (projectField sch svc sel fsp source)"
  shows "sound (project_fields sch svc source tn ob sels result)"
  using assms
proof (induction sels arbitrary: result)
  case (Cons sel sels)
  from Cons.prems [of sel] obtain fsp where
    "map_of (os_fields ob) (fs_name sel) = Some fsp" "sound (projectField sch svc sel fsp source)" by auto
  then show ?case using Cons by (auto intro: sound_bind)
qed simp

lemma validate_fields_None:
  "validate_fields sch ob tn sels = None \<Longrightarrow> sel \<in> set sels \<Longrightarrow>
     \<exists>fsp. map_of (os_fields ob) (fs_name sel) = Some fsp
       \<and> (fsp_scalar fsp \<or> validateSelections sch (fs_selections sel) (fsp_returnType fsp) = None)"
  by (induction sels) (auto split: option.splits if_splits)

lemma size_selection_member: "sel \<in> set sels \<Longrightarrow> size sel \<le> size_list size sels"
  by (induction sels) auto

lemma project_sound:
  "validateSelections sch sels tn = None \<Longrightarrow> sound (projectObject sch svc source tn sels)"
proof (induction "size_list size sels" arbitrary: sels tn source rule: less_induct)
  case less
  then obtain ob where ob: "getObject sch tn = Some ob" and fields: "validate_fields sch ob tn sels = None"
    by (auto simp: validateSelections.simps split: option.splits)
  have "sound (projectField sch svc sel fsp source)"
    if sel: "sel \<in> set sels" and fsp: "map_of (os_fields ob) (fs_name sel) = Some fsp" for sel fsp
  proof (rule sound_projectField)
    have "size_list size (fs_selections sel) < size_list size sels"
      using size_selections [of sel] size_selection_member [OF sel] by simp
    with less(1) show "fsp_scalar fsp \<or>
        (\<forall>item. sound (projectObject sch svc item (fsp_returnType fsp) (fs_selections sel)))"
      using validate_fields_None [OF fields sel] fsp by auto
  qed
  then have "sound (project_fields sch svc source tn ob sels (JObj []))"
    using validate_fields_None [OF fields] by (intro sound_project_fields) blast
  then show ?case by (simp add: projectObject.simps ob)
qed

lemma sound_fetch_batches: "sound (fetch_batches task ids result)"
  by (induction task ids result rule: fetch_batches.induct) (auto split: call_result.split)

lemma sound_resolve_payload:
  assumes "fsp_scalar fsp \<or> validateSelections sch (fs_selections sel) (fsp_returnType fsp) = None"
  shows "sound (resolve_payload sch svc sel fsp payload)"
  using assms
  by (auto simp: resolve_payload_def project_sound intro!: sound_bind sound_collect_ok sound_fetch_batches
      split: option.split)

lemma sound_resolveByPath:
  assumes "fsp_scalar fsp \<or> validateSelections sch (fs_selections sel) (fsp_returnType fsp) = None"
  shows "sound (fst (resolveByPath sch svc fresh sel fsp vars cache))"
proof -
  have "sound r" if "get_cached svc t cache = (r, c)" for t r c
    using that sound_getFresh [of svc t]
    by (cases "map_of cache t") (auto simp: get_cached_getFresh)
  then show ?thesis
    using sound_resolve_payload [OF assms] sound_getFresh
    by (auto simp: resolveByPath_def intro!: sound_bind split: sum.split prod.split)
qed

lemma validate_roots_None:
  "validate_roots sch root sels = None \<Longrightarrow> sel \<in> set sels \<Longrightarrow>
     \<exists>fsp. root (fs_name sel) = Some fsp
       \<and> (fsp_scalar fsp \<or> validateSelections sch (fs_selections sel) (fsp_returnType fsp) = None)"
  by (induction sels) (auto split: option.splits if_splits)

lemma sound_execute_roots:
  assumes "\<And>sel. sel \<in> set sels \<Longrightarrow> root (fs_name sel) \<noteq> None"
    and "\<And>sel fsp cache. sel \<in> set sels \<Longrightarrow> root (fs_name sel) = Some fsp \<Longrightarrow> sound (fst (resolve sel fsp cache))"
  shows "sound (fst (execute_roots root unknown resolve sels result cache))"
  using assms
proof (induction sels arbitrary: result cache)
  case (Cons sel sels)
  obtain fsp where fsp: "root (fs_name sel) = Some fsp" using Cons.prems(1) by force
  obtain r c where r: "resolve sel fsp cache = (r, c)" by (cases "resolve sel fsp cache")
  then have "sound r" using Cons.prems(2) [of sel fsp cache] fsp by simp
  with Cons fsp r show ?case by (cases r rule: gresult_cases) auto
qed simp

text \<open>
  The levels of a selection: the object type and the sub-selections that projection can get to from
  a type and its selections, through every object field, inline list, linked collection and member.
  An unknown field of a list member makes no difference to the result of the list, which leaves the
  member out; at its own level it does.
\<close>

inductive level :: "TypedSchema \<Rightarrow> string \<Rightarrow> 'f FieldSelection list \<Rightarrow> string \<Rightarrow> 'f FieldSelection list \<Rightarrow> bool" for sch where
  level_here: "level sch tn sels tn sels"
| level_down: "level sch tn sels tn1 sels1 \<Longrightarrow> getObject sch tn1 = Some ob \<Longrightarrow> sel \<in> set sels1 \<Longrightarrow>
     map_of (os_fields ob) (fs_name sel) = Some fsp \<Longrightarrow> \<not> fsp_scalar fsp \<Longrightarrow>
     level sch tn sels (fsp_returnType fsp) (fs_selections sel)"

lemma validate_levels:
  "level sch tn sels tn' sels' \<Longrightarrow> validateSelections sch sels tn = None \<Longrightarrow> validateSelections sch sels' tn' = None"
proof (induction rule: level.induct)
  case (level_down tn sels tn1 sels1 ob sel fsp)
  then have "validate_fields sch ob tn1 sels1 = None" by (simp add: validateSelections.simps)
  from validate_fields_None [OF this level_down.hyps(3)] level_down.hyps(4,5) show ?case by simp
qed

definition operation_root :: "TypedSchema \<Rightarrow> 'f Operation \<Rightarrow> string \<Rightarrow> FieldSpec option" where
  "operation_root sch op = (if op_type op = Subscription then getRootSubscriptionField sch else getRootQueryField sch)"

text \<open>
  (C13) Validation is sound: for an operation that validateOperation accepts, the resolution of a query by
  \<open>executeSelections\<close> and of a subscription by \<open>executeSubscriptionSelections\<close> never
  complains of an unknown field or type, whatever the service answers; every root field is known; and at every
  level that projection gets to below it, through nested objects, inline lists, linked collections and
  members fetched in batches, projecting any payload gives no such complaint either, so none is
  hidden by a list that leaves out what failed. (\<open>execute\<close> runs every operation with
  \<open>executeSelections\<close>; for a subscription the last part still holds, but its root
  fields are then looked up among those of queries.)
\<close>

theorem validated_operation_sound:
  assumes "validateOperation sch op = None"
  shows "(op_type op = Query \<longrightarrow> sound (fst (executeSelections sch svc (op_selections op) vars cache)))
       \<and> (op_type op = Subscription \<longrightarrow>
            sound (fst (executeSubscriptionSelections sch svc (op_selections op) vars cache)))
       \<and> (\<forall>sel\<in>set (op_selections op). \<exists>fsp. operation_root sch op (fs_name sel) = Some fsp
            \<and> (\<not> fsp_scalar fsp \<longrightarrow> (\<forall>tn sels. level sch (fsp_returnType fsp) (fs_selections sel) tn sels \<longrightarrow>
                 (\<forall>source. sound (projectObject sch svc source tn sels)))))"
proof -
  have "validate_roots sch (operation_root sch op) (op_selections op) = None"
    using assms by (simp add: validateOperation_def operation_root_def split: if_splits)
  note roots = validate_roots_None [OF this]
  have "sound (fst (execute_roots (operation_root sch op) unk (\<lambda>sel fsp. resolveByPath sch svc fresh sel fsp vars)
      (op_selections op) (JObj []) cache))" for unk fresh
    by (rule sound_execute_roots) (use roots sound_resolveByPath in fastforce)+
  from this [where fresh = False] this [where fresh = True]
  have "op_type op = Query \<longrightarrow> sound (fst (executeSelections sch svc (op_selections op) vars cache))"
    "op_type op = Subscription \<longrightarrow> sound (fst (executeSubscriptionSelections sch svc (op_selections op) vars cache))"
    by (auto simp: executeSelections_def executeSubscriptionSelections_def resolveRootField_def
        resolveSubscriptionField_def operation_root_def)
  moreover have "\<exists>fsp. operation_root sch op (fs_name sel) = Some fsp
      \<and> (\<not> fsp_scalar fsp \<longrightarrow> (\<forall>tn sels. level sch (fsp_returnType fsp) (fs_selections sel) tn sels \<longrightarrow>
           (\<forall>source. sound (projectObject sch svc source tn sels))))" if "sel \<in> set (op_selections op)" for sel
    using roots [OF that] validate_levels project_sound by metis
  ultimately show ?thesis by blast
qed

section \<open>The shape of a projection\<close>

lemma project_fields_keeps:
  assumes "project_fields sch svc source tn ob sels result = Returns (Inr j)" and "is_object result"
  shows "is_object j \<and> (\<forall>k. k \<notin> outputName ` set sels \<longrightarrow> json_get j k = json_get result k)"
  using assms
proof (induction sels arbitrary: result)
  case (Cons sel sels)
  then show ?case
    by (fastforce simp: gbind_value json_get_put split: option.splits)
qed simp

lemma project_fields_values:
  assumes "project_fields sch svc source tn ob sels result = Returns (Inr j)" and "is_object result"
    and "distinct (map outputName sels)" and "sel \<in> set sels"
  shows "\<exists>fsp v. map_of (os_fields ob) (fs_name sel) = Some fsp
      \<and> projectField sch svc sel fsp source = Returns (Inr v) \<and> json_get j (outputName sel) = Some v"
  using assms
proof (induction sels arbitrary: result)
  case (Cons x sels)
  obtain fsp v where x: "map_of (os_fields ob) (fs_name x) = Some fsp"
      "projectField sch svc x fsp source = Returns (Inr v)"
      "project_fields sch svc source tn ob sels (json_put (outputName x) v result) = Returns (Inr j)"
    using Cons.prems(1) by (auto simp: gbind_value split: option.splits)
  show ?case
  proof (cases "sel = x")
    case True
    have "json_get j (outputName x) = Some v"
      using project_fields_keeps [OF x(3)] Cons.prems(2,3) by (simp add: json_get_put)
    then show ?thesis using x True by blast
  next
    case False
    then show ?thesis using Cons.IH [OF x(3)] Cons.prems by auto
  qed
qed simp

text \<open>
  A projected object holds exactly what was selected: with distinct output names, every
  selection appears under its alias or name with the value its own projection gives, and no other
  member of the source is disclosed.
\<close>

theorem projection_exact:
  assumes "projectObject sch svc source tn sels = Returns (Inr j)"
    and "sels \<noteq> []" and "distinct (map outputName sels)" and "getObject sch tn = Some ob"
  shows "(\<forall>sel\<in>set sels. \<exists>fsp v. map_of (os_fields ob) (fs_name sel) = Some fsp
            \<and> projectField sch svc sel fsp source = Returns (Inr v) \<and> json_get j (outputName sel) = Some v)
       \<and> (\<forall>k. k \<notin> outputName ` set sels \<longrightarrow> json_get j k = None)"
proof -
  have "project_fields sch svc source tn ob sels (JObj []) = Returns (Inr j)"
    using assms by (simp add: projectObject.simps)
  then show ?thesis
    using project_fields_values [of sch svc source tn ob sels "JObj []" j]
      project_fields_keeps [of sch svc source tn ob sels "JObj []" j] assms(3) by simp
qed

section \<open>Batches\<close>

text \<open>The reference: one task after the other, an exception ending it, failures skipped.\<close>

fun fetch_sequential :: "(string \<Rightarrow> 'a option task_outcome) \<Rightarrow> string list \<Rightarrow> 'a list gresult" where
  "fetch_sequential task [] = Returns (Inr [])"
| "fetch_sequential task (i # is) =
     (case task i of
        Throws e \<Rightarrow> Throws e
      | Returns None \<Rightarrow> fetch_sequential task is
      | Returns (Some a) \<Rightarrow> gbind (fetch_sequential task is) (\<lambda>as. Returns (Inr (a # as))))"

lemma fetch_sequential_append:
  "fetch_sequential task (xs @ ys) =
     gbind (fetch_sequential task xs) (\<lambda>as. gbind (fetch_sequential task ys) (\<lambda>bs. Returns (Inr (as @ bs))))"
proof (induction xs)
  case Nil
  show ?case by (cases "fetch_sequential task ys" rule: gresult_cases) auto
next
  case (Cons x xs)
  show ?case
    by (cases "fetch_sequential task xs" rule: gresult_cases;
        cases "fetch_sequential task ys" rule: gresult_cases)
      (auto simp: Cons split: task_outcome.split option.split)
qed

lemma fetch_sequential_batch:
  "fetch_sequential task is =
     (case when_all_spec (map task is) of
        Returned outcomes \<Rightarrow> Returns (Inr (List.map_filter (\<lambda>x. x) outcomes))
      | Raised e \<Rightarrow> Throws e
      | Undefined \<Rightarrow> Throws (other_exn 0))"
proof (induction "is")
  case Nil
  then show ?case by (simp add: when_all_spec_def List.map_filter_simps)
next
  case (Cons i "is")
  then show ?case
    by (cases "task i") (auto simp: when_all_spec_def List.map_filter_simps split: option.splits)
qed

lemma fetch_batches_sequential:
  "fetch_batches task ids result = gbind (fetch_sequential task ids) (\<lambda>as. Returns (Inr (result @ as)))"
proof (induction task ids result rule: fetch_batches.induct)
  case (2 task i "is" result)
  let ?batch = "take kBatchSize (i # is)" and ?rest = "drop kBatchSize (i # is)"
  have "fetch_sequential task (i # is) = fetch_sequential task (?batch @ ?rest)" by (simp only: append_take_drop_id)
  also have "\<dots> = gbind (fetch_sequential task ?batch)
      (\<lambda>as. gbind (fetch_sequential task ?rest) (\<lambda>bs. Returns (Inr (as @ bs))))"
    by (rule fetch_sequential_append)
  finally have seq: "fetch_sequential task (i # is) = \<dots>" .
  show ?case
  proof (cases "when_all_spec (map task ?batch)")
    case (Returned outcomes)
    then have "fetch_sequential task ?batch = Returns (Inr (List.map_filter (\<lambda>x. x) outcomes))"
      by (simp only: fetch_sequential_batch) simp
    with Returned 2 show ?thesis
      unfolding seq
      by (cases "fetch_sequential task ?rest" rule: gresult_cases)
        (simp_all add: fetch_sequential_batch del: fetch_sequential.simps drop_Suc_Cons)
  qed (unfold seq fetch_sequential_batch [of task ?batch] fetch_batches.simps, simp_all)
qed simp

lemma when_all_vector_complete:
  assumes "outs \<noteq> []" and "when_all_run sched (length outs) = Some g" and "follows outs sched"
    and "length sched = 2 * length outs"
  shows "when_all_vector sched (length outs) = Some (when_all_spec outs)"
  using all_released_iff [OF assms(1,2)] complete_results(1) [OF assms(2,3)] assms
  by (simp add: when_all_vector_def when_all_tuple_def)

text \<open>
  (C14) Fetching the members of a collection three at a time gives exactly what fetching them one
  after the other gives: the members that could be fetched and projected, in the order of the
  collection, or the exception of the first member that throws. And within a batch this holds for every
  complete interleaving of the concurrent requests.
\<close>

theorem batched_fetch_sequential:
  "fetch_batches task ids [] = fetch_sequential task ids
 \<and> (\<forall>batch sched g. batch \<noteq> [] \<longrightarrow> when_all_run sched (length batch) = Some g \<longrightarrow> follows (map task batch) sched
      \<longrightarrow> length sched = 2 * length batch \<longrightarrow>
      (case when_all_vector sched (length batch) of
         Some (Returned outcomes) \<Rightarrow> fetch_sequential task batch = Returns (Inr (List.map_filter (\<lambda>x. x) outcomes))
       | Some (Raised e) \<Rightarrow> fetch_sequential task batch = Throws e
       | _ \<Rightarrow> False))"
proof (intro conjI allI impI)
  show "fetch_batches task ids [] = fetch_sequential task ids"
    unfolding fetch_batches_sequential
    by (cases "fetch_sequential task ids" rule: gresult_cases) simp_all
next
  fix batch sched g
  assume "batch \<noteq> []" "when_all_run sched (length batch) = Some g" "follows (map task batch) sched"
    "length sched = 2 * length batch"
  then have "when_all_vector sched (length batch) = Some (when_all_spec (map task batch))"
    using when_all_vector_complete [of "map task batch" sched g] by simp
  moreover have "when_all_spec (map task batch) \<noteq> Undefined"
    by (simp add: when_all_spec_def split: option.split)
  ultimately show "case when_all_vector sched (length batch) of
         Some (Returned outcomes) \<Rightarrow> fetch_sequential task batch = Returns (Inr (List.map_filter (\<lambda>x. x) outcomes))
       | Some (Raised e) \<Rightarrow> fetch_sequential task batch = Throws e
       | _ \<Rightarrow> False"
    using fetch_sequential_batch [of task batch] by (auto split: call_result.splits)
qed

theorem batched_fetch_sequential_witness:
  "fetch_batches (\<lambda>i. Returns (Some (length i))) [''a'', ''bb'', ''ccc'', ''dddd''] [] = Returns (Inr [1, 2, 3, 4])
   \<and> fetch_sequential (\<lambda>i. Returns (Some (length i))) [''a''] = Returns (Inr [1])"
proof -
  let ?task = "\<lambda>i :: string. Returns (Some (length i))"
  let ?sched = "[Finish 0 (Returns (Some 1)), Handler 0] :: nat option group_action list"
  have "map_option running (when_all_run ?sched 1) = Some []" by code_simp
  then obtain g where g: "when_all_run ?sched (length [''a'']) = Some g" by auto
  have fol: "follows (map ?task [''a'']) ?sched" by (simp add: follows_def)
  have "when_all_vector ?sched 1 = Some (Returned [Some 1])" by code_simp
  then have "fetch_sequential ?task [''a''] = Returns (Inr [1])"
    using batched_fetch_sequential [of ?task "[]"] g fol
    by (fastforce simp: List.map_filter_simps)
  moreover have "fetch_batches ?task [''a'', ''bb'', ''ccc'', ''dddd''] [] = Returns (Inr [1, 2, 3, 4])"
    using batched_fetch_sequential [of ?task "[''a'', ''bb'', ''ccc'', ''dddd'']"] by simp
  ultimately show ?thesis by simp
qed

section \<open>The cache\<close>

lemma get_cached_extends:
  "get_cached svc target cache = (r, cache') \<Longrightarrow> map_of cache \<subseteq>\<^sub>m map_of cache'"
  by (auto simp: get_cached_getFresh map_le_def split: option.splits sum.splits task_outcome.splits)

lemma resolveByPath_extends:
  "resolveByPath sch svc fresh sel fsp vars cache = (r, cache') \<Longrightarrow> map_of cache \<subseteq>\<^sub>m map_of cache'"
  by (auto simp: resolveByPath_def Let_def split: if_splits sum.splits prod.splits dest: get_cached_extends)

lemma execute_roots_extends:
  assumes "\<And>sel fsp c r c'. resolve sel fsp c = (r, c') \<Longrightarrow> map_of c \<subseteq>\<^sub>m map_of c'"
  shows "execute_roots root unk resolve sels result cache = (r, cache') \<Longrightarrow> map_of cache \<subseteq>\<^sub>m map_of cache'"
proof (induction sels arbitrary: result cache)
  case (Cons sel sels)
  show ?case
  proof (cases "root (fs_name sel)")
    case (Some fsp)
    obtain r1 c1 where r1: "resolve sel fsp cache = (r1, c1)" by (cases "resolve sel fsp cache")
    from assms [OF r1] Cons Some r1 show ?thesis
      by (cases r1 rule: gresult_cases) (auto intro: map_le_trans)
  qed (use Cons.prems in auto)
qed simp

text \<open>
  The provider's cache only grows: an execution keeps every payload cached before it, and a
  payload that was once fetched for a query answers every later query for the same target, however
  the service has changed in between.
\<close>

theorem cache_never_refreshed:
  "(execute_query stod sch svc query vars cache = Some (r, cache') \<longrightarrow> map_of cache \<subseteq>\<^sub>m map_of cache')
 \<and> (get_cached svc target cache = (Returns (Inr j), cache') \<longrightarrow>
      get_cached svc' target cache' = (Returns (Inr j), cache'))"
proof (intro conjI impI)
  assume "execute_query stod sch svc query vars cache = Some (r, cache')"
  then show "map_of cache \<subseteq>\<^sub>m map_of cache'"
    by (auto simp: execute_query_def execute_operation_def executeSelections_def resolveRootField_def Let_def
        split: option.splits sum.splits prod.splits
        dest!: execute_roots_extends [rotated] intro: resolveByPath_extends)
next
  assume "get_cached svc target cache = (Returns (Inr j), cache')"
  then show "get_cached svc' target cache' = (Returns (Inr j), cache')"
    by (auto simp: get_cached_getFresh split: option.splits)
qed

section \<open>Exceptions\<close>

definition calm :: "'a task_outcome \<Rightarrow> bool" where
  "calm r \<longleftrightarrow> (\<forall>e. r \<noteq> Throws e)"

lemma calm_simps [simp]: "calm (Returns a)" "\<not> calm (Throws e)"
  by (simp_all add: calm_def)

lemma calm_bind: "calm r \<Longrightarrow> (\<And>a. r = Returns (Inr a) \<Longrightarrow> calm (f a)) \<Longrightarrow> calm (gbind r f)"
  by (cases r rule: gresult_cases) auto

lemma calm_collect_ok: "\<forall>r\<in>set rs. calm r \<Longrightarrow> calm (collect_ok rs)"
  by (induction rs rule: collect_ok.induct) (auto intro: calm_bind)

lemma calm_collect_all: "\<forall>r\<in>set rs. calm r \<Longrightarrow> calm (collect_all rs)"
  by (induction rs) (auto intro!: calm_bind)

text \<open>Every \<open>@odata.id\<close> in a payload is a string, at every depth.\<close>

fun is_string :: "'f json \<Rightarrow> bool" where
  "is_string (JStr s) \<longleftrightarrow> True"
| "is_string _ \<longleftrightarrow> False"

fun links_ok :: "'f json \<Rightarrow> bool" where
  "links_ok (JObj m) \<longleftrightarrow>
     (case map_of m ''@odata.id'' of Some v \<Rightarrow> is_string v | None \<Rightarrow> True) \<and> list_all (\<lambda>(k, v). links_ok v) m"
| "links_ok (JArr xs) \<longleftrightarrow> list_all links_ok xs"
| "links_ok _ \<longleftrightarrow> True"

lemma is_string_get: "is_string v \<Longrightarrow> \<exists>s. get_string v = Inr s"
  by (cases v) auto

lemma links_ok_get: "links_ok j \<Longrightarrow> json_get j k = Some v \<Longrightarrow> links_ok v"
  by (cases j) (auto simp: list_all_iff dest: map_of_SomeD)

lemma links_ok_link: "links_ok j \<Longrightarrow> json_get j ''@odata.id'' = Some v \<Longrightarrow> \<exists>s. get_string v = Inr s"
  by (cases j) (auto intro: is_string_get)

lemma links_ok_array: "json_array x = Some xs \<Longrightarrow> \<forall>j. x = Some j \<longrightarrow> links_ok j \<Longrightarrow> \<forall>y\<in>set xs. links_ok y"
  by (cases x rule: json_array.cases) (auto simp: list_all_iff)

text \<open>What is asked of the service: its client does not throw, and the links it sends are strings.\<close>

definition service_ok :: "'f service \<Rightarrow> bool" where
  "service_ok svc \<longleftrightarrow> (\<forall>target e. service_execute svc target \<noteq> Throws e)
     \<and> (\<forall>target body j. service_execute svc target = Returns (Inr body) \<longrightarrow> service_parse svc body = Some j \<longrightarrow> links_ok j)"

lemma service_okD:
  assumes "service_ok svc"
  shows "calm (getFresh svc target)" and "getFresh svc target = Returns (Inr j) \<Longrightarrow> links_ok j"
  using assms by (auto simp: service_ok_def getFresh_def calm_def split: task_outcome.splits sum.splits option.splits)

lemma calm_projectField:
  assumes "service_ok svc" and "links_ok source"
    and "\<And>item. links_ok item \<Longrightarrow> calm (projectObject sch svc item (fsp_returnType fsp) (fs_selections sel))"
  shows "calm (projectField sch svc sel fsp source)"
proof (cases "json_get source (fsp_responseKey fsp)")
  case None
  then show ?thesis by (simp add: projectField.simps)
next
  case (Some v)
  have v: "links_ok v" using links_ok_get [OF assms(2) Some] .
  have coll: "calm (case json_array (json_get coll ''Members'') of
      None \<Rightarrow> Returns (Inl m)
    | Some members \<Rightarrow> gbind (collect_ok (map (\<lambda>member. projectObject sch svc member (fsp_returnType fsp)
        (fs_selections sel)) members)) (\<lambda>items. Returns (Inr (JArr items))))" if "links_ok coll" for coll m
    using links_ok_get [OF that, of "''Members''"] assms(3) links_ok_array [of "json_get coll ''Members''"]
    by (auto intro!: calm_bind calm_collect_ok split: option.split)
  have link: "calm (case json_get v ''@odata.id'' of
      None \<Rightarrow> Returns (Inl m)
    | Some link \<Rightarrow> gbind (may_throw (get_string link)) (\<lambda>url. gbind (getFresh svc (url @ expand_suffix))
        (\<lambda>coll. (case json_array (json_get coll ''Members'') of
           None \<Rightarrow> Returns (Inl m')
         | Some members \<Rightarrow> gbind (collect_ok (map (\<lambda>member. projectObject sch svc member (fsp_returnType fsp)
             (fs_selections sel)) members)) (\<lambda>items. Returns (Inr (JArr items)))))))" for m m'
    using links_ok_link [OF v] coll assms(1)
    by (auto simp: may_throw_def service_okD intro!: calm_bind split: option.split)
  have list: "calm (case json_array (Some v) of
      None \<Rightarrow> Returns (Inl m)
    | Some items \<Rightarrow> gbind (collect_all (map (\<lambda>item. projectObject sch svc item (fsp_returnType fsp)
        (fs_selections sel)) items)) (\<lambda>items. Returns (Inr (JArr items))))" for m
    using links_ok_array [of "Some v"] v assms(3)
    by (auto intro!: calm_bind calm_collect_all split: option.split)
  show ?thesis
    using link list assms(3) [OF v] by (simp add: projectField.simps Some)
qed

lemma calm_project_fields:
  assumes "\<And>sel fsp. sel \<in> set sels \<Longrightarrow> calm (projectField sch svc sel fsp source)"
  shows "calm (project_fields sch svc source tn ob sels result)"
  using assms by (induction sels arbitrary: result) (auto intro!: calm_bind split: option.split)

lemma calm_projectObject:
  "service_ok svc \<Longrightarrow> links_ok source \<Longrightarrow> calm (projectObject sch svc source tn sels)"
proof (induction "size_list size sels" arbitrary: sels tn source rule: less_induct)
  case less
  have "calm (projectField sch svc sel fsp source)" if "sel \<in> set sels" for sel fsp
  proof (rule calm_projectField [OF less.prems])
    have "size_list size (fs_selections sel) < size_list size sels"
      using size_selections [of sel] size_selection_member [OF that] by simp
    then show "calm (projectObject sch svc item (fsp_returnType fsp) (fs_selections sel))" if "links_ok item" for item
      using less.hyps less.prems(1) that by blast
  qed
  then show ?case
    by (auto simp: projectObject.simps intro: calm_project_fields split: option.split)
qed

lemma calm_fetch_sequential: "\<forall>i\<in>set is. calm (task i) \<Longrightarrow> calm (fetch_sequential task is)"
  by (induction "is") (auto intro!: calm_bind split: task_outcome.split option.split)

lemma calm_fetchAndProject: "service_ok svc \<Longrightarrow> calm (fetchAndProject sch svc i tn sels)"
  using calm_projectObject [of svc _ sch tn sels]
  using service_okD [of svc i]
  by (auto simp: fetchAndProject_def calm_def split: sum.split task_outcome.split)

lemma member_ids_ok: "\<forall>m\<in>set ms. links_ok m \<Longrightarrow> \<exists>is. member_ids ms = Inr is"
proof (induction ms)
  case (Cons m ms)
  then show ?case using links_ok_link [of m] by (auto split: option.split)
qed simp

lemma calm_resolve_payload:
  assumes "service_ok svc" and "links_ok payload"
  shows "calm (resolve_payload sch svc sel fsp payload)"
proof -
  have members: "\<forall>y\<in>set xs. links_ok y" if "json_array (json_get payload ''Members'') = Some xs" for xs
    using links_ok_array [OF that] links_ok_get [OF assms(2)] by blast
  have batches: "calm (fetch_batches (\<lambda>i. fetchAndProject sch svc i tn sels) ids [])" for tn sels ids
    unfolding fetch_batches_sequential
    by (intro calm_bind calm_fetch_sequential) (simp_all add: calm_fetchAndProject assms(1))
  show ?thesis
    using members member_ids_ok calm_projectObject [OF assms(1)] assms(2) batches
    by (fastforce simp: resolve_payload_def may_throw_def intro!: calm_bind calm_collect_ok split: option.split)
qed

text \<open>Objects all of whose members satisfy a condition.\<close>

fun obj_all :: "('f json \<Rightarrow> bool) \<Rightarrow> 'f json \<Rightarrow> bool" where
  "obj_all P (JObj m) \<longleftrightarrow> list_all (\<lambda>(k, v). P v) m"
| "obj_all P _ \<longleftrightarrow> False"

lemma obj_all_put: "obj_all P j \<Longrightarrow> P v \<Longrightarrow> obj_all P (json_put k v j)"
  using set_omap_put [of k v] by (cases j) (fastforce simp: list_all_iff)+

definition path_argument_ok :: "'f json \<Rightarrow> 'f Argument \<Rightarrow> bool" where
  "path_argument_ok vars a \<longleftrightarrow>
     (case resolveVariables vars (val_json (arg_value a)) of Inl e \<Rightarrow> False | Inr v \<Rightarrow> v = JNull \<or> is_string v)"

lemma arguments_loop_ok:
  "\<forall>a\<in>set args. path_argument_ok vars a \<Longrightarrow> obj_all (\<lambda>v. v = JNull \<or> is_string v) result \<Longrightarrow>
     \<exists>j. arguments_loop vars args result = Inr j \<and> obj_all (\<lambda>v. v = JNull \<or> is_string v) j"
  by (induction args arbitrary: result)
    (auto simp: path_argument_ok_def obj_all_put split: sum.splits)

lemma substitute_ok: "\<forall>(k, v)\<in>set kvs. is_string v \<Longrightarrow> \<exists>s. substitute kvs result = Inr s"
proof (induction kvs arbitrary: result)
  case (Cons kv kvs)
  then show ?case using is_string_get [of "snd kv"] by (cases kv) auto
qed simp

lemma obj_all_puts: "\<forall>(k, v)\<in>set kvs. P v \<Longrightarrow> obj_all P j \<Longrightarrow> obj_all P (json_puts kvs j)"
  by (induction kvs arbitrary: j) (auto simp: obj_all_put)

lemma obj_all_defaults:
  "obj_all is_string j \<Longrightarrow> obj_all is_string (fold (\<lambda>sp. json_put (as_name sp) (JStr (as_defaultValue sp))) sps j)"
  by (induction sps arbitrary: j) (auto simp: obj_all_put)

lemma expandPath_ok:
  assumes "obj_all (\<lambda>v. v = JNull \<or> is_string v) args"
  shows "\<exists>s. expandPath t args fsp = Inr s"
proof -
  have "\<forall>(k, v)\<in>set (filter (\<lambda>(k, v). v \<noteq> JNull) (the (json_items args))). is_string v"
    using assms by (cases args) (auto simp: list_all_iff)
  then have "obj_all is_string (path_arguments args fsp)"
    unfolding path_arguments_def Let_def by (intro obj_all_puts obj_all_defaults) auto
  then show ?thesis
    by (cases "path_arguments args fsp") (auto simp: expandPath_def list_all_iff intro!: substitute_ok)
qed

lemma path_target_ok:
  assumes "\<forall>a\<in>set (fs_arguments sel). path_argument_ok vars a"
  shows "\<exists>t. path_target sel fsp vars = Inr t"
proof -
  obtain j where "argumentsToJson (fs_arguments sel) vars = Inr j" "obj_all (\<lambda>v. v = JNull \<or> is_string v) j"
    using arguments_loop_ok [OF assms, of "JObj []"] by (auto simp: argumentsToJson_def)
  moreover from this(2) obtain t where "expandPath (fsp_redfishPath fsp) j fsp = Inr t"
    using expandPath_ok by blast
  ultimately show ?thesis by (simp add: path_target_def)
qed

definition cache_ok :: "'f cache \<Rightarrow> bool" where
  "cache_ok cache \<longleftrightarrow> (\<forall>(t, j)\<in>set cache. links_ok j)"

lemma get_cached_ok:
  assumes "service_ok svc" and "cache_ok cache" and "get_cached svc t cache = (r, cache')"
  shows "cache_ok cache' \<and> calm r \<and> (\<forall>j. r = Returns (Inr j) \<longrightarrow> links_ok j)"
proof (cases "map_of cache t")
  case (Some j)
  then show ?thesis using assms by (auto simp: get_cached_def cache_ok_def dest: map_of_SomeD)
next
  case None
  then show ?thesis
    using assms(2,3) set_omap_put [of t _ cache] service_okD [OF assms(1), of t]
    by (cases "getFresh svc t" rule: gresult_cases) (fastforce simp: get_cached_getFresh cache_ok_def)+
qed

lemma resolveRootField_ok:
  assumes "service_ok svc" and "cache_ok cache" and "\<forall>a\<in>set (fs_arguments sel). path_argument_ok vars a"
    and "resolveRootField sch svc sel fsp vars cache = (r, cache')"
  shows "cache_ok cache' \<and> calm r"
proof -
  obtain t where t: "path_target sel fsp vars = Inr t" using path_target_ok [OF assms(3)] by blast
  obtain r1 c1 where r1: "get_cached svc t cache = (r1, c1)" by (cases "get_cached svc t cache")
  note ok = get_cached_ok [OF assms(1,2) r1]
  have "calm (gbind r1 (resolve_payload sch svc sel fsp))"
    using ok by (intro calm_bind) (auto intro: calm_resolve_payload [OF assms(1)])
  then show ?thesis
    using assms(2,4) t r1 ok by (auto simp: resolveRootField_def resolveByPath_def split: if_splits)
qed

lemma execute_roots_calm:
  assumes "\<And>sel fsp c r c'. sel \<in> set sels \<Longrightarrow> cache_ok c \<Longrightarrow> resolve sel fsp c = (r, c') \<Longrightarrow> cache_ok c' \<and> calm r"
    and "cache_ok cache"
  shows "calm (fst (execute_roots root unk resolve sels result cache))"
  using assms
proof (induction sels arbitrary: result cache)
  case (Cons sel sels)
  show ?case
  proof (cases "root (fs_name sel)")
    case (Some fsp)
    obtain r c where r: "resolve sel fsp cache = (r, c)" by (cases "resolve sel fsp cache")
    then have "cache_ok c \<and> calm r" using Cons.prems(1) [of sel cache fsp r c] Cons.prems(2) by simp
    moreover have "calm (fst (execute_roots root unk resolve sels res c))" if "cache_ok c" for res
    proof (rule Cons.IH [OF _ that])
      fix sel' fsp' c1 r1 c2
      assume "sel' \<in> set sels" "cache_ok c1" "resolve sel' fsp' c1 = (r1, c2)"
      then show "cache_ok c2 \<and> calm r1" using Cons.prems(1) [of sel' c1 fsp' r1 c2] by simp
    qed
    ultimately show ?thesis using Some r by (cases r rule: gresult_cases) auto
  qed simp
qed simp

text \<open>
  (C15) When an execution cannot throw: the fragments expand, the variables are an object (or null),
  every argument of a root field resolves to a string or null, the Redfish client does not throw for
  any request, and every @odata.id the service sends (or that is cached) is a string. Then \<open>execute\<close>
  answers with a response, whatever else the payloads hold, whatever requests fail with an
  error code and whatever the query selects.
\<close>

theorem execute_never_throws:
  assumes "expandFragments op = Inr op'" and "json_items vars = Some kvs"
    and "\<forall>sel\<in>set (op_selections op'). \<forall>a\<in>set (fs_arguments sel).
           path_argument_ok (json_puts kvs (initialVariables op')) a"
    and "service_ok svc" and "cache_ok cache"
  shows "\<exists>j. fst (execute_operation sch svc op vars cache) = Returns j"
proof -
  let ?merged = "json_puts kvs (initialVariables op')"
  have "calm (fst (executeSelections sch svc (op_selections op') ?merged cache))"
    unfolding executeSelections_def
    by (rule execute_roots_calm [OF _ assms(5)]) (use resolveRootField_ok [OF assms(4)] assms(3) in blast)
  then have "\<exists>j. result_response (fst (executeSelections sch svc (op_selections op') ?merged cache)) = Returns j"
    by (cases "fst (executeSelections sch svc (op_selections op') ?merged cache)" rule: gresult_cases)
      (auto simp: result_response_def)
  then show ?thesis
    using assms(1,2)
    by (auto simp: execute_operation_def merge_variables_def case_prod_beta split: option.split)
qed

section \<open>Concrete executions\<close>

text \<open>
  A schema with one root field behind a path with a placeholder, and a service that answers one
  target.
\<close>

definition demo_schema :: TypedSchema where
  "demo_schema =
     addRootQuery \<lparr>fsp_name = ''system'', fsp_responseKey = [], fsp_returnType = ''System'', fsp_isList = False,
         fsp_scalar = False,
         fsp_arguments = [\<lparr>as_name = ''id'', as_typeName = ''ID'', as_required = False, as_defaultValue = ''bmc''\<rparr>],
         fsp_redfishPath = ''/S/{id}'', fsp_expandMembers = False, fsp_collectionLink = False\<rparr>
       (addObject \<lparr>os_name = ''System'', os_fields = [(''power'',
           \<lparr>fsp_name = ''power'', fsp_responseKey = ''PowerState'', fsp_returnType = ''String'', fsp_isList = False,
            fsp_scalar = True, fsp_arguments = [], fsp_redfishPath = [], fsp_expandMembers = False,
            fsp_collectionLink = False\<rparr>)]\<rparr>
         empty_schema)"

definition demo_service :: "nat service" where
  "demo_service =
     \<lparr>service_execute = (\<lambda>target. if target = ''/S/bmc'' then Returns (Inr ''body'') else Returns (Inl ''404'')),
      service_parse = (\<lambda>body. Some (JObj [(''PowerState'', JStr ''On''), (''Secret'', JInt 7)]))\<rparr>"

definition demo_selections :: "nat FieldSelection list" where
  "demo_selections = [FieldSelection ''system'' ''s'' [] [] [] [FieldSelection ''power'' [] [] [] [] []]]"

definition demo_operation :: "nat Operation" where
  "demo_operation =
     \<lparr>op_type = Query, op_name = [], op_variables = [], op_directives = [],
      op_selections = demo_selections, op_fragments = []\<rparr>"

lemmas demo_defs =
  demo_schema_def demo_service_def demo_selections_def demo_operation_def addRootQuery_def addObject_def
  empty_schema_def validateOperation_def getRootQueryField_def getObject_def validateArguments_def known_argument_def
  validateSelections.simps

lemma demo_valid: "validateOperation demo_schema demo_operation = None"
  by (simp add: demo_defs)

theorem validated_operation_sound_witness:
  "validateOperation demo_schema demo_operation = None
   \<and> sound (fst (executeSelections demo_schema demo_service demo_selections (JObj []) []))
   \<and> sound (projectObject demo_schema demo_service (JObj []) ''System'' [FieldSelection ''power'' [] [] [] [] []])"
proof -
  note w = validated_operation_sound [OF demo_valid, of demo_service "JObj []" "[]"]
  have "sound (projectObject demo_schema demo_service source ''System'' [FieldSelection ''power'' [] [] [] [] []])" for source
    using w [THEN conjunct2, THEN conjunct2] level_here [of demo_schema "''System''"]
    by (auto simp: operation_root_def demo_defs)
  with w demo_valid show ?thesis by (simp add: demo_operation_def)
qed

lemma demo_projection:
  "projectObject demo_schema demo_service (JObj [(''PowerState'', JStr ''On''), (''Secret'', JInt 7)]) ''System''
     [FieldSelection ''power'' ''p'' [] [] [] []] = Returns (Inr (JObj [(''p'', JStr ''On'')]))"
  by (simp add: projectObject.simps projectField.simps demo_defs outputName_def)

theorem projection_exact_witness:
  "json_get (JObj [(''p'', JStr ''On'')] :: nat json) ''p'' = Some (JStr ''On'')
   \<and> json_get (JObj [(''p'', JStr ''On'')] :: nat json) ''Secret'' = None"
  using projection_exact [OF demo_projection, of "the (getObject demo_schema ''System'')"]
  by (simp add: demo_defs outputName_def)

lemma demo_execution:
  "fst (execute_operation demo_schema demo_service demo_operation (JObj []) [])
     = Returns (data_response (JObj [(''s'', JObj [(''power'', JStr ''On'')])]))"
proof -
  have "path_target (FieldSelection ''system'' ''s'' [] [] [] [FieldSelection ''power'' [] [] [] [] []])
      (the (getRootQueryField demo_schema ''system'')) (JObj [] :: nat json) = (Inr ''/S/bmc'' :: exn + string)"
    by (simp add: path_target_def argumentsToJson_def expandPath_def path_arguments_def demo_defs json_puts_def)
  then show ?thesis
    by (simp add: execute_operation_def expandFragments_def merge_variables_def initialVariables_def
        executeSelections_def resolveRootField_def resolveByPath_def get_cached_def getFresh_def resolve_payload_def
        projectObject.simps projectField.simps demo_defs outputName_def result_response_def data_response_def)
qed

lemma demo_service_ok: "service_ok demo_service"
  by (auto simp: service_ok_def demo_service_def)

theorem execute_never_throws_witness:
  "\<exists>j. fst (execute_operation demo_schema demo_service demo_operation (JObj []) []) = Returns j"
proof (rule execute_never_throws)
  show "expandFragments demo_operation = Inr demo_operation"
    by (simp add: expandFragments_def demo_operation_def demo_selections_def)
  show "json_items (JObj []) = Some ([] :: (string \<times> nat json) list)" by simp
  show "service_ok demo_service" by (rule demo_service_ok)
qed (simp_all add: demo_operation_def demo_selections_def cache_ok_def)

text \<open>
  Exceptions do escape \<open>execute\<close>: a query that spreads a fragment it does not define is answered
  by no response at all, with every schema, service and cache.
\<close>

theorem unknown_fragment_escapes:
  "execute_query stod sch svc ''{...F}'' vars cache
     = Some (Throws (runtime_error ''Unknown fragment: F''), cache)"
proof -
  have "tryParse stod ''{...F}'' = Some (Inr \<lparr>op_type = Query, op_name = [], op_variables = [], op_directives = [],
      op_selections = [FieldSelection [] [] ''F'' [] [] []], op_fragments = []\<rparr>)"
    by (simp add: parser_defs lexer_defs numeral_eq_Suc)
  then show ?thesis
    by (simp add: execute_query_def execute_operation_def expandFragments_def)
qed

text \<open>So does an exception of the Redfish client, from the first request on.\<close>

theorem client_exception_escapes:
  "fst (execute_operation demo_schema (svc\<lparr>service_execute := \<lambda>target. Throws e\<rparr>) demo_operation (JObj []) []) = Throws e"
proof -
  have "path_target (FieldSelection ''system'' ''s'' [] [] [] [FieldSelection ''power'' [] [] [] [] []])
      (the (getRootQueryField demo_schema ''system'')) (JObj [] :: nat json) = (Inr ''/S/bmc'' :: exn + string)"
    by (simp add: path_target_def argumentsToJson_def expandPath_def path_arguments_def demo_defs json_puts_def)
  then show ?thesis
    by (simp add: execute_operation_def expandFragments_def merge_variables_def initialVariables_def
        executeSelections_def resolveRootField_def resolveByPath_def get_cached_def demo_defs result_response_def)
qed

text \<open>Every execution ends.\<close>

lemma execute_query_some: "\<exists>r cache'. execute_query stod sch svc query vars cache = Some (r, cache')"
proof -
  have "tryParse stod query \<noteq> None"
    using run_parser_not_OutOfFuel [of stod query] by (auto simp: tryParse_def split: presult.splits)
  then show ?thesis
    by (cases "execute_operation sch svc (projr (the (tryParse stod query))) vars cache")
      (auto simp: execute_query_def split: option.splits sum.splits)
qed

end
