(* ===== verification/GraphqlSimple.thy ===== *)
theory GraphqlSimple
  imports GraphqlExecutor
begin

text \<open>
  \<open>graphql/simple_schema.hpp\<close> and \<open>graphql/simple_executor.hpp\<close>: resolvers registered by name, and an
  executor that filters what they return. A resolver maps the arguments and the context to the
  outcome of its coroutine. \<open>what\<close> gives the text of an exception that is not a \<open>runtime_error\<close>.
\<close>

section \<open>The schema\<close>

type_synonym 'f resolver = "'f json \<Rightarrow> 'f json \<Rightarrow> 'f json task_outcome"

record 'f SimpleType =
  st_name :: string
  st_fields :: "(string \<times> 'f resolver) list"

record 'f SimpleSchema =
  ss_types :: "(string \<times> 'f SimpleType) list"
  ss_queries :: "(string \<times> 'f resolver) list"
  ss_mutations :: "(string \<times> 'f resolver) list"

definition addType :: "string \<Rightarrow> 'f SimpleType \<Rightarrow> 'f SimpleSchema \<Rightarrow> 'f SimpleSchema" where
  "addType tn ty sch = sch\<lparr>ss_types := omap_put tn ty (ss_types sch)\<rparr>"

definition addQuery :: "string \<Rightarrow> 'f resolver \<Rightarrow> 'f SimpleSchema \<Rightarrow> 'f SimpleSchema" where
  "addQuery qn r sch = sch\<lparr>ss_queries := omap_put qn r (ss_queries sch)\<rparr>"

definition addMutation :: "string \<Rightarrow> 'f resolver \<Rightarrow> 'f SimpleSchema \<Rightarrow> 'f SimpleSchema" where
  "addMutation mn r sch = sch\<lparr>ss_mutations := omap_put mn r (ss_mutations sch)\<rparr>"

definition getQuery :: "'f SimpleSchema \<Rightarrow> string \<Rightarrow> 'f resolver option" where
  "getQuery sch name = map_of (ss_queries sch) name"

definition getMutation :: "'f SimpleSchema \<Rightarrow> string \<Rightarrow> 'f resolver option" where
  "getMutation sch name = map_of (ss_mutations sch) name"

definition getType :: "'f SimpleSchema \<Rightarrow> string \<Rightarrow> 'f SimpleType option" where
  "getType sch name = map_of (ss_types sch) name"

section \<open>The executor\<close>

definition tbind :: "'a task_outcome \<Rightarrow> ('a \<Rightarrow> 'b task_outcome) \<Rightarrow> 'b task_outcome" where
  "tbind r f = (case r of Throws e \<Rightarrow> Throws e | Returns a \<Rightarrow> f a)"

definition throwing :: "exn + 'a \<Rightarrow> 'a task_outcome" where
  "throwing r = (case r of Inl e \<Rightarrow> Throws e | Inr a \<Rightarrow> Returns a)"

text \<open>The variables, with the field's arguments over them.\<close>

definition field_arguments :: "'f FieldSelection \<Rightarrow> 'f json \<Rightarrow> exn + 'f json" where
  "field_arguments field vars =
     ebind (argumentsToJson (fs_arguments field) vars) (\<lambda>parsed. Inr (json_puts (the (json_items parsed)) vars))"

text \<open>The loop of \<open>executeQuery\<close> and of \<open>executeMutation\<close>; the result starts as a null value.\<close>

fun run_fields ::
  "(string \<Rightarrow> 'f resolver option) \<Rightarrow> string \<Rightarrow> 'f json \<Rightarrow> 'f FieldSelection list \<Rightarrow> 'f json \<Rightarrow> 'f json task_outcome"
where
  "run_fields lookup unknown vars [] result = Returns result"
| "run_fields lookup unknown vars (field # fs) result =
     (case lookup (fs_name field) of
        None \<Rightarrow> Throws (runtime_error (unknown @ fs_name field))
      | Some resolver \<Rightarrow>
          tbind (throwing (field_arguments field vars)) (\<lambda>args.
          tbind (resolver args (JObj [])) (\<lambda>r.
          run_fields lookup unknown vars fs
            (json_put (outputName field) (filterFields r (fs_selections field)) result))))"

definition executeQuery :: "'f SimpleSchema \<Rightarrow> 'f Operation \<Rightarrow> 'f json \<Rightarrow> 'f json task_outcome" where
  "executeQuery sch op vars = run_fields (getQuery sch) ''Unknown query field: '' vars (op_selections op) JNull"

definition executeMutation :: "'f SimpleSchema \<Rightarrow> 'f Operation \<Rightarrow> 'f json \<Rightarrow> 'f json task_outcome" where
  "executeMutation sch op vars =
     run_fields (getMutation sch) ''Unknown mutation field: '' vars (op_selections op) JNull"

fun exn_text :: "(exn \<Rightarrow> string) \<Rightarrow> exn \<Rightarrow> string" where
  "exn_text what (runtime_error m) = m"
| "exn_text what e = what e"

definition run_operation :: "'f SimpleSchema \<Rightarrow> 'f Operation \<Rightarrow> 'f json \<Rightarrow> 'f json task_outcome" where
  "run_operation sch op vars =
     tbind (throwing (expandFragments op)) (\<lambda>op'.
     tbind (throwing (merge_variables op' vars)) (\<lambda>merged.
     (case op_type op' of
        Query \<Rightarrow> executeQuery sch op' merged
      | Mutation \<Rightarrow> executeMutation sch op' merged
      | Subscription \<Rightarrow> Throws (runtime_error ''Subscriptions are not yet supported''))))"

text \<open>\<open>execute\<close>: \<open>validate\<close>, then the body inside the \<open>try\<close>. The text is parsed again behind \<open>validate\<close>.\<close>

definition simple_execute ::
  "(exn \<Rightarrow> string) \<Rightarrow> (string \<Rightarrow> 'f option) \<Rightarrow> 'f SimpleSchema \<Rightarrow> string \<Rightarrow> 'f json \<Rightarrow> 'f json option"
where
  "simple_execute what stod sch query vars =
     (case validate_query stod query of
        None \<Rightarrow> None
      | Some (False, errorMsg) \<Rightarrow> Some (error_response errorMsg)
      | Some (True, _) \<Rightarrow>
          (case tryParse stod query of
             None \<Rightarrow> None
           | Some (Inl m) \<Rightarrow> Some (error_response m)
           | Some (Inr op) \<Rightarrow>
               (case run_operation sch op vars of
                  Throws e \<Rightarrow> Some (error_response (exn_text what e))
                | Returns d \<Rightarrow> Some (data_response d))))"

text \<open>
  The simple executor answers every text with a response: either the data, or exactly one
  error with the parser's message or the text of the exception that the operation raised. No exception of the
  parser, of the fragments, of the variables or of a resolver escapes.
\<close>

theorem simple_execute_answers:
  "\<exists>j. simple_execute what stod sch query vars = Some j
     \<and> (\<forall>op. tryParse stod query = Some (Inr op) \<longrightarrow>
          j = (case run_operation sch op vars of
                 Throws e \<Rightarrow> error_response (exn_text what e)
               | Returns d \<Rightarrow> data_response d))
     \<and> (\<forall>m. tryParse stod query = Some (Inl m) \<longrightarrow> j = error_response m)"
proof -
  have "tryParse stod query \<noteq> None"
    using run_parser_not_OutOfFuel [of stod query] by (auto simp: tryParse_def split: presult.splits)
  then obtain r where "tryParse stod query = Some r" by blast
  then show ?thesis
    by (cases r) (auto simp: simple_execute_def validate_query_def split: task_outcome.split)
qed

theorem simple_execute_answers_witness:
  "simple_execute (\<lambda>e. []) (\<lambda>tx. None) \<lparr>ss_types = [], ss_queries = [], ss_mutations = []\<rparr> ''{a}'' (JObj [])
     = Some (error_response ''Unknown query field: a'' :: nat json)"
proof -
  let ?sch = "\<lparr>ss_types = [], ss_queries = [], ss_mutations = []\<rparr> :: nat SimpleSchema"
  have "run_operation ?sch sample_query (JObj []) = Throws (runtime_error ''Unknown query field: a'')"
    by (simp add: run_operation_def expandFragments_def throwing_def tbind_def merge_variables_def executeQuery_def
        getQuery_def)
  then show ?thesis
    using simple_execute_answers [of "\<lambda>e. []" "\<lambda>tx. None" ?sch "''{a}''" "JObj []"] parse_sample by auto
qed

section \<open>Filtering discloses only what was selected\<close>

declare filterFields.simps [simp del]

lemma filter_members_other:
  "k \<notin> outputName ` set sels \<Longrightarrow> is_object result \<Longrightarrow>
     json_get (filter_members data sels result) k = json_get result k"
  by (induction sels arbitrary: result) (simp_all add: json_get_put split: option.split)

lemma filter_members_value:
  assumes "distinct (map outputName sels)" and "is_object result" and "sel \<in> set sels"
    and "json_get data (fs_name sel) = Some v"
  shows "json_get (filter_members data sels result) (outputName sel)
       = Some (if fs_selections sel = [] then v else filterFields v (fs_selections sel))"
  using assms
proof (induction sels arbitrary: result)
  case (Cons x sels)
  show ?case
  proof (cases "sel = x")
    case True
    then show ?thesis using Cons.prems by (simp add: filter_members_other json_get_put)
  next
    case False
    then have "sel \<in> set sels" using Cons.prems by simp
    then show ?thesis using Cons.IH Cons.prems by (simp split: option.split)
  qed
qed simp

text \<open>
  Filtering an object keeps, for every selection, the selected member under its alias or name,
  itself filtered by the sub-selections, and nothing else; selections of missing members leave no trace.
\<close>

theorem filterFields_exact:
  assumes "sels \<noteq> []" and "distinct (map outputName sels)"
  shows "(\<forall>sel\<in>set sels. \<forall>v. map_of m (fs_name sel) = Some v \<longrightarrow>
            json_get (filterFields (JObj m) sels) (outputName sel)
              = Some (if fs_selections sel = [] then v else filterFields v (fs_selections sel)))
       \<and> (\<forall>k. json_get (filterFields (JObj m) sels) k \<noteq> None \<longrightarrow> k \<in> outputName ` set sels)"
proof -
  have "filterFields (JObj m) sels = filter_members (JObj m) sels (JObj [])"
    using assms(1) by (simp add: filterFields.simps)
  then show ?thesis
    using filter_members_value [OF assms(2), of "JObj []" _ "JObj m"]
      filter_members_other [of _ sels "JObj []" "JObj m"] by (simp; metis option.distinct(1))
qed

theorem filterFields_exact_witness:
  "json_get (filterFields (JObj [(''a'', JInt 1), (''b'', JInt 2)])
      [FieldSelection ''a'' ''x'' [] [] [] []] :: nat json) ''x'' = Some (JInt 1)"
  using filterFields_exact [of "[FieldSelection ''a'' ''x'' [] [] [] [] :: nat FieldSelection]"
      "[(''a'', JInt 1), (''b'', JInt 2)]"]
  by (simp add: outputName_def)

end
