(* ===== verification/GraphqlSubscriptions.thy ===== *)
theory GraphqlSubscriptions
  imports GraphqlExecutor
begin

text \<open>
  Subscriptions: the event trigger, the sessions and the polling loop of \<open>graphql/typed_executor.hpp\<close>,
  and the D-Bus watcher index of \<open>ql_dbus_property_watcher.hpp\<close>. The coroutines run on one thread and
  interleave at their \<open>co_await\<close>s, so a component is a step relation whose steps are the pieces between
  two suspensions.
\<close>

section \<open>The event trigger\<close>

text \<open>
  Where the subscription loop is with respect to \<open>wait()\<close>: outside of it (fetching and
  broadcasting), asleep on \<open>timer_\<close> in phase 1, woken from it but not yet resumed, in the collection
  window of phase 2, or stopped: because \<open>wait()\<close> returned false, because the session has no
  subscribers, or because the coroutine was ended by an exception.
\<close>

datatype wait_phase = Fetching | Asleep | Woken | Window | Stopped

record EventTrigger =
  et_pending :: bool
  et_cancelled :: bool
  et_phase :: wait_phase

definition EventTrigger_new :: EventTrigger where
  "EventTrigger_new = \<lparr>et_pending = False, et_cancelled = False, et_phase = Fetching\<rparr>"

text \<open>\<open>timer_.cancel()\<close> completes a pending phase-1 wait and does nothing otherwise.\<close>

definition timer_cancel :: "EventTrigger \<Rightarrow> EventTrigger" where
  "timer_cancel t = (if et_phase t = Asleep then t\<lparr>et_phase := Woken\<rparr> else t)"

definition fire :: "EventTrigger \<Rightarrow> EventTrigger" where
  "fire t = timer_cancel (t\<lparr>et_pending := True\<rparr>)"

definition cancel_trigger :: "EventTrigger \<Rightarrow> EventTrigger" where
  "cancel_trigger t = timer_cancel (t\<lparr>et_cancelled := True\<rparr>)"

definition enter_window :: "EventTrigger \<Rightarrow> EventTrigger" where
  "enter_window t = t\<lparr>et_pending := False, et_phase := Window\<rparr>"

text \<open>The three pieces of \<open>wait()\<close>: up to the first suspension, behind the sleep, behind the window.\<close>

definition wait_start :: "EventTrigger \<Rightarrow> EventTrigger" where
  "wait_start t = (if et_pending t then enter_window t else t\<lparr>et_phase := Asleep\<rparr>)"

definition wait_resume :: "EventTrigger \<Rightarrow> EventTrigger" where
  "wait_resume t = (if et_cancelled t then t\<lparr>et_phase := Stopped\<rparr> else enter_window t)"

definition window_expired :: "EventTrigger \<Rightarrow> EventTrigger" where
  "window_expired t = (if et_cancelled t then t\<lparr>et_phase := Stopped\<rparr> else t\<lparr>et_phase := Fetching\<rparr>)"

text \<open>
  The exits of the loop outside of \<open>wait()\<close>: fetching or broadcasting throws (the loop is spawned
  with \<open>detached\<close>, so nobody notices), or no subscriber is left.
\<close>

definition loop_exit :: "EventTrigger \<Rightarrow> EventTrigger" where
  "loop_exit t = t\<lparr>et_phase := Stopped\<rparr>"

datatype trigger_event = Fire | Cancel | Wait | Resume | Expire | Throw | No_subscribers

inductive trigger_step :: "EventTrigger \<Rightarrow> trigger_event \<Rightarrow> EventTrigger \<Rightarrow> bool" where
  "trigger_step t Fire (fire t)"
| "trigger_step t Cancel (cancel_trigger t)"
| "et_phase t = Fetching \<Longrightarrow> trigger_step t Wait (wait_start t)"
| "et_phase t = Woken \<Longrightarrow> trigger_step t Resume (wait_resume t)"
| "et_phase t = Window \<Longrightarrow> trigger_step t Expire (window_expired t)"
| "et_phase t = Fetching \<Longrightarrow> trigger_step t Throw (loop_exit t)"
| "et_phase t = Fetching \<Longrightarrow> trigger_step t No_subscribers (loop_exit t)"

inductive_simps trigger_step_simps [simp]:
  "trigger_step t Fire t'" "trigger_step t Cancel t'" "trigger_step t Wait t'" "trigger_step t Resume t'"
  "trigger_step t Expire t'" "trigger_step t Throw t'" "trigger_step t No_subscribers t'"

text \<open>A run of the loop with the events around it.\<close>

inductive trigger_run :: "EventTrigger \<Rightarrow> trigger_event list \<Rightarrow> EventTrigger \<Rightarrow> bool" where
  start: "trigger_run t [] t"
| step: "trigger_run t es t' \<Longrightarrow> trigger_step t' e t'' \<Longrightarrow> trigger_run t (es @ [e]) t''"

text \<open>
  An event is owed while a \<open>fire()\<close> came after the last fetch started: the signals since then are
  not yet in any payload.
\<close>

fun owed :: "trigger_event list \<Rightarrow> bool" where
  "owed es \<longleftrightarrow> (Fire \<in> set (takeWhile (\<lambda>e. e \<noteq> Expire) (rev es)))"

declare owed.simps [simp del]

lemma owed_Nil [simp]: "\<not> owed []"
  by (simp add: owed.simps)

lemma owed_snoc [simp]: "owed (es @ [e]) \<longleftrightarrow> e = Fire \<or> (e \<noteq> Expire \<and> owed es)"
  by (auto simp: owed.simps)

lemmas trigger_defs =
  fire_def cancel_trigger_def timer_cancel_def wait_start_def wait_resume_def window_expired_def enter_window_def
  loop_exit_def

text \<open>
  The invariant: an owed event is pending, or the loop is on its way to a fetch; and a sleeping loop
  has nothing pending.
\<close>

definition trigger_inv :: "trigger_event list \<Rightarrow> EventTrigger \<Rightarrow> bool" where
  "trigger_inv es t \<longleftrightarrow>
     (owed es \<longrightarrow> et_pending t \<or> et_phase t \<in> {Woken, Window, Stopped}) \<and> (et_phase t = Asleep \<longrightarrow> \<not> et_pending t)
     \<and> (et_phase t = Woken \<longrightarrow> et_pending t \<or> et_cancelled t)
     \<and> (et_cancelled t \<longrightarrow> Cancel \<in> set es)
     \<and> (et_phase t = Stopped \<longrightarrow> set es \<inter> {Cancel, Throw, No_subscribers} \<noteq> {})
     \<and> (set es \<inter> {Throw, No_subscribers} \<noteq> {} \<longrightarrow> et_phase t = Stopped)"

lemma trigger_inv_step:
  "trigger_inv es t \<Longrightarrow> trigger_step t e t' \<Longrightarrow> trigger_inv (es @ [e]) t'"
  by (cases e) (auto simp: trigger_inv_def trigger_defs split: if_splits)

lemma trigger_run_inv: "trigger_run EventTrigger_new es t \<Longrightarrow> trigger_inv es t"
proof (induction EventTrigger_new es t rule: trigger_run.induct)
  case start
  show ?case by (simp add: trigger_inv_def EventTrigger_new_def)
next
  case (step es t e t')
  then show ?case by (blast intro: trigger_inv_step)
qed

text \<open>The next step of the loop itself, without any further event.\<close>

fun loop_event :: "wait_phase \<Rightarrow> trigger_event" where
  "loop_event Fetching = Wait"
| "loop_event Woken = Resume"
| "loop_event _ = Expire"

text \<open>
  (C16) No event is lost while the loop lives: after every interleaving of signals with the loop in
  which the trigger was not cancelled, no fetch or broadcast threw and a subscriber was left, a
  signal that came since the last fetch started finds the loop not asleep, and on its own, without any further signal,
  the loop starts a fetch within three steps. A loop that was ended by an exception or for want of
  subscribers stays stopped whatever signals come, so their events are not fetched.
\<close>

theorem event_never_lost:
  assumes "trigger_run EventTrigger_new es t" and "owed es"
  shows "(set es \<inter> {Cancel, Throw, No_subscribers} = {} \<longrightarrow> et_phase t \<noteq> Asleep
       \<and> (\<exists>es' t'. length es' \<le> 3 \<and> set es' \<subseteq> {Wait, Resume, Expire} \<and> last es' = Expire \<and> es' \<noteq> []
            \<and> trigger_run EventTrigger_new (es @ es') t' \<and> et_phase t' = Fetching))
     \<and> (set es \<inter> {Throw, No_subscribers} \<noteq> {} \<longrightarrow> et_phase t = Stopped)"
proof (intro conjI [OF impI impI])
  have inv: "trigger_inv es t" using assms(1) by (rule trigger_run_inv)
  then show "et_phase t = Stopped" if "set es \<inter> {Throw, No_subscribers} \<noteq> {}" using that unfolding trigger_inv_def by blast
  assume alive: "set es \<inter> {Cancel, Throw, No_subscribers} = {}"
  with inv have phase: "et_phase t \<noteq> Asleep" "et_phase t \<noteq> Stopped" and nc: "\<not> et_cancelled t"
    using assms(2) by (auto simp: trigger_inv_def)
  let ?fetch = "\<lambda>n. \<exists>es' t'. length es' \<le> n \<and> set es' \<subseteq> {Wait, Resume, Expire} \<and> last es' = Expire \<and> es' \<noteq> []
      \<and> trigger_run EventTrigger_new (es @ es') t' \<and> et_phase t' = Fetching"
  have window: "?fetch (Suc (length xs))"
    if "trigger_run EventTrigger_new (es @ xs) u" "et_phase u = Window" "\<not> et_cancelled u"
      "set xs \<subseteq> {Wait, Resume, Expire}" for xs u
    using that trigger_run.step [OF that(1), of Expire "window_expired u"]
    by (intro exI [of _ "xs @ [Expire]"] exI [of _ "window_expired u"]) (auto simp: window_expired_def)
  have "?fetch 2" if "et_phase t = Woken \<or> et_phase t = Fetching"
  proof -
    let ?e = "loop_event (et_phase t)"
    let ?u = "enter_window t"
    have "trigger_step t ?e ?u"
      using that inv assms(2) nc by (auto simp: trigger_inv_def wait_start_def wait_resume_def)
    then have run: "trigger_run EventTrigger_new (es @ [?e]) ?u" by (rule trigger_run.step [OF assms(1)])
    have "et_phase ?u = Window" "\<not> et_cancelled ?u" using nc by (simp_all add: enter_window_def)
    moreover have "set [?e] \<subseteq> {Wait, Resume, Expire}" using that by auto
    ultimately have "?fetch (Suc (length [?e]))" by (rule window [OF run])
    then show ?thesis by (simp only: length_Cons list.size(3) numeral_2_eq_2)
  qed
  moreover have "?fetch 1" if "et_phase t = Window" using window [of "[]" t] that assms(1) nc by simp
  moreover have "?fetch 3" if "?fetch n" "n \<le> 3" for n using that by (meson le_trans)
  ultimately show "et_phase t \<noteq> Asleep \<and> ?fetch 3" using phase by (cases "et_phase t") simp_all
qed

theorem event_never_lost_witness:
  "\<exists>es' t'. length es' \<le> 3 \<and> trigger_run EventTrigger_new ([Wait, Fire] @ es') t' \<and> et_phase t' = Fetching"
proof -
  have "trigger_run EventTrigger_new ([] @ [Wait]) (wait_start EventTrigger_new)"
    by (rule trigger_run.step [OF trigger_run.start]) (simp add: EventTrigger_new_def)
  then have "trigger_run EventTrigger_new (([] @ [Wait]) @ [Fire]) (fire (wait_start EventTrigger_new))"
    by (rule trigger_run.step) simp
  then have run: "trigger_run EventTrigger_new [Wait, Fire] (fire (wait_start EventTrigger_new))" by simp
  have "owed [Wait, Fire]" by (simp add: owed.simps)
  then show ?thesis using event_never_lost [OF run] by auto
qed

text \<open>
  A signal inside the collection window is not absorbed: it leaves the trigger pending, so the
  next wait opens a second window at once and a second fetch follows, with no signal in between.
\<close>

theorem window_fire_fetches_again:
  "\<exists>t. trigger_run EventTrigger_new [Wait, Fire, Resume, Fire, Expire, Wait, Expire] t \<and> et_phase t = Fetching"
proof -
  let ?t = "\<lambda>p ph. \<lparr>et_pending = p, et_cancelled = False, et_phase = ph\<rparr>"
  note go = trigger_run.step [where t = EventTrigger_new]
  have "trigger_run EventTrigger_new [] (?t False Fetching)"
    by (simp add: trigger_run.start flip: EventTrigger_new_def)
  from go [OF this, of Wait "?t False Asleep"] have "trigger_run EventTrigger_new ([] @ [Wait]) (?t False Asleep)"
    by (simp add: trigger_defs)
  from go [OF this, of Fire "?t True Woken"] have "trigger_run EventTrigger_new ([Wait] @ [Fire]) (?t True Woken)"
    by (simp add: trigger_defs)
  from go [OF this, of Resume "?t False Window"]
  have "trigger_run EventTrigger_new ([Wait, Fire] @ [Resume]) (?t False Window)" by (simp add: trigger_defs)
  from go [OF this, of Fire "?t True Window"]
  have "trigger_run EventTrigger_new ([Wait, Fire, Resume] @ [Fire]) (?t True Window)" by (simp add: trigger_defs)
  from go [OF this, of Expire "?t True Fetching"]
  have "trigger_run EventTrigger_new ([Wait, Fire, Resume, Fire] @ [Expire]) (?t True Fetching)"
    by (simp add: trigger_defs)
  from go [OF this, of Wait "?t False Window"]
  have "trigger_run EventTrigger_new ([Wait, Fire, Resume, Fire, Expire] @ [Wait]) (?t False Window)"
    by (simp add: trigger_defs)
  from go [OF this, of Expire "?t False Fetching"]
  have "trigger_run EventTrigger_new [Wait, Fire, Resume, Fire, Expire, Wait, Expire] (?t False Fetching)"
    by (simp add: trigger_defs)
  then show ?thesis by fastforce
qed

section \<open>The timer trigger\<close>

text \<open>
  \<open>TimerTrigger\<close>: a wait ends when the interval is over, or with an error when it is cancelled before;
  \<open>cancel()\<close> outside of a wait has no effect on the next one.
\<close>

datatype timer_wait = IntervalOver | WaitCancelled

fun timer_trigger_wait :: "timer_wait \<Rightarrow> bool" where
  "timer_trigger_wait IntervalOver = True"
| "timer_trigger_wait WaitCancelled = False"

datatype trigger_kind = TimerTrigger int | EventTriggerKind

definition int_string :: "int \<Rightarrow> string" where
  "int_string i = (if i < 0 then CHR ''-'' # to_string (nat (- i)) else to_string (nat i))"

fun triggerKey :: "trigger_kind \<Rightarrow> string" where
  "triggerKey (TimerTrigger interval) = int_string interval"
| "triggerKey EventTriggerKind = ''event''"

fun triggerType :: "trigger_kind \<Rightarrow> string" where
  "triggerType (TimerTrigger interval) = ''timer''"
| "triggerType EventTriggerKind = ''event''"

section \<open>D-Bus watchers\<close>

abbreviation nul_char :: char where "nul_char \<equiv> CHR 0x00"

definition watcher_key :: "string \<Rightarrow> string \<Rightarrow> string \<Rightarrow> string" where
  "watcher_key ob ifc pr = ob @ nul_char # ifc @ nul_char # pr"

type_synonym DbusWatcherIndex = "(string \<times> string list) list"

definition index_push :: "string \<Rightarrow> string \<Rightarrow> DbusWatcherIndex \<Rightarrow> DbusWatcherIndex" where
  "index_push key field idx =
     omap_put key ((case map_of idx key of Some fs \<Rightarrow> fs | None \<Rightarrow> []) @ [field]) idx"

definition index_watcher :: "DbusWatcher \<Rightarrow> DbusWatcherIndex \<Rightarrow> DbusWatcherIndex" where
  "index_watcher w =
     fold (index_push (watcher_key (dw_object w) (dw_interface w) (dw_property w))) (dw_graphqlFields w)"

definition buildDbusWatcherIndex :: "DbusWatcher list \<Rightarrow> DbusWatcherIndex" where
  "buildDbusWatcherIndex watchers = fold index_watcher watchers []"

definition resolveFields :: "DbusWatcherIndex \<Rightarrow> string \<Rightarrow> string \<Rightarrow> string \<Rightarrow> string list" where
  "resolveFields index ob ifc pr =
     (let collect = (\<lambda>key. case map_of index key of Some fs \<Rightarrow> fs | None \<Rightarrow> [])
      in collect (watcher_key ob ifc pr) @ collect (watcher_key ob ifc [])
         @ collect (watcher_key [] ifc pr) @ collect (watcher_key [] ifc []))"

text \<open>The fields of one signal: the changed properties, then the invalidated ones, as a set.\<close>

definition affectedFields :: "DbusWatcherIndex \<Rightarrow> string \<Rightarrow> string \<Rightarrow> string list \<Rightarrow> string list \<Rightarrow> string set" where
  "affectedFields index ob ifc changed invalidated =
     set (concat (map (resolveFields index ob ifc) (changed @ invalidated)))"

text \<open>The reference: a watcher's empty object or property matches everything.\<close>

definition watcher_matches :: "DbusWatcher \<Rightarrow> string \<Rightarrow> string \<Rightarrow> string \<Rightarrow> bool" where
  "watcher_matches w ob ifc pr \<longleftrightarrow>
     dw_object w \<in> {ob, []} \<and> dw_interface w = ifc \<and> dw_property w \<in> {pr, []}"

definition watched_fields :: "DbusWatcher list \<Rightarrow> string \<Rightarrow> string \<Rightarrow> string \<Rightarrow> string set" where
  "watched_fields ws ob ifc pr = {f. \<exists>w\<in>set ws. watcher_matches w ob ifc pr \<and> f \<in> set (dw_graphqlFields w)}"

definition indexed :: "DbusWatcherIndex \<Rightarrow> string \<Rightarrow> string set" where
  "indexed idx key = set (case map_of idx key of Some fs \<Rightarrow> fs | None \<Rightarrow> [])"

lemma indexed_push: "indexed (index_push key f idx) k = indexed idx k \<union> (if k = key then {f} else {})"
  by (auto simp: indexed_def index_push_def split: option.split)

lemma indexed_push_all: "indexed (fold (index_push key) fs idx) k = indexed idx k \<union> (if k = key then set fs else {})"
  by (induction fs arbitrary: idx) (auto simp: indexed_push)

lemma indexed_build:
  "indexed (fold index_watcher ws idx) k = indexed idx k
     \<union> {f. \<exists>w\<in>set ws. k = watcher_key (dw_object w) (dw_interface w) (dw_property w) \<and> f \<in> set (dw_graphqlFields w)}"
proof (induction ws arbitrary: idx)
  case (Cons w ws)
  show ?case by (simp add: Cons) (auto simp: index_watcher_def indexed_push_all)
qed simp

lemma append_nul_inject:
  "nul_char \<notin> set xs \<Longrightarrow> nul_char \<notin> set ys \<Longrightarrow> xs @ nul_char # us = ys @ nul_char # vs \<longleftrightarrow> xs = ys \<and> us = vs"
proof (induction xs arbitrary: ys)
  case Nil
  then show ?case by (cases ys) auto
next
  case (Cons x xs)
  then show ?case by (cases ys) auto
qed

lemma watcher_key_inject:
  assumes "nul_char \<notin> set ob" "nul_char \<notin> set ifc" "nul_char \<notin> set ob'" "nul_char \<notin> set ifc'"
  shows "watcher_key ob ifc pr = watcher_key ob' ifc' pr' \<longleftrightarrow> ob = ob' \<and> ifc = ifc' \<and> pr = pr'"
  using assms by (simp add: watcher_key_def append_nul_inject)

definition watcher_ok :: "DbusWatcher \<Rightarrow> bool" where
  "watcher_ok w \<longleftrightarrow> nul_char \<notin> set (dw_object w) \<and> nul_char \<notin> set (dw_interface w)"

text \<open>
  (C17) The reverse index is exact: for every object, interface and property, looking up the four keys
  gives the fields of precisely those watchers of the schema that match, an empty object or
  property in a watcher matching everything, and none else. (D-Bus names contain no NUL.)
\<close>

theorem resolveFields_exact:
  assumes "list_all watcher_ok ws" and "nul_char \<notin> set ob" and "nul_char \<notin> set ifc"
  shows "set (resolveFields (buildDbusWatcherIndex ws) ob ifc pr) = watched_fields ws ob ifc pr"
proof -
  let ?idx = "buildDbusWatcherIndex ws"
  have key: "indexed ?idx (watcher_key ob' ifc pr')
      = {f. \<exists>w\<in>set ws. dw_object w = ob' \<and> dw_interface w = ifc \<and> dw_property w = pr' \<and> f \<in> set (dw_graphqlFields w)}"
    if "nul_char \<notin> set ob'" for ob' pr'
    using assms(1,3) that
    by (auto simp: buildDbusWatcherIndex_def indexed_build watcher_key_inject watcher_ok_def list_all_iff)
      (simp_all add: indexed_def)
  have "set (resolveFields ?idx ob ifc pr) = indexed ?idx (watcher_key ob ifc pr) \<union> indexed ?idx (watcher_key ob ifc [])
      \<union> indexed ?idx (watcher_key [] ifc pr) \<union> indexed ?idx (watcher_key [] ifc [])"
    by (simp add: resolveFields_def indexed_def Un_assoc)
  also have "\<dots> = watched_fields ws ob ifc pr"
    unfolding key [OF assms(2)] using key [of "[]"] by (auto simp: watched_fields_def watcher_matches_def)
  finally show ?thesis .
qed

theorem resolveFields_exact_witness:
  "set (resolveFields (buildDbusWatcherIndex
      [\<lparr>dw_object = [], dw_interface = ''I'', dw_property = [], dw_graphqlFields = [''chassis'']\<rparr>]) ''/o'' ''I'' ''P'')
     = {''chassis''}"
  using resolveFields_exact [of "[\<lparr>dw_object = [], dw_interface = ''I'', dw_property = [],
      dw_graphqlFields = [''chassis'']\<rparr>]" "''/o''" "''I''" "''P''"]
  by (simp add: watcher_ok_def watched_fields_def watcher_matches_def)

section \<open>Sessions\<close>

text \<open>
  A session and its polling loop. The loop fetches, then calls the subscribers back one after the other
  in a range-based \<open>for\<close> that suspends in every callback (\<open>todo\<close> are those still to be called, \<open>failed\<close>
  the ids collected in \<open>failedSubIds\<close>), then waits on the trigger. \<open>listed\<close> says whether the session is in
  \<open>activeSubscriptions\<close>, and \<open>invalidated\<close> that the vector was changed while the \<open>for\<close> was suspended in it.
  The ids count up from 1 in 64 bits; that they wrap after 2^64 subscriptions is not modelled.
\<close>

datatype loop_phase = LFetch | LBroadcast "nat list" "nat list" | LWait | LDone

record SubscriptionSession =
  subscribers :: "nat list"
  nextSubscriberId :: nat
  ses_trigger :: trigger_kind
  ses_cancelled :: bool
  ses_loop :: loop_phase
  listed :: bool
  invalidated :: bool

text \<open>
  The first request for a key: the session is created with its first subscriber and its loop is spawned.
\<close>

definition new_session :: "trigger_kind \<Rightarrow> SubscriptionSession" where
  "new_session trigger =
     \<lparr>subscribers = [1], nextSubscriberId = 2, ses_trigger = trigger, ses_cancelled = False,
      ses_loop = LFetch, listed = True, invalidated = False\<rparr>"

definition broadcasting :: "SubscriptionSession \<Rightarrow> bool" where
  "broadcasting s \<longleftrightarrow> (case ses_loop s of LBroadcast todo failed \<Rightarrow> True | _ \<Rightarrow> False)"

text \<open>A later request for the same key finds the session and is appended.\<close>

definition join_session :: "SubscriptionSession \<Rightarrow> SubscriptionSession" where
  "join_session s =
     s\<lparr>subscribers := subscribers s @ [nextSubscriberId s], nextSubscriberId := nextSubscriberId s + 1,
       invalidated := (invalidated s \<or> broadcasting s)\<rparr>"

definition removeSubscriber :: "nat \<Rightarrow> SubscriptionSession \<Rightarrow> SubscriptionSession" where
  "removeSubscriber i s =
     (if i \<in> set (subscribers s)
      then s\<lparr>subscribers := remove1 i (subscribers s), invalidated := (invalidated s \<or> broadcasting s)\<rparr>
      else s)"

text \<open>\<open>trigger->cancel()\<close>: an event trigger remembers it, a timer trigger only ends a wait that is pending.\<close>

definition cancel_session :: "SubscriptionSession \<Rightarrow> SubscriptionSession" where
  "cancel_session s =
     (if ses_trigger s = EventTriggerKind \<or> ses_loop s = LWait then s\<lparr>ses_cancelled := True\<rparr> else s)"

text \<open>The destructor of \<open>SubscriberCleanupGuard\<close>.\<close>

definition cleanup_guard :: "nat \<Rightarrow> SubscriptionSession \<Rightarrow> SubscriptionSession" where
  "cleanup_guard i s =
     (let s' = removeSubscriber i s in if subscribers s' = [] then cancel_session s' else s')"

text \<open>The pieces of \<open>runSubscriptionLoop\<close>; leaving the loop erases the key.\<close>

definition leave_loop :: "SubscriptionSession \<Rightarrow> SubscriptionSession" where
  "leave_loop s = s\<lparr>ses_loop := LDone, listed := False\<rparr>"

definition fetch_done :: "SubscriptionSession \<Rightarrow> SubscriptionSession" where
  "fetch_done s = s\<lparr>ses_loop := LBroadcast (subscribers s) []\<rparr>"

definition callback_done :: "bool \<Rightarrow> SubscriptionSession \<Rightarrow> SubscriptionSession" where
  "callback_done ok s =
     (case ses_loop s of
        LBroadcast (i # todo) failed \<Rightarrow>
          s\<lparr>ses_loop := LBroadcast todo (if ok then failed else failed @ [i])\<rparr>
      | _ \<Rightarrow> s)"

definition broadcast_done :: "SubscriptionSession \<Rightarrow> SubscriptionSession" where
  "broadcast_done s =
     (case ses_loop s of
        LBroadcast [] failed \<Rightarrow>
          let s' = fold removeSubscriber failed (s\<lparr>ses_loop := LWait\<rparr>)
          in if subscribers s' = [] then leave_loop s' else s'
      | _ \<Rightarrow> s)"

definition wait_returned :: "SubscriptionSession \<Rightarrow> SubscriptionSession" where
  "wait_returned s =
     (if ses_cancelled s \<or> subscribers s = [] then leave_loop s else s\<lparr>ses_loop := LFetch\<rparr>)"

datatype session_event = Join | Leave nat | FetchDone | Callback bool | BroadcastDone | WaitReturned

inductive session_step :: "SubscriptionSession \<Rightarrow> session_event \<Rightarrow> SubscriptionSession \<Rightarrow> bool" where
  "listed s \<Longrightarrow> session_step s Join (join_session s)"
| "session_step s (Leave i) (cleanup_guard i s)"
| "ses_loop s = LFetch \<Longrightarrow> session_step s FetchDone (fetch_done s)"
| "ses_loop s = LBroadcast (i # todo) failed \<Longrightarrow> session_step s (Callback ok) (callback_done ok s)"
| "ses_loop s = LBroadcast [] failed \<Longrightarrow> session_step s BroadcastDone (broadcast_done s)"
| "ses_loop s = LWait \<Longrightarrow> session_step s WaitReturned (wait_returned s)"

inductive_simps session_step_simps [simp]:
  "session_step s Join s'" "session_step s (Leave i) s'" "session_step s FetchDone s'"
  "session_step s (Callback ok) s'" "session_step s BroadcastDone s'" "session_step s WaitReturned s'"

inductive session_run :: "trigger_kind \<Rightarrow> session_event list \<Rightarrow> SubscriptionSession \<Rightarrow> bool" for trigger where
  start: "session_run trigger [] (new_session trigger)"
| step: "session_run trigger es s \<Longrightarrow> session_step s e s' \<Longrightarrow> session_run trigger (es @ [e]) s'"

lemmas session_defs =
  join_session_def cleanup_guard_def cancel_session_def leave_loop_def fetch_done_def callback_done_def
  wait_returned_def

text \<open>The ids of a session are distinct, and the next one is new; the loop is done exactly when the key is erased.\<close>

definition session_ok :: "SubscriptionSession \<Rightarrow> bool" where
  "session_ok s \<longleftrightarrow>
     distinct (subscribers s) \<and> (\<forall>i\<in>set (subscribers s). i < nextSubscriberId s) \<and> (listed s \<longleftrightarrow> ses_loop s \<noteq> LDone)"

lemma session_ok_remove:
  "session_ok s \<Longrightarrow> session_ok (removeSubscriber i s)"
  "subscribers (removeSubscriber i s) = remove1 i (subscribers s)"
  "ses_loop (removeSubscriber i s) = ses_loop s" "listed (removeSubscriber i s) = listed s"
  "nextSubscriberId (removeSubscriber i s) = nextSubscriberId s"
  "ses_cancelled (removeSubscriber i s) = ses_cancelled s"
  by (auto simp: removeSubscriber_def session_ok_def remove1_idem dest: in_set_remove1)

lemma session_ok_removes:
  "session_ok s \<Longrightarrow> session_ok (fold removeSubscriber is s)"
  "ses_loop (fold removeSubscriber is s) = ses_loop s" "listed (fold removeSubscriber is s) = listed s"
  "ses_cancelled (fold removeSubscriber is s) = ses_cancelled s"
  by (induction "is" arbitrary: s) (auto simp: session_ok_remove)

lemma session_ok_leave: "session_ok s \<Longrightarrow> session_ok (leave_loop s)"
  by (simp add: session_ok_def leave_loop_def)

lemma session_ok_step:
  assumes "session_ok s" and "session_step s e s'"
  shows "session_ok s'"
proof (cases e)
  case Join
  then show ?thesis using assms by (auto simp: session_ok_def join_session_def)
next
  case (Leave i)
  have "session_ok (cancel_session s1)" if "session_ok s1" for s1
    using that by (auto simp: session_ok_def cancel_session_def)
  then show ?thesis
    using assms Leave session_ok_remove(1) [OF assms(1), of i] by (simp add: cleanup_guard_def Let_def)
next
  case FetchDone
  then show ?thesis using assms by (auto simp: session_ok_def fetch_done_def)
next
  case (Callback ok)
  then show ?thesis using assms by (auto simp: session_ok_def callback_done_def)
next
  case BroadcastDone
  then obtain failed where loop: "ses_loop s = LBroadcast [] failed" and s': "s' = broadcast_done s"
    using assms(2) by auto
  let ?w = "s\<lparr>ses_loop := LWait\<rparr>"
  have "session_ok ?w" using assms(1) loop by (auto simp: session_ok_def)
  then have "session_ok (fold removeSubscriber failed ?w)" by (rule session_ok_removes)
  then show ?thesis using s' loop
    by (simp add: broadcast_done_def Let_def session_ok_leave)
next
  case WaitReturned
  then show ?thesis using assms by (auto simp: session_ok_def wait_returned_def leave_loop_def)
qed

lemma session_run_ok: "session_run trigger es s \<Longrightarrow> session_ok s"
proof (induction rule: session_run.induct)
  case start
  show ?case by (simp add: session_ok_def new_session_def)
next
  case (step es s e s')
  then show ?case by (blast intro: session_ok_step)
qed

text \<open>
  A join is late when the trigger of the session was cancelled before; without one, a loop that
  ends leaves no subscriber behind. A cancelled session is one that ran out of subscribers.
\<close>

fun late_join :: "SubscriptionSession \<Rightarrow> session_event \<Rightarrow> bool" where
  "late_join s Join = ses_cancelled s"
| "late_join s _ = False"

inductive punctual_run :: "trigger_kind \<Rightarrow> session_event list \<Rightarrow> SubscriptionSession \<Rightarrow> bool" for trigger where
  pstart: "punctual_run trigger [] (new_session trigger)"
| pstep: "punctual_run trigger es s \<Longrightarrow> session_step s e s' \<Longrightarrow> \<not> late_join s e \<Longrightarrow> punctual_run trigger (es @ [e]) s'"

definition punctual :: "SubscriptionSession \<Rightarrow> bool" where
  "punctual s \<longleftrightarrow> (ses_cancelled s \<or> ses_loop s = LDone \<longrightarrow> subscribers s = [])"

lemma remove_all_Nil: "subscribers s = [] \<Longrightarrow> fold removeSubscriber is s = s"
  by (induction "is" arbitrary: s) (auto simp: removeSubscriber_def)

lemma punctual_step:
  assumes "punctual s" and "session_ok s" and "session_step s e s'" and "\<not> late_join s e"
  shows "punctual s'"
proof (cases e)
  case Join
  then show ?thesis using assms by (auto simp: punctual_def join_session_def session_ok_def)
next
  case (Leave i)
  then show ?thesis
    using assms by (auto simp: punctual_def cleanup_guard_def cancel_session_def session_ok_remove Let_def)
next
  case BroadcastDone
  then obtain failed where loop: "ses_loop s = LBroadcast [] failed" and s': "s' = broadcast_done s"
    using assms(3) by auto
  show ?thesis
  proof (cases "ses_cancelled s")
    case True
    then have "subscribers s = []" using assms(1) by (simp add: punctual_def)
    then show ?thesis
      using s' loop by (simp add: broadcast_done_def remove_all_Nil leave_loop_def punctual_def)
  next
    case False
    then show ?thesis
      using s' loop session_ok_removes(2,4) [of failed "s\<lparr>ses_loop := LWait\<rparr>"]
      by (auto simp: broadcast_done_def Let_def leave_loop_def punctual_def)
  qed
qed (use assms in \<open>auto simp: punctual_def session_defs split: if_splits\<close>)

text \<open>
  A session's subscribers always have distinct ids and its key is erased exactly when its loop
  ends; and as long as nobody joins a session whose trigger was already cancelled, a loop ends only when no
  subscriber is left: nobody who is still subscribed is forgotten.
\<close>

theorem session_keeps_subscribers:
  assumes "punctual_run trigger es s"
  shows "session_ok s \<and> (ses_loop s = LDone \<longrightarrow> subscribers s = [])"
proof -
  have "session_ok s \<and> punctual s"
    using assms
  proof (induction rule: punctual_run.induct)
    case pstart
    show ?case by (simp add: session_ok_def punctual_def new_session_def)
  next
    case (pstep es s e s')
    then show ?case by (blast intro: session_ok_step punctual_step)
  qed
  then show ?thesis by (simp add: punctual_def)
qed

theorem session_keeps_subscribers_witness:
  "session_ok (wait_returned (cleanup_guard 1 (broadcast_done (callback_done True (fetch_done (new_session EventTriggerKind))))))
   \<and> subscribers (wait_returned (cleanup_guard 1 (broadcast_done (callback_done True (fetch_done (new_session EventTriggerKind))))))
       = []"
proof -
  let ?s1 = "fetch_done (new_session EventTriggerKind)"
  let ?s2 = "callback_done True ?s1"
  let ?s3 = "broadcast_done ?s2"
  let ?s4 = "cleanup_guard 1 ?s3"
  have "punctual_run EventTriggerKind [] (new_session EventTriggerKind)" by (rule punctual_run.pstart)
  from pstep [OF this, of FetchDone ?s1] have "punctual_run EventTriggerKind [FetchDone] ?s1"
    by (simp add: new_session_def)
  from pstep [OF this, of "Callback True" ?s2]
  have "punctual_run EventTriggerKind [FetchDone, Callback True] ?s2" by (simp add: new_session_def fetch_done_def)
  from pstep [OF this, of BroadcastDone ?s3]
  have "punctual_run EventTriggerKind [FetchDone, Callback True, BroadcastDone] ?s3"
    by (simp add: new_session_def fetch_done_def callback_done_def)
  from pstep [OF this, of "Leave 1" ?s4]
  have "punctual_run EventTriggerKind [FetchDone, Callback True, BroadcastDone, Leave 1] ?s4" by simp
  from pstep [OF this, of WaitReturned "wait_returned ?s4"]
  have run: "punctual_run EventTriggerKind [FetchDone, Callback True, BroadcastDone, Leave 1, WaitReturned] (wait_returned ?s4)"
    by (simp add: new_session_def fetch_done_def callback_done_def broadcast_done_def cleanup_guard_def
        removeSubscriber_def cancel_session_def)
  have "ses_loop (wait_returned ?s4) = LDone"
    by (simp add: new_session_def fetch_done_def callback_done_def broadcast_done_def cleanup_guard_def
        removeSubscriber_def cancel_session_def wait_returned_def leave_loop_def)
  then show ?thesis using session_keeps_subscribers [OF run] by simp
qed

text \<open>
  Someone who joins after the trigger was cancelled is stranded: the last subscriber leaves during the
  wait, another request for the same key joins before the loop resumes, and the loop then ends with this subscriber
  still in the session, whose key is gone, so that no later event reaches it.
\<close>

theorem late_subscriber_stranded:
  "\<exists>s. session_run EventTriggerKind [FetchDone, Callback True, BroadcastDone, Leave 1, Join, WaitReturned] s
     \<and> ses_loop s = LDone \<and> \<not> listed s \<and> subscribers s = [2]"
proof -
  let ?s = "\<lambda>ids n c l li. \<lparr>subscribers = ids, nextSubscriberId = n, ses_trigger = EventTriggerKind, ses_cancelled = c,
      ses_loop = l, listed = li, invalidated = False\<rparr>"
  note go = session_run.step [where trigger = EventTriggerKind]
  have "session_run EventTriggerKind [] (?s [1] 2 False LFetch True)"
    using session_run.start [of EventTriggerKind] by (simp add: new_session_def)
  from go [OF this, of FetchDone "?s [1] 2 False (LBroadcast [1] []) True"]
  have "session_run EventTriggerKind [FetchDone] (?s [1] 2 False (LBroadcast [1] []) True)" by (simp add: fetch_done_def)
  from go [OF this, of "Callback True" "?s [1] 2 False (LBroadcast [] []) True"]
  have "session_run EventTriggerKind [FetchDone, Callback True] (?s [1] 2 False (LBroadcast [] []) True)"
    by (simp add: callback_done_def)
  from go [OF this, of BroadcastDone "?s [1] 2 False LWait True"]
  have "session_run EventTriggerKind [FetchDone, Callback True, BroadcastDone] (?s [1] 2 False LWait True)"
    by (simp add: broadcast_done_def)
  from go [OF this, of "Leave 1" "?s [] 2 True LWait True"]
  have "session_run EventTriggerKind [FetchDone, Callback True, BroadcastDone, Leave 1] (?s [] 2 True LWait True)"
    by (simp add: cleanup_guard_def removeSubscriber_def cancel_session_def broadcasting_def)
  from go [OF this, of Join "?s [2] 3 True LWait True"]
  have "session_run EventTriggerKind [FetchDone, Callback True, BroadcastDone, Leave 1, Join] (?s [2] 3 True LWait True)"
    by (simp add: join_session_def broadcasting_def)
  from go [OF this, of WaitReturned "?s [2] 3 True LDone False"]
  have "session_run EventTriggerKind [FetchDone, Callback True, BroadcastDone, Leave 1, Join, WaitReturned]
      (?s [2] 3 True LDone False)"
    by (simp add: wait_returned_def leave_loop_def)
  then show ?thesis by fastforce
qed

text \<open>
  A subscriber that joins while the loop is suspended in a callback grows the vector under the range-based
  \<open>for\<close>, whose iterators are then invalid.
\<close>

theorem join_during_broadcast_invalidates:
  assumes "session_run trigger es s" and "listed s" and "broadcasting s"
  shows "session_run trigger (es @ [Join]) (join_session s) \<and> invalidated (join_session s)"
  using session_run.step [OF assms(1), of Join] assms(2,3) by (simp add: join_session_def)

section \<open>The registry of sessions\<close>

text \<open>\<open>activeSubscriptions\<close> with what each session was created for.\<close>

record 'f RegisteredSession =
  reg_session :: SubscriptionSession
  reg_selections :: "'f FieldSelection list"

type_synonym 'f registry = "(string \<times> 'f RegisteredSession) list"

definition operationReferencesAnyField :: "'f FieldSelection list \<Rightarrow> string set \<Rightarrow> bool" where
  "operationReferencesAnyField sels fieldNames \<longleftrightarrow> list_ex (\<lambda>sel. fs_name sel \<in> fieldNames) sels"

text \<open>\<open>notifyFieldsChanged\<close>: the keys of the sessions whose trigger it fires.\<close>

definition notifyFieldsChanged :: "string set \<Rightarrow> 'f registry \<Rightarrow> string list" where
  "notifyFieldsChanged fieldNames reg =
     map fst (filter (\<lambda>(key, r). triggerType (ses_trigger (reg_session r)) = ''event''
                        \<and> operationReferencesAnyField (reg_selections r) fieldNames) reg)"

record subscription_stats =
  active_shared_loops :: nat
  total_client_subscribers :: nat
  multiplexed_subscribers :: nat
  stat_details :: "(string \<times> nat \<times> string) list"

definition getSubscriptionStats :: "'f registry \<Rightarrow> subscription_stats" where
  "getSubscriptionStats reg =
     (let total = sum_list (map (\<lambda>(key, r). length (subscribers (reg_session r))) reg); loops = length reg
      in \<lparr>active_shared_loops = loops, total_client_subscribers = total,
          multiplexed_subscribers = (if total > loops then total - loops else 0),
          stat_details = map (\<lambda>(key, r). (key, length (subscribers (reg_session r)), triggerType (ses_trigger (reg_session r)))) reg\<rparr>)"

text \<open>
  \<open>executeSubscription\<close> behind the validation: the key, and the session found or created. \<open>dump\<close> is the library's printing of
  a JSON value.
\<close>

definition session_key :: "('f json \<Rightarrow> string) \<Rightarrow> string \<Rightarrow> 'f json \<Rightarrow> trigger_kind \<Rightarrow> string" where
  "session_key dump query merged trigger = query @ ''|'' @ dump merged @ ''|'' @ triggerKey trigger"

definition subscribe ::
  "('f json \<Rightarrow> string) \<Rightarrow> string \<Rightarrow> 'f json \<Rightarrow> trigger_kind \<Rightarrow> 'f FieldSelection list \<Rightarrow> 'f registry \<Rightarrow> 'f registry"
where
  "subscribe dump query merged trigger sels reg =
     (let key = session_key dump query merged trigger
      in (case map_of reg key of
            None \<Rightarrow> omap_put key \<lparr>reg_session = new_session trigger, reg_selections = sels\<rparr> reg
          | Some r \<Rightarrow> omap_put key (r\<lparr>reg_session := join_session (reg_session r)\<rparr>) reg))"

text \<open>What \<open>executeSubscription\<close> does with a text: an error event, an exception, or a subscription.\<close>

datatype 'f subscribe_outcome = ErrorEvent "'f json" | SubscribeThrows exn | Subscribed "'f registry"

definition executeSubscription ::
  "('f json \<Rightarrow> string) \<Rightarrow> (string \<Rightarrow> 'f option) \<Rightarrow> TypedSchema \<Rightarrow> string \<Rightarrow> 'f json \<Rightarrow> trigger_kind \<Rightarrow> 'f registry
     \<Rightarrow> 'f subscribe_outcome option"
where
  "executeSubscription dump stod sch query vars trigger reg =
     (case tryParse stod query of
        None \<Rightarrow> None
      | Some (Inl m) \<Rightarrow> Some (ErrorEvent (error_response m))
      | Some (Inr op) \<Rightarrow>
          (case expandFragments op of
             Inl e \<Rightarrow> Some (SubscribeThrows e)
           | Inr op' \<Rightarrow>
               (case validateOperation sch op' of
                  Some m \<Rightarrow> Some (ErrorEvent (error_response m))
                | None \<Rightarrow>
                    (case merge_variables op' vars of
                       Inl e \<Rightarrow> Some (SubscribeThrows e)
                     | Inr merged \<Rightarrow> Some (Subscribed (subscribe dump query merged trigger (op_selections op') reg))))))"

definition total_subscribers :: "'f registry \<Rightarrow> nat" where
  "total_subscribers reg = sum_list (map (\<lambda>(key, r). length (subscribers (reg_session r))) reg)"

lemma total_put_new:
  "omap_ok reg \<Longrightarrow> map_of reg key = None \<Longrightarrow>
     total_subscribers (omap_put key r reg) = total_subscribers reg + length (subscribers (reg_session r))"
  by (induction key r reg rule: omap_put.induct) (auto simp: total_subscribers_def omap_ok_def split: if_splits)

lemma total_put_old:
  "omap_ok reg \<Longrightarrow> map_of reg key = Some r0 \<Longrightarrow>
     total_subscribers (omap_put key r reg) + length (subscribers (reg_session r0))
       = total_subscribers reg + length (subscribers (reg_session r))"
proof (induction key r reg rule: omap_put.induct)
  case (2 k v k' v' m)
  show ?case
  proof (cases "k' = k")
    case True
    then show ?thesis using 2 by (auto simp: total_subscribers_def)
  next
    case False
    then have m: "map_of m k = Some r0" "omap_ok m" using 2(2,3) by (auto simp: omap_ok_def)
    then have "k' < k" using 2(2) by (auto simp: omap_ok_def dest!: map_of_SomeD)
    then show ?thesis using 2 False m by (auto simp: total_subscribers_def not_less_iff_gr_or_eq)
  qed
qed simp

text \<open>
  Coalescing: a subscription adds exactly one subscriber, and a loop only when no session for the same
  query text, variables and trigger is running; the statistics count both.
\<close>

theorem subscribe_coalesces:
  assumes "omap_ok reg"
  shows "total_client_subscribers (getSubscriptionStats (subscribe dump query merged trigger sels reg))
           = total_client_subscribers (getSubscriptionStats reg) + 1
       \<and> fst ` set (subscribe dump query merged trigger sels reg)
           = insert (session_key dump query merged trigger) (fst ` set reg)
       \<and> omap_ok (subscribe dump query merged trigger sels reg)"
proof -
  have stats: "total_client_subscribers (getSubscriptionStats r) = total_subscribers r" for r :: "'a registry"
    by (simp add: getSubscriptionStats_def total_subscribers_def Let_def)
  let ?key = "session_key dump query merged trigger"
  show ?thesis
  proof (cases "map_of reg ?key")
    case None
    then show ?thesis
      using total_put_new [OF assms None] assms
      by (simp add: stats subscribe_def keys_omap_put omap_ok_put new_session_def)
  next
    case (Some r)
    then show ?thesis
      using total_put_old [OF assms Some, of "r\<lparr>reg_session := join_session (reg_session r)\<rparr>"] assms
      by (simp add: stats subscribe_def keys_omap_put omap_ok_put join_session_def)
  qed
qed

theorem subscribe_coalesces_witness:
  "total_client_subscribers (getSubscriptionStats
     (subscribe (\<lambda>j. ''{}'') ''q'' JNull EventTriggerKind [] ([] :: nat registry))) = 1"
  using subscribe_coalesces [of "[] :: nat registry" "\<lambda>j. ''{}''" "''q''" JNull EventTriggerKind "[]"]
  by (simp add: omap_ok_def getSubscriptionStats_def)

end
