(* ===== verification/GraphqlServer.thy ===== *)
theory GraphqlServer
  imports GraphqlSubscriptions
begin

text \<open>
  The Redfish GraphQL server, \<open>graphql_redfish_server.cpp\<close>: the numbers in its parameters, the executors per
  remote host and the handlers of its routes. The JSON library's parser and printer are parameters, as is
  what each host's Redfish service answers.
\<close>

section \<open>Numbers in parameters\<close>

definition kIntervalMinSecs :: int where "kIntervalMinSecs = 5"
definition kIntervalMaxSecs :: int where "kIntervalMaxSecs = 300"
definition kIntervalDefaultSecs :: int where "kIntervalDefaultSecs = 5"

abbreviation out_of_range :: exn where "out_of_range \<equiv> other_exn 34"

text \<open>
  \<open>std::stoi\<close> on an optional sign and digits: a value outside of \<open>int\<close> is an \<open>out_of_range\<close> exception.
\<close>

definition signed_value :: "string \<Rightarrow> int" where
  "signed_value s =
     (case s of
        c # ds \<Rightarrow> if c = CHR ''-'' then - int (digits_value ds)
                  else if c = CHR ''+'' then int (digits_value ds) else int (digits_value s)
      | [] \<Rightarrow> 0)"

definition stoi :: "string \<Rightarrow> exn + int" where
  "stoi s =
     (let v = signed_value s in if - (2 ^ 31) \<le> v \<and> v < 2 ^ 31 then Inr v else Inl out_of_range)"

definition strip_sign :: "string \<Rightarrow> string" where
  "strip_sign s = (case s of c # ds \<Rightarrow> if c = CHR ''-'' \<or> c = CHR ''+'' then ds else s | [] \<Rightarrow> [])"

text \<open>
  \<open>parseIntString\<close>: the loop reads the C string, which ends at the first NUL. The result is a number, an error message
  or the exception of \<open>stoi\<close>.
\<close>

definition parseIntString :: "string \<Rightarrow> string \<Rightarrow> int gresult" where
  "parseIntString str paramName =
     (if str = [] then Returns (Inl (''Invalid '' @ quoted paramName @ '': value must not be empty''))
      else
        let cs = takeWhile (\<lambda>c. c \<noteq> nul_char) str; p = strip_sign cs
        in if p = [] \<or> \<not> list_all is_digit p
           then Returns (Inl (''Invalid '' @ quoted paramName @ '': must be an integer''))
           else may_throw (stoi cs))"

definition clamp :: "int \<Rightarrow> int \<Rightarrow> int \<Rightarrow> int" where
  "clamp v lo hi = (if v < lo then lo else if hi < v then hi else v)"

definition parseInterval :: "string \<Rightarrow> int gresult" where
  "parseInterval intervalStr =
     (if intervalStr = [] then Returns (Inr kIntervalDefaultSecs)
      else gbind (parseIntString intervalStr ''interval'')
             (\<lambda>v. Returns (Inr (clamp v kIntervalMinSecs kIntervalMaxSecs))))"

definition parsePort :: "string \<Rightarrow> int gresult" where
  "parsePort portStr = parseIntString portStr ''port''"

lemma parseIntString_stoi:
  assumes "list_all is_digit ds" and "ds \<noteq> []"
  shows "parseIntString ds nm = may_throw (stoi ds)" and "signed_value ds = int (digits_value ds)"
proof -
  obtain c ds' where ds: "ds = c # ds'" using assms(2) by (cases ds) auto
  have "is_digit c" using assms(1) ds by simp
  then have sign: "c \<noteq> CHR ''-''" "c \<noteq> CHR ''+''" by (auto simp: is_digit_def)
  have "\<forall>x\<in>set ds. x \<noteq> nul_char" using assms(1) by (auto simp: list_all_iff is_digit_def)
  then have nul: "takeWhile (\<lambda>c. c \<noteq> nul_char) ds = ds" by (simp add: takeWhile_eq_all_conv)
  have strip: "strip_sign ds = ds" using sign ds by (simp add: strip_sign_def)
  show "parseIntString ds nm = may_throw (stoi ds)"
    unfolding parseIntString_def nul Let_def strip using assms by simp
  show "signed_value ds = int (digits_value ds)" using sign ds by (simp add: signed_value_def)
qed

text \<open>
  A poll interval is always between 5 and 300 seconds, and asking for one in that range gives it exactly:
  a number that fits an \<open>int\<close> is clamped, anything that is not a number is an error message.
\<close>

theorem parseInterval_bounds:
  "(\<forall>v. parseInterval s = Returns (Inr v) \<longrightarrow> kIntervalMinSecs \<le> v \<and> v \<le> kIntervalMaxSecs)
 \<and> (\<forall>n::nat. kIntervalMinSecs \<le> int n \<and> int n \<le> kIntervalMaxSecs \<longrightarrow> parseInterval (to_string n) = Returns (Inr (int n)))"
proof (intro conjI allI impI)
  fix v assume "parseInterval s = Returns (Inr v)"
  then show "kIntervalMinSecs \<le> v" "v \<le> kIntervalMaxSecs"
    by (auto simp: parseInterval_def gbind_value clamp_def kIntervalMinSecs_def kIntervalMaxSecs_def
        kIntervalDefaultSecs_def split: if_splits)
next
  fix n :: nat assume n: "kIntervalMinSecs \<le> int n \<and> int n \<le> kIntervalMaxSecs"
  then have "parseIntString (to_string n) ''interval'' = Returns (Inr (int n))"
    using parseIntString_stoi [OF to_string_digits to_string_not_Nil, of n]
    by (simp add: digits_value_to_string kIntervalMaxSecs_def stoi_def may_throw_def)
  then show "parseInterval (to_string n) = Returns (Inr (int n))"
    using n by (simp add: parseInterval_def to_string_not_Nil clamp_def)
qed

theorem parseInterval_bounds_witness: "parseInterval (to_string 7) = Returns (Inr 7)"
  using parseInterval_bounds [of "[]"] by (simp add: kIntervalMinSecs_def kIntervalMaxSecs_def)

text \<open>
  The digits are no protection against exceptions: a number that passes every check of parseIntString and
  does not fit an \<open>int\<close> makes it throw, for the interval of a subscription and for the server's port alike.
\<close>

theorem parseIntString_throws:
  assumes "list_all is_digit ds" and "ds \<noteq> []" and "2 ^ 31 \<le> int (digits_value ds)"
  shows "parseInterval ds = Throws out_of_range \<and> parsePort ds = Throws out_of_range"
  using parseIntString_stoi [OF assms(1,2)] assms(2,3)
  by (simp add: parseInterval_def parsePort_def stoi_def may_throw_def)

theorem parseIntString_throws_witness: "parseInterval ''9999999999'' = Throws out_of_range"
  using parseIntString_throws [of "''9999999999''"] by (simp add: is_digit_def digits_value_def)

section \<open>Starting\<close>

record RedfishProviderConfig =
  prc_host :: string
  prc_port :: string
  prc_protocol :: string
  prc_username :: string
  prc_password :: string
  prc_clientCertFile :: string
  prc_clientKeyFile :: string

text \<open>The command-line options; \<open>run\<close> refuses to start without one of the two ways to authenticate.\<close>

record server_options =
  opt_host :: "string option"
  opt_targetPort :: "string option"
  opt_user :: "string option"
  opt_password :: "string option"
  opt_clientCert :: "string option"
  opt_clientKey :: "string option"
  opt_port :: "string option"
  opt_cert :: "string option"

definition provider_config :: "server_options \<Rightarrow> string + RedfishProviderConfig" where
  "provider_config opts =
     (let hasBasicAuth = opt_user opts \<noteq> None \<and> opt_password opts \<noteq> None;
          hasMtls = opt_clientCert opts \<noteq> None \<and> opt_clientKey opts \<noteq> None
      in if \<not> hasBasicAuth \<and> \<not> hasMtls
         then Inl (''Authentication required: provide either '' @ ''--user/-u and --password/-w (basic auth) ''
               @ ''or --client-cert/-C and --client-key/-K (mTLS)'')
         else Inr \<lparr>prc_host = (case opt_host opts of Some h \<Rightarrow> h | None \<Rightarrow> ''localhost''),
                   prc_port = (case opt_targetPort opts of Some p \<Rightarrow> p | None \<Rightarrow> ''443''), prc_protocol = ''https'',
                   prc_username = (if hasBasicAuth then the (opt_user opts) else []),
                   prc_password = (if hasBasicAuth then the (opt_password opts) else []),
                   prc_clientCertFile = (if hasMtls then the (opt_clientCert opts) else []),
                   prc_clientKeyFile = (if hasMtls then the (opt_clientKey opts) else [])\<rparr>)"

definition server_port :: "server_options \<Rightarrow> int gresult" where
  "server_port opts = (case opt_port opts of None \<Rightarrow> Returns (Inr 8444) | Some p \<Rightarrow> parsePort p)"

definition pem_file :: "server_options \<Rightarrow> string" where
  "pem_file opts =
     (case opt_cert opts of Some c \<Rightarrow> c @ ''/server.pem'' | None \<Rightarrow> ''/etc/ssl/certs/https/server.pem'')"

section \<open>Executors\<close>

text \<open>
  An executor is what it keeps: the provider's configuration and cache, and the running subscriptions. The default
  one and those created for other hosts.
\<close>

record 'f executor =
  ex_config :: RedfishProviderConfig
  ex_cache :: "'f cache"
  ex_registry :: "'f registry"

record 'f server =
  sv_default :: "'f executor"
  sv_remotes :: "(string \<times> 'f executor) list"

definition executor_new :: "RedfishProviderConfig \<Rightarrow> 'f executor" where
  "executor_new cfg = \<lparr>ex_config = cfg, ex_cache = [], ex_registry = []\<rparr>"

definition is_default :: "'f server \<Rightarrow> string \<Rightarrow> bool" where
  "is_default sv remoteIp \<longleftrightarrow> remoteIp = [] \<or> remoteIp = prc_host (ex_config (sv_default sv))"

definition resolveExecutor :: "string \<Rightarrow> 'f server \<Rightarrow> 'f executor \<times> 'f server" where
  "resolveExecutor remoteIp sv =
     (if is_default sv remoteIp then (sv_default sv, sv)
      else
        (case map_of (sv_remotes sv) remoteIp of
           Some ex \<Rightarrow> (ex, sv)
         | None \<Rightarrow>
             let ex = executor_new ((ex_config (sv_default sv))\<lparr>prc_host := remoteIp\<rparr>)
             in (ex, sv\<lparr>sv_remotes := omap_put remoteIp ex (sv_remotes sv)\<rparr>)))"

text \<open>The executors are shared by reference: what an execution changes stays in the server.\<close>

definition store_executor :: "string \<Rightarrow> 'f executor \<Rightarrow> 'f server \<Rightarrow> 'f server" where
  "store_executor remoteIp ex sv =
     (if is_default sv remoteIp then sv\<lparr>sv_default := ex\<rparr>
      else sv\<lparr>sv_remotes := omap_put remoteIp ex (sv_remotes sv)\<rparr>)"

section \<open>Handlers\<close>

datatype 'f http_answer = BadRequest string | Success "'f json"

text \<open>
  \<open>POST /graphql\<close>. \<open>services\<close> gives the Redfish service behind a provider configuration and \<open>None\<close> would be an execution
  that does not end.
\<close>

definition post_graphql ::
  "(string \<Rightarrow> 'f option) \<Rightarrow> TypedSchema \<Rightarrow> (RedfishProviderConfig \<Rightarrow> 'f service) \<Rightarrow> (string \<Rightarrow> 'f json option)
     \<Rightarrow> string \<Rightarrow> string \<Rightarrow> 'f server \<Rightarrow> ('f http_answer task_outcome \<times> 'f server) option"
where
  "post_graphql stod sch services parse body remoteIp sv =
     (case parse body of
        None \<Rightarrow> Some (Returns (BadRequest ''Invalid JSON in request body''), sv)
      | Some req \<Rightarrow>
          (case json_get req ''query'' of
             None \<Rightarrow> Some (Returns (BadRequest ''Missing 'query' field in request''), sv)
           | Some q \<Rightarrow>
               (case get_string q of
                  Inl e \<Rightarrow> Some (Throws e, sv)
                | Inr query \<Rightarrow>
                    let vars = (case json_get req ''variables'' of Some v \<Rightarrow> v | None \<Rightarrow> JObj []);
                        (ex, sv1) = resolveExecutor remoteIp sv
                    in (case execute_query stod sch (services (ex_config ex)) query vars (ex_cache ex) of
                          None \<Rightarrow> None
                        | Some (Throws e, cache) \<Rightarrow> Some (Throws e, store_executor remoteIp (ex\<lparr>ex_cache := cache\<rparr>) sv1)
                        | Some (Returns r, cache) \<Rightarrow>
                            Some (Returns (Success r), store_executor remoteIp (ex\<lparr>ex_cache := cache\<rparr>) sv1)))))"

text \<open>\<open>POST /graphql/events\<close>: the sessions fired are the default executor's.\<close>

fun string_items :: "'f json list \<Rightarrow> string list" where
  "string_items [] = []"
| "string_items (JStr s # xs) = s # string_items xs"
| "string_items (_ # xs) = string_items xs"

definition post_events ::
  "(string \<Rightarrow> 'f json option) \<Rightarrow> string \<Rightarrow> 'f server \<Rightarrow> string + string set \<times> string list"
where
  "post_events parse body sv =
     (case parse body of
        None \<Rightarrow> Inl ''Request body must be JSON with a 'fields' array''
      | Some b \<Rightarrow>
          (case json_array (json_get b ''fields'') of
             None \<Rightarrow> Inl ''Request body must be JSON with a 'fields' array''
           | Some items \<Rightarrow>
               let fields = set (string_items items)
               in if fields = {} then Inl (quoted ''fields'' @ '' array must contain at least one string'')
                  else Inr (fields, notifyFieldsChanged fields (ex_registry (sv_default sv)))))"

text \<open>\<open>GET /graphql/subscribe\<close>: an error event, an exception, or a subscription with its trigger.\<close>

definition choose_trigger :: "string \<Rightarrow> string \<Rightarrow> trigger_kind gresult" where
  "choose_trigger triggerParam intervalStr =
     (if triggerParam = ''event'' then Returns (Inr EventTriggerKind)
      else gbind (parseInterval intervalStr) (\<lambda>secs. Returns (Inr (TimerTrigger (secs * 10 ^ 9)))))"

definition get_subscribe ::
  "('f json \<Rightarrow> string) \<Rightarrow> (string \<Rightarrow> 'f option) \<Rightarrow> TypedSchema \<Rightarrow> string \<Rightarrow> string \<Rightarrow> string \<Rightarrow> string \<Rightarrow> 'f server
     \<Rightarrow> ('f subscribe_outcome \<times> 'f server) option"
where
  "get_subscribe dump stod sch query triggerParam intervalStr remoteIp sv =
     (if query = [] then Some (ErrorEvent (error_response ''Missing 'query' query-string parameter''), sv)
      else
        let (ex, sv1) = resolveExecutor remoteIp sv
        in (case choose_trigger triggerParam intervalStr of
              Throws e \<Rightarrow> Some (SubscribeThrows e, sv1)
            | Returns (Inl m) \<Rightarrow> Some (ErrorEvent (error_response m), sv1)
            | Returns (Inr trigger) \<Rightarrow>
                (case executeSubscription dump stod sch query (JObj []) trigger (ex_registry ex) of
                   None \<Rightarrow> None
                 | Some (Subscribed reg) \<Rightarrow> Some (Subscribed reg, store_executor remoteIp (ex\<lparr>ex_registry := reg\<rparr>) sv1)
                 | Some out \<Rightarrow> Some (out, sv1))))"

section \<open>One executor per host\<close>

definition executor_of :: "'f server \<Rightarrow> string \<Rightarrow> 'f executor option" where
  "executor_of sv host = (if is_default sv host then Some (sv_default sv) else map_of (sv_remotes sv) host)"

text \<open>Every executor talks to the host it is filed under, with the default one's credentials.\<close>

definition server_ok :: "'f server \<Rightarrow> bool" where
  "server_ok sv \<longleftrightarrow> omap_ok (sv_remotes sv) \<and>
     list_all (\<lambda>(h, ex). ex_config ex = (ex_config (sv_default sv))\<lparr>prc_host := h\<rparr> \<and> \<not> is_default sv h) (sv_remotes sv)"

lemma server_ok_put:
  assumes "server_ok sv" and "ex_config ex = (ex_config (sv_default sv))\<lparr>prc_host := h\<rparr>" and "\<not> is_default sv h"
  shows "server_ok (sv\<lparr>sv_remotes := omap_put h ex (sv_remotes sv)\<rparr>)"
  using assms set_omap_put [of h ex "sv_remotes sv"]
  by (auto simp: server_ok_def list_all_iff omap_ok_put is_default_def)

lemma resolveExecutor_cases:
  assumes "resolveExecutor h sv = (ex, sv')"
  obtains (default) "is_default sv h" "ex = sv_default sv" "sv' = sv"
  | (known) "\<not> is_default sv h" "map_of (sv_remotes sv) h = Some ex" "sv' = sv"
  | (new) "\<not> is_default sv h" "ex_config ex = (ex_config (sv_default sv))\<lparr>prc_host := h\<rparr>"
      "sv' = sv\<lparr>sv_remotes := omap_put h ex (sv_remotes sv)\<rparr>"
proof (cases "is_default sv h")
  case True
  have "ex = sv_default sv" "sv' = sv" using assms True by (auto simp: resolveExecutor_def)
  from default [OF True this] show ?thesis .
next
  case False
  show ?thesis
  proof (cases "map_of (sv_remotes sv) h")
    case None
    have "ex = executor_new ((ex_config (sv_default sv))\<lparr>prc_host := h\<rparr>)"
      and sv': "sv' = sv\<lparr>sv_remotes := omap_put h ex (sv_remotes sv)\<rparr>"
      using assms False None by (auto simp: resolveExecutor_def Let_def)
    then have "ex_config ex = (ex_config (sv_default sv))\<lparr>prc_host := h\<rparr>" by (simp add: executor_new_def)
    from new [OF False this sv'] show ?thesis .
  next
    case (Some ex0)
    have "map_of (sv_remotes sv) h = Some ex" "sv' = sv"
      using assms False Some by (auto simp: resolveExecutor_def)
    from known [OF False this] show ?thesis .
  qed
qed

lemma resolveExecutor_ok:
  assumes "server_ok sv" and "resolveExecutor h sv = (ex, sv')"
  shows "server_ok sv'" and "sv_default sv' = sv_default sv" and "executor_of sv' h = Some ex"
    and "h' \<noteq> h \<Longrightarrow> executor_of sv' h' = executor_of sv h'"
    and "\<not> is_default sv h \<Longrightarrow> ex_config ex = (ex_config (sv_default sv))\<lparr>prc_host := h\<rparr>"
    and "is_default sv h \<Longrightarrow> ex = sv_default sv"
proof -
  note cases = resolveExecutor_cases [OF assms(2)]
  show "server_ok sv'"
    by (rule cases) (use assms(1) in \<open>simp_all add: server_ok_put\<close>)
  show "sv_default sv' = sv_default sv" by (rule cases) simp_all
  show "executor_of sv' h = Some ex" by (rule cases) (simp_all add: executor_of_def is_default_def)
  show "h' \<noteq> h \<Longrightarrow> executor_of sv' h' = executor_of sv h'"
    by (rule cases) (simp_all add: executor_of_def is_default_def)
  show "\<not> is_default sv h \<Longrightarrow> ex_config ex = (ex_config (sv_default sv))\<lparr>prc_host := h\<rparr>"
    by (rule cases) (use assms(1) in \<open>auto simp: server_ok_def list_all_iff dest: map_of_SomeD\<close>)
  show "is_default sv h \<Longrightarrow> ex = sv_default sv" by (rule cases) simp_all
qed

lemma store_executor_ok:
  assumes "server_ok sv" and "executor_of sv h = Some ex" and "ex_config ex' = ex_config ex"
  shows "server_ok (store_executor h ex' sv)"
    and "\<not> (is_default sv h \<and> is_default sv h') \<Longrightarrow> h' \<noteq> h \<Longrightarrow> executor_of (store_executor h ex' sv) h' = executor_of sv h'"
    and "executor_of (store_executor h ex' sv) h = Some ex'"
proof -
  show "server_ok (store_executor h ex' sv)"
  proof (cases "is_default sv h")
    case True
    then show ?thesis using assms
      by (auto simp: store_executor_def server_ok_def executor_of_def is_default_def list_all_iff)
  next
    case False
    then have "ex_config ex' = (ex_config (sv_default sv))\<lparr>prc_host := h\<rparr>"
      using assms by (auto simp: executor_of_def server_ok_def list_all_iff dest!: map_of_SomeD)
    then show ?thesis using False assms(1) by (simp add: store_executor_def server_ok_put)
  qed
  show "\<not> (is_default sv h \<and> is_default sv h') \<Longrightarrow> h' \<noteq> h \<Longrightarrow> executor_of (store_executor h ex' sv) h' = executor_of sv h'"
    using assms by (auto simp: store_executor_def executor_of_def is_default_def split: if_splits)
  show "executor_of (store_executor h ex' sv) h = Some ex'"
    using assms by (auto simp: store_executor_def executor_of_def is_default_def split: if_splits)
qed

text \<open>
  (C18) Hosts are isolated: answering a query for one host leaves the executor of every other host, its
  cache and its subscriptions, as they were, never creates a second executor for a host, and keeps every executor
  pointed at the host it is filed under.
\<close>

theorem post_graphql_isolated:
  assumes "server_ok sv" and "post_graphql stod sch services parse body remoteIp sv = Some (r, sv')"
  shows "server_ok sv'
       \<and> (\<forall>h. h \<noteq> remoteIp \<longrightarrow> \<not> (is_default sv h \<and> is_default sv remoteIp) \<longrightarrow> executor_of sv' h = executor_of sv h)"
proof -
  obtain ex sv1 where res: "resolveExecutor remoteIp sv = (ex, sv1)" by (cases "resolveExecutor remoteIp sv")
  note ok = resolveExecutor_ok [OF assms(1) res]
  have "sv' = sv \<or> (\<exists>cache. sv' = store_executor remoteIp (ex\<lparr>ex_cache := cache\<rparr>) sv1)"
    using assms(2) res
    by (auto simp: post_graphql_def Let_def split: option.splits sum.splits prod.splits task_outcome.splits)
  moreover have "is_default sv1 h = is_default sv h" for h using ok(2) by (simp add: is_default_def)
  moreover have "server_ok (store_executor remoteIp (ex\<lparr>ex_cache := cache\<rparr>) sv1)
      \<and> (\<forall>h. h \<noteq> remoteIp \<longrightarrow> \<not> (is_default sv1 h \<and> is_default sv1 remoteIp) \<longrightarrow>
           executor_of (store_executor remoteIp (ex\<lparr>ex_cache := cache\<rparr>) sv1) h = executor_of sv1 h)" for cache
    using store_executor_ok(1,2) [OF ok(1) ok(3), of "ex\<lparr>ex_cache := cache\<rparr>"] by auto
  ultimately show ?thesis using ok(4) assms(1) by auto
qed

definition demo_server :: "nat server" where
  "demo_server =
     \<lparr>sv_default = executor_new \<lparr>prc_host = ''localhost'', prc_port = ''443'', prc_protocol = ''https'', prc_username = ''u'',
         prc_password = ''p'', prc_clientCertFile = [], prc_clientKeyFile = []\<rparr>, sv_remotes = []\<rparr>"

theorem post_graphql_isolated_witness:
  "server_ok demo_server
   \<and> (\<exists>r sv'. post_graphql (\<lambda>tx. None) demo_schema (\<lambda>cfg. demo_service) (\<lambda>b. Some (JObj [(''query'', JStr ''{...F}'')]))
        ''body'' ''10.0.0.1'' demo_server = Some (r, sv') \<and> server_ok sv')"
proof -
  have ok: "server_ok demo_server" by (simp add: server_ok_def demo_server_def omap_ok_def)
  obtain r cache where "execute_query (\<lambda>tx. None :: nat option) demo_schema demo_service ''{...F}'' (JObj []) [] = Some (r, cache)"
    using execute_query_some [of "\<lambda>tx. None :: nat option" demo_schema demo_service "''{...F}''" "JObj []" "[]"] by blast
  then have "\<exists>x. post_graphql (\<lambda>tx. None) demo_schema (\<lambda>cfg. demo_service) (\<lambda>b. Some (JObj [(''query'', JStr ''{...F}'')]))
        ''body'' ''10.0.0.1'' demo_server = Some x"
    by (cases r) (auto simp: post_graphql_def resolveExecutor_def demo_server_def is_default_def executor_new_def Let_def)
  then obtain r' sv' where post: "post_graphql (\<lambda>tx. None) demo_schema (\<lambda>cfg. demo_service)
      (\<lambda>b. Some (JObj [(''query'', JStr ''{...F}'')])) ''body'' ''10.0.0.1'' demo_server = Some (r', sv')" by auto
  then show ?thesis using ok post_graphql_isolated [OF ok post] by blast
qed

end
