(* ===== verification/ConsoleClient.thy ===== *)
theory ConsoleClient
  imports Prelude "HOL-Library.Sublist"
begin

text \<open>
  The console client, \<open>examples/obmc_console/console_client.cpp\<close>: the input processor that cuts what is
  typed into lines and looks for the escape sequence, and the two coroutines that copy standard
  input to the socket and the socket to standard output. The outcome of each write to the socket is
  a parameter: an error, or the number of bytes taken, which \<open>async_write_some\<close> may choose smaller
  than the buffer.
\<close>

section \<open>The input processor\<close>

datatype input_result = Continue | SendBuffer | Escape

datatype input_state = Normal | AfterNewline | AfterTilde

record InputProcessor =
  ip_state :: input_state
  ip_buffer :: string

definition InputProcessor_new :: InputProcessor where
  "InputProcessor_new = \<lparr>ip_state = Normal, ip_buffer = []\<rparr>"

definition is_newline :: "char \<Rightarrow> bool" where
  "is_newline c \<longleftrightarrow> c = CHR 0x0D \<or> c = CHR 0x0A"

definition ip_process :: "char \<Rightarrow> InputProcessor \<Rightarrow> input_result \<times> InputProcessor" where
  "ip_process c p =
     (case ip_state p of
        Normal \<Rightarrow>
          let p = p\<lparr>ip_buffer := ip_buffer p @ [c]\<rparr>
          in if is_newline c then (SendBuffer, p\<lparr>ip_state := AfterNewline\<rparr>) else (Continue, p)
      | AfterNewline \<Rightarrow>
          if c = CHR ''~'' then (Continue, p\<lparr>ip_state := AfterTilde\<rparr>)
          else (Continue, p\<lparr>ip_state := Normal, ip_buffer := ip_buffer p @ [c]\<rparr>)
      | AfterTilde \<Rightarrow>
          if c = CHR ''.'' then (Escape, p)
          else (Continue, p\<lparr>ip_buffer := ip_buffer p @ [CHR ''~'', c], ip_state := Normal\<rparr>))"

definition clearBuffer :: "InputProcessor \<Rightarrow> InputProcessor" where
  "clearBuffer p = p\<lparr>ip_buffer := []\<rparr>"

section \<open>The two coroutines\<close>

text \<open>
  \<open>cc_wire\<close> are the bytes the socket has taken, \<open>cc_writes\<close> counts the writes, \<open>cc_out\<close> is what was written to
  standard output; the flags say that stop was requested, that the coroutines still run and that the
  socket is open.
\<close>

record ConsoleClient =
  cc_input :: InputProcessor
  cc_wire :: string
  cc_writes :: nat
  cc_out :: string
  cc_stop :: bool
  cc_stdin :: bool
  cc_socket :: bool
  cc_open :: bool

definition ConsoleClient_new :: ConsoleClient where
  "ConsoleClient_new =
     \<lparr>cc_input = InputProcessor_new, cc_wire = [], cc_writes = 0, cc_out = [], cc_stop = False, cc_stdin = True,
      cc_socket = True, cc_open = True\<rparr>"

type_synonym write_outcome = "nat \<Rightarrow> string \<Rightarrow> errc + nat"

text \<open>
  The loop over the characters of one read. The escape sequence and a failed write request the
  stop and leave the loop; the number of bytes a write reports is only logged.
\<close>

fun process_chars :: "write_outcome \<Rightarrow> string \<Rightarrow> ConsoleClient \<Rightarrow> ConsoleClient" where
  "process_chars wr [] s = s"
| "process_chars wr (c # cs) s =
     (case ip_process c (cc_input s) of
        (Escape, p) \<Rightarrow> s\<lparr>cc_input := p, cc_stop := True\<rparr>
      | (SendBuffer, p) \<Rightarrow>
          if ip_buffer p = [] then process_chars wr cs (s\<lparr>cc_input := clearBuffer p\<rparr>)
          else
            (case wr (cc_writes s) (ip_buffer p) of
               Inl ec \<Rightarrow> s\<lparr>cc_input := p, cc_writes := Suc (cc_writes s), cc_stop := True\<rparr>
             | Inr n \<Rightarrow>
                 process_chars wr cs
                   (s\<lparr>cc_input := clearBuffer p, cc_writes := Suc (cc_writes s), cc_wire := cc_wire s @ take n (ip_buffer p)\<rparr>))
      | (Continue, p) \<Rightarrow> process_chars wr cs (s\<lparr>cc_input := p\<rparr>))"

text \<open>The end of \<open>readFromStdin\<close> closes the socket, the end of \<open>readFromSocket\<close> cancels the read of standard input.\<close>

definition leave_stdin :: "ConsoleClient \<Rightarrow> ConsoleClient" where
  "leave_stdin s = s\<lparr>cc_stop := True, cc_stdin := False, cc_open := False\<rparr>"

definition leave_socket :: "ConsoleClient \<Rightarrow> ConsoleClient" where
  "leave_socket s = s\<lparr>cc_stop := True, cc_socket := False\<rparr>"

text \<open>
  What can happen: a read of standard input or of the socket completes (with the outcome of the
  write to standard output), or a signal requests the stop. The loops look at the stop flag after every read.
\<close>

datatype client_event =
    StdinError errc
  | StdinBytes string
  | SocketError errc
  | SocketBytes string bool
  | Signal

definition stdin_read :: "write_outcome \<Rightarrow> string \<Rightarrow> ConsoleClient \<Rightarrow> ConsoleClient" where
  "stdin_read wr bs s =
     (if cc_stop s then leave_stdin s
      else let s' = process_chars wr bs s in if cc_stop s' then leave_stdin s' else s')"

definition socket_read :: "string \<Rightarrow> bool \<Rightarrow> ConsoleClient \<Rightarrow> ConsoleClient" where
  "socket_read bs written s =
     (if bs \<noteq> [] \<and> \<not> written then leave_socket s
      else let s' = s\<lparr>cc_out := cc_out s @ bs\<rparr> in if cc_stop s' then leave_socket s' else s')"

definition client_step :: "write_outcome \<Rightarrow> client_event \<Rightarrow> ConsoleClient \<Rightarrow> ConsoleClient" where
  "client_step wr e s =
     (case e of
        StdinError ec \<Rightarrow> if cc_stdin s then leave_stdin s else s
      | StdinBytes bs \<Rightarrow> if cc_stdin s then stdin_read wr bs s else s
      | SocketError ec \<Rightarrow> if cc_socket s then leave_socket s else s
      | SocketBytes bs written \<Rightarrow> if cc_socket s then socket_read bs written s else s
      | Signal \<Rightarrow> s\<lparr>cc_stop := True\<rparr>)"

definition client_run :: "write_outcome \<Rightarrow> client_event list \<Rightarrow> ConsoleClient" where
  "client_run wr es = fold (client_step wr) es ConsoleClient_new"

section \<open>Nothing typed is lost\<close>

text \<open>What the processor has taken and not yet handed on: the buffer, and a tilde that may begin an escape.\<close>

definition held :: "InputProcessor \<Rightarrow> string" where
  "held p = ip_buffer p @ (if ip_state p = AfterTilde then [CHR ''~''] else [])"

definition full_writes :: "write_outcome \<Rightarrow> bool" where
  "full_writes wr \<longleftrightarrow> (\<forall>k b. wr k b = Inr (length b))"

lemma held_process:
  assumes "ip_process c p = (r, p')"
  shows "r \<noteq> Escape \<Longrightarrow> held p' = held p @ [c]"
    and "r = SendBuffer \<Longrightarrow> held p' = ip_buffer p' \<and> ip_state p' = AfterNewline"
  using assms by (auto simp: ip_process_def held_def Let_def split: input_state.splits if_splits)

lemma held_clear: "ip_state p = AfterNewline \<Longrightarrow> held (clearBuffer p) = []"
  by (simp add: held_def clearBuffer_def)

lemma process_chars_frame [simp]:
  "cc_out (process_chars wr cs s) = cc_out s \<and> cc_stdin (process_chars wr cs s) = cc_stdin s
   \<and> cc_socket (process_chars wr cs s) = cc_socket s \<and> cc_open (process_chars wr cs s) = cc_open s"
  by (induction wr cs s rule: process_chars.induct)
    (auto split: prod.splits input_result.splits sum.splits)

lemma process_chars_conserves:
  assumes "full_writes wr" and "\<not> cc_stop s"
  shows "prefix (cc_wire (process_chars wr cs s)) (cc_wire s @ held (cc_input s) @ cs)
       \<and> (\<not> cc_stop (process_chars wr cs s) \<longrightarrow>
            cc_wire (process_chars wr cs s) @ held (cc_input (process_chars wr cs s)) = cc_wire s @ held (cc_input s) @ cs)"
  using assms
proof (induction wr cs s rule: process_chars.induct)
  case (2 wr c cs s)
  obtain r p where rp: "ip_process c (cc_input s) = (r, p)" by (cases "ip_process c (cc_input s)")
  note h = held_process [OF rp]
  show ?case
  proof (cases r)
    case Continue
    then show ?thesis using 2(1,4,5) Continue rp h by (simp add: prefix_def)
  next
    case SendBuffer
    then have p: "held p = ip_buffer p" "ip_state p = AfterNewline" "held p = held (cc_input s) @ [c]"
      using h by simp_all
    have w: "wr (cc_writes s) (ip_buffer p) = Inr (length (ip_buffer p))"
      using 2(4) by (simp add: full_writes_def)
    let ?s = "s\<lparr>cc_input := clearBuffer p, cc_writes := Suc (cc_writes s), cc_wire := cc_wire s @ ip_buffer p\<rparr>"
    have b: "ip_buffer p = held (cc_input s) @ [c]" using p(1,3) by (rule trans [OF sym])
    then have ne: "ip_buffer p \<noteq> []" by simp
    then have eq: "process_chars wr (c # cs) s = process_chars wr cs ?s" using rp SendBuffer w by simp
    have cat: "cc_wire s @ held (cc_input s) @ c # cs = cc_wire ?s @ held (cc_input ?s) @ cs"
      using b p(2) held_clear [of p] by simp
    show ?thesis unfolding eq cat using 2(3) [OF rp [symmetric] SendBuffer ne w 2(4)] 2(5) by simp
  next
    case Escape
    then show ?thesis using rp by simp
  qed
qed simp

section \<open>The client copies both ways\<close>

text \<open>What was read from standard input and from the socket.\<close>

definition typed :: "client_event list \<Rightarrow> string" where
  "typed es = concat (map (\<lambda>e. case e of StdinBytes bs \<Rightarrow> bs | _ \<Rightarrow> []) es)"

definition received :: "client_event list \<Rightarrow> string" where
  "received es = concat (map (\<lambda>e. case e of SocketBytes bs _ \<Rightarrow> bs | _ \<Rightarrow> []) es)"

definition client_inv :: "client_event list \<Rightarrow> ConsoleClient \<Rightarrow> bool" where
  "client_inv es s \<longleftrightarrow>
     prefix (cc_wire s) (typed es) \<and> prefix (cc_out s) (received es)
     \<and> (cc_stdin s \<longrightarrow> cc_wire s @ held (cc_input s) = typed es)
     \<and> (cc_socket s \<longrightarrow> cc_out s = received es)
     \<and> (cc_stdin s = cc_open s) \<and> (cc_stdin s \<and> cc_socket s \<or> cc_stop s)"

lemma client_inv_step:
  assumes "full_writes wr" and "client_inv es s"
  shows "client_inv (es @ [e]) (client_step wr e s)"
proof (cases e)
  case (StdinBytes bs)
  show ?thesis
  proof (cases "cc_stdin s \<and> \<not> cc_stop s")
    case True
    then show ?thesis
      using StdinBytes assms(2) process_chars_conserves [OF assms(1), of s bs]
      by (auto simp: client_inv_def client_step_def stdin_read_def leave_stdin_def typed_def received_def Let_def
          simp flip: append_assoc)
  next
    case False
    then show ?thesis
      using StdinBytes assms(2)
      by (auto simp: client_inv_def client_step_def stdin_read_def leave_stdin_def typed_def received_def)
  qed
qed (use assms(2) in \<open>auto simp: client_inv_def client_step_def socket_read_def leave_stdin_def leave_socket_def typed_def
    received_def Let_def\<close>)

lemma client_run_inv:
  assumes "full_writes wr"
  shows "client_inv es (client_run wr es)"
proof (induction es rule: rev_induct)
  case Nil
  show ?case
    by (simp add: client_inv_def client_run_def ConsoleClient_new_def InputProcessor_new_def held_def typed_def received_def)
next
  case (snoc e es)
  then show ?case using client_inv_step [OF assms, of es _ e] by (simp add: client_run_def)
qed

text \<open>
  The client copies both ways: as long as the socket takes whole buffers, what it was sent is a
  prefix of what was typed and what is shown is a prefix of what arrived; while the coroutines run nothing
  is missing but the unfinished line, and once a stop is requested each coroutine ends with its next read.
\<close>

theorem console_client_transparent:
  assumes "full_writes wr"
  shows "prefix (cc_wire (client_run wr es)) (typed es) \<and> prefix (cc_out (client_run wr es)) (received es)
       \<and> (cc_stdin (client_run wr es) \<longrightarrow>
            cc_wire (client_run wr es) @ held (cc_input (client_run wr es)) = typed es)
       \<and> (cc_socket (client_run wr es) \<longrightarrow> cc_out (client_run wr es) = received es)
       \<and> (cc_stop (client_run wr es) \<longrightarrow>
            \<not> cc_stdin (client_run wr (es @ [StdinBytes bs])) \<and> \<not> cc_socket (client_run wr (es @ [SocketBytes bs' w])))"
proof -
  let ?s = "client_run wr es"
  have "client_inv es ?s" using assms by (rule client_run_inv)
  moreover have "\<not> cc_stdin (client_step wr (StdinBytes bs) ?s) \<and> \<not> cc_socket (client_step wr (SocketBytes bs' w) ?s)"
    if "cc_stop ?s"
    using that by (simp add: client_step_def stdin_read_def socket_read_def leave_stdin_def leave_socket_def)
  ultimately show ?thesis by (simp add: client_inv_def client_run_def)
qed

theorem console_client_transparent_witness:
  "cc_wire (client_run (\<lambda>k b. Inr (length b)) [StdinBytes ''ab'']) @
     held (cc_input (client_run (\<lambda>k b. Inr (length b)) [StdinBytes ''ab''])) = ''ab''"
proof -
  have "cc_stdin (client_run (\<lambda>k b. Inr (length b)) [StdinBytes ''ab''])" by code_simp
  then show ?thesis
    using console_client_transparent [of "\<lambda>k b. Inr (length b)" "[StdinBytes ''ab'']"]
    by (simp add: full_writes_def typed_def)
qed

section \<open>Lines and the escape sequence\<close>

text \<open>How the transport cuts the input into reads does not matter.\<close>

lemma process_chars_append:
  "process_chars wr (xs @ ys) s =
     (let s' = process_chars wr xs s in if cc_stop s' then s' else process_chars wr ys s')"
  if "\<not> cc_stop s"
  using that
  by (induction wr xs s rule: process_chars.induct)
    (auto simp: Let_def split: prod.splits input_result.splits sum.splits)

lemma client_run_chunks:
  assumes "cc_stdin s" and "\<not> cc_stop s" and "chunks \<noteq> []"
  shows "fold (client_step wr) (map StdinBytes chunks) s = stdin_read wr (concat chunks) s"
  using assms
proof (induction chunks arbitrary: s)
  case (Cons c cs)
  let ?s = "process_chars wr c s"
  have stopped: "fold (client_step wr) (map StdinBytes ks) t = t" if "\<not> cc_stdin t" for ks t
    using that by (induction ks) (auto simp: client_step_def)
  have step: "client_step wr (StdinBytes b) t = stdin_read wr b t" if "cc_stdin t" for b t
    using that by (simp add: client_step_def)
  show ?case
  proof (cases "cc_stop ?s")
    case True
    then show ?thesis
      using Cons.prems stopped [of "leave_stdin ?s"]
      by (simp add: step stdin_read_def process_chars_append Let_def leave_stdin_def)
  next
    case False
    then show ?thesis
      using Cons.prems Cons.IH [of ?s]
      by (cases "cs = []") (simp_all add: step stdin_read_def process_chars_append Let_def)
  qed
qed simp

text \<open>
  A line the processor passes on unchanged: it is not empty, and neither a lone tilde nor the
  escape sequence comes first.
\<close>

definition line_ok :: "string \<Rightarrow> bool" where
  "line_ok l \<longleftrightarrow> l \<noteq> [] \<and> list_all (\<lambda>c. \<not> is_newline c) l \<and> l \<noteq> ''~'' \<and> \<not> prefix ''~.'' l"

abbreviation line_sent :: "string \<Rightarrow> ConsoleClient \<Rightarrow> ConsoleClient" where
  "line_sent l s \<equiv> s\<lparr>cc_input := \<lparr>ip_state = AfterNewline, ip_buffer = []\<rparr>, cc_writes := Suc (cc_writes s),
     cc_wire := cc_wire s @ l\<rparr>"

lemma process_text:
  assumes "list_all (\<lambda>c. \<not> is_newline c) xs" and "ip_state (cc_input s) = Normal"
    and "full_writes wr" and "is_newline nl"
  shows "process_chars wr (xs @ nl # cs) s = process_chars wr cs (line_sent (ip_buffer (cc_input s) @ xs @ [nl]) s)"
  using assms
proof (induction xs arbitrary: s)
  case Nil
  then show ?case by (cases "cc_input s") (simp add: ip_process_def Let_def full_writes_def clearBuffer_def)
next
  case (Cons x xs)
  then show ?case by (simp add: ip_process_def Let_def)
qed

lemma process_line:
  assumes "line_ok l" and "cc_input s = \<lparr>ip_state = AfterNewline, ip_buffer = []\<rparr>"
    and "full_writes wr" and "is_newline nl"
  shows "process_chars wr (l @ nl # cs) s = process_chars wr cs (line_sent (l @ [nl]) s)"
proof -
  obtain x l' where l: "l = x # l'" using assms(1) by (cases l) (auto simp: line_ok_def)
  show ?thesis
  proof (cases "x = CHR ''~''")
    case True
    then obtain y l'' where l': "l' = y # l''" "y \<noteq> CHR ''.''" "\<not> is_newline y"
      using assms(1) l by (cases l') (auto simp: line_ok_def)
    then show ?thesis
      using True l assms process_text [of l'' "s\<lparr>cc_input := \<lparr>ip_state = Normal, ip_buffer = [CHR ''~'', y]\<rparr>\<rparr>" wr nl cs]
      by (simp add: ip_process_def line_ok_def)
  next
    case False
    then show ?thesis
      using l assms process_text [of l' "s\<lparr>cc_input := \<lparr>ip_state = Normal, ip_buffer = [x]\<rparr>\<rparr>" wr nl cs]
      by (simp add: ip_process_def line_ok_def)
  qed
qed

lemma process_lines:
  assumes "list_all line_ok ls" and "cc_input s = \<lparr>ip_state = AfterNewline, ip_buffer = []\<rparr>"
    and "full_writes wr" and "is_newline nl"
  shows "process_chars wr (concat (map (\<lambda>l. l @ [nl]) ls) @ cs) s
       = process_chars wr cs (s\<lparr>cc_writes := cc_writes s + length ls,
           cc_wire := cc_wire s @ concat (map (\<lambda>l. l @ [nl]) ls)\<rparr>)"
  using assms
proof (induction ls arbitrary: s)
  case (Cons l ls)
  then show ?case
    using process_line [of l s wr nl "concat (map (\<lambda>l. l @ [nl]) ls) @ cs"]
      Cons.IH [of "line_sent (l @ [nl]) s"] by (cases s) simp
qed simp

text \<open>
  (C21) However the input is cut into reads: a first line of any content, then lines each of which is not
  empty, not a lone tilde and does not begin with tilde and dot, then tilde and dot. If every write to the
  socket takes all it is given, each line goes out in a write of its own when its newline is typed, and the tilde and dot
  after a completed line disconnect: neither they nor anything after them is sent, the coroutine ends and the socket is
  closed. The hypotheses are needed: after an empty line the escape is not recognised
  (\<open>blank_line_blocks_escape\<close>), on the first line it is not looked for, and a short write loses
  the rest of the line (\<open>short_write_loses_input\<close>).
\<close>

theorem console_lines_then_escape:
  assumes "full_writes wr" and "is_newline nl" and "list_all (\<lambda>c. \<not> is_newline c) l" and "list_all line_ok ls"
    and "concat chunks = l @ nl # concat (map (\<lambda>l. l @ [nl]) ls) @ ''~.'' @ rest"
  shows "let s = client_run wr (map StdinBytes chunks)
         in cc_wire s = l @ nl # concat (map (\<lambda>l. l @ [nl]) ls) \<and> cc_writes s = Suc (length ls)
            \<and> \<not> cc_stdin s \<and> \<not> cc_open s"
proof -
  let ?s = "line_sent (l @ [nl]) ConsoleClient_new"
  have "chunks \<noteq> []" using assms(5) by auto
  then have run: "client_run wr (map StdinBytes chunks) = stdin_read wr (concat chunks) ConsoleClient_new"
    using client_run_chunks [of ConsoleClient_new chunks wr] by (simp add: client_run_def ConsoleClient_new_def)
  have "process_chars wr (concat chunks) ConsoleClient_new
      = process_chars wr (''~.'' @ rest) (?s\<lparr>cc_writes := Suc (length ls),
          cc_wire := l @ nl # concat (map (\<lambda>l. l @ [nl]) ls)\<rparr>)"
    using process_text [OF assms(3) _ assms(1,2), of ConsoleClient_new "concat (map (\<lambda>l. l @ [nl]) ls) @ ''~.'' @ rest"]
      process_lines [OF assms(4) _ assms(1,2), of ?s "''~.'' @ rest"] assms(5)
    by (simp add: ConsoleClient_new_def InputProcessor_new_def)
  then show ?thesis
    unfolding run by (simp add: stdin_read_def ip_process_def Let_def leave_stdin_def ConsoleClient_new_def)
qed

theorem console_lines_then_escape_witness:
  "cc_wire (client_run (\<lambda>k b. Inr (length b)) (map StdinBytes [''ls'', ''\<newline>~x'', ''\<newline>~'', ''.more'']))
     = ''ls\<newline>~x\<newline>''"
  using console_lines_then_escape [of "\<lambda>k b. Inr (length b)" "CHR 0x0A" "''ls''" "[''~x'']"
      "[''ls'', ''\<newline>~x'', ''\<newline>~'', ''.more'']" "''more''"]
  by (simp add: full_writes_def is_newline_def line_ok_def Let_def)

text \<open>
  An empty line is where the client goes wrong: its newline is kept back, and the escape sequence
  typed after it is taken for text, so that Enter, Enter, tilde, dot does not disconnect.
\<close>

theorem blank_line_blocks_escape:
  "let s = client_run (\<lambda>k b. Inr (length b)) [StdinBytes ''ls\<newline>\<newline>~.'']
   in cc_wire s = ''ls\<newline>'' \<and> held (cc_input s) = ''\<newline>~.'' \<and> cc_stdin s \<and> \<not> cc_stop s"
  by code_simp

text \<open>A short write loses the rest of the line: the number of bytes the socket took is not looked at.\<close>

theorem short_write_loses_input:
  "let s = client_run (\<lambda>k b. Inr 1) [StdinBytes ''ls\<newline>'']
   in cc_wire s = ''l'' \<and> held (cc_input s) = [] \<and> cc_stdin s"
  by code_simp

text \<open>
  A console that is silent for 30 seconds is disconnected: the read of the socket is made with the
  time-out, its expiry cancels the read, and every error, also this one, stops the client.
\<close>

theorem silent_console_disconnects:
  "cc_stop (client_step wr (SocketError Operation_aborted) (client_run wr es))
   \<or> \<not> cc_socket (client_run wr es)"
  by (simp add: client_step_def leave_socket_def)

end
