(* ===== verification/ConsoleConfig.thy ===== *)
theory ConsoleConfig
  imports Prelude "HOL-Library.Multiset"
begin

text \<open>
  The configuration of the console server, \<open>examples/obmc_console/console_config.hpp\<close>: the file
  is read line by line into global values and sections, and every section \<open>console.<name>\<close> becomes a
  device. The order in which \<open>std::unordered_map\<close> visits the sections is not specified by the language: it
  is a parameter. The exceptions of \<open>std::stoi\<close> are values.
\<close>

section \<open>Numbers and strings of the library\<close>

datatype number_exn = Invalid_number | Number_out_of_range

definition base_digit :: "nat \<Rightarrow> char \<Rightarrow> bool" where
  "base_digit b c \<longleftrightarrow> is_digit c \<and> of_char c - 48 < b"

definition base_value :: "nat \<Rightarrow> string \<Rightarrow> nat" where
  "base_value b ds = foldl (\<lambda>n c. n * b + (of_char c - 48)) 0 ds"

text \<open>\<open>std::stoi(s, nullptr, b)\<close> for the bases 8 and 10: characters after the digits are ignored.\<close>

definition stoi_base :: "nat \<Rightarrow> string \<Rightarrow> number_exn + int" where
  "stoi_base b s =
     (let s = dropWhile is_blank s;
          neg = (s \<noteq> [] \<and> hd s = CHR ''-'');
          s = (if s \<noteq> [] \<and> (hd s = CHR ''-'' \<or> hd s = CHR ''+'') then tl s else s);
          ds = takeWhile (base_digit b) s;
          v = (if neg then - int (base_value b ds) else int (base_value b ds))
      in if ds = [] then Inl Invalid_number
         else if - (2 ^ 31) \<le> v \<and> v < 2 ^ 31 then Inr v else Inl Number_out_of_range)"

text \<open>\<open>s.erase(0, s.find_first_not_of(" \t"))\<close> and \<open>s.erase(s.find_last_not_of(" \t") + 1)\<close>.\<close>

definition trimmed_char :: "char \<Rightarrow> bool" where
  "trimmed_char c \<longleftrightarrow> c = CHR '' '' \<or> c = CHR 0x09"

definition trim :: "string \<Rightarrow> string" where
  "trim s = rev (dropWhile trimmed_char (rev (dropWhile trimmed_char s)))"

text \<open>The strings \<open>std::getline(in, s, d)\<close> reads until the end: an empty rest is not a line.\<close>

definition getlines :: "char \<Rightarrow> string \<Rightarrow> string list" where
  "getlines d s = (let ps = pieces d s in if last ps = [] then butlast ps else ps)"

text \<open>The words \<open>in >> s\<close> reads until the end.\<close>

function words_of :: "string \<Rightarrow> string list" where
  "words_of [] = []"
| "words_of (c # cs) =
     (if is_blank c then words_of cs
      else (c # takeWhile (\<lambda>x. \<not> is_blank x) cs) # words_of (dropWhile (\<lambda>x. \<not> is_blank x) cs))"
  by pat_completeness auto

termination
  by (relation "measure length") (auto simp: le_imp_less_Suc length_dropWhile_le)

section \<open>The configuration\<close>

record BaseDeviceConfig =
  bd_name :: string
  bd_device :: string
  bd_socketPath :: string
  bd_baudRate :: int
  bd_socketMode :: "32 word"
  bd_socketGroup :: string

definition BaseDeviceConfig_default :: BaseDeviceConfig where
  "BaseDeviceConfig_default =
     \<lparr>bd_name = [], bd_device = [], bd_socketPath = [], bd_baudRate = 115200, bd_socketMode = 0x1B6, bd_socketGroup = []\<rparr>"

record ConsoleVuartConfig =
  lpcAddress :: string
  sirq :: int

record ConsolePtyConfig =
  shellPath :: string
  shellArgs :: "string list"

record ConsoleSshPtyConfig =
  remoteHost :: string
  remoteUser :: string
  remotePassword :: string
  sshKeyPath :: string
  remotePort :: int
  remoteShell :: string
  connectTimeout :: int

datatype DeviceSpecificConfig =
    UartConfig
  | VuartConfig ConsoleVuartConfig
  | PtyConfig ConsolePtyConfig
  | IbmiEmulatorConfig
  | SshPtyConfig ConsoleSshPtyConfig

record MuxConfig =
  mux_enabled :: bool
  mux_index :: int
  mux_gpios :: "string list"

record DeviceConfig =
  dc_base :: BaseDeviceConfig
  dc_specific :: DeviceSpecificConfig
  dc_mux :: MuxConfig

fun deviceTypeString :: "DeviceSpecificConfig \<Rightarrow> string" where
  "deviceTypeString UartConfig = ''UART''"
| "deviceTypeString (VuartConfig v) = ''VUART''"
| "deviceTypeString (PtyConfig p) = ''PTY''"
| "deviceTypeString IbmiEmulatorConfig = ''IBMI_EMULATOR''"
| "deviceTypeString (SshPtyConfig s) = ''SSH_PTY''"

record ConsoleConfig =
  cfg_logsize :: string
  cfg_logfile :: string
  cfg_devices :: "DeviceConfig list"

definition ConsoleConfig_default :: ConsoleConfig where
  "ConsoleConfig_default =
     \<lparr>cfg_logsize = ''256k'', cfg_logfile = ''/var/log/obmc-console.log'', cfg_devices = []\<rparr>"

definition defaultDevice :: string where "defaultDevice = ''/dev/ttyS0''"
definition defaultSocketPath :: string where "defaultSocketPath = ''/tmp/obmc-console.sock''"
definition defaultBaudRate :: int where "defaultBaudRate = 115200"

text \<open>
  \<open>getLogsizeBytes\<close>: \<open>iss >> value >> unit\<close> reads an unsigned 64-bit number, negated (modulo
  2 to the 64) after a minus sign; when that fails the value is 0 or the largest number and the unit is not read.
\<close>

definition read_size :: "string \<Rightarrow> (64 word \<times> string) + 64 word" where
  "read_size s =
     (let s = dropWhile is_blank s;
          neg = (s \<noteq> [] \<and> hd s = CHR ''-'');
          s = (if s \<noteq> [] \<and> (hd s = CHR ''-'' \<or> hd s = CHR ''+'') then tl s else s);
          ds = takeWhile is_digit s; n = digits_value ds
      in if ds = [] then Inr 0
         else if 2 ^ 64 \<le> n then Inr (- 1)
         else Inl (if neg then - of_nat n else of_nat n, dropWhile is_digit s))"

definition getLogsizeBytes :: "ConsoleConfig \<Rightarrow> 64 word" where
  "getLogsizeBytes cfg =
     (case read_size (cfg_logsize cfg) of
        Inr v \<Rightarrow> v
      | Inl (v, rest) \<Rightarrow>
          (case dropWhile is_blank rest of
             [] \<Rightarrow> v
           | u # _ \<Rightarrow>
               if u = CHR ''k'' \<or> u = CHR ''K'' then v * 1024
               else if u = CHR ''m'' \<or> u = CHR ''M'' then v * 1024 * 1024
               else if u = CHR ''g'' \<or> u = CHR ''G'' then v * 1024 * 1024 * 1024
               else v))"

definition getDevice :: "ConsoleConfig \<Rightarrow> string \<Rightarrow> DeviceConfig option" where
  "getDevice cfg name = List.find (\<lambda>d. bd_name (dc_base d) = name) (cfg_devices cfg)"

section \<open>Devices from values\<close>

type_synonym config_values = "string \<rightharpoonup> string"

definition value_or :: "config_values \<Rightarrow> string \<Rightarrow> string \<Rightarrow> string" where
  "value_or vs k d = (case vs k of Some v \<Rightarrow> v | None \<Rightarrow> d)"

definition int_or :: "nat \<Rightarrow> config_values \<Rightarrow> string \<Rightarrow> int \<Rightarrow> number_exn + int" where
  "int_or b vs k d = (case vs k of Some v \<Rightarrow> stoi_base b v | None \<Rightarrow> Inr d)"

definition createSpecificConfig :: "string \<Rightarrow> config_values \<Rightarrow> number_exn + DeviceSpecificConfig" where
  "createSpecificConfig typeStr vs =
     (if typeStr \<in> {''vuart'', ''VUART''} then
        ebind (int_or 10 vs ''sirq'' 4) (\<lambda>q.
        Inr (VuartConfig \<lparr>lpcAddress = value_or vs ''lpc-address'' ''0x3f8'', sirq = q\<rparr>))
      else if typeStr \<in> {''pty'', ''PTY''} then
        Inr (PtyConfig \<lparr>shellPath = value_or vs ''shell-path'' ''/bin/sh'',
                        shellArgs = (case vs ''shell-args'' of Some a \<Rightarrow> words_of a | None \<Rightarrow> [])\<rparr>)
      else if typeStr \<in> {''ibmi-emulator'', ''IBMI-EMULATOR''} then Inr IbmiEmulatorConfig
      else if typeStr \<in> {''ssh-pty'', ''SSH-PTY'', ''SSH_PTY''} then
        ebind (int_or 10 vs ''remote-port'' 22) (\<lambda>port.
        ebind (int_or 10 vs ''connect-timeout'' 30) (\<lambda>to.
        Inr (SshPtyConfig
               \<lparr>remoteHost = value_or vs ''remote-host'' [], remoteUser = value_or vs ''remote-user'' [],
                remotePassword = value_or vs ''remote-password'' [], sshKeyPath = value_or vs ''ssh-key-path'' [],
                remotePort = port, remoteShell = value_or vs ''remote-shell'' ''/bin/bash'', connectTimeout = to\<rparr>)))
      else Inr UartConfig)"

definition createMuxConfig :: "config_values \<Rightarrow> number_exn + MuxConfig" where
  "createMuxConfig vs =
     ebind (int_or 10 vs ''mux-index'' 0) (\<lambda>i.
     Inr \<lparr>mux_enabled = (vs ''mux-index'' \<noteq> None \<or> vs ''mux-gpios'' \<noteq> None), mux_index = i,
          mux_gpios = (case vs ''mux-gpios'' of Some g \<Rightarrow> map trim (getlines CHR '','' g) | None \<Rightarrow> [])\<rparr>)"

text \<open>
  The device of a file without sections, and of a section. The rates and modes are parsed before the
  rest; the mode is an octal number stored in an unsigned \<open>mode_t\<close>.
\<close>

definition make_device :: "string \<Rightarrow> string \<Rightarrow> string \<Rightarrow> int \<Rightarrow> config_values \<Rightarrow> number_exn + DeviceConfig" where
  "make_device name device path baud vs =
     ebind (int_or 10 vs ''local-tty-baud'' baud) (\<lambda>rate.
     ebind (int_or 8 vs ''socket-mode'' (uint (bd_socketMode BaseDeviceConfig_default))) (\<lambda>mode.
     ebind (createSpecificConfig (value_or vs ''device-type'' ''uart'') vs) (\<lambda>spec.
     ebind (createMuxConfig vs) (\<lambda>mux.
     Inr \<lparr>dc_base = \<lparr>bd_name = name, bd_device = value_or vs ''device'' device,
                      bd_socketPath = value_or vs ''socket-path'' path, bd_baudRate = rate,
                      bd_socketMode = of_int mode, bd_socketGroup = value_or vs ''socket-group'' []\<rparr>,
          dc_specific = spec, dc_mux = mux\<rparr>))))"

definition simple_device :: "config_values \<Rightarrow> number_exn + DeviceConfig" where
  "simple_device vs = make_device ''default'' defaultDevice defaultSocketPath defaultBaudRate vs"

definition section_device :: "string \<Rightarrow> config_values \<Rightarrow> number_exn + DeviceConfig" where
  "section_device sectionName vs =
     (let name = drop 8 sectionName
      in make_device name [] (''/tmp/obmc-console-'' @ name @ ''.sock'') (bd_baudRate BaseDeviceConfig_default) vs)"

section \<open>Reading the file\<close>

type_synonym config_sections = "(string \<times> config_values) list"

record config_parse =
  cp_global :: config_values
  cp_sections :: config_sections
  cp_current :: string

definition config_parse_new :: config_parse where
  "config_parse_new = \<lparr>cp_global = (\<lambda>k. None), cp_sections = [], cp_current = []\<rparr>"

text \<open>\<open>sections[s][k] = v\<close>\<close>

fun section_put :: "string \<Rightarrow> string \<Rightarrow> string \<Rightarrow> config_sections \<Rightarrow> config_sections" where
  "section_put s k v [] = [(s, (\<lambda>x. None)(k \<mapsto> v))]"
| "section_put s k v ((s', vs) # secs) =
     (if s = s' then (s', vs(k \<mapsto> v)) # secs else (s', vs) # section_put s k v secs)"

definition parse_line :: "string \<Rightarrow> config_parse \<Rightarrow> config_parse" where
  "parse_line line p =
     (if line = [] \<or> hd line = CHR ''#'' then p
      else if hd line = CHR ''['' \<and> last line = CHR '']'' then p\<lparr>cp_current := butlast (tl line)\<rparr>
      else if CHR ''='' \<notin> set line then p
      else
        let key = trim (takeWhile (\<lambda>c. c \<noteq> CHR ''='') line);
            v = trim (tl (dropWhile (\<lambda>c. c \<noteq> CHR ''='') line))
        in if cp_current p = [] then p\<lparr>cp_global := (cp_global p)(key \<mapsto> v)\<rparr>
           else p\<lparr>cp_sections := section_put (cp_current p) key v (cp_sections p)\<rparr>)"

definition parse_config :: "string \<Rightarrow> config_parse" where
  "parse_config text = fold parse_line (getlines CHR 0x0A text) config_parse_new"

definition is_console_section :: "string \<Rightarrow> bool" where
  "is_console_section s \<longleftrightarrow> take 8 s = ''console.''"

definition load_devices :: "(config_sections \<Rightarrow> config_sections) \<Rightarrow> config_parse \<Rightarrow> number_exn + DeviceConfig list" where
  "load_devices order p =
     (if cp_sections p = [] then ebind (simple_device (cp_global p)) (\<lambda>d. Inr [d])
      else emap (\<lambda>(s, vs). section_device s vs) (filter (\<lambda>(s, vs). is_console_section s) (order (cp_sections p))))"

definition loadFromFile ::
  "(config_sections \<Rightarrow> config_sections) \<Rightarrow> string option \<Rightarrow> number_exn + ConsoleConfig option" where
  "loadFromFile order file =
     (case file of
        None \<Rightarrow> Inr None
      | Some text \<Rightarrow>
          let p = parse_config text in
          ebind (load_devices order p) (\<lambda>ds.
          Inr (Some \<lparr>cfg_logsize = value_or (cp_global p) ''logsize'' (cfg_logsize ConsoleConfig_default),
                     cfg_logfile = value_or (cp_global p) ''logfile'' (cfg_logfile ConsoleConfig_default),
                     cfg_devices = ds\<rparr>)))"

section \<open>Any file\<close>

lemma keys_section_put: "fst ` set (section_put s k v secs) = insert s (fst ` set secs)"
  by (induction s k v secs rule: section_put.induct) auto

lemma distinct_section_put:
  "distinct (map fst secs) \<Longrightarrow> distinct (map fst (section_put s k v secs))"
proof (induction s k v secs rule: section_put.induct)
  case (2 s k v s' vs secs)
  then show ?case using keys_section_put [of s k v secs] by (auto simp: image_iff)
qed simp

lemma distinct_sections: "distinct (map fst (cp_sections (parse_config content)))"
proof -
  have "distinct (map fst (cp_sections (fold parse_line ls p)))" if "distinct (map fst (cp_sections p))" for ls p
    using that by (induction ls arbitrary: p) (auto simp: parse_line_def Let_def distinct_section_put)
  then show ?thesis by (simp add: parse_config_def config_parse_new_def)
qed

lemma section_device_name:
  "section_device s vs = Inr d \<Longrightarrow> bd_name (dc_base d) = drop 8 s"
  by (auto simp: section_device_def make_device_def Let_def ebind_eq_Inr)

lemma console_section_name:
  "is_console_section s \<Longrightarrow> drop 8 s = n \<longleftrightarrow> s = ''console.'' @ n"
  unfolding is_console_section_def by (metis append_take_drop_id append_eq_conv_conj length_Cons list.size(3) numeral_eq_Suc
      pred_numeral_simps)

text \<open>A device list read from sections with distinct names: a search finds the device of its own section.\<close>

lemma find_section_device:
  assumes "emap (\<lambda>(s, vs). section_device s vs) secs = Inr ds" and "distinct (map fst secs)"
    and "\<forall>x\<in>set secs. is_console_section (fst x)"
  shows "List.find (\<lambda>d. bd_name (dc_base d) = n) ds
       = (case map_of secs (''console.'' @ n) of
            None \<Rightarrow> None | Some vs \<Rightarrow> Some (projr (section_device (''console.'' @ n) vs)))"
  using assms
proof (induction secs arbitrary: ds)
  case (Cons x secs)
  obtain s vs where x: "x = (s, vs)" by (cases x)
  from Cons.prems(1) x obtain d ds' where ds: "section_device s vs = Inr d" "ds = d # ds'"
    "emap (\<lambda>(s, vs). section_device s vs) secs = Inr ds'" by (auto simp: ebind_eq_Inr)
  have "bd_name (dc_base d) = n \<longleftrightarrow> s = ''console.'' @ n"
    using section_device_name [OF ds(1)] console_section_name [of s n] Cons.prems(3) x by simp
  with Cons x ds show ?case by auto
qed simp

text \<open>
  (C20) What a configuration file with sections configures, whatever order the hash table visits them in: when
  the file loads, looking up a name gives the device built from the values of the section of that
  name, and none else; and it loads exactly when the numbers of all its console sections parse.
\<close>

theorem config_devices_by_name:
  assumes "\<And>secs. mset (order secs) = mset secs" and "cp_sections (parse_config content) \<noteq> []"
  shows "(\<forall>cfg. loadFromFile order (Some content) = Inr (Some cfg) \<longrightarrow>
            getDevice cfg n =
              (case map_of (cp_sections (parse_config content)) (''console.'' @ n) of
                 None \<Rightarrow> None | Some vs \<Rightarrow> Some (projr (section_device (''console.'' @ n) vs))))
       \<and> ((\<exists>cfg. loadFromFile order (Some content) = Inr (Some cfg)) \<longleftrightarrow>
            (\<forall>(s, vs)\<in>set (cp_sections (parse_config content)).
               is_console_section s \<longrightarrow> (\<exists>d. section_device s vs = Inr d)))"
proof -
  let ?secs = "cp_sections (parse_config content)"
  let ?f = "\<lambda>(s, vs). is_console_section s"
  let ?cs = "filter ?f (order ?secs)"
  have set: "set (order ?secs) = set ?secs" using assms(1) mset_eq_setD by blast
  have "mset (map fst (order ?secs)) = mset (map fst ?secs)" using assms(1) by simp
  then have dist: "distinct (map fst (order ?secs))"
    using distinct_sections [of content] mset_eq_imp_distinct_iff by blast
  then have dist': "distinct (map fst ?cs)" by (rule distinct_map_filter)
  have "map_of (order ?secs) = map_of ?secs"
    using dist distinct_sections [of content] set by (metis map_of_inject_set)
  moreover have "map_of (filter ?f xs) (''console.'' @ n) = map_of xs (''console.'' @ n)" for xs :: config_sections
    by (induction xs) (auto simp: is_console_section_def)
  ultimately have look: "map_of ?cs (''console.'' @ n) = map_of ?secs (''console.'' @ n)" by simp
  have load: "load_devices order (parse_config content) = emap (\<lambda>(s, vs). section_device s vs) ?cs"
    using assms(2) by (simp add: load_devices_def)
  show ?thesis
  proof (intro conjI allI impI)
    fix cfg assume "loadFromFile order (Some content) = Inr (Some cfg)"
    then have "emap (\<lambda>(s, vs). section_device s vs) ?cs = Inr (cfg_devices cfg)"
      by (auto simp: loadFromFile_def Let_def ebind_eq_Inr load)
    from find_section_device [OF this dist', of n] show "getDevice cfg n =
        (case map_of ?secs (''console.'' @ n) of
           None \<Rightarrow> None | Some vs \<Rightarrow> Some (projr (section_device (''console.'' @ n) vs)))"
      unfolding getDevice_def look by auto
  next
    show "(\<exists>cfg. loadFromFile order (Some content) = Inr (Some cfg)) \<longleftrightarrow>
        (\<forall>(s, vs)\<in>set ?secs. is_console_section s \<longrightarrow> (\<exists>d. section_device s vs = Inr d))"
      by (simp add: loadFromFile_def Let_def ebind_eq_Inr load emap_succeeds set case_prod_beta)
        (auto simp: set)
  qed
qed

definition demo_config :: string where
  "demo_config = ''[console.host]\<newline>device = /dev/ttyS0\<newline>socket-mode = 0660\<newline>''"

theorem config_devices_by_name_witness:
  "\<exists>cfg. loadFromFile (\<lambda>secs. secs) (Some demo_config) = Inr (Some cfg)
     \<and> map_option (\<lambda>d. bd_device (dc_base d)) (getDevice cfg ''host'') = Some ''/dev/ttyS0''"
proof -
  let ?p = "parse_config demo_config"
  have ne: "cp_sections ?p \<noteq> []" by code_simp
  have dev: "list_all (\<lambda>(s, vs). is_console_section s \<longrightarrow> \<not> isl (section_device s vs)) (cp_sections ?p)" by code_simp
  have host: "map_option (\<lambda>vs. bd_device (dc_base (projr (section_device ''console.host'' vs)))) (map_of (cp_sections ?p) ''console.host'')
      = Some ''/dev/ttyS0''" by code_simp
  note spec = config_devices_by_name [of "\<lambda>secs. secs", OF refl ne, of "''host''"]
  have isl: "\<not> isl r \<Longrightarrow> \<exists>d. r = Inr d" for r :: "number_exn + DeviceConfig" by (cases r) auto
  have "\<forall>(s, vs)\<in>set (cp_sections ?p). is_console_section s \<longrightarrow> (\<exists>d. section_device s vs = Inr d)"
    using dev isl by (fastforce simp: list_all_iff)
  with spec obtain cfg where cfg: "loadFromFile (\<lambda>secs. secs) (Some demo_config) = Inr (Some cfg)" by blast
  with spec host show ?thesis
    by (cases "map_of (cp_sections ?p) ''console.host''") auto
qed

section \<open>Writing a file and reading it back\<close>

definition render_entry :: "string \<times> string \<Rightarrow> string" where
  "render_entry kv = fst kv @ '' = '' @ snd kv"

definition render_lines :: "(string \<times> string) list \<Rightarrow> (string \<times> (string \<times> string) list) list \<Rightarrow> string list" where
  "render_lines gs secs =
     map render_entry gs @ concat (map (\<lambda>(n, kvs). (CHR ''['' # n @ [CHR '']'']) # map render_entry kvs) secs)"

definition render_config :: "(string \<times> string) list \<Rightarrow> (string \<times> (string \<times> string) list) list \<Rightarrow> string" where
  "render_config gs secs = concat (map (\<lambda>l. l @ [CHR 0x0A]) (render_lines gs secs))"

definition plain :: "string \<Rightarrow> bool" where
  "plain s \<longleftrightarrow> CHR 0x0A \<notin> set s \<and> (s \<noteq> [] \<longrightarrow> \<not> trimmed_char (hd s) \<and> \<not> trimmed_char (last s))"

definition entry_ok :: "string \<times> string \<Rightarrow> bool" where
  "entry_ok kv \<longleftrightarrow> plain (fst kv) \<and> plain (snd kv) \<and> fst kv \<noteq> [] \<and> CHR ''='' \<notin> set (fst kv)
     \<and> hd (fst kv) \<noteq> CHR ''#'' \<and> hd (fst kv) \<noteq> CHR ''[''"

definition section_ok :: "string \<times> (string \<times> string) list \<Rightarrow> bool" where
  "section_ok sec \<longleftrightarrow> fst sec \<noteq> [] \<and> CHR 0x0A \<notin> set (fst sec) \<and> list_all entry_ok (snd sec)"

lemma getlines_concat:
  "\<forall>l\<in>set ls. d \<notin> set l \<Longrightarrow> getlines d (concat (map (\<lambda>l. l @ [d]) ls)) = ls"
proof -
  assume ls: "\<forall>l\<in>set ls. d \<notin> set l"
  then have "pieces d (concat (map (\<lambda>l. l @ [d]) ls)) = ls @ [[]]"
    by (induction ls) (auto simp: pieces_first)
  then show ?thesis by (simp add: getlines_def)
qed

lemma trim_plain:
  assumes "plain s" and "list_all trimmed_char a" and "list_all trimmed_char b"
  shows "trim (a @ s @ b) = s"
proof (cases "s = []")
  case True
  have "\<forall>x\<in>set (a @ b). trimmed_char x" using assms by (auto simp: list_all_iff)
  then have "dropWhile trimmed_char (a @ s @ b) = []" using True by (simp only: dropWhile_eq_Nil_conv append_Nil)
  then show ?thesis using True unfolding trim_def by (simp only: rev.simps dropWhile.simps)
next
  case False
  obtain x s' where x: "s = x # s'" "\<not> trimmed_char x" using False assms(1) by (cases s) (auto simp: plain_def)
  obtain y s'' where y: "rev s = y # s''" "\<not> trimmed_char y"
    using False assms(1) by (cases s rule: rev_cases) (auto simp: plain_def)
  have "dropWhile trimmed_char (a @ s @ b) = s @ b"
    using assms(2) x dropWhile_append_stop [of a trimmed_char x "s' @ b"] by (simp add: list_all_iff)
  moreover have "dropWhile trimmed_char (rev b @ rev s) = rev s"
    using assms(3) y dropWhile_append_stop [of "rev b" trimmed_char y s''] by (simp add: list_all_iff)
  ultimately show ?thesis by (simp add: trim_def)
qed

lemma parse_entry:
  assumes "entry_ok (k, v)"
  shows "parse_line (render_entry (k, v)) p =
     (if cp_current p = [] then p\<lparr>cp_global := (cp_global p)(k \<mapsto> v)\<rparr>
      else p\<lparr>cp_sections := section_put (cp_current p) k v (cp_sections p)\<rparr>)"
proof -
  have ok: "plain k" "plain v" "k \<noteq> []" "CHR ''='' \<notin> set k" "hd k \<noteq> CHR ''#''" "hd k \<noteq> CHR ''[''"
    using assms by (auto simp: entry_ok_def)
  have cut: "render_entry (k, v) = (k @ '' '') @ CHR ''='' # ('' '' @ v)" by (simp add: render_entry_def)
  have eq: "\<forall>c\<in>set (k @ '' ''). c \<noteq> CHR ''=''" using ok(4) by auto
  have "takeWhile (\<lambda>c. c \<noteq> CHR ''='') (render_entry (k, v)) = k @ '' ''"
    and "tl (dropWhile (\<lambda>c. c \<noteq> CHR ''='') (render_entry (k, v))) = '' '' @ v"
    unfolding cut using takeWhile_append_stop [OF eq] dropWhile_append_stop [OF eq] by simp_all
  moreover have "trim (k @ '' '') = k" "trim ('' '' @ v) = v"
    using trim_plain [OF ok(1), of "[]" "'' ''"] trim_plain [OF ok(2), of "'' ''" "[]"] by (simp_all add: trimmed_char_def)
  moreover have "render_entry (k, v) \<noteq> []" "hd (render_entry (k, v)) = hd k" "CHR ''='' \<in> set (render_entry (k, v))"
    using ok(3) by (simp_all add: render_entry_def)
  ultimately show ?thesis using ok by (simp add: parse_line_def Let_def)
qed

lemma parse_header:
  "n \<noteq> [] \<Longrightarrow> parse_line (CHR ''['' # n @ [CHR '']'']) p = p\<lparr>cp_current := n\<rparr>"
  by (simp add: parse_line_def)

lemma parse_globals:
  assumes "list_all entry_ok kvs" and "cp_current p = []"
  shows "fold parse_line (map render_entry kvs) p = p\<lparr>cp_global := cp_global p ++ map_of (rev kvs)\<rparr>"
  using assms
proof (induction kvs arbitrary: p)
  case (Cons kv kvs)
  obtain k v where kv: "kv = (k, v)" by (cases kv)
  then show ?case using Cons parse_entry [of k v p] by (simp add: map_add_upd_left map_add_assoc)
qed simp

lemma section_put_append:
  "n \<notin> fst ` set xs \<Longrightarrow> section_put n k v (xs @ ys) = xs @ section_put n k v ys"
  by (induction xs) auto

lemma parse_section_entries:
  assumes "list_all entry_ok kvs" and "cp_current p = n" and "n \<noteq> []" and "n \<notin> fst ` set xs"
    and "cp_sections p = xs @ [(n, m)]"
  shows "fold parse_line (map render_entry kvs) p = p\<lparr>cp_sections := xs @ [(n, m ++ map_of (rev kvs))]\<rparr>"
  using assms
proof (induction kvs arbitrary: p m)
  case (Cons kv kvs)
  obtain k v where kv: "kv = (k, v)" by (cases kv)
  then show ?case
    using Cons parse_entry [of k v p] section_put_append [OF Cons.prems(4), of k v "[(n, m)]"]
    by (simp add: map_add_assoc)
qed simp

definition rendered_sections :: "(string \<times> (string \<times> string) list) list \<Rightarrow> config_sections" where
  "rendered_sections secs = map (\<lambda>(n, kvs). (n, map_of (rev kvs))) (filter (\<lambda>(n, kvs). kvs \<noteq> []) secs)"

lemma parse_section:
  assumes "section_ok (n, kvs)" and "n \<notin> fst ` set (cp_sections p)"
  shows "fold parse_line ((CHR ''['' # n @ [CHR '']'']) # map render_entry kvs) p
       = p\<lparr>cp_current := n, cp_sections := cp_sections p @ rendered_sections [(n, kvs)]\<rparr>"
proof (cases kvs)
  case Nil
  then show ?thesis using assms by (simp add: section_ok_def parse_header rendered_sections_def)
next
  case (Cons kv kvs')
  obtain k v where kv: "kv = (k, v)" by (cases kv)
  let ?p = "p\<lparr>cp_current := n, cp_sections := cp_sections p @ [(n, [k \<mapsto> v])]\<rparr>"
  have ok: "n \<noteq> []" "entry_ok (k, v)" "list_all entry_ok kvs'" using assms(1) Cons kv by (auto simp: section_ok_def)
  have "fold parse_line (map render_entry kvs') ?p
      = ?p\<lparr>cp_sections := cp_sections p @ [(n, [k \<mapsto> v] ++ map_of (rev kvs'))]\<rparr>"
    using parse_section_entries [of kvs' ?p n "cp_sections p" "[k \<mapsto> v]"] ok assms(2) by simp
  then show ?thesis
    using Cons kv ok parse_header [OF ok(1), of p] parse_entry [OF ok(2), of "p\<lparr>cp_current := n\<rparr>"]
      section_put_append [OF assms(2), of k v "[]"]
    by (simp add: rendered_sections_def)
qed

lemma parse_sections:
  assumes "list_all section_ok secs" and "distinct (map fst secs)"
    and "fst ` set secs \<inter> fst ` set (cp_sections p) = {}"
  shows "\<exists>cur. fold parse_line (concat (map (\<lambda>(n, kvs). (CHR ''['' # n @ [CHR '']'']) # map render_entry kvs) secs)) p
       = p\<lparr>cp_current := cur, cp_sections := cp_sections p @ rendered_sections secs\<rparr>"
  using assms
proof (induction secs arbitrary: p)
  case Nil
  then show ?case by (auto simp: rendered_sections_def intro: exI [of _ "cp_current p"])
next
  case (Cons sec secs)
  obtain n kvs where sec: "sec = (n, kvs)" by (cases sec)
  let ?p = "p\<lparr>cp_current := n, cp_sections := cp_sections p @ rendered_sections [(n, kvs)]\<rparr>"
  have one: "fold parse_line ((CHR ''['' # n @ [CHR '']'']) # map render_entry kvs) p = ?p"
    using Cons.prems sec by (intro parse_section) auto
  have "fst ` set secs \<inter> fst ` set (cp_sections ?p) = {}"
    using Cons.prems sec by (auto simp: rendered_sections_def)
  with Cons.IH [of ?p] Cons.prems obtain cur where
    "fold parse_line (concat (map (\<lambda>(n, kvs). (CHR ''['' # n @ [CHR '']'']) # map render_entry kvs) secs)) ?p
      = ?p\<lparr>cp_current := cur, cp_sections := cp_sections ?p @ rendered_sections secs\<rparr>" by auto
  then show ?case using one sec by (auto simp: rendered_sections_def)
qed

text \<open>
  A file that lists global values and then sections is read back as written: each section with the
  last value given for each of its keys, and sections without any value not at all.
\<close>

theorem config_text_roundtrip:
  assumes "list_all entry_ok gs" and "list_all section_ok secs" and "distinct (map fst secs)"
  shows "cp_global (parse_config (render_config gs secs)) = map_of (rev gs)
       \<and> cp_sections (parse_config (render_config gs secs)) = rendered_sections secs"
proof -
  have entry: "CHR 0x0A \<notin> set (render_entry kv)" if "entry_ok kv" for kv
    using that by (auto simp: entry_ok_def plain_def render_entry_def)
  have "\<forall>l\<in>set (render_lines gs secs). CHR 0x0A \<notin> set l"
    using assms(1,2) entry by (fastforce simp: render_lines_def list_all_iff section_ok_def)
  then have "getlines CHR 0x0A (render_config gs secs) = render_lines gs secs"
    unfolding render_config_def by (rule getlines_concat)
  moreover have "fold parse_line (map render_entry gs) config_parse_new = config_parse_new\<lparr>cp_global := map_of (rev gs)\<rparr>"
    using parse_globals [OF assms(1), of config_parse_new] by (simp add: config_parse_new_def map_add_def)
  moreover obtain cur where "fold parse_line (concat (map (\<lambda>(n, kvs). (CHR ''['' # n @ [CHR '']'']) # map render_entry kvs) secs))
        (config_parse_new\<lparr>cp_global := map_of (rev gs)\<rparr>)
      = (config_parse_new\<lparr>cp_global := map_of (rev gs)\<rparr>)\<lparr>cp_current := cur, cp_sections := rendered_sections secs\<rparr>"
    using parse_sections [OF assms(2,3), of "config_parse_new\<lparr>cp_global := map_of (rev gs)\<rparr>"]
    by (auto simp: config_parse_new_def)
  ultimately show ?thesis by (simp add: parse_config_def render_lines_def)
qed

theorem config_text_roundtrip_witness:
  "map fst (cp_sections (parse_config (render_config [(''logsize'', ''1m'')] [(''console.host'', [(''device'', ''/dev/ttyS0'')])])))
     = [''console.host'']"
  using config_text_roundtrip [of "[(''logsize'', ''1m'')]" "[(''console.host'', [(''device'', ''/dev/ttyS0'')])]"]
  by (simp add: entry_ok_def section_ok_def plain_def trimmed_char_def rendered_sections_def)

section \<open>Numbers in the file\<close>

text \<open>
  Characters that are no digits of the base end a number silently: a mode with the digit 8 is cut to the digits before it,
  so that a socket meant to be accessible is not; while a value without leading digits stops the server with an exception.
\<close>

theorem socket_mode_cut_short:
  "stoi_base 8 ''0680'' = Inr 6 \<and> stoi_base 8 ''0660'' = Inr 0x1B0 \<and> stoi_base 10 ''9600 8N1'' = Inr 9600
   \<and> stoi_base 10 ''auto'' = Inl Invalid_number \<and> stoi_base 10 ''4294967296'' = Inl Number_out_of_range"
  by (simp add: stoi_base_def base_value_def base_digit_def is_digit_def is_blank_def Let_def)

text \<open>The log size wraps around at 64 bits.\<close>

theorem logsize_wraps:
  "getLogsizeBytes (ConsoleConfig_default\<lparr>cfg_logsize := ''17179869184g''\<rparr>) = 0
   \<and> getLogsizeBytes ConsoleConfig_default = 262144"
  by (simp add: getLogsizeBytes_def read_size_def ConsoleConfig_default_def digits_value_def is_digit_def is_blank_def Let_def)

end
