(* ===== verification/ConsoleServer.thy ===== *)
theory ConsoleServer
  imports ConsoleConfig Ibmi
begin

text \<open>
  The console server, \<open>examples/obmc_console/console_server_multi.cpp\<close>, with the connection and the baud
  rate of \<open>console_dbus.hpp\<close>: the router that connects the clients of one console with its
  device, the device loop, and the list of consoles. The coroutines run on one thread; a step is the
  code between two suspension points of one of them. \<open>ringBuffer_.insert\<close> belongs to Boost and is a parameter. The stop token
  the router is given is taken to be that of the instance's stop source.
\<close>

section \<open>The router of a console\<close>

text \<open>Where a client's handler is: writing the history, reading, or returned.\<close>

datatype handler_phase = SendingHistory | Reading | Ended

datatype device_kind = DevUart | DevPty | DevSsh

text \<open>
  \<open>rt_clients\<close> is \<open>clients_\<close> (by client id), \<open>rt_open\<close> are the clients whose socket is open; a device pointer
  is \<open>None\<close> when null and otherwise tells whether the device is open. Four fields record what
  happened: \<open>rt_out\<close> is everything the device has put out, \<open>rt_joined\<close> how much that was when a client connected,
  \<open>rt_handed\<close> the buffers handed to the clients' writers, \<open>rt_forwarded\<close> those handed to the device.
\<close>

record ConsoleRouter =
  rt_clients :: "nat list"
  rt_open :: "nat list"
  rt_fdsToClose :: "int list"
  rt_fdsClosed :: "int list"
  rt_ring :: "byte list"
  rt_uart :: "bool option"
  rt_pty :: "bool option"
  rt_sshPty :: "bool option"
  rt_ibmi :: "IbmiEmulator option"
  rt_stop :: bool
  rt_nextId :: nat
  rt_handlers :: "nat \<Rightarrow> handler_phase option"
  rt_started :: bool
  rt_device :: bool
  rt_out :: "byte list"
  rt_joined :: "nat \<Rightarrow> nat"
  rt_handed :: "(nat \<times> byte list) list"
  rt_forwarded :: "(device_kind \<times> byte list) list"

definition ConsoleRouter_new :: ConsoleRouter where
  "ConsoleRouter_new =
     \<lparr>rt_clients = [], rt_open = [], rt_fdsToClose = [], rt_fdsClosed = [], rt_ring = [], rt_uart = None, rt_pty = None,
      rt_sshPty = None, rt_ibmi = None, rt_stop = False, rt_nextId = 1, rt_handlers = (\<lambda>c. None), rt_started = False,
      rt_device = False, rt_out = [], rt_joined = (\<lambda>c. 0), rt_handed = [], rt_forwarded = []\<rparr>"

definition removeClient :: "nat \<Rightarrow> ConsoleRouter \<Rightarrow> ConsoleRouter" where
  "removeClient c s = s\<lparr>rt_clients := filter (\<lambda>d. d \<noteq> c) (rt_clients s)\<rparr>"

definition removeClosedClients :: "ConsoleRouter \<Rightarrow> ConsoleRouter" where
  "removeClosedClients s =
     s\<lparr>rt_clients := filter (\<lambda>c. c \<in> set (rt_open s)) (rt_clients s),
       rt_fdsClosed := rt_fdsClosed s @ filter (\<lambda>fd. 0 \<le> fd) (rt_fdsToClose s), rt_fdsToClose := []\<rparr>"

definition broadcastToAll :: "byte list \<Rightarrow> ConsoleRouter \<Rightarrow> ConsoleRouter" where
  "broadcastToAll data s =
     (let s' = removeClosedClients s
      in s'\<lparr>rt_handed := rt_handed s' @ map (\<lambda>c. (c, data)) (rt_clients s')\<rparr>)"

definition disconnectAllClients :: "ConsoleRouter \<Rightarrow> ConsoleRouter" where
  "disconnectAllClients s =
     s\<lparr>rt_open := filter (\<lambda>c. c \<notin> set (rt_clients s)) (rt_open s), rt_clients := []\<rparr>"

text \<open>\<open>ringBuffer_.insert(ringBuffer_.end(), \<dots>)\<close> followed by the broadcast.\<close>

type_synonym ring_insert = "byte list \<Rightarrow> byte list \<Rightarrow> byte list"

definition device_output :: "ring_insert \<Rightarrow> byte list \<Rightarrow> ConsoleRouter \<Rightarrow> ConsoleRouter" where
  "device_output ins data s =
     broadcastToAll data (s\<lparr>rt_ring := ins (rt_ring s) data, rt_out := rt_out s @ data\<rparr>)"

definition shouldTerminateConnection :: "errc \<Rightarrow> bool \<Rightarrow> bool" where
  "shouldTerminateConnection ec is_open = (if ec = Operation_aborted then \<not> is_open else True)"

text \<open>
  The handler leaves its loop: the client is removed, and with the handler's stream its socket is
  closed. \<open>read_on\<close> is the loop condition.
\<close>

definition end_handler :: "nat \<Rightarrow> ConsoleRouter \<Rightarrow> ConsoleRouter" where
  "end_handler c s =
     (removeClient c s)\<lparr>rt_open := filter (\<lambda>d. d \<noteq> c) (rt_open s), rt_handlers := (rt_handlers s)(c \<mapsto> Ended)\<rparr>"

definition read_on :: "nat \<Rightarrow> ConsoleRouter \<Rightarrow> ConsoleRouter" where
  "read_on c s = (if rt_stop s then end_handler c s else s\<lparr>rt_handlers := (rt_handlers s)(c \<mapsto> Reading)\<rparr>)"

text \<open>A connection, of a socket or (with the descriptor to be closed later) of D-Bus.\<close>

definition client_connect :: "int option \<Rightarrow> ConsoleRouter \<Rightarrow> ConsoleRouter" where
  "client_connect fd s =
     (let c = rt_nextId s;
          s = s\<lparr>rt_nextId := Suc c, rt_clients := rt_clients s @ [c], rt_open := rt_open s @ [c],
                rt_joined := (rt_joined s)(c := length (rt_out s)),
                rt_fdsToClose := rt_fdsToClose s @ (case fd of Some n \<Rightarrow> if 0 \<le> n then [n] else [] | None \<Rightarrow> [])\<rparr>
      in if rt_ring s \<noteq> []
         then s\<lparr>rt_handed := rt_handed s @ [(c, rt_ring s)], rt_handlers := (rt_handlers s)(c \<mapsto> SendingHistory)\<rparr>
         else read_on c s)"

text \<open>
  What the handler does with bytes from its client: they go to the first device that is open; the
  emulator answers at once, to all clients, and a closed session disconnects them. \<open>None\<close> is an
  exception of the emulator.
\<close>

definition forward_input :: "ring_insert \<Rightarrow> byte list \<Rightarrow> ConsoleRouter \<Rightarrow> ConsoleRouter option" where
  "forward_input ins data s =
     (if rt_uart s = Some True then Some (s\<lparr>rt_forwarded := rt_forwarded s @ [(DevUart, data)]\<rparr>)
      else if rt_pty s = Some True then Some (s\<lparr>rt_forwarded := rt_forwarded s @ [(DevPty, data)]\<rparr>)
      else if rt_sshPty s = Some True then Some (s\<lparr>rt_forwarded := rt_forwarded s @ [(DevSsh, data)]\<rparr>)
      else
        (case rt_ibmi s of
           None \<Rightarrow> Some s
         | Some e \<Rightarrow>
             (case em_process data e of
                None \<Rightarrow> None
              | Some (e', out) \<Rightarrow>
                  let s' = device_output ins out (s\<lparr>rt_ibmi := Some e'\<rparr>)
                  in Some (if em_closed e' then disconnectAllClients s' else s'))))"

definition client_read :: "ring_insert \<Rightarrow> nat \<Rightarrow> errc + byte list \<Rightarrow> ConsoleRouter \<Rightarrow> ConsoleRouter option" where
  "client_read ins c r s =
     (case r of
        Inl ec \<Rightarrow> Some (if shouldTerminateConnection ec (c \<in> set (rt_open s)) then end_handler c s else read_on c s)
      | Inr data \<Rightarrow>
          if data = [] then Some (end_handler c s)
          else map_option (read_on c) (forward_input ins data s))"

section \<open>The device\<close>

text \<open>
  The \<open>init\<dots>Device\<close> functions: the device is created and opened (with the given outcome), and its
  read loop starts; the emulator puts out its first display.
\<close>

definition initUartDevice :: "bool \<Rightarrow> ConsoleRouter \<Rightarrow> ConsoleRouter" where
  "initUartDevice opened s = s\<lparr>rt_uart := Some opened, rt_device := opened \<and> \<not> rt_stop s\<rparr>"

definition initPtyDevice :: "bool \<Rightarrow> ConsoleRouter \<Rightarrow> ConsoleRouter" where
  "initPtyDevice opened s = s\<lparr>rt_pty := Some opened, rt_device := opened \<and> \<not> rt_stop s\<rparr>"

definition initSshPtyDevice :: "bool \<Rightarrow> ConsoleRouter \<Rightarrow> ConsoleRouter" where
  "initSshPtyDevice opened s = s\<lparr>rt_sshPty := Some opened, rt_device := opened \<and> \<not> rt_stop s\<rparr>"

definition initIbmiEmulatorDevice :: "ring_insert \<Rightarrow> ConsoleRouter \<Rightarrow> ConsoleRouter" where
  "initIbmiEmulatorDevice ins s =
     device_output ins (initialDisplay IbmiEmulator_init) (s\<lparr>rt_ibmi := Some IbmiEmulator_init\<rparr>)"

definition handleDevice :: "ring_insert \<Rightarrow> bool \<Rightarrow> DeviceSpecificConfig \<Rightarrow> ConsoleRouter \<Rightarrow> ConsoleRouter" where
  "handleDevice ins opened cfg s =
     (case cfg of
        UartConfig \<Rightarrow> initUartDevice opened s
      | VuartConfig v \<Rightarrow> initUartDevice opened s
      | PtyConfig p \<Rightarrow> initPtyDevice opened s
      | IbmiEmulatorConfig \<Rightarrow> initIbmiEmulatorDevice ins s
      | SshPtyConfig p \<Rightarrow> initSshPtyDevice opened s)"

text \<open>One read of \<open>deviceReadLoop\<close>.\<close>

definition device_read :: "ring_insert \<Rightarrow> errc + byte list \<Rightarrow> ConsoleRouter \<Rightarrow> ConsoleRouter" where
  "device_read ins r s =
     (case r of
        Inl ec \<Rightarrow> (disconnectAllClients (s\<lparr>rt_stop := True\<rparr>))\<lparr>rt_device := False\<rparr>
      | Inr data \<Rightarrow>
          let s' = (if data \<noteq> [] then device_output ins data s else s)
          in s'\<lparr>rt_device := \<not> rt_stop s'\<rparr>)"

definition requestStop :: "ConsoleRouter \<Rightarrow> ConsoleRouter" where
  "requestStop s = s\<lparr>rt_stop := True\<rparr>"

definition stop_instance :: "ConsoleRouter \<Rightarrow> ConsoleRouter" where
  "stop_instance s =
     s\<lparr>rt_stop := True, rt_uart := map_option (\<lambda>b. False) (rt_uart s), rt_pty := map_option (\<lambda>b. False) (rt_pty s),
       rt_sshPty := map_option (\<lambda>b. False) (rt_sshPty s)\<rparr>"

section \<open>The baud rate\<close>

text \<open>The \<open>speed_t\<close> constants the program uses.\<close>

datatype speed = B0 | B9600 | B19200 | B38400 | B57600 | B115200 | B230400

definition parseBaudRate :: "int \<Rightarrow> speed" where
  "parseBaudRate baud =
     (if baud = 9600 then B9600 else if baud = 19200 then B19200 else if baud = 38400 then B38400
      else if baud = 57600 then B57600 else if baud = 115200 then B115200 else if baud = 230400 then B230400
      else B115200)"

fun baudRateToInt :: "speed \<Rightarrow> int" where
  "baudRateToInt B9600 = 9600"
| "baudRateToInt B19200 = 19200"
| "baudRateToInt B38400 = 38400"
| "baudRateToInt B57600 = 57600"
| "baudRateToInt B115200 = 115200"
| "baudRateToInt B230400 = 230400"
| "baudRateToInt B0 = 115200"

definition intToBaud :: "int \<Rightarrow> speed" where
  "intToBaud v =
     (if v = 9600 then B9600 else if v = 19200 then B19200 else if v = 38400 then B38400
      else if v = 57600 then B57600 else if v = 115200 then B115200 else if v = 230400 then B230400
      else B0)"

text \<open>
  The property of the D-Bus interface: reading it asks the configuration; writing it closes and reopens an open
  UART, with the given outcome, and the configuration is left alone.
\<close>

definition handleGetBaud :: "DeviceConfig \<Rightarrow> int" where
  "handleGetBaud cfg = baudRateToInt (parseBaudRate (bd_baudRate (dc_base cfg)))"

definition setBaud :: "bool \<Rightarrow> ConsoleRouter \<Rightarrow> ConsoleRouter" where
  "setBaud reopened s = (if rt_uart s = Some True then s\<lparr>rt_uart := Some reopened\<rparr> else s)"

definition handleSetBaud :: "int \<Rightarrow> bool \<Rightarrow> ConsoleRouter \<Rightarrow> ConsoleRouter \<times> bool" where
  "handleSetBaud v reopened s = (if intToBaud v = B0 then (s, False) else (setBaud reopened s, True))"

section \<open>Everything that can happen on a console\<close>

datatype console_event =
    StartDevice bool
  | Connect "int option"
  | HistoryWritten nat
  | ClientRead nat "errc + byte list"
  | DeviceRead "errc + byte list"
  | RequestStop
  | StopInstance
  | SetBaud int bool

definition console_step :: "ring_insert \<Rightarrow> DeviceSpecificConfig \<Rightarrow> console_event \<Rightarrow> ConsoleRouter \<Rightarrow> ConsoleRouter option" where
  "console_step ins cfg e s =
     (case e of
        StartDevice opened \<Rightarrow>
          if rt_started s then None else Some (handleDevice ins opened cfg (s\<lparr>rt_started := True\<rparr>))
      | Connect fd \<Rightarrow> Some (client_connect fd s)
      | HistoryWritten c \<Rightarrow> if rt_handlers s c = Some SendingHistory then Some (read_on c s) else None
      | ClientRead c r \<Rightarrow> if rt_handlers s c = Some Reading then client_read ins c r s else None
      | DeviceRead r \<Rightarrow> if rt_device s then Some (device_read ins r s) else None
      | RequestStop \<Rightarrow> Some (requestStop s)
      | StopInstance \<Rightarrow> Some (stop_instance s)
      | SetBaud value reopened \<Rightarrow> Some (fst (handleSetBaud value reopened s)))"

inductive console_run :: "ring_insert \<Rightarrow> DeviceSpecificConfig \<Rightarrow> console_event list \<Rightarrow> ConsoleRouter \<Rightarrow> bool"
  for ins cfg where
  start: "console_run ins cfg [] ConsoleRouter_new"
| step: "console_run ins cfg es s \<Longrightarrow> console_step ins cfg e s = Some s' \<Longrightarrow> console_run ins cfg (es @ [e]) s'"

section \<open>The consoles of the server\<close>

text \<open>
  \<open>MultiConsoleServer\<close>: one instance per configured device, removed by name when its coroutine has
  ended.
\<close>

record MultiConsoleServer =
  ms_config :: ConsoleConfig
  ms_instances :: "(DeviceConfig \<times> ConsoleRouter) list"

definition start_server :: "MultiConsoleServer \<Rightarrow> MultiConsoleServer" where
  "start_server sv = sv\<lparr>ms_instances := ms_instances sv @ map (\<lambda>d. (d, ConsoleRouter_new)) (cfg_devices (ms_config sv))\<rparr>"

fun erase_first :: "('a \<Rightarrow> bool) \<Rightarrow> 'a list \<Rightarrow> 'a list" where
  "erase_first P [] = []"
| "erase_first P (x # xs) = (if P x then xs else x # erase_first P xs)"

definition removeInstance :: "string \<Rightarrow> MultiConsoleServer \<Rightarrow> MultiConsoleServer" where
  "removeInstance name sv =
     sv\<lparr>ms_instances := erase_first (\<lambda>i. bd_name (dc_base (fst i)) = name) (ms_instances sv)\<rparr>"

definition requestStopAll :: "MultiConsoleServer \<Rightarrow> MultiConsoleServer" where
  "requestStopAll sv = sv\<lparr>ms_instances := map (\<lambda>(d, r). (d, requestStop r)) (ms_instances sv)\<rparr>"

definition stop_server :: "MultiConsoleServer \<Rightarrow> MultiConsoleServer" where
  "stop_server sv = sv\<lparr>ms_instances := []\<rparr>"

section \<open>What a client sees\<close>

text \<open>The documented effect of inserting at the end of a circular buffer: the oldest elements make room.\<close>

definition ring_ok :: "nat \<Rightarrow> ring_insert \<Rightarrow> bool" where
  "ring_ok cap ins \<longleftrightarrow>
     (\<forall>ring xs. length ring \<le> cap \<longrightarrow> ins ring xs = drop (length ring + length xs - cap) (ring @ xs))"

definition data_for :: "nat \<Rightarrow> ConsoleRouter \<Rightarrow> byte list" where
  "data_for c s = concat (map snd (filter (\<lambda>x. fst x = c) (rt_handed s)))"

definition console_inv :: "nat \<Rightarrow> ConsoleRouter \<Rightarrow> bool" where
  "console_inv cap s \<longleftrightarrow>
     rt_ring s = drop (length (rt_out s) - cap) (rt_out s)
     \<and> distinct (rt_clients s) \<and> set (rt_open s) = set (rt_clients s)
     \<and> (\<forall>c\<in>set (rt_clients s) \<union> fst ` set (rt_handed s) \<union> dom (rt_handlers s). c < rt_nextId s)
     \<and> (\<forall>c\<in>set (rt_clients s). rt_joined s c \<le> length (rt_out s)
          \<and> data_for c s = drop (rt_joined s c - cap) (rt_out s)
          \<and> rt_handlers s c \<in> {Some SendingHistory, Some Reading})"

lemma ring_insert_last:
  assumes "ring_ok cap ins" and "ring = drop (length out - cap) out"
  shows "ins ring data = drop (length (out @ data) - cap) (out @ data)"
proof -
  have "length ring \<le> cap" using assms(2) by simp
  then show ?thesis using assms by (cases "length out \<le> cap") (auto simp: ring_ok_def add.commute)
qed

lemma data_for_broadcast:
  assumes "distinct cs"
  shows "concat (map snd (filter (\<lambda>x. fst x = c) (map (\<lambda>c. (c, data)) cs))) = (if c \<in> set cs then data else [])"
  using assms by (induction cs) auto

lemma inv_device_output:
  assumes "ring_ok cap ins" and "console_inv cap s"
  shows "console_inv cap (device_output ins data s)"
proof -
  have inv: "rt_ring s = drop (length (rt_out s) - cap) (rt_out s)" "distinct (rt_clients s)"
    "set (rt_open s) = set (rt_clients s)"
    using assms(2) by (auto simp: console_inv_def)
  have clients: "filter (\<lambda>c. c \<in> set (rt_open s)) (rt_clients s) = rt_clients s" using inv(3) by (simp add: filter_id_conv)
  show ?thesis
    using assms(2) ring_insert_last [OF assms(1) inv(1), of data] data_for_broadcast [OF inv(2), of _ data] clients
    by (auto simp: console_inv_def device_output_def broadcastToAll_def removeClosedClients_def Let_def data_for_def)
qed

lemma inv_disconnect:
  assumes "console_inv cap s"
  shows "console_inv cap (disconnectAllClients s)"
  using assms by (auto simp: console_inv_def disconnectAllClients_def)

lemma inv_end_handler:
  assumes "console_inv cap s" and "rt_handlers s c \<noteq> None"
  shows "console_inv cap (end_handler c s)"
  using assms by (auto simp: console_inv_def end_handler_def removeClient_def data_for_def)

lemma inv_read_on:
  assumes "console_inv cap s" and "rt_handlers s c \<noteq> None"
  shows "console_inv cap (read_on c s)"
  using assms inv_end_handler [OF assms] by (auto simp: console_inv_def read_on_def data_for_def)

lemma inv_connect:
  assumes "console_inv cap s"
  shows "console_inv cap (client_connect fd s)"
proof -
  let ?c = "rt_nextId s"
  have old: "d < ?c" if "d \<in> set (rt_clients s) \<union> fst ` set (rt_handed s) \<union> dom (rt_handlers s)" for d
    using assms that by (simp add: console_inv_def)
  have new: "?c \<notin> set (rt_clients s)" using old by blast
  have none: "filter (\<lambda>x. fst x = ?c) (rt_handed s) = []"
    using old by (fastforce simp: filter_empty_conv)
  have less: "d < Suc ?c" if "d \<in> set (rt_clients s) \<union> fst ` set (rt_handed s) \<union> dom (rt_handlers s)" for d
    using old [OF that] by simp
  show ?thesis
  proof (cases "rt_ring s = []")
    case True
    then show ?thesis
      using assms new none less old
      by (auto simp: console_inv_def client_connect_def Let_def read_on_def end_handler_def removeClient_def data_for_def)
  next
    case False
    then show ?thesis
      using assms new none less
      by (auto simp: console_inv_def client_connect_def Let_def data_for_def)
  qed
qed

lemma handlers_output [simp]: "rt_handlers (device_output ins data s) = rt_handlers s"
  "rt_handlers (disconnectAllClients s) = rt_handlers s" "rt_stop (device_output ins data s) = rt_stop s"
  "rt_stop (disconnectAllClients s) = rt_stop s" "rt_ibmi (device_output ins data s) = rt_ibmi s"
  "rt_ibmi (disconnectAllClients s) = rt_ibmi s"
  by (simp_all add: device_output_def broadcastToAll_def removeClosedClients_def disconnectAllClients_def Let_def)

lemma inv_fields [simp]:
  "console_inv cap (s\<lparr>rt_ibmi := e\<rparr>) = console_inv cap s" "console_inv cap (s\<lparr>rt_stop := b\<rparr>) = console_inv cap s"
  "console_inv cap (s\<lparr>rt_uart := u\<rparr>) = console_inv cap s" "console_inv cap (s\<lparr>rt_pty := u\<rparr>) = console_inv cap s"
  "console_inv cap (s\<lparr>rt_sshPty := u\<rparr>) = console_inv cap s" "console_inv cap (s\<lparr>rt_device := b\<rparr>) = console_inv cap s"
  "console_inv cap (s\<lparr>rt_started := b\<rparr>) = console_inv cap s"
  "console_inv cap (s\<lparr>rt_forwarded := fs\<rparr>) = console_inv cap s"
  by (simp_all add: console_inv_def data_for_def)

lemma inv_forward:
  assumes "ring_ok cap ins" and "console_inv cap s" and "forward_input ins data s = Some s'"
  shows "console_inv cap s' \<and> rt_handlers s' = rt_handlers s"
proof -
  have "console_inv cap (device_output ins out (s\<lparr>rt_ibmi := Some e\<rparr>))" for out e
    using inv_device_output [OF assms(1), of "s\<lparr>rt_ibmi := Some e\<rparr>" out] assms(2) by simp
  then show ?thesis
    using assms inv_disconnect
    by (auto simp: forward_input_def Let_def split: if_splits option.splits)
qed

lemma inv_client_read:
  assumes "ring_ok cap ins" and "console_inv cap s" and "rt_handlers s c \<noteq> None" and "client_read ins c r s = Some s'"
  shows "console_inv cap s'"
  using assms inv_end_handler [OF assms(2,3)] inv_read_on [OF assms(2,3)] inv_forward [OF assms(1,2)] inv_read_on
  by (auto simp: client_read_def split: sum.splits if_splits)

lemma inv_handleDevice:
  assumes "ring_ok cap ins" and "console_inv cap s"
  shows "console_inv cap (handleDevice ins opened cfg s)"
  using assms inv_device_output [OF assms(1), of "s\<lparr>rt_ibmi := Some IbmiEmulator_init\<rparr>"]
  by (simp add: handleDevice_def initUartDevice_def initPtyDevice_def initSshPtyDevice_def initIbmiEmulatorDevice_def
      split: DeviceSpecificConfig.splits)

lemma inv_device_read:
  assumes "ring_ok cap ins" and "console_inv cap s"
  shows "console_inv cap (device_read ins r s)"
  using assms inv_device_output [OF assms] inv_disconnect [of cap "s\<lparr>rt_stop := True\<rparr>"]
  by (simp add: device_read_def Let_def split: sum.splits)

lemma inv_console_step:
  assumes "ring_ok cap ins" and "console_inv cap s" and "console_step ins cfg e s = Some s'"
  shows "console_inv cap s'"
proof (cases e)
  case (ClientRead c r)
  with assms show ?thesis using inv_client_read [OF assms(1,2), of c r s'] by (simp add: console_step_def split: if_splits)
next
  case (StartDevice opened)
  with assms show ?thesis
    using inv_handleDevice [OF assms(1), of "s\<lparr>rt_started := True\<rparr>" opened cfg] by (auto simp: console_step_def split: if_splits)
next
  case (HistoryWritten c)
  with assms show ?thesis using inv_read_on [OF assms(2), of c] by (auto simp: console_step_def split: if_splits)
qed (use assms inv_connect [OF assms(2)] inv_device_read [OF assms(1,2)] in
  \<open>auto simp: console_step_def requestStop_def stop_instance_def handleSetBaud_def setBaud_def split: if_splits\<close>)

lemma console_run_inv: "console_run ins cfg es s \<Longrightarrow> ring_ok cap ins \<Longrightarrow> console_inv cap s"
proof (induction rule: console_run.induct)
  case start
  show ?case by (simp add: console_inv_def ConsoleRouter_new_def)
next
  case (step es s e s')
  then show ?case by (blast intro: inv_console_step)
qed

text \<open>
  (C19) Every client sees the console without a gap: whatever the order of connections, reads and
  output, what a connected client was handed is the output of the device from at most the size of the ring before it connected
  up to now, and the ring holds the latest output.
\<close>

theorem console_history_exact:
  assumes "console_run ins cfg es s" and "ring_ok cap ins" and "c \<in> set (rt_clients s)"
  shows "data_for c s = drop (rt_joined s c - cap) (rt_out s) \<and> rt_joined s c \<le> length (rt_out s)
       \<and> rt_ring s = drop (length (rt_out s) - cap) (rt_out s)"
  using console_run_inv [OF assms(1,2)] assms(3) by (simp add: console_inv_def)

definition ring4 :: ring_insert where
  "ring4 ring xs = drop (length ring + length xs - 4) (ring @ xs)"

fun console_exec :: "ring_insert \<Rightarrow> DeviceSpecificConfig \<Rightarrow> console_event list \<Rightarrow> ConsoleRouter \<Rightarrow> ConsoleRouter option" where
  "console_exec ins cfg [] s = Some s"
| "console_exec ins cfg (e # es) s = Option.bind (console_step ins cfg e s) (console_exec ins cfg es)"

lemma console_exec_run:
  assumes "console_run ins cfg es s" and "console_exec ins cfg es' s = Some s'"
  shows "console_run ins cfg (es @ es') s'"
  using assms
proof (induction es' arbitrary: es s)
  case (Cons e es')
  then obtain t where "console_step ins cfg e s = Some t" "console_exec ins cfg es' t = Some s'"
    by (auto simp: bind_eq_Some_conv)
  then show ?case using Cons.IH [of "es @ [e]" t] Cons.prems(1) console_run.step by fastforce
qed simp

lemmas console_exec_start = console_exec_run [OF console_run.start, unfolded append_Nil]

lemmas console_defs = console_step_def handleDevice_def initUartDevice_def initPtyDevice_def initSshPtyDevice_def
  initIbmiEmulatorDevice_def device_read_def device_output_def broadcastToAll_def removeClosedClients_def
  client_connect_def read_on_def client_read_def end_handler_def removeClient_def disconnectAllClients_def
  forward_input_def ConsoleRouter_new_def Let_def

theorem console_history_exact_witness:
  "\<exists>s. console_run ring4 UartConfig [StartDevice True, DeviceRead (Inr [1, 2, 3, 4, 5]), Connect None, DeviceRead (Inr [6])] s
     \<and> data_for 1 s = [2, 3, 4, 5, 6]"
proof -
  let ?es = "[StartDevice True, DeviceRead (Inr [1, 2, 3, 4, 5]), Connect None, DeviceRead (Inr [6])]"
  have "map_option (\<lambda>s. (rt_clients s, rt_joined s 1, rt_out s)) (console_exec ring4 UartConfig ?es ConsoleRouter_new)
      = Some ([1], 5, [1, 2, 3, 4, 5, 6])"
    by (simp add: console_defs ring4_def)
  then obtain s where s: "console_exec ring4 UartConfig ?es ConsoleRouter_new = Some s"
    and facts: "rt_clients s = [1]" "rt_joined s 1 = 5" "rt_out s = [1, 2, 3, 4, 5, 6]" by auto
  have "ring_ok 4 ring4" by (simp add: ring_ok_def ring4_def)
  with console_history_exact [OF console_exec_start [OF s], of 4 1] facts have "data_for 1 s = [2, 3, 4, 5, 6]" by simp
  with console_exec_start [OF s] show ?thesis by blast
qed

section \<open>The end of a console\<close>

lemma stop_ends_handler:
  assumes "rt_stop s" and "console_step ins cfg e s = Some s'" and "e = HistoryWritten c \<or> (\<exists>r. e = ClientRead c r)"
  shows "rt_handlers s' c = Some Ended"
proof -
  have ended: "rt_handlers (end_handler c t) c = Some Ended" "rt_stop t \<Longrightarrow> rt_handlers (read_on c t) c = Some Ended" for t
    by (simp_all add: end_handler_def read_on_def)
  have "rt_stop t = rt_stop s" if "forward_input ins data s = Some t" for data t
    using that by (auto simp: forward_input_def Let_def split: if_splits option.splits)
  then show ?thesis
    using assms ended by (auto simp: console_step_def client_read_def split: if_splits sum.splits)
qed

text \<open>
  When the device fails, every client is disconnected: the list is empty, no socket stays open and stop is requested; and
  from any such state on, whatever a handler still waits for, its next step is its last.
\<close>

theorem device_failure_disconnects:
  assumes "console_run ins cfg es s" and "ring_ok cap ins" and "console_step ins cfg (DeviceRead (Inl ec)) s = Some s'"
  shows "rt_clients s' = [] \<and> rt_open s' = [] \<and> rt_stop s' \<and> \<not> rt_device s'
       \<and> (\<forall>c r t. console_step ins cfg (HistoryWritten c) s' = Some t \<or> console_step ins cfg (ClientRead c r) s' = Some t
            \<longrightarrow> rt_handlers t c = Some Ended)"
proof -
  have "set (rt_open s) = set (rt_clients s)" using console_run_inv [OF assms(1,2)] by (simp add: console_inv_def)
  then have "rt_clients s' = [] \<and> rt_open s' = [] \<and> rt_stop s' \<and> \<not> rt_device s'"
    using assms(3) by (auto simp: console_step_def device_read_def disconnectAllClients_def filter_empty_conv split: if_splits)
  then show ?thesis using stop_ends_handler [of s' ins cfg] by blast
qed

theorem device_failure_disconnects_witness:
  "\<exists>s. console_run ring4 UartConfig [StartDevice True, Connect None, DeviceRead (Inl End_of_file)] s \<and> rt_clients s = []"
proof -
  let ?es = "[StartDevice True, Connect None]"
  have "\<exists>s s'. console_exec ring4 UartConfig ?es ConsoleRouter_new = Some s
      \<and> console_step ring4 UartConfig (DeviceRead (Inl End_of_file)) s = Some s'"
    by (simp add: console_defs)
  then obtain s s' where s: "console_exec ring4 UartConfig ?es ConsoleRouter_new = Some s"
    and s': "console_step ring4 UartConfig (DeviceRead (Inl End_of_file)) s = Some s'" by blast
  have "ring_ok 4 ring4" by (simp add: ring_ok_def ring4_def)
  from device_failure_disconnects [OF console_exec_start [OF s] this s'] have "rt_clients s' = []" by simp
  moreover have "console_run ring4 UartConfig (?es @ [DeviceRead (Inl End_of_file)]) s'"
    using console_run.step [OF console_exec_start [OF s] s'] .
  ultimately show ?thesis by auto
qed

section \<open>The emulator's session\<close>

lemma closed_forever:
  assumes "em_process data e = Some (e', out)" and "em_closed e"
  shows "em_closed e'"
  using assms by (auto simp: em_process_def dest: closed_frames split: prod.splits option.splits)

lemma only_emulator:
  "console_run ins cfg es s \<Longrightarrow> cfg = IbmiEmulatorConfig \<Longrightarrow> rt_uart s = None \<and> rt_pty s = None \<and> rt_sshPty s = None"
proof (induction rule: console_run.induct)
  case start
  show ?case by (simp add: ConsoleRouter_new_def)
next
  case (step es s e s')
  have out: "rt_uart (device_output ins data t) = rt_uart t \<and> rt_pty (device_output ins data t) = rt_pty t
      \<and> rt_sshPty (device_output ins data t) = rt_sshPty t" for data t
    by (simp add: device_output_def broadcastToAll_def removeClosedClients_def Let_def)
  show ?case
  proof (cases e)
    case (ClientRead c r)
    have "rt_uart t = None \<and> rt_pty t = None \<and> rt_sshPty t = None" if "forward_input ins data s = Some t" for data t
      using that step.IH step.prems out by (auto simp: forward_input_def disconnectAllClients_def Let_def split: option.splits if_splits)
    with step ClientRead show ?thesis
      by (auto simp: console_step_def client_read_def read_on_def end_handler_def removeClient_def split: if_splits sum.splits)
  qed (use step out in \<open>auto simp: console_step_def handleDevice_def initIbmiEmulatorDevice_def client_connect_def read_on_def
      end_handler_def removeClient_def device_read_def disconnectAllClients_def requestStop_def stop_instance_def
      handleSetBaud_def setBaud_def Let_def split: if_splits sum.splits\<close>)
qed

text \<open>
  Once the session of the emulator has ended, the console is dead: the emulator is never replaced, and
  whatever any client sends disconnects all clients again.
\<close>

theorem closed_session_is_final:
  assumes "console_run ins IbmiEmulatorConfig es s" and "rt_ibmi s = Some e" and "em_closed e"
    and "console_step ins IbmiEmulatorConfig (ClientRead c (Inr data)) s = Some s'" and "data \<noteq> []"
  shows "rt_clients s' = [] \<and> (\<exists>e'. rt_ibmi s' = Some e' \<and> em_closed e')"
proof -
  note none = only_emulator [OF assms(1) refl]
  from assms(4,5) obtain t where t: "forward_input ins data s = Some t" "s' = read_on c t"
    by (auto simp: console_step_def client_read_def split: if_splits)
  from t(1) assms(2) none obtain e' out where e': "em_process data e = Some (e', out)"
    and "t = (if em_closed e' then disconnectAllClients (device_output ins out (s\<lparr>rt_ibmi := Some e'\<rparr>))
      else device_output ins out (s\<lparr>rt_ibmi := Some e'\<rparr>))"
    by (auto simp: forward_input_def Let_def split: option.splits prod.splits)
  with closed_forever [OF e' assms(3)] have "rt_clients t = [] \<and> rt_ibmi t = Some e' \<and> em_closed e'"
    by (simp add: disconnectAllClients_def)
  with t(2) show ?thesis by (simp add: read_on_def end_handler_def removeClient_def)
qed

section \<open>Baud rates\<close>

text \<open>The rates D-Bus accepts are those of the configuration, and reading a rate back gives the number.\<close>

lemma baud_rates_agree:
  "intToBaud v \<noteq> B0 \<Longrightarrow> baudRateToInt (intToBaud v) = v \<and> parseBaudRate v = intToBaud v"
  by (simp add: intToBaud_def parseBaudRate_def split: if_splits)

section \<open>Which consoles run\<close>

lemma loaded_names_distinct:
  assumes "\<And>secs. mset (order secs) = mset secs" and "loadFromFile order (Some content) = Inr (Some cfg)"
  shows "distinct (map (\<lambda>d. bd_name (dc_base d)) (cfg_devices cfg))"
proof (cases "cp_sections (parse_config content) = []")
  case True
  then show ?thesis using assms(2) by (auto simp: loadFromFile_def Let_def ebind_eq_Inr load_devices_def)
next
  case False
  let ?cs = "filter (\<lambda>(s, vs). is_console_section s) (order (cp_sections (parse_config content)))"
  have "emap (\<lambda>(s, vs). section_device s vs) ?cs = Inr (cfg_devices cfg)"
    using assms(2) False by (auto simp: loadFromFile_def Let_def ebind_eq_Inr load_devices_def)
  then have "list_all2 (\<lambda>x d. section_device (fst x) (snd x) = Inr d) ?cs (cfg_devices cfg)"
    by (simp add: emap_Inr case_prod_beta)
  then have "map (\<lambda>d. bd_name (dc_base d)) (cfg_devices cfg) = map (\<lambda>x. drop 8 (fst x)) ?cs"
    by (induction rule: list_all2_induct) (simp_all add: section_device_name)
  moreover have "inj_on (drop 8) (fst ` set ?cs)"
    using console_section_name by (intro inj_onI) (auto, metis)
  moreover have "distinct (map fst (order (cp_sections (parse_config content))))"
    using distinct_sections [of content] assms(1) mset_eq_imp_distinct_iff mset_map by metis
  then have "distinct (map fst ?cs)" by (rule distinct_map_filter)
  ultimately show ?thesis by (simp add: distinct_map comp_inj_on_iff comp_def flip: map_map)
qed

lemma erase_first_distinct:
  assumes "distinct (map f xs)"
  shows "erase_first (\<lambda>x. f x = n) xs = filter (\<lambda>x. f x \<noteq> n) xs"
  using assms by (induction xs) (auto intro!: filter_True [symmetric] simp: image_iff)

text \<open>
  The consoles that run are those of the configuration: after any number of them has ended, the server keeps exactly the
  instances of the devices whose names have not, in the order of the configuration, because no two devices
  of a loaded file share a name.
\<close>

theorem instances_follow_config:
  assumes "\<And>secs. mset (order secs) = mset secs" and "loadFromFile order (Some content) = Inr (Some cfg)"
  shows "map fst (ms_instances (fold removeInstance ended (start_server \<lparr>ms_config = cfg, ms_instances = []\<rparr>)))
       = filter (\<lambda>d. bd_name (dc_base d) \<notin> set ended) (cfg_devices cfg)"
proof -
  have "map fst (ms_instances (fold removeInstance ended sv)) = filter (\<lambda>d. bd_name (dc_base d) \<notin> set ended) (map fst (ms_instances sv))"
    if "distinct (map (\<lambda>i. bd_name (dc_base (fst i))) (ms_instances sv))" for sv
    using that
  proof (induction ended arbitrary: sv)
    case (Cons n ended)
    have e: "ms_instances (removeInstance n sv) = filter (\<lambda>i. bd_name (dc_base (fst i)) \<noteq> n) (ms_instances sv)"
      using erase_first_distinct [OF Cons.prems] by (simp add: removeInstance_def)
    then have "distinct (map (\<lambda>i. bd_name (dc_base (fst i))) (ms_instances (removeInstance n sv)))"
      using distinct_map_filter [OF Cons.prems] by simp
    from Cons.IH [OF this] show ?case by (simp add: e filter_map comp_def conj_commute)
  qed simp
  moreover have "distinct (map (\<lambda>i. bd_name (dc_base (fst i))) (ms_instances (start_server \<lparr>ms_config = cfg, ms_instances = []\<rparr>)))"
    using loaded_names_distinct [OF assms] by (simp add: start_server_def comp_def)
  ultimately show ?thesis by (simp add: start_server_def comp_def)
qed

theorem instances_follow_config_witness:
  "\<exists>cfg. loadFromFile (\<lambda>secs. secs) (Some demo_config) = Inr (Some cfg)
     \<and> map fst (ms_instances (fold removeInstance [''bmc''] (start_server \<lparr>ms_config = cfg, ms_instances = []\<rparr>))) = cfg_devices cfg"
proof -
  have "case loadFromFile (\<lambda>secs. secs) (Some demo_config) of
      Inr (Some cfg) \<Rightarrow> list_all (\<lambda>d. bd_name (dc_base d) \<noteq> ''bmc'') (cfg_devices cfg) | _ \<Rightarrow> False" by code_simp
  then obtain cfg where cfg: "loadFromFile (\<lambda>secs. secs) (Some demo_config) = Inr (Some cfg)"
    and "list_all (\<lambda>d. bd_name (dc_base d) \<noteq> ''bmc'') (cfg_devices cfg)"
    by (auto split: sum.splits option.splits)
  then have "filter (\<lambda>d. bd_name (dc_base d) \<notin> set [''bmc'']) (cfg_devices cfg) = cfg_devices cfg"
    by (simp add: list_all_iff filter_id_conv)
  with instances_follow_config [OF refl cfg, of "[''bmc'']"] cfg show ?thesis by auto
qed

end
