(* ===== verification/SpdmMessages.thy ===== *)
theory SpdmMessages
  imports WhenAll
begin

text \<open>
  The vendor-defined SPDM messages of the certificate exchange
  (\<open>examples/spdm/include/spdm_custom_messages.hpp\<close>): the packed structures, their byte layout,
  and the functions that write and read them. A structure is copied byte by byte
  (\<open>memcpy\<close>), so the layout is that of the packed C++ structure on a little-endian machine.
  The reading functions throw \<open>std::runtime_error\<close>; here they return \<open>Inl\<close> of the exception.

  The locale \<open>pod_layout\<close> is what the templates \<open>serializePOD\<close> and \<open>deserializePOD\<close> rely on: a
  structure occupies a fixed number of bytes and can be copied out of them. It is interpreted
  for the six message structures.
\<close>

unbundle bit_operations_syntax

section \<open>Codes\<close>

definition SPDM_PUSH_CERTIFICATE :: byte where "SPDM_PUSH_CERTIFICATE = 0x7E"
definition SPDM_PULL_CERTIFICATE :: byte where "SPDM_PULL_CERTIFICATE = 0x7F"
definition SPDM_SET_PROVISIONED :: byte where "SPDM_SET_PROVISIONED = 0x7D"
definition SPDM_PUSH_CERTIFICATE_ACK :: byte where "SPDM_PUSH_CERTIFICATE_ACK = 0x7E"
definition SPDM_PULL_CERTIFICATE_ACK :: byte where "SPDM_PULL_CERTIFICATE_ACK = 0x7F"
definition SPDM_SET_PROVISIONED_ACK :: byte where "SPDM_SET_PROVISIONED_ACK = 0x7D"

definition CERT_EXCHANGE_SUCCESS :: byte where "CERT_EXCHANGE_SUCCESS = 0x00"
definition CERT_EXCHANGE_ERROR_INVALID_CERT :: byte where
  "CERT_EXCHANGE_ERROR_INVALID_CERT = 0x01"
definition CERT_EXCHANGE_ERROR_STORAGE_FULL :: byte where
  "CERT_EXCHANGE_ERROR_STORAGE_FULL = 0x02"
definition CERT_EXCHANGE_ERROR_NOT_FOUND :: byte where
  "CERT_EXCHANGE_ERROR_NOT_FOUND = 0x03"
definition CERT_EXCHANGE_ERROR_INVALID_REQUEST :: byte where
  "CERT_EXCHANGE_ERROR_INVALID_REQUEST = 0x04"

definition MAX_CERTIFICATE_SIZE :: nat where "MAX_CERTIFICATE_SIZE = 256 * 1024"

lemmas spdm_codes =
  SPDM_PUSH_CERTIFICATE_def SPDM_PULL_CERTIFICATE_def SPDM_SET_PROVISIONED_def
  SPDM_PUSH_CERTIFICATE_ACK_def SPDM_PULL_CERTIFICATE_ACK_def SPDM_SET_PROVISIONED_ACK_def

lemmas cert_statuses =
  CERT_EXCHANGE_SUCCESS_def CERT_EXCHANGE_ERROR_INVALID_CERT_def
  CERT_EXCHANGE_ERROR_STORAGE_FULL_def CERT_EXCHANGE_ERROR_NOT_FOUND_def
  CERT_EXCHANGE_ERROR_INVALID_REQUEST_def

section \<open>The message structures\<close>

text \<open>
  \<open>CertificateFormat\<close> is an enumeration with the underlying type \<open>uint8_t\<close>; a value that arrives
  on the wire is cast to it unchecked, so every byte is one of its values.
\<close>

type_synonym CertificateFormat = byte

abbreviation DER :: CertificateFormat where "DER \<equiv> 0"
abbreviation PEM :: CertificateFormat where "PEM \<equiv> 1"

type_synonym reserved3 = "byte \<times> byte \<times> byte"

record SpdmMessageHeader =
  spdm_version :: byte
  request_response_code :: byte
  param1 :: byte
  param2 :: byte

record SpdmPushCertificateRequest =
  push_req_header :: SpdmMessageHeader
  push_req_cert_size :: "32 word"
  push_req_cert_format :: byte
  push_req_reserved :: reserved3

record SpdmPushCertificateResponse =
  push_resp_header :: SpdmMessageHeader
  push_resp_status :: byte
  push_resp_reserved :: reserved3

record SpdmPullCertificateRequest =
  pull_req_header :: SpdmMessageHeader
  pull_req_cert_format :: byte
  pull_req_reserved :: reserved3

record SpdmPullCertificateResponse =
  pull_resp_header :: SpdmMessageHeader
  pull_resp_status :: byte
  pull_resp_cert_size :: "32 word"
  pull_resp_cert_format :: byte
  pull_resp_reserved :: "byte \<times> byte"

record SpdmSetProvisionedRequest =
  prov_req_header :: SpdmMessageHeader
  prov_req_provisioned :: byte
  prov_req_reserved :: reserved3

record SpdmSetProvisionedResponse =
  prov_resp_header :: SpdmMessageHeader
  prov_resp_status :: byte
  prov_resp_reserved :: reserved3

section \<open>Byte layout of the packed structures\<close>

text \<open>A \<open>uint32_t\<close> in memory, least significant byte first.\<close>

definition le32 :: "32 word \<Rightarrow> byte list" where
  "le32 w = [ucast w, ucast (drop_bit 8 w), ucast (drop_bit 16 w), ucast (drop_bit 24 w)]"

definition of_le32 :: "byte \<Rightarrow> byte \<Rightarrow> byte \<Rightarrow> byte \<Rightarrow> 32 word" where
  "of_le32 a b c d =
     ucast a OR push_bit 8 (ucast b) OR push_bit 16 (ucast c) OR push_bit 24 (ucast d)"

definition bytes_of_header :: "SpdmMessageHeader \<Rightarrow> byte list" where
  "bytes_of_header h = [spdm_version h, request_response_code h, param1 h, param2 h]"

definition header_of_bytes :: "byte list \<Rightarrow> SpdmMessageHeader" where
  "header_of_bytes b = \<lparr>spdm_version = b ! 0, request_response_code = b ! 1,
     param1 = b ! 2, param2 = b ! 3\<rparr>"

definition bytes_of_reserved3 :: "reserved3 \<Rightarrow> byte list" where
  "bytes_of_reserved3 r = (case r of (x, y, z) \<Rightarrow> [x, y, z])"

definition bytes_of_push_req :: "SpdmPushCertificateRequest \<Rightarrow> byte list" where
  "bytes_of_push_req r = bytes_of_header (push_req_header r) @ le32 (push_req_cert_size r)
     @ push_req_cert_format r # bytes_of_reserved3 (push_req_reserved r)"

definition push_req_of_bytes :: "byte list \<Rightarrow> SpdmPushCertificateRequest" where
  "push_req_of_bytes b = \<lparr>push_req_header = header_of_bytes b,
     push_req_cert_size = of_le32 (b ! 4) (b ! 5) (b ! 6) (b ! 7),
     push_req_cert_format = b ! 8, push_req_reserved = (b ! 9, b ! 10, b ! 11)\<rparr>"

definition bytes_of_push_resp :: "SpdmPushCertificateResponse \<Rightarrow> byte list" where
  "bytes_of_push_resp r = bytes_of_header (push_resp_header r)
     @ push_resp_status r # bytes_of_reserved3 (push_resp_reserved r)"

definition push_resp_of_bytes :: "byte list \<Rightarrow> SpdmPushCertificateResponse" where
  "push_resp_of_bytes b = \<lparr>push_resp_header = header_of_bytes b,
     push_resp_status = b ! 4, push_resp_reserved = (b ! 5, b ! 6, b ! 7)\<rparr>"

definition bytes_of_pull_req :: "SpdmPullCertificateRequest \<Rightarrow> byte list" where
  "bytes_of_pull_req r = bytes_of_header (pull_req_header r)
     @ pull_req_cert_format r # bytes_of_reserved3 (pull_req_reserved r)"

definition pull_req_of_bytes :: "byte list \<Rightarrow> SpdmPullCertificateRequest" where
  "pull_req_of_bytes b = \<lparr>pull_req_header = header_of_bytes b,
     pull_req_cert_format = b ! 4, pull_req_reserved = (b ! 5, b ! 6, b ! 7)\<rparr>"

definition bytes_of_pull_resp :: "SpdmPullCertificateResponse \<Rightarrow> byte list" where
  "bytes_of_pull_resp r = bytes_of_header (pull_resp_header r) @ pull_resp_status r
     # le32 (pull_resp_cert_size r)
     @ [pull_resp_cert_format r, fst (pull_resp_reserved r), snd (pull_resp_reserved r)]"

definition pull_resp_of_bytes :: "byte list \<Rightarrow> SpdmPullCertificateResponse" where
  "pull_resp_of_bytes b = \<lparr>pull_resp_header = header_of_bytes b, pull_resp_status = b ! 4,
     pull_resp_cert_size = of_le32 (b ! 5) (b ! 6) (b ! 7) (b ! 8),
     pull_resp_cert_format = b ! 9, pull_resp_reserved = (b ! 10, b ! 11)\<rparr>"

definition bytes_of_prov_req :: "SpdmSetProvisionedRequest \<Rightarrow> byte list" where
  "bytes_of_prov_req r = bytes_of_header (prov_req_header r)
     @ prov_req_provisioned r # bytes_of_reserved3 (prov_req_reserved r)"

definition prov_req_of_bytes :: "byte list \<Rightarrow> SpdmSetProvisionedRequest" where
  "prov_req_of_bytes b = \<lparr>prov_req_header = header_of_bytes b,
     prov_req_provisioned = b ! 4, prov_req_reserved = (b ! 5, b ! 6, b ! 7)\<rparr>"

definition bytes_of_prov_resp :: "SpdmSetProvisionedResponse \<Rightarrow> byte list" where
  "bytes_of_prov_resp r = bytes_of_header (prov_resp_header r)
     @ prov_resp_status r # bytes_of_reserved3 (prov_resp_reserved r)"

definition prov_resp_of_bytes :: "byte list \<Rightarrow> SpdmSetProvisionedResponse" where
  "prov_resp_of_bytes b = \<lparr>prov_resp_header = header_of_bytes b,
     prov_resp_status = b ! 4, prov_resp_reserved = (b ! 5, b ! 6, b ! 7)\<rparr>"

section \<open>Copying structures in and out of buffers\<close>

text \<open>
  The two templates, with the structure's layout as arguments. \<open>deserializePOD\<close> returns the
  structure and the advanced \<open>offset\<close>.
\<close>

definition serializePOD :: "('a \<Rightarrow> byte list) \<Rightarrow> byte list \<Rightarrow> 'a \<Rightarrow> byte list" where
  "serializePOD enc buffer x = buffer @ enc x"

definition deserializePOD ::
  "nat \<Rightarrow> (byte list \<Rightarrow> 'a) \<Rightarrow> byte list \<Rightarrow> nat \<Rightarrow> exn + 'a \<times> nat" where
  "deserializePOD sz dec bytes offset =
     (if offset + sz > length bytes
      then Inl (runtime_error ''Buffer underflow during deserialization'')
      else Inr (dec (take sz (drop offset bytes)), offset + sz))"

definition serializePushCertificateRequest ::
  "SpdmPushCertificateRequest \<Rightarrow> byte list \<Rightarrow> exn + byte list" where
  "serializePushCertificateRequest request certData =
     (if length certData \<noteq> unat (push_req_cert_size request)
      then Inl (runtime_error
        ''Certificate data size mismatch: certData.size() != request.cert_size'')
      else Inr (serializePOD bytes_of_push_req [] request @ certData))"

definition deserializePushCertificateRequest ::
  "byte list \<Rightarrow> exn + SpdmPushCertificateRequest \<times> byte list" where
  "deserializePushCertificateRequest bytes =
     (if length bytes < 12
      then Inl (runtime_error ''Invalid PUSH_CERTIFICATE request: buffer too small'')
      else ebind (deserializePOD 12 push_req_of_bytes bytes 0) (\<lambda>(request, offset).
        if unat (push_req_cert_size request) > MAX_CERTIFICATE_SIZE
        then Inl (runtime_error ''Invalid PUSH_CERTIFICATE request: cert_size exceeds maximum'')
        else if offset + unat (push_req_cert_size request) > length bytes
        then Inl (runtime_error
          ''Invalid PUSH_CERTIFICATE request: insufficient certificate data'')
        else Inr (request, take (unat (push_req_cert_size request)) (drop offset bytes))))"

definition serializePushCertificateResponse :: "SpdmPushCertificateResponse \<Rightarrow> byte list" where
  "serializePushCertificateResponse response = serializePOD bytes_of_push_resp [] response"

definition deserializePushCertificateResponse ::
  "byte list \<Rightarrow> exn + SpdmPushCertificateResponse" where
  "deserializePushCertificateResponse bytes =
     (if length bytes < 8
      then Inl (runtime_error ''Invalid PUSH_CERTIFICATE response: buffer too small'')
      else ebind (deserializePOD 8 push_resp_of_bytes bytes 0) (\<lambda>(response, _). Inr response))"

definition serializePullCertificateRequest :: "SpdmPullCertificateRequest \<Rightarrow> byte list" where
  "serializePullCertificateRequest request = serializePOD bytes_of_pull_req [] request"

definition deserializePullCertificateRequest ::
  "byte list \<Rightarrow> exn + SpdmPullCertificateRequest" where
  "deserializePullCertificateRequest bytes =
     (if length bytes < 8
      then Inl (runtime_error ''Invalid PULL_CERTIFICATE request: buffer too small'')
      else ebind (deserializePOD 8 pull_req_of_bytes bytes 0) (\<lambda>(request, _). Inr request))"

definition serializePullCertificateResponse ::
  "SpdmPullCertificateResponse \<Rightarrow> byte list \<Rightarrow> exn + byte list" where
  "serializePullCertificateResponse response certData =
     (if length certData \<noteq> unat (pull_resp_cert_size response)
      then Inl (runtime_error
        ''Certificate data size mismatch: certData.size() != response.cert_size'')
      else Inr (serializePOD bytes_of_pull_resp [] response @ certData))"

definition deserializePullCertificateResponse ::
  "byte list \<Rightarrow> exn + SpdmPullCertificateResponse \<times> byte list" where
  "deserializePullCertificateResponse bytes =
     (if length bytes < 12
      then Inl (runtime_error ''Invalid PULL_CERTIFICATE response: buffer too small'')
      else ebind (deserializePOD 12 pull_resp_of_bytes bytes 0) (\<lambda>(response, offset).
        if unat (pull_resp_cert_size response) > MAX_CERTIFICATE_SIZE
        then Inl (runtime_error ''Invalid PULL_CERTIFICATE response: cert_size exceeds maximum'')
        else if offset + unat (pull_resp_cert_size response) > length bytes
        then Inl (runtime_error
          ''Invalid PULL_CERTIFICATE response: insufficient certificate data'')
        else Inr (response, take (unat (pull_resp_cert_size response)) (drop offset bytes))))"

definition serializeSetProvisionedRequest :: "SpdmSetProvisionedRequest \<Rightarrow> byte list" where
  "serializeSetProvisionedRequest request = serializePOD bytes_of_prov_req [] request"

definition deserializeSetProvisionedRequest ::
  "byte list \<Rightarrow> exn + SpdmSetProvisionedRequest" where
  "deserializeSetProvisionedRequest bytes =
     (if length bytes < 8
      then Inl (runtime_error ''Invalid SET_PROVISIONED request: buffer too small'')
      else ebind (deserializePOD 8 prov_req_of_bytes bytes 0) (\<lambda>(request, _). Inr request))"

definition serializeSetProvisionedResponse :: "SpdmSetProvisionedResponse \<Rightarrow> byte list" where
  "serializeSetProvisionedResponse response = serializePOD bytes_of_prov_resp [] response"

definition deserializeSetProvisionedResponse ::
  "byte list \<Rightarrow> exn + SpdmSetProvisionedResponse" where
  "deserializeSetProvisionedResponse bytes =
     (if length bytes < 8
      then Inl (runtime_error ''Invalid SET_PROVISIONED response: buffer too small'')
      else ebind (deserializePOD 8 prov_resp_of_bytes bytes 0) (\<lambda>(response, _). Inr response))"

section \<open>Building the messages\<close>

definition message_header :: "byte \<Rightarrow> byte \<Rightarrow> SpdmMessageHeader" where
  "message_header version code =
     \<lparr>spdm_version = version, request_response_code = code, param1 = 0, param2 = 0\<rparr>"

definition createPushCertificateRequest ::
  "byte \<Rightarrow> byte list \<Rightarrow> CertificateFormat \<Rightarrow> exn + byte list" where
  "createPushCertificateRequest spdmVersion certData format =
     serializePushCertificateRequest
       \<lparr>push_req_header = message_header spdmVersion SPDM_PUSH_CERTIFICATE,
        push_req_cert_size = word_of_nat (length certData),
        push_req_cert_format = format, push_req_reserved = (0, 0, 0)\<rparr> certData"

definition createPushCertificateResponse :: "byte \<Rightarrow> byte \<Rightarrow> byte list" where
  "createPushCertificateResponse spdmVersion status =
     serializePushCertificateResponse
       \<lparr>push_resp_header = message_header spdmVersion SPDM_PUSH_CERTIFICATE_ACK,
        push_resp_status = status, push_resp_reserved = (0, 0, 0)\<rparr>"

definition createPullCertificateRequest :: "byte \<Rightarrow> CertificateFormat \<Rightarrow> byte list" where
  "createPullCertificateRequest spdmVersion format =
     serializePullCertificateRequest
       \<lparr>pull_req_header = message_header spdmVersion SPDM_PULL_CERTIFICATE,
        pull_req_cert_format = format, pull_req_reserved = (0, 0, 0)\<rparr>"

definition createPullCertificateResponse ::
  "byte \<Rightarrow> byte \<Rightarrow> byte list \<Rightarrow> CertificateFormat \<Rightarrow> exn + byte list" where
  "createPullCertificateResponse spdmVersion status certData format =
     serializePullCertificateResponse
       \<lparr>pull_resp_header = message_header spdmVersion SPDM_PULL_CERTIFICATE_ACK,
        pull_resp_status = status, pull_resp_cert_size = word_of_nat (length certData),
        pull_resp_cert_format = format, pull_resp_reserved = (0, 0)\<rparr> certData"

definition createSetProvisionedRequest :: "byte \<Rightarrow> bool \<Rightarrow> byte list" where
  "createSetProvisionedRequest spdmVersion provisioned =
     serializeSetProvisionedRequest
       \<lparr>prov_req_header = message_header spdmVersion SPDM_SET_PROVISIONED,
        prov_req_provisioned = (if provisioned then 1 else 0), prov_req_reserved = (0, 0, 0)\<rparr>"

definition createSetProvisionedResponse :: "byte \<Rightarrow> byte \<Rightarrow> byte list" where
  "createSetProvisionedResponse spdmVersion status =
     serializeSetProvisionedResponse
       \<lparr>prov_resp_header = message_header spdmVersion SPDM_SET_PROVISIONED_ACK,
        prov_resp_status = status, prov_resp_reserved = (0, 0, 0)\<rparr>"


section \<open>Layout laws\<close>

named_theorems layout_simps \<open>unfolding of the byte layouts\<close>

lemma of_le32_le32:
  "of_le32 (ucast w) (ucast (drop_bit 8 w)) (ucast (drop_bit 16 w)) (ucast (drop_bit 24 w)) = w"
  for w :: "32 word"
proof (rule bit_word_eqI)
  fix n assume "n < LENGTH(32)"
  then have "n < 32" by simp
  then consider "n < 8" | "8 \<le> n" "n < 16" | "16 \<le> n" "n < 24" | "24 \<le> n" "n < 32" by linarith
  then show "bit (of_le32 (ucast w) (ucast (drop_bit 8 w)) (ucast (drop_bit 16 w))
                 (ucast (drop_bit 24 w))) n = bit w n"
    by cases (auto simp: of_le32_def bit_simps)
qed

lemma le32_of_le32: "le32 (of_le32 a b c d) = [a, b, c, d]"
proof -
  have "ucast (of_le32 a b c d) = a" "ucast (drop_bit 8 (of_le32 a b c d)) = b"
    "ucast (drop_bit 16 (of_le32 a b c d)) = c" "ucast (drop_bit 24 (of_le32 a b c d)) = d"
    by (rule bit_word_eqI; auto simp: of_le32_def bit_simps dest: bit_imp_le_length)+
  then show ?thesis by (simp add: le32_def)
qed

declare bytes_of_header_def [layout_simps] header_of_bytes_def [layout_simps]
  bytes_of_reserved3_def [layout_simps] le32_def [layout_simps]
  bytes_of_push_req_def [layout_simps] push_req_of_bytes_def [layout_simps]
  bytes_of_push_resp_def [layout_simps] push_resp_of_bytes_def [layout_simps]
  bytes_of_pull_req_def [layout_simps] pull_req_of_bytes_def [layout_simps]
  bytes_of_pull_resp_def [layout_simps] pull_resp_of_bytes_def [layout_simps]
  bytes_of_prov_req_def [layout_simps] prov_req_of_bytes_def [layout_simps]
  bytes_of_prov_resp_def [layout_simps] prov_resp_of_bytes_def [layout_simps]
  of_le32_le32 [layout_simps]

lemma list_of_8: "length b = 8 \<Longrightarrow> [b!0, b!Suc 0, b!2, b!3, b!4, b!5, b!6, b!7] = b"
  by (rule nth_equalityI) (auto simp: less_Suc_eq numeral_eq_Suc)

lemma list_of_12:
  "length b = 12 \<Longrightarrow> [b!0, b!Suc 0, b!2, b!3, b!4, b!5, b!6, b!7, b!8, b!9, b!10, b!11] = b"
  by (rule nth_equalityI) (auto simp: less_Suc_eq numeral_eq_Suc)

locale pod_layout =
  fixes sz :: nat and enc :: "'a \<Rightarrow> byte list" and dec :: "byte list \<Rightarrow> 'a"
  assumes size_enc: "length (enc x) = sz"
    and dec_enc: "dec (enc x) = x"
    and enc_dec: "length b = sz \<Longrightarrow> enc (dec b) = b"
begin

lemma read_written:
  "deserializePOD sz dec (serializePOD enc buffer x @ rest) (length buffer)
     = Inr (x, length buffer + sz)"
  by (simp add: deserializePOD_def serializePOD_def size_enc dec_enc)

lemma read_front: "deserializePOD sz dec (enc x @ rest) 0 = Inr (x, sz)"
  using read_written [of "[]" x rest] by (simp add: serializePOD_def)

lemma read_exact:
  assumes "deserializePOD sz dec bytes 0 = Inr (x, offset)"
  shows "offset = sz" and "bytes = enc x @ drop sz bytes"
proof -
  from assms have l: "sz \<le> length bytes" and x: "x = dec (take sz bytes)" "offset = sz"
    by (auto simp: deserializePOD_def split: if_splits)
  then have "enc x = take sz bytes" by (simp add: enc_dec)
  with x show "offset = sz" "bytes = enc x @ drop sz bytes" by simp_all
qed

lemma read_total: "sz \<le> length bytes \<Longrightarrow> \<exists>x. deserializePOD sz dec bytes 0 = Inr (x, sz)"
  by (simp add: deserializePOD_def)

end

interpretation push_req: pod_layout 12 bytes_of_push_req push_req_of_bytes
proof
  fix b :: "byte list" assume "length b = 12"
  then show "bytes_of_push_req (push_req_of_bytes b) = b"
    using list_of_12 [of b]
    by (simp add: bytes_of_push_req_def push_req_of_bytes_def bytes_of_header_def
      header_of_bytes_def bytes_of_reserved3_def le32_of_le32)
qed (auto simp: layout_simps split: prod.splits)

interpretation push_resp: pod_layout 8 bytes_of_push_resp push_resp_of_bytes
  by standard (auto simp: layout_simps list_of_8 split: prod.splits)

interpretation pull_req: pod_layout 8 bytes_of_pull_req pull_req_of_bytes
  by standard (auto simp: layout_simps list_of_8 split: prod.splits)

interpretation pull_resp: pod_layout 12 bytes_of_pull_resp pull_resp_of_bytes
proof
  fix b :: "byte list" assume "length b = 12"
  then show "bytes_of_pull_resp (pull_resp_of_bytes b) = b"
    using list_of_12 [of b]
    by (simp add: bytes_of_pull_resp_def pull_resp_of_bytes_def bytes_of_header_def
      header_of_bytes_def le32_of_le32)
qed (auto simp: layout_simps)

interpretation prov_req: pod_layout 8 bytes_of_prov_req prov_req_of_bytes
  by standard (auto simp: layout_simps list_of_8 split: prod.splits)

interpretation prov_resp: pod_layout 8 bytes_of_prov_resp prov_resp_of_bytes
  by standard (auto simp: layout_simps list_of_8 split: prod.splits)


section \<open>What a reader accepts\<close>

lemma push_request_read:
  "deserializePushCertificateRequest bytes = Inr (req, cert) \<longleftrightarrow>
     length cert = unat (push_req_cert_size req) \<and> length cert \<le> MAX_CERTIFICATE_SIZE \<and>
     (\<exists>rest. bytes = bytes_of_push_req req @ cert @ rest)"
proof
  assume r: "deserializePushCertificateRequest bytes = Inr (req, cert)"
  then obtain offset where o: "deserializePOD 12 push_req_of_bytes bytes 0 = Inr (req, offset)"
    by (auto simp: deserializePushCertificateRequest_def ebind_eq_Inr split: if_splits)
  note e = push_req.read_exact [OF o]
  from r o have "unat (push_req_cert_size req) \<le> MAX_CERTIFICATE_SIZE"
    and l: "offset + unat (push_req_cert_size req) \<le> length bytes"
    and c: "cert = take (unat (push_req_cert_size req)) (drop offset bytes)"
    by (auto simp: deserializePushCertificateRequest_def split: if_splits)
  moreover from l c e(1) have "length cert = unat (push_req_cert_size req)" by auto
  moreover have "bytes = bytes_of_push_req req @ cert @ drop (length cert) (drop 12 bytes)"
    using e c calculation(4) by (metis append_take_drop_id)
  ultimately show "length cert = unat (push_req_cert_size req)
      \<and> length cert \<le> MAX_CERTIFICATE_SIZE \<and> (\<exists>rest. bytes = bytes_of_push_req req @ cert @ rest)"
    by metis
next
  assume "length cert = unat (push_req_cert_size req) \<and> length cert \<le> MAX_CERTIFICATE_SIZE
    \<and> (\<exists>rest. bytes = bytes_of_push_req req @ cert @ rest)"
  then obtain rest where l: "length cert = unat (push_req_cert_size req)"
    and m: "length cert \<le> MAX_CERTIFICATE_SIZE" and b: "bytes = bytes_of_push_req req @ cert @ rest"
    by blast
  then show "deserializePushCertificateRequest bytes = Inr (req, cert)"
    by (simp add: deserializePushCertificateRequest_def push_req.read_front push_req.size_enc)
qed

lemma pull_response_read:
  "deserializePullCertificateResponse bytes = Inr (resp, cert) \<longleftrightarrow>
     length cert = unat (pull_resp_cert_size resp) \<and> length cert \<le> MAX_CERTIFICATE_SIZE \<and>
     (\<exists>rest. bytes = bytes_of_pull_resp resp @ cert @ rest)"
proof
  assume r: "deserializePullCertificateResponse bytes = Inr (resp, cert)"
  then obtain offset where o: "deserializePOD 12 pull_resp_of_bytes bytes 0 = Inr (resp, offset)"
    by (auto simp: deserializePullCertificateResponse_def ebind_eq_Inr split: if_splits)
  note e = pull_resp.read_exact [OF o]
  from r o have "unat (pull_resp_cert_size resp) \<le> MAX_CERTIFICATE_SIZE"
    and l: "offset + unat (pull_resp_cert_size resp) \<le> length bytes"
    and c: "cert = take (unat (pull_resp_cert_size resp)) (drop offset bytes)"
    by (auto simp: deserializePullCertificateResponse_def split: if_splits)
  moreover from l c e(1) have "length cert = unat (pull_resp_cert_size resp)" by auto
  moreover have "bytes = bytes_of_pull_resp resp @ cert @ drop (length cert) (drop 12 bytes)"
    using e c calculation(4) by (metis append_take_drop_id)
  ultimately show "length cert = unat (pull_resp_cert_size resp)
      \<and> length cert \<le> MAX_CERTIFICATE_SIZE \<and> (\<exists>rest. bytes = bytes_of_pull_resp resp @ cert @ rest)"
    by metis
next
  assume "length cert = unat (pull_resp_cert_size resp) \<and> length cert \<le> MAX_CERTIFICATE_SIZE
    \<and> (\<exists>rest. bytes = bytes_of_pull_resp resp @ cert @ rest)"
  then obtain rest where l: "length cert = unat (pull_resp_cert_size resp)"
    and m: "length cert \<le> MAX_CERTIFICATE_SIZE" and b: "bytes = bytes_of_pull_resp resp @ cert @ rest"
    by blast
  then show "deserializePullCertificateResponse bytes = Inr (resp, cert)"
    by (simp add: deserializePullCertificateResponse_def pull_resp.read_front pull_resp.size_enc)
qed

lemma fixed_size_read:
  "deserializePushCertificateResponse bytes = Inr push_ack \<longleftrightarrow>
     (\<exists>rest. bytes = serializePushCertificateResponse push_ack @ rest)"
  "deserializePullCertificateRequest bytes = Inr pull \<longleftrightarrow>
     (\<exists>rest. bytes = serializePullCertificateRequest pull @ rest)"
  "deserializeSetProvisionedRequest bytes = Inr prov \<longleftrightarrow>
     (\<exists>rest. bytes = serializeSetProvisionedRequest prov @ rest)"
  "deserializeSetProvisionedResponse bytes = Inr prov_ack \<longleftrightarrow>
     (\<exists>rest. bytes = serializeSetProvisionedResponse prov_ack @ rest)"
  by (auto simp: deserializePushCertificateResponse_def serializePushCertificateResponse_def
      deserializePullCertificateRequest_def serializePullCertificateRequest_def
      deserializeSetProvisionedRequest_def serializeSetProvisionedRequest_def
      deserializeSetProvisionedResponse_def serializeSetProvisionedResponse_def
      serializePOD_def ebind_eq_Inr push_resp.read_front pull_req.read_front
      prov_req.read_front prov_resp.read_front push_resp.size_enc pull_req.size_enc
      prov_req.size_enc prov_resp.size_enc
      dest: push_resp.read_exact(2) pull_req.read_exact(2) prov_req.read_exact(2)
        prov_resp.read_exact(2))

text \<open>
  The certificate-carrying messages are read exactly: a buffer is accepted as the message
  \<open>(request, certificate)\<close> if and only if it starts with what the writer produces for that
  pair and the certificate is within the limit; everything else is refused with an exception.
  So the certificate handed to the trust store is the one that was written, whatever bytes
  follow it, and no declared size makes the reader leave the buffer.
\<close>

theorem certificate_messages_exact:
  "(deserializePushCertificateRequest bytes = Inr (req, cert) \<longleftrightarrow>
           length cert \<le> MAX_CERTIFICATE_SIZE \<and>
           (\<exists>buf rest. serializePushCertificateRequest req cert = Inr buf \<and> bytes = buf @ rest)) \<and>
   (deserializePullCertificateResponse bytes = Inr (resp, cert) \<longleftrightarrow>
           length cert \<le> MAX_CERTIFICATE_SIZE \<and>
           (\<exists>buf rest. serializePullCertificateResponse resp cert = Inr buf \<and> bytes = buf @ rest))"
  by (auto simp: push_request_read pull_response_read serializePushCertificateRequest_def
      serializePullCertificateResponse_def serializePOD_def)

text \<open>
  The messages the two sides build: the request or response is read back with the fields it
  was built from, provided the certificate is within the limit of the reader.
\<close>

lemma unat_small_size: "n \<le> MAX_CERTIFICATE_SIZE \<Longrightarrow> unat (word_of_nat n :: 32 word) = n"
  by (simp add: MAX_CERTIFICATE_SIZE_def unat_of_nat take_bit_nat_eq_self)

lemma created_push_read:
  assumes "length cert \<le> MAX_CERTIFICATE_SIZE"
  shows "\<exists>buf. createPushCertificateRequest v cert fmt = Inr buf \<and> length buf = 12 + length cert \<and>
     hd buf = v \<and> buf ! 1 = SPDM_PUSH_CERTIFICATE \<and>
     (\<exists>req. deserializePushCertificateRequest (buf @ rest) = Inr (req, cert) \<and>
        push_req_cert_format req = fmt)"
proof -
  let ?req = "\<lparr>push_req_header = message_header v SPDM_PUSH_CERTIFICATE,
        push_req_cert_size = word_of_nat (length cert),
        push_req_cert_format = fmt, push_req_reserved = (0, 0, 0)\<rparr>"
  have "createPushCertificateRequest v cert fmt = Inr (bytes_of_push_req ?req @ cert)"
    using assms by (simp add: createPushCertificateRequest_def serializePushCertificateRequest_def
      serializePOD_def unat_small_size)
  moreover have "deserializePushCertificateRequest ((bytes_of_push_req ?req @ cert) @ rest)
      = Inr (?req, cert)"
    using assms by (simp add: push_request_read unat_small_size)
  ultimately show ?thesis
    by (auto simp: push_req.size_enc) (auto simp: bytes_of_push_req_def bytes_of_header_def
      message_header_def)
qed

lemma created_pull_response_read:
  assumes "length cert \<le> MAX_CERTIFICATE_SIZE"
  shows "\<exists>buf. createPullCertificateResponse v st cert fmt = Inr buf \<and>
     length buf = 12 + length cert \<and>
     (\<exists>resp. deserializePullCertificateResponse (buf @ rest) = Inr (resp, cert) \<and>
        pull_resp_status resp = st \<and> pull_resp_cert_format resp = fmt)"
proof -
  let ?resp = "\<lparr>pull_resp_header = message_header v SPDM_PULL_CERTIFICATE_ACK,
        pull_resp_status = st, pull_resp_cert_size = word_of_nat (length cert),
        pull_resp_cert_format = fmt, pull_resp_reserved = (0, 0)\<rparr>"
  have "createPullCertificateResponse v st cert fmt = Inr (bytes_of_pull_resp ?resp @ cert)"
    using assms by (simp add: createPullCertificateResponse_def serializePullCertificateResponse_def
      serializePOD_def unat_small_size)
  moreover have "deserializePullCertificateResponse ((bytes_of_pull_resp ?resp @ cert) @ rest)
      = Inr (?resp, cert)"
    using assms by (simp add: pull_response_read unat_small_size)
  ultimately show ?thesis by (auto simp: pull_resp.size_enc)
qed

lemma created_acks_read:
  "\<exists>ack. deserializePushCertificateResponse (createPushCertificateResponse v st) = Inr ack
     \<and> push_resp_status ack = st"
  "\<exists>req. deserializePullCertificateRequest (createPullCertificateRequest v fmt) = Inr req
     \<and> pull_req_cert_format req = fmt"
  "\<exists>req. deserializeSetProvisionedRequest (createSetProvisionedRequest v b) = Inr req
     \<and> (prov_req_provisioned req \<noteq> 0) = b"
  "\<exists>ack. deserializeSetProvisionedResponse (createSetProvisionedResponse v st) = Inr ack
     \<and> prov_resp_status ack = st"
  unfolding createPushCertificateResponse_def createPullCertificateRequest_def
    createSetProvisionedRequest_def createSetProvisionedResponse_def fixed_size_read
  by (rule exI, rule conjI, rule exI [where x = "[]"], rule append_Nil2 [symmetric], simp)+

lemma created_sizes [simp]:
  "length (createPushCertificateResponse v st) = 8"
  "length (createPullCertificateRequest v fmt) = 8"
  "length (createSetProvisionedRequest v b) = 8"
  "length (createSetProvisionedResponse v st) = 8"
  by (simp_all add: createPushCertificateResponse_def createPullCertificateRequest_def
    createSetProvisionedRequest_def createSetProvisionedResponse_def
    serializePushCertificateResponse_def serializePullCertificateRequest_def
    serializeSetProvisionedRequest_def serializeSetProvisionedResponse_def serializePOD_def
    push_resp.size_enc pull_req.size_enc prov_req.size_enc prov_resp.size_enc)

end
