(* ===== verification/SpdmStore.thy ===== *)
theory SpdmStore
  imports SpdmMessages "HOL-Library.AList" "HOL-Library.Sublist"
begin

text \<open>
  The certificate trust store on disk (class \<open>FileCertificateTrustStore\<close> of
  \<open>examples/spdm/include/spdm_custom_messages.hpp\<close>) over a model of the part of the file system
  it uses: regular files, directories and symbolic links, keyed by path, in the order in which
  a directory lists them. Two different path strings can name one file (\<open>a/./b\<close> and \<open>a/b\<close>); the
  theorems are about identifiers that are plain file names, for which they do not.

  What lies outside is a parameter: whether the operating system lets a file be opened,
  written completely, read, linked or removed (record \<open>os\<close>), and what OpenSSL makes of the
  bytes of a certificate (record \<open>openssl\<close>).

  The abstract specification is a finite map from an identifier and a format to the bytes of
  a certificate, to which every operation is related. The locale
  \<open>certificate_store\<close> is the contract of the interface class \<open>CertificateTrustStore\<close> that the
  exchange relies on.
\<close>

section \<open>The file system\<close>

datatype node = File "byte list" | Dir | Symlink string

type_synonym disk = "(string \<times> node) list"

record os =
  can_write :: "string \<Rightarrow> bool"
  short_write :: "string \<Rightarrow> byte list \<Rightarrow> nat option"
  can_read :: "string \<Rightarrow> bool"
  can_link :: "string \<Rightarrow> bool"
  can_remove :: "string \<Rightarrow> bool"
  can_mkdir :: "string \<Rightarrow> bool"

text \<open>\<open>std::filesystem::path\<close>: the part before the last component, and \<open>operator/\<close>.\<close>

definition parent_path :: "string \<Rightarrow> string" where
  "parent_path p =
     (let q = rev (dropWhile (\<lambda>c. c = CHR ''/'') (dropWhile (\<lambda>c. c \<noteq> CHR ''/'') (rev p)))
      in if q = [] \<and> p \<noteq> [] \<and> hd p = CHR ''/'' then ''/'' else q)"

definition path_append :: "string \<Rightarrow> string \<Rightarrow> string" where
  "path_append d s = (if d = [] \<or> last d = CHR ''/'' then d @ s else d @ CHR ''/'' # s)"

text \<open>\<open>path::stem\<close>: the file name up to its last dot, unless that dot is its first character.\<close>

definition path_stem :: "string \<Rightarrow> string" where
  "path_stem p =
     (let f = path_filename p; r = dropWhile (\<lambda>c. c \<noteq> CHR ''.'') (rev f)
      in if f = ''.'' \<or> f = ''..'' \<or> r = [] \<or> tl r = [] then f else rev (tl r))"

definition link_target :: "string \<Rightarrow> string \<Rightarrow> string" where
  "link_target p t =
     (if t \<noteq> [] \<and> hd t = CHR ''/'' then t else path_append (parent_path p) t)"

text \<open>
  Following symbolic links, at most 40 of them as Linux does; \<open>None\<close> is the error \<open>ELOOP\<close>, for
  which the functions of \<open>std::filesystem\<close> throw.
\<close>

fun resolve :: "nat \<Rightarrow> disk \<Rightarrow> string \<Rightarrow> string option" where
  "resolve 0 d p = None"
| "resolve (Suc n) d p =
     (case map_of d p of Some (Symlink t) \<Rightarrow> resolve n d (link_target p t) | _ \<Rightarrow> Some p)"

definition fs_status :: "disk \<Rightarrow> string \<Rightarrow> exn + node option" where
  "fs_status d p = (case resolve 41 d p of
     None \<Rightarrow> Inl (system_error (Sys_error 40)) | Some q \<Rightarrow> Inr (map_of d q))"

definition fs_exists :: "disk \<Rightarrow> string \<Rightarrow> exn + bool" where
  "fs_exists d p = ebind (fs_status d p) (\<lambda>n. Inr (n \<noteq> None))"

datatype write_result = Open_failed | Write_failed | Written

text \<open>Opening an output stream (which truncates the file), writing the bytes and closing it.\<close>

definition write_file :: "os \<Rightarrow> disk \<Rightarrow> string \<Rightarrow> byte list \<Rightarrow> write_result \<times> disk" where
  "write_file os d p bytes = (case resolve 41 d p of
     None \<Rightarrow> (Open_failed, d)
   | Some q \<Rightarrow>
       if map_of d q = Some Dir \<or> \<not> can_write os q then (Open_failed, d)
       else case short_write os q bytes of
         None \<Rightarrow> (Written, AList.update q (File bytes) d)
       | Some k \<Rightarrow> (Write_failed, AList.update q (File (take k bytes)) d))"

text \<open>\<open>create_symlink\<close> fails when the path already names anything, a dangling link included.\<close>

definition create_symlink :: "os \<Rightarrow> disk \<Rightarrow> string \<Rightarrow> string \<Rightarrow> bool \<times> disk" where
  "create_symlink os d target p =
     (if map_of d p \<noteq> None \<or> \<not> can_link os p then (False, d)
      else (True, AList.update p (Symlink target) d))"

text \<open>\<open>fs::remove\<close> removes the entry itself, not what a link points to; it throws when refused.\<close>

definition fs_remove :: "os \<Rightarrow> disk \<Rightarrow> string \<Rightarrow> exn + disk" where
  "fs_remove os d p =
     (if can_remove os p then Inr (AList.delete p d) else Inl (system_error (Sys_error 13)))"

text \<open>\<open>fs::create_directories\<close>: every missing prefix of the path, outermost first.\<close>

definition path_prefixes :: "string \<Rightarrow> string list" where
  "path_prefixes p = map (\<lambda>i. take i p) (filter (\<lambda>i. p ! i = CHR ''/'') [1..<length p]) @ [p]"

fun create_directories :: "os \<Rightarrow> disk \<Rightarrow> string list \<Rightarrow> exn + disk" where
  "create_directories os d [] = Inr d"
| "create_directories os d (p # ps) = ebind (fs_status d p) (\<lambda>n. case n of
      Some Dir \<Rightarrow> create_directories os d ps
    | None \<Rightarrow> if can_mkdir os p then create_directories os (AList.update p Dir d) ps
              else Inl (system_error (Sys_error 13))
    | _ \<Rightarrow> Inl (system_error (Sys_error 20)))"

section \<open>OpenSSL\<close>

record ('x, 'time) openssl =
  PEM_read_bio_X509 :: "byte list \<Rightarrow> 'x option"
  d2i_X509_bio :: "byte list \<Rightarrow> 'x option"
  X509_subject_name_hash :: "'x \<Rightarrow> nat"
  X509_get0_notBefore :: "'x \<Rightarrow> 'time option"
  X509_get0_notAfter :: "'x \<Rightarrow> 'time option"
  X509_cmp_time :: "'time \<Rightarrow> int \<Rightarrow> int"
  X509_has_pubkey :: "'x \<Rightarrow> bool"
  PEM_write_bio_X509 :: "'x \<Rightarrow> byte list option"
  i2d_X509_bio :: "'x \<Rightarrow> byte list option"

section \<open>The trust store\<close>

definition getCertificatePath :: "string \<Rightarrow> string \<Rightarrow> CertificateFormat \<Rightarrow> string" where
  "getCertificatePath storePath identifier format =
     storePath @ ''/'' @ identifier @ (if format = PEM then ''.pem'' else ''.der'')"

text \<open>The constructor; the exception of a failed \<open>create_directories\<close> is rethrown.\<close>

definition FileCertificateTrustStore :: "os \<Rightarrow> disk \<Rightarrow> string \<Rightarrow> exn + disk" where
  "FileCertificateTrustStore os d storePath = ebind (fs_exists d storePath) (\<lambda>there.
     if there then Inr d else create_directories os d (path_prefixes storePath))"

definition parseCertificate ::
  "('x, 't) openssl \<Rightarrow> byte list \<Rightarrow> CertificateFormat \<Rightarrow> 'x option" where
  "parseCertificate ssl cert format =
     (if format = PEM then PEM_read_bio_X509 ssl cert else d2i_X509_bio ssl cert)"

definition hex_digit :: "nat \<Rightarrow> char" where
  "hex_digit n = ''0123456789abcdef'' ! n"

fun hex_string :: "nat \<Rightarrow> string" where
  "hex_string n =
     (if n < 16 then [hex_digit n] else hex_string (n div 16) @ [hex_digit (n mod 16)])"

declare hex_string.simps [simp del]

definition hash_string :: "nat \<Rightarrow> string" where
  "hash_string hash = (let s = hex_string hash in replicate (8 - length s) CHR ''0'' @ s)"

text \<open>
  The search for a free link name: the loop \<open>do \<dots> while\<close> leaves with the last path tried and
  the index already advanced past it.
\<close>

definition hash_path :: "string \<Rightarrow> string \<Rightarrow> nat \<Rightarrow> string" where
  "hash_path certDir hashStr index = path_append certDir (hashStr @ ''.'' @ to_string index)"

function next_hash_path ::
  "disk \<Rightarrow> string \<Rightarrow> string \<Rightarrow> nat \<Rightarrow> exn + string \<times> nat" where
  "next_hash_path d certDir hashStr index =
     (case fs_exists d (hash_path certDir hashStr index) of
        Inl e \<Rightarrow> Inl e
      | Inr there \<Rightarrow>
          if there \<and> index + 1 < 100 then next_hash_path d certDir hashStr (index + 1)
          else Inr (hash_path certDir hashStr index, index + 1))"
  by pat_completeness auto
termination
  by (relation "measure (\<lambda>(_, _, _, i). 100 - i)") auto

declare next_hash_path.simps [simp del]

definition createCertificateHashFile ::
  "('x, 't) openssl \<Rightarrow> os \<Rightarrow> disk \<Rightarrow> 'x \<Rightarrow> string \<Rightarrow> exn + bool \<times> disk" where
  "createCertificateHashFile ssl os d cert certPath =
     (let certDir = parent_path certPath;
          hashStr = hash_string (X509_subject_name_hash ssl cert)
      in ebind (next_hash_path d certDir hashStr 0) (\<lambda>(hashFilePath, index).
           if index \<ge> 100 then Inr (False, d)
           else Inr (create_symlink os d (path_filename certPath) hashFilePath)))"

definition storeCertificate ::
  "('x, 't) openssl \<Rightarrow> os \<Rightarrow> string \<Rightarrow> disk \<Rightarrow> byte list \<Rightarrow> CertificateFormat \<Rightarrow> string
     \<Rightarrow> (bool \<times> string) \<times> disk" where
  "storeCertificate ssl os storePath d cert format identifier =
     (if cert = [] \<or> identifier = [] then ((False, []), d)
      else if length cert > MAX_CERTIFICATE_SIZE then ((False, []), d)
      else let certPath = getCertificatePath storePath identifier format in
        case write_file os d certPath cert of
          (Open_failed, d1) \<Rightarrow> ((False, []), d1)
        | (Write_failed, d1) \<Rightarrow> ((False, []), d1)
        | (Written, d1) \<Rightarrow>
            (case parseCertificate ssl cert format of
               None \<Rightarrow> ((True, certPath), d1)
             | Some x \<Rightarrow>
                 (case createCertificateHashFile ssl os d1 x certPath of
                    Inl e \<Rightarrow> ((False, []), d1)
                  | Inr (_, d2) \<Rightarrow> ((True, certPath), d2))))"

definition retrieveCertificate ::
  "os \<Rightarrow> string \<Rightarrow> disk \<Rightarrow> string \<Rightarrow> CertificateFormat \<Rightarrow> byte list" where
  "retrieveCertificate os storePath d identifier format =
     (if identifier = [] then []
      else let certPath = getCertificatePath storePath identifier format in
        case fs_status d certPath of
          Inr (Some (File bytes)) \<Rightarrow>
            if length bytes > MAX_CERTIFICATE_SIZE then []
            else if \<not> can_read os certPath then [] else bytes
        | _ \<Rightarrow> [])"


text \<open>
  The directory iterator: the loop appends the stem of every regular file (links are followed)
  that is not in the list yet, and stops with what it has when a status throws.
\<close>

fun collect_stems :: "disk \<Rightarrow> string list \<Rightarrow> string list \<Rightarrow> string list" where
  "collect_stems d certificates [] = certificates"
| "collect_stems d certificates (p # ps) = (case fs_status d p of
      Inl e \<Rightarrow> certificates
    | Inr (Some (File _)) \<Rightarrow>
        collect_stems d
          (if path_stem p \<in> set certificates then certificates else certificates @ [path_stem p]) ps
    | Inr _ \<Rightarrow> collect_stems d certificates ps)"

definition dir_entries :: "disk \<Rightarrow> string \<Rightarrow> string list" where
  "dir_entries d dir = filter (\<lambda>p. p = dir @ CHR ''/'' # path_filename p) (map fst d)"

definition listCertificates :: "string \<Rightarrow> disk \<Rightarrow> string list" where
  "listCertificates storePath d = (case fs_status d storePath of
      Inr (Some Dir) \<Rightarrow> collect_stems d [] (dir_entries d storePath)
    | _ \<Rightarrow> [])"

definition remove_existing :: "os \<Rightarrow> disk \<Rightarrow> string \<Rightarrow> exn + bool \<times> disk" where
  "remove_existing os d p = ebind (fs_exists d p) (\<lambda>there.
     if there then ebind (fs_remove os d p) (\<lambda>d1. Inr (True, d1)) else Inr (False, d))"

definition removeCertificate :: "os \<Rightarrow> string \<Rightarrow> disk \<Rightarrow> string \<Rightarrow> bool \<times> disk" where
  "removeCertificate os storePath d identifier =
     (if identifier = [] then (False, d)
      else case remove_existing os d (getCertificatePath storePath identifier PEM) of
        Inl e \<Rightarrow> (False, d)
      | Inr (removed, d1) \<Rightarrow>
          (case remove_existing os d1 (getCertificatePath storePath identifier DER) of
             Inl e \<Rightarrow> (False, d1)
           | Inr (removed1, d2) \<Rightarrow> (removed \<or> removed1, d2)))"


section \<open>Well-formed disks\<close>

text \<open>
  The disks the trust store itself produces: every link has a name that is not that of a
  certificate file and points to a name that is, and no certificate file is a directory.
\<close>

definition cert_name :: "string \<Rightarrow> bool" where
  "cert_name p \<longleftrightarrow> suffix ''.pem'' p \<or> suffix ''.der'' p"

definition wf_disk :: "disk \<Rightarrow> bool" where
  "wf_disk d \<longleftrightarrow>
     (\<forall>p t. map_of d p = Some (Symlink t) \<longrightarrow> \<not> cert_name p \<and> cert_name (link_target p t)) \<and>
     (\<forall>p. cert_name p \<longrightarrow> map_of d p \<noteq> Some Dir)"

text \<open>
  An identifier becomes a file name without being checked. It is plain when the result is a name in the
  directory of the store: no slash, no NUL, and with its extension at most 255 characters. A file
  system works for the store when the files of plain identifiers can be opened, written, read and
  removed; nothing is said of other paths, and links may fail.
\<close>

definition plain_id :: "string \<Rightarrow> bool" where
  "plain_id i \<longleftrightarrow> CHR ''/'' \<notin> set i \<and> CHR 0x00 \<notin> set i \<and> length i \<le> 251"

definition healthy :: "string \<Rightarrow> os \<Rightarrow> bool" where
  "healthy storePath os \<longleftrightarrow> (\<forall>i f. i \<noteq> [] \<and> plain_id i \<longrightarrow>
     (let p = getCertificatePath storePath i f in
      can_write os p \<and> can_read os p \<and> can_remove os p
      \<and> (\<forall>b. length b \<le> MAX_CERTIFICATE_SIZE \<longrightarrow> short_write os p b = None)))"

lemma healthyD:
  assumes "healthy sp os" and "i \<noteq> []" and "plain_id i"
  shows "can_write os (getCertificatePath sp i f)" "can_read os (getCertificatePath sp i f)"
    "can_remove os (getCertificatePath sp i f)"
    "length b \<le> MAX_CERTIFICATE_SIZE \<Longrightarrow> short_write os (getCertificatePath sp i f) b = None"
  using assms by (auto simp: healthy_def Let_def)

text \<open>
  What the store holds: the abstract map from a plain identifier and a format to the certificate.
\<close>

definition store_map :: "string \<Rightarrow> disk \<Rightarrow> string \<times> bool \<Rightarrow> byte list option" where
  "store_map storePath d = (\<lambda>(identifier, pem).
     if plain_id identifier then
       case map_of d (getCertificatePath storePath identifier (if pem then PEM else DER)) of
         Some (File c) \<Rightarrow> Some c | _ \<Rightarrow> None
     else None)"

lemma cert_name_path [simp]: "cert_name (getCertificatePath sp i f)"
  by (simp add: cert_name_def getCertificatePath_def suffix_def)

lemma path_inject [simp]:
  "getCertificatePath sp i f = getCertificatePath sp j g \<longleftrightarrow> i = j \<and> (f = PEM) = (g = PEM)"
  by (auto simp: getCertificatePath_def)

lemma path_by_format: "getCertificatePath sp i (if f = PEM then PEM else DER) = getCertificatePath sp i f"
  by (simp add: getCertificatePath_def)

lemma hash_path_no_cert: "\<not> cert_name (hash_path dir h i)"
proof -
  obtain s c where t: "to_string i = s @ [c]"
    using to_string_not_Nil [of i] by (cases "to_string i" rule: rev_cases) auto
  then have "is_digit c" using to_string_digits [of i] by auto
  then have "c \<noteq> CHR ''m'' \<and> c \<noteq> CHR ''r''" by (auto simp: is_digit_def)
  with t show ?thesis
    by (auto simp: hash_path_def path_append_def cert_name_def suffix_def append_eq_append_conv2
        append_eq_Cons_conv Cons_eq_append_conv)
qed

lemma filename_no_slash: "CHR ''/'' \<notin> set (path_filename p)"
  by (auto simp: path_filename_def dest: set_takeWhileD)

lemma filename_cert_name: "cert_name p \<Longrightarrow> cert_name (path_filename p)"
  unfolding cert_name_def suffix_def path_filename_def by fastforce

lemma cert_name_append: "cert_name f \<Longrightarrow> cert_name (q @ f)"
  by (auto simp: cert_name_def suffix_append)

lemma link_target_cert:
  assumes "cert_name p"
  shows "cert_name (link_target h (path_filename p))"
proof -
  have "\<not> (path_filename p \<noteq> [] \<and> hd (path_filename p) = CHR ''/'')"
    using filename_no_slash [of p] by (metis hd_in_set)
  moreover have "\<exists>q. path_append (parent_path h) (path_filename p) = q @ path_filename p"
    by (auto simp: path_append_def)
  ultimately show ?thesis
    using filename_cert_name [OF assms] by (metis cert_name_append link_target_def)
qed

lemma wf_resolve:
  assumes "wf_disk d"
  obtains q where "resolve 41 d p = Some q" and "cert_name p \<Longrightarrow> q = p"
    and "\<And>t. map_of d q \<noteq> Some (Symlink t)"
proof -
  have f: "resolve (Suc (Suc n)) d r = Some r" if "cert_name r" for n r
    using assms that by (auto simp: wf_disk_def split: option.splits node.splits)
  show thesis
  proof (cases "\<exists>t. map_of d p = Some (Symlink t)")
    case True
    then obtain t where t: "map_of d p = Some (Symlink t)" by blast
    then have c: "\<not> cert_name p" "cert_name (link_target p t)" using assms by (auto simp: wf_disk_def)
    then have "resolve 41 d p = Some (link_target p t)"
      using t f [of "link_target p t" 38] by (simp add: eval_nat_numeral)
    with c assms that [of "link_target p t"] show thesis by (auto simp: wf_disk_def)
  next
    case False
    then have "resolve 41 d p = Some p"
      by (simp add: eval_nat_numeral split: option.splits node.splits)
    with False that show thesis by blast
  qed
qed

lemma wf_status_cert: "wf_disk d \<Longrightarrow> cert_name p \<Longrightarrow> fs_status d p = Inr (map_of d p)"
  using wf_resolve [of d p] by (metis (no_types, lifting) fs_status_def option.simps(5))

lemma wf_exists: "wf_disk d \<Longrightarrow> \<exists>b. fs_exists d p = Inr b"
  using wf_resolve [of d p] by (fastforce simp: fs_exists_def fs_status_def)


lemma wf_update_file: "wf_disk d \<Longrightarrow> cert_name p \<Longrightarrow> wf_disk (AList.update p (File c) d)"
  by (auto simp: wf_disk_def update_conv')

lemma wf_add_link:
  "wf_disk d \<Longrightarrow> cert_name p \<Longrightarrow> \<not> cert_name h \<Longrightarrow>
     wf_disk (AList.update h (Symlink (path_filename p)) d)"
  by (auto simp: wf_disk_def update_conv' link_target_cert)


lemma store_map_update:
  "plain_id i \<Longrightarrow> store_map sp (AList.update (getCertificatePath sp i f) (File c) d) =
     (store_map sp d)((i, f = PEM) \<mapsto> c)"
  by (auto simp: store_map_def fun_eq_iff update_conv')

lemma store_map_add_link:
  "\<not> cert_name h \<Longrightarrow> store_map sp (AList.update h (Symlink t) d) = store_map sp d"
  by (auto simp: store_map_def fun_eq_iff update_conv')


text \<open>The search for a link name ends within the hundred names it may try.\<close>

lemma next_hash_path_bound:
  "next_hash_path d dir h i = Inr (p, j) \<Longrightarrow> i < 100 \<Longrightarrow>
     i < j \<and> j \<le> 100 \<and> p = hash_path dir h (j - 1) \<and>
     (\<forall>k. i \<le> k \<and> k < j - 1 \<longrightarrow> fs_exists d (hash_path dir h k) = Inr True) \<and>
     (j < 100 \<longrightarrow> fs_exists d p = Inr False)"
proof (induction d dir h i rule: next_hash_path.induct)
  case (1 d dir h i)
  show ?case
  proof (cases "fs_exists d (hash_path dir h i)")
    case (Inl e)
    with "1.prems" show ?thesis by (simp add: next_hash_path.simps [of d dir h i])
  next
    case (Inr there)
    show ?thesis
    proof (cases "there \<and> i + 1 < 100")
      case True
      with Inr "1.prems"(1) have "next_hash_path d dir h (i + 1) = Inr (p, j)"
        by (simp add: next_hash_path.simps [of d dir h i])
      from "1.IH" [OF Inr True this] True Inr show ?thesis
        by (auto simp: le_Suc_eq Suc_le_eq dest: le_neq_implies_less)
    next
      case False
      with Inr "1.prems" show ?thesis
        by (auto simp: next_hash_path.simps [of d dir h i] split: if_splits)
    qed
  qed
qed

lemma next_hash_path_total: "wf_disk d \<Longrightarrow> \<exists>p j. next_hash_path d dir h i = Inr (p, j)"
proof (induction d dir h i rule: next_hash_path.induct)
  case (1 d dir h i)
  from wf_exists [OF "1.prems", of "hash_path dir h i"] obtain b
    where "fs_exists d (hash_path dir h i) = Inr b" by blast
  with 1 show ?case by (subst next_hash_path.simps) auto
qed

lemma createCertificateHashFile_wf:
  assumes "wf_disk d" and "cert_name p"
  obtains b d' where "createCertificateHashFile ssl os d x p = Inr (b, d')" and "wf_disk d'"
    and "\<And>sp. store_map sp d' = store_map sp d"
proof -
  obtain h j where n: "next_hash_path d (parent_path p)
      (hash_string (X509_subject_name_hash ssl x)) 0 = Inr (h, j)"
    using next_hash_path_total [OF assms(1)] by blast
  then have "\<not> cert_name h" using next_hash_path_bound [OF n] hash_path_no_cert by auto
  then have l: "wf_disk d'" "store_map sp d' = store_map sp d"
    if "create_symlink os d (path_filename p) h = (b, d')" for b d' sp
    using that assms by (auto simp: create_symlink_def wf_add_link store_map_add_link split: if_splits)
  obtain b d' where c: "create_symlink os d (path_filename p) h = (b, d')" by fastforce
  show thesis
  proof (cases "100 \<le> j")
    case True
    with n assms that [of False d] show thesis by (simp add: createCertificateHashFile_def)
  next
    case False
    with n c l [OF c] that [of b d'] show thesis by (simp add: createCertificateHashFile_def)
  qed
qed

lemma store_spec:
  assumes "wf_disk d" and "healthy sp os" and "plain_id i"
  obtains b d' where
    "storeCertificate ssl os sp d cert fmt i = ((b, if b then getCertificatePath sp i fmt else []), d')"
    and "b \<longleftrightarrow> cert \<noteq> [] \<and> i \<noteq> [] \<and> length cert \<le> MAX_CERTIFICATE_SIZE"
    and "wf_disk d'"
    and "store_map sp d' = (if b then (store_map sp d)((i, fmt = PEM) \<mapsto> cert) else store_map sp d)"
proof (cases "cert \<noteq> [] \<and> i \<noteq> [] \<and> length cert \<le> MAX_CERTIFICATE_SIZE")
  case False
  with assms that [of False d] show thesis by (auto simp: storeCertificate_def)
next
  case ok: True
  let ?p = "getCertificatePath sp i fmt" and ?d = "AList.update (getCertificatePath sp i fmt) (File cert) d"
  from wf_resolve [OF assms(1), of ?p] have "resolve 41 d ?p = Some ?p" by (metis cert_name_path)
  moreover have "map_of d ?p \<noteq> Some Dir" using assms(1) by (simp add: wf_disk_def)
  ultimately have w: "write_file os d ?p cert = (Written, ?d)"
    using ok healthyD [OF assms(2) _ assms(3)] by (simp add: write_file_def)
  have wf: "wf_disk ?d" using assms(1) by (simp add: wf_update_file)
  show thesis
  proof (cases "parseCertificate ssl cert fmt")
    case None
    with ok w wf that [of True ?d] assms(3) show thesis
      by (simp add: storeCertificate_def Let_def store_map_update)
  next
    case (Some x)
    obtain b d' where c: "createCertificateHashFile ssl os ?d x ?p = Inr (b, d')" and "wf_disk d'"
      and "store_map sp d' = store_map sp ?d"
      using createCertificateHashFile_wf [OF wf cert_name_path] by metis
    with ok w Some that [of True d'] assms(3) show thesis
      by (simp add: storeCertificate_def Let_def store_map_update)
  qed
qed

lemma retrieve_spec:
  assumes "wf_disk d" and "healthy sp os" and "plain_id i"
  shows "retrieveCertificate os sp d i fmt = (case store_map sp d (i, fmt = PEM) of
     Some c \<Rightarrow> if i \<noteq> [] \<and> length c \<le> MAX_CERTIFICATE_SIZE then c else [] | None \<Rightarrow> [])"
  using assms healthyD(2) [OF assms(2) _ assms(3)]
  by (auto simp: retrieveCertificate_def Let_def wf_status_cert store_map_def
      path_by_format getCertificatePath_def [symmetric] split: option.splits node.splits)




section \<open>The trust store implements a map\<close>


definition working_os :: os where
  "working_os = \<lparr>can_write = \<lambda>_. True, short_write = \<lambda>_ _. None, can_read = \<lambda>_. True,
     can_link = \<lambda>_. True, can_remove = \<lambda>_. True, can_mkdir = \<lambda>_. True\<rparr>"

text \<open>A stand-in for OpenSSL: a certificate is any byte string, its subject the first byte.\<close>

definition sample_ssl :: "(byte list, int) openssl" where
  "sample_ssl = \<lparr>PEM_read_bio_X509 = (\<lambda>b. if hd b = 0x2D then Some b else None),
     d2i_X509_bio = (\<lambda>b. if hd b = 0x30 then Some b else None),
     X509_subject_name_hash = (\<lambda>b. unat (hd b)),
     X509_get0_notBefore = (\<lambda>_. Some 10), X509_get0_notAfter = (\<lambda>_. Some 20),
     X509_cmp_time = (\<lambda>t now. if t \<le> now then -1 else 1), X509_has_pubkey = (\<lambda>_. True),
     PEM_write_bio_X509 = Some, i2d_X509_bio = Some\<rparr>"


section \<open>The interface of the trust store\<close>

text \<open>
  What the exchange uses of a \<open>CertificateTrustStore\<close>, as a record of its virtual functions,
  and the opening of a file by its path (an input stream on the path \<open>storeCertificate\<close>
  returned).
\<close>

record 's trust_store =
  ts_store :: "'s \<Rightarrow> byte list \<Rightarrow> CertificateFormat \<Rightarrow> string \<Rightarrow> (bool \<times> string) \<times> 's"
  ts_retrieve :: "'s \<Rightarrow> string \<Rightarrow> CertificateFormat \<Rightarrow> byte list"
  ts_open :: "'s \<Rightarrow> string \<Rightarrow> byte list option"

definition open_file :: "os \<Rightarrow> disk \<Rightarrow> string \<Rightarrow> byte list option" where
  "open_file os d p = (case fs_status d p of
     Inr (Some (File bytes)) \<Rightarrow> if can_read os p then Some bytes else None | _ \<Rightarrow> None)"

definition file_trust_store :: "('x, 't) openssl \<Rightarrow> os \<Rightarrow> string \<Rightarrow> disk trust_store" where
  "file_trust_store ssl os storePath =
     \<lparr>ts_store = storeCertificate ssl os storePath, ts_retrieve = retrieveCertificate os storePath,
      ts_open = open_file os\<rparr>"

locale certificate_store =
  fixes ts :: "'s trust_store" and ok :: "'s \<Rightarrow> bool" and admissible :: "string \<Rightarrow> bool"
  assumes store_ok: "ok s \<Longrightarrow> admissible i \<Longrightarrow> ts_store ts s c f i = (r, s') \<Longrightarrow> ok s'"
    and store_accepts: "ok s \<Longrightarrow> admissible i \<Longrightarrow> ts_store ts s c f i = ((b, p), s') \<Longrightarrow>
      b \<longleftrightarrow> c \<noteq> [] \<and> i \<noteq> [] \<and> length c \<le> MAX_CERTIFICATE_SIZE"
    and retrieve_stored: "ok s \<Longrightarrow> admissible i \<Longrightarrow> ts_store ts s c f i = ((True, p), s') \<Longrightarrow>
      ts_retrieve ts s' i f = c \<and> ts_open ts s' p = Some c"
    and retrieve_other: "ok s \<Longrightarrow> admissible i \<Longrightarrow> admissible j \<Longrightarrow> ts_store ts s c f i = (r, s') \<Longrightarrow>
      (j, g = PEM) \<noteq> (i, f = PEM) \<Longrightarrow> ts_retrieve ts s' j g = ts_retrieve ts s j g"
    and retrieve_bounded: "length (ts_retrieve ts s i f) \<le> MAX_CERTIFICATE_SIZE"

lemma stored_result:
  assumes "wf_disk d \<and> healthy sp os" and "plain_id i" and "storeCertificate ssl os sp d c f i = ((b, p), d')"
  shows "b \<longleftrightarrow> c \<noteq> [] \<and> i \<noteq> [] \<and> length c \<le> MAX_CERTIFICATE_SIZE"
    and "b \<Longrightarrow> p = getCertificatePath sp i f" and "wf_disk d'"
    and "store_map sp d' = (if b then (store_map sp d)((i, f = PEM) \<mapsto> c) else store_map sp d)"
proof -
  obtain b' e where "storeCertificate ssl os sp d c f i =
      ((b', if b' then getCertificatePath sp i f else []), e)"
    and "b' \<longleftrightarrow> c \<noteq> [] \<and> i \<noteq> [] \<and> length c \<le> MAX_CERTIFICATE_SIZE" and "wf_disk e"
    and "store_map sp e = (if b' then (store_map sp d)((i, f = PEM) \<mapsto> c) else store_map sp d)"
    by (rule store_spec [OF conjunct1 [OF assms(1)] conjunct2 [OF assms(1)] assms(2)])
  with assms(3) show "b \<longleftrightarrow> c \<noteq> [] \<and> i \<noteq> [] \<and> length c \<le> MAX_CERTIFICATE_SIZE"
    and "b \<Longrightarrow> p = getCertificatePath sp i f" and "wf_disk d'"
    and "store_map sp d' = (if b then (store_map sp d)((i, f = PEM) \<mapsto> c) else store_map sp d)"
    by (auto split: if_splits)
qed

interpretation file_store: certificate_store
  "file_trust_store ssl os sp" "\<lambda>d. wf_disk d \<and> healthy sp os" plain_id for ssl os sp
proof
  fix d c f i r d'
  assume d: "wf_disk d \<and> healthy sp os" and i: "plain_id i"
    and s: "ts_store (file_trust_store ssl os sp) d c f i = (r, d')"
  obtain b p where "r = (b, p)" by fastforce
  with s have s: "storeCertificate ssl os sp d c f i = ((b, p), d')"
    by (simp add: file_trust_store_def)
  note st = stored_result [OF d i s]
  show "wf_disk d' \<and> healthy sp os" using st(3) d by simp
  show "ts_retrieve (file_trust_store ssl os sp) d' j g = ts_retrieve (file_trust_store ssl os sp) d j g"
    if "plain_id j" "(j, g = PEM) \<noteq> (i, f = PEM)" for j g
  proof -
    have "store_map sp d' (j, g = PEM) = store_map sp d (j, g = PEM)" using that st(4) by auto
    then show ?thesis using d st(3) that(1) by (simp add: file_trust_store_def retrieve_spec)
  qed
next
  fix d c f i b p d'
  assume d: "wf_disk d \<and> healthy sp os" and i: "plain_id i"
    and s: "ts_store (file_trust_store ssl os sp) d c f i = ((b, p), d')"
  then have s: "storeCertificate ssl os sp d c f i = ((b, p), d')"
    by (simp add: file_trust_store_def)
  show "b \<longleftrightarrow> c \<noteq> [] \<and> i \<noteq> [] \<and> length c \<le> MAX_CERTIFICATE_SIZE"
    by (rule stored_result(1) [OF d i s])
next
  fix d c f i p d'
  assume d: "wf_disk d \<and> healthy sp os" and i: "plain_id i"
    and s: "ts_store (file_trust_store ssl os sp) d c f i = ((True, p), d')"
  then have s: "storeCertificate ssl os sp d c f i = ((True, p), d')"
    by (simp add: file_trust_store_def)
  note st = stored_result [OF d i s]
  from st(4) have "store_map sp d' (i, f = PEM) = Some c" by simp
  then have "map_of d' p = Some (File c)"
    by (auto simp: store_map_def st(2) path_by_format split: option.splits node.splits if_splits)
  with st d i have "open_file os d' p = Some c" by (simp add: open_file_def wf_status_cert healthyD)
  moreover have "retrieveCertificate os sp d' i f = c" using st d i by (simp add: retrieve_spec)
  ultimately show "ts_retrieve (file_trust_store ssl os sp) d' i f = c
      \<and> ts_open (file_trust_store ssl os sp) d' p = Some c"
    by (simp add: file_trust_store_def)
next
  show "length (ts_retrieve (file_trust_store ssl os sp) d i f) \<le> MAX_CERTIFICATE_SIZE" for d i f
    by (auto simp: file_trust_store_def retrieveCertificate_def Let_def
        split: sum.splits option.splits node.splits)
qed

text \<open>
  The identifier is not checked: one with two dots and a slash is stored outside the directory
  of the store.
\<close>

lemma identifier_leaves_store:
  "fst (storeCertificate sample_ssl working_os ''/s'' [] [1] PEM ''../other'') = (True, ''/s/../other.pem'')"
proof -
  have "resolve 41 [] p = Some p" for p using resolve.simps(2) [of 40 "[]" p] by simp
  then show ?thesis
    by (simp add: storeCertificate_def MAX_CERTIFICATE_SIZE_def getCertificatePath_def write_file_def working_os_def
        parseCertificate_def sample_ssl_def Let_def)
qed

section \<open>Hash links\<close>

text \<open>
  Only the indices 0 to 98 are ever used: with these names taken, no link is made although
  index 99 is free, because the loop leaves with the index already advanced.
\<close>

lemma last_hash_index_unused:
  assumes "\<forall>k<99. fs_exists d (hash_path (parent_path p) h k) = Inr True"
    and "fs_exists d (hash_path (parent_path p) h 99) = Inr b"
    and "h = hash_string (X509_subject_name_hash ssl x)"
  shows "createCertificateHashFile ssl os d x p = Inr (False, d)"
proof -
  have "next_hash_path d (parent_path p) h 99 = Inr (hash_path (parent_path p) h 99, 100)"
    using assms(2) by (simp add: next_hash_path.simps)
  moreover have "n \<le> 99 \<Longrightarrow> next_hash_path d (parent_path p) h (99 - n)
      = next_hash_path d (parent_path p) h 99" for n
  proof (induction n)
    case (Suc n)
    have "next_hash_path d (parent_path p) h (99 - Suc n) = next_hash_path d (parent_path p) h (99 - n)"
    proof (subst next_hash_path.simps)
      have "99 - Suc n < 99" "99 - Suc n + 1 = 99 - n" using Suc.prems by simp_all
      with assms(1) Suc.prems show "(case fs_exists d (hash_path (parent_path p) h (99 - Suc n)) of
          Inl e \<Rightarrow> Inl e
        | Inr there \<Rightarrow> if there \<and> 99 - Suc n + 1 < 100
            then next_hash_path d (parent_path p) h (99 - Suc n + 1)
            else Inr (hash_path (parent_path p) h (99 - Suc n), 99 - Suc n + 1))
        = next_hash_path d (parent_path p) h (99 - n)" by simp
    qed
    with Suc show ?case by simp
  qed simp
  from this [of 99] have "next_hash_path d (parent_path p) h 0 = next_hash_path d (parent_path p) h 99"
    by simp
  ultimately show ?thesis using assms(3) by (simp add: createCertificateHashFile_def)
qed

text \<open>Removing a certificate leaves its hash links behind.\<close>

lemma remove_keeps_links:
  "removeCertificate os sp d i = (b, d') \<Longrightarrow> \<not> cert_name p \<Longrightarrow> map_of d' p = map_of d p"
proof -
  assume r: "removeCertificate os sp d i = (b, d')" and p: "\<not> cert_name p"
  have "map_of e' p = map_of e p"
    if "remove_existing os e (getCertificatePath sp i f) = Inr (c, e')" for e e' c f
    using that p cert_name_path [of sp i f]
    by (auto simp: remove_existing_def fs_remove_def ebind_eq_Inr delete_conv' split: if_splits)
  with r show ?thesis
    by (auto simp: removeCertificate_def split: if_splits sum.splits prod.splits)
qed

text \<open>The list of certificates contains the stems of the hash links as well.\<close>

lemma links_are_listed:
  "listCertificates ''/s'' (snd (storeCertificate sample_ssl working_os ''/s'' [(''/s'', Dir)]
      [0x30, 1] DER ''x'')) = [''x'', ''00000030'']"
proof -
  have r: "resolve 41 e p = (case map_of e p of
      Some (Symlink t) \<Rightarrow> resolve 40 e (link_target p t) | _ \<Rightarrow> Some p)" for e p
    using resolve.simps(2) [of 40 e p] by simp
  have r': "resolve 40 e p = (case map_of e p of
      Some (Symlink t) \<Rightarrow> resolve 39 e (link_target p t) | _ \<Rightarrow> Some p)" for e p
    using resolve.simps(2) [of 39 e p] by simp
  have z: "replicate 6 (c :: char) = [c, c, c, c, c, c]" for c by (simp add: numeral_eq_Suc)
  have c: "char_of (48 :: nat) = CHR ''0''" by code_simp
  show ?thesis
    by (simp add: Let_def c storeCertificate_def MAX_CERTIFICATE_SIZE_def getCertificatePath_def write_file_def
      working_os_def sample_ssl_def parseCertificate_def createCertificateHashFile_def
      next_hash_path.simps fs_exists_def fs_status_def r r' z
      hash_path_def path_append_def parent_path_def path_filename_def to_string.simps hash_string_def
      hex_string.simps hex_digit_def create_symlink_def listCertificates_def dir_entries_def
      link_target_def path_stem_def)
qed

end
