(* ===== verification/SpdmExchange.thy ===== *)
theory SpdmExchange
  imports SpdmStore
begin

text \<open>
  The certificate exchange between an SPDM requester and an SPDM responder on top of the
  messages of \<open>SpdmMessages\<close> and the trust store of \<open>SpdmStore\<close>:

  \<^item> the responder's handlers (\<open>spdm_responder/src/cert_exchange_handler.hpp\<close>), the table that
    maps a message code to its handler (\<open>spdm_responder.hpp\<close>, \<open>custom_message_handlers.hpp\<close>) and
    the dispatcher (\<open>custom_message_dispatcher.hpp\<close>);
  \<^item> the requester (\<open>spdm_requester/src/cert_exchange_requester.hpp\<close>).

  OpenSSL is the record \<open>openssl\<close> of \<open>SpdmStore\<close>; the clock is the argument \<open>now\<close>. The requester's
  send and receive functions are arguments over a world of their own; the theorems that join
  the two sides instantiate it with the responder at the other end.
\<close>

section \<open>The responder\<close>

text \<open>
  \<open>CertificateExchangeHandler\<close>; \<open>h_trustStore\<close> says whether the shared pointer to the store is set.
\<close>

record cert_handler =
  h_trustStore :: bool
  h_deviceId :: string
  h_responderCert :: "byte list"
  h_responderCertPath :: string
  h_responderCertFormat :: CertificateFormat

definition CertificateExchangeHandler :: "bool \<Rightarrow> string \<Rightarrow> cert_handler" where
  "CertificateExchangeHandler trustStore deviceId =
     \<lparr>h_trustStore = trustStore, h_deviceId = deviceId, h_responderCert = [],
      h_responderCertPath = [], h_responderCertFormat = DER\<rparr>"

text \<open>\<open>loadCertificate\<close> of \<open>cert_generator.hpp\<close>, from a buffer.\<close>

definition loadCertificate :: "('x, 't) openssl \<Rightarrow> byte list \<Rightarrow> bool \<Rightarrow> 'x option" where
  "loadCertificate ssl certData pem =
     (if certData = [] then None
      else if pem then PEM_read_bio_X509 ssl certData else d2i_X509_bio ssl certData)"

definition handler_parseCertificate :: "('x, 't) openssl \<Rightarrow> byte list \<Rightarrow> 'x option" where
  "handler_parseCertificate ssl cert = (case loadCertificate ssl cert False of
     Some x \<Rightarrow> Some x | None \<Rightarrow> loadCertificate ssl cert True)"

text \<open>The body that checked the signature is commented out.\<close>

definition verifyCertificateSignature :: "'x \<Rightarrow> bool" where
  "verifyCertificateSignature cert = True"

definition checkCertificateValidityPeriod :: "('x, 't) openssl \<Rightarrow> int \<Rightarrow> 'x \<Rightarrow> bool" where
  "checkCertificateValidityPeriod ssl now cert = (case X509_get0_notBefore ssl cert of
     None \<Rightarrow> False
   | Some notBefore \<Rightarrow>
       if X509_cmp_time ssl notBefore now > 0 then False
       else case X509_get0_notAfter ssl cert of
         None \<Rightarrow> False
       | Some notAfter \<Rightarrow> if X509_cmp_time ssl notAfter now < 0 then False else True)"

definition validateCertificate :: "('x, 't) openssl \<Rightarrow> int \<Rightarrow> byte list \<Rightarrow> bool" where
  "validateCertificate ssl now cert =
     (if cert = [] \<or> length cert > MAX_CERTIFICATE_SIZE then False
      else case handler_parseCertificate ssl cert of
        None \<Rightarrow> False
      | Some x \<Rightarrow>
          if \<not> verifyCertificateSignature x then False
          else if \<not> checkCertificateValidityPeriod ssl now x then False else True)"

text \<open>\<open>None\<close> is the dereference of a null pointer to the store.\<close>

definition handlePushCertificate ::
  "('x, 't) openssl \<Rightarrow> int \<Rightarrow> 's trust_store \<Rightarrow> cert_handler \<Rightarrow> 's \<Rightarrow> byte list
     \<Rightarrow> (byte list \<times> 's) option" where
  "handlePushCertificate ssl now ts h s request =
     (case deserializePushCertificateRequest request of
        Inl e \<Rightarrow> Some (createPushCertificateResponse 0x12 CERT_EXCHANGE_ERROR_INVALID_REQUEST, s)
      | Inr (req, cert) \<Rightarrow>
          if \<not> validateCertificate ssl now cert
          then Some (createPushCertificateResponse 0x12 CERT_EXCHANGE_ERROR_INVALID_CERT, s)
          else if \<not> h_trustStore h then None
          else case ts_store ts s cert (push_req_cert_format req) (''requester_'' @ h_deviceId h) of
            ((ret, certPath), s') \<Rightarrow>
              if \<not> ret
              then Some (createPushCertificateResponse 0x12 CERT_EXCHANGE_ERROR_STORAGE_FULL, s')
              else Some (createPushCertificateResponse 0x12 CERT_EXCHANGE_SUCCESS, s'))"

definition loadResponderCertificate :: "'s trust_store \<Rightarrow> cert_handler \<Rightarrow> 's \<Rightarrow> byte list" where
  "loadResponderCertificate ts h s =
     (if h_responderCert h \<noteq> [] then h_responderCert h
      else let from_path =
          (if h_responderCertPath h = [] then []
           else case ts_open ts s (h_responderCertPath h) of
             None \<Rightarrow> []
           | Some cert \<Rightarrow> if 0 < length cert \<and> length cert \<le> MAX_CERTIFICATE_SIZE then cert else [])
        in if from_path \<noteq> [] then from_path
           else if h_trustStore h
           then ts_retrieve ts s (''responder_'' @ h_deviceId h) (h_responderCertFormat h)
           else [])"

text \<open>The \<open>catch\<close> clause builds a response as well; \<open>Inl\<close> would be an exception leaving it.\<close>

definition handlePullCertificate ::
  "'s trust_store \<Rightarrow> cert_handler \<Rightarrow> 's \<Rightarrow> byte list \<Rightarrow> exn + byte list" where
  "handlePullCertificate ts h s request =
     (case (case deserializePullCertificateRequest request of
              Inl e \<Rightarrow> Inl e
            | Inr req \<Rightarrow>
                let certData = loadResponderCertificate ts h s in
                if certData = []
                then createPullCertificateResponse 0x12 CERT_EXCHANGE_ERROR_NOT_FOUND []
                       (h_responderCertFormat h)
                else createPullCertificateResponse 0x12 CERT_EXCHANGE_SUCCESS certData
                       (h_responderCertFormat h)) of
        Inr response \<Rightarrow> Inr response
      | Inl e \<Rightarrow> createPullCertificateResponse 0x12 CERT_EXCHANGE_ERROR_INVALID_REQUEST []
                   (h_responderCertFormat h))"

definition setResponderCertificatePath ::
  "cert_handler \<Rightarrow> string \<Rightarrow> CertificateFormat \<Rightarrow> cert_handler" where
  "setResponderCertificatePath h certPath format =
     h\<lparr>h_responderCertPath := certPath, h_responderCertFormat := format, h_responderCert := []\<rparr>"


text \<open>
  The D-Bus object with the \<open>provisioned\<close> property (\<open>responder_object.hpp\<close>); a null pointer to it
  is \<open>None\<close>.
\<close>

record responder_object =
  obj_deviceId :: string
  obj_provisioned :: bool

definition setProvisioned :: "responder_object \<Rightarrow> bool \<Rightarrow> responder_object" where
  "setProvisioned obj v = obj\<lparr>obj_provisioned := v\<rparr>"

definition handleSetProvisioned ::
  "responder_object option \<Rightarrow> byte list \<Rightarrow> byte list \<times> responder_object option" where
  "handleSetProvisioned responderObject request =
     (case deserializeSetProvisionedRequest request of
        Inl e \<Rightarrow>
          (createSetProvisionedResponse 0x12 CERT_EXCHANGE_ERROR_INVALID_REQUEST, responderObject)
      | Inr req \<Rightarrow>
          (case responderObject of
             Some obj \<Rightarrow> (createSetProvisionedResponse 0x12 1,
                           Some (setProvisioned obj (prov_req_provisioned req \<noteq> 0)))
           | None \<Rightarrow>
               (createSetProvisionedResponse 0x12 CERT_EXCHANGE_ERROR_INVALID_REQUEST, None)))"

section \<open>Dispatch\<close>

text \<open>The closures made by \<open>CustomMessageHandlerFactory\<close>, and the table of the constructor of
  \<open>SpdmResponder\<close>.\<close>

datatype custom_handler =
    PushCertificateHandler
  | PullCertificateHandler
  | SetProvisionedHandler

type_synonym handler_table = "byte \<rightharpoonup> custom_handler"

record 's responder =
  rsp_handler :: cert_handler
  rsp_store :: 's
  rsp_object :: "responder_object option"
  rsp_handlers :: handler_table

definition addCustomMessageHandler ::
  "'s responder \<Rightarrow> byte \<Rightarrow> custom_handler \<Rightarrow> 's responder" where
  "addCustomMessageHandler r code handler = r\<lparr>rsp_handlers := (rsp_handlers r)(code \<mapsto> handler)\<rparr>"

definition hasHandler :: "'s responder \<Rightarrow> byte \<Rightarrow> bool" where
  "hasHandler r code \<longleftrightarrow> rsp_handlers r code \<noteq> None"

definition responder_certPath :: string where
  "responder_certPath = ''/etc/ssl/certs/self_ca.pem''"

definition responder_loadResponderCertificate ::
  "'s trust_store \<Rightarrow> 's \<Rightarrow> cert_handler \<Rightarrow> cert_handler" where
  "responder_loadResponderCertificate ts s h =
     (if ts_open ts s responder_certPath \<noteq> None
      then setResponderCertificatePath h responder_certPath PEM else h)"

definition SpdmResponder :: "'s trust_store \<Rightarrow> 's \<Rightarrow> responder_object option \<Rightarrow> 's responder" where
  "SpdmResponder ts s dbusObj =
     \<lparr>rsp_handler = responder_loadResponderCertificate ts s
        (CertificateExchangeHandler True ''responder''),
      rsp_store = s, rsp_object = dbusObj,
      rsp_handlers = [SPDM_PUSH_CERTIFICATE \<mapsto> PushCertificateHandler,
        SPDM_PULL_CERTIFICATE \<mapsto> PullCertificateHandler,
        SPDM_SET_PROVISIONED \<mapsto> SetProvisionedHandler]\<rparr>"

definition run_handler ::
  "('x, 't) openssl \<Rightarrow> int \<Rightarrow> 's trust_store \<Rightarrow> 's responder \<Rightarrow> custom_handler \<Rightarrow> byte list
     \<Rightarrow> (byte list \<times> 's responder) option" where
  "run_handler ssl now ts r handler request = (case handler of
     PushCertificateHandler \<Rightarrow>
       (case handlePushCertificate ssl now ts (rsp_handler r) (rsp_store r) request of
          None \<Rightarrow> None
        | Some (response, s') \<Rightarrow> Some (response, r\<lparr>rsp_store := s'\<rparr>))
   | PullCertificateHandler \<Rightarrow>
       (case handlePullCertificate ts (rsp_handler r) (rsp_store r) request of
          Inl e \<Rightarrow> None
        | Inr response \<Rightarrow> Some (response, r))
   | SetProvisionedHandler \<Rightarrow>
       (case handleSetProvisioned (rsp_object r) request of
          (response, obj) \<Rightarrow> Some (response, r\<lparr>rsp_object := obj\<rparr>)))"

definition dispatchToHandler ::
  "('x, 't) openssl \<Rightarrow> int \<Rightarrow> 's trust_store \<Rightarrow> 's responder \<Rightarrow> byte list
     \<Rightarrow> (byte list \<times> 's responder) option" where
  "dispatchToHandler ssl now ts r messageData =
     (if length messageData < 4 \<or> length messageData > MAX_CERTIFICATE_SIZE then Some ([], r)
      else case rsp_handlers r (request_response_code (header_of_bytes messageData)) of
        None \<Rightarrow> Some ([], r)
      | Some handler \<Rightarrow> run_handler ssl now ts r handler messageData)"

text \<open>The older entry point, which sends the response through a callback when one is set.\<close>

definition handleCustomMessage ::
  "('x, 't) openssl \<Rightarrow> int \<Rightarrow> 's trust_store \<Rightarrow> (byte list \<Rightarrow> bool) option \<Rightarrow> 's responder
     \<Rightarrow> byte list \<Rightarrow> (bool \<times> 's responder) option" where
  "handleCustomMessage ssl now ts sendCallback r messageData =
     (case dispatchToHandler ssl now ts r messageData of
        None \<Rightarrow> None
      | Some (response, r') \<Rightarrow>
          if response = [] then Some (False, r')
          else case sendCallback of
            Some send \<Rightarrow> Some (send response, r')
          | None \<Rightarrow> Some (True, r'))"

section \<open>The requester\<close>

record 'w transport =
  sendFunc :: "(byte list \<Rightarrow> 'w \<Rightarrow> bool \<times> 'w) option"
  receiveFunc :: "('w \<Rightarrow> (bool \<times> byte list) \<times> 'w) option"

record 's requester =
  req_store :: 's
  req_deviceId :: string
  req_cert :: "byte list"
  req_certFormat :: CertificateFormat
  req_lastStoredCertPath :: string


definition requester_MAX_CERTIFICATE_SIZE :: nat where
  "requester_MAX_CERTIFICATE_SIZE = 8192"

definition sendMessage :: "'w transport \<Rightarrow> byte list \<Rightarrow> 'w \<Rightarrow> bool \<times> 'w" where
  "sendMessage tr message w = (case sendFunc tr of None \<Rightarrow> (False, w) | Some f \<Rightarrow> f message w)"

definition receiveMessage :: "'w transport \<Rightarrow> 'w \<Rightarrow> (bool \<times> byte list) \<times> 'w" where
  "receiveMessage tr w = (case receiveFunc tr of None \<Rightarrow> ((False, []), w) | Some f \<Rightarrow> f w)"




definition setProvisionedState :: "'w transport \<Rightarrow> bool \<Rightarrow> 'w \<Rightarrow> bool \<times> 'w" where
  "setProvisionedState tr provisioned w =
     (case sendMessage tr (createSetProvisionedRequest 0x12 provisioned) w of (sent, w1) \<Rightarrow>
        if \<not> sent then (False, w1)
        else case receiveMessage tr w1 of ((success, response), w2) \<Rightarrow>
          if \<not> success \<or> length response < 8 then (False, w2)
          else case deserializeSetProvisionedResponse response of
            Inl e \<Rightarrow> (False, w2)
          | Inr resp \<Rightarrow>
              (\<not> (prov_resp_status resp \<noteq> CERT_EXCHANGE_SUCCESS \<and> prov_resp_status resp \<noteq> 1), w2))"

text \<open>\<open>certificateToBio\<close> of \<open>cert_generator.hpp\<close>, with its relaxed validity check.\<close>

definition certificateToBio :: "('x, 't) openssl \<Rightarrow> 'x \<Rightarrow> bool \<Rightarrow> byte list option" where
  "certificateToBio ssl cert pem =
     (if \<not> X509_has_pubkey ssl cert then None
      else if pem then PEM_write_bio_X509 ssl cert else i2d_X509_bio ssl cert)"

definition loadRequesterCertificate ::
  "('x, 't) openssl \<Rightarrow> 's trust_store \<Rightarrow> 's requester \<Rightarrow> string \<Rightarrow> CertificateFormat
     \<Rightarrow> bool \<times> 's requester" where
  "loadRequesterCertificate ssl ts q certPath format =
     (let isPem = (format = PEM) in
      case ts_open ts (req_store q) certPath of
        None \<Rightarrow> (False, q)
      | Some bytes \<Rightarrow>
          (case (if isPem then PEM_read_bio_X509 ssl bytes else d2i_X509_bio ssl bytes) of
             None \<Rightarrow> (False, q)
           | Some x \<Rightarrow>
               (case certificateToBio ssl x isPem of
                  None \<Rightarrow> (False, q)
                | Some buf \<Rightarrow>
                    if buf = [] then (False, q)
                    else if length buf > requester_MAX_CERTIFICATE_SIZE then (False, q)
                    else (True, q\<lparr>req_cert := buf, req_certFormat := format\<rparr>))))"



section \<open>The handlers\<close>

lemma handler_answers:
  "handlePullCertificate ts h s request \<noteq> Inl e"
proof -
  have "createPullCertificateResponse v st [] f \<noteq> Inl e'" for v st f e'
    using created_pull_response_read [of "[]" v st f "[]"] by auto
  then show ?thesis
    unfolding handlePullCertificate_def by (auto simp: Let_def split: sum.splits)
qed

lemma code_of_header [simp]: "request_response_code (header_of_bytes m) = m ! 1"
  by (simp add: header_of_bytes_def)

lemma created_codes:
  "createPullCertificateRequest v f ! 1 = SPDM_PULL_CERTIFICATE"
  "createSetProvisionedRequest v b ! 1 = SPDM_SET_PROVISIONED"
  by (simp_all add: createPullCertificateRequest_def serializePullCertificateRequest_def
      createSetProvisionedRequest_def serializeSetProvisionedRequest_def serializePOD_def
      bytes_of_pull_req_def bytes_of_prov_req_def bytes_of_header_def message_header_def)


text \<open>
  A time field OpenSSL cannot compare (\<open>X509_cmp_time\<close> returns 0) counts as valid on both sides.
\<close>

lemma malformed_times_accepted:
  assumes "X509_get0_notBefore ssl x = Some b" and "X509_get0_notAfter ssl x = Some a"
    and "X509_cmp_time ssl b now = 0" and "X509_cmp_time ssl a now = 0"
  shows "checkCertificateValidityPeriod ssl now x"
  using assms by (simp add: checkCertificateValidityPeriod_def)


section \<open>Dispatch\<close>

definition standard_handlers :: "'s responder \<Rightarrow> bool" where
  "standard_handlers r \<longleftrightarrow> rsp_handlers r =
     [SPDM_PUSH_CERTIFICATE \<mapsto> PushCertificateHandler,
      SPDM_PULL_CERTIFICATE \<mapsto> PullCertificateHandler,
      SPDM_SET_PROVISIONED \<mapsto> SetProvisionedHandler]"

lemma SpdmResponder_standard: "standard_handlers (SpdmResponder ts s obj)"
  by (simp add: standard_handlers_def SpdmResponder_def)

lemma standard_lookup:
  assumes "standard_handlers r"
  shows "rsp_handlers r SPDM_PUSH_CERTIFICATE = Some PushCertificateHandler"
    and "rsp_handlers r SPDM_PULL_CERTIFICATE = Some PullCertificateHandler"
    and "rsp_handlers r SPDM_SET_PROVISIONED = Some SetProvisionedHandler"
  using assms by (simp_all add: standard_handlers_def spdm_codes)

text \<open>
  The responder changes nothing unless the message asks for it: whatever bytes arrive, the
  trust store changes only through a PUSH message that carries a parsed certificate within its
  validity period, which is then the certificate handed to the store; the provisioned flag
  changes only through a SET_PROVISIONED message, to the value it carries; the handler's own
  settings and the table never change.
\<close>

theorem dispatch_safe:
  assumes "standard_handlers r" and "dispatchToHandler ssl now ts r m = Some (response, r')"
  shows "rsp_handler r' = rsp_handler r \<and> rsp_handlers r' = rsp_handlers r \<and>
    (rsp_store r' \<noteq> rsp_store r \<longrightarrow>
       (\<exists>req cert ret. m ! 1 = SPDM_PUSH_CERTIFICATE \<and>
          deserializePushCertificateRequest m = Inr (req, cert) \<and> validateCertificate ssl now cert \<and>
          ts_store ts (rsp_store r) cert (push_req_cert_format req)
            (''requester_'' @ h_deviceId (rsp_handler r)) = (ret, rsp_store r'))) \<and>
    (rsp_object r' \<noteq> rsp_object r \<longrightarrow>
       (\<exists>obj req. m ! 1 = SPDM_SET_PROVISIONED \<and> rsp_object r = Some obj \<and>
          deserializeSetProvisionedRequest m = Inr req \<and>
          rsp_object r' = Some (obj\<lparr>obj_provisioned := prov_req_provisioned req \<noteq> 0\<rparr>)))"
proof (cases "length m < 4 \<or> length m > MAX_CERTIFICATE_SIZE \<or> rsp_handlers r (m ! 1) = None")
  case True
  then have "r' = r" using assms(2) by (auto simp: dispatchToHandler_def split: if_splits)
  then show ?thesis by simp
next
  case False
  then obtain k where k: "rsp_handlers r (m ! 1) = Some k" by auto
  with False assms(2) have run: "run_handler ssl now ts r k m = Some (response, r')"
    by (simp add: dispatchToHandler_def)
  show ?thesis
  proof (cases k)
    case PushCertificateHandler
    then have "m ! 1 = SPDM_PUSH_CERTIFICATE"
      using k assms(1) by (auto simp: standard_handlers_def split: if_splits)
    moreover from run PushCertificateHandler obtain s'
      where "handlePushCertificate ssl now ts (rsp_handler r) (rsp_store r) m = Some (response, s')"
        and "r' = r\<lparr>rsp_store := s'\<rparr>"
      by (auto simp: run_handler_def split: option.splits prod.splits)
    ultimately show ?thesis
      by (auto simp: handlePushCertificate_def split: sum.splits prod.splits if_splits)
  next
    case PullCertificateHandler
    with run show ?thesis by (auto simp: run_handler_def split: sum.splits)
  next
    case SetProvisionedHandler
    then have "m ! 1 = SPDM_SET_PROVISIONED"
      using k assms(1) by (auto simp: standard_handlers_def split: if_splits)
    moreover from run SetProvisionedHandler obtain obj
      where "handleSetProvisioned (rsp_object r) m = (response, obj)"
        and "r' = r\<lparr>rsp_object := obj\<rparr>"
      by (auto simp: run_handler_def split: prod.splits)
    ultimately show ?thesis
      by (auto simp: handleSetProvisioned_def setProvisioned_def
          split: sum.splits option.splits)
  qed
qed


definition sample_responder :: "disk responder" where
  "sample_responder = SpdmResponder (file_trust_store sample_ssl working_os ''/s'')
     [(''/s'', Dir), (responder_certPath, File [0x2D, 7])] (Some \<lparr>obj_deviceId = ''d'', obj_provisioned = False\<rparr>)"

theorem dispatch_safe_witness:
  "\<exists>response r'. dispatchToHandler sample_ssl 15 (file_trust_store sample_ssl working_os ''/s'')
       sample_responder (createSetProvisionedRequest 0x12 True) = Some (response, r') \<and>
     rsp_object r' \<noteq> rsp_object sample_responder \<and>
     rsp_store r' = rsp_store sample_responder \<and> rsp_handlers r' = rsp_handlers sample_responder"
proof -
  let ?ts = "file_trust_store sample_ssl working_os ''/s''" and ?m = "createSetProvisionedRequest 0x12 True"
  have s: "standard_handlers sample_responder"
    by (simp add: sample_responder_def SpdmResponder_standard)
  obtain req where "deserializeSetProvisionedRequest ?m = Inr req" "prov_req_provisioned req \<noteq> 0"
    using created_acks_read(3) [of "0x12" True] by auto
  then have "\<exists>response r'. dispatchToHandler sample_ssl 15 ?ts sample_responder ?m = Some (response, r') \<and>
      rsp_object r' = Some \<lparr>obj_deviceId = ''d'', obj_provisioned = True\<rparr>"
    using standard_lookup(3) [OF s] created_codes(2) [of "0x12" True]
    by (simp add: dispatchToHandler_def MAX_CERTIFICATE_SIZE_def run_handler_def
        handleSetProvisioned_def setProvisioned_def)
      (simp add: sample_responder_def SpdmResponder_def setProvisioned_def)
  then obtain response r' where d: "dispatchToHandler sample_ssl 15 ?ts sample_responder ?m = Some (response, r')"
    and o: "rsp_object r' = Some \<lparr>obj_deviceId = ''d'', obj_provisioned = True\<rparr>" by blast
  have "?m ! 1 \<noteq> SPDM_PUSH_CERTIFICATE" by (simp only: created_codes) (simp add: spdm_codes)
  with dispatch_safe [OF s d] have "rsp_store r' = rsp_store sample_responder
      \<and> rsp_handlers r' = rsp_handlers sample_responder" by blast
  moreover have "rsp_object sample_responder = Some \<lparr>obj_deviceId = ''d'', obj_provisioned = False\<rparr>"
    by (simp add: sample_responder_def SpdmResponder_def)
  ultimately show ?thesis using d o by auto
qed

section \<open>The connection\<close>

text \<open>
  The synchronous transport between the two sides: \<open>socket_functions.hpp\<close>, the requester's
  callbacks (\<open>spdm_connection.hpp\<close>, \<open>spdm_certificate_client.hpp\<close>) and the responder's session with its dispatch
  loop (\<open>spdm_tcp_server.hpp\<close>, \<open>spdm_protocol_handler.hpp\<close>). The vendor messages go over the TCP
  connection as they are, without a length or a delimiter: what one read returns is taken for a message.

  Parameters (record \<open>net\<close>): what \<open>commit\<close> adds behind a message, whether a write succeeds, how many of the
  available bytes a read takes, and what libspdm makes of a received message: its status and the
  bytes it sends itself.
\<close>

datatype dispatch_status =
    Dispatch_success
  | Dispatch_send_fail
  | Dispatch_receive_fail
  | Dispatch_unsupported_cap
  | Dispatch_invalid_field
  | Dispatch_other nat

record net =
  net_padding :: "byte list \<Rightarrow> byte list"
  net_write :: "byte list \<Rightarrow> bool"
  net_chunk :: "byte list \<Rightarrow> nat \<Rightarrow> nat"
  net_dispatch :: "byte list \<Rightarrow> dispatch_status \<times> byte list"

text \<open>
  \<open>write_with_timeout\<close> writes the message through a stream on the buffer and then commits its size once
  more, so bytes of the buffer behind the message are sent as well.
\<close>

definition write_with_timeout :: "net \<Rightarrow> byte list \<Rightarrow> bool \<times> byte list" where
  "write_with_timeout net m = (if net_write net m then (True, m @ net_padding net m) else (False, []))"




text \<open>The bytes under way in both directions, and the responder's session.\<close>

record 's link =
  lk_up :: "byte list"
  lk_down :: "byte list"
  lk_responder :: "'s responder"
  lk_retries :: nat
  lk_open :: bool

definition maxDispatchRetries :: nat where
  "maxDispatchRetries = 100"

definition checkRetryLimit :: "'s link \<Rightarrow> bool \<times> 's link" where
  "checkRetryLimit l =
     (let n = lk_retries l + 1 in (\<not> n \<ge> maxDispatchRetries, l\<lparr>lk_retries := n\<rparr>))"

definition session_retry :: "'s link \<Rightarrow> 's link" where
  "session_retry l = (case checkRetryLimit l of (True, l) \<Rightarrow> l | (False, l) \<Rightarrow> l\<lparr>lk_open := False\<rparr>)"

definition session_handleCustomMessage ::
  "('x, 't) openssl \<Rightarrow> int \<Rightarrow> 's trust_store \<Rightarrow> net \<Rightarrow> 's link \<Rightarrow> byte list \<Rightarrow> (bool \<times> 's link) option" where
  "session_handleCustomMessage ssl now ts net l m =
     (case dispatchToHandler ssl now ts (lk_responder l) m of
        None \<Rightarrow> None
      | Some (response, r') \<Rightarrow>
          let l = l\<lparr>lk_responder := r'\<rparr> in
          if response = [] then Some (False, l)
          else case write_with_timeout net response of
            (sent, bytes) \<Rightarrow> Some (sent, l\<lparr>lk_down := lk_down l @ bytes\<rparr>))"

definition dispatch_message ::
  "('x, 't) openssl \<Rightarrow> int \<Rightarrow> 's trust_store \<Rightarrow> net \<Rightarrow> 's link \<Rightarrow> byte list \<Rightarrow> 's link" where
  "dispatch_message ssl now ts net l m =
     (case net_dispatch net m of (status, bytes) \<Rightarrow>
        (case status of
           Dispatch_success \<Rightarrow> l\<lparr>lk_retries := 0, lk_down := lk_down l @ bytes\<rparr>
         | Dispatch_send_fail \<Rightarrow> l\<lparr>lk_open := False\<rparr>
         | Dispatch_receive_fail \<Rightarrow> l\<lparr>lk_open := False\<rparr>
         | Dispatch_unsupported_cap \<Rightarrow>
             (case session_handleCustomMessage ssl now ts net l m of
                None \<Rightarrow> l\<lparr>lk_open := False\<rparr>
              | Some (True, l) \<Rightarrow> l\<lparr>lk_retries := 0\<rparr>
              | Some (False, l) \<Rightarrow> session_retry l)
         | _ \<Rightarrow> session_retry l))"

lemma dispatch_message_up [simp]: "lk_up (dispatch_message ssl now ts net l m) = lk_up l"
  by (auto simp: dispatch_message_def session_retry_def checkRetryLimit_def session_handleCustomMessage_def Let_def
      split: dispatch_status.splits option.splits prod.splits bool.splits if_splits)














section \<open>Both sides together\<close>










text \<open>
  The responder answers in its own format whatever the request asked for, and the requester
  stores the answer under the format it asked for.
\<close>

lemma pull_ignores_format:
  "handlePullCertificate ts h s (createPullCertificateRequest v f)
     = handlePullCertificate ts h s (createPullCertificateRequest v g)"
  using created_acks_read(2) [of v f] created_acks_read(2) [of v g]
  by (auto simp: handlePullCertificate_def)

text \<open>
  The dispatcher drops a PUSH message whose certificate is within the limit but whose total
  length is not: there is no response at all.
\<close>

lemma large_push_not_answered:
  assumes "MAX_CERTIFICATE_SIZE - 12 < length cert" and "length cert \<le> MAX_CERTIFICATE_SIZE"
  shows "\<exists>m. createPushCertificateRequest v cert f = Inr m \<and>
    dispatchToHandler ssl now ts r m = Some ([], r)"
  using created_push_read [OF assms(2), of v f "[]"] assms(1)
  by (auto simp: dispatchToHandler_def)

text \<open>The requester takes a refused provisioning (status 1, an invalid certificate) for success.\<close>

lemma set_provisioned_status_ambiguous:
  "setProvisionedState \<lparr>sendFunc = Some (\<lambda>_ w. (True, w)),
     receiveFunc = Some (\<lambda>w. ((True, createSetProvisionedResponse v CERT_EXCHANGE_ERROR_INVALID_CERT), w))\<rparr>
     b w = (True, w)"
proof -
  obtain ack where "deserializeSetProvisionedResponse
      (createSetProvisionedResponse v CERT_EXCHANGE_ERROR_INVALID_CERT) = Inr ack"
    "prov_resp_status ack = CERT_EXCHANGE_ERROR_INVALID_CERT" using created_acks_read(4) by blast
  then show ?thesis
    by (simp add: setProvisionedState_def sendMessage_def receiveMessage_def cert_statuses)
qed

end
