(* ===== verification/SpdmAsync.thy ===== *)
theory SpdmAsync
  imports SpdmExchange
begin

text \<open>
  The asynchronous SPDM programs (\<open>examples/spdm/include/async_socket_functions.hpp\<close>,
  \<open>include/async/*.hpp\<close>, \<open>async_responder/src\<close>): exact reads and writes on a socket, the framing of
  a message by the length in its binding header, the coroutines that fetch the version, the
  digests, the certificate chain and the measurements of a responder, the vendor-defined
  messages, and the responder's session loop and its server.

  libspdm is a parameter: the record \<open>'c spdm_io\<close> has its buffer management and the two
  functions that send a request and receive a response, over a connection state \<open>'c\<close>; the
  message codes of the SPDM standard are the record \<open>spdm_std\<close>. The layouts of the standard
  messages are those of DSP0274: a header of four bytes followed by little-endian fields.
\<close>

section \<open>Reading and writing exactly\<close>

text \<open>
  One call of \<open>TimedStreamer::write\<close> or \<open>TimedStreamer::read\<close> is an argument: the error code and
  the number of bytes written, or the bytes read, at most as many as asked for.
\<close>

function streamer_write_exact ::
  "(byte list \<Rightarrow> 'w \<Rightarrow> (error_code \<times> nat) \<times> 'w) \<Rightarrow> byte list \<Rightarrow> 'w \<Rightarrow> bool \<times> 'w" where
  "streamer_write_exact wr bytes w =
     (if bytes = [] then (True, w)
      else case wr bytes w of ((ec, written), w1) \<Rightarrow>
        if ec \<noteq> None then (False, w1)
        else if written = 0 then (False, w1)
        else streamer_write_exact wr (drop written bytes) w1)"
  by pat_completeness auto
termination
  by (relation "measure (\<lambda>(_, bytes, _). length bytes)") auto

function streamer_read_exact ::
  "(nat \<Rightarrow> 'w \<Rightarrow> (error_code \<times> byte list) \<times> 'w) \<Rightarrow> nat \<Rightarrow> 'w \<Rightarrow> byte list option \<times> 'w" where
  "streamer_read_exact rd n w =
     (if n = 0 then (Some [], w)
      else case rd n w of ((ec, got), w1) \<Rightarrow>
        if ec \<noteq> None then (None, w1)
        else if got = [] then (None, w1)
        else case streamer_read_exact rd (n - length got) w1 of
          (None, w2) \<Rightarrow> (None, w2)
        | (Some others, w2) \<Rightarrow> (Some (got @ others), w2))"
  by pat_completeness auto
termination
  by (relation "measure (\<lambda>(_, n, _). n)") auto

declare streamer_write_exact.simps [simp del] streamer_read_exact.simps [simp del]

definition async_spdm_send ::
  "(byte list \<Rightarrow> 'w \<Rightarrow> (error_code \<times> nat) \<times> 'w) \<Rightarrow> byte list \<Rightarrow> 'w \<Rightarrow> bool \<times> 'w" where
  "async_spdm_send wr bytes w = (if bytes = [] then (True, w) else streamer_write_exact wr bytes w)"

definition payload_length :: "byte list \<Rightarrow> 16 word" where
  "payload_length buf = ucast (buf ! 0) OR push_bit 8 (ucast (buf ! 1))"

text \<open>\<open>capacity\<close> is the value of \<open>size\<close> on entry, the size of the caller's buffer.\<close>

definition async_spdm_receive ::
  "(nat \<Rightarrow> 'w \<Rightarrow> (error_code \<times> byte list) \<times> 'w) \<Rightarrow> nat \<Rightarrow> 'w \<Rightarrow> byte list option \<times> 'w" where
  "async_spdm_receive rd capacity w = (case streamer_read_exact rd 4 w of
     (None, w1) \<Rightarrow> (None, w1)
   | (Some header, w1) \<Rightarrow>
       let total_size = unat (payload_length header) + 2 in
       if total_size < 4 then (None, w1)
       else if total_size > capacity then (None, w1)
       else case streamer_read_exact rd (total_size - 4) w1 of
         (None, w2) \<Rightarrow> (None, w2)
       | (Some rest, w2) \<Rightarrow> (Some (header @ rest), w2))"

section \<open>Requests of the SPDM standard\<close>

datatype libspdm_return =
    STATUS_SUCCESS
  | STATUS_SEND_FAIL
  | STATUS_RECEIVE_FAIL
  | STATUS_INVALID_MSG_SIZE
  | STATUS_INVALID_MSG_FIELD
  | STATUS_INVALID_PARAMETER
  | STATUS_BUFFER_TOO_SMALL
  | STATUS_UNSUPPORTED_CAP
  | STATUS_BUSY_PEER
  | STATUS_ERROR_PEER
  | STATUS_NEGOTIATION_FAIL
  | STATUS_OTHER_ERROR nat

abbreviation is_error :: "libspdm_return \<Rightarrow> bool" where
  "is_error s \<equiv> s \<noteq> STATUS_SUCCESS"

record 'c spdm_io =
  acquire_sender :: "'c \<Rightarrow> libspdm_return"
  acquire_receiver :: "'c \<Rightarrow> libspdm_return"
  send_request :: "byte list \<Rightarrow> 'c \<Rightarrow> libspdm_return \<times> 'c"
  receive_response :: "'c \<Rightarrow> (libspdm_return \<times> byte list) \<times> 'c"

record spdm_std =
  GET_DIGESTS :: byte
  DIGESTS :: byte
  GET_CERTIFICATE :: byte
  CERTIFICATE :: byte
  GET_MEASUREMENTS :: byte
  MEASUREMENTS :: byte
  GENERATE_SIGNATURE :: byte

text \<open>
  The context: the connection, and how many of its two buffers are held (acquired and not
  yet released).
\<close>

record 'c spdm_context =
  conn :: 'c
  conn_version :: byte
  sender_held :: nat
  receiver_held :: nat

text \<open>
  The shape shared by the coroutines below: acquire the sender buffer, write the request into
  it, send it, release the buffer, acquire the receiver buffer, receive, and release that
  buffer when the coroutine leaves (\<open>ScopeExit\<close>), after the response has been looked at.
\<close>

definition request_response ::
  "'c spdm_io \<Rightarrow> byte list \<Rightarrow> 'c spdm_context \<Rightarrow> (libspdm_return + byte list) \<times> 'c spdm_context" where
  "request_response io req ctx =
     (if is_error (acquire_sender io (conn ctx)) then (Inl (acquire_sender io (conn ctx)), ctx)
      else let ctx1 = ctx\<lparr>sender_held := sender_held ctx + 1\<rparr> in
        case send_request io req (conn ctx1) of (status, c2) \<Rightarrow>
          let ctx2 = ctx1\<lparr>conn := c2, sender_held := sender_held ctx1 - 1\<rparr> in
          if is_error status then (Inl status, ctx2)
          else if is_error (acquire_receiver io (conn ctx2))
          then (Inl (acquire_receiver io (conn ctx2)), ctx2)
          else let ctx3 = ctx2\<lparr>receiver_held := receiver_held ctx2 + 1\<rparr> in
            case receive_response io (conn ctx3) of ((status2, resp), c4) \<Rightarrow>
              let ctx4 = ctx3\<lparr>conn := c4, receiver_held := receiver_held ctx3 - 1\<rparr> in
              if is_error status2 then (Inl status2, ctx4) else (Inr resp, ctx4))"

definition popcount :: "byte \<Rightarrow> nat" where
  "popcount b = length (filter (\<lambda>i. bit b i) [0..<8])"

definition le16 :: "byte \<Rightarrow> byte \<Rightarrow> 16 word" where
  "le16 lo hi = ucast lo OR push_bit 8 (ucast hi)"

definition bytes16 :: "16 word \<Rightarrow> byte list" where
  "bytes16 w = [ucast w, ucast (drop_bit 8 w)]"

text \<open>\<open>hash_size\<close> is \<open>libspdm_get_hash_size\<close> of the negotiated algorithm.\<close>

definition libspdm_get_digest_async ::
  "spdm_std \<Rightarrow> nat \<Rightarrow> 'c spdm_io \<Rightarrow> 'c spdm_context
     \<Rightarrow> (libspdm_return + byte \<times> byte list) \<times> 'c spdm_context" where
  "libspdm_get_digest_async std hash_size io ctx =
     (case request_response io [conn_version ctx, GET_DIGESTS std, 0, 0] ctx of
        (Inl status, ctx1) \<Rightarrow> (Inl status, ctx1)
      | (Inr resp, ctx1) \<Rightarrow>
          (if length resp < 4 then (Inl STATUS_INVALID_MSG_SIZE, ctx1)
           else if resp ! 1 \<noteq> DIGESTS std then (Inl STATUS_INVALID_MSG_FIELD, ctx1)
           else let digest_data_size = popcount (resp ! 3) * hash_size in
             if length resp < 4 + digest_data_size then (Inl STATUS_INVALID_MSG_SIZE, ctx1)
             else (Inr (resp ! 3, take digest_data_size (drop 4 resp)), ctx1)))"

text \<open>
  One iteration of the loop that fetches the certificate chain: the portion appended and
  whether the loop goes on.
\<close>

definition get_certificate_portion ::
  "spdm_std \<Rightarrow> 'c spdm_io \<Rightarrow> byte \<Rightarrow> 16 word \<Rightarrow> 'c spdm_context
     \<Rightarrow> (libspdm_return + byte list \<times> 16 word) \<times> 'c spdm_context" where
  "get_certificate_portion std io slot_id offset ctx =
     (case request_response io
         ([conn_version ctx, GET_CERTIFICATE std, slot_id, 0] @ bytes16 offset @ bytes16 0x400) ctx of
        (Inl status, ctx1) \<Rightarrow> (Inl status, ctx1)
      | (Inr resp, ctx1) \<Rightarrow>
          (if length resp < 8 then (Inl STATUS_INVALID_MSG_SIZE, ctx1)
           else if resp ! 1 \<noteq> CERTIFICATE std then (Inl STATUS_INVALID_MSG_FIELD, ctx1)
           else if resp ! 2 \<noteq> slot_id then (Inl STATUS_INVALID_MSG_FIELD, ctx1)
           else let portion_len = unat (le16 (resp ! 4) (resp ! 5)) in
             if length resp < 8 + portion_len then (Inl STATUS_INVALID_MSG_SIZE, ctx1)
             else (Inr (take portion_len (drop 8 resp), le16 (resp ! 6) (resp ! 7)), ctx1)))"

text \<open>
  The loop \<open>while (true)\<close>: nothing bounds it, so it is a partial function; \<open>None\<close> is a loop that
  never ends.
\<close>

partial_function (option) get_certificate_loop ::
  "spdm_std \<Rightarrow> 'c spdm_io \<Rightarrow> byte \<Rightarrow> byte list \<Rightarrow> 16 word \<Rightarrow> 'c spdm_context
     \<Rightarrow> ((libspdm_return \<times> byte list) \<times> 'c spdm_context) option" where
  "get_certificate_loop std io slot_id cert_chain offset ctx =
     (case get_certificate_portion std io slot_id offset ctx of
        (Inl status, ctx1) \<Rightarrow> Some ((status, cert_chain), ctx1)
      | (Inr (portion, remainder_len), ctx1) \<Rightarrow>
          (if remainder_len = 0 then Some ((STATUS_SUCCESS, cert_chain @ portion), ctx1)
           else get_certificate_loop std io slot_id (cert_chain @ portion)
             (offset + word_of_nat (length portion)) ctx1))"

declare get_certificate_loop.simps [code]

definition libspdm_get_certificate_async ::
  "spdm_std \<Rightarrow> 'c spdm_io \<Rightarrow> byte \<Rightarrow> 'c spdm_context
     \<Rightarrow> ((libspdm_return \<times> byte list) \<times> 'c spdm_context) option" where
  "libspdm_get_certificate_async std io slot_id ctx = get_certificate_loop std io slot_id [] 0 ctx"

text \<open>
  With a signature requested the whole request structure is sent; its 32 bytes of nonce are
  whatever the sender buffer held (\<open>stale\<close>), since nothing writes them.
\<close>

definition libspdm_get_measurement_async ::
  "spdm_std \<Rightarrow> 'c spdm_io \<Rightarrow> byte list \<Rightarrow> byte \<Rightarrow> byte \<Rightarrow> byte \<Rightarrow> 'c spdm_context
     \<Rightarrow> (libspdm_return + byte \<times> byte list) \<times> 'c spdm_context" where
  "libspdm_get_measurement_async std io stale request_attribute measurement_operation slot_id ctx =
     (let header = [conn_version ctx, GET_MEASUREMENTS std, request_attribute, measurement_operation];
          req = (if request_attribute AND GENERATE_SIGNATURE std \<noteq> 0
                 then header @ stale @ [slot_id] else header)
      in case request_response io req ctx of
        (Inl status, ctx1) \<Rightarrow> (Inl status, ctx1)
      | (Inr resp, ctx1) \<Rightarrow>
          (if length resp < 8 then (Inl STATUS_INVALID_MSG_SIZE, ctx1)
           else if resp ! 1 \<noteq> MEASUREMENTS std then (Inl STATUS_INVALID_MSG_FIELD, ctx1)
           else let record_length = unat (of_le32 (resp ! 5) (resp ! 6) (resp ! 7) 0) in
             if length resp < 8 + record_length then (Inl STATUS_INVALID_MSG_SIZE, ctx1)
             else (Inr (resp ! 4, take record_length (drop 8 resp)), ctx1)))"

section \<open>Retrying GET_VERSION\<close>

text \<open>
  The \<open>do \<dots> while (retry-- != 0)\<close> loop around one attempt. The result also counts the waits
  between attempts; \<open>delay\<close> says whether a positive delay is configured.
\<close>

fun libspdm_get_version_async ::
  "('c \<Rightarrow> libspdm_return \<times> 'c) \<Rightarrow> bool \<Rightarrow> nat \<Rightarrow> 'c \<Rightarrow> (libspdm_return \<times> nat) \<times> 'c" where
  "libspdm_get_version_async attempt delay retry c = (case attempt c of (status, c1) \<Rightarrow>
     if status \<noteq> STATUS_BUSY_PEER then ((status, 0), c1)
     else let waits = (if delay then 1 else 0) in
       case retry of
         0 \<Rightarrow> ((status, waits), c1)
       | Suc r \<Rightarrow> (case libspdm_get_version_async attempt delay r c1 of
           ((status2, n), c2) \<Rightarrow> ((status2, waits + n), c2)))"

text \<open>The order of the three negotiation steps (\<open>libspdm_init_connection_async\<close>).\<close>

definition libspdm_init_connection_async ::
  "bool \<Rightarrow> bool \<Rightarrow> ('c \<Rightarrow> libspdm_return \<times> 'c) \<Rightarrow> ('c \<Rightarrow> libspdm_return \<times> 'c)
     \<Rightarrow> ('c \<Rightarrow> libspdm_return \<times> 'c) \<Rightarrow> 'c \<Rightarrow> libspdm_return \<times> 'c" where
  "libspdm_init_connection_async null_context get_version_only get_version get_capabilities
     negotiate_algorithms c =
     (if null_context then (STATUS_INVALID_PARAMETER, c)
      else case get_version c of (status, c1) \<Rightarrow>
        if is_error status then (status, c1)
        else if get_version_only then (STATUS_SUCCESS, c1)
        else case get_capabilities c1 of (status2, c2) \<Rightarrow>
          if is_error status2 then (status2, c2)
          else case negotiate_algorithms c2 of (status3, c3) \<Rightarrow>
            if is_error status3 then (status3, c3) else (STATUS_SUCCESS, c3))"

section \<open>Vendor-defined messages\<close>

text \<open>
  \<open>customSend\<close> and \<open>customReceive\<close>: \<open>msg_size\<close> and \<open>hdr\<close> are the size of the sender buffer and of the
  transport header; their difference is a \<open>size_t\<close> and wraps.
\<close>

definition customSend ::
  "'c spdm_io \<Rightarrow> nat \<Rightarrow> nat \<Rightarrow> byte list \<Rightarrow> 'c \<Rightarrow> bool \<times> 'c" where
  "customSend io msg_size hdr payload c =
     (if is_error (acquire_sender io c) then (False, c)
      else if length payload > (if hdr \<le> msg_size then msg_size - hdr else 2 ^ 64 + msg_size - hdr)
      then (False, c)
      else case send_request io payload c of (status, c1) \<Rightarrow> (\<not> is_error status, c1))"

definition customReceive :: "'c spdm_io \<Rightarrow> nat \<Rightarrow> 'c \<Rightarrow> byte list option \<times> 'c" where
  "customReceive io expected_size c = (case receive_response io c of ((status, response), c1) \<Rightarrow>
     if is_error status then (None, c1)
     else if length response < expected_size then (None, c1)
     else (Some (take expected_size response), c1))"

definition asyncPushCertificate ::
  "'c spdm_io \<Rightarrow> nat \<Rightarrow> nat \<Rightarrow> byte list \<Rightarrow> CertificateFormat \<Rightarrow> 'c \<Rightarrow> (exn + bool) \<times> 'c" where
  "asyncPushCertificate io msg_size hdr cert format c =
     (case createPushCertificateRequest 0x12 cert format of
        Inl e \<Rightarrow> (Inl e, c)
      | Inr request \<Rightarrow>
          (case customSend io msg_size hdr request c of (sent, c1) \<Rightarrow>
             if \<not> sent then (Inr False, c1)
             else case customReceive io 8 c1 of
               (None, c2) \<Rightarrow> (Inr False, c2)
             | (Some response, c2) \<Rightarrow>
                 (Inr (push_resp_status (push_resp_of_bytes response) = CERT_EXCHANGE_SUCCESS), c2)))"

definition asyncPullCertificate ::
  "'c spdm_io \<Rightarrow> nat \<Rightarrow> nat \<Rightarrow> CertificateFormat \<Rightarrow> 'c \<Rightarrow> byte list option \<times> 'c" where
  "asyncPullCertificate io msg_size hdr format c =
     (case customSend io msg_size hdr (createPullCertificateRequest 0x12 format) c of (sent, c1) \<Rightarrow>
        if \<not> sent then (None, c1)
        else case customReceive io 12 c1 of
          (None, c2) \<Rightarrow> (None, c2)
        | (Some header, c2) \<Rightarrow>
            (case deserializePOD 12 pull_resp_of_bytes header 0 of
               Inl e \<Rightarrow> (None, c2)
             | Inr (resp, _) \<Rightarrow>
                 if pull_resp_status resp \<noteq> CERT_EXCHANGE_SUCCESS then (None, c2)
                 else customReceive io (unat (pull_resp_cert_size resp)) c2))"

definition asyncSetProvisioned ::
  "'c spdm_io \<Rightarrow> nat \<Rightarrow> nat \<Rightarrow> bool \<Rightarrow> 'c \<Rightarrow> bool \<times> 'c" where
  "asyncSetProvisioned io msg_size hdr provisioned c =
     (case customSend io msg_size hdr (createSetProvisionedRequest 0x12 provisioned) c of (sent, c1) \<Rightarrow>
        if \<not> sent then (False, c1)
        else case customReceive io 8 c1 of
          (None, c2) \<Rightarrow> (False, c2)
        | (Some response, c2) \<Rightarrow>
            (case deserializeSetProvisionedResponse response of
               Inl e \<Rightarrow> (False, c2)
             | Inr resp \<Rightarrow>
                 (prov_resp_status resp = CERT_EXCHANGE_SUCCESS \<or> prov_resp_status resp = 1, c2)))"

section \<open>The responder's session and its server\<close>

text \<open>
  The application callback registered by \<open>AsyncSpdmResponder\<close>: \<open>rsp_size\<close> is the room libspdm
  offers. \<open>None\<close> is a dereferenced null store.
\<close>

definition get_response_func ::
  "('x, 't) openssl \<Rightarrow> int \<Rightarrow> 's trust_store \<Rightarrow> 's responder \<Rightarrow> byte list \<Rightarrow> nat
     \<Rightarrow> ((libspdm_return + byte list) \<times> 's responder) option" where
  "get_response_func ssl now ts r req rsp_size = (case dispatchToHandler ssl now ts r req of
     None \<Rightarrow> None
   | Some (respVec, r') \<Rightarrow>
       if respVec = [] then Some (Inl STATUS_UNSUPPORTED_CAP, r')
       else if length respVec > rsp_size then Some (Inl STATUS_BUFFER_TOO_SMALL, r')
       else Some (Inr respVec, r'))"

text \<open>
  The body of the loop of \<open>asyncRun\<close>, after one dispatch returned \<open>status\<close>: the new retry count,
  or \<open>None\<close> to leave the loop.
\<close>

definition maxRetries :: nat where "maxRetries = 100"

definition asyncRun_step :: "nat \<Rightarrow> libspdm_return \<Rightarrow> nat option" where
  "asyncRun_step retryCount status =
     (if status = STATUS_SUCCESS then Some 0
      else if status = STATUS_SEND_FAIL then None
      else if status = STATUS_RECEIVE_FAIL then None
      else if status = STATUS_INVALID_MSG_FIELD
      then if retryCount + 1 \<ge> maxRetries then None else Some (retryCount + 1)
      else if retryCount + 1 \<ge> maxRetries then None else Some (retryCount + 1))"

text \<open>The loop over the statuses of successive dispatches: \<open>True\<close> if the session still runs.\<close>

fun asyncRun :: "nat \<Rightarrow> libspdm_return list \<Rightarrow> bool" where
  "asyncRun retryCount [] = True"
| "asyncRun retryCount (status # rest) = (case asyncRun_step retryCount status of
     None \<Rightarrow> False | Some n \<Rightarrow> asyncRun n rest)"

text \<open>
  The server: the set of active sessions and whether an accept is outstanding. A connection is
  given a session number; creating the session throws when the SPDM context cannot be
  initialised, and the exception leaves the accept handler before the next accept.
\<close>

record spdm_server =
  activeSessions :: "nat list"
  accepting :: bool

datatype accept_event =
    Accepted nat bool
  | Accept_error
  | Session_ended nat

definition accept_handler :: "nat \<Rightarrow> spdm_server \<Rightarrow> accept_event \<Rightarrow> spdm_server" where
  "accept_handler maxSessions s ev = (case ev of
     Accepted session init_ok \<Rightarrow>
       if \<not> accepting s then s
       else if length (activeSessions s) \<ge> maxSessions then s
       else if \<not> init_ok then s\<lparr>accepting := False\<rparr>
       else s\<lparr>activeSessions := List.insert session (activeSessions s)\<rparr>
   | Accept_error \<Rightarrow> s
   | Session_ended session \<Rightarrow> s\<lparr>activeSessions := removeAll session (activeSessions s)\<rparr>)"


section \<open>Framing\<close>

text \<open>
  A TCP stream: the chunks in which its bytes arrive. A read returns at most what is asked for
  from the first chunk; at the end of the stream it fails.
\<close>

fun chunk_read :: "nat \<Rightarrow> byte list list \<Rightarrow> (error_code \<times> byte list) \<times> byte list list" where
  "chunk_read n [] = ((Some End_of_file, []), [])"
| "chunk_read n (c # cs) =
     (if c = [] then chunk_read n cs else ((None, take n c), drop n c # cs))"

fun receive_n :: "nat \<Rightarrow> nat \<Rightarrow> byte list list \<Rightarrow> byte list option list \<times> byte list list" where
  "receive_n capacity 0 cs = ([], cs)"
| "receive_n capacity (Suc k) cs = (case async_spdm_receive chunk_read capacity cs of
     (m, cs1) \<Rightarrow> (case receive_n capacity k cs1 of (ms, cs2) \<Rightarrow> (m # ms, cs2)))"

text \<open>A message whose binding header carries its length, as the transport layer encodes it.\<close>

definition framed :: "byte list \<Rightarrow> bool" where
  "framed m \<longleftrightarrow> 4 \<le> length m \<and> unat (payload_length m) + 2 = length m"

lemma chunk_read_spec:
  "0 < n \<Longrightarrow> concat cs \<noteq> [] \<Longrightarrow>
     \<exists>b cs'. chunk_read n cs = ((None, b), cs') \<and> b \<noteq> [] \<and> length b \<le> n \<and> concat cs = b @ concat cs'"
proof (induction n cs rule: chunk_read.induct)
  case (2 n c cs)
  show ?case
  proof (cases "c = []")
    case False
    with "2.prems" show ?thesis
      by (intro exI [of _ "take n c"] exI [of _ "drop n c # cs"]) auto
  qed (use 2 in simp)
qed simp

lemma read_exact_chunks:
  "concat cs = a @ b \<Longrightarrow> length a = n \<Longrightarrow>
     \<exists>cs'. streamer_read_exact chunk_read n cs = (Some a, cs') \<and> concat cs' = b"
proof (induction n arbitrary: cs a rule: less_induct)
  case (less n)
  show ?case
  proof (cases "n = 0")
    case True
    with less.prems show ?thesis by (simp add: streamer_read_exact.simps)
  next
    case False
    with less.prems have "concat cs \<noteq> []" by auto
    with False obtain g cs1 where r: "chunk_read n cs = ((None, g), cs1)" and g: "g \<noteq> []" "length g \<le> n"
      and c: "concat cs = g @ concat cs1" using chunk_read_spec [of n cs] by auto
    from c less.prems g have t: "take (length g) a = g" and d: "concat cs1 = drop (length g) a @ b"
      by (auto simp: append_eq_append_conv_if split: if_splits)
    from t have a: "a = g @ drop (length g) a" "concat cs1 = drop (length g) a @ b"
      using d by (metis append_take_drop_id)+
    then have "length (drop (length g) a) = n - length g" using less.prems by simp
    from less.IH [OF _ a(2) this] g False obtain cs2
      where "streamer_read_exact chunk_read (n - length g) cs1 = (Some (drop (length g) a), cs2)"
        and "concat cs2 = b" by fastforce
    with r g False a(1) show ?thesis by (subst streamer_read_exact.simps) simp
  qed
qed

lemma payload_length_append: "2 \<le> length a \<Longrightarrow> payload_length (a @ b) = payload_length a"
  by (auto simp: payload_length_def nth_append)

lemma receive_framed:
  assumes "framed m" and "length m \<le> capacity" and "concat cs = m @ rest"
  shows "\<exists>cs'. async_spdm_receive chunk_read capacity cs = (Some m, cs') \<and> concat cs' = rest"
proof -
  let ?h = "take 4 m" and ?t = "drop 4 m"
  from assms have l: "length ?h = 4" "length ?t = length m - 4" "concat cs = ?h @ ?t @ rest"
    by (auto simp: framed_def)
  obtain cs1 where r: "streamer_read_exact chunk_read 4 cs = (Some ?h, cs1)" "concat cs1 = ?t @ rest"
    using read_exact_chunks [OF l(3,1)] by blast
  obtain cs2 where t: "streamer_read_exact chunk_read (length m - 4) cs1 = (Some ?t, cs2)" "concat cs2 = rest"
    using read_exact_chunks [OF r(2) l(2)] by blast
  have "payload_length ?h = payload_length m"
    using payload_length_append [of ?h ?t] l by simp
  with assms(1) have "unat (payload_length ?h) + 2 = length m" by (simp add: framed_def)
  with r t assms show ?thesis by (simp add: async_spdm_receive_def framed_def Let_def)
qed

lemma write_exact_all:
  assumes "\<And>b w k w'. wr b w = ((None, k), w') \<Longrightarrow> out w' = out w @ take k b"
  shows "streamer_write_exact wr bytes w = (True, w') \<Longrightarrow> out w' = out w @ bytes"
proof (induction bytes arbitrary: w rule: length_induct)
  case (1 bytes)
  show ?case
  proof (cases "bytes = []")
    case True
    with "1.prems" show ?thesis by (simp add: streamer_write_exact.simps [of wr])
  next
    case False
    obtain ec k w1 where w: "wr bytes w = ((ec, k), w1)" by (metis prod.collapse)
    with False "1.prems" have n: "ec = None" "k \<noteq> 0"
      and s: "streamer_write_exact wr (drop k bytes) w1 = (True, w')"
      by (auto simp: streamer_write_exact.simps [of wr bytes w] split: if_splits)
    from n(2) False have "length (drop k bytes) < length bytes" by (cases bytes) auto
    with "1.IH" s have "out w' = out w1 @ drop k bytes" by blast
    moreover have "out w1 = out w @ take k bytes" using w n(1) by (auto intro: assms)
    ultimately show ?thesis by simp
  qed
qed

text \<open>
  (C27) Messages survive the stream: whatever way the socket splits the writes (each successful
  write takes some prefix), what a successful \<open>async_spdm_send\<close> puts on the wire is the message,
  and whatever way the bytes of consecutive messages are cut into chunks, the receiver gets
  back exactly those messages, one per call, and stops at the first byte after them.
\<close>

theorem spdm_frames_roundtrip:
  assumes "\<And>b w k w'. wr b w = ((None, k), w') \<Longrightarrow> out w' = out w @ take k b"
    and "\<forall>m\<in>set ms. framed m \<and> length m \<le> capacity"
  shows "(async_spdm_send wr bytes w = (True, w') \<longrightarrow> out w' = out w @ bytes) \<and>
    (concat cs = concat ms @ rest \<longrightarrow>
       (\<exists>cs'. receive_n capacity (length ms) cs = (map Some ms, cs') \<and> concat cs' = rest))"
proof (intro conjI impI)
  assume "async_spdm_send wr bytes w = (True, w')"
  then show "out w' = out w @ bytes"
    by (auto simp: async_spdm_send_def split: if_splits intro: write_exact_all [OF assms(1)])
next
  assume "concat cs = concat ms @ rest"
  with assms(2) show "\<exists>cs'. receive_n capacity (length ms) cs = (map Some ms, cs') \<and> concat cs' = rest"
  proof (induction ms arbitrary: cs)
    case (Cons m ms)
    then obtain cs1 where "async_spdm_receive chunk_read capacity cs = (Some m, cs1)"
      "concat cs1 = concat ms @ rest"
      using receive_framed [of m capacity cs "concat ms @ rest"] by auto
    with Cons show ?case by fastforce
  qed simp
qed

text \<open>A writer that takes at most two bytes at a time, and two messages in uneven chunks.\<close>

definition short_writer :: "byte list \<Rightarrow> byte list \<Rightarrow> (error_code \<times> nat) \<times> byte list" where
  "short_writer b w = ((None, 2), w @ take 2 b)"

theorem spdm_frames_roundtrip_witness:
  "snd (async_spdm_send short_writer [1, 2, 3] []) = [1, 2, 3] \<and>
   (\<exists>cs'. receive_n 100 2 [[4], [0, 5, 0, 7, 9], [], [2, 0, 5], [0, 8]] =
      ([Some [4, 0, 5, 0, 7, 9], Some [2, 0, 5, 0]], cs') \<and> concat cs' = [8])"
proof -
  let ?ms = "[[4, 0, 5, 0, 7, 9], [2, 0, 5, 0]] :: byte list list"
  have l: "id w' = id w @ take k b" if "short_writer b w = ((None, k), w')" for b w k w'
    using that by (auto simp: short_writer_def)
  have m: "\<forall>m\<in>set ?ms. framed m \<and> length m \<le> 100"
    by (simp add: framed_def payload_length_def)
  have "fst (async_spdm_send short_writer [1, 2, 3] [])"
    by (simp add: async_spdm_send_def streamer_write_exact.simps short_writer_def)
  then obtain w' where "async_spdm_send short_writer [1, 2, 3] [] = (True, w')"
    by (metis prod.collapse)
  then show ?thesis
    using spdm_frames_roundtrip [where wr = short_writer and out = id and w = "[]" and w' = w'
        and bytes = "[1, 2, 3]" and cs = "[[4], [0, 5, 0, 7, 9], [], [2, 0, 5], [0, 8]]"
        and rest = "[8]", OF l m]
    by (simp add: numeral_2_eq_2)
qed


section \<open>Fetching the certificate chain\<close>

lemma request_response_buffers:
  "request_response io req ctx = (r, ctx') \<Longrightarrow>
     sender_held ctx' = sender_held ctx \<and> receiver_held ctx' = receiver_held ctx \<and>
     conn_version ctx' = conn_version ctx"
  by (auto simp: request_response_def Let_def split: if_splits prod.splits)

lemma portion_buffers:
  "get_certificate_portion std io slot offset ctx = (r, ctx') \<Longrightarrow>
     sender_held ctx' = sender_held ctx \<and> receiver_held ctx' = receiver_held ctx"
  by (auto simp: get_certificate_portion_def Let_def dest!: request_response_buffers
      split: if_splits prod.splits sum.splits)

text \<open>However a request ends, both message buffers are released when the coroutine returns.\<close>

lemma requests_release_buffers:
  "snd (libspdm_get_digest_async std h io ctx) = ctx1 \<Longrightarrow>
     sender_held ctx1 = sender_held ctx \<and> receiver_held ctx1 = receiver_held ctx"
  "snd (libspdm_get_measurement_async std io stale a m slot ctx) = ctx2 \<Longrightarrow>
     sender_held ctx2 = sender_held ctx \<and> receiver_held ctx2 = receiver_held ctx"
  by (auto simp: libspdm_get_digest_async_def libspdm_get_measurement_async_def Let_def
      dest!: request_response_buffers split: if_splits prod.splits sum.splits)

lemma loop_releases_buffers:
  "get_certificate_loop std io slot chain offset ctx = Some y \<Longrightarrow>
     sender_held (snd y) = sender_held ctx \<and> receiver_held (snd y) = receiver_held ctx"
proof (rule get_certificate_loop.raw_induct [where
      P = "\<lambda>_ _ _ _ _ c z. sender_held (snd z) = sender_held c \<and> receiver_held (snd z) = receiver_held c"])
  fix loop std io slot chain offset and ctx :: "'c spdm_context" and y
  assume ih: "\<And>std io slot chain offset ctx y. loop std io slot chain offset ctx = Some y \<Longrightarrow>
      sender_held (snd y) = sender_held ctx \<and> receiver_held (snd y) = receiver_held ctx"
    and body: "(case get_certificate_portion std io slot offset ctx of
        (Inl status, ctx1) \<Rightarrow> Some ((status, chain), ctx1)
      | (Inr (portion, remainder_len), ctx1) \<Rightarrow>
          (if remainder_len = 0 then Some ((STATUS_SUCCESS, chain @ portion), ctx1)
           else loop std io slot (chain @ portion) (offset + word_of_nat (length portion)) ctx1)) = Some y"
  obtain r ctx1 where p: "get_certificate_portion std io slot offset ctx = (r, ctx1)" by fastforce
  from portion_buffers [OF p] ih body p
  show "sender_held (snd y) = sender_held ctx \<and> receiver_held (snd y) = receiver_held ctx"
    by (auto split: sum.splits prod.splits if_splits)
qed

text \<open>
  A responder that serves the chain \<open>chain\<close> truthfully: each request is answered with a
  non-empty portion from the requested offset and the number of bytes that remain after it.
\<close>

definition serves :: "spdm_std \<Rightarrow> 'c spdm_io \<Rightarrow> byte \<Rightarrow> byte list \<Rightarrow> bool" where
  "serves std io slot chain \<longleftrightarrow> (\<forall>offset ctx. unat offset < length chain \<longrightarrow>
     (\<exists>k ctx'. 0 < k \<and> unat offset + k \<le> length chain \<and>
        get_certificate_portion std io slot offset ctx =
          (Inr (take k (drop (unat offset) chain), word_of_nat (length chain - unat offset - k)), ctx')))"

lemma loop_completes:
  assumes "serves std io slot chain" and "length chain < 2 ^ 16"
  shows "unat offset < length chain \<Longrightarrow> cert = take (unat offset) chain \<Longrightarrow>
    \<exists>ctx'. get_certificate_loop std io slot cert offset ctx = Some ((STATUS_SUCCESS, chain), ctx')"
proof (induction "length chain - unat offset" arbitrary: offset cert ctx rule: less_induct)
  case less
  obtain k ctx' where k: "0 < k" "unat offset + k \<le> length chain"
    and p: "get_certificate_portion std io slot offset ctx =
      (Inr (take k (drop (unat offset) chain), word_of_nat (length chain - unat offset - k)), ctx')"
    using assms(1) less.prems(1) unfolding serves_def by blast
  let ?left = "length chain - unat offset - k"
  have u: "unat (word_of_nat ?left :: 16 word) = ?left"
    using assms(2) by (simp add: unat_of_nat take_bit_nat_eq_self)
  have c: "cert @ take k (drop (unat offset) chain) = take (unat offset + k) chain"
    using less.prems(2) by (simp add: take_add)
  show ?case
  proof (cases "?left = 0")
    case True
    then have "unat offset + k = length chain" using k by simp
    with True p c show ?thesis by (subst get_certificate_loop.simps) simp
  next
    case False
    have n: "unat (offset + word_of_nat k) = unat offset + k"
      using k assms(2) by (simp add: unat_add_lem [symmetric] unat_of_nat take_bit_nat_eq_self
          unat_word_ariths)
    have "length (take k (drop (unat offset) chain)) = k" using k by simp
    moreover have "(word_of_nat ?left :: 16 word) \<noteq> 0" using u False by (metis unat_0)
    moreover have "\<exists>ctx''. get_certificate_loop std io slot (take (unat offset + k) chain)
        (offset + word_of_nat k) ctx' = Some ((STATUS_SUCCESS, chain), ctx'')"
      by (rule less.hyps) (use False k n in auto)
    ultimately show ?thesis using p c by (subst get_certificate_loop.simps) simp
  qed
qed

text \<open>
  (C28) Against a truthful responder the loop ends and returns the whole chain, for every chain that
  the 16-bit offset can address and however the responder cuts it into portions, and it
  returns with both message buffers released.
\<close>

theorem certificate_chain_fetched:
  assumes "serves std io slot chain" and "chain \<noteq> []" and "length chain < 2 ^ 16"
  shows "\<exists>ctx'. libspdm_get_certificate_async std io slot ctx = Some ((STATUS_SUCCESS, chain), ctx') \<and>
    sender_held ctx' = sender_held ctx \<and> receiver_held ctx' = receiver_held ctx"
proof -
  obtain ctx' where "libspdm_get_certificate_async std io slot ctx = Some ((STATUS_SUCCESS, chain), ctx')"
    using loop_completes [OF assms(1,3), of 0 "[]" ctx] assms(2)
    by (auto simp: libspdm_get_certificate_async_def)
  then show ?thesis
    using loop_releases_buffers [of std io slot "[]" 0 ctx]
    by (simp add: libspdm_get_certificate_async_def)
qed

text \<open>A responder that serves the chain two bytes at a time.\<close>

definition sample_std :: spdm_std where
  "sample_std = \<lparr>GET_DIGESTS = 0x81, DIGESTS = 0x01, GET_CERTIFICATE = 0x82, CERTIFICATE = 0x02,
     GET_MEASUREMENTS = 0xE0, MEASUREMENTS = 0x60, GENERATE_SIGNATURE = 0x01\<rparr>"

definition chain_io :: "byte list \<Rightarrow> byte list spdm_io" where
  "chain_io chain = \<lparr>acquire_sender = \<lambda>_. STATUS_SUCCESS, acquire_receiver = \<lambda>_. STATUS_SUCCESS,
     send_request = \<lambda>req c. (STATUS_SUCCESS, req),
     receive_response = \<lambda>c.
       (let offset = unat (le16 (c ! 4) (c ! 5)); portion = take 2 (drop offset chain) in
        ((STATUS_SUCCESS, [0x12, 0x02, c ! 2, 0] @ bytes16 (word_of_nat (length portion))
            @ bytes16 (word_of_nat (length chain - offset - length portion)) @ portion), c))\<rparr>"

lemma le16_bytes16: "le16 (ucast w) (ucast (drop_bit 8 w)) = w" for w :: "16 word"
proof (rule bit_word_eqI)
  fix n assume "n < LENGTH(16)"
  then consider "n < 8" | "8 \<le> n" "n < 16" by fastforce
  then show "bit (le16 (ucast w) (ucast (drop_bit 8 w))) n = bit w n"
    by cases (auto simp: le16_def bit_simps)
qed

lemma chain_io_serves:
  assumes "length chain < 2 ^ 16"
  shows "serves sample_std (chain_io chain) slot chain"
  unfolding serves_def
proof (intro allI impI)
  fix offset :: "16 word" and ctx :: "byte list spdm_context"
  assume o: "unat offset < length chain"
  let ?p = "take 2 (drop (unat offset) chain)"
  have l: "unat (word_of_nat (length ?p) :: 16 word) = length ?p"
    by (simp add: unat_of_nat take_bit_nat_eq_self)
  have t: "take (min (length chain - unat offset) 2) (drop (unat offset) chain) = ?p"
    by (simp add: min_def)
  have "get_certificate_portion sample_std (chain_io chain) slot offset ctx =
      (Inr (?p, word_of_nat (length chain - unat offset - length ?p)),
       ctx\<lparr>conn := [conn_version ctx, 0x82, slot, 0] @ bytes16 offset @ bytes16 0x400\<rparr>)"
    unfolding get_certificate_portion_def request_response_def
    using l t by (simp add: chain_io_def sample_std_def bytes16_def Let_def le16_bytes16)
  moreover have "?p = take (length ?p) (drop (unat offset) chain)" by (simp add: t)
  moreover have "0 < length ?p" "unat offset + length ?p \<le> length chain" using o by auto
  ultimately show "\<exists>k ctx'. 0 < k \<and> unat offset + k \<le> length chain \<and>
      get_certificate_portion sample_std (chain_io chain) slot offset ctx =
        (Inr (take k (drop (unat offset) chain), word_of_nat (length chain - unat offset - k)), ctx')"
    by metis
qed

theorem certificate_chain_fetched_witness:
  "\<exists>ctx'. libspdm_get_certificate_async sample_std (chain_io [1, 2, 3]) 0
      \<lparr>conn = [], conn_version = 0x12, sender_held = 0, receiver_held = 0\<rparr>
      = Some ((STATUS_SUCCESS, [1, 2, 3]), ctx') \<and> sender_held ctx' = 0 \<and> receiver_held ctx' = 0"
  using certificate_chain_fetched [OF chain_io_serves, of "[1, 2, 3]" 0
      "\<lparr>conn = [], conn_version = 0x12, sender_held = 0, receiver_held = 0\<rparr>"]
  by simp

text \<open>
  Nothing else bounds the loop: a responder that keeps answering with an empty portion and a
  non-zero remainder holds the requester forever.
\<close>

lemma certificate_loop_diverges:
  assumes "\<And>offset ctx. \<exists>ctx' left. left \<noteq> 0 \<and>
    get_certificate_portion std io slot offset ctx = (Inr ([], left), ctx')"
  shows "get_certificate_loop std io slot chain offset ctx = None"
proof (rule ccontr)
  assume "get_certificate_loop std io slot chain offset ctx \<noteq> None"
  then obtain y where "get_certificate_loop std io slot chain offset ctx = Some y" by blast
  then have "std = std \<longrightarrow> io = io \<longrightarrow> slot = slot \<longrightarrow> False"
  proof (rule get_certificate_loop.raw_induct [where
        P = "\<lambda>std' io' slot' _ _ _ _. std' = std \<longrightarrow> io' = io \<longrightarrow> slot' = slot \<longrightarrow> False", rotated], intro impI)
    fix loop std' io' slot' chain offset ctx y
    assume ih: "\<And>std' io' slot' chain offset ctx y. loop std' io' slot' chain offset ctx = Some y \<Longrightarrow>
        std' = std \<longrightarrow> io' = io \<longrightarrow> slot' = slot \<longrightarrow> False"
      and body: "(case get_certificate_portion std' io' slot' offset ctx of
          (Inl status, ctx1) \<Rightarrow> Some ((status, chain), ctx1)
        | (Inr (portion, remainder_len), ctx1) \<Rightarrow>
            (if remainder_len = 0 then Some ((STATUS_SUCCESS, chain @ portion), ctx1)
             else loop std' io' slot' (chain @ portion) (offset + word_of_nat (length portion)) ctx1))
          = Some y"
      and e: "std' = std" "io' = io" "slot' = slot"
    obtain ctx' left where "left \<noteq> 0"
      "get_certificate_portion std io slot offset ctx = (Inr ([], left), ctx')"
      using assms by blast
    with body e have "loop std io slot chain offset ctx' = Some y" by simp
    from ih [OF this] show False by simp
  qed
  then show False by simp
qed

section \<open>Sessions\<close>

definition no_long_run :: "bool list \<Rightarrow> bool" where
  "no_long_run bs \<longleftrightarrow>
     (\<forall>xs ys zs. bs = xs @ ys @ zs \<and> (\<forall>y\<in>set ys. y) \<longrightarrow> length ys < maxRetries)"

lemma no_long_runD:
  "no_long_run bs \<Longrightarrow> bs = xs @ ys @ zs \<Longrightarrow> (\<And>y. y \<in> set ys \<Longrightarrow> y) \<Longrightarrow> length ys < maxRetries"
  unfolding no_long_run_def by blast

lemma no_long_runI:
  "(\<And>xs ys zs. bs = xs @ ys @ zs \<Longrightarrow> (\<And>y. y \<in> set ys \<Longrightarrow> y) \<Longrightarrow> length ys < maxRetries) \<Longrightarrow> no_long_run bs"
  unfolding no_long_run_def by blast

lemma no_long_run_split:
  assumes "n < maxRetries"
  shows "no_long_run (replicate n True @ False # bs) \<longleftrightarrow> no_long_run bs"
proof
  assume a: "no_long_run (replicate n True @ False # bs)"
  show "no_long_run bs"
  proof (rule no_long_runI)
    fix xs ys zs assume b: "bs = xs @ ys @ zs" and t: "\<And>y. y \<in> set ys \<Longrightarrow> y"
    have "replicate n True @ False # bs = (replicate n True @ False # xs) @ ys @ zs"
      by (simp add: b)
    from no_long_runD [OF a this t] show "length ys < maxRetries" .
  qed
next
  assume a: "no_long_run bs"
  show "no_long_run (replicate n True @ False # bs)"
  proof (rule no_long_runI)
    fix xs ys zs
    assume w: "replicate n True @ False # bs = xs @ ys @ zs" and t: "\<And>y. y \<in> set ys \<Longrightarrow> y"
    have f: "(xs @ ys @ zs) ! n = False" unfolding w [symmetric] by (simp add: nth_append)
    show "length ys < maxRetries"
    proof (cases "length xs \<le> n")
      case True
      have "\<not> n - length xs < length ys"
      proof
        assume l: "n - length xs < length ys"
        then have "ys ! (n - length xs) = False" using True f by (simp add: nth_append)
        moreover have "ys ! (n - length xs)" by (rule t [OF nth_mem [OF l]])
        ultimately show False by simp
      qed
      with assms show ?thesis by simp
    next
      case False
      then have "bs = drop (Suc n) xs @ ys @ zs"
        using arg_cong [OF w, of "drop (Suc n)"] by simp
      from no_long_runD [OF a this t] show ?thesis .
    qed
  qed
qed

lemma asyncRun_char:
  "n < maxRetries \<Longrightarrow> asyncRun n ss \<longleftrightarrow>
     (\<forall>s\<in>set ss. s \<noteq> STATUS_SEND_FAIL \<and> s \<noteq> STATUS_RECEIVE_FAIL) \<and>
     no_long_run (replicate n True @ map is_error ss)"
proof (induction ss arbitrary: n)
  case Nil
  then show ?case by (auto simp: no_long_run_def dest!: arg_cong [where f = length])
next
  case (Cons s ss)
  consider "s = STATUS_SUCCESS" | "s = STATUS_SEND_FAIL \<or> s = STATUS_RECEIVE_FAIL"
    | "s \<notin> {STATUS_SUCCESS, STATUS_SEND_FAIL, STATUS_RECEIVE_FAIL}" by blast
  then show ?case
  proof cases
    case 1
    with Cons.IH [of 0] no_long_run_split [OF Cons.prems, of "map is_error ss"] show ?thesis
      by (simp add: asyncRun_step_def maxRetries_def)
  next
    case 2
    then show ?thesis by (auto simp: asyncRun_step_def)
  next
    case 3
    have r: "replicate n True @ map is_error (s # ss) = replicate (Suc n) True @ map is_error ss"
      using 3 by (simp add: replicate_append_same)
    show ?thesis
    proof (cases "Suc n < maxRetries")
      case True
      with 3 Cons.IH [OF True] show ?thesis
        unfolding r by (simp add: asyncRun_step_def del: replicate_Suc)
    next
      case False
      have "\<not> no_long_run (replicate (Suc n) True @ map is_error ss)"
        unfolding no_long_run_def using False
        by (intro notI) (metis append_Nil in_set_replicate length_replicate)
      with False 3 show ?thesis
        unfolding r by (simp add: asyncRun_step_def del: replicate_Suc)
    qed
  qed
qed

text \<open>
  A responder session runs exactly as long as the transport does not fail and there are never
  a hundred consecutive requests that end in an error; one success resets the count, so no
  finite number of scattered errors ends a session and no peer can keep it alive on errors.
\<close>

theorem session_ends_iff:
  "asyncRun 0 ss \<longleftrightarrow>
     (\<forall>s\<in>set ss. s \<noteq> STATUS_SEND_FAIL \<and> s \<noteq> STATUS_RECEIVE_FAIL) \<and>
     \<not> (\<exists>xs ys zs. map is_error ss = xs @ ys @ zs \<and> (\<forall>y\<in>set ys. y) \<and> length ys \<ge> 100)"
proof -
  have "asyncRun 0 ss \<longleftrightarrow> (\<forall>s\<in>set ss. s \<noteq> STATUS_SEND_FAIL \<and> s \<noteq> STATUS_RECEIVE_FAIL) \<and>
      no_long_run (map is_error ss)"
    using asyncRun_char [of 0 ss] by (simp add: maxRetries_def)
  also have "no_long_run (map is_error ss) \<longleftrightarrow>
      \<not> (\<exists>xs ys zs. map is_error ss = xs @ ys @ zs \<and> (\<forall>y\<in>set ys. y) \<and> length ys \<ge> 100)"
    unfolding no_long_run_def maxRetries_def not_less [symmetric] by blast
  finally show ?thesis .
qed

text \<open>The number of sessions never exceeds the limit.\<close>

lemma sessions_bounded:
  "length (activeSessions s) \<le> maxSessions \<Longrightarrow> 0 < maxSessions \<Longrightarrow>
     length (activeSessions (foldl (accept_handler maxSessions) s evs)) \<le> maxSessions"
proof (induction evs arbitrary: s)
  case (Cons ev evs)
  have "length (activeSessions (accept_handler maxSessions s ev)) \<le> maxSessions"
  proof (cases ev)
    case (Session_ended x)
    then show ?thesis
      using Cons.prems
      by (auto simp: accept_handler_def removeAll_filter_not_eq intro: le_trans [OF length_filter_le])
  qed (use Cons.prems in \<open>auto simp: accept_handler_def List.insert_def\<close>)
  with Cons show ?case by simp
qed simp

text \<open>One session that cannot be initialised stops the server from accepting for good.\<close>

lemma failed_init_stops_server:
  assumes "accepting s" and "length (activeSessions s) < maxSessions"
  shows "\<not> accepting (foldl (accept_handler maxSessions) s (Accepted x False # evs))"
proof -
  have "\<not> accepting t \<Longrightarrow> \<not> accepting (foldl (accept_handler maxSessions) t evs)" for t
    by (induction evs arbitrary: t) (auto simp: accept_handler_def split: accept_event.splits)
  with assms show ?thesis by (simp add: accept_handler_def)
qed

section \<open>Retries\<close>

lemma get_version_always_busy:
  assumes "\<And>c. fst (attempt c) = STATUS_BUSY_PEER"
  shows "fst (libspdm_get_version_async attempt True retry c) = (STATUS_BUSY_PEER, retry + 1)"
  using assms
proof (induction retry arbitrary: c)
  case 0
  then show ?case by (simp add: case_prod_beta)
next
  case (Suc retry)
  then show ?case by (simp add: case_prod_beta Let_def)
qed

section \<open>Pulling a certificate\<close>

text \<open>
  The asynchronous requester against the responder of this repository: libspdm with a peer that
  dispatches each request and has one response waiting.
\<close>

type_synonym 's peer = "'s responder \<times> byte list option"

definition peer_send ::
  "('x, 't) openssl \<Rightarrow> int \<Rightarrow> 's trust_store \<Rightarrow> byte list \<Rightarrow> 's peer \<Rightarrow> libspdm_return \<times> 's peer" where
  "peer_send ssl now ts m w = (case dispatchToHandler ssl now ts (fst w) m of
     None \<Rightarrow> (STATUS_SEND_FAIL, fst w, None)
   | Some (response, r') \<Rightarrow> (STATUS_SUCCESS, r', if response = [] then None else Some response))"

definition peer_receive :: "'s peer \<Rightarrow> (libspdm_return \<times> byte list) \<times> 's peer" where
  "peer_receive w = (case snd w of
     None \<Rightarrow> ((STATUS_RECEIVE_FAIL, []), fst w, None)
   | Some response \<Rightarrow> ((STATUS_SUCCESS, response), fst w, None))"

definition peer_io :: "('x, 't) openssl \<Rightarrow> int \<Rightarrow> 's trust_store \<Rightarrow> 's peer spdm_io" where
  "peer_io ssl now ts =
     \<lparr>acquire_sender = \<lambda>_. STATUS_SUCCESS, acquire_receiver = \<lambda>_. STATUS_SUCCESS,
      send_request = peer_send ssl now ts, receive_response = peer_receive\<rparr>"

text \<open>
  It never obtains a certificate: the responder answers with one message, the requester reads
  the fixed part of it and then waits for the certificate in a second message.
\<close>

theorem async_pull_never_succeeds:
  "fst (asyncPullCertificate (peer_io ssl now ts) msg_size hdr format (r, None)) = None"
proof -
  let ?io = "peer_io ssl now ts" and ?m = "createPullCertificateRequest 0x12 format"
  have none: "customReceive ?io n (r', None) = (None, r', None)" for n r'
    by (simp add: customReceive_def peer_io_def peer_receive_def)
  have one: "snd (customReceive ?io n (r', x)) = (r', None)" for n r' x
    by (cases x) (auto simp: customReceive_def peer_io_def peer_receive_def)
  obtain sent r1 x where s: "customSend ?io msg_size hdr ?m (r, None) = (sent, r1, x)"
    by (metis prod.collapse)
  obtain h where h: "customReceive ?io 12 (r1, x) = (h, r1, None)"
    using one by (metis prod.collapse)
  show ?thesis
    using s h none
    by (auto simp: asyncPullCertificate_def split: option.splits sum.splits prod.splits)
qed

end
