(* ===== verification/SpdmCaps.thy ===== *)
theory SpdmCaps
  imports SpdmAsync
begin

text \<open>
  The check of a responder's capability flags
  (\<open>examples/spdm/include/async/libspdm_req_get_capabilities_async.hpp\<close>): the bit-field structure,
  one predicate per group of rules, and the function that applies them by version. The numbers
  of the protocol versions are libspdm's and are a parameter.
\<close>

section \<open>The flags\<close>

record SpdmCapabilityFlags =
  cert_cap :: nat
  chal_cap :: nat
  meas_cap :: nat
  meas_fresh_cap :: nat
  encrypt_cap :: nat
  mac_cap :: nat
  mut_auth_cap :: nat
  key_ex_cap :: nat
  psk_cap :: nat
  encap_cap :: nat
  hbeat_cap :: nat
  key_upd_cap :: nat
  handshake_in_the_clear_cap :: nat
  pub_key_id_cap :: nat
  alias_cert_cap :: nat
  set_cert_cap :: nat
  csr_cap :: nat
  cert_install_reset_cap :: nat
  ep_info_cap :: nat
  event_cap :: nat
  multi_key_cap :: nat
  get_key_pair_info_cap :: nat
  set_key_pair_info_cap :: nat
  set_key_pair_reset_cap :: nat

text \<open>A bit field of \<open>n\<close> bits at an offset.\<close>

definition bitfield :: "nat \<Rightarrow> nat \<Rightarrow> 32 word \<Rightarrow> nat" where
  "bitfield off n w = unat (take_bit n (drop_bit off w))"

definition caps_bit_cast :: "32 word \<Rightarrow> SpdmCapabilityFlags" where
  "caps_bit_cast w =
     \<lparr>cert_cap = bitfield 1 1 w, chal_cap = bitfield 2 1 w, meas_cap = bitfield 3 2 w,
      meas_fresh_cap = bitfield 5 1 w, encrypt_cap = bitfield 6 1 w, mac_cap = bitfield 7 1 w,
      mut_auth_cap = bitfield 8 1 w, key_ex_cap = bitfield 9 1 w, psk_cap = bitfield 10 2 w,
      encap_cap = bitfield 12 1 w, hbeat_cap = bitfield 13 1 w, key_upd_cap = bitfield 14 1 w,
      handshake_in_the_clear_cap = bitfield 15 1 w, pub_key_id_cap = bitfield 16 1 w,
      alias_cert_cap = bitfield 18 1 w, set_cert_cap = bitfield 19 1 w, csr_cap = bitfield 20 1 w,
      cert_install_reset_cap = bitfield 21 1 w, ep_info_cap = bitfield 22 2 w,
      event_cap = bitfield 25 1 w, multi_key_cap = bitfield 26 2 w,
      get_key_pair_info_cap = bitfield 28 1 w, set_key_pair_info_cap = bitfield 29 1 w,
      set_key_pair_reset_cap = bitfield 30 1 w\<rparr>"

text \<open>The version numbers of the standard's headers.\<close>

record spdm_versions =
  VERSION_10 :: byte
  VERSION_11 :: byte
  VERSION_12 :: byte
  VERSION_13 :: byte
  VERSION_14 :: byte

definition versions_ordered :: "spdm_versions \<Rightarrow> bool" where
  "versions_ordered v \<longleftrightarrow> VERSION_10 v < VERSION_11 v \<and> VERSION_11 v < VERSION_12 v \<and>
     VERSION_12 v < VERSION_13 v \<and> VERSION_13 v < VERSION_14 v"

section \<open>The checks\<close>

definition check_meas_caps_universal :: "SpdmCapabilityFlags \<Rightarrow> bool" where
  "check_meas_caps_universal caps =
     (if meas_cap caps = 3 then False
      else if meas_cap caps = 0 \<and> meas_fresh_cap caps = 1 then False
      else True)"

definition check_caps_v10 :: "SpdmCapabilityFlags \<Rightarrow> bool" where
  "check_caps_v10 caps =
     (if meas_cap caps = 0 \<or> meas_cap caps = 1 then
        (if cert_cap caps \<noteq> chal_cap caps then False else True)
      else if meas_cap caps = 2 then (if cert_cap caps = 0 then False else True)
      else True)"

definition check_session_caps_v11 :: "spdm_versions \<Rightarrow> SpdmCapabilityFlags \<Rightarrow> byte \<Rightarrow> bool" where
  "check_session_caps_v11 v caps version =
     (if psk_cap caps = 3 then False
      else let session_capable = (key_ex_cap caps = 1 \<or> psk_cap caps \<noteq> 0) in
        if session_capable \<and> mac_cap caps = 0 \<and> encrypt_cap caps = 0 then False
        else if \<not> session_capable \<and> (mac_cap caps = 1 \<or> encrypt_cap caps = 1
            \<or> handshake_in_the_clear_cap caps = 1 \<or> hbeat_cap caps = 1 \<or> key_upd_cap caps = 1) then False
        else if \<not> session_capable \<and> version \<ge> VERSION_13 v \<and> event_cap caps = 1 then False
        else if key_ex_cap caps = 0 \<and> psk_cap caps \<noteq> 0 \<and> handshake_in_the_clear_cap caps = 1 then False
        else True)"

definition check_identity_caps_v11 :: "spdm_versions \<Rightarrow> SpdmCapabilityFlags \<Rightarrow> byte \<Rightarrow> bool" where
  "check_identity_caps_v11 v caps version =
     (let has_identity = (cert_cap caps = 1 \<or> pub_key_id_cap caps = 1) in
      if has_identity then
        (if cert_cap caps = 1 \<and> pub_key_id_cap caps = 1 then False
         else let no_auth_mechanism = (chal_cap caps = 0 \<and> key_ex_cap caps = 0
              \<and> (meas_cap caps = 0 \<or> meas_cap caps = 1))
           in if no_auth_mechanism then
                (if version \<ge> VERSION_13 v then
                   (if ep_info_cap caps = 0 \<or> ep_info_cap caps = 1 then False else True)
                 else False)
              else True)
      else if chal_cap caps = 1 \<or> key_ex_cap caps = 1 \<or> meas_cap caps = 2 \<or> mut_auth_cap caps = 1 then False
      else if version \<ge> VERSION_13 v \<and> ep_info_cap caps = 2 then False
      else True)"

definition check_mut_auth_caps_v11 :: "spdm_versions \<Rightarrow> SpdmCapabilityFlags \<Rightarrow> byte \<Rightarrow> bool" where
  "check_mut_auth_caps_v11 v caps version =
     (if mut_auth_cap caps = 1 then
        (if key_ex_cap caps = 0 \<and> chal_cap caps = 0 then False
         else if version = VERSION_11 v \<and> encap_cap caps = 0 then False
         else True)
      else True)"

definition check_cert_management_caps_v12 :: "SpdmCapabilityFlags \<Rightarrow> bool" where
  "check_cert_management_caps_v12 caps =
     (if cert_cap caps = 0 \<and> (alias_cert_cap caps = 1 \<or> set_cert_cap caps = 1) then False
      else if csr_cap caps = 1 \<and> set_cert_cap caps = 0 then False
      else if cert_install_reset_cap caps = 1 \<and> csr_cap caps = 0 \<and> set_cert_cap caps = 0 then False
      else True)"

definition check_multi_key_caps_v13 :: "SpdmCapabilityFlags \<Rightarrow> bool" where
  "check_multi_key_caps_v13 caps =
     (if ep_info_cap caps = 3 \<or> multi_key_cap caps = 3 then False
      else if multi_key_cap caps \<noteq> 0 \<and> (get_key_pair_info_cap caps = 0 \<or> cert_cap caps = 0) then False
      else if pub_key_id_cap caps = 1 \<and> (multi_key_cap caps \<noteq> 0 \<or> get_key_pair_info_cap caps = 1
          \<or> set_key_pair_info_cap caps = 1) then False
      else True)"

definition check_key_pair_reset_cap_v14 :: "SpdmCapabilityFlags \<Rightarrow> bool" where
  "check_key_pair_reset_cap_v14 caps =
     (if set_key_pair_reset_cap caps = 1 \<and> set_key_pair_info_cap caps = 0 then False else True)"

definition validate_responder_capability_async :: "spdm_versions \<Rightarrow> 32 word \<Rightarrow> byte \<Rightarrow> bool" where
  "validate_responder_capability_async v capabilities_flag version =
     (let caps = caps_bit_cast capabilities_flag in
      if \<not> check_meas_caps_universal caps then False
      else if version = VERSION_10 v then check_caps_v10 caps
      else if \<not> check_session_caps_v11 v caps version then False
      else if \<not> check_identity_caps_v11 v caps version then False
      else if \<not> check_mut_auth_caps_v11 v caps version then False
      else if version \<ge> VERSION_12 v \<and> \<not> check_cert_management_caps_v12 caps then False
      else if version \<ge> VERSION_13 v \<and> \<not> check_multi_key_caps_v13 caps then False
      else if version \<ge> VERSION_14 v \<and> \<not> check_key_pair_reset_cap_v14 caps then False
      else True)"

lemmas capability_checks =
  check_meas_caps_universal_def check_caps_v10_def check_session_caps_v11_def
  check_identity_caps_v11_def check_mut_auth_caps_v11_def check_cert_management_caps_v12_def
  check_multi_key_caps_v13_def check_key_pair_reset_cap_v14_def

section \<open>The rules as dependencies\<close>

text \<open>
  The reference: what a capability needs, and what excludes what, stated feature by feature over
  the bits of the word. \<open>meas\<close>, \<open>psk\<close>, \<open>ep_info\<close> and \<open>multi_key\<close> are the two-bit fields.
\<close>

definition cap :: "32 word \<Rightarrow> nat \<Rightarrow> bool" where
  "cap w i = bit w i"

definition field2 :: "32 word \<Rightarrow> nat \<Rightarrow> nat" where
  "field2 w i = of_bool (bit w i) + 2 * of_bool (bit w (Suc i))"

definition rules_v10 :: "32 word \<Rightarrow> bool" where
  "rules_v10 w \<longleftrightarrow> (if field2 w 3 = 2 then cap w 1 else cap w 1 = cap w 2)"

definition session_capable :: "32 word \<Rightarrow> bool" where
  "session_capable w \<longleftrightarrow> cap w 9 \<or> field2 w 10 \<noteq> 0"

definition rules_v11 :: "bool \<Rightarrow> bool \<Rightarrow> 32 word \<Rightarrow> bool" where
  "rules_v11 is11 from13 w \<longleftrightarrow>
     field2 w 10 \<noteq> 3 \<and>
     (session_capable w \<longrightarrow> cap w 7 \<or> cap w 6) \<and>
     (cap w 7 \<or> cap w 6 \<or> cap w 13 \<or> cap w 14 \<or> from13 \<and> cap w 25 \<longrightarrow> session_capable w) \<and>
     (cap w 15 \<longrightarrow> cap w 9) \<and>
     \<not> (cap w 1 \<and> cap w 16) \<and>
     (cap w 2 \<or> cap w 9 \<or> field2 w 3 = 2 \<or> cap w 8 \<or> from13 \<and> field2 w 22 = 2 \<longrightarrow> cap w 1 \<or> cap w 16) \<and>
     (cap w 1 \<or> cap w 16 \<longrightarrow> cap w 2 \<or> cap w 9 \<or> field2 w 3 = 2 \<or> from13 \<and> 2 \<le> field2 w 22) \<and>
     (cap w 8 \<longrightarrow> (cap w 9 \<or> cap w 2) \<and> (is11 \<longrightarrow> cap w 12))"

definition rules_v12 :: "32 word \<Rightarrow> bool" where
  "rules_v12 w \<longleftrightarrow> (cap w 18 \<or> cap w 19 \<longrightarrow> cap w 1) \<and> (cap w 20 \<longrightarrow> cap w 19) \<and>
     (cap w 21 \<longrightarrow> cap w 19)"

definition rules_v13 :: "32 word \<Rightarrow> bool" where
  "rules_v13 w \<longleftrightarrow> field2 w 22 \<noteq> 3 \<and> field2 w 26 \<noteq> 3 \<and>
     (field2 w 26 \<noteq> 0 \<longrightarrow> cap w 28 \<and> cap w 1) \<and>
     (cap w 16 \<longrightarrow> field2 w 26 = 0 \<and> \<not> cap w 28 \<and> \<not> cap w 29)"

definition rules_v14 :: "32 word \<Rightarrow> bool" where
  "rules_v14 w \<longleftrightarrow> (cap w 30 \<longrightarrow> cap w 29)"

lemma bitfield_1: "bitfield i (Suc 0) w = of_bool (cap w i)"
  by (simp add: bitfield_def cap_def take_bit_Suc bit_iff_odd_drop_bit mod2_eq_if)

lemma bitfield_2: "bitfield i 2 w = field2 w i"
proof -
  have "take_bit 2 (drop_bit i w) = of_bool (bit w i) + 2 * of_bool (bit w (Suc i))"
    by (simp add: numeral_2_eq_2 take_bit_Suc bit_iff_odd_drop_bit drop_bit_Suc mod2_eq_if
        flip: drop_bit_half)
  then show ?thesis by (simp add: bitfield_def field2_def)
qed

lemma field2_le: "field2 w i \<le> 3"
  by (simp add: field2_def)

lemmas caps_fields = caps_bit_cast_def bitfield_1 bitfield_2

lemma meas_rule:
  "check_meas_caps_universal (caps_bit_cast w) \<longleftrightarrow> field2 w 3 \<noteq> 3 \<and> (cap w 5 \<longrightarrow> field2 w 3 \<noteq> 0)"
  by (auto simp: check_meas_caps_universal_def caps_fields)

lemma v10_rule:
  "field2 w 3 \<noteq> 3 \<Longrightarrow> check_caps_v10 (caps_bit_cast w) \<longleftrightarrow> rules_v10 w"
proof -
  assume "field2 w 3 \<noteq> 3"
  then have "field2 w 3 = 0 \<or> field2 w 3 = 1 \<or> field2 w 3 = 2" using field2_le [of w 3] by linarith
  then show ?thesis by (auto simp: check_caps_v10_def rules_v10_def caps_fields)
qed

lemma v11_rule:
  assumes "field2 w 3 \<noteq> 3"
  shows "check_session_caps_v11 v (caps_bit_cast w) version \<and> check_identity_caps_v11 v (caps_bit_cast w) version
      \<and> check_mut_auth_caps_v11 v (caps_bit_cast w) version
    \<longleftrightarrow> rules_v11 (version = VERSION_11 v) (VERSION_13 v \<le> version) w"
proof -
  have m: "field2 w 3 = 0 \<or> field2 w 3 = 1 \<or> field2 w 3 = 2" using field2_le [of w 3] assms by linarith
  have e: "field2 w 22 = 0 \<or> field2 w 22 = 1 \<or> field2 w 22 = 2 \<or> field2 w 22 = 3"
    using field2_le [of w 22] by linarith
  have s: "check_session_caps_v11 v (caps_bit_cast w) version \<longleftrightarrow> field2 w 10 \<noteq> 3 \<and>
     (session_capable w \<longrightarrow> cap w 7 \<or> cap w 6) \<and>
     (cap w 7 \<or> cap w 6 \<or> cap w 13 \<or> cap w 14 \<or> VERSION_13 v \<le> version \<and> cap w 25 \<longrightarrow> session_capable w) \<and>
     (cap w 15 \<longrightarrow> cap w 9)"
    by (auto simp: check_session_caps_v11_def session_capable_def caps_fields Let_def)
  have i: "check_identity_caps_v11 v (caps_bit_cast w) version \<longleftrightarrow> \<not> (cap w 1 \<and> cap w 16) \<and>
     (cap w 2 \<or> cap w 9 \<or> field2 w 3 = 2 \<or> cap w 8 \<or> VERSION_13 v \<le> version \<and> field2 w 22 = 2
        \<longrightarrow> cap w 1 \<or> cap w 16) \<and>
     (cap w 1 \<or> cap w 16 \<longrightarrow> cap w 2 \<or> cap w 9 \<or> field2 w 3 = 2 \<or> VERSION_13 v \<le> version \<and> 2 \<le> field2 w 22)"
    using m e by (auto simp: check_identity_caps_v11_def caps_fields Let_def)
  show ?thesis
    unfolding s i by (auto simp: check_mut_auth_caps_v11_def rules_v11_def caps_fields)
qed

lemma v12_rule: "check_cert_management_caps_v12 (caps_bit_cast w) \<longleftrightarrow> rules_v12 w"
  by (auto simp: check_cert_management_caps_v12_def rules_v12_def caps_fields)

lemma v13_rule: "check_multi_key_caps_v13 (caps_bit_cast w) \<longleftrightarrow> rules_v13 w"
  by (auto simp: check_multi_key_caps_v13_def rules_v13_def caps_fields)

lemma v14_rule: "check_key_pair_reset_cap_v14 (caps_bit_cast w) \<longleftrightarrow> rules_v14 w"
  by (auto simp: check_key_pair_reset_cap_v14_def rules_v14_def caps_fields)

text \<open>
  A responder's flags are accepted for a version exactly when they satisfy the dependencies
  of that version: in version 1.0 certificates and challenges go together; from 1.1 on sessions,
  identities and mutual authentication have what they need; from 1.2, 1.3 and 1.4 on the rules on
  managing certificates, on several keys and on resetting key pairs hold as well. Reserved bits
  play no role.
\<close>

theorem capability_check_exact:
  "validate_responder_capability_async v w version \<longleftrightarrow>
     field2 w 3 \<noteq> 3 \<and> (cap w 5 \<longrightarrow> field2 w 3 \<noteq> 0) \<and>
     (if version = VERSION_10 v then rules_v10 w
      else rules_v11 (version = VERSION_11 v) (VERSION_13 v \<le> version) w \<and>
        (VERSION_12 v \<le> version \<longrightarrow> rules_v12 w) \<and> (VERSION_13 v \<le> version \<longrightarrow> rules_v13 w) \<and>
        (VERSION_14 v \<le> version \<longrightarrow> rules_v14 w))"
proof (cases "check_meas_caps_universal (caps_bit_cast w)")
  case True
  then have m: "field2 w 3 \<noteq> 3" "cap w 5 \<longrightarrow> field2 w 3 \<noteq> 0" by (auto simp: meas_rule)
  from True m v10_rule [OF m(1)] v11_rule [OF m(1), of v version] show ?thesis
    by (auto simp: validate_responder_capability_async_def Let_def v12_rule v13_rule v14_rule)
next
  case False
  then show ?thesis by (auto simp: validate_responder_capability_async_def meas_rule Let_def)
qed

theorem capability_check_exact_witness:
  "validate_responder_capability_async \<lparr>VERSION_10 = 0x10, VERSION_11 = 0x11, VERSION_12 = 0x12, VERSION_13 = 0x13, VERSION_14 = 0x14\<rparr>
     0x0002C6 0x12 = True \<and>
   validate_responder_capability_async \<lparr>VERSION_10 = 0x10, VERSION_11 = 0x11, VERSION_12 = 0x12, VERSION_13 = 0x13, VERSION_14 = 0x14\<rparr>
     0x0000C6 0x12 = False"
  by (simp add: capability_check_exact rules_v11_def rules_v12_def session_capable_def cap_def field2_def)

end
