(* ===== verification/SpdmNegotiate.thy ===== *)
theory SpdmNegotiate
  imports SpdmCaps
begin

text \<open>
  Setting up an SPDM connection: the three request/response exchanges of
  \<open>examples/spdm/include/async/libspdm_req_get_version_async.hpp\<close>,
  \<open>libspdm_req_get_capabilities_async.hpp\<close> and \<open>libspdm_req_negotiate_algorithms_async.hpp\<close>, each
  with its retry loop, and their sequence (\<open>libspdm_req_init_connection_async.hpp\<close>).

  What the code takes from libspdm is a parameter: the numbers of codes, flags and algorithm
  types, the sizes and fields of the standard's structures that the repository does not declare,
  and the functions it calls. The structures declared in these headers are read at their packed
  offsets. \<open>LIBSPDM_ASSERT\<close> is not modelled. The message buffers are those of \<open>request_response\<close>.
\<close>

section \<open>What libspdm provides\<close>

record spdm_codes =
  GET_VERSION :: byte
  VERSION :: byte
  GET_CAPABILITIES :: byte
  CAPABILITIES :: byte
  NEGOTIATE_ALGORITHMS :: byte
  ALGORITHMS :: byte
  ERROR :: byte
  RESPONSE_NOT_READY :: byte
  TYPE_DHE :: byte
  TYPE_AEAD :: byte
  TYPE_REQ_BASE_ASYM_ALG :: byte
  TYPE_KEY_SCHEDULE :: byte
  TYPE_REQ_PQC_ASYM_ALG :: byte
  TYPE_KEM_ALG :: byte
  OPAQUE_DATA_FORMAT_MASK :: byte
  MULTI_KEY_CONN :: byte
  MEASUREMENT_SPECIFICATION_DMTF :: byte
  MEL_SPECIFICATION_DMTF :: byte
  KEY_SCHEDULE_SPDM :: "16 word"
  REQUEST_SUPPORTED_ALGORITHMS :: byte
  RESPONSE_SUPPORTED_ALGORITHMS :: byte

record spdm_flags =
  RSP_CERT :: "32 word"
  RSP_CHAL :: "32 word"
  RSP_MEAS :: "32 word"
  RSP_MEAS_SIG :: "32 word"
  RSP_MEL :: "32 word"
  RSP_KEY_EX :: "32 word"
  RSP_PSK :: "32 word"
  RSP_ENCRYPT :: "32 word"
  RSP_MAC :: "32 word"
  RSP_MUT_AUTH :: "32 word"
  RSP_CHUNK :: "32 word"
  RSP_MULTI_KEY :: "32 word"
  RSP_MULTI_KEY_ONLY :: "32 word"
  RSP_MULTI_KEY_NEG :: "32 word"
  REQ_KEY_EX :: "32 word"
  REQ_PSK :: "32 word"
  REQ_ENCRYPT :: "32 word"
  REQ_MAC :: "32 word"
  REQ_MUT_AUTH :: "32 word"
  REQ_EP_INFO_SIG :: "32 word"
  REQ_MULTI_KEY :: "32 word"
  REQ_MULTI_KEY_ONLY :: "32 word"

text \<open>The fields of the capability part of a context, of a request and of a response.\<close>

record capability =
  ct_exponent :: byte
  cap_flags :: "32 word"
  ext_flags :: "16 word"
  data_transfer_size :: "32 word"
  max_spdm_msg_size :: "32 word"

record algorithms_block =
  blk_length :: "16 word"
  blk_param1 :: byte
  blk_ext_asym_count :: byte
  blk_ext_hash_count :: byte

text \<open>
  Sizes and readers of \<open>spdm_capabilities_response_t\<close>, of the block of supported algorithms and of
  \<open>spdm_get_capabilities_request_t\<close>, which \<open>put_capabilities_request\<close> lays out (header, capability).
\<close>

record spdm_layout =
  sizeof_capabilities_request :: nat
  sizeof_capabilities_response :: nat
  sizeof_supported_algorithms_block :: nat
  sizeof_extended_algorithm :: nat
  sizeof_algorithms_response :: nat
  put_capabilities_request :: "byte list \<Rightarrow> capability \<Rightarrow> byte list"
  get_capabilities_response :: "byte list \<Rightarrow> capability"
  get_algorithms_block :: "byte list \<Rightarrow> algorithms_block"

record libspdm =
  versions :: spdm_versions
  codes :: spdm_codes
  flags :: spdm_flags
  layout :: spdm_layout
  MAX_VERSION_COUNT :: nat
  MIN_DATA_TRANSFER_SIZE :: "32 word"
  MAX_CT_EXPONENT :: byte
  handle_simple_error_response :: "byte \<Rightarrow> libspdm_return"
  append_message_a :: "byte list \<Rightarrow> byte list \<Rightarrow> libspdm_return \<times> byte list"
  negotiate_connection_version :: "16 word list \<Rightarrow> 16 word list \<Rightarrow> 16 word option"
  message_version :: "16 word \<Rightarrow> byte"
  mask_capability_flags :: "byte \<Rightarrow> bool \<Rightarrow> 32 word \<Rightarrow> 32 word"
  mask_capability_ext_flags :: "byte \<Rightarrow> bool \<Rightarrow> 16 word \<Rightarrow> 16 word"
  is_capabilities_flag_supported :: "byte \<Rightarrow> 32 word \<Rightarrow> 32 word \<Rightarrow> 32 word \<Rightarrow> 32 word \<Rightarrow> bool"
  onehot0 :: "32 word \<Rightarrow> bool"
  get_measurement_hash_size :: "32 word \<Rightarrow> nat"
  get_hash_size :: "32 word \<Rightarrow> nat"
  get_asym_signature_size :: "32 word \<Rightarrow> nat"
  get_pqc_asym_signature_size :: "32 word \<Rightarrow> nat"
  get_dhe_pub_key_size :: "16 word \<Rightarrow> nat"
  get_kem_encap_key_size :: "32 word \<Rightarrow> nat"
  get_aead_key_size :: "16 word \<Rightarrow> nat"
  get_req_asym_signature_size :: "16 word \<Rightarrow> nat"
  get_req_pqc_asym_signature_size :: "32 word \<Rightarrow> nat"


section \<open>The context\<close>

datatype connection_state =
    NOT_STARTED
  | AFTER_VERSION
  | AFTER_CAPABILITIES
  | NEGOTIATED
  | Further_state nat

record algorithms =
  measurement_spec :: byte
  other_params_support :: byte
  mel_spec :: byte
  measurement_hash_algo :: "32 word"
  base_asym_algo :: "32 word"
  base_hash_algo :: "32 word"
  pqc_asym_algo :: "32 word"
  dhe_named_group :: "16 word"
  aead_cipher_suite :: "16 word"
  req_base_asym_alg :: "16 word"
  key_schedule :: "16 word"
  req_pqc_asym_alg :: "32 word"
  kem_alg :: "32 word"

text \<open>
  The part of \<open>libspdm_context_t\<close> the code reads and writes: the buffers and the connection
  (\<open>base\<close>, which holds the negotiated version), the state, the transcript, the local settings, and
  what was negotiated.
\<close>

record 'c neg_context =
  base :: "'c spdm_context"
  connection_state :: connection_state
  message_a :: "byte list"
  is_requester :: bool
  local_versions :: "16 word list"
  local_capability :: capability
  local_algorithm :: algorithms
  peer_capability :: capability
  conn_algorithm :: algorithms
  multi_key_conn_rsp :: bool
  multi_key_conn_req :: bool

definition connection_version :: "'c neg_context \<Rightarrow> byte" where
  "connection_version ctx = conn_version (base ctx)"




text \<open>A sequence of \<open>if (condition) co_return status\<close>: the first condition that holds decides.\<close>

fun first_error :: "(bool \<times> libspdm_return) list \<Rightarrow> libspdm_return" where
  "first_error [] = STATUS_SUCCESS"
| "first_error ((failed, status) # rest) = (if failed then status else first_error rest)"

section \<open>GET_VERSION\<close>




section \<open>GET_CAPABILITIES\<close>













section \<open>NEGOTIATE_ALGORITHMS\<close>

definition supported :: "libspdm \<Rightarrow> 'c neg_context \<Rightarrow> 32 word \<Rightarrow> 32 word \<Rightarrow> bool" where
  "supported lib ctx req_flag rsp_flag = is_capabilities_flag_supported lib (connection_version ctx)
     (cap_flags (local_capability ctx)) (cap_flags (peer_capability ctx)) req_flag rsp_flag"

definition needs_base_hash :: "libspdm \<Rightarrow> 'c neg_context \<Rightarrow> bool" where
  "needs_base_hash lib ctx \<longleftrightarrow> supported lib ctx 0 (RSP_CERT (flags lib))
     \<or> supported lib ctx 0 (RSP_CHAL (flags lib)) \<or> supported lib ctx 0 (RSP_MEAS_SIG (flags lib))
     \<or> supported lib ctx (REQ_KEY_EX (flags lib)) (RSP_KEY_EX (flags lib))
     \<or> supported lib ctx (REQ_PSK (flags lib)) (RSP_PSK (flags lib))"

definition needs_asym_algo :: "libspdm \<Rightarrow> 'c neg_context \<Rightarrow> bool" where
  "needs_asym_algo lib ctx \<longleftrightarrow> supported lib ctx 0 (RSP_CERT (flags lib))
     \<or> supported lib ctx 0 (RSP_CHAL (flags lib)) \<or> supported lib ctx 0 (RSP_MEAS_SIG (flags lib))
     \<or> supported lib ctx (REQ_KEY_EX (flags lib)) (RSP_KEY_EX (flags lib))"

definition needs_key_exchange :: "libspdm \<Rightarrow> 'c neg_context \<Rightarrow> bool" where
  "needs_key_exchange lib ctx \<longleftrightarrow> supported lib ctx (REQ_KEY_EX (flags lib)) (RSP_KEY_EX (flags lib))"

definition needs_aead :: "libspdm \<Rightarrow> 'c neg_context \<Rightarrow> bool" where
  "needs_aead lib ctx \<longleftrightarrow> supported lib ctx (REQ_ENCRYPT (flags lib)) (RSP_ENCRYPT (flags lib))
     \<or> supported lib ctx (REQ_MAC (flags lib)) (RSP_MAC (flags lib))"

definition needs_mut_auth :: "libspdm \<Rightarrow> 'c neg_context \<Rightarrow> bool" where
  "needs_mut_auth lib ctx \<longleftrightarrow> supported lib ctx (REQ_MUT_AUTH (flags lib)) (RSP_MUT_AUTH (flags lib))
     \<or> supported lib ctx (REQ_EP_INFO_SIG (flags lib)) 0"

definition needs_key_schedule :: "libspdm \<Rightarrow> 'c neg_context \<Rightarrow> bool" where
  "needs_key_schedule lib ctx \<longleftrightarrow> supported lib ctx (REQ_KEY_EX (flags lib)) (RSP_KEY_EX (flags lib))
     \<or> supported lib ctx (REQ_PSK (flags lib)) (RSP_PSK (flags lib))"











text \<open>An entry at position \<open>t\<close>: its type, its two counts and its algorithms, and the next position.\<close>

definition alg_type :: "byte list \<Rightarrow> nat \<Rightarrow> byte" where "alg_type r t = r ! t"
definition alg_count :: "byte list \<Rightarrow> nat \<Rightarrow> byte" where "alg_count r t = r ! (t + 1)"
definition alg_supported :: "byte list \<Rightarrow> nat \<Rightarrow> 16 word" where "alg_supported r t = le16 (r ! (t + 2)) (r ! (t + 3))"
definition ext_alg_count :: "byte list \<Rightarrow> nat \<Rightarrow> nat" where "ext_alg_count r t = unat (alg_count r t AND 0xF)"
definition next_struct_table :: "byte list \<Rightarrow> nat \<Rightarrow> nat" where "next_struct_table r t = t + 4 + 4 * ext_alg_count r t"






definition set_table_algorithm :: "libspdm \<Rightarrow> byte \<Rightarrow> 16 word \<Rightarrow> algorithms \<Rightarrow> algorithms" where
  "set_table_algorithm lib ty sel a =
     (if ty = TYPE_DHE (codes lib) then a\<lparr>dhe_named_group := sel\<rparr>
      else if ty = TYPE_AEAD (codes lib) then a\<lparr>aead_cipher_suite := sel\<rparr>
      else if ty = TYPE_REQ_BASE_ASYM_ALG (codes lib) then a\<lparr>req_base_asym_alg := sel\<rparr>
      else if ty = TYPE_KEY_SCHEDULE (codes lib) then a\<lparr>key_schedule := sel\<rparr>
      else if ty = TYPE_REQ_PQC_ASYM_ALG (codes lib) then a\<lparr>req_pqc_asym_alg := ucast sel\<rparr>
      else if ty = TYPE_KEM_ALG (codes lib) then a\<lparr>kem_alg := ucast sel\<rparr>
      else a)"

fun set_tables :: "libspdm \<Rightarrow> byte list \<Rightarrow> nat \<Rightarrow> nat \<Rightarrow> algorithms \<Rightarrow> algorithms" where
  "set_tables lib r 0 t a = a"
| "set_tables lib r (Suc n) t a =
     set_tables lib r n (next_struct_table r t) (set_table_algorithm lib (alg_type r t) (alg_supported r t) a)"








section \<open>Retries, and the whole connection\<close>






section \<open>What a successful negotiation leaves behind\<close>






text \<open>
  What passes between the two sides is observed through a history of the connection: \<open>hist\<close> reads
  it off the connection state, every send adds the request to it and every receive what it
  returned. Any connection can be given one (\<open>logged\<close>).
\<close>

datatype wire_event =
    Asked "byte list"
  | Answered "byte list"
  | Unanswered




definition wire_log :: "('c \<Rightarrow> wire_event list) \<Rightarrow> 'c neg_context \<Rightarrow> wire_event list" where
  "wire_log hist ctx = hist (conn (base ctx))"

text \<open>An answer that tells the requester to come back later, and a stretch of a history in which
  one request is repeated, at most \<open>n\<close> times, and answered in no other way.\<close>

definition busy_answer :: "libspdm \<Rightarrow> byte list \<Rightarrow> bool" where
  "busy_answer lib a \<longleftrightarrow> 4 \<le> length a \<and> a ! 1 = ERROR (codes lib) \<and>
     handle_simple_error_response lib (a ! 2) = STATUS_BUSY_PEER"

fun repeat_event :: "libspdm \<Rightarrow> byte list \<Rightarrow> wire_event \<Rightarrow> bool" where
  "repeat_event lib req (Asked b) \<longleftrightarrow> b = req"
| "repeat_event lib req (Answered a) \<longleftrightarrow> busy_answer lib a"
| "repeat_event lib req Unanswered \<longleftrightarrow> True"

fun is_asked :: "wire_event \<Rightarrow> bool" where
  "is_asked (Asked b) \<longleftrightarrow> True"
| "is_asked _ \<longleftrightarrow> False"

definition repeats :: "libspdm \<Rightarrow> byte list \<Rightarrow> nat \<Rightarrow> wire_event list \<Rightarrow> bool" where
  "repeats lib req n l \<longleftrightarrow> list_all (repeat_event lib req) l \<and> length (filter is_asked l) \<le> n"

lemma repeats_Nil [simp]: "repeats lib req n []"
  by (simp add: repeats_def)


lemma repeats_mono: "repeats lib req n l \<Longrightarrow> n \<le> m \<Longrightarrow> repeats lib req m l"
  by (simp add: repeats_def)

lemma first_error_success:
  "first_error gs = STATUS_SUCCESS \<Longrightarrow> list_all (\<lambda>g. is_error (snd g)) gs \<Longrightarrow> list_all (\<lambda>g. \<not> fst g) gs"
  by (induction gs rule: first_error.induct) (auto split: if_splits)






lemma wire_log_update [simp]:
  "wire_log hist (ctx\<lparr>message_a := a\<rparr>) = wire_log hist ctx"
  "wire_log hist (ctx\<lparr>connection_state := s\<rparr>) = wire_log hist ctx"
  "wire_log hist (ctx\<lparr>is_requester := q\<rparr>) = wire_log hist ctx"
  "wire_log hist (ctx\<lparr>peer_capability := c\<rparr>) = wire_log hist ctx"
  "wire_log hist (ctx\<lparr>conn_algorithm := g\<rparr>) = wire_log hist ctx"
  "wire_log hist (ctx\<lparr>multi_key_conn_rsp := m\<rparr>) = wire_log hist ctx"
  "wire_log hist (ctx\<lparr>multi_key_conn_req := m\<rparr>) = wire_log hist ctx"
  "wire_log hist (ctx\<lparr>base := (base ctx)\<lparr>conn_version := v\<rparr>\<rparr>) = wire_log hist ctx"
  by (simp_all add: wire_log_def)
























section \<open>The selected algorithms\<close>

text \<open>
  One of two alternatives was selected, with a size libspdm knows and among the algorithms
  that were offered.
\<close>

definition chosen :: "nat \<Rightarrow> bool \<Rightarrow> nat \<Rightarrow> bool \<Rightarrow> bool" where
  "chosen size1 offered1 size2 offered2 \<longleftrightarrow>
     size1 \<noteq> 0 \<and> offered1 \<and> size2 = 0 \<or> size2 \<noteq> 0 \<and> offered2 \<and> size1 = 0"

definition selection_ok :: "libspdm \<Rightarrow> byte \<Rightarrow> 'c neg_context \<Rightarrow> bool" where
  "selection_ok lib version ctx \<longleftrightarrow>
     (let a = conn_algorithm ctx; l = local_algorithm ctx; v14 = (version \<ge> VERSION_14 (versions lib)) in
      (needs_base_hash lib ctx \<longrightarrow> get_hash_size lib (base_hash_algo a) \<noteq> 0 \<and> base_hash_algo a AND base_hash_algo l \<noteq> 0) \<and>
      (needs_asym_algo lib ctx \<longrightarrow> chosen (get_asym_signature_size lib (base_asym_algo a)) (base_asym_algo a AND base_asym_algo l \<noteq> 0)
         (if v14 then get_pqc_asym_signature_size lib (pqc_asym_algo a) else 0) (pqc_asym_algo a AND pqc_asym_algo l \<noteq> 0)) \<and>
      (version \<ge> VERSION_11 (versions lib) \<longrightarrow>
         (needs_key_exchange lib ctx \<longrightarrow> chosen (get_dhe_pub_key_size lib (dhe_named_group a)) (dhe_named_group a AND dhe_named_group l \<noteq> 0)
            (if v14 then get_kem_encap_key_size lib (kem_alg a) else 0) (kem_alg a AND kem_alg l \<noteq> 0)) \<and>
         (needs_aead lib ctx \<longrightarrow> get_aead_key_size lib (aead_cipher_suite a) \<noteq> 0 \<and> aead_cipher_suite a AND aead_cipher_suite l \<noteq> 0) \<and>
         (needs_mut_auth lib ctx \<longrightarrow> chosen (get_req_asym_signature_size lib (req_base_asym_alg a)) (req_base_asym_alg a AND req_base_asym_alg l \<noteq> 0)
            (if v14 then get_req_pqc_asym_signature_size lib (req_pqc_asym_alg a) else 0) (req_pqc_asym_alg a AND req_pqc_asym_alg l \<noteq> 0)) \<and>
         (needs_key_schedule lib ctx \<longrightarrow> key_schedule a = KEY_SCHEDULE_SPDM (codes lib) \<and> key_schedule a AND key_schedule l \<noteq> 0)))"



lemma needs_algorithm [simp]:
  "needs_base_hash lib (ctx\<lparr>conn_algorithm := a\<rparr>) = needs_base_hash lib ctx"
  "needs_asym_algo lib (ctx\<lparr>conn_algorithm := a\<rparr>) = needs_asym_algo lib ctx"
  "needs_key_exchange lib (ctx\<lparr>conn_algorithm := a\<rparr>) = needs_key_exchange lib ctx"
  "needs_aead lib (ctx\<lparr>conn_algorithm := a\<rparr>) = needs_aead lib ctx"
  "needs_mut_auth lib (ctx\<lparr>conn_algorithm := a\<rparr>) = needs_mut_auth lib ctx"
  "needs_key_schedule lib (ctx\<lparr>conn_algorithm := a\<rparr>) = needs_key_schedule lib ctx"
  by (simp_all add: needs_base_hash_def needs_asym_algo_def needs_key_exchange_def needs_aead_def
      needs_mut_auth_def needs_key_schedule_def supported_def connection_version_def)

lemma selection_ok_state [simp]:
  "selection_ok lib v (ctx\<lparr>connection_state := s\<rparr>) = selection_ok lib v ctx"
  "selection_ok lib v (ctx\<lparr>multi_key_conn_req := m\<rparr>) = selection_ok lib v ctx"
  by (simp_all add: selection_ok_def needs_base_hash_def needs_asym_algo_def needs_key_exchange_def needs_aead_def
      needs_mut_auth_def needs_key_schedule_def supported_def connection_version_def)

lemma set_table_fixed:
  "base_hash_algo (set_table_algorithm lib ty sel a) = base_hash_algo a"
  "base_asym_algo (set_table_algorithm lib ty sel a) = base_asym_algo a"
  "pqc_asym_algo (set_table_algorithm lib ty sel a) = pqc_asym_algo a"
  by (simp_all add: set_table_algorithm_def)

lemma set_tables_fixed [simp]:
  "base_hash_algo (set_tables lib r n t a) = base_hash_algo a"
  "base_asym_algo (set_tables lib r n t a) = base_asym_algo a"
  "pqc_asym_algo (set_tables lib r n t a) = pqc_asym_algo a"
  by (induction n arbitrary: t a) (simp_all add: set_table_fixed)





























end
