(* ===== verification/SpdmTransport.thy ===== *)
theory SpdmTransport
  imports SpdmAsync
begin

text \<open>
  Sending a request and receiving a response of SPDM
  (\<open>examples/spdm/include/async/libspdm_req_send_receive_async.hpp\<close>): the choice of the buffer for
  the encoded message, the backup of the last request, the encoding and its errors; the
  decoding, the second attempt after a key update that the responder did not take, and the
  checks on the session of a response. The transport's encoder and decoder, the session keys
  and the socket are parameters. The code is that with chunking enabled.
\<close>

section \<open>The library\<close>

datatype decode_status = Decoded libspdm_return | Try_discard_key_update

datatype encode_status = Encoded | Sequence_number_overflow | Crypto_error | Encode_error libspdm_return

fun encode_return :: "encode_status \<Rightarrow> libspdm_return" where
  "encode_return Encoded = STATUS_SUCCESS"
| "encode_return Sequence_number_overflow = STATUS_OTHER_ERROR 1"
| "encode_return Crypto_error = STATUS_OTHER_ERROR 2"
| "encode_return (Encode_error e) = e"

type_synonym session_id = "32 word"

text \<open>
  \<open>decode\<close> gets the encoded message, the expected session and whether the keys from before the
  update are active; it gives the status, the session and kind of the message and its bytes.
\<close>

record 'c transport_lib =
  encode :: "session_id option \<Rightarrow> bool \<Rightarrow> byte list \<Rightarrow> nat \<Rightarrow> 'c \<Rightarrow> encode_status \<times> byte list"
  decode :: "session_id option \<Rightarrow> bool \<Rightarrow> byte list \<Rightarrow> 'c \<Rightarrow> decode_status \<times> session_id option \<times> bool \<times> byte list"
  io_send :: "byte list \<Rightarrow> 'c \<Rightarrow> bool \<times> 'c"
  io_receive :: "'c \<Rightarrow> byte list option \<times> 'c"
  secured_context :: "session_id \<Rightarrow> 'c \<Rightarrow> bool"
  activate_update_key :: "session_id \<Rightarrow> 'c \<Rightarrow> bool"
  create_update_key :: "session_id \<Rightarrow> 'c \<Rightarrow> bool"
  decrypt_error :: "'c \<Rightarrow> bool"

record request_codes =
  RESPOND_IF_READY :: byte
  CHUNK_GET :: byte
  CHUNK_SEND :: byte

text \<open>Where the request lies; the message is encoded into the buffer it lies in.\<close>

datatype request_place = Sender_buffer | Scratch_sender_receiver | Scratch_large | Elsewhere

record buffers =
  sender_buffer_size :: nat
  sender_receiver_capacity :: nat
  large_sender_receiver_capacity :: nat

definition message_capacity :: "buffers \<Rightarrow> request_place \<Rightarrow> nat" where
  "message_capacity bs p = (case p of
     Sender_buffer \<Rightarrow> sender_buffer_size bs
   | Scratch_sender_receiver \<Rightarrow> sender_receiver_capacity bs
   | Scratch_large \<Rightarrow> large_sender_receiver_capacity bs
   | Elsewhere \<Rightarrow> 0)"

record 'c transport_state =
  wire_state :: 'c
  last_spdm_request :: "byte list"
  freed :: "session_id list"
  st_data_transfer_size :: nat

section \<open>The two coroutines\<close>

definition libspdm_send_request_async ::
  "'c transport_lib \<Rightarrow> request_codes \<Rightarrow> buffers \<Rightarrow> request_place \<Rightarrow> session_id option \<Rightarrow> bool
     \<Rightarrow> byte list \<Rightarrow> 'c transport_state \<Rightarrow> libspdm_return \<times> 'c transport_state" where
  "libspdm_send_request_async lib codes bs place session is_app request s =
     (let code = request ! 1;
          s1 = (if code \<noteq> RESPOND_IF_READY codes \<and> code \<noteq> CHUNK_GET codes \<and> code \<noteq> CHUNK_SEND codes
                then s\<lparr>last_spdm_request := request\<rparr> else s)
      in case encode lib session is_app request (message_capacity bs place) (wire_state s1) of
        (status, message) \<Rightarrow>
          if encode_return status \<noteq> STATUS_SUCCESS then
            (encode_return status,
             case session of
               Some sid \<Rightarrow> if status = Sequence_number_overflow \<or> status = Crypto_error
                 then s1\<lparr>freed := freed s1 @ [sid]\<rparr> else s1
             | None \<Rightarrow> s1)
          else case io_send lib message (wire_state s1) of (sent, w) \<Rightarrow>
            (if sent then STATUS_SUCCESS else STATUS_SEND_FAIL, s1\<lparr>wire_state := w\<rparr>))"

text \<open>The label \<open>error\<close>.\<close>

definition receive_error :: "'c transport_lib \<Rightarrow> 'c \<Rightarrow> libspdm_return" where
  "receive_error lib w = (if decrypt_error lib w then STATUS_OTHER_ERROR 3 else STATUS_RECEIVE_FAIL)"

text \<open>What is checked once the message is decoded; \<open>reset\<close> is set after the second attempt.\<close>

definition finish_receive ::
  "'c transport_lib \<Rightarrow> session_id option \<Rightarrow> bool \<Rightarrow> bool \<Rightarrow> libspdm_return \<times> session_id option \<times> bool \<times> byte list
     \<Rightarrow> 'c transport_state \<Rightarrow> (libspdm_return \<times> byte list) \<times> 'c transport_state" where
  "finish_receive lib session is_app reset d s = (case d of (status, msg_session, msg_app, response) \<Rightarrow>
     let response1 = take (st_data_transfer_size s) response; w = wire_state s in
     if msg_session \<noteq> session then ((receive_error lib w, response1), s)
     else if is_app \<noteq> msg_app then ((receive_error lib w, response1), s)
     else let s1 = (case session of
              Some sid \<Rightarrow> if is_error status \<and> decrypt_error lib w then s\<lparr>freed := freed s @ [sid]\<rparr> else s
            | None \<Rightarrow> s)
       in if reset \<and> (case msg_session of None \<Rightarrow> True | Some sid \<Rightarrow> \<not> create_update_key lib sid w)
          then ((STATUS_OTHER_ERROR 0, response1), s1)
          else ((status, response1), s1))"

definition libspdm_receive_response_async ::
  "'c transport_lib \<Rightarrow> session_id option \<Rightarrow> bool \<Rightarrow> 'c transport_state
     \<Rightarrow> (libspdm_return \<times> byte list) \<times> 'c transport_state" where
  "libspdm_receive_response_async lib session is_app s = (case io_receive lib (wire_state s) of
     (None, w) \<Rightarrow> ((STATUS_RECEIVE_FAIL, []), s\<lparr>wire_state := w\<rparr>)
   | (Some message, w) \<Rightarrow>
       let s1 = s\<lparr>wire_state := w\<rparr> in
       (case decode lib session False message w of
          (Decoded status, msg_session, msg_app, response) \<Rightarrow>
            finish_receive lib session is_app False (status, msg_session, msg_app, response) s1
        | (Try_discard_key_update, msg_session, msg_app, response) \<Rightarrow>
            (case msg_session of
               None \<Rightarrow> ((STATUS_OTHER_ERROR 0, []), s1)
             | Some sid \<Rightarrow>
                 if \<not> secured_context lib sid w then ((STATUS_OTHER_ERROR 0, []), s1)
                 else if \<not> activate_update_key lib sid w then ((STATUS_OTHER_ERROR 0, []), s1)
                 else (case decode lib session True message w of
                   (status2, msg_session2, msg_app2, response2) \<Rightarrow>
                     finish_receive lib session is_app True
                       (case status2 of Decoded st \<Rightarrow> st | Try_discard_key_update \<Rightarrow> STATUS_OTHER_ERROR 4,
                        msg_session2, msg_app2, response2) s1))))"

section \<open>Only the expected session is heard\<close>

lemma finish_receive_success:
  "finish_receive lib session is_app reset (status, m, a, response) s = ((STATUS_SUCCESS, r), s') \<Longrightarrow>
     status = STATUS_SUCCESS \<and> m = session \<and> a = is_app \<and> r = take (st_data_transfer_size s) response \<and> s' = s"
  by (auto simp: finish_receive_def receive_error_def Let_def split: if_splits option.splits)

text \<open>
  A response is delivered only if the transport decoded a message of exactly the session and
  kind that were asked for, under the current keys or, after a rejected key update, under the
  previous ones; it is cut to the transfer size. Whatever arrives, the session ids that are freed are
  none but the caller's.
\<close>

theorem responses_of_own_session:
  assumes "libspdm_receive_response_async lib session is_app s = ((status, r), s')"
  shows "(status = STATUS_SUCCESS \<longrightarrow>
      length r \<le> st_data_transfer_size s \<and> freed s' = freed s \<and>
      (\<exists>message w old response. io_receive lib (wire_state s) = (Some message, w) \<and>
         decode lib session old message w = (Decoded STATUS_SUCCESS, session, is_app, response) \<and>
         r = take (st_data_transfer_size s) response)) \<and>
    (freed s' = freed s \<or> (\<exists>sid. session = Some sid \<and> freed s' = freed s @ [sid]))"
proof (cases "io_receive lib (wire_state s)")
  case (Pair m w)
  show ?thesis
  proof (cases m)
    case None
    with Pair assms show ?thesis by (auto simp: libspdm_receive_response_async_def)
  next
    case (Some message)
    let ?s1 = "s\<lparr>wire_state := w\<rparr>"
    have fr: "finish_receive lib session is_app x d ?s1 = ((status, r), s') \<Longrightarrow>
        freed s' = freed s \<or> (\<exists>sid. session = Some sid \<and> freed s' = freed s @ [sid])" for x d
      by (auto simp: finish_receive_def Let_def split: if_splits prod.splits option.splits)
    obtain st ms ma resp where d: "decode lib session False message w = (st, ms, ma, resp)" by (metis prod_cases4)
    obtain st2 ms2 ma2 resp2 where d2: "decode lib session True message w = (st2, ms2, ma2, resp2)" by (metis prod_cases4)
    show ?thesis
    proof (cases st)
      case (Decoded x)
      with assms Pair Some d have f: "finish_receive lib session is_app False (x, ms, ma, resp) ?s1 = ((status, r), s')"
        by (simp add: libspdm_receive_response_async_def)
      from fr [OF f] finish_receive_success [of lib session is_app False x ms ma resp ?s1 r s'] f Pair Some d Decoded
      show ?thesis by auto
    next
      case Try_discard_key_update
      show ?thesis
      proof (cases "case ms of None \<Rightarrow> True | Some sid \<Rightarrow> \<not> secured_context lib sid w \<or> \<not> activate_update_key lib sid w")
        case True
        with assms Pair Some d Try_discard_key_update show ?thesis
          by (auto simp: libspdm_receive_response_async_def Let_def split: option.splits if_splits)
      next
        case False
        let ?x = "case st2 of Decoded x \<Rightarrow> x | Try_discard_key_update \<Rightarrow> STATUS_OTHER_ERROR 4"
        from False assms Pair Some d d2 Try_discard_key_update
        have f: "finish_receive lib session is_app True (?x, ms2, ma2, resp2) ?s1 = ((status, r), s')"
          by (auto simp: libspdm_receive_response_async_def Let_def split: option.splits if_splits)
        have "status = STATUS_SUCCESS \<Longrightarrow> st2 = Decoded STATUS_SUCCESS \<and> ms2 = session \<and> ma2 = is_app"
          using finish_receive_success [of lib session is_app True ?x ms2 ma2 resp2 ?s1 r s'] f
          by (cases st2) auto
        with fr [OF f] finish_receive_success [of lib session is_app True ?x ms2 ma2 resp2 ?s1 r s'] f Pair Some d2
        show ?thesis by auto
      qed
    qed
  qed
qed

definition sample_transport :: "byte list transport_lib" where
  "sample_transport = \<lparr>encode = (\<lambda>sid app b n w. (Encoded, b)),
     decode = (\<lambda>sid old b w. if old then (Decoded STATUS_SUCCESS, sid, False, b) else (Try_discard_key_update, sid, False, [])),
     io_send = (\<lambda>b w. (True, w)), io_receive = (\<lambda>w. (Some w, [])), secured_context = (\<lambda>sid w. True),
     activate_update_key = (\<lambda>sid w. True), create_update_key = (\<lambda>sid w. True), decrypt_error = (\<lambda>w. False)\<rparr>"

theorem responses_of_own_session_witness:
  "\<exists>s'. libspdm_receive_response_async sample_transport (Some 7) False
      \<lparr>wire_state = [0x12, 0x61, 0, 0], last_spdm_request = [], freed = [], st_data_transfer_size = 3\<rparr>
      = ((STATUS_SUCCESS, [0x12, 0x61, 0]), s') \<and> freed s' = []"
proof -
  let ?s = "\<lparr>wire_state = [0x12, 0x61, 0, 0], last_spdm_request = [], freed = [], st_data_transfer_size = 3\<rparr>
    :: byte list transport_state"
  obtain s' where "libspdm_receive_response_async sample_transport (Some 7) False ?s = ((STATUS_SUCCESS, [0x12, 0x61, 0]), s')"
    by (simp add: libspdm_receive_response_async_def sample_transport_def finish_receive_def)
  with responses_of_own_session [OF this] show ?thesis by auto
qed

text \<open>The last request is what was sent, except for the requests that continue an earlier one.\<close>

lemma last_request_backed_up:
  assumes "libspdm_send_request_async lib codes bs place session is_app request s = (status, s')"
  shows "last_spdm_request s' =
    (if request ! 1 \<in> {RESPOND_IF_READY codes, CHUNK_GET codes, CHUNK_SEND codes} then last_spdm_request s else request)"
  using assms
  by (auto simp: libspdm_send_request_async_def Let_def split: prod.splits if_splits option.splits)

end
