(* ===== verification/SpdmPem.thy ===== *)
theory SpdmPem
  imports SpdmMessages
begin

text \<open>
  The conversion of a chain of DER certificates to PEM text (\<open>derCertsToPem\<close> and the part of
  \<open>getCertificate\<close> that strips the chain header, \<open>examples/spdm/spdm_requester/src/spdm_certificate_client.hpp\<close>).
  Finding the certificates in the chain is libspdm's
  \<open>libspdm_x509_get_cert_from_cert_chain\<close>, the argument \<open>get_cert\<close>.

  The specification is a decoder for the text, and the theorem says that decoding what the
  code produces gives the certificates back.
\<close>

section \<open>Base 64\<close>

definition b64_table :: string where
  "b64_table = ''ABCDEFGHIJKLMNOPQRSTUVWXYZabcdefghijklmnopqrstuvwxyz0123456789+/''"

definition b64_char :: "32 word \<Rightarrow> char" where
  "b64_char n = b64_table ! unat (n AND 63)"

definition word24 :: "byte \<Rightarrow> byte \<Rightarrow> byte \<Rightarrow> 32 word" where
  "word24 a b c = push_bit 16 (ucast a) OR push_bit 8 (ucast b) OR ucast c"

text \<open>The loop over groups of three bytes and the one or two bytes left over.\<close>

fun base64 :: "byte list \<Rightarrow> string" where
  "base64 (a # b # c # rest) =
     (let n = word24 a b c in
      [b64_char (drop_bit 18 n), b64_char (drop_bit 12 n), b64_char (drop_bit 6 n), b64_char n]
      @ base64 rest)"
| "base64 [a, b] =
     (let n = push_bit 16 (ucast a) OR push_bit 8 (ucast b) in
      [b64_char (drop_bit 18 n), b64_char (drop_bit 12 n), b64_char (drop_bit 6 n), CHR ''=''])"
| "base64 [a] =
     (let n = push_bit 16 (ucast a) in
      [b64_char (drop_bit 18 n), b64_char (drop_bit 12 n)] @ ''=='')"
| "base64 [] = []"

function base64Lines :: "string \<Rightarrow> string" where
  "base64Lines s = (if s = [] then [] else take 64 s @ [CHR 0x0A] @ base64Lines (drop 64 s))"
  by pat_completeness auto
termination
  by (relation "measure length") (auto simp: length_greater_0_conv)

declare base64Lines.simps [simp del]

definition pem_begin :: string where
  "pem_begin = ''-----BEGIN CERTIFICATE-----'' @ [CHR 0x0A]"

definition pem_end :: string where
  "pem_end = ''-----END CERTIFICATE-----'' @ [CHR 0x0A]"

definition pem_of :: "byte list \<Rightarrow> string" where
  "pem_of cert = pem_begin @ base64Lines (base64 cert) @ pem_end"

section \<open>The chain\<close>

text \<open>
  The loop over the certificates: \<open>get_cert i\<close> is the certificate with index \<open>i\<close>, if there is
  one. The loop leaves when the lengths add up to the chain or no certificate is found; a
  certificate of length zero would repeat for ever, so the loop is a partial function.
\<close>

partial_function (option) derCerts_loop ::
  "(nat \<Rightarrow> byte list option) \<Rightarrow> nat \<Rightarrow> string \<Rightarrow> byte list \<Rightarrow> nat \<Rightarrow> nat
     \<Rightarrow> (string \<times> byte list) option" where
  "derCerts_loop get_cert totalLen pemChain lastCert index currentCertLen =
     (if currentCertLen < totalLen
      then case get_cert index of
        None \<Rightarrow> Some (pemChain, lastCert)
      | Some cert \<Rightarrow> derCerts_loop get_cert totalLen (pemChain @ pem_of cert) cert (index + 1)
          (currentCertLen + length cert)
      else Some (pemChain, lastCert))"

definition derCertsToPem ::
  "(byte list \<Rightarrow> nat \<Rightarrow> byte list option) \<Rightarrow> byte list \<Rightarrow> (string \<times> byte list) option" where
  "derCertsToPem get_cert derCerts =
     derCerts_loop (get_cert derCerts) (length derCerts) [] [] 0 0"

text \<open>
  \<open>getCertificate\<close>: the chain libspdm returns (an error is \<open>None\<close>) starts with a header of four
  bytes and the root hash. The outer option is the loop's.
\<close>

definition getCertificate ::
  "(byte list \<Rightarrow> nat \<Rightarrow> byte list option) \<Rightarrow> nat \<Rightarrow> byte list option
     \<Rightarrow> (bool \<times> string \<times> byte list \<times> byte list) option" where
  "getCertificate get_cert hash_size certChain = (case certChain of
     None \<Rightarrow> Some (False, [], [], [])
   | Some chain \<Rightarrow>
       if length chain < 4 + hash_size then Some (False, [], [], [])
       else case derCertsToPem get_cert (drop (4 + hash_size) chain) of
         None \<Rightarrow> None
       | Some (pemChain, leafCert) \<Rightarrow> Some (True, pemChain, chain, leafCert))"

text \<open>
  \<open>getCertificateDigests\<close>: the size of the digests reported for the slots set in the mask, with
  the digest size fixed to 48.
\<close>

definition totalDigestSize :: "byte \<Rightarrow> nat" where
  "totalDigestSize slotMask = min (length (filter (\<lambda>i. bit slotMask i) [0..<8]) * 48) (8 * 48)"

section \<open>A decoder\<close>

definition b64_value :: "char \<Rightarrow> 32 word" where
  "b64_value ch = word_of_nat (length (takeWhile (\<lambda>x. x \<noteq> ch) b64_table))"

definition quad :: "char \<Rightarrow> char \<Rightarrow> char \<Rightarrow> char \<Rightarrow> 32 word" where
  "quad p q r s = push_bit 18 (b64_value p) OR push_bit 12 (b64_value q)
     OR push_bit 6 (b64_value r) OR b64_value s"

fun unbase64 :: "string \<Rightarrow> byte list" where
  "unbase64 (p # q # r # s # rest) =
     (if r = CHR ''='' then [ucast (drop_bit 16 (quad p q (CHR ''A'') (CHR ''A'')))]
      else if s = CHR ''='' then
        [ucast (drop_bit 16 (quad p q r (CHR ''A''))), ucast (drop_bit 8 (quad p q r (CHR ''A'')))]
      else [ucast (drop_bit 16 (quad p q r s)), ucast (drop_bit 8 (quad p q r s)), ucast (quad p q r s)]
        @ unbase64 rest)"
| "unbase64 _ = []"

text \<open>The text of one certificate: the lines between the markers, without the line ends.\<close>

definition unpem :: "string \<Rightarrow> byte list" where
  "unpem s = unbase64 (filter (\<lambda>c. c \<noteq> CHR 0x0A)
     (take (length s - length pem_begin - length pem_end) (drop (length pem_begin) s)))"

section \<open>Round trip\<close>

lemma b64_table_facts: "length b64_table = 64" "distinct b64_table"
  "CHR 0x0A \<notin> set b64_table" "CHR ''='' \<notin> set b64_table"
  by (simp_all add: b64_table_def)

lemma takeWhile_nth: "distinct xs \<Longrightarrow> k < length xs \<Longrightarrow> length (takeWhile (\<lambda>x. x \<noteq> xs ! k) xs) = k"
proof (induction xs arbitrary: k)
  case (Cons x xs)
  then show ?case by (cases k) (auto simp: in_set_conv_nth)
qed simp

lemma masked_small: "unat (n AND 63 :: 32 word) < 64"
proof -
  have "n AND 63 \<le> 63" by (rule word_and_le1)
  then have "unat (n AND 63) \<le> unat (63 :: 32 word)" by (simp add: word_le_nat_alt)
  then show ?thesis by simp
qed

lemma and_63: "n AND 63 = take_bit 6 n" for n :: "32 word"
  by (simp add: take_bit_eq_mask mask_eq_exp_minus_1)

lemma b64_value_char: "b64_value (b64_char n) = take_bit 6 n"
  unfolding and_63 [symmetric]
  using takeWhile_nth [OF b64_table_facts(2), of "unat (n AND 63)"] masked_small [of n]
  by (simp add: b64_value_def b64_char_def b64_table_facts)

lemma b64_char_in: "b64_char n \<in> set b64_table"
  using masked_small [of n] by (simp add: b64_char_def b64_table_facts)

lemma b64_char_not: "b64_char n \<noteq> CHR ''=''" "b64_char n \<noteq> CHR 0x0A"
  using b64_char_in [of n] b64_table_facts by metis+

lemma quad_word24:
  "quad (b64_char (drop_bit 18 n)) (b64_char (drop_bit 12 n)) (b64_char (drop_bit 6 n)) (b64_char n)
     = take_bit 24 n"
proof (rule bit_word_eqI)
  fix m assume "m < LENGTH(32)"
  then consider "m < 6" | "6 \<le> m" "m < 12" | "12 \<le> m" "m < 18" | "18 \<le> m" "m < 24" | "24 \<le> m" "m < 32"
    by fastforce
  then show "bit (quad (b64_char (drop_bit 18 n)) (b64_char (drop_bit 12 n)) (b64_char (drop_bit 6 n))
      (b64_char n)) m = bit (take_bit 24 n) m"
    by cases (auto simp: quad_def b64_value_char bit_simps)
qed

lemma word24_bytes:
  "ucast (drop_bit 16 (take_bit 24 (word24 a b c))) = a"
  "ucast (drop_bit 8 (take_bit 24 (word24 a b c))) = b"
  "ucast (take_bit 24 (word24 a b c)) = c"
  by (rule bit_word_eqI; auto simp: word24_def bit_simps dest: bit_imp_le_length)+

lemma short_groups:
  "push_bit 16 (ucast a) OR push_bit 8 (ucast b) = word24 a b 0"
  "push_bit 16 (ucast a) = word24 a 0 0"
  by (simp_all add: word24_def)

lemma pad_chars: "b64_char (word24 a b 0) = CHR ''A''" "b64_char (drop_bit 6 (word24 a 0 0)) = CHR ''A''"
proof -
  have "word24 a b 0 AND 63 = 0" "drop_bit 6 (word24 a 0 0) AND 63 = 0"
    unfolding and_63 by (rule bit_word_eqI; auto simp: word24_def bit_simps)+
  then show "b64_char (word24 a b 0) = CHR ''A''" "b64_char (drop_bit 6 (word24 a 0 0)) = CHR ''A''"
    by (simp_all add: b64_char_def b64_table_def)
qed

lemma unbase64_base64: "unbase64 (base64 cert) = cert"
proof (induction cert rule: base64.induct)
  case (1 a b c rest)
  then show ?case by (simp add: Let_def b64_char_not quad_word24 word24_bytes)
next
  case (2 a b)
  show ?case
    using quad_word24 [of "word24 a b 0"]
    by (simp add: Let_def short_groups(1) b64_char_not pad_chars word24_bytes)
next
  case (3 a)
  show ?case
    using quad_word24 [of "word24 a 0 0"]
    by (simp add: Let_def short_groups pad_chars word24_bytes)
qed simp

lemma base64_no_newline: "CHR 0x0A \<notin> set (base64 cert)"
  by (induction cert rule: base64.induct) (auto simp: Let_def b64_char_not(2) [symmetric])

lemma filter_lines: "CHR 0x0A \<notin> set s \<Longrightarrow> filter (\<lambda>c. c \<noteq> CHR 0x0A) (base64Lines s) = s"
proof (induction s rule: base64Lines.induct)
  case (1 s)
  show ?case
  proof (cases "s = []")
    case True
    then show ?thesis by (simp add: base64Lines.simps)
  next
    case False
    have "CHR 0x0A \<notin> set (drop 64 s)" using "1.prems" by (auto dest: in_set_dropD)
    moreover have "filter (\<lambda>c. c \<noteq> CHR 0x0A) (take 64 s) = take 64 s"
      using "1.prems" by (intro filter_True) (auto dest: in_set_takeD)
    ultimately show ?thesis
      using False "1.IH" by (subst base64Lines.simps) simp
  qed
qed

lemma unpem_pem: "unpem (pem_of cert) = cert"
  by (simp add: unpem_def pem_of_def filter_lines base64_no_newline unbase64_base64)

lemma derCerts_loop_all:
  assumes "\<And>i. get_cert i = (if i < length certs then Some (certs ! i) else None)"
    and "\<forall>c\<in>set certs. c \<noteq> []" and "totalLen = length (concat certs)"
  shows "k \<le> length certs \<Longrightarrow> currentCertLen = length (concat (take k certs)) \<Longrightarrow>
    derCerts_loop get_cert totalLen pemChain lastCert k currentCertLen =
      Some (pemChain @ concat (map pem_of (drop k certs)), last (lastCert # drop k certs))"
proof (induction "length certs - k" arbitrary: k pemChain lastCert currentCertLen)
  case 0
  then have "k = length certs" by simp
  with 0 assms(3) show ?case by (subst derCerts_loop.simps) simp
next
  case (Suc n)
  then have k: "k < length certs" by simp
  have "concat certs = concat (take k certs) @ concat (drop k certs)"
    by (metis append_take_drop_id concat_append)
  moreover have d: "drop k certs = certs ! k # drop (Suc k) certs" using k by (rule Cons_nth_drop_Suc [symmetric])
  moreover have "certs ! k \<noteq> []" using assms(2) k by simp
  ultimately have "currentCertLen < totalLen" using assms(3) Suc.prems by simp
  moreover have "currentCertLen + length (certs ! k) = length (concat (take (Suc k) certs))"
    using Suc.prems k by (simp add: take_Suc_conv_app_nth)
  moreover have "n = length certs - Suc k" using Suc.hyps(2) by simp
  ultimately show ?case
    using Suc.hyps(1) [of "Suc k" "currentCertLen + length (certs ! k)" "pemChain @ pem_of (certs ! k)"
        "certs ! k"] k d assms(1) [of k]
    by (subst derCerts_loop.simps) simp
qed

text \<open>
  A chain of non-empty certificates is converted completely: the loop ends, the text is the
  concatenation of one PEM block per certificate in order, each block decodes to its
  certificate, and the leaf returned is the last one.
\<close>

theorem derCertsToPem_roundtrip:
  assumes "\<And>i. get_cert (concat certs) i = (if i < length certs then Some (certs ! i) else None)"
    and "\<forall>c\<in>set certs. c \<noteq> []"
  shows "derCertsToPem get_cert (concat certs) =
      Some (concat (map pem_of certs), if certs = [] then [] else last certs) \<and>
    map unpem (map pem_of certs) = certs"
proof
  show "derCertsToPem get_cert (concat certs) =
      Some (concat (map pem_of certs), if certs = [] then [] else last certs)"
    using derCerts_loop_all [of "get_cert (concat certs)" certs "length (concat certs)" 0 0 "[]" "[]"] assms
    by (simp add: derCertsToPem_def)
  show "map unpem (map pem_of certs) = certs" by (simp add: unpem_pem comp_def)
qed

theorem derCertsToPem_roundtrip_witness:
  "derCertsToPem (\<lambda>_ i. if i < 2 then Some ([[0x30, 1], [0x30, 2, 3]] ! i) else None) [0x30, 1, 0x30, 2, 3]
     = Some (pem_of [0x30, 1] @ pem_of [0x30, 2, 3], [0x30, 2, 3]) \<and> unpem (pem_of [0x30, 1]) = [0x30, 1]"
  using derCertsToPem_roundtrip [of "\<lambda>_ i. if i < 2 then Some ([[0x30, 1], [0x30, 2, 3]] ! i) else None"
      "[[0x30, 1], [0x30, 2, 3]]"]
  by (simp add: numeral_2_eq_2)

end
