(* ===== verification/TelnetTls.thy ===== *)
theory TelnetTls
  imports Telnet ConsoleConfig "HOL-Library.Char_ord" "HOL-Library.List_Lexorder"
begin

text \<open>
  The telnet-over-TLS console gateway and its client: PAM authentication
  (\<open>include/pam_auth.hpp\<close>), a session of the server from login over the menu to the bridge to a
  console (\<open>examples/telnet_tls/telnet_tls_server.cpp\<close>), and the client's escape detector and
  event handling (\<open>telnet_tls_client.cpp\<close>). Decoding and option negotiation are those of
  \<open>Telnet\<close>, the console configuration is that of \<open>ConsoleConfig\<close>.

  The world of a session is the list of what happens to it, in order: bytes or an error from
  the client, bytes or an error from the console it is connected to. PAM, the user and group
  databases, the connection to a console, and the outcome of writes are parameters. TLS itself
  is not modelled: bytes written arrive in order.
\<close>

section \<open>PAM\<close>

record pam =
  pam_start_ok :: "byte list \<Rightarrow> byte list \<Rightarrow> bool"
  pam_authenticate_ok :: "byte list \<Rightarrow> byte list \<Rightarrow> byte list \<Rightarrow> bool"
  pam_acct_mgmt_ok :: "byte list \<Rightarrow> byte list \<Rightarrow> bool"

datatype pam_message = PROMPT_ECHO_OFF | PROMPT_ECHO_ON | ERROR_MSG | TEXT_INFO | Other_style

text \<open>The conversation function: the replies, or \<open>None\<close> for \<open>PAM_CONV_ERR\<close>.\<close>

fun conversation_replies ::
  "byte list \<Rightarrow> byte list \<Rightarrow> pam_message list \<Rightarrow> byte list option list option" where
  "conversation_replies user password [] = Some []"
| "conversation_replies user password (m # ms) = (case m of
      Other_style \<Rightarrow> None
    | _ \<Rightarrow> (case conversation_replies user password ms of
        None \<Rightarrow> None
      | Some rs \<Rightarrow> Some ((case m of
            PROMPT_ECHO_OFF \<Rightarrow> Some password
          | PROMPT_ECHO_ON \<Rightarrow> Some user
          | _ \<Rightarrow> None) # rs)))"

definition conversation ::
  "nat \<Rightarrow> byte list \<Rightarrow> byte list \<Rightarrow> pam_message list \<Rightarrow> byte list option list option" where
  "conversation PAM_MAX_NUM_MSG user password msgs =
     (if msgs = [] \<or> length msgs > PAM_MAX_NUM_MSG then None
      else conversation_replies user password msgs)"

definition authenticateBlocking :: "pam \<Rightarrow> byte list \<Rightarrow> byte list \<Rightarrow> byte list \<Rightarrow> bool" where
  "authenticateBlocking p service user password =
     (if \<not> pam_start_ok p service user then False
      else if pam_authenticate_ok p service user password
      then pam_acct_mgmt_ok p service user else False)"

definition maxUserLen :: nat where "maxUserLen = 64"
definition maxPasswordLen :: nat where "maxPasswordLen = 512"

text \<open>
  What happens around the child process: the pipe and the fork may fail, and the child may not
  report in time (it is killed) or not at all.
\<close>

datatype child = Pipe_failed | Fork_failed | No_report | Reported

definition authenticate :: "pam \<Rightarrow> child \<Rightarrow> byte list \<Rightarrow> byte list \<Rightarrow> byte list \<Rightarrow> bool" where
  "authenticate p c service user password =
     (if user = [] \<or> length user > maxUserLen \<or> length password > maxPasswordLen
         \<or> 0 \<in> set user \<or> 0 \<in> set password then False
      else case c of
        Pipe_failed \<Rightarrow> False
      | Fork_failed \<Rightarrow> False
      | No_report \<Rightarrow> False
      | Reported \<Rightarrow> authenticateBlocking p service user password)"

text \<open>The user's primary group, and a group's number and members.\<close>

record accounts =
  getpwnam :: "byte list \<Rightarrow> nat option"
  getgrnam :: "byte list \<Rightarrow> (nat \<times> byte list list) option"

definition userInGroup :: "accounts \<Rightarrow> byte list \<Rightarrow> byte list \<Rightarrow> bool" where
  "userInGroup acc user gname = (case (getpwnam acc user, getgrnam acc gname) of
     (Some gid, Some (grgid, members)) \<Rightarrow> if gid = grgid then True else user \<in> set members
   | _ \<Rightarrow> False)"

section \<open>The single writer\<close>

text \<open>
  \<open>send\<close> appends to a queue that one coroutine drains: the state is the queue, the chunk being
  written if a writer is active, and the bytes the peer has got.
\<close>

record writer =
  outQueue :: "byte list"
  inflight :: "byte list option"
  wire :: "byte list"

definition writer_idle :: writer where
  "writer_idle = \<lparr>outQueue = [], inflight = None, wire = []\<rparr>"

text \<open>The head of the \<open>while\<close> loop: take the queue as the next chunk, or stop writing.\<close>

definition writer_next :: "writer \<Rightarrow> writer" where
  "writer_next w = (if outQueue w \<noteq> [] then w\<lparr>inflight := Some (outQueue w), outQueue := []\<rparr>
     else w\<lparr>inflight := None\<rparr>)"

definition writer_send :: "byte list \<Rightarrow> writer \<Rightarrow> writer" where
  "writer_send bytes w =
     (let w1 = w\<lparr>outQueue := outQueue w @ bytes\<rparr> in
      if inflight w1 \<noteq> None then w1 else writer_next w1)"

text \<open>The write completes; an error leaves the loop and clears the queue.\<close>

definition writer_complete :: "bool \<Rightarrow> writer \<Rightarrow> writer" where
  "writer_complete success w = (case inflight w of
     None \<Rightarrow> w
   | Some chunk \<Rightarrow>
       if success then writer_next (w\<lparr>wire := wire w @ chunk\<rparr>)
       else w\<lparr>outQueue := [], inflight := None\<rparr>)"

datatype writer_event = Send "byte list" | Write_done bool

fun writer_step :: "writer_event \<Rightarrow> writer \<Rightarrow> writer" where
  "writer_step (Send b) w = writer_send b w"
| "writer_step (Write_done success) w = writer_complete success w"

section \<open>The session\<close>

definition bytes_of :: "string \<Rightarrow> byte list" where
  "bytes_of s = map (\<lambda>c. word_of_nat (of_char c)) s"

definition crlf :: "byte list" where "crlf = [0x0D, 0x0A]"

definition escapeChar :: byte where "escapeChar = 0x1D"
definition maxLoginAttempts :: nat where "maxLoginAttempts = 3"
definition maxLineLength :: nat where "maxLineLength = 128"

datatype world_event =
    Client "errc + byte list"
  | Console "errc + byte list"

record ConsoleEntry =
  ce_name :: string
  ce_socketPath :: string

text \<open>
  \<open>sent\<close> are the bytes passed to \<open>send\<close>; \<open>to_console\<close> what was written to consoles, with the console's
  name; \<open>opened\<close> and \<open>logins\<close> record the connections made and the calls of \<open>authenticate\<close>.
\<close>

record session =
  input :: "world_event list"
  decoder :: Decoder
  negotiator :: Negotiator
  buffered :: "byte list"
  sent :: "byte list"
  lastCr :: bool
  terminalTypeRequested :: bool
  winsize :: "16 word \<times> 16 word"
  opened :: "string list"
  to_console :: "(string \<times> byte) list"
  logins :: "(byte list \<times> byte list) list"

definition tls_send :: "byte list \<Rightarrow> session \<Rightarrow> session" where
  "tls_send bytes s = s\<lparr>sent := sent s @ bytes\<rparr>"

definition server_policy :: Policy where
  "server_policy =
     \<lparr>policy_local = (\<lambda>x. x = opt_echo \<or> x = opt_suppressGoAhead),
      policy_remote = (\<lambda>x. x = opt_suppressGoAhead \<or> x = opt_naws \<or> x = opt_terminalType)\<rparr>"

definition session_new :: "world_event list \<Rightarrow> session" where
  "session_new evs =
     \<lparr>input = evs, decoder = Decoder_init, negotiator = Negotiator_init server_policy, buffered = [],
      sent = [], lastCr = False, terminalTypeRequested = False, winsize = (0, 0), opened = [],
      to_console = [], logins = []\<rparr>"

definition request_all :: "(byte \<times> byte) list \<Rightarrow> Negotiator \<Rightarrow> Negotiator \<times> byte list" where
  "request_all rs n = foldl (\<lambda>(n, out) (verb, opt).
     case request n verb opt of (n', b) \<Rightarrow> (n', out @ b)) (n, []) rs"

definition initialNegotiation :: "session \<Rightarrow> session \<times> byte list" where
  "initialNegotiation s = (case request_all
       [(cmd_will, opt_echo), (cmd_will, opt_suppressGoAhead), (cmd_doo, opt_suppressGoAhead),
        (cmd_doo, opt_naws), (cmd_doo, opt_terminalType)] (negotiator s) of
     (n, out) \<Rightarrow> (s\<lparr>negotiator := n\<rparr>, out))"

fun tls_onEvent :: "Event \<Rightarrow> session \<Rightarrow> session" where
  "tls_onEvent (Negotiation verb option) s = (case handle (negotiator s) verb option of
     (n, reply) \<Rightarrow>
       let s1 = s\<lparr>negotiator := n\<rparr>;
           s2 = (if reply \<noteq> [] then tls_send reply s1 else s1)
       in if verb = cmd_will \<and> option = opt_terminalType
             \<and> remoteEnabled (negotiator s2) opt_terminalType \<and> \<not> terminalTypeRequested s2
          then tls_send terminalTypeSendFrame (s2\<lparr>terminalTypeRequested := True\<rparr>) else s2)"
| "tls_onEvent (Subnegotiation option payload) s =
     (if option = opt_naws then case parseNaws payload of
         Some sz \<Rightarrow> s\<lparr>winsize := sz\<rparr> | None \<Rightarrow> s
      else s)"
| "tls_onEvent (Command c) s = s"

text \<open>A line feed directly after a carriage return is dropped, also across reads.\<close>

fun collapse :: "bool \<Rightarrow> byte list \<Rightarrow> byte list \<times> bool" where
  "collapse cr [] = ([], cr)"
| "collapse cr (c # cs) =
     (if c = 0x0A \<and> cr then collapse False cs
      else case collapse (c = 0x0D) cs of (out, l) \<Rightarrow> (c # out, l))"

text \<open>One successful read of \<open>readApp\<close>.\<close>

definition read_bytes :: "byte list \<Rightarrow> session \<Rightarrow> session" where
  "read_bytes b s = (case feed b (decoder s) [] [] of (d, decoded, events) \<Rightarrow>
     let s1 = fold tls_onEvent events (s\<lparr>decoder := d\<rparr>) in
     case collapse (lastCr s1) decoded of (out, l) \<Rightarrow>
       s1\<lparr>lastCr := l, buffered := buffered s1 @ out\<rparr>)"

text \<open>
  \<open>readApp\<close> with \<open>pending_\<close> as its buffer: reads until a byte of application data is there. A
  stream that has ended fails every further read.
\<close>

fun readApp :: "world_event list \<Rightarrow> session \<Rightarrow> errc option \<times> session" where
  "readApp [] s = (Some End_of_file, s\<lparr>input := []\<rparr>)"
| "readApp (Console _ # evs) s = readApp evs s"
| "readApp (Client (Inl e) # evs) s = (Some e, s\<lparr>input := evs\<rparr>)"
| "readApp (Client (Inr b) # evs) s =
     (let s1 = read_bytes b s in
      if buffered s1 \<noteq> [] then (None, s1\<lparr>input := evs\<rparr>) else readApp evs s1)"

definition nextByte :: "session \<Rightarrow> (errc + byte) \<times> session" where
  "nextByte s = (case (if buffered s = [] then readApp (input s) s else (None, s)) of
     (Some e, s1) \<Rightarrow> (Inl e, s1)
   | (None, s1) \<Rightarrow> (Inr (hd (buffered s1)), s1\<lparr>buffered := tl (buffered s1)\<rparr>))"

section \<open>The line editor ends\<close>

fun event_size :: "world_event \<Rightarrow> nat" where
  "event_size (Client (Inr b)) = Suc (length b)"
| "event_size (Client (Inl e)) = 1"
| "event_size (Console r) = 1"

definition session_size :: "session \<Rightarrow> nat" where
  "session_size s = length (buffered s) + sum_list (map event_size (input s))"

lemma feed_byte_length:
  "feed_byte c (d, x, ev) = (d', x', ev') \<Longrightarrow> length x' \<le> Suc (length x)"
  by (auto simp: dataByte_def onIac_def split: State.splits if_splits)

lemma feed_length: "feed b d x ev = (d', x', ev') \<Longrightarrow> length x' \<le> length b + length x"
proof (induction b arbitrary: d x ev)
  case (Cons c b)
  obtain d1 x1 e1 where f: "feed_byte c (d, x, ev) = (d1, x1, e1)" by (metis prod.collapse)
  with Cons.prems have "feed b d1 x1 e1 = (d', x', ev')" by (simp add: feed_def)
  from Cons.IH [OF this] feed_byte_length [OF f] show ?case by simp
qed simp

lemma collapse_length: "collapse l b = (out, l') \<Longrightarrow> length out \<le> length b"
  by (induction l b arbitrary: out l' rule: collapse.induct)
    (auto split: if_splits prod.splits intro: le_SucI)

lemma tls_send_simps [simp]:
  "buffered (tls_send b s) = buffered s" "input (tls_send b s) = input s"
  "decoder (tls_send b s) = decoder s" "negotiator (tls_send b s) = negotiator s"
  "lastCr (tls_send b s) = lastCr s" "logins (tls_send b s) = logins s"
  "opened (tls_send b s) = opened s" "to_console (tls_send b s) = to_console s"
  "sent (tls_send b s) = sent s @ b" "terminalTypeRequested (tls_send b s) = terminalTypeRequested s"
  by (simp_all add: tls_send_def)

lemma onEvent_keeps [simp]:
  "buffered (tls_onEvent e s) = buffered s" "input (tls_onEvent e s) = input s"
  "decoder (tls_onEvent e s) = decoder s" "lastCr (tls_onEvent e s) = lastCr s"
  "logins (tls_onEvent e s) = logins s" "opened (tls_onEvent e s) = opened s"
  "to_console (tls_onEvent e s) = to_console s"
  by (cases e; simp add: Let_def split: prod.splits option.splits)+

lemma onEvents_keep [simp]:
  "buffered (fold tls_onEvent es s) = buffered s" "input (fold tls_onEvent es s) = input s"
  "decoder (fold tls_onEvent es s) = decoder s" "lastCr (fold tls_onEvent es s) = lastCr s"
  "logins (fold tls_onEvent es s) = logins s" "opened (fold tls_onEvent es s) = opened s"
  "to_console (fold tls_onEvent es s) = to_console s"
  by (induction es arbitrary: s) simp_all

lemma read_bytes_keeps [simp]:
  "input (read_bytes b s) = input s" "logins (read_bytes b s) = logins s"
  "opened (read_bytes b s) = opened s" "to_console (read_bytes b s) = to_console s"
  by (simp_all add: read_bytes_def Let_def split: prod.splits)

lemma read_bytes_pending: "length (buffered (read_bytes b s)) \<le> length (buffered s) + length b"
  by (auto simp: read_bytes_def Let_def split: prod.splits dest!: feed_length collapse_length)

lemma readApp_keeps:
  "readApp evs s = (e, s') \<Longrightarrow>
     logins s' = logins s \<and> opened s' = opened s \<and> to_console s' = to_console s"
  by (induction evs s rule: readApp.induct) (auto simp: Let_def split: if_splits)

lemma readApp_size:
  "readApp evs s = (e, s') \<Longrightarrow> session_size s' \<le> length (buffered s) + sum_list (map event_size evs) \<and>
     (e = None \<longrightarrow> buffered s' \<noteq> [] \<and>
        session_size s' < length (buffered s) + sum_list (map event_size evs))"
proof (induction evs s rule: readApp.induct)
  case (4 b evs s)
  show ?case
  proof (cases "buffered (read_bytes b s) \<noteq> []")
    case True
    with 4 have "e = None" "s' = (read_bytes b s)\<lparr>input := evs\<rparr>" by (auto simp: Let_def)
    with True read_bytes_pending [of b s] show ?thesis
      by (simp add: session_size_def)
  next
    case False
    with 4 show ?thesis by (auto simp: Let_def)
  qed
qed (auto simp: session_size_def)

lemma nextByte_size:
  "nextByte s = (r, s') \<Longrightarrow> session_size s' \<le> session_size s \<and>
     ((\<exists>c. r = Inr c) \<longrightarrow> session_size s' < session_size s)"
  by (cases "buffered s = []")
    (auto simp: nextByte_def split: prod.splits option.splits dest!: readApp_size,
     auto simp: session_size_def)

section \<open>Reading a line\<close>

function readLine_loop :: "bool \<Rightarrow> byte list \<Rightarrow> session \<Rightarrow> byte list option \<times> session" where
  "readLine_loop echo line s = (case nextByte s of
     (Inl e, s1) \<Rightarrow> (None, s1)
   | (Inr c, s1) \<Rightarrow>
       if c = 0x0D \<or> c = 0x0A then (Some line, tls_send crlf s1)
       else if c = 0x03 \<or> c = 0x04 then (None, s1)
       else if c = 0x7F \<or> c = 0x08 then
         (if line \<noteq> [] then
            readLine_loop echo (butlast line) (if echo then tls_send [0x08, 0x20, 0x08] s1 else s1)
          else readLine_loop echo line s1)
       else if c < 0x20 \<or> c \<ge> 0x7F \<or> length line \<ge> maxLineLength then readLine_loop echo line s1
       else readLine_loop echo (line @ [c]) (if echo then tls_send [c] s1 else s1))"
  by pat_completeness auto
termination
proof (relation "measure (\<lambda>(_, _, s). session_size s)", goal_cases)
  case 1
  then show ?case by simp
qed (auto dest!: sym [of _ "nextByte _"] nextByte_size simp: session_size_def)

declare readLine_loop.simps [simp del]

definition readLine :: "bool \<Rightarrow> session \<Rightarrow> byte list option \<times> session" where
  "readLine echo s = readLine_loop echo [] s"


section \<open>Login, menu and bridge\<close>

record gateway =
  gw_pam :: pam
  gw_child :: "nat \<Rightarrow> child"
  gw_accounts :: accounts
  gw_service :: "byte list"
  gw_group :: "byte list"
  gw_order :: "config_sections \<Rightarrow> config_sections"
  gw_config :: "string option"
  gw_connect :: "string \<Rightarrow> bool"
  gw_console_write :: "byte list \<Rightarrow> bool"
  gw_tls_write :: "byte list \<Rightarrow> bool"

text \<open>The decision on one pair of user and password; it is recorded when PAM is asked.\<close>

definition check_login :: "gateway \<Rightarrow> byte list \<Rightarrow> byte list \<Rightarrow> session \<Rightarrow> bool \<times> session" where
  "check_login gw user password s =
     (if user = [] then (False, s)
      else let s1 = s\<lparr>logins := logins s @ [(user, password)]\<rparr>;
               ok = authenticate (gw_pam gw) (gw_child gw (length (logins s))) (gw_service gw) user password
           in (ok \<and> (gw_group gw = [] \<or> userInGroup (gw_accounts gw) user (gw_group gw)), s1))"

fun login_loop :: "gateway \<Rightarrow> nat \<Rightarrow> session \<Rightarrow> byte list option \<times> session" where
  "login_loop gw 0 s = (None, s)"
| "login_loop gw (Suc n) s = (case readLine True (tls_send (crlf @ bytes_of ''login: '') s) of
     (None, s1) \<Rightarrow> (None, s1)
   | (Some user, s1) \<Rightarrow>
       (case readLine False (tls_send (bytes_of ''Password: '') s1) of
          (None, s2) \<Rightarrow> (None, s2)
        | (Some password, s2) \<Rightarrow>
            (case check_login gw user password s2 of
               (True, s3) \<Rightarrow> (Some user, s3)
             | (False, s3) \<Rightarrow> login_loop gw n (tls_send (bytes_of ''Login incorrect'' @ crlf) s3))))"

definition login :: "gateway \<Rightarrow> session \<Rightarrow> byte list option \<times> session" where
  "login gw s = login_loop gw maxLoginAttempts s"

definition loadConsoles :: "gateway \<Rightarrow> number_exn + ConsoleEntry list" where
  "loadConsoles gw = ebind (loadFromFile (gw_order gw) (gw_config gw)) (\<lambda>cfg. case cfg of
     None \<Rightarrow> Inr []
   | Some c \<Rightarrow> Inr (sort_key ce_name
       (map (\<lambda>dev. \<lparr>ce_name = bd_name (dc_base dev), ce_socketPath = bd_socketPath (dc_base dev)\<rparr>)
         (filter (\<lambda>dev. deviceTypeString (dc_specific dev) \<noteq> ''IBMI_EMULATOR'') (cfg_devices c)))))"

fun menu_lines :: "nat \<Rightarrow> ConsoleEntry list \<Rightarrow> byte list" where
  "menu_lines i [] = []"
| "menu_lines i (e # es) =
     bytes_of (''  '' @ to_string (i + 1) @ '') '' @ ce_name e) @ crlf @ menu_lines (i + 1) es"

definition menuText :: "ConsoleEntry list \<Rightarrow> byte list" where
  "menuText consoles =
     crlf @ bytes_of ''Available consoles:'' @ crlf @ menu_lines 0 consoles
     @ bytes_of (''Select console [1-'' @ to_string (length consoles) @ ''] or q to quit: '')"

text \<open>
  \<open>std::from_chars\<close> into a \<open>size_t\<close> over the whole line, and the range test: the index chosen.
\<close>

definition selection :: "byte list \<Rightarrow> nat \<Rightarrow> nat option" where
  "selection line n =
     (let cs = map (\<lambda>b. char_of (unat b)) line; digits = takeWhile is_digit cs; index = digits_value digits
      in if digits = [] \<or> index \<ge> 2 ^ 64 \<or> digits \<noteq> cs \<or> index < 1 \<or> index > n then None else Some index)"

datatype RelayEnd = Relay_none | Relay_escape | Relay_consoleClosed | Relay_clientClosed

text \<open>One turn of \<open>toConsole\<close> with the buffered input: everything up to the escape character.\<close>

definition toConsole_turn :: "gateway \<Rightarrow> string \<Rightarrow> session \<Rightarrow> RelayEnd \<times> session" where
  "toConsole_turn gw name s =
     (let app = buffered s; s1 = s\<lparr>buffered := []\<rparr>;
          out = takeWhile (\<lambda>c. c \<noteq> escapeChar) app; escape = (escapeChar \<in> set app)
      in if out \<noteq> [] \<and> \<not> gw_console_write gw out then (Relay_consoleClosed, s1)
         else let s2 = s1\<lparr>to_console := to_console s1 @ map (\<lambda>c. (name, c)) out\<rparr>
           in (if escape then Relay_escape else Relay_none, s2))"

text \<open>
  The two coroutines of the bridge, over the events in the order in which they happen. When
  the TLS write fails, the reader of the client is still waiting and ends with the next event
  from it; when the console ends, that reader is cancelled.
\<close>

fun relay :: "gateway \<Rightarrow> string \<Rightarrow> world_event list \<Rightarrow> session \<Rightarrow> RelayEnd \<times> session" where
  "relay gw name [] s = (Relay_clientClosed, s\<lparr>input := []\<rparr>)"
| "relay gw name (Client (Inl e) # evs) s = (Relay_clientClosed, s\<lparr>input := evs\<rparr>)"
| "relay gw name (Client (Inr b) # evs) s =
     (let s1 = read_bytes b s in
      if buffered s1 = [] then relay gw name evs s1
      else case toConsole_turn gw name s1 of (end, s2) \<Rightarrow>
        if end = Relay_none then relay gw name evs s2 else (end, s2\<lparr>input := evs\<rparr>))"
| "relay gw name (Console (Inl e) # evs) s = (Relay_consoleClosed, s\<lparr>input := evs\<rparr>)"
| "relay gw name (Console (Inr b) # evs) s =
     (if gw_tls_write gw (escapeIac b) then relay gw name evs (tls_send (escapeIac b) s)
      else (Relay_clientClosed, snd (readApp evs s)))"

definition cannot_connect_text :: "string \<Rightarrow> byte list" where
  "cannot_connect_text name =
     bytes_of (''Cannot connect to console '' @ [CHR 0x27] @ name @ [CHR 0x27] @ ''.'') @ crlf"

definition connected_text :: "string \<Rightarrow> byte list" where
  "connected_text name = crlf @ bytes_of (''Connected to '' @ [CHR 0x27] @ name @ [CHR 0x27]
     @ ''. Press Ctrl-] to return to the menu.'') @ crlf"

definition end_text :: "RelayEnd \<Rightarrow> byte list" where
  "end_text end =
     (if end = Relay_consoleClosed then crlf @ bytes_of ''[Console closed]'' @ crlf
      else if end = Relay_escape then crlf else [])"

text \<open>\<open>toConsole\<close> starts with what is buffered from before; then both coroutines wait.\<close>

definition relay_start :: "gateway \<Rightarrow> string \<Rightarrow> session \<Rightarrow> RelayEnd \<times> session" where
  "relay_start gw name s =
     (case (if buffered s = [] then (Relay_none, s) else toConsole_turn gw name s) of (end, s1) \<Rightarrow>
        if end = Relay_none then relay gw name (input s1) s1 else (end, s1))"

definition bridge :: "gateway \<Rightarrow> ConsoleEntry \<Rightarrow> session \<Rightarrow> RelayEnd \<times> session" where
  "bridge gw entry s =
     (if \<not> gw_connect gw (ce_socketPath entry)
      then (Relay_escape, tls_send (cannot_connect_text (ce_name entry)) s)
      else case relay_start gw (ce_name entry) (tls_send (connected_text (ce_name entry))
          (s\<lparr>opened := opened s @ [ce_name entry]\<rparr>)) of
        (end, s1) \<Rightarrow> (end, tls_send (end_text end) s1))"

section \<open>A session ends\<close>

lemma readLine_loop_size:
  "readLine_loop echo line s = (r, s') \<Longrightarrow> session_size s' \<le> session_size s \<and>
     (r \<noteq> None \<longrightarrow> session_size s' < session_size s)"
proof (induction echo line s arbitrary: r s' rule: readLine_loop.induct)
  case (1 echo line s)
  obtain b s1 where n: "nextByte s = (b, s1)" by fastforce
  note d = nextByte_size [OF n]
  have t: "session_size (tls_send x s1) = session_size s1" for x by (simp add: session_size_def)
  show ?case
  proof (cases b)
    case (Inl e)
    with n d "1.prems" show ?thesis by (subst (asm) readLine_loop.simps) simp
  next
    case (Inr c)
    note ih = "1.IH" [OF n [symmetric] Inr]
    from Inr n "1.prems" have body: "(if c = 0x0D \<or> c = 0x0A then (Some line, tls_send crlf s1)
       else if c = 0x03 \<or> c = 0x04 then (None, s1)
       else if c = 0x7F \<or> c = 0x08 then
         (if line \<noteq> [] then
            readLine_loop echo (butlast line) (if echo then tls_send [0x08, 0x20, 0x08] s1 else s1)
          else readLine_loop echo line s1)
       else if c < 0x20 \<or> c \<ge> 0x7F \<or> length line \<ge> maxLineLength then readLine_loop echo line s1
       else readLine_loop echo (line @ [c]) (if echo then tls_send [c] s1 else s1)) = (r, s')"
      by (subst (asm) readLine_loop.simps) simp
    show ?thesis using d Inr body ih t by (auto split: if_splits)
  qed
qed

lemma readLine_size: "readLine echo s = (Some line, s') \<Longrightarrow> session_size s' < session_size s"
  using readLine_loop_size by (auto simp: readLine_def)

lemma toConsole_turn_keeps:
  "toConsole_turn gw name s = (e, s') \<Longrightarrow> input s' = input s \<and> buffered s' = [] \<and>
     logins s' = logins s \<and> opened s' = opened s \<and> sent s' = sent s \<and> decoder s' = decoder s \<and>
     lastCr s' = lastCr s"
  by (auto simp: toConsole_turn_def Let_def split: if_splits)

lemma relay_size:
  "relay gw name evs s = (e, s') \<Longrightarrow>
     session_size s' \<le> length (buffered s) + sum_list (map event_size evs)"
proof (induction gw name evs s rule: relay.induct)
  case (3 gw name b evs s)
  let ?s1 = "read_bytes b s"
  obtain r s2 where t: "toConsole_turn gw name ?s1 = (r, s2)" by fastforce
  note k = toConsole_turn_keeps [OF t]
  show ?case
  proof (cases "buffered ?s1 = []")
    case True
    with "3.prems" "3.IH"(1) [OF refl] show ?thesis by (simp add: Let_def)
  next
    case False
    show ?thesis
    proof (cases "r = Relay_none")
      case True
      with "3.prems" False t have "relay gw name evs s2 = (e, s')" by (simp add: Let_def)
      from "3.IH"(2) [OF refl False t [symmetric] True this] k show ?thesis by simp
    next
      case n: False
      with "3.prems" False t k show ?thesis by (auto simp: Let_def session_size_def)
    qed
  qed
next
  case (5 gw name b evs s)
  show ?case
  proof (cases "gw_tls_write gw (escapeIac b)")
    case True
    with "5.prems" "5.IH" show ?thesis by simp
  next
    case False
    obtain x y where r: "readApp evs s = (x, y)" by fastforce
    with False "5.prems" readApp_size [OF r] show ?thesis by simp
  qed
qed (auto simp: session_size_def)

lemma session_size_send [simp]: "session_size (tls_send b s) = session_size s"
  by (simp add: session_size_def)

lemma relay_start_size: "relay_start gw name s = (e, s') \<Longrightarrow> session_size s' \<le> session_size s"
proof -
  assume r: "relay_start gw name s = (e, s')"
  obtain e1 s1 where t: "(if buffered s = [] then (Relay_none, s) else toConsole_turn gw name s) = (e1, s1)"
    by fastforce
  then have "input s1 = input s" "length (buffered s1) \<le> length (buffered s)"
    using toConsole_turn_keeps [of gw name s e1 s1] by (auto split: if_splits)
  with r t relay_size [of gw name "input s1" s1 e s'] show ?thesis
    by (auto simp: relay_start_def session_size_def split: if_splits)
qed

lemma bridge_size: "bridge gw entry s = (e, s') \<Longrightarrow> session_size s' \<le> session_size s"
  by (auto simp: bridge_def split: if_splits prod.splits dest!: relay_start_size)
    (simp_all add: session_size_def)

section \<open>The menu loop\<close>

definition is_quit :: "byte list \<Rightarrow> bool" where
  "is_quit line \<longleftrightarrow> line = bytes_of ''q'' \<or> line = bytes_of ''quit'' \<or> line = bytes_of ''exit''"

definition goodbye :: "byte list" where
  "goodbye = crlf @ bytes_of ''Goodbye.'' @ crlf"

text \<open>The exception of a malformed configuration leaves the session.\<close>

function menu_loop :: "gateway \<Rightarrow> session \<Rightarrow> number_exn option \<times> session" where
  "menu_loop gw s = (case loadConsoles gw of
     Inl e \<Rightarrow> (Some e, s)
   | Inr consoles \<Rightarrow>
       if consoles = [] then
         (None, tls_send goodbye (tls_send (crlf @ bytes_of ''No consoles available.'' @ crlf) s))
       else case readLine True (tls_send (menuText consoles) s) of
         (None, s1) \<Rightarrow> (None, tls_send goodbye s1)
       | (Some line, s1) \<Rightarrow>
           if is_quit line then (None, tls_send goodbye s1)
           else case selection line (length consoles) of
             None \<Rightarrow> menu_loop gw (tls_send (bytes_of ''Invalid selection.'' @ crlf) s1)
           | Some index \<Rightarrow>
               (case bridge gw (consoles ! (index - 1)) s1 of (end, s2) \<Rightarrow>
                  if end = Relay_clientClosed then (None, s2) else menu_loop gw s2))"
  by pat_completeness auto
termination
proof (relation "measure (\<lambda>(_, s). session_size s)", goal_cases)
  case 1
  then show ?case by simp
qed (auto dest!: sym [of _ "readLine _ _"] sym [of _ "bridge _ _ _"] readLine_size bridge_size)

declare menu_loop.simps [simp del]

definition tls_run :: "gateway \<Rightarrow> session \<Rightarrow> number_exn option \<times> session" where
  "tls_run gw s = (case initialNegotiation s of (s1, out) \<Rightarrow>
     (case login gw (tls_send out s1) of
        (None, s2) \<Rightarrow> (None, s2)
      | (Some user, s2) \<Rightarrow> menu_loop gw s2))"

section \<open>Sessions of the server\<close>

text \<open>
  \<open>runSession\<close>: the counter of active sessions is raised for the lifetime of a session.
\<close>

record options =
  maxSessions :: nat
  active :: nat

datatype session_event = Connected | Session_done

definition session_step :: "session_event \<Rightarrow> options \<Rightarrow> options" where
  "session_step ev opts = (case ev of
     Connected \<Rightarrow> if active opts \<ge> maxSessions opts then opts else opts\<lparr>active := active opts + 1\<rparr>
   | Session_done \<Rightarrow> opts\<lparr>active := active opts - 1\<rparr>)"


section \<open>The client\<close>

datatype esc_state = Esc_normal | Esc_lineStart | Esc_tilde

definition esc_next :: "byte \<Rightarrow> esc_state" where
  "esc_next c = (if c = 0x0D \<or> c = 0x0A then Esc_lineStart else Esc_normal)"

text \<open>\<open>EscapeDetector::feed\<close>: whether the sequence is complete, and the new state.\<close>

definition esc_feed :: "byte \<Rightarrow> esc_state \<Rightarrow> bool \<times> esc_state" where
  "esc_feed c st = (case st of
     Esc_lineStart \<Rightarrow> (False, if c = 0x7E then Esc_tilde else esc_next c)
   | Esc_tilde \<Rightarrow> if c = 0x2E then (True, Esc_tilde) else (False, esc_next c)
   | Esc_normal \<Rightarrow> (False, esc_next c))"

record tls_client =
  cl_decoder :: Decoder
  cl_negotiator :: Negotiator
  cl_escape :: esc_state
  cl_sent :: "byte list"
  cl_stdout :: "byte list"
  cl_nawsSent :: bool
  cl_running :: bool

definition client_policy :: Policy where
  "client_policy =
     \<lparr>policy_local = (\<lambda>x. x = opt_naws \<or> x = opt_terminalType \<or> x = opt_suppressGoAhead),
      policy_remote = (\<lambda>x. x = opt_echo \<or> x = opt_suppressGoAhead)\<rparr>"

definition tls_client_new :: tls_client where
  "tls_client_new =
     \<lparr>cl_decoder = Decoder_init, cl_negotiator = Negotiator_init client_policy,
      cl_escape = Esc_lineStart, cl_sent = [], cl_stdout = [], cl_nawsSent = False, cl_running = True\<rparr>"

text \<open>The terminal's size, or 80 by 24 when it cannot be had; \<open>TERM\<close>, or \<open>xterm\<close>.\<close>

definition windowSize :: "(16 word \<times> 16 word) option \<Rightarrow> 16 word \<times> 16 word" where
  "windowSize ws = (case ws of Some (col, row) \<Rightarrow> if 0 < col then (col, row) else (80, 24) | None \<Rightarrow> (80, 24))"

definition sendWindowSize :: "(16 word \<times> 16 word) option \<Rightarrow> tls_client \<Rightarrow> tls_client" where
  "sendWindowSize ws c =
     (if \<not> localEnabled (cl_negotiator c) opt_naws then c
      else case windowSize ws of (w, h) \<Rightarrow> c\<lparr>cl_sent := cl_sent c @ nawsFrame w h\<rparr>)"

definition term_name :: "byte list option \<Rightarrow> byte list" where
  "term_name t = (case t of Some n \<Rightarrow> if n \<noteq> [] then n else bytes_of ''xterm'' | None \<Rightarrow> bytes_of ''xterm'')"

fun client_onEvent ::
  "(16 word \<times> 16 word) option \<Rightarrow> byte list option \<Rightarrow> Event \<Rightarrow> tls_client \<Rightarrow> tls_client" where
  "client_onEvent ws t (Negotiation verb option) c = (case handle (cl_negotiator c) verb option of
     (n, reply) \<Rightarrow>
       let c1 = c\<lparr>cl_negotiator := n, cl_sent := cl_sent c @ reply\<rparr> in
       if option = opt_naws \<and> localEnabled n opt_naws \<and> \<not> cl_nawsSent c1
       then sendWindowSize ws (c1\<lparr>cl_nawsSent := True\<rparr>) else c1)"
| "client_onEvent ws t (Subnegotiation option payload) c =
     (if option = opt_terminalType \<and> payload \<noteq> [] \<and> hd payload = ttypeSend
         \<and> localEnabled (cl_negotiator c) opt_terminalType
      then c\<lparr>cl_sent := cl_sent c @ terminalTypeIsFrame (term_name t)\<rparr> else c)"
| "client_onEvent ws t (Command x) c = c"

text \<open>One read of \<open>readSocket\<close>.\<close>

definition client_readSocket ::
  "(16 word \<times> 16 word) option \<Rightarrow> byte list option \<Rightarrow> byte list \<Rightarrow> tls_client \<Rightarrow> tls_client" where
  "client_readSocket ws t b c = (case feed b (cl_decoder c) [] [] of (d, out, events) \<Rightarrow>
     fold (client_onEvent ws t) events (c\<lparr>cl_decoder := d, cl_stdout := cl_stdout c @ out\<rparr>))"

text \<open>The loop of \<open>readStdin\<close> over the bytes of one read: what is forwarded, and whether to quit.\<close>

fun scan_escape :: "byte list \<Rightarrow> esc_state \<Rightarrow> byte list \<times> bool \<times> esc_state" where
  "scan_escape [] st = ([], False, st)"
| "scan_escape (b # bs) st = (case esc_feed b st of
     (True, st1) \<Rightarrow> ([], True, st1)
   | (False, st1) \<Rightarrow> (case scan_escape bs st1 of (out, quit, st2) \<Rightarrow> (b # out, quit, st2)))"

definition client_readStdin :: "(byte list \<Rightarrow> bool) \<Rightarrow> byte list \<Rightarrow> tls_client \<Rightarrow> tls_client" where
  "client_readStdin write_ok b c =
     (if \<not> cl_running c then c
      else if b = [] then c\<lparr>cl_running := False\<rparr>
      else case scan_escape b (cl_escape c) of (out, quit, st) \<Rightarrow>
        let c1 = c\<lparr>cl_escape := st\<rparr> in
        if out \<noteq> [] \<and> \<not> write_ok (escapeIac out) then c1\<lparr>cl_running := False\<rparr>
        else c1\<lparr>cl_sent := cl_sent c1 @ escapeIac out, cl_running := \<not> quit\<rparr>)"

section \<open>What a line can be\<close>

definition printable_line :: "byte list \<Rightarrow> bool" where
  "printable_line l \<longleftrightarrow> length l \<le> maxLineLength \<and> (\<forall>c\<in>set l. 0x20 \<le> c \<and> c < 0x7F)"

lemma printable_butlast: "printable_line l \<Longrightarrow> printable_line (butlast l)"
  by (auto simp: printable_line_def dest: in_set_butlastD)

lemma printable_snoc:
  "printable_line l \<Longrightarrow> \<not> (c < 0x20 \<or> c \<ge> 0x7F \<or> length l \<ge> maxLineLength) \<Longrightarrow> printable_line (l @ [c])"
  by (auto simp: printable_line_def)

lemma readLine_loop_ok:
  "readLine_loop echo line s = (Some r, s') \<Longrightarrow> printable_line line \<Longrightarrow> printable_line r"
proof (induction echo line s arbitrary: r s' rule: readLine_loop.induct)
  case (1 echo line s)
  obtain b s1 where n: "nextByte s = (b, s1)" by fastforce
  with "1.prems"(1) obtain c where c: "b = Inr c"
    by (cases b) (auto simp: readLine_loop.simps [of echo line s])
  note ih = "1.IH" [OF n [symmetric] c]
  note body = "1.prems"(1) [unfolded readLine_loop.simps [of echo line s] n c prod.case sum.case]
  show ?case using body ih printable_butlast [OF "1.prems"(2)] printable_snoc [OF "1.prems"(2), of c] "1.prems"(2)
    by (simp split: if_split_asm)
qed

text \<open>
  Whatever a client sends, telnet commands, control characters and endless lines included, a
  line that the editor returns, and so a user name, a password or a menu choice, has at most
  128 characters, all of them printable ASCII.
\<close>

theorem lines_bounded:
  assumes "readLine echo s = (Some line, s')"
  shows "length line \<le> 128 \<and> (\<forall>c\<in>set line. 0x20 \<le> c \<and> c < 0x7F)"
  using readLine_loop_ok [of echo "[]" s line s'] assms
  by (simp add: readLine_def printable_line_def maxLineLength_def)

theorem lines_bounded_witness:
  "length (the (fst (readLine True (session_new [Client (Inr [0x61, 0x01, 0x62, 0x7F, 0x0D])])))) \<le> 128"
proof -
  let ?r = "readLine True (session_new [Client (Inr [0x61, 0x01, 0x62, 0x7F, 0x0D])])"
  have "fst ?r = Some [0x61]" by code_simp
  then have "?r = (Some [0x61], snd ?r)" by (metis prod.collapse)
  from lines_bounded [OF this] show ?thesis by (metis \<open>fst ?r = Some [0x61]\<close> option.sel)
qed


section \<open>Only authenticated users reach a console\<close>

lemma nextByte_keeps:
  "nextByte s = (b, s') \<Longrightarrow>
     logins s' = logins s \<and> opened s' = opened s \<and> to_console s' = to_console s"
  by (auto simp: nextByte_def split: if_splits prod.splits option.splits dest!: readApp_keeps)

lemma readLine_loop_keeps:
  "readLine_loop echo line s = (r, s') \<Longrightarrow>
     logins s' = logins s \<and> opened s' = opened s \<and> to_console s' = to_console s"
proof (induction echo line s arbitrary: r s' rule: readLine_loop.induct)
  case (1 echo line s)
  obtain b s1 where n: "nextByte s = (b, s1)" by fastforce
  note k = nextByte_keeps [OF n]
  show ?case
  proof (cases b)
    case (Inl e)
    with n k "1.prems" show ?thesis by (simp add: readLine_loop.simps [of echo line s])
  next
    case (Inr c)
    note ih = "1.IH" [OF n [symmetric] Inr]
    note body = "1.prems" [unfolded readLine_loop.simps [of echo line s] n Inr prod.case sum.case]
    show ?thesis
    proof (cases "c = 0x0D \<or> c = 0x0A \<or> c = 0x03 \<or> c = 0x04")
      case True
      with body k show ?thesis by (auto split: if_split_asm)
    next
      case False
      with body ih k show ?thesis by (simp split: if_split_asm)
    qed
  qed
qed

lemma readLine_keeps:
  "readLine echo s = (r, s') \<Longrightarrow>
     logins s' = logins s \<and> opened s' = opened s \<and> to_console s' = to_console s"
  using readLine_loop_keeps by (simp add: readLine_def)

text \<open>The rule that \<open>authenticate\<close> and the group test apply to the login recorded at \<open>i\<close>.\<close>

definition admitted :: "gateway \<Rightarrow> nat \<Rightarrow> byte list \<times> byte list \<Rightarrow> bool" where
  "admitted gw i l \<longleftrightarrow>
     authenticate (gw_pam gw) (gw_child gw i) (gw_service gw) (fst l) (snd l) \<and>
     (gw_group gw = [] \<or> userInGroup (gw_accounts gw) (fst l) (gw_group gw))"

lemma check_login_admits:
  "check_login gw user password s = (ok, s') \<Longrightarrow>
     opened s' = opened s \<and> to_console s' = to_console s \<and> length (logins s') \<le> Suc (length (logins s)) \<and>
     (ok \<longrightarrow> logins s' = logins s @ [(user, password)] \<and> admitted gw (length (logins s)) (user, password))"
  by (auto simp: check_login_def admitted_def Let_def split: if_splits)

lemma login_loop_admits:
  "login_loop gw n s = (r, s') \<Longrightarrow>
     opened s' = opened s \<and> to_console s' = to_console s \<and> length (logins s') \<le> n + length (logins s) \<and>
     (\<forall>user. r = Some user \<longrightarrow> logins s' \<noteq> [] \<and> fst (last (logins s')) = user \<and>
        admitted gw (length (logins s') - 1) (last (logins s')))"
proof (induction gw n s arbitrary: r s' rule: login_loop.induct)
  case (2 gw n s)
  obtain u s1 where u: "readLine True (tls_send (crlf @ bytes_of ''login: '') s) = (u, s1)" by fastforce
  note k1 = readLine_keeps [OF u]
  show ?case
  proof (cases u)
    case None
    with "2.prems" u k1 show ?thesis by simp
  next
    case (Some user)
    note su = this
    obtain p s2 where p: "readLine False (tls_send (bytes_of ''Password: '') s1) = (p, s2)" by fastforce
    note k2 = readLine_keeps [OF p]
    show ?thesis
    proof (cases p)
      case None
      with "2.prems" u su p k1 k2 show ?thesis by simp
    next
      case (Some password)
      obtain ok s3 where c: "check_login gw user password s2 = (ok, s3)" by fastforce
      note k3 = check_login_admits [OF c]
      show ?thesis
      proof (cases ok)
        case True
        with "2.prems" u su p Some c k1 k2 k3 show ?thesis by auto
      next
        case False
        with "2.prems" u su p Some c
        have "login_loop gw n (tls_send (bytes_of ''Login incorrect'' @ crlf) s3) = (r, s')" by simp
        from "2.IH" [OF u [symmetric] su p [symmetric] Some c [symmetric] _ this] False k1 k2 k3
        show ?thesis by auto
      qed
    qed
  qed
qed simp

text \<open>
  What a session has reached: every console opened is one of the configured ones, and bytes go
  only to consoles that were opened.
\<close>

definition written_to :: "session \<Rightarrow> string set" where
  "written_to s = fst ` set (to_console s)"

lemma written_to_same: "to_console s' = to_console s \<Longrightarrow> written_to s' = written_to s"
  by (simp add: written_to_def)

lemma written_to_keeps [simp]:
  "written_to (tls_send b s) = written_to s" "written_to (read_bytes b s) = written_to s"
  "written_to (s\<lparr>input := evs\<rparr>) = written_to s" "written_to (s\<lparr>opened := os\<rparr>) = written_to s"
  by (simp_all add: written_to_def)

definition reach_ok :: "gateway \<Rightarrow> session \<Rightarrow> bool" where
  "reach_ok gw s \<longleftrightarrow> written_to s \<subseteq> set (opened s) \<and>
     (\<forall>name\<in>set (opened s). \<exists>consoles entry. loadConsoles gw = Inr consoles \<and> entry \<in> set consoles \<and>
        name = ce_name entry \<and> gw_connect gw (ce_socketPath entry))"

lemma reach_ok_same:
  "opened s' = opened s \<Longrightarrow> to_console s' = to_console s \<Longrightarrow> reach_ok gw s' = reach_ok gw s"
  by (simp add: reach_ok_def written_to_def)

lemma toConsole_turn_to:
  "toConsole_turn gw name s = (e, s') \<Longrightarrow>
     written_to s' \<subseteq> insert name (written_to s)"
  by (auto simp: toConsole_turn_def Let_def written_to_def split: if_splits)

lemma relay_keeps:
  "relay gw name evs s = (e, s') \<Longrightarrow> logins s' = logins s \<and> opened s' = opened s \<and>
     written_to s' \<subseteq> insert name (written_to s)"
proof (induction gw name evs s rule: relay.induct)
  case (3 gw name b evs s)
  let ?s1 = "read_bytes b s"
  obtain r s2 where t: "toConsole_turn gw name ?s1 = (r, s2)" by fastforce
  note k = toConsole_turn_keeps [OF t] toConsole_turn_to [OF t]
  show ?case
  proof (cases "buffered ?s1 = []")
    case True
    with "3.prems" "3.IH"(1) [OF refl] show ?thesis by (simp add: Let_def)
  next
    case False
    show ?thesis
    proof (cases "r = Relay_none")
      case True
      with "3.prems" False t have "relay gw name evs s2 = (e, s')" by (simp add: Let_def)
      from "3.IH"(2) [OF refl False t [symmetric] True this] k show ?thesis
        by auto
    next
      case n: False
      with "3.prems" False t k show ?thesis by (auto simp: Let_def)
    qed
  qed
next
  case (5 gw name b evs s)
  obtain x y where r: "readApp evs s = (x, y)" by fastforce
  from readApp_keeps [OF r] written_to_same [of y s] r "5.prems" "5.IH" show ?case by (cases "gw_tls_write gw (escapeIac b)") auto
qed auto

lemma relay_start_keeps:
  assumes "relay_start gw name s = (e, s')"
  shows "logins s' = logins s \<and> opened s' = opened s \<and>
     written_to s' \<subseteq> insert name (written_to s)"
proof -
  obtain e1 s1 where t: "(if buffered s = [] then (Relay_none, s) else toConsole_turn gw name s) = (e1, s1)"
    by fastforce
  then have k: "logins s1 = logins s" "opened s1 = opened s"
      "written_to s1 \<subseteq> insert name (written_to s)"
    using toConsole_turn_keeps [of gw name s e1 s1] toConsole_turn_to [of gw name s e1 s1]
    by (auto split: if_splits)
  show ?thesis
  proof (cases "e1 = Relay_none")
    case True
    with assms t have "relay gw name (input s1) s1 = (e, s')" by (simp add: relay_start_def)
    from relay_keeps [OF this] k show ?thesis by auto
  next
    case False
    with assms t k show ?thesis by (simp add: relay_start_def)
  qed
qed

lemma bridge_reach:
  assumes "bridge gw entry s = (e, s')" "reach_ok gw s" "loadConsoles gw = Inr consoles" "entry \<in> set consoles"
  shows "reach_ok gw s' \<and> logins s' = logins s"
proof (cases "gw_connect gw (ce_socketPath entry)")
  case True
  let ?s0 = "tls_send (connected_text (ce_name entry)) (s\<lparr>opened := opened s @ [ce_name entry]\<rparr>)"
  obtain e1 s1 where r: "relay_start gw (ce_name entry) ?s0 = (e1, s1)" by fastforce
  note k = relay_start_keeps [OF r]
  from True r assms(1) have s': "s' = tls_send (end_text e1) s1" by (auto simp: bridge_def)
  have "written_to s1 \<subseteq> set (opened s1)" using k assms(2) by (auto simp: reach_ok_def)
  moreover have "\<forall>name\<in>set (opened s1). \<exists>consoles entry. loadConsoles gw = Inr consoles \<and>
      entry \<in> set consoles \<and> name = ce_name entry \<and> gw_connect gw (ce_socketPath entry)"
    using k assms(2-4) True by (auto simp: reach_ok_def)
  ultimately show ?thesis using s' k by (simp add: reach_ok_def)
next
  case False
  with assms(1,2) show ?thesis by (auto simp: bridge_def reach_ok_def)
qed

lemma selection_range: "selection line n = Some i \<Longrightarrow> 1 \<le> i \<and> i \<le> n"
  unfolding selection_def Let_def by (simp split: if_split_asm del: takeWhile_eq_all_conv)

lemma menu_loop_reach:
  "menu_loop gw s = (r, s') \<Longrightarrow> reach_ok gw s \<Longrightarrow> reach_ok gw s' \<and> logins s' = logins s"
proof (induction gw s arbitrary: r s' rule: menu_loop.induct)
  case (1 gw s)
  note body = "1.prems"(1) [unfolded menu_loop.simps [of gw s]]
  show ?case
  proof (cases "loadConsoles gw")
    case (Inl e)
    with body "1.prems"(2) show ?thesis by simp
  next
    case (Inr consoles)
    note l = this
    obtain line s1 where rl: "readLine True (tls_send (menuText consoles) s) = (line, s1)" by fastforce
    note k = readLine_keeps [OF rl]
    from k "1.prems"(2) have ok1: "reach_ok gw s1" by (simp add: reach_ok_same [of s1 s])
    show ?thesis
    proof (cases "consoles = [] \<or> line = None \<or> is_quit (the line)")
      case True
      have "s' = tls_send goodbye s1 \<or>
          s' = tls_send goodbye (tls_send (crlf @ bytes_of ''No consoles available.'' @ crlf) s)"
        using True body l rl by (cases "consoles = []"; cases line) auto
      with k ok1 "1.prems"(2) show ?thesis
        by (auto simp: reach_ok_def split: option.splits if_splits)
    next
      case False
      then obtain text1 where t: "line = Some text1" "consoles \<noteq> []" "\<not> is_quit text1" by auto
      note ih = "1.IH" [OF l t(2) rl [symmetric] t(1) t(3)]
      show ?thesis
      proof (cases "selection text1 (length consoles)")
        case None
        with body l rl t ih(1) [OF None] k ok1 show ?thesis
          by (simp add: reach_ok_same [of "tls_send _ s1" s1])
      next
        case (Some i)
        obtain e s2 where b: "bridge gw (consoles ! (i - 1)) s1 = (e, s2)" by fastforce
        from selection_range [OF Some] have "consoles ! (i - 1) \<in> set consoles"
          by (auto intro: nth_mem)
        from bridge_reach [OF b ok1 l this] have ok2: "reach_ok gw s2" "logins s2 = logins s1" by auto
        show ?thesis
        proof (cases "e = Relay_clientClosed")
          case True
          with body l rl t Some b k ok2 show ?thesis by simp
        next
          case False
          with body l rl t Some b have "menu_loop gw s2 = (r, s')" by simp
          from ih(2) [OF Some b [symmetric] False this ok2(1)] ok2 k show ?thesis by simp
        qed
      qed
    qed
  qed
qed

text \<open>
  (C29) A session of the gateway asks PAM at most three times. When it opened a connection to a
  console or wrote a byte to one, PAM had accepted the user and password of the last attempt,
  with the account valid and the user in the required group, and every console it reached is one
  that the configuration lists outside the IBM i emulators.
\<close>

theorem console_needs_login:
  assumes "tls_run gw (session_new evs) = (r, s')"
  shows "length (logins s') \<le> 3 \<and>
    (opened s' \<noteq> [] \<or> to_console s' \<noteq> [] \<longrightarrow>
       logins s' \<noteq> [] \<and> admitted gw (length (logins s') - 1) (last (logins s'))) \<and>
    fst ` set (to_console s') \<subseteq> set (opened s') \<and>
    (\<forall>name\<in>set (opened s'). \<exists>consoles entry. loadConsoles gw = Inr consoles \<and>
       entry \<in> set consoles \<and> name = ce_name entry \<and> gw_connect gw (ce_socketPath entry))"
proof -
  obtain s1 out where i: "initialNegotiation (session_new evs) = (s1, out)" by fastforce
  then have s1: "logins s1 = []" "opened s1 = []" "to_console s1 = []"
    by (auto simp: initialNegotiation_def session_new_def split: prod.splits)
  obtain u s2 where l: "login_loop gw maxLoginAttempts (tls_send out s1) = (u, s2)" by fastforce
  note k = login_loop_admits [OF l]
  show ?thesis
  proof (cases u)
    case None
    with assms i l k s1 show ?thesis by (simp add: tls_run_def login_def maxLoginAttempts_def)
  next
    case (Some user)
    with assms i l have m: "menu_loop gw s2 = (r, s')" by (simp add: tls_run_def login_def)
    have "reach_ok gw s2" using k s1 by (simp add: reach_ok_def written_to_def)
    from menu_loop_reach [OF m this] k s1 Some show ?thesis
      by (simp add: reach_ok_def written_to_def maxLoginAttempts_def)
  qed
qed

section \<open>The bridge is transparent\<close>

text \<open>The bytes a client sends, and the application data they carry in a state of the session.\<close>

fun client_bytes :: "world_event list \<Rightarrow> byte list" where
  "client_bytes [] = []"
| "client_bytes (Client (Inr b) # evs) = b @ client_bytes evs"
| "client_bytes (_ # evs) = client_bytes evs"

definition app_data :: "session \<Rightarrow> byte list \<Rightarrow> byte list" where
  "app_data s b = (case feed b (decoder s) [] [] of (d, decoded, events) \<Rightarrow> fst (collapse (lastCr s) decoded))"

fun is_data :: "world_event \<Rightarrow> bool" where
  "is_data (Client (Inr b)) = True"
| "is_data (Console (Inr b)) = True"
| "is_data _ = False"

lemma collapse_append:
  "collapse cr (xs @ ys) = (case collapse cr xs of (out, l) \<Rightarrow>
     (case collapse l ys of (out', l') \<Rightarrow> (out @ out', l')))"
  by (induction cr xs rule: collapse.induct) (auto split: prod.splits)

lemma app_data_Nil [simp]: "app_data s [] = []"
  by (simp add: app_data_def)

lemma read_bytes_app:
  assumes "buffered s = []"
  shows "app_data s (b @ c) = buffered (read_bytes b s) @ app_data (read_bytes b s) c"
proof -
  obtain d x ev where f: "feed b (decoder s) [] [] = (d, x, ev)" by (metis prod_cases3)
  obtain d' x' ev' where g: "feed c d [] [] = (d', x', ev')" by (metis prod_cases3)
  obtain out l where o: "collapse (lastCr s) x = (out, l)" by fastforce
  obtain out' l' where o': "collapse l x' = (out', l')" by fastforce
  have "feed (b @ c) (decoder s) [] [] = (d', x @ x', ev @ ev')"
    by (simp add: feed_append_chunks f feed_frame [of c d x ev] g)
  then show ?thesis using assms
    by (simp add: app_data_def read_bytes_def f g o o' collapse_append Let_def)
qed

lemma app_data_same:
  "decoder s' = decoder s \<Longrightarrow> lastCr s' = lastCr s \<Longrightarrow> app_data s' = app_data s"
  by (simp add: app_data_def fun_eq_iff)

lemma relay_exact:
  assumes w: "gw_console_write gw = (\<lambda>_. True)" "gw_tls_write gw = (\<lambda>_. True)"
  shows "\<forall>e\<in>set evs. is_data e \<Longrightarrow> buffered s = [] \<Longrightarrow> relay gw name evs s = (e, s') \<Longrightarrow>
    to_console s' = to_console s @ map (Pair name)
      (takeWhile (\<lambda>c. c \<noteq> escapeChar) (app_data s (client_bytes evs))) \<and>
    e = (if escapeChar \<in> set (app_data s (client_bytes evs)) then Relay_escape else Relay_clientClosed)"
proof (induction evs arbitrary: s)
  case (Cons ev evs)
  note ih = Cons.IH and prems = Cons.prems
  consider (client) b where "ev = Client (Inr b)" | (console) b where "ev = Console (Inr b)"
    using prems(1) by (cases ev rule: is_data.cases) auto
  then show ?case
  proof cases
    case client
    let ?s1 = "read_bytes b s"
    note app = read_bytes_app [OF prems(2), of b "client_bytes evs"]
    show ?thesis
    proof (cases "buffered ?s1 = []")
      case True
      with ih [of ?s1] prems client app show ?thesis by (simp add: Let_def)
    next
      case False
      obtain r s2 where t: "toConsole_turn gw name ?s1 = (r, s2)" by fastforce
      note k = toConsole_turn_keeps [OF t]
      from t w have r: "r = (if escapeChar \<in> set (buffered ?s1) then Relay_escape else Relay_none)"
        "to_console s2 = to_console s @ map (Pair name) (takeWhile (\<lambda>c. c \<noteq> escapeChar) (buffered ?s1))"
        by (auto simp: toConsole_turn_def Let_def)
      show ?thesis
      proof (cases "escapeChar \<in> set (buffered ?s1)")
        case True
        with prems(3) client False t r app show ?thesis
          by (auto simp: Let_def takeWhile_append)
      next
        case ne: False
        with prems(3) client False t r have "relay gw name evs s2 = (e, s')" by (simp add: Let_def)
        with ih [of s2] prems(1) k have "to_console s' = to_console s2 @ map (Pair name)
            (takeWhile (\<lambda>c. c \<noteq> escapeChar) (app_data s2 (client_bytes evs))) \<and>
            e = (if escapeChar \<in> set (app_data s2 (client_bytes evs)) then Relay_escape else Relay_clientClosed)"
          by simp
        moreover have "app_data s2 = app_data ?s1" using k by (intro app_data_same) auto
        moreover have "takeWhile (\<lambda>c. c \<noteq> escapeChar) (buffered ?s1) = buffered ?s1"
          using ne by (simp add: takeWhile_eq_all_conv) metis
        ultimately show ?thesis using client app r ne by (simp add: takeWhile_append)
      qed
    qed
  next
    case console
    with ih [of "tls_send (escapeIac b) s"] prems w app_data_same [of "tls_send (escapeIac b) s" s]
    show ?thesis by simp
  qed
qed auto

text \<open>
  (C30) While a console is bridged and no read or write fails, the console gets exactly the
  application data of the client up to the first escape character, whatever the sizes of the
  reads in which the client's bytes, telnet commands among them, arrive and however they
  interleave with the console's output: the stream is decoded and its line ends collapsed as if
  it had come at once. The bridge ends with the escape exactly when the character is there.
\<close>

theorem bridge_transparent:
  assumes "gw_console_write gw = (\<lambda>_. True)" "gw_tls_write gw = (\<lambda>_. True)"
    "gw_connect gw (ce_socketPath entry)" "buffered s = []" "\<forall>e\<in>set (input s). is_data e"
  shows "\<exists>s'. bridge gw entry s =
      (if escapeChar \<in> set (app_data s (client_bytes (input s))) then Relay_escape else Relay_clientClosed, s') \<and>
    to_console s' = to_console s @ map (Pair (ce_name entry))
      (takeWhile (\<lambda>c. c \<noteq> escapeChar) (app_data s (client_bytes (input s))))"
proof -
  let ?s0 = "tls_send (connected_text (ce_name entry)) (s\<lparr>opened := opened s @ [ce_name entry]\<rparr>)"
  obtain e s1 where r: "relay gw (ce_name entry) (input s) ?s0 = (e, s1)" by fastforce
  have "app_data ?s0 = app_data s" by (intro app_data_same) simp_all
  with relay_exact [OF assms(1,2,5) _ r] assms(4) r assms(3) show ?thesis
    by (simp add: bridge_def relay_start_def)
qed


definition demo_gateway :: gateway where
  "demo_gateway =
     \<lparr>gw_pam = \<lparr>pam_start_ok = (\<lambda>_ _. True), pam_authenticate_ok = (\<lambda>_ _ p. p = [0x70]),
        pam_acct_mgmt_ok = (\<lambda>_ _. True)\<rparr>,
      gw_child = (\<lambda>_. Reported),
      gw_accounts = \<lparr>getpwnam = (\<lambda>u. if u = [0x75] then Some 7 else None), getgrnam = (\<lambda>g. Some (7, []))\<rparr>,
      gw_service = [0x74], gw_group = [0x67], gw_order = (\<lambda>secs. secs), gw_config = Some demo_config,
      gw_connect = (\<lambda>_. True), gw_console_write = (\<lambda>_. True), gw_tls_write = (\<lambda>_. True)\<rparr>"

definition demo_input :: "world_event list" where
  "demo_input = [Client (Inr [0x75, 0x0D, 0x0A, 0x78, 0x0D]), Client (Inr [0x75, 0x0D, 0x70, 0x0D]),
     Client (Inr [0x31, 0x0D]), Client (Inr [0x6C, 0x73, 0x0D])]"

theorem console_needs_login_witness:
  "opened (snd (tls_run demo_gateway (session_new demo_input))) = [''host''] \<and>
   length (logins (snd (tls_run demo_gateway (session_new demo_input)))) \<le> 3 \<and>
   admitted demo_gateway 1 ([0x75], [0x70])"
proof -
  let ?r = "tls_run demo_gateway (session_new demo_input)"
  let ?i = "initialNegotiation (session_new demo_input)"
  let ?l = "login demo_gateway (tls_send (snd ?i) (fst ?i))"
  let ?e = "\<lparr>ce_name = ''host'', ce_socketPath = ''/tmp/obmc-console-host.sock''\<rparr>"
  let ?m = "readLine True (tls_send (menuText [?e]) (snd ?l))"
  let ?b = "bridge demo_gateway ?e (snd ?m)"
  have c: "loadConsoles demo_gateway = Inr [?e]" by code_simp
  have "fst ?l = Some [0x75]" "logins (snd ?l) = [([0x75], [0x78]), ([0x75], [0x70])]" by code_simp+
  moreover have m: "fst ?m = Some [0x31]" by code_simp
  moreover have q: "\<not> is_quit [0x31]" by code_simp
  moreover have "selection [0x31] 1 = Some 1"
    by (simp add: selection_def digits_value_def is_digit_def Let_def)
  moreover have "fst ?b = Relay_clientClosed" "opened (snd ?b) = [''host'']"
    "logins (snd ?b) = [([0x75], [0x78]), ([0x75], [0x70])]" by code_simp+
  ultimately have r: "?r = (None, snd ?b)" and o: "opened (snd ?b) = [''host'']"
    "logins (snd ?b) = [([0x75], [0x78]), ([0x75], [0x70])]"
    using c by (simp_all add: tls_run_def menu_loop.simps [of demo_gateway "snd ?l"] case_prod_beta)
  from console_needs_login [OF r] o r show ?thesis by simp
qed

theorem bridge_transparent_witness:
  "\<exists>s'. bridge demo_gateway \<lparr>ce_name = ''host'', ce_socketPath = ''s''\<rparr>
        (session_new [Client (Inr [0x6C, 0x0D]), Console (Inr [0x6D]), Client (Inr [0x0A, 0xFF]),
           Client (Inr [0xFF, 0x1D])]) = (Relay_escape, s') \<and>
      to_console s' = [(''host'', 0x6C), (''host'', 0x0D), (''host'', 0xFF)]"
proof -
  let ?evs = "[Client (Inr [0x6C, 0x0D]), Console (Inr [0x6D]), Client (Inr [0x0A, 0xFF]),
           Client (Inr [0xFF, 0x1D])]"
  have a: "app_data (session_new ?evs) (client_bytes ?evs) = [0x6C, 0x0D, 0xFF, 0x1D]" by code_simp
  show ?thesis
    using bridge_transparent [of demo_gateway "\<lparr>ce_name = ''host'', ce_socketPath = ''s''\<rparr>" "session_new ?evs"] a
    by (simp add: demo_gateway_def session_new_def escapeChar_def)
qed

section \<open>The single writer keeps the order\<close>

definition sends :: "writer_event list \<Rightarrow> byte list" where
  "sends evs = concat (map (\<lambda>ev. case ev of Send b \<Rightarrow> b | Write_done _ \<Rightarrow> []) evs)"

definition chunk_bytes :: "writer \<Rightarrow> byte list" where
  "chunk_bytes w = (case inflight w of Some c \<Rightarrow> c | None \<Rightarrow> [])"

text \<open>No write in flight, nothing queued; and an active writer never holds an empty chunk.\<close>

definition writer_inv :: "writer \<Rightarrow> bool" where
  "writer_inv w \<longleftrightarrow> (inflight w = None \<longrightarrow> outQueue w = []) \<and> inflight w \<noteq> Some []"

lemma writer_step_inv: "writer_inv w \<Longrightarrow> writer_inv (writer_step ev w)"
  by (cases ev) (auto simp: writer_inv_def writer_send_def writer_complete_def writer_next_def Let_def
      split: option.splits)

lemma writer_step_bytes:
  assumes "writer_inv w" "ev \<noteq> Write_done False"
  shows "wire (writer_step ev w) @ chunk_bytes (writer_step ev w) @ outQueue (writer_step ev w) =
    wire w @ chunk_bytes w @ outQueue w @ sends [ev]"
  using assms
  by (cases ev) (auto simp: writer_inv_def writer_send_def writer_complete_def writer_next_def Let_def
      sends_def chunk_bytes_def split: option.splits)

lemma writer_fold:
  "writer_inv w \<Longrightarrow> Write_done False \<notin> set evs \<Longrightarrow>
     writer_inv (fold writer_step evs w) \<and>
     wire (fold writer_step evs w) @ chunk_bytes (fold writer_step evs w) @ outQueue (fold writer_step evs w) =
     wire w @ chunk_bytes w @ outQueue w @ sends evs"
proof (induction evs arbitrary: w)
  case (Cons ev evs)
  then have ne: "ev \<noteq> Write_done False" by auto
  from writer_step_inv [OF Cons.prems(1), of ev] writer_step_bytes [OF Cons.prems(1) ne]
    Cons.IH [of "writer_step ev w"] Cons.prems(2)
  show ?case by (simp add: sends_def flip: append_assoc)
qed (simp add: sends_def)

lemma writer_drains:
  "writer_inv w \<Longrightarrow> writer_complete True (writer_complete True w) =
     w\<lparr>wire := wire w @ chunk_bytes w @ outQueue w, outQueue := [], inflight := None\<rparr>"
  by (cases "inflight w")
    (auto simp: writer_inv_def writer_complete_def writer_next_def chunk_bytes_def)

text \<open>
  The server's single writer, with sends from the relay and the negotiation in any order
  around the completions of the writes, and no write failing: at every moment what the peer has
  got, the chunk being written and the queue are together exactly the bytes sent, in the order of
  the sends; when no write is active nothing is left queued; and two completions later
  everything is delivered.
\<close>

theorem writer_keeps_order:
  assumes "Write_done False \<notin> set evs"
  shows "wire (fold writer_step evs writer_idle) @ chunk_bytes (fold writer_step evs writer_idle)
      @ outQueue (fold writer_step evs writer_idle) = sends evs \<and>
    (inflight (fold writer_step evs writer_idle) = None \<longrightarrow>
      wire (fold writer_step evs writer_idle) = sends evs) \<and>
    wire (fold writer_step (evs @ [Write_done True, Write_done True]) writer_idle) = sends evs"
proof -
  have i: "writer_inv writer_idle" by (simp add: writer_inv_def writer_idle_def)
  let ?w = "fold writer_step evs writer_idle"
  from writer_fold [OF i assms] have w: "writer_inv ?w" "wire ?w @ chunk_bytes ?w @ outQueue ?w = sends evs"
    by (simp_all add: writer_idle_def chunk_bytes_def)
  moreover have "inflight ?w = None \<longrightarrow> chunk_bytes ?w = [] \<and> outQueue ?w = []"
    using w(1) by (simp add: writer_inv_def chunk_bytes_def)
  ultimately show ?thesis using writer_drains [OF w(1)] by auto
qed

theorem writer_keeps_order_witness:
  "wire (fold writer_step [Send [1], Send [2], Write_done True, Send [3], Write_done True, Write_done True] writer_idle)
     = [1, 2, 3]"
  using writer_keeps_order [of "[Send [1], Send [2], Write_done True, Send [3]]"] by (simp add: sends_def)

section \<open>The limit on sessions\<close>

lemma gateway_sessions_limited:
  assumes "active opts \<le> maxSessions opts"
  shows "active (fold session_step evs opts) \<le> maxSessions (fold session_step evs opts) \<and>
    maxSessions (fold session_step evs opts) = maxSessions opts"
  using assms
proof (induction evs arbitrary: opts)
  case (Cons ev evs)
  have "active (session_step ev opts) \<le> maxSessions (session_step ev opts)"
    "maxSessions (session_step ev opts) = maxSessions opts"
    using Cons.prems by (auto simp: session_step_def split: session_event.splits)
  with Cons.IH [of "session_step ev opts"] show ?case by simp
qed simp

end
