(* ===== verification/Firmware.thy ===== *)
theory Firmware
  imports Json
begin

text \<open>
  The firmware updater (\<open>examples/firmware_updater\<close>): its configuration (\<open>fw_updater_config.hpp\<close>),
  the comparison and selection of versions (\<open>fw_version_checker.hpp\<close>), the download of an image
  (\<open>fw_downloader.hpp\<close>), the registry of downloaded images on D-Bus and the installation of one
  (\<open>dbus_fw_manager.hpp\<close>), and the check cycle (\<open>firmware_updater.cpp\<close>).

  Parameters are the URL parser, SHA-256, whether directories can be made and files read, the
  answers of D-Bus and of the update server, and what a transfer writes. Check cycles,
  transfers, posted registrations and installations interleave in any order.
\<close>

section \<open>Configuration\<close>

record FirmwareEntry =
  fe_version :: string
  imageUrl :: string
  checksum :: string
  releaseDate :: string
  description :: string

record ServerAuth =
  username :: string
  password :: string

record AppConfig =
  serverHost :: string
  serverPort :: string
  cataloguePath :: string
  auth :: ServerAuth
  pollIntervalSeconds :: int
  pollAtStartup :: bool
  deniedVersions :: "string list"
  allowedVersions :: "string list"
  downloadDir :: string
  downloadTimeoutSeconds :: int

definition from_json_ServerAuth :: "'f json \<Rightarrow> json_exn + ServerAuth" where
  "from_json_ServerAuth j =
     ebind (json_value get_string j ''username'' '''') (\<lambda>u.
     ebind (json_value get_string j ''password'' '''') (\<lambda>p.
     Inr \<lparr>username = u, password = p\<rparr>))"

definition optional_list :: "'f json \<Rightarrow> string \<Rightarrow> json_exn + string list" where
  "optional_list j k = (case json_get j k of Some v \<Rightarrow> get_string_list v | None \<Rightarrow> Inr [])"

definition from_json_AppConfig :: "('f \<Rightarrow> int) \<Rightarrow> 'f json \<Rightarrow> json_exn + AppConfig" where
  "from_json_AppConfig trunc j =
     ebind (ebind (json_at j ''serverHost'') get_string) (\<lambda>host.
     ebind (json_value get_string j ''serverPort'' ''443'') (\<lambda>port.
     ebind (json_value get_string j ''cataloguePath'' ''/firmware/catalogue.json'') (\<lambda>cat.
     ebind (case json_get j ''auth'' of Some a \<Rightarrow> from_json_ServerAuth a
            | None \<Rightarrow> Inr \<lparr>username = '''', password = ''''\<rparr>) (\<lambda>au.
     ebind (json_value (get_int trunc) j ''pollIntervalSeconds'' 3600) (\<lambda>poll.
     ebind (json_value get_bool j ''pollAtStartup'' True) (\<lambda>startup.
     ebind (optional_list j ''deniedVersions'') (\<lambda>denied.
     ebind (optional_list j ''allowedVersions'') (\<lambda>allowed.
     ebind (json_value get_string j ''downloadDir'' ''/var/lib/firmware_updater'') (\<lambda>dir.
     ebind (json_value (get_int trunc) j ''downloadTimeoutSeconds'' 1800) (\<lambda>tmo.
     Inr \<lparr>serverHost = host, serverPort = port, cataloguePath = cat, auth = au, pollIntervalSeconds = poll,
          pollAtStartup = startup, deniedVersions = denied, allowedVersions = allowed, downloadDir = dir,
          downloadTimeoutSeconds = tmo\<rparr>))))))))))"

definition from_json_FirmwareEntry :: "'f json \<Rightarrow> json_exn + FirmwareEntry" where
  "from_json_FirmwareEntry j =
     ebind (ebind (json_at j ''version'') get_string) (\<lambda>v.
     ebind (ebind (json_at j ''imageUrl'') get_string) (\<lambda>u.
     ebind (json_value get_string j ''checksum'' '''') (\<lambda>c.
     ebind (json_value get_string j ''releaseDate'' '''') (\<lambda>r.
     ebind (json_value get_string j ''description'' '''') (\<lambda>d.
     Inr \<lparr>fe_version = v, imageUrl = u, checksum = c, releaseDate = r, description = d\<rparr>)))))"

text \<open>\<open>loadConfig\<close>: the file's text if it can be opened, and the JSON parser, as arguments.\<close>

datatype config_error = Cannot_open | Config_parse_error

definition loadConfig ::
  "(string \<Rightarrow> 'f json option) \<Rightarrow> ('f \<Rightarrow> int) \<Rightarrow> string option \<Rightarrow> config_error + AppConfig" where
  "loadConfig parse trunc file = (case file of
     None \<Rightarrow> Inl Cannot_open
   | Some content \<Rightarrow> (case parse content of
       None \<Rightarrow> Inl Config_parse_error
     | Some j \<Rightarrow> (case from_json_AppConfig trunc j of Inl e \<Rightarrow> Inl Config_parse_error | Inr c \<Rightarrow> Inr c)))"

section \<open>Versions\<close>

text \<open>
  \<open>%d\<close> of \<open>sscanf\<close>: blanks are skipped, then an optional sign and at least one digit. Numbers
  outside the range of \<open>int\<close>, on which the C function is undefined, keep their value here.
\<close>

definition scan_int :: "string \<Rightarrow> (int \<times> string) option" where
  "scan_int s =
     (let t = dropWhile is_blank s;
          neg = (t \<noteq> [] \<and> hd t = CHR ''-'');
          u = (if t \<noteq> [] \<and> (hd t = CHR ''-'' \<or> hd t = CHR ''+'') then tl t else t);
          ds = takeWhile is_digit u
      in if ds = [] then None
         else Some ((if neg then - int (digits_value ds) else int (digits_value ds)), dropWhile is_digit u))"

fun skip_dot :: "string \<Rightarrow> string option" where
  "skip_dot (c # s) = (if c = CHR ''.'' then Some s else None)"
| "skip_dot [] = None"

text \<open>The conversions stop at the first one that does not match; the rest stay zero.\<close>

definition parseVersion :: "string \<Rightarrow> int \<times> int \<times> int" where
  "parseVersion ver = (case scan_int ver of
     None \<Rightarrow> (0, 0, 0)
   | Some (major, r1) \<Rightarrow> (case skip_dot r1 of
       None \<Rightarrow> (major, 0, 0)
     | Some r2 \<Rightarrow> (case scan_int r2 of
         None \<Rightarrow> (major, 0, 0)
       | Some (minor, r3) \<Rightarrow> (case skip_dot r3 of
           None \<Rightarrow> (major, minor, 0)
         | Some r4 \<Rightarrow> (case scan_int r4 of
             None \<Rightarrow> (major, minor, 0)
           | Some (patch, r5) \<Rightarrow> (major, minor, patch))))))"

text \<open>\<open>operator<\<close> of a tuple.\<close>

fun version_less :: "int \<times> int \<times> int \<Rightarrow> int \<times> int \<times> int \<Rightarrow> bool" where
  "version_less (a, b, c) (a', b', c') \<longleftrightarrow> a < a' \<or> a = a' \<and> (b < b' \<or> b = b' \<and> c < c')"

definition isNewerThan :: "string \<Rightarrow> string \<Rightarrow> bool" where
  "isNewerThan candidate current = version_less (parseVersion current) (parseVersion candidate)"

definition isAllowedVersion :: "string \<Rightarrow> AppConfig \<Rightarrow> bool" where
  "isAllowedVersion candidate cfg =
     (if deniedVersions cfg \<noteq> [] \<and> candidate \<in> set (deniedVersions cfg) then False
      else if allowedVersions cfg \<noteq> [] \<and> candidate \<notin> set (allowedVersions cfg) then False
      else True)"

text \<open>\<open>std::ranges::max_element\<close>: the first of the largest elements.\<close>

fun max_element :: "('a \<Rightarrow> 'a \<Rightarrow> bool) \<Rightarrow> 'a \<Rightarrow> 'a list \<Rightarrow> 'a" where
  "max_element lt best [] = best"
| "max_element lt best (x # xs) = max_element lt (if lt best x then x else best) xs"

definition selectCandidates :: "FirmwareEntry list \<Rightarrow> string \<Rightarrow> AppConfig \<Rightarrow> FirmwareEntry list" where
  "selectCandidates catalogue currentVer cfg =
     (let candidates = filter (\<lambda>e. isNewerThan (fe_version e) currentVer \<and> isAllowedVersion (fe_version e) cfg) catalogue
      in case candidates of
        [] \<Rightarrow> []
      | c # cs \<Rightarrow> [max_element (\<lambda>a b. version_less (parseVersion (fe_version a)) (parseVersion (fe_version b))) c cs])"

text \<open>The answer of the update server: an error, or a status and a body.\<close>

abbreviation Protocol_error :: errc where "Protocol_error \<equiv> Sys_error 71"
abbreviation No_such_file :: errc where "No_such_file \<equiv> Sys_error 2"

fun get_entries :: "'f json \<Rightarrow> json_exn + FirmwareEntry list" where
  "get_entries (JArr xs) = emap from_json_FirmwareEntry xs"
| "get_entries _ = Inl Type_error"

definition fetchCatalogue ::
  "(string \<Rightarrow> 'f json option) \<Rightarrow> errc + nat \<times> string \<Rightarrow> error_code \<times> FirmwareEntry list" where
  "fetchCatalogue parse answer = (case answer of
     Inl e \<Rightarrow> (Some e, [])
   | Inr (status, body) \<Rightarrow>
       if status \<noteq> 200 then (Some Protocol_error, [])
       else case parse body of
         None \<Rightarrow> (Some Invalid_argument, [])
       | Some j \<Rightarrow> (case get_entries j of Inl x \<Rightarrow> (Some Invalid_argument, []) | Inr es \<Rightarrow> (None, es)))"

text \<open>
  The managed objects of the updater service: path, interface, property, value (\<open>None\<close>: a value
  that is not a string).
\<close>

type_synonym managed_objects = "(string \<times> (string \<times> (string \<times> string option) list) list) list"

definition activationIface :: string where "activationIface = ''xyz.openbmc_project.Software.Activation''"
definition versionIface :: string where "versionIface = ''xyz.openbmc_project.Software.Version''"
definition activeState :: string where
  "activeState = ''xyz.openbmc_project.Software.Activation.Activations.Active''"

fun active_version :: "managed_objects \<Rightarrow> error_code \<times> string" where
  "active_version [] = (Some No_such_file, [])"
| "active_version ((objPath, ifaces) # objs) =
     (case (map_of ifaces activationIface, map_of ifaces versionIface) of
        (Some act, Some ver) \<Rightarrow>
          (if map_of act ''Activation'' \<noteq> Some (Some activeState) then active_version objs
           else case map_of ver ''Version'' of
             None \<Rightarrow> (Some No_such_file, [])
           | Some None \<Rightarrow> (Some Invalid_argument, [])
           | Some (Some v) \<Rightarrow> (None, v))
      | _ \<Rightarrow> active_version objs)"

definition getCurrentFwVersion :: "errc + managed_objects \<Rightarrow> error_code \<times> string" where
  "getCurrentFwVersion answer = (case answer of Inl e \<Rightarrow> (Some e, []) | Inr objs \<Rightarrow> active_version objs)"

section \<open>Downloads\<close>

type_synonym fw_disk = "string \<rightharpoonup> byte list"

record url =
  url_host :: string
  url_port :: "string option"
  url_path :: string

record fw_world =
  parse_uri :: "string \<Rightarrow> url option"
  sha256 :: "byte list \<Rightarrow> string"
  file_readable :: "string \<Rightarrow> bool"
  mkdir_ok :: "string \<Rightarrow> bool"

record DownloadResult =
  dr_ec :: error_code
  dr_localPath :: string
  dr_version :: string

definition localFilePath :: "fw_world \<Rightarrow> string \<Rightarrow> FirmwareEntry \<Rightarrow> string" where
  "localFilePath w dir entry =
     (let fallback = dir @ ''/firmware-'' @ fe_version entry in
      case parse_uri w (imageUrl entry) of
        Some u \<Rightarrow> (let filename = path_filename (url_path u) in
          if filename \<noteq> [] then dir @ ''/'' @ filename else fallback)
      | None \<Rightarrow> fallback)"

definition sha256File :: "fw_world \<Rightarrow> fw_disk \<Rightarrow> string \<Rightarrow> string" where
  "sha256File w d path = (case d path of
     Some content \<Rightarrow> if file_readable w path then sha256 w content else []
   | None \<Rightarrow> [])"

text \<open>The request of a transfer: host, port and target.\<close>

type_synonym transfer = "string \<times> string \<times> string"

definition image_request :: "url \<Rightarrow> transfer" where
  "image_request u = (url_host u, (case url_port u of Some p \<Rightarrow> p | None \<Rightarrow> ''443''),
     (if url_path u = [] then ''/'' else url_path u))"

text \<open>
  \<open>downloadFirmware\<close> up to its request: either it is over, or the image is to be requested and
  written to the local path; and the disk after it.
\<close>

definition download_start ::
  "fw_world \<Rightarrow> FirmwareEntry \<Rightarrow> string \<Rightarrow> fw_disk \<Rightarrow> (DownloadResult + string \<times> transfer) \<times> fw_disk" where
  "download_start w entry dir d =
     (let destPath = localFilePath w dir entry; v = fe_version entry;
          mismatch = (checksum entry \<noteq> [] \<and> sha256File w d destPath \<noteq> checksum entry) in
      if d destPath \<noteq> None \<and> \<not> mismatch
      then (Inl \<lparr>dr_ec = None, dr_localPath = destPath, dr_version = v\<rparr>, d)
      else let d1 = (if d destPath \<noteq> None then d(destPath := None) else d) in
        if \<not> mkdir_ok w dir then (Inl \<lparr>dr_ec = Some No_such_file, dr_localPath = [], dr_version = v\<rparr>, d1)
        else case parse_uri w (imageUrl entry) of
          None \<Rightarrow> (Inl \<lparr>dr_ec = Some Invalid_argument, dr_localPath = [], dr_version = v\<rparr>, d1)
        | Some u \<Rightarrow> (Inr (destPath, image_request u), d1))"

text \<open>The end of the transfer.\<close>

definition download_end :: "FirmwareEntry \<Rightarrow> string \<Rightarrow> error_code \<Rightarrow> DownloadResult" where
  "download_end entry destPath ec = (case ec of
     Some e \<Rightarrow> \<lparr>dr_ec = Some e, dr_localPath = [], dr_version = fe_version entry\<rparr>
   | None \<Rightarrow> \<lparr>dr_ec = None, dr_localPath = destPath, dr_version = fe_version entry\<rparr>)"

section \<open>The registry\<close>

record FirmwareRecord =
  fr_entry :: FirmwareEntry
  fr_localPath :: string
  fr_object :: string

definition sanitise :: "string \<Rightarrow> string" where
  "sanitise version = map (\<lambda>c. if c = CHR ''.'' then CHR ''_'' else c) version"

definition fwUpdaterBasePath :: string where "fwUpdaterBasePath = ''/xyz/openbmc_project/firmware_updater''"

definition FirmwareRecord_new :: "FirmwareEntry \<Rightarrow> string \<Rightarrow> FirmwareRecord" where
  "FirmwareRecord_new e p = \<lparr>fr_entry = e, fr_localPath = p,
     fr_object = fwUpdaterBasePath @ ''/images/'' @ sanitise (fe_version e)\<rparr>"

text \<open>
  The manager: the records by version, the property \<open>AvailableFirmware\<close>, the objects on the bus,
  the signals sent, and the installations started (version and image).
\<close>

record fw_manager =
  records :: "(string \<times> FirmwareRecord) list"
  availableFirmware :: "string list"
  bus_objects :: "string list"
  signals :: "(string \<times> string) list"

definition updateAvailableFirmware :: "fw_manager \<Rightarrow> fw_manager" where
  "updateAvailableFirmware m = m\<lparr>availableFirmware := map fst (records m)\<rparr>"

definition emitFirmwareAvailable :: "string \<Rightarrow> string \<Rightarrow> fw_manager \<Rightarrow> fw_manager" where
  "emitFirmwareAvailable version localPath m = m\<lparr>signals := signals m @ [(version, localPath)]\<rparr>"

definition hasVersion :: "string \<Rightarrow> fw_manager \<Rightarrow> bool" where
  "hasVersion version m \<longleftrightarrow> map_of (records m) version \<noteq> None"

definition onFirmwareDownloaded :: "DownloadResult \<Rightarrow> FirmwareEntry \<Rightarrow> fw_manager \<Rightarrow> fw_manager" where
  "onFirmwareDownloaded result entry m =
     (let ver = fe_version entry in
      if dr_ec result \<noteq> None then m
      else if hasVersion ver m then m
      else let rec = FirmwareRecord_new entry (dr_localPath result) in
        emitFirmwareAvailable ver (dr_localPath result) (updateAvailableFirmware
          (m\<lparr>records := omap_put ver rec (records m), bus_objects := bus_objects m @ [fr_object rec]\<rparr>)))"

definition removeFirmware :: "string \<Rightarrow> fw_manager \<Rightarrow> fw_manager" where
  "removeFirmware version m = (case map_of (records m) version of
     None \<Rightarrow> m
   | Some rec \<Rightarrow> updateAvailableFirmware
       (m\<lparr>records := omap_erase version (records m), bus_objects := remove1 (fr_object rec) (bus_objects m)\<rparr>))"

definition ListFirmware :: "fw_manager \<Rightarrow> (string \<times> string \<times> string \<times> string \<times> string) list" where
  "ListFirmware m = map (\<lambda>(ver, rec). (fe_version (fr_entry rec), fr_localPath rec, checksum (fr_entry rec),
     releaseDate (fr_entry rec), description (fr_entry rec))) (records m)"

text \<open>\<open>triggerInstall\<close>: \<open>None\<close> is the exception for an unknown version, else the image to install.\<close>

definition triggerInstall :: "string \<Rightarrow> fw_manager \<Rightarrow> string option" where
  "triggerInstall version m = map_option fr_localPath (map_of (records m) version)"

text \<open>Whether a string ends with another; the callback that watches the activation.\<close>

definition ends_with :: "string \<Rightarrow> string \<Rightarrow> bool" where
  "ends_with s t \<longleftrightarrow> drop (length s - length t) s = t"

definition activation_callback :: "string \<Rightarrow> error_code \<Rightarrow> string option \<Rightarrow> fw_manager \<Rightarrow> bool \<times> fw_manager" where
  "activation_callback version ec stateOpt m = (case (ec, stateOpt) of
     (None, Some st) \<Rightarrow>
       if ends_with st ''Active'' then (False, removeFirmware version m)
       else if ends_with st ''Failed'' \<or> ends_with st ''Invalid'' then (False, m)
       else (True, m)
   | _ \<Rightarrow> (False, m))"


section \<open>The program\<close>

text \<open>
  The state: disk, manager, transfers under way (entry and destination), registrations posted
  to the event loop, installations under way (version and image). \<open>selected\<close> is a record for the
  proofs of what the checks selected: running version, catalogue, entry.
\<close>

record updater =
  up_disk :: fw_disk
  up_manager :: fw_manager
  downloading :: "(FirmwareEntry \<times> string) list"
  posted :: "(DownloadResult \<times> FirmwareEntry) list"
  installing :: "(string \<times> string) list"
  selected :: "(string \<times> FirmwareEntry list \<times> FirmwareEntry) list"

definition updater_new :: "fw_disk \<Rightarrow> updater" where
  "updater_new d = \<lparr>up_disk = d, up_manager = \<lparr>records = [], availableFirmware = [], bus_objects = [], signals = []\<rparr>,
     downloading = [], posted = [], installing = [], selected = []\<rparr>"

text \<open>The body of the loop over the candidates.\<close>

definition start_candidate :: "fw_world \<Rightarrow> AppConfig \<Rightarrow> FirmwareEntry \<Rightarrow> updater \<Rightarrow> updater" where
  "start_candidate w cfg entry u =
     (if hasVersion (fe_version entry) (up_manager u) then u
      else case download_start w entry (downloadDir cfg) (up_disk u) of
        (Inl result, d) \<Rightarrow>
          (if dr_ec result \<noteq> None then u\<lparr>up_disk := d\<rparr>
           else u\<lparr>up_disk := d, posted := posted u @ [(result, entry)]\<rparr>)
      | (Inr (dest, req), d) \<Rightarrow> u\<lparr>up_disk := d, downloading := downloading u @ [(entry, dest)]\<rparr>)"

definition runCheckCycle ::
  "fw_world \<Rightarrow> AppConfig \<Rightarrow> errc + managed_objects \<Rightarrow> error_code \<times> FirmwareEntry list \<Rightarrow> updater \<Rightarrow> updater" where
  "runCheckCycle w cfg objects cat u = (case getCurrentFwVersion objects of (verEc, currentVer) \<Rightarrow>
     if verEc \<noteq> None \<or> currentVer = [] then u
     else case cat of (catEc, catalogue) \<Rightarrow>
       if catEc \<noteq> None then u
       else let candidates = selectCandidates catalogue currentVer cfg in
         fold (start_candidate w cfg) candidates
           (u\<lparr>selected := selected u @ map (\<lambda>e. (currentVer, catalogue, e)) candidates\<rparr>))"

definition drop_nth :: "nat \<Rightarrow> 'a list \<Rightarrow> 'a list" where
  "drop_nth i xs = take i xs @ drop (Suc i) xs"

datatype fw_event =
    Check "errc + managed_objects" "error_code \<times> FirmwareEntry list"
  | Transfer_bytes nat "byte list"
  | Transfer_done nat error_code
  | Run_posted
  | Install string
  | Activation nat error_code "string option"

fun updater_step :: "fw_world \<Rightarrow> AppConfig \<Rightarrow> fw_event \<Rightarrow> updater \<Rightarrow> updater" where
  "updater_step w cfg (Check objects cat) u = runCheckCycle w cfg objects cat u"
| "updater_step w cfg (Transfer_bytes i b) u =
     (if i < length (downloading u) then u\<lparr>up_disk := (up_disk u)(snd (downloading u ! i) \<mapsto> b)\<rparr> else u)"
| "updater_step w cfg (Transfer_done i ec) u =
     (if i < length (downloading u) then
        (case downloading u ! i of (entry, dest) \<Rightarrow>
          let result = download_end entry dest ec; u1 = u\<lparr>downloading := drop_nth i (downloading u)\<rparr> in
          if dr_ec result \<noteq> None then u1 else u1\<lparr>posted := posted u1 @ [(result, entry)]\<rparr>)
      else u)"
| "updater_step w cfg Run_posted u = (case posted u of
     [] \<Rightarrow> u
   | (result, entry) # rest \<Rightarrow> u\<lparr>posted := rest, up_manager := onFirmwareDownloaded result entry (up_manager u)\<rparr>)"
| "updater_step w cfg (Install version) u = (case triggerInstall version (up_manager u) of
     None \<Rightarrow> u
   | Some localPath \<Rightarrow> u\<lparr>installing := installing u @ [(version, localPath)]\<rparr>)"
| "updater_step w cfg (Activation i ec st) u =
     (if i < length (installing u) then
        (case activation_callback (fst (installing u ! i)) ec st (up_manager u) of (go_on, m) \<Rightarrow>
          u\<lparr>up_manager := m, installing := (if go_on then installing u else drop_nth i (installing u))\<rparr>)
      else u)"

text \<open>How many checks the polling loop makes, given how its waits end.\<close>

definition pollingLoop :: "AppConfig \<Rightarrow> error_code list \<Rightarrow> nat" where
  "pollingLoop cfg waits = of_bool (pollAtStartup cfg) +
     (if pollIntervalSeconds cfg \<le> 0 then 0 else length (takeWhile (\<lambda>ec. ec \<noteq> Some Operation_aborted) waits))"

section \<open>The selection\<close>

lemma version_less_trans: "version_less x y \<Longrightarrow> version_less y z \<Longrightarrow> version_less x z"
  by (cases x; cases y; cases z) auto

lemma version_less_total: "\<not> version_less x y \<Longrightarrow> \<not> version_less y z \<Longrightarrow> \<not> version_less x z"
  by (cases x; cases y; cases z) auto

lemma version_less_irrefl: "\<not> version_less x x"
  by (cases x) simp

lemma max_element_max:
  assumes "\<And>x y z. \<not> lt x y \<Longrightarrow> \<not> lt y z \<Longrightarrow> \<not> lt x z" "\<And>x. \<not> lt x x" "\<And>x y. lt x y \<Longrightarrow> \<not> lt y x"
  shows "max_element lt b xs \<in> set (b # xs) \<and> (\<forall>y\<in>set (b # xs). \<not> lt (max_element lt b xs) y)"
proof (induction xs arbitrary: b)
  case Nil
  then show ?case using assms(2) by simp
next
  case (Cons x xs)
  let ?b = "if lt b x then x else b"
  let ?m = "max_element lt ?b xs"
  from Cons [of ?b] have m: "?m \<in> insert ?b (set xs)" "\<not> lt ?m ?b" "\<forall>y\<in>set xs. \<not> lt ?m y" by simp_all
  have "\<not> lt ?b b" "\<not> lt ?b x" using assms(2,3) by simp_all
  then have "\<not> lt ?m b" "\<not> lt ?m x" using assms(1) [OF m(2)] by blast+
  then show ?case using m by (simp split: if_splits) blast
qed

definition eligible :: "AppConfig \<Rightarrow> string \<Rightarrow> FirmwareEntry \<Rightarrow> bool" where
  "eligible cfg current e \<longleftrightarrow> isNewerThan (fe_version e) current \<and>
     fe_version e \<notin> set (deniedVersions cfg) \<and>
     (allowedVersions cfg = [] \<or> fe_version e \<in> set (allowedVersions cfg))"

lemma allowed_iff:
  "isAllowedVersion v cfg \<longleftrightarrow> v \<notin> set (deniedVersions cfg) \<and> (allowedVersions cfg = [] \<or> v \<in> set (allowedVersions cfg))"
  by (auto simp: isAllowedVersion_def)

lemma selected_newest:
  "(selectCandidates catalogue current cfg = [] \<longleftrightarrow> (\<forall>e\<in>set catalogue. \<not> eligible cfg current e)) \<and>
   (\<forall>e\<in>set (selectCandidates catalogue current cfg). e \<in> set catalogue \<and> eligible cfg current e \<and>
      (\<forall>e'\<in>set catalogue. eligible cfg current e' \<longrightarrow> \<not> isNewerThan (fe_version e') (fe_version e))) \<and>
   length (selectCandidates catalogue current cfg) \<le> 1"
proof -
  let ?lt = "\<lambda>a b. version_less (parseVersion (fe_version a)) (parseVersion (fe_version b))"
  have el: "(isNewerThan (fe_version e) current \<and> isAllowedVersion (fe_version e) cfg) = eligible cfg current e" for e
    by (simp add: eligible_def allowed_iff)
  show ?thesis
  proof (cases "filter (eligible cfg current) catalogue")
    case Nil
    then show ?thesis by (auto simp: selectCandidates_def el filter_empty_conv)
  next
    case (Cons c cs)
    have asym: "?lt x y \<Longrightarrow> \<not> ?lt y x" for x y
      using version_less_trans version_less_irrefl by blast
    have m: "max_element ?lt c cs \<in> set (c # cs) \<and> (\<forall>y\<in>set (c # cs). \<not> ?lt (max_element ?lt c cs) y)"
      by (rule max_element_max) (use version_less_total version_less_irrefl asym in blast)+
    have s: "set (c # cs) = {e \<in> set catalogue. eligible cfg current e}"
      using arg_cong [OF Cons, of set] by auto
    have sel: "selectCandidates catalogue current cfg = [max_element ?lt c cs]"
      by (simp add: selectCandidates_def el Cons Let_def)
    show ?thesis using m s unfolding sel by (auto simp: isNewerThan_def)
  qed
qed

text \<open>
  From any catalogue at most one image is selected: none exactly when no entry is newer than the
  running version and permitted by the two lists, else an entry that is, and than which no other
  such entry is newer.
\<close>

theorem newest_eligible_selected:
  "(selectCandidates catalogue current cfg = [] \<longleftrightarrow> (\<forall>e\<in>set catalogue. \<not> eligible cfg current e)) \<and>
   (\<forall>e\<in>set (selectCandidates catalogue current cfg). e \<in> set catalogue \<and> eligible cfg current e \<and>
      (\<forall>e'\<in>set catalogue. eligible cfg current e' \<longrightarrow> \<not> isNewerThan (fe_version e') (fe_version e))) \<and>
   length (selectCandidates catalogue current cfg) \<le> 1"
  by (rule selected_newest)

theorem newest_eligible_selected_witness:
  "selectCandidates [\<lparr>fe_version = ''2.9.1'', imageUrl = ''a'', checksum = '''', releaseDate = '''', description = ''''\<rparr>,
      \<lparr>fe_version = ''2.10.0-rc1'', imageUrl = ''b'', checksum = '''', releaseDate = '''', description = ''''\<rparr>,
      \<lparr>fe_version = ''3.0'', imageUrl = ''c'', checksum = '''', releaseDate = '''', description = ''''\<rparr>] ''2.9''
     \<lparr>serverHost = '''', serverPort = '''', cataloguePath = '''', auth = \<lparr>username = '''', password = ''''\<rparr>,
      pollIntervalSeconds = 0, pollAtStartup = True, deniedVersions = [''3.0''], allowedVersions = [],
      downloadDir = ''/d'', downloadTimeoutSeconds = 0\<rparr> =
     [\<lparr>fe_version = ''2.10.0-rc1'', imageUrl = ''b'', checksum = '''', releaseDate = '''', description = ''''\<rparr>] \<and>
   \<not> eligible \<lparr>serverHost = '''', serverPort = '''', cataloguePath = '''', auth = \<lparr>username = '''', password = ''''\<rparr>,
      pollIntervalSeconds = 0, pollAtStartup = True, deniedVersions = [''3.0''], allowedVersions = [],
      downloadDir = ''/d'', downloadTimeoutSeconds = 0\<rparr> ''2.9''
      \<lparr>fe_version = ''3.0'', imageUrl = ''c'', checksum = '''', releaseDate = '''', description = ''''\<rparr>"
proof -
  let ?cfg = "\<lparr>serverHost = '''', serverPort = '''', cataloguePath = '''', auth = \<lparr>username = '''', password = ''''\<rparr>,
      pollIntervalSeconds = 0, pollAtStartup = True, deniedVersions = [''3.0''], allowedVersions = [],
      downloadDir = ''/d'', downloadTimeoutSeconds = 0\<rparr>"
  let ?c = "\<lparr>fe_version = ''3.0'', imageUrl = ''c'', checksum = '''', releaseDate = '''', description = ''''\<rparr>"
  have "selectCandidates [?c] ''2.9'' ?cfg = []" by code_simp
  with newest_eligible_selected [of "[?c]" "''2.9''" ?cfg] have n: "\<not> eligible ?cfg ''2.9'' ?c" by simp
  show ?thesis by (intro conjI n) code_simp
qed


section \<open>What is registered was selected\<close>

type_synonym selection_log = "(string \<times> FirmwareEntry list \<times> FirmwareEntry) list"

definition log_ok :: "AppConfig \<Rightarrow> selection_log \<Rightarrow> bool" where
  "log_ok cfg sel \<longleftrightarrow> (\<forall>(current, catalogue, e)\<in>set sel. e \<in> set (selectCandidates catalogue current cfg))"

definition was_selected :: "selection_log \<Rightarrow> FirmwareEntry \<Rightarrow> bool" where
  "was_selected sel e \<longleftrightarrow> (\<exists>current catalogue. (current, catalogue, e) \<in> set sel)"

text \<open>A path belongs to a selected entry.\<close>

definition image_ok :: "fw_world \<Rightarrow> AppConfig \<Rightarrow> selection_log \<Rightarrow> FirmwareEntry \<Rightarrow> string \<Rightarrow> bool" where
  "image_ok w cfg sel e p \<longleftrightarrow> p = localFilePath w (downloadDir cfg) e \<and> was_selected sel e"

definition record_ok :: "fw_world \<Rightarrow> AppConfig \<Rightarrow> selection_log \<Rightarrow> string \<times> FirmwareRecord \<Rightarrow> bool" where
  "record_ok w cfg sel kv \<longleftrightarrow> fst kv = fe_version (fr_entry (snd kv)) \<and>
     image_ok w cfg sel (fr_entry (snd kv)) (fr_localPath (snd kv))"

definition signal_ok :: "fw_world \<Rightarrow> AppConfig \<Rightarrow> selection_log \<Rightarrow> string \<times> string \<Rightarrow> bool" where
  "signal_ok w cfg sel vp \<longleftrightarrow> (\<exists>e. fst vp = fe_version e \<and> image_ok w cfg sel e (snd vp))"

definition manager_ok :: "fw_world \<Rightarrow> AppConfig \<Rightarrow> selection_log \<Rightarrow> fw_manager \<Rightarrow> bool" where
  "manager_ok w cfg sel m \<longleftrightarrow> (\<forall>kv\<in>set (records m). record_ok w cfg sel kv) \<and>
     (\<forall>vp\<in>set (signals m). signal_ok w cfg sel vp) \<and>
     omap_ok (records m) \<and> availableFirmware m = map fst (records m)"

definition fw_inv :: "fw_world \<Rightarrow> AppConfig \<Rightarrow> updater \<Rightarrow> bool" where
  "fw_inv w cfg u \<longleftrightarrow> log_ok cfg (selected u) \<and>
     (\<forall>x\<in>set (downloading u). image_ok w cfg (selected u) (fst x) (snd x)) \<and>
     (\<forall>x\<in>set (posted u). image_ok w cfg (selected u) (snd x) (dr_localPath (fst x))) \<and>
     manager_ok w cfg (selected u) (up_manager u)"

lemma set_drop_nth: "x \<in> set (drop_nth i xs) \<Longrightarrow> x \<in> set xs"
  by (auto simp: drop_nth_def dest: in_set_takeD in_set_dropD)

lemma set_omap_erase: "x \<in> set (omap_erase k m) \<Longrightarrow> x \<in> set m"
  by (simp add: omap_erase_def)

lemma onFirmwareDownloaded_ok:
  assumes "manager_ok w cfg sel m" "image_ok w cfg sel e (dr_localPath r)"
  shows "manager_ok w cfg sel (onFirmwareDownloaded r e m)"
proof (cases "dr_ec r = None \<and> \<not> hasVersion (fe_version e) m")
  case True
  let ?rec = "FirmwareRecord_new e (dr_localPath r)"
  let ?m = "omap_put (fe_version e) ?rec (records m)"
  have "record_ok w cfg sel (fe_version e, ?rec)" using assms(2) by (simp add: record_ok_def FirmwareRecord_new_def)
  then have "\<forall>kv\<in>set ?m. record_ok w cfg sel kv"
    using set_omap_put [of "fe_version e" ?rec "records m"] assms(1) by (auto simp: manager_ok_def)
  moreover have "signal_ok w cfg sel (fe_version e, dr_localPath r)" using assms(2) by (auto simp: signal_ok_def)
  moreover have "omap_ok ?m" using assms(1) by (simp add: manager_ok_def omap_ok_put)
  ultimately show ?thesis using assms True
    by (simp add: onFirmwareDownloaded_def manager_ok_def emitFirmwareAvailable_def updateAvailableFirmware_def Let_def)
next
  case False
  with assms(1) show ?thesis by (auto simp: onFirmwareDownloaded_def Let_def)
qed

lemma removeFirmware_ok:
  assumes "manager_ok w cfg sel m"
  shows "manager_ok w cfg sel (removeFirmware v m)"
  using assms
  by (auto simp: removeFirmware_def manager_ok_def updateAvailableFirmware_def omap_ok_erase
      dest: set_omap_erase split: option.splits)

lemma download_start_path:
  assumes "download_start w e dir d = (r, d')"
  shows "(\<forall>res. r = Inl res \<longrightarrow> dr_ec res = None \<longrightarrow> dr_localPath res = localFilePath w dir e) \<and>
    (\<forall>dest req. r = Inr (dest, req) \<longrightarrow> dest = localFilePath w dir e)"
  using assms by (auto simp: download_start_def Let_def split: if_splits option.splits)

lemma start_candidate_ok:
  assumes "fw_inv w cfg u" "was_selected (selected u) e"
  shows "fw_inv w cfg (start_candidate w cfg e u) \<and> selected (start_candidate w cfg e u) = selected u"
proof (cases "hasVersion (fe_version e) (up_manager u)")
  case True
  with assms show ?thesis by (simp add: start_candidate_def)
next
  case False
  obtain r d where s: "download_start w e (downloadDir cfg) (up_disk u) = (r, d)" by fastforce
  note p = download_start_path [OF s]
  show ?thesis
  proof (cases r)
    case (Inl res)
    with False s p assms show ?thesis by (auto simp: start_candidate_def fw_inv_def image_ok_def)
  next
    case (Inr x)
    with False s p assms show ?thesis by (cases x) (auto simp: start_candidate_def fw_inv_def image_ok_def)
  qed
qed

lemma log_grows:
  "was_selected sel e \<Longrightarrow> was_selected (sel @ sel') e"
  "image_ok w cfg sel e p \<Longrightarrow> image_ok w cfg (sel @ sel') e p"
  "record_ok w cfg sel kv \<Longrightarrow> record_ok w cfg (sel @ sel') kv"
  "signal_ok w cfg sel vp \<Longrightarrow> signal_ok w cfg (sel @ sel') vp"
  by (auto simp: was_selected_def image_ok_def record_ok_def signal_ok_def)

lemma runCheckCycle_ok:
  assumes "fw_inv w cfg u"
  shows "fw_inv w cfg (runCheckCycle w cfg objects cat u)"
proof -
  obtain ec cur where v: "getCurrentFwVersion objects = (ec, cur)" by fastforce
  obtain cec catalogue where c: "cat = (cec, catalogue)" by fastforce
  let ?cs = "selectCandidates catalogue cur cfg"
  let ?u = "u\<lparr>selected := selected u @ map (\<lambda>e. (cur, catalogue, e)) ?cs\<rparr>"
  have i: "fw_inv w cfg ?u" using assms
    by (auto simp: fw_inv_def log_ok_def manager_ok_def intro: log_grows)
  have "fw_inv w cfg u' \<Longrightarrow> \<forall>e\<in>set es. was_selected (selected u') e \<Longrightarrow>
      fw_inv w cfg (fold (start_candidate w cfg) es u')" for es u'
  proof (induction es arbitrary: u')
    case (Cons e es)
    from start_candidate_ok [of w cfg u' e] Cons.prems Cons.IH [of "start_candidate w cfg e u'"]
    show ?case by simp
  qed simp
  from this [OF i, of ?cs] have "fw_inv w cfg (fold (start_candidate w cfg) ?cs ?u)"
    by (auto simp: was_selected_def)
  with assms v c show ?thesis by (simp add: runCheckCycle_def Let_def)
qed

lemma updater_step_ok:
  assumes "fw_inv w cfg u"
  shows "fw_inv w cfg (updater_step w cfg ev u)"
proof (cases ev)
  case (Check objects cat)
  with runCheckCycle_ok [OF assms] show ?thesis by simp
next
  case (Transfer_bytes i b)
  with assms show ?thesis by (simp add: fw_inv_def)
next
  case (Transfer_done i ec)
  show ?thesis
  proof (cases "i < length (downloading u)")
    case True
    obtain e dest where d: "downloading u ! i = (e, dest)" by fastforce
    from True have "downloading u ! i \<in> set (downloading u)" by simp
    with assms d have e: "image_ok w cfg (selected u) e dest" by (fastforce simp: fw_inv_def)
    have f: "fw_inv w cfg (u\<lparr>downloading := drop_nth i (downloading u)\<rparr>)"
      using assms by (auto simp: fw_inv_def dest: set_drop_nth)
    show ?thesis
      using f e True d Transfer_done by (cases ec) (auto simp: download_end_def Let_def fw_inv_def)
  qed (use assms Transfer_done in simp)
next
  case Run_posted
  show ?thesis
  proof (cases "posted u")
    case (Cons p rest)
    with assms Run_posted show ?thesis
      by (cases p) (auto simp: fw_inv_def intro: onFirmwareDownloaded_ok)
  qed (use assms Run_posted in simp)
next
  case (Install v)
  with assms show ?thesis by (auto simp: fw_inv_def split: option.splits)
next
  case (Activation i ec st)
  have "manager_ok w cfg (selected u) (snd (activation_callback v ec st (up_manager u)))" for v
    using assms by (auto simp: activation_callback_def fw_inv_def intro: removeFirmware_ok split: option.splits)
  with Activation assms show ?thesis
    by (auto simp: fw_inv_def split: prod.splits) (metis snd_conv)+
qed

text \<open>
  The pairs of running version and catalogue that the checks of a run worked with: the check read a
  version from D-Bus and a catalogue from the server.
\<close>

definition checked :: "fw_event list \<Rightarrow> string \<Rightarrow> FirmwareEntry list \<Rightarrow> bool" where
  "checked evs current catalogue \<longleftrightarrow> (\<exists>objects. Check objects (None, catalogue) \<in> set evs \<and>
     getCurrentFwVersion objects = (None, current) \<and> current \<noteq> [])"

lemma start_candidates_selected:
  "selected (fold (start_candidate w cfg) es u) = selected u"
  by (induction es arbitrary: u) (simp_all add: start_candidate_def split: sum.split prod.split)

lemma step_selected:
  assumes "x \<in> set (selected (updater_step w cfg ev u))"
  shows "x \<in> set (selected u) \<or> checked [ev] (fst x) (fst (snd x))"
proof (cases ev)
  case (Check objects cat)
  obtain ec cur where v: "getCurrentFwVersion objects = (ec, cur)" by fastforce
  obtain cec catalogue where c: "cat = (cec, catalogue)" by fastforce
  show ?thesis
    using assms Check v c by (auto simp: runCheckCycle_def Let_def start_candidates_selected checked_def split: if_splits)
qed (use assms in \<open>auto simp: Let_def split: if_splits prod.splits list.splits option.splits\<close>)

lemma run_selected:
  "x \<in> set (selected (fold (updater_step w cfg) evs (updater_new d))) \<Longrightarrow> checked evs (fst x) (fst (snd x))"
proof (induction evs rule: rev_induct)
  case Nil
  then show ?case by (simp add: updater_new_def)
next
  case (snoc ev evs)
  then show ?case using step_selected [of x w cfg ev] by (auto simp: checked_def)
qed

lemma run_inv: "fw_inv w cfg (fold (updater_step w cfg) evs (updater_new d))"
proof (induction evs rule: rev_induct)
  case Nil
  show ?case by (simp add: fw_inv_def updater_new_def log_ok_def manager_ok_def omap_ok_def)
qed (simp add: updater_step_ok)

text \<open>An entry that a check of the run chose: newest of those that its catalogue offers, newer than what ran, and permitted.\<close>

definition chosen_by_check :: "AppConfig \<Rightarrow> fw_event list \<Rightarrow> FirmwareEntry \<Rightarrow> bool" where
  "chosen_by_check cfg evs e \<longleftrightarrow> (\<exists>current catalogue. checked evs current catalogue \<and> e \<in> set catalogue \<and>
     eligible cfg current e \<and> (\<forall>e'\<in>set catalogue. eligible cfg current e' \<longrightarrow> \<not> isNewerThan (fe_version e') (fe_version e)))"

lemma selected_chosen:
  assumes "was_selected (selected (fold (updater_step w cfg) evs (updater_new d))) e"
  shows "chosen_by_check cfg evs e"
proof -
  let ?u = "fold (updater_step w cfg) evs (updater_new d)"
  from assms obtain current catalogue where s: "(current, catalogue, e) \<in> set (selected ?u)" by (auto simp: was_selected_def)
  with run_selected [OF this] have "checked evs current catalogue" by simp
  moreover have "e \<in> set (selectCandidates catalogue current cfg)"
    using run_inv [of w cfg evs d] s by (fastforce simp: fw_inv_def log_ok_def)
  ultimately show ?thesis unfolding chosen_by_check_def using selected_newest [of catalogue current cfg] by blast
qed

text \<open>
  (C31) Whatever the order in which checks, transfers, posted registrations, installations and their
  activations interleave and whatever D-Bus, the server and the transfers return, every image
  that is registered, and every one that was announced by a signal, was chosen by a check of this run:
  the version running and the catalogue that this check had read contain it as an entry newer than the
  running version, permitted by the lists, and no newer such entry is in that catalogue. It is
  registered under its version with the path its URL determines. The property
  AvailableFirmware lists the registered versions, sorted and without repetition.
\<close>

theorem registered_images_eligible:
  assumes "u = fold (updater_step w cfg) evs (updater_new d)"
  shows "(\<forall>(v, rec)\<in>set (records (up_manager u)). v = fe_version (fr_entry rec) \<and>
      fr_localPath rec = localFilePath w (downloadDir cfg) (fr_entry rec) \<and> chosen_by_check cfg evs (fr_entry rec)) \<and>
    (\<forall>(v, p)\<in>set (signals (up_manager u)). \<exists>e. v = fe_version e \<and>
       p = localFilePath w (downloadDir cfg) e \<and> chosen_by_check cfg evs e) \<and>
    availableFirmware (up_manager u) = map fst (records (up_manager u)) \<and>
    sorted_wrt (<) (availableFirmware (up_manager u))"
proof -
  have i: "fw_inv w cfg u" using assms by (simp add: run_inv)
  have sel: "chosen_by_check cfg evs e" if "was_selected (selected u) e" for e
    using that assms by (auto intro: selected_chosen)
  have "\<forall>kv\<in>set (records (up_manager u)). record_ok w cfg (selected u) kv"
    "\<forall>vp\<in>set (signals (up_manager u)). signal_ok w cfg (selected u) vp"
    "sorted_wrt (<) (map fst (records (up_manager u)))"
    "availableFirmware (up_manager u) = map fst (records (up_manager u))"
    using i by (simp_all add: fw_inv_def manager_ok_def omap_ok_def)
  with sel show ?thesis by (fastforce simp: record_ok_def signal_ok_def image_ok_def)
qed


section \<open>An example, and what is not checked\<close>

definition demo_world :: fw_world where
  "demo_world = \<lparr>parse_uri = (\<lambda>s. Some \<lparr>url_host = ''h'', url_port = None, url_path = s\<rparr>),
     sha256 = (\<lambda>b. if b = [1, 2, 3] then ''good'' else ''bad''), file_readable = (\<lambda>p. True), mkdir_ok = (\<lambda>p. True)\<rparr>"

definition demo_fw_config :: AppConfig where
  "demo_fw_config = \<lparr>serverHost = ''h'', serverPort = ''443'', cataloguePath = ''/c'', auth = \<lparr>username = '''', password = ''''\<rparr>,
     pollIntervalSeconds = 0, pollAtStartup = True, deniedVersions = [], allowedVersions = [], downloadDir = ''/d'',
     downloadTimeoutSeconds = 1800\<rparr>"

definition demo_entry :: FirmwareEntry where
  "demo_entry = \<lparr>fe_version = ''2.1.0'', imageUrl = ''/fw/image.tar'', checksum = ''good'', releaseDate = '''', description = ''''\<rparr>"

definition demo_objects :: managed_objects where
  "demo_objects = [(''/o'', [(activationIface, [(''Activation'', Some activeState)]), (versionIface, [(''Version'', Some ''2.0'')])])]"

definition demo_run :: "byte list \<Rightarrow> fw_event list" where
  "demo_run b = [Check (Inr demo_objects) (None, [demo_entry]), Transfer_bytes 0 b, Transfer_done 0 None, Run_posted]"

lemma demo_run_records:
  "records (up_manager (fold (updater_step demo_world demo_fw_config) (demo_run b) (updater_new (\<lambda>p. None)))) =
     [(''2.1.0'', FirmwareRecord_new demo_entry ''/d/image.tar'')] \<and>
   up_disk (fold (updater_step demo_world demo_fw_config) (demo_run b) (updater_new (\<lambda>p. None))) ''/d/image.tar'' = Some b"
proof -
  have s: "selectCandidates [demo_entry] ''2.0'' demo_fw_config = [demo_entry]" by code_simp
  have v: "getCurrentFwVersion (Inr demo_objects) = (None, ''2.0'')" by code_simp
  have p: "localFilePath demo_world ''/d'' demo_entry = ''/d/image.tar''" by code_simp
  have d: "downloadDir demo_fw_config = ''/d''" by (simp add: demo_fw_config_def)
  have st: "download_start demo_world demo_entry ''/d'' (\<lambda>p. None) =
      (Inr (''/d/image.tar'', image_request \<lparr>url_host = ''h'', url_port = None, url_path = ''/fw/image.tar''\<rparr>), \<lambda>p. None)"
    by (simp add: download_start_def p Let_def) (simp add: demo_world_def demo_entry_def)
  show ?thesis
    by (simp add: demo_run_def runCheckCycle_def v s d st start_candidate_def updater_new_def hasVersion_def
        download_end_def drop_nth_def onFirmwareDownloaded_def emitFirmwareAvailable_def
        updateAvailableFirmware_def Let_def)
      (simp add: demo_entry_def)
qed

theorem registered_images_eligible_witness:
  "chosen_by_check demo_fw_config (demo_run [1, 2, 3]) demo_entry \<and>
     records (up_manager (fold (updater_step demo_world demo_fw_config) (demo_run [1, 2, 3]) (updater_new (\<lambda>p. None))))
       = [(''2.1.0'', FirmwareRecord_new demo_entry ''/d/image.tar'')]"
proof -
  let ?u = "fold (updater_step demo_world demo_fw_config) (demo_run [1, 2, 3]) (updater_new (\<lambda>p. None))"
  note r = demo_run_records [of "[1, 2, 3]", THEN conjunct1]
  have "fr_entry (FirmwareRecord_new demo_entry ''/d/image.tar'') = demo_entry" by (simp add: FirmwareRecord_new_def)
  with registered_images_eligible [of ?u demo_world demo_fw_config "demo_run [1, 2, 3]" "\<lambda>p. None"] r show ?thesis by auto
qed

text \<open>
  The digest of the catalogue is compared only with a file that was there before the download:
  an image that arrives corrupted, or altered on the way (the certificate of the server is not
  verified either), is registered and announced.
\<close>

theorem corrupt_image_registered:
  "let u = fold (updater_step demo_world demo_fw_config) (demo_run [6, 6, 6]) (updater_new (\<lambda>p. None)) in
   hasVersion ''2.1.0'' (up_manager u) \<and>
   sha256File demo_world (up_disk u) ''/d/image.tar'' \<noteq> checksum demo_entry \<and>
   triggerInstall ''2.1.0'' (up_manager u) = Some ''/d/image.tar''"
  using demo_run_records [of "[6, 6, 6]"]
  by (simp add: Let_def hasVersion_def triggerInstall_def sha256File_def FirmwareRecord_new_def)
    (simp add: demo_world_def demo_entry_def)

text \<open>
  Without a digest any file at the destination counts as the image, also one that another check
  is still writing.
\<close>

lemma partial_file_accepted:
  assumes "checksum e = []" "d (localFilePath w dir e) = Some part"
  shows "download_start w e dir d =
    (Inl \<lparr>dr_ec = None, dr_localPath = localFilePath w dir e, dr_version = fe_version e\<rparr>, d)"
  using assms by (simp add: download_start_def Let_def)

text \<open>Two versions can have the same object path.\<close>

lemma object_paths_collide:
  "fr_object (FirmwareRecord_new e p) = fr_object (FirmwareRecord_new (e\<lparr>fe_version := sanitise (fe_version e)\<rparr>) p)"
  by (simp add: FirmwareRecord_new_def sanitise_def)

text \<open>A suffix is ignored: a release candidate and its release count as the same version.\<close>

lemma release_not_newer: "\<not> isNewerThan ''2.1.0'' ''2.1.0-rc1''"
  by code_simp


section \<open>The installation coroutine\<close>

text \<open>
  \<open>invokeSoftwareUpdate\<close>, given how its steps end: the copy into the staging directory, the
  announcement of the activation object (\<open>None\<close>: no signal within 30 seconds), the services that
  own it, setting the requested activation, and what the watcher of the activation state reports.
  The result says where the image was staged, which object was asked to activate, and the manager.
\<close>

record install_outcome =
  copy_failed :: bool
  announced :: "(string \<times> string list) option"
  owners :: "errc + string list"
  set_failed :: bool
  states :: "(error_code \<times> string option) list"

definition requestedActive :: string where
  "requestedActive = ''xyz.openbmc_project.Software.Activation.RequestedActivations.Active''"

record install_effects =
  staged :: "(string \<times> string) option"
  requested :: "(string \<times> string \<times> string) option"
  after :: fw_manager

text \<open>\<open>watch\<close> calls the callback for every report until it returns false.\<close>

fun watch_activation :: "string \<Rightarrow> (error_code \<times> string option) list \<Rightarrow> fw_manager \<Rightarrow> fw_manager" where
  "watch_activation version [] m = m"
| "watch_activation version ((ec, st) # reports) m = (case activation_callback version ec st m of
     (go_on, m1) \<Rightarrow> if go_on then watch_activation version reports m1 else m1)"

definition invokeSoftwareUpdate :: "install_outcome \<Rightarrow> string \<Rightarrow> string \<Rightarrow> fw_manager \<Rightarrow> install_effects" where
  "invokeSoftwareUpdate out version localPath m =
     (let dest = ''/tmp/images/'' @ path_filename localPath; stop = \<lparr>staged = None, requested = None, after = m\<rparr> in
      if copy_failed out then stop
      else let put = stop\<lparr>staged := Some (localPath, dest)\<rparr> in
      case announced out of
        None \<Rightarrow> put
      | Some (newObjPath, interfaces) \<Rightarrow>
          if activationIface \<notin> set interfaces then put
          else case owners out of
            Inl objEc \<Rightarrow> put
          | Inr [] \<Rightarrow> put
          | Inr (service # more_services) \<Rightarrow>
              if set_failed out then put
              else put\<lparr>requested := Some (service, newObjPath, requestedActive),
                       after := watch_activation version (states out) m\<rparr>)"

lemma watch_activation_result:
  "watch_activation version reports m = m \<or> watch_activation version reports m = removeFirmware version m \<and>
     (\<exists>pre st post. reports = pre @ (None, Some st) # post \<and> ends_with st ''Active'')"
proof (induction reports)
  case (Cons r reports)
  obtain ec st where r: "r = (ec, st)" by (cases r)
  consider (active) x where "ec = None" "st = Some x" "ends_with x ''Active''"
    | (stop) "activation_callback version ec st m = (False, m)" | (go) "activation_callback version ec st m = (True, m)"
    by (cases ec; cases st; cases "ends_with (the st) ''Active''"; cases "ends_with (the st) ''Failed'' \<or> ends_with (the st) ''Invalid''")
      (simp_all add: activation_callback_def)
  then show ?case
  proof cases
    case active
    then have "watch_activation version (r # reports) m = removeFirmware version m"
      by (simp add: r activation_callback_def)
    moreover have "r # reports = [] @ (None, Some x) # reports" using active r by simp
    ultimately show ?thesis using active(3) by blast
  next
    case stop
    then show ?thesis by (simp add: r)
  next
    case go
    then have "watch_activation version (r # reports) m = watch_activation version reports m" by (simp add: r)
    with Cons show ?thesis by (metis append_Cons)
  qed
qed simp

text \<open>
  An image leaves the list of available images only after it was copied, an activation object
  was announced and asked to become active, and the object reported that it is; every other
  outcome leaves the manager as it was, and other versions are never touched.
\<close>

theorem install_removes_only_when_active:
  assumes "r = invokeSoftwareUpdate out version localPath m" "records (after r) \<noteq> records m"
  shows "staged r = Some (localPath, ''/tmp/images/'' @ path_filename localPath) \<and>
    (\<exists>service newObjPath. requested r = Some (service, newObjPath, requestedActive)) \<and>
    (\<exists>pre st post. states out = pre @ (None, Some st) # post \<and> ends_with st ''Active'') \<and>
    after r = removeFirmware version m"
proof -
  note body = assms(1) [unfolded invokeSoftwareUpdate_def Let_def]
  have "requested r \<noteq> None" "after r = watch_activation version (states out) m"
    "staged r = Some (localPath, ''/tmp/images/'' @ path_filename localPath)"
    using body assms(2) by (auto split: if_splits option.splits sum.splits list.splits)
  moreover have "requested r = None \<or> (\<exists>service newObjPath. requested r = Some (service, newObjPath, requestedActive))"
    using body by (auto split: if_splits option.splits sum.splits list.splits)
  ultimately show ?thesis using watch_activation_result [of version "states out" m] assms(2) by auto
qed

end
