(* ===== verification/I2c.thy ===== *)
theory I2c
  imports Prelude Complex_Main "HOL-Library.List_Lexorder" "HOL-Library.Char_ord" "HOL-Library.Multiset"
begin

text \<open>
  The I2C client of \<open>include/i2c_client.hpp\<close> (all of it, with \<open>file_descriptor.hpp\<close>), the D-Bus
  service of \<open>examples/i2c_service/i2c_service.cpp\<close> on top of it, and the command line parser the
  programs share (\<open>command_line_parser.hpp\<close>).

  The operations of a client are coroutines that suspend at every transfer and every wait, and
  the handlers of the service run one inside the other (each polls the event loop while it waits
  for its own coroutine). A coroutine is therefore a resumption: what it does next, and how it
  goes on for every answer. The service runs any number of them, one operation at a time, in any
  order. System calls are a parameter; their answers are logged in the order they are made.
\<close>

section \<open>Coroutines of the client\<close>

datatype I2CError =
    I2C_Success | OpenFailed | IoctlFailed | WriteFailed | ReadFailed
  | InvalidAddress | DeviceNotPresent | I2C_Timeout | RetryExhausted

text \<open>
  \<open>WriteSome\<close> and \<open>ReadSome\<close> are \<open>async_write_some\<close> and \<open>async_read_some\<close> on the descriptor of the
  client, \<open>Sleep\<close> is a wait in milliseconds.
\<close>

datatype 'r prog =
    Ret 'r
  | WriteSome "byte list" "error_code \<times> nat \<Rightarrow> 'r prog"
  | ReadSome nat "error_code \<times> byte list \<Rightarrow> 'r prog"
  | Sleep nat "'r prog"

primrec pbind :: "'a prog \<Rightarrow> ('a \<Rightarrow> 'b prog) \<Rightarrow> 'b prog" where
  "pbind (Ret r) f = f r"
| "pbind (WriteSome d k) f = WriteSome d (\<lambda>a. pbind (k a) f)"
| "pbind (ReadSome n k) f = ReadSome n (\<lambda>a. pbind (k a) f)"
| "pbind (Sleep ms p) f = Sleep ms (pbind p f)"

text \<open>A result of type \<open>I2CResult\<close> that is returned at once when it is an error.\<close>

definition pmap :: "('a \<Rightarrow> 'b) \<Rightarrow> 'a prog \<Rightarrow> 'b prog" where
  "pmap f p = pbind p (\<lambda>a. Ret (f a))"

definition ptry :: "('e + 'a) prog \<Rightarrow> ('a \<Rightarrow> ('e + 'b) prog) \<Rightarrow> ('e + 'b) prog" where
  "ptry p f = pbind p (\<lambda>r. case r of Inl e \<Rightarrow> Ret (Inl e) | Inr a \<Rightarrow> f a)"

record i2c_client =
  devicePath :: string
  slaveAddress :: "16 word"
  maxRetries :: int
  client_fd :: "nat option"
  client_stream :: "nat option"

definition I2CClient :: "string \<Rightarrow> 16 word \<Rightarrow> i2c_client" where
  "I2CClient path addr = \<lparr>devicePath = path, slaveAddress = addr, maxRetries = 6,
     client_fd = None, client_stream = None\<rparr>"

definition isOpen :: "i2c_client \<Rightarrow> bool" where
  "isOpen c \<longleftrightarrow> client_fd c \<noteq> None \<and> client_stream c \<noteq> None"

text \<open>
  The retry loops: \<open>attempt\<close> counts the attempts made, \<open>left\<close> those that may still follow the
  next one.
\<close>

fun write_attempts :: "byte list \<Rightarrow> nat \<Rightarrow> nat \<Rightarrow> (I2CError + nat) prog" where
  "write_attempts data attempt left = WriteSome data (\<lambda>(ec, bytesWritten).
     if ec = None \<and> bytesWritten = length data then Ret (Inr bytesWritten)
     else case left of
       0 \<Rightarrow> Ret (Inl RetryExhausted)
     | Suc more_left \<Rightarrow> Sleep (100 * 2 ^ attempt) (write_attempts data (Suc attempt) more_left))"

declare write_attempts.simps [simp del]

definition i2c_write :: "i2c_client \<Rightarrow> byte list \<Rightarrow> (I2CError + nat) prog" where
  "i2c_write c data =
     (if \<not> isOpen c then Ret (Inl OpenFailed)
      else if data = [] then Ret (Inr 0)
      else if maxRetries c \<le> 0 then Ret (Inl RetryExhausted)
      else write_attempts data 0 (nat (maxRetries c) - 1))"

fun read_attempts :: "nat \<Rightarrow> nat \<Rightarrow> nat \<Rightarrow> (I2CError + byte list) prog" where
  "read_attempts bufsize attempt left = ReadSome bufsize (\<lambda>(ec, bytes).
     if ec = None \<and> length bytes > 0 then Ret (Inr bytes)
     else case left of
       0 \<Rightarrow> Ret (Inl RetryExhausted)
     | Suc more_left \<Rightarrow> Sleep (100 * 2 ^ attempt) (read_attempts bufsize (Suc attempt) more_left))"

declare read_attempts.simps [simp del]

text \<open>\<open>read\<close> into a buffer of the given size; the result is the part of it that was filled.\<close>

definition i2c_read :: "i2c_client \<Rightarrow> nat \<Rightarrow> (I2CError + byte list) prog" where
  "i2c_read c bufsize =
     (if \<not> isOpen c then Ret (Inl OpenFailed)
      else if bufsize = 0 then Ret (Inr [])
      else if maxRetries c \<le> 0 then Ret (Inl RetryExhausted)
      else read_attempts bufsize 0 (nat (maxRetries c) - 1))"

definition writeWithValidation :: "i2c_client \<Rightarrow> byte list \<Rightarrow> bool option \<Rightarrow> (I2CError + nat) prog" where
  "writeWithValidation c data validate = ptry (i2c_write c data) (\<lambda>n.
     if validate = Some False then Ret (Inl WriteFailed) else Ret (Inr n))"

text \<open>A trivially copyable type: its size and its bytes in memory.\<close>

record 't pod =
  sizeof :: nat
  to_bytes :: "'t \<Rightarrow> byte list"
  of_bytes :: "byte list \<Rightarrow> 't"

definition readTyped :: "'t pod \<Rightarrow> i2c_client \<Rightarrow> (I2CError + 't) prog" where
  "readTyped T c = ptry (i2c_read c (sizeof T)) (\<lambda>bytes.
     if length bytes \<noteq> sizeof T then Ret (Inl ReadFailed) else Ret (Inr (of_bytes T bytes)))"

definition writeTyped :: "'t pod \<Rightarrow> i2c_client \<Rightarrow> 't \<Rightarrow> (I2CError + nat) prog" where
  "writeTyped T c v = i2c_write c (to_bytes T v)"

text \<open>\<open>std::byteswap\<close> reverses the bytes; \<open>swap\<close> says that the wanted order is not the native one.\<close>

definition byteswap :: "'t pod \<Rightarrow> 't \<Rightarrow> 't" where
  "byteswap T v = of_bytes T (rev (to_bytes T v))"

definition readInteger :: "'t pod \<Rightarrow> bool \<Rightarrow> i2c_client \<Rightarrow> (I2CError + 't) prog" where
  "readInteger T swap c = ptry (readTyped T c) (\<lambda>v. Ret (Inr (if swap then byteswap T v else v)))"

definition writeInteger :: "'t pod \<Rightarrow> bool \<Rightarrow> i2c_client \<Rightarrow> 't \<Rightarrow> (I2CError + nat) prog" where
  "writeInteger T swap c v = writeTyped T c (if swap then byteswap T v else v)"

definition readRegister :: "'t pod \<Rightarrow> i2c_client \<Rightarrow> byte \<Rightarrow> (I2CError + 't) prog" where
  "readRegister T c reg = ptry (i2c_write c [reg]) (\<lambda>_. readTyped T c)"

definition writeRegister :: "'t pod \<Rightarrow> i2c_client \<Rightarrow> byte \<Rightarrow> 't \<Rightarrow> (I2CError + nat) prog" where
  "writeRegister T c reg v = i2c_write c (reg # to_bytes T v)"

definition offset_bytes :: "16 word \<Rightarrow> byte list" where
  "offset_bytes off = [ucast (drop_bit 8 off), ucast off]"

definition readEEPROM :: "'t pod \<Rightarrow> i2c_client \<Rightarrow> 16 word \<Rightarrow> (I2CError + 't) prog" where
  "readEEPROM T c off = ptry (i2c_write c (offset_bytes off)) (\<lambda>_. readTyped T c)"

definition writeEEPROM :: "'t pod \<Rightarrow> i2c_client \<Rightarrow> 16 word \<Rightarrow> 't \<Rightarrow> (I2CError + nat) prog" where
  "writeEEPROM T c off v = i2c_write c (offset_bytes off @ to_bytes T v)"

text \<open>The two aliases for vital product data, and the sensors (\<open>scale\<close> is the product in the result type).\<close>

definition readVPD :: "'t pod \<Rightarrow> i2c_client \<Rightarrow> 16 word \<Rightarrow> (I2CError + 't) prog" where
  "readVPD T c off = readEEPROM T c off"

definition writeVPD :: "'t pod \<Rightarrow> i2c_client \<Rightarrow> 16 word \<Rightarrow> 't \<Rightarrow> (I2CError + nat) prog" where
  "writeVPD T c off v = writeEEPROM T c off v"

definition uint16 :: "16 word pod" where
  "uint16 = \<lparr>sizeof = 2, to_bytes = (\<lambda>v. [ucast v, ucast (drop_bit 8 v)]),
     of_bytes = (\<lambda>bs. ucast (bs ! 0) + push_bit 8 (ucast (bs ! 1)))\<rparr>"

definition readSensor :: "(16 word \<Rightarrow> 'f) \<Rightarrow> i2c_client \<Rightarrow> byte \<Rightarrow> (I2CError + 'f) prog" where
  "readSensor scale c reg = ptry (readRegister uint16 c reg) (\<lambda>raw. Ret (Inr (scale raw)))"

text \<open>Sixteen steps per degree: the product with \<open>0.0625f\<close> is exact.\<close>

definition readTemperature :: "i2c_client \<Rightarrow> byte \<Rightarrow> (I2CError + rat) prog" where
  "readTemperature c reg = readSensor (\<lambda>raw. of_nat (unat raw) / 16) c reg"

text \<open>\<open>readRegisters\<close> and \<open>readRegisterBlock\<close> are the same loop; the register number wraps around.\<close>

fun readRegisterBlock :: "'t pod \<Rightarrow> i2c_client \<Rightarrow> byte \<Rightarrow> nat \<Rightarrow> (I2CError + 't list) prog" where
  "readRegisterBlock T c reg 0 = Ret (Inr [])"
| "readRegisterBlock T c reg (Suc n) = ptry (readRegister T c reg) (\<lambda>v.
     ptry (readRegisterBlock T c (reg + 1) n) (\<lambda>vs. Ret (Inr (v # vs))))"


section \<open>System calls\<close>

text \<open>
  The system calls; a transfer is logged with the device and address it is meant for.
\<close>

record 'b i2c_os =
  os_open :: "string \<Rightarrow> 'b \<Rightarrow> nat option \<times> 'b"
  os_set_slave :: "nat \<Rightarrow> 16 word \<Rightarrow> 'b \<Rightarrow> bool \<times> 'b"
  os_write_some :: "nat \<Rightarrow> byte list \<Rightarrow> 'b \<Rightarrow> (error_code \<times> nat) \<times> 'b"
  os_read_some :: "nat \<Rightarrow> nat \<Rightarrow> 'b \<Rightarrow> (error_code \<times> byte list) \<times> 'b"
  os_close :: "nat \<Rightarrow> 'b \<Rightarrow> 'b"

type_synonym i2c_target = "string \<times> 16 word"

datatype syscall =
    Sys_open string "nat option"
  | Sys_slave nat "16 word" bool
  | Sys_write i2c_target nat "byte list" error_code nat
  | Sys_read i2c_target nat nat error_code "byte list"
  | Sys_close nat
  | Sys_sleep nat

record 'b i2c_world =
  bus :: 'b
  calls :: "syscall list"

definition do_open :: "'b i2c_os \<Rightarrow> string \<Rightarrow> 'b i2c_world \<Rightarrow> nat option \<times> 'b i2c_world" where
  "do_open os path w = (case os_open os path (bus w) of (r, b) \<Rightarrow>
     (r, w\<lparr>bus := b, calls := calls w @ [Sys_open path r]\<rparr>))"

definition do_slave :: "'b i2c_os \<Rightarrow> nat \<Rightarrow> 16 word \<Rightarrow> 'b i2c_world \<Rightarrow> bool \<times> 'b i2c_world" where
  "do_slave os fd addr w = (case os_set_slave os fd addr (bus w) of (r, b) \<Rightarrow>
     (r, w\<lparr>bus := b, calls := calls w @ [Sys_slave fd addr r]\<rparr>))"

definition do_close :: "'b i2c_os \<Rightarrow> nat \<Rightarrow> 'b i2c_world \<Rightarrow> 'b i2c_world" where
  "do_close os fd w = w\<lparr>bus := os_close os fd (bus w), calls := calls w @ [Sys_close fd]\<rparr>"

text \<open>\<open>FileDescriptor::reset\<close>: the old descriptor is closed.\<close>

definition fd_reset :: "'b i2c_os \<Rightarrow> nat option \<Rightarrow> 'b i2c_world \<Rightarrow> 'b i2c_world" where
  "fd_reset os old w = (case old of None \<Rightarrow> w | Some fd \<Rightarrow> do_close os fd w)"

text \<open>A \<open>stream_descriptor\<close> owns its descriptor: destroying or replacing it closes that too.\<close>

definition i2c_open :: "'b i2c_os \<Rightarrow> i2c_client \<Rightarrow> 'b i2c_world \<Rightarrow> I2CError \<times> i2c_client \<times> 'b i2c_world" where
  "i2c_open os c w = (case do_open os (devicePath c) w of
     (None, w1) \<Rightarrow> (OpenFailed, c, w1)
   | (Some fd, w1) \<Rightarrow>
       let w2 = fd_reset os (client_fd c) w1; c1 = c\<lparr>client_fd := Some fd\<rparr> in
       case do_slave os fd (slaveAddress c) w2 of
         (False, w3) \<Rightarrow> (IoctlFailed, c1, w3)
       | (True, w3) \<Rightarrow> (I2C_Success, c1\<lparr>client_stream := Some fd\<rparr>, fd_reset os (client_stream c) w3))"

definition i2c_close :: "'b i2c_os \<Rightarrow> i2c_client \<Rightarrow> 'b i2c_world \<Rightarrow> i2c_client \<times> 'b i2c_world" where
  "i2c_close os c w = (c\<lparr>client_fd := None, client_stream := None\<rparr>,
     fd_reset os (client_fd c) (fd_reset os (client_stream c) w))"

text \<open>One operation of a coroutine on the descriptor \<open>fd\<close>.\<close>

primrec resume :: "'b i2c_os \<Rightarrow> i2c_target \<Rightarrow> nat \<Rightarrow> 'r prog \<Rightarrow> 'b i2c_world \<Rightarrow> 'r prog \<times> 'b i2c_world" where
  "resume os who fd (Ret r) w = (Ret r, w)"
| "resume os who fd (WriteSome data k) w = (case os_write_some os fd data (bus w) of (a, b) \<Rightarrow>
     (k a, w\<lparr>bus := b, calls := calls w @ [Sys_write who fd data (fst a) (snd a)]\<rparr>))"
| "resume os who fd (ReadSome n k) w = (case os_read_some os fd n (bus w) of (a, b) \<Rightarrow>
     (k a, w\<lparr>bus := b, calls := calls w @ [Sys_read who fd n (fst a) (snd a)]\<rparr>))"
| "resume os who fd (Sleep ms p) w = (p, w\<lparr>calls := calls w @ [Sys_sleep ms]\<rparr>)"

text \<open>A coroutine run to its end with nothing in between.\<close>

primrec run :: "'b i2c_os \<Rightarrow> i2c_target \<Rightarrow> nat \<Rightarrow> 'r prog \<Rightarrow> 'b i2c_world \<Rightarrow> 'r \<times> 'b i2c_world" where
  "run os who fd (Ret r) w = (r, w)"
| "run os who fd (WriteSome data k) w = (case os_write_some os fd data (bus w) of (a, b) \<Rightarrow>
     run os who fd (k a) (w\<lparr>bus := b, calls := calls w @ [Sys_write who fd data (fst a) (snd a)]\<rparr>))"
| "run os who fd (ReadSome n k) w = (case os_read_some os fd n (bus w) of (a, b) \<Rightarrow>
     run os who fd (k a) (w\<lparr>bus := b, calls := calls w @ [Sys_read who fd n (fst a) (snd a)]\<rparr>))"
| "run os who fd (Sleep ms p) w = run os who fd p (w\<lparr>calls := calls w @ [Sys_sleep ms]\<rparr>)"

section \<open>The service\<close>

record PicCommand =
  header :: byte
  pic_command :: byte
  pic_checksum :: byte

unbundle bit_operations_syntax

definition create :: "byte \<Rightarrow> PicCommand" where
  "create cmd = \<lparr>header = 0xFF, pic_command = cmd, pic_checksum = NOT (0xFF XOR cmd)\<rparr>"

definition pic_pod :: "PicCommand pod" where
  "pic_pod = \<lparr>sizeof = 3, to_bytes = (\<lambda>p. [header p, pic_command p, pic_checksum p]),
     of_bytes = (\<lambda>bs. \<lparr>header = bs ! 0, pic_command = bs ! 1, pic_checksum = bs ! 2\<rparr>)\<rparr>"

definition byte_pod :: "byte pod" where
  "byte_pod = \<lparr>sizeof = 1, to_bytes = (\<lambda>b. [b]), of_bytes = (\<lambda>bs. bs ! 0)\<rparr>"

definition version_pod :: "byte list pod" where
  "version_pod = \<lparr>sizeof = 6, to_bytes = (\<lambda>bs. bs), of_bytes = (\<lambda>bs. bs)\<rparr>"

definition CMD_GET_VERSION :: byte where "CMD_GET_VERSION = 0x80"
definition CMD_READ_PAIRING_STATE :: byte where "CMD_READ_PAIRING_STATE = 0x81"
definition CMD_READ_CREDENTIALS_FLAG :: byte where "CMD_READ_CREDENTIALS_FLAG = 0x82"
definition CMD_BMC_PAIRED :: byte where "CMD_BMC_PAIRED = 0x50"

datatype i2c_request =
    Write "byte list" | Read "32 word" | WriteRead "byte list" "32 word"
  | ReadPairingState | WritePairingState | ReadCredentialsFlag | ReadVersion

datatype i2c_reply = Count "32 word" | Bytes "byte list" | Byte byte | Flag bool

text \<open>The value of a method for an error.\<close>

fun error_reply :: "i2c_request \<Rightarrow> i2c_reply" where
  "error_reply (Write _) = Count (- 1)"
| "error_reply (Read _) = Bytes []"
| "error_reply (WriteRead _ _) = Bytes []"
| "error_reply ReadPairingState = Byte 0xFF"
| "error_reply WritePairingState = Flag False"
| "error_reply ReadCredentialsFlag = Byte 0xFF"
| "error_reply ReadVersion = Bytes []"

definition on_error :: "i2c_reply \<Rightarrow> ('a \<Rightarrow> i2c_reply) \<Rightarrow> (I2CError + 'a) prog \<Rightarrow> i2c_reply prog" where
  "on_error bad good p = pmap (\<lambda>r. case r of Inl e \<Rightarrow> bad | Inr a \<Rightarrow> good a) p"

definition readPic :: "'t pod \<Rightarrow> byte \<Rightarrow> i2c_client \<Rightarrow> (I2CError + 't) prog" where
  "readPic T cmd c = ptry (writeTyped pic_pod c (create cmd)) (\<lambda>_. readTyped T c)"

text \<open>What a method does with an open client.\<close>

definition writeI2C :: "i2c_client \<Rightarrow> byte list \<Rightarrow> i2c_reply prog" where
  "writeI2C c data = on_error (Count (- 1)) (\<lambda>n. Count (of_nat n)) (i2c_write c data)"

definition readI2C :: "i2c_client \<Rightarrow> 32 word \<Rightarrow> i2c_reply prog" where
  "readI2C c numBytes = on_error (Bytes []) Bytes (i2c_read c (unat numBytes))"

definition writeReadI2C :: "i2c_client \<Rightarrow> byte list \<Rightarrow> 32 word \<Rightarrow> i2c_reply prog" where
  "writeReadI2C c data readBytes = on_error (Bytes []) Bytes
     (ptry (i2c_write c data) (\<lambda>_. i2c_read c (unat readBytes)))"

definition readPairingState :: "i2c_client \<Rightarrow> i2c_reply prog" where
  "readPairingState c = on_error (Byte 0xFF) Byte (readPic byte_pod CMD_READ_PAIRING_STATE c)"

definition writePairingState :: "i2c_client \<Rightarrow> i2c_reply prog" where
  "writePairingState c = on_error (Flag False) (\<lambda>_. Flag True) (writeTyped pic_pod c (create CMD_BMC_PAIRED))"

definition readCredentialsFlag :: "i2c_client \<Rightarrow> i2c_reply prog" where
  "readCredentialsFlag c = on_error (Byte 0xFF) Byte (readPic byte_pod CMD_READ_CREDENTIALS_FLAG c)"

definition readVersion :: "i2c_client \<Rightarrow> i2c_reply prog" where
  "readVersion c = on_error (Bytes []) Bytes (readPic version_pod CMD_GET_VERSION c)"

lemmas i2c_methods = writeI2C_def readI2C_def writeReadI2C_def readPairingState_def
  writePairingState_def readCredentialsFlag_def readVersion_def

text \<open>The methods registered on the D-Bus interface, each with its coroutine.\<close>

fun i2c_method :: "i2c_client \<Rightarrow> i2c_request \<Rightarrow> i2c_reply prog" where
  "i2c_method c (Write data) = writeI2C c data"
| "i2c_method c (Read numBytes) = readI2C c numBytes"
| "i2c_method c (WriteRead data readBytes) = writeReadI2C c data readBytes"
| "i2c_method c ReadPairingState = readPairingState c"
| "i2c_method c WritePairingState = writePairingState c"
| "i2c_method c ReadCredentialsFlag = readCredentialsFlag c"
| "i2c_method c ReadVersion = readVersion c"

text \<open>The requests under way keep their target, their descriptor and the rest of their coroutine.\<close>

record 'b i2c_service =
  clients :: "(string \<times> i2c_client) list"
  world :: "'b i2c_world"
  active :: "(i2c_target \<times> i2c_request \<times> nat \<times> i2c_reply prog) list"
  replies :: "(i2c_target \<times> i2c_request \<times> i2c_reply) list"

definition client_key :: "i2c_target \<Rightarrow> string" where
  "client_key who = fst who @ '':'' @ to_string (unat (snd who))"

definition getOrCreateClient :: "i2c_target \<Rightarrow> (string \<times> i2c_client) list \<Rightarrow> i2c_client \<times> (string \<times> i2c_client) list" where
  "getOrCreateClient who cs = (case map_of cs (client_key who) of
     Some c \<Rightarrow> (c, cs)
   | None \<Rightarrow> let c = I2CClient (fst who) (snd who) in (c, omap_put (client_key who) c cs))"

text \<open>
  The start of every method, up to its first suspension: the client is opened when it is not
  open. The coroutine of a method whose client cannot be opened answers at once.
\<close>

definition call_method :: "'b i2c_os \<Rightarrow> i2c_target \<Rightarrow> i2c_request \<Rightarrow> 'b i2c_service \<Rightarrow> 'b i2c_service" where
  "call_method os who req s = (case getOrCreateClient who (clients s) of (c, cs) \<Rightarrow>
     if isOpen c then s\<lparr>clients := cs, active := active s @ [(who, req, the (client_stream c), i2c_method c req)]\<rparr>
     else case i2c_open os c (world s) of (openResult, c1, w1) \<Rightarrow>
       let s1 = s\<lparr>clients := omap_put (client_key who) c1 cs, world := w1\<rparr> in
       if openResult \<noteq> I2C_Success then s1\<lparr>replies := replies s1 @ [(who, req, error_reply req)]\<rparr>
       else s1\<lparr>active := active s1 @ [(who, req, the (client_stream c1), i2c_method c1 req)]\<rparr>)"

text \<open>A coroutine that has nothing left to do sets its future: the handler returns the reply.\<close>

definition settle :: "nat \<Rightarrow> 'b i2c_service \<Rightarrow> 'b i2c_service" where
  "settle i s = (case active s ! i of (who, req, fd, p) \<Rightarrow> (case p of
     Ret r \<Rightarrow> s\<lparr>active := take i (active s) @ drop (Suc i) (active s), replies := replies s @ [(who, req, r)]\<rparr>
   | _ \<Rightarrow> s))"

definition resume_at :: "'b i2c_os \<Rightarrow> nat \<Rightarrow> 'b i2c_service \<Rightarrow> 'b i2c_service" where
  "resume_at os i s = (case active s ! i of (who, req, fd, p) \<Rightarrow>
     case resume os who fd p (world s) of (p1, w1) \<Rightarrow>
       settle i (s\<lparr>world := w1, active := (active s)[i := (who, req, fd, p1)]\<rparr>))"

datatype i2c_event = Call i2c_target i2c_request | Resume nat

fun i2c_step :: "'b i2c_os \<Rightarrow> i2c_event \<Rightarrow> 'b i2c_service \<Rightarrow> 'b i2c_service" where
  "i2c_step os (Call who req) s = call_method os who req s"
| "i2c_step os (Resume i) s = (if i < length (active s) then resume_at os i s else s)"

definition service_new :: "'b \<Rightarrow> 'b i2c_service" where
  "service_new b = \<lparr>clients = [], world = \<lparr>bus = b, calls = []\<rparr>, active = [], replies = []\<rparr>"


section \<open>Requests reach their own device\<close>

text \<open>
  What a descriptor stands for, as the log of system calls tells: the path it was opened with and
  the slave address that was set. An operating system returns only descriptors that are not open.
\<close>

type_synonym fd_table = "nat \<rightharpoonup> string \<times> 16 word option"

fun track :: "syscall \<Rightarrow> fd_table \<Rightarrow> fd_table" where
  "track (Sys_open p (Some fd)) t = t(fd \<mapsto> (p, None))"
| "track (Sys_slave fd a True) t = (case t fd of None \<Rightarrow> t | Some pa \<Rightarrow> t(fd \<mapsto> (fst pa, Some a)))"
| "track (Sys_close fd) t = t(fd := None)"
| "track _ t = t"

fun fresh_open :: "fd_table \<Rightarrow> syscall \<Rightarrow> bool" where
  "fresh_open t (Sys_open p (Some fd)) \<longleftrightarrow> t fd = None"
| "fresh_open t _ \<longleftrightarrow> True"

fun own_transfer :: "fd_table \<Rightarrow> syscall \<Rightarrow> bool" where
  "own_transfer t (Sys_write who fd data ec n) \<longleftrightarrow> t fd = Some (fst who, Some (snd who))"
| "own_transfer t (Sys_read who fd k ec bs) \<longleftrightarrow> t fd = Some (fst who, Some (snd who))"
| "own_transfer t _ \<longleftrightarrow> True"

fun all_calls :: "(fd_table \<Rightarrow> syscall \<Rightarrow> bool) \<Rightarrow> fd_table \<Rightarrow> syscall list \<Rightarrow> bool" where
  "all_calls P t [] \<longleftrightarrow> True"
| "all_calls P t (x # xs) \<longleftrightarrow> P t x \<and> all_calls P (track x t) xs"

abbreviation log_table :: "syscall list \<Rightarrow> fd_table" where
  "log_table sc \<equiv> fold track sc (\<lambda>_. None)"

lemma all_calls_append: "all_calls P t (xs @ ys) \<longleftrightarrow> all_calls P t xs \<and> all_calls P (fold track xs t) ys"
  by (induction xs arbitrary: t) auto

lemma colon_not_digit: "CHR '':'' \<notin> set (to_string n)"
  using to_string_digits [of n] by (auto simp: list_all_iff is_digit_def)

lemma client_key_inj: "client_key x = client_key y \<longleftrightarrow> x = y"
proof
  assume eq: "client_key x = client_key y"
  let ?d = "\<lambda>z :: i2c_target. to_string (unat (snd z))"
  have split: "takeWhile (\<lambda>c. c \<noteq> CHR '':'') (rev (client_key z)) = rev (?d z)"
    "dropWhile (\<lambda>c. c \<noteq> CHR '':'') (rev (client_key z)) = CHR '':'' # rev (fst z)" for z
    using colon_not_digit [of "unat (snd z)"]
    by (auto simp: client_key_def intro!: takeWhile_append_stop dropWhile_append_stop)
  from eq split [of x] split [of y] have "?d x = ?d y" "fst x = fst y" by simp_all
  then have "unat (snd x) = unat (snd y)" by (metis digits_value_to_string)
  with \<open>fst x = fst y\<close> show "x = y" by (simp add: prod_eq_iff word_unat_eq_iff)
qed simp

text \<open>
  The invariant: the clients are filed under their own keys, their descriptors stand for their
  device, no two clients share one, and a request under way uses the descriptor of its client.
\<close>

definition client_ok :: "fd_table \<Rightarrow> string \<Rightarrow> i2c_client \<Rightarrow> bool" where
  "client_ok t key c \<longleftrightarrow> key = client_key (devicePath c, slaveAddress c) \<and> maxRetries c = 6 \<and>
     (client_stream c = None \<or> client_stream c = client_fd c) \<and>
     (\<forall>fd. client_fd c = Some fd \<longrightarrow>
        (\<exists>a. t fd = Some (devicePath c, a) \<and> (client_stream c \<noteq> None \<longrightarrow> a = Some (slaveAddress c))))"

definition clients_ok :: "fd_table \<Rightarrow> (string \<times> i2c_client) list \<Rightarrow> bool" where
  "clients_ok t cs \<longleftrightarrow> (\<forall>key c. map_of cs key = Some c \<longrightarrow> client_ok t key c) \<and>
     (\<forall>k1 k2 c1 c2 fd. map_of cs k1 = Some c1 \<longrightarrow> map_of cs k2 = Some c2 \<longrightarrow>
        client_fd c1 = Some fd \<longrightarrow> client_fd c2 = Some fd \<longrightarrow> k1 = k2)"

definition active_ok :: "(string \<times> i2c_client) list \<Rightarrow> i2c_target \<times> i2c_request \<times> nat \<times> i2c_reply prog \<Rightarrow> bool" where
  "active_ok cs x \<longleftrightarrow> (case x of (who, req, fd, p) \<Rightarrow>
     \<exists>c. map_of cs (client_key who) = Some c \<and> client_stream c = Some fd)"

definition service_ok :: "'b i2c_service \<Rightarrow> bool" where
  "service_ok s \<longleftrightarrow> clients_ok (log_table (calls (world s))) (clients s) \<and>
     (\<forall>x\<in>set (active s). active_ok (clients s) x) \<and>
     all_calls own_transfer (\<lambda>_. None) (calls (world s))"

text \<open>A client that has just been opened, after its old descriptor was closed.\<close>

definition opened :: "nat \<Rightarrow> bool \<Rightarrow> i2c_client \<Rightarrow> i2c_client" where
  "opened fd ok c = c\<lparr>client_fd := Some fd, client_stream := (if ok then Some fd else None)\<rparr>"

lemma opened_fields [simp]:
  "client_fd (opened fd ok c) = Some fd" "client_stream (opened fd ok c) = (if ok then Some fd else None)"
  "devicePath (opened fd ok c) = devicePath c" "slaveAddress (opened fd ok c) = slaveAddress c"
  "maxRetries (opened fd ok c) = maxRetries c"
  by (simp_all add: opened_def)

definition open_calls :: "i2c_client \<Rightarrow> nat \<Rightarrow> bool \<Rightarrow> syscall list" where
  "open_calls c fd ok = Sys_open (devicePath c) (Some fd) #
     (case client_fd c of None \<Rightarrow> [] | Some old \<Rightarrow> [Sys_close old]) @ [Sys_slave fd (slaveAddress c) ok]"

lemma open_result:
  assumes "i2c_open os c w = (e, c1, w1)" "client_stream c = None"
  shows "e = OpenFailed \<and> c1 = c \<and> calls w1 = calls w @ [Sys_open (devicePath c) None] \<or>
    (\<exists>fd ok. e = (if ok then I2C_Success else IoctlFailed) \<and>
       c1 = opened fd ok c \<and> calls w1 = calls w @ open_calls c fd ok)"
proof (cases "os_open os (devicePath c) (bus w)")
  case (Pair r b)
  show ?thesis
  proof (cases r)
    case None
    with assms(1) Pair show ?thesis by (auto simp: i2c_open_def do_open_def)
  next
    case (Some fd)
    let ?w2 = "fd_reset os (client_fd c) (w\<lparr>bus := b, calls := calls w @ [Sys_open (devicePath c) (Some fd)]\<rparr>)"
    obtain ok b2 where slave: "os_set_slave os fd (slaveAddress c) (bus ?w2) = (ok, b2)" by fastforce
    have "calls ?w2 = calls w @ [Sys_open (devicePath c) (Some fd)] @ (case client_fd c of None \<Rightarrow> [] | Some old \<Rightarrow> [Sys_close old])"
      by (simp add: fd_reset_def do_close_def split: option.split)
    with assms Pair Some slave
    have "e = (if ok then I2C_Success else IoctlFailed) \<and>
       c1 = opened fd ok c \<and> calls w1 = calls w @ open_calls c fd ok"
      by (cases ok) (auto simp: i2c_open_def do_open_def do_slave_def fd_reset_def Let_def opened_def open_calls_def)
    then show ?thesis by blast
  qed
qed

lemma resume_effect:
  assumes "resume os who fd p w = (p1, w1)"
  shows "calls w1 = calls w \<or> (\<exists>data ec n. calls w1 = calls w @ [Sys_write who fd data ec n]) \<or>
    (\<exists>k ec bs. calls w1 = calls w @ [Sys_read who fd k ec bs]) \<or> (\<exists>ms. calls w1 = calls w @ [Sys_sleep ms])"
  using assms by (cases p) (auto split: prod.splits)

text \<open>A new or reopened client keeps the invariant.\<close>

lemma clients_ok_put:
  assumes "clients_ok t cs" "client_ok t' key c1"
    "\<And>k c. map_of cs k = Some c \<Longrightarrow> k \<noteq> key \<Longrightarrow> client_ok t' k c"
    "\<And>k c fd. map_of cs k = Some c \<Longrightarrow> k \<noteq> key \<Longrightarrow> client_fd c = Some fd \<Longrightarrow> client_fd c1 \<noteq> Some fd"
  shows "clients_ok t' (omap_put key c1 cs)"
  using assms unfolding clients_ok_def by (auto split: if_splits) metis+

lemma I2CClient_fields [simp]:
  "client_fd (I2CClient p a) = None" "client_stream (I2CClient p a) = None"
  "devicePath (I2CClient p a) = p" "slaveAddress (I2CClient p a) = a" "maxRetries (I2CClient p a) = 6"
  by (simp_all add: I2CClient_def)

lemma client_ok_unopened: "client_ok t (client_key who) (I2CClient (fst who) (snd who))"
  by (simp add: client_ok_def)

lemma getOrCreate_ok:
  assumes "getOrCreateClient who cs = (c, cs1)" "clients_ok t cs"
  shows "clients_ok t cs1 \<and> map_of cs1 (client_key who) = Some c \<and> (\<forall>k. k \<noteq> client_key who \<longrightarrow> map_of cs1 k = map_of cs k) \<and>
    (\<forall>x. map_of cs (client_key who) = Some x \<longrightarrow> x = c) \<and> (devicePath c, slaveAddress c) = who"
proof (cases "map_of cs (client_key who)")
  case None
  then have *: "c = I2CClient (fst who) (snd who)" "cs1 = omap_put (client_key who) c cs"
    using assms(1) by (auto simp: getOrCreateClient_def Let_def)
  have "clients_ok t cs1"
    unfolding *(2) using assms(2)
    by (intro clients_ok_put [OF assms(2)]) (auto simp: *(1) client_ok_unopened clients_ok_def)
  then show ?thesis using None * by simp
next
  case (Some x)
  then have "c = x" "cs1 = cs" using assms(1) by (auto simp: getOrCreateClient_def)
  moreover have "client_key (devicePath x, slaveAddress x) = client_key who"
    using assms(2) Some by (auto simp: clients_ok_def client_ok_def)
  ultimately show ?thesis using Some assms(2) by (simp add: client_key_inj)
qed

lemma client_ok_table:
  assumes "client_ok t key c" "\<And>x. client_fd c = Some x \<Longrightarrow> t' x = t x"
  shows "client_ok t' key c"
  using assms by (simp add: client_ok_def)


lemma open_calls_table:
  assumes "t fd = None" "client_ok t key c"
  shows "fold track (open_calls c fd ok) t fd = Some (devicePath c, if ok then Some (slaveAddress c) else None)"
    "x \<noteq> fd \<Longrightarrow> client_fd c \<noteq> Some x \<Longrightarrow> fold track (open_calls c fd ok) t x = t x"
    "all_calls own_transfer t (open_calls c fd ok)"
  using assms by (auto simp: open_calls_def client_ok_def split: option.splits) (cases ok; auto)+

lemma clients_ok_opened:
  assumes "clients_ok t cs" "map_of cs key = Some c" "t fd = None"
  shows "clients_ok (fold track (open_calls c fd ok) t) (omap_put key (opened fd ok c) cs)"
proof (rule clients_ok_put [OF assms(1)])
  let ?t = "fold track (open_calls c fd ok) t"
  have ok: "client_ok t key c" using assms(1,2) by (simp add: clients_ok_def)
  note tab = open_calls_table [where t = t, OF assms(3) ok, where ok = ok]
  show "client_ok ?t key (opened fd ok c)" using ok tab(1) by (auto simp: client_ok_def)
  fix k c' assume k: "map_of cs k = Some c'" "k \<noteq> key"
  have c': "client_ok t k c'" using assms(1) k(1) by (simp add: clients_ok_def)
  have ne: "x \<noteq> fd \<and> client_fd c \<noteq> Some x" if "client_fd c' = Some x" for x
  proof -
    have "t x \<noteq> None" using that c' by (auto simp: client_ok_def)
    moreover have "client_fd c \<noteq> Some x" using that assms(1,2) k unfolding clients_ok_def by blast
    ultimately show ?thesis using assms(3) by auto
  qed
  show "client_ok ?t k c'" using c' ne tab(2) by (intro client_ok_table [OF c']) auto
  fix x assume "client_fd c' = Some x"
  with ne show "client_fd (opened fd ok c) \<noteq> Some x" by auto
qed

lemma active_ok_put:
  assumes "active_ok cs x" "\<And>c. map_of cs key = Some c \<Longrightarrow> client_stream c = None"
  shows "active_ok (omap_put key c1 cs) x"
  using assms by (cases x) (force simp: active_ok_def)

lemma call_method_ok:
  assumes "service_ok s" "all_calls fresh_open (\<lambda>_. None) (calls (world (call_method os who req s)))"
  shows "service_ok (call_method os who req s)"
proof -
  let ?t = "log_table (calls (world s))"
  obtain c cs where g: "getOrCreateClient who (clients s) = (c, cs)" by fastforce
  have cl: "clients_ok ?t (clients s)" and act: "\<forall>x\<in>set (active s). active_ok (clients s) x"
    and own: "all_calls own_transfer (\<lambda>_. None) (calls (world s))"
    using assms(1) by (simp_all add: service_ok_def)
  note gc = getOrCreate_ok [OF g cl]
  have act1: "\<forall>x\<in>set (active s). active_ok cs x"
  proof
    fix x assume "x \<in> set (active s)"
    with act have "active_ok (clients s) x" by simp
    then obtain who' req' fd' p' c' where x: "x = (who', req', fd', p')"
      "map_of (clients s) (client_key who') = Some c'" "client_stream c' = Some fd'"
      by (cases x) (auto simp: active_ok_def)
    then have "map_of cs (client_key who') = Some c'" using gc by (cases "client_key who' = client_key who") auto
    with x show "active_ok cs x" by (simp add: active_ok_def)
  qed
  have stream: "client_stream c = None \<or> client_stream c = client_fd c"
    using gc by (auto simp: clients_ok_def client_ok_def)
  show ?thesis
  proof (cases "isOpen c")
    case True
    then have "active_ok cs (who, req, the (client_stream c), i2c_method c req)"
      using gc by (auto simp: active_ok_def isOpen_def)
    with True g gc act1 own show ?thesis by (simp add: call_method_def service_ok_def)
  next
    case False
    with stream have none: "client_stream c = None" by (auto simp: isOpen_def)
    obtain e c1 w1 where o1: "i2c_open os c (world s) = (e, c1, w1)" by (metis prod_cases3)
    have w: "world (call_method os who req s) = w1" using False g o1 by (simp add: call_method_def Let_def)
    from open_result [OF o1 none] consider
        (failed) "e = OpenFailed" "c1 = c" "calls w1 = calls (world s) @ [Sys_open (devicePath c) None]"
      | (succ) fd ok where "e = (if ok then I2C_Success else IoctlFailed)" "c1 = opened fd ok c"
          "calls w1 = calls (world s) @ open_calls c fd ok"
      by blast
    then show ?thesis
    proof cases
      case failed
      have "clients_ok ?t (omap_put (client_key who) c cs)"
        using gc unfolding clients_ok_def by (auto split: if_splits)
      moreover have "\<forall>x\<in>set (active s). active_ok (omap_put (client_key who) c cs) x"
        using act1 gc none by (auto intro: active_ok_put)
      ultimately show ?thesis
        using False g o1 failed own by (simp add: call_method_def service_ok_def Let_def all_calls_append)
    next
      case succ
      have "?t fd = None" using assms(2) succ(3) by (simp add: w all_calls_append open_calls_def)
      moreover have co: "client_ok ?t (client_key who) c" using gc by (simp add: clients_ok_def)
      ultimately have "all_calls own_transfer (\<lambda>_. None) (calls w1)"
        "clients_ok (log_table (calls w1)) (omap_put (client_key who) (opened fd ok c) cs)"
        using own gc clients_ok_opened [of ?t cs "client_key who" c fd ok] open_calls_table(3) [of ?t fd "client_key who" c ok]
        by (simp_all add: succ(3) all_calls_append)
      moreover have "\<forall>x\<in>set (active s). active_ok (omap_put (client_key who) (opened fd ok c) cs) x"
        using act1 gc none by (auto intro: active_ok_put)
      moreover have "ok \<Longrightarrow> active_ok (omap_put (client_key who) (opened fd ok c) cs) (who, req, fd, p)" for p
        by (simp add: active_ok_def)
      ultimately show ?thesis
        using False g o1 succ(1,2) by (cases ok) (simp_all add: call_method_def service_ok_def Let_def)
    qed
  qed
qed

lemma settle_effect:
  "clients (settle i s) = clients s" "world (settle i s) = world s"
  "set (active (settle i s)) \<subseteq> set (active s)"
  by (auto simp: settle_def split: prod.splits prog.splits dest: in_set_takeD in_set_dropD)

lemma resume_at_ok:
  assumes "service_ok s" "i < length (active s)"
  shows "service_ok (resume_at os i s)"
proof -
  let ?t = "log_table (calls (world s))"
  obtain who req fd p where a: "active s ! i = (who, req, fd, p)" by (metis prod_cases4)
  obtain p1 w1 where r: "resume os who fd p (world s) = (p1, w1)" by fastforce
  have "active_ok (clients s) (active s ! i)" using assms by (simp add: service_ok_def)
  then obtain c where c: "map_of (clients s) (client_key who) = Some c" "client_stream c = Some fd"
    using a by (auto simp: active_ok_def)
  then have "client_ok ?t (client_key who) c" using assms(1) by (simp add: service_ok_def clients_ok_def)
  then have "?t fd = Some (fst who, Some (snd who))" using c(2) by (auto simp: client_ok_def client_key_inj)
  with resume_effect [OF r] have log: "log_table (calls w1) = ?t \<and> all_calls own_transfer (\<lambda>_. None) (calls w1)"
    using assms(1) by (auto simp: service_ok_def all_calls_append)
  let ?s = "s\<lparr>world := w1, active := (active s)[i := (who, req, fd, p1)]\<rparr>"
  have "active_ok (clients s) (who, req, fd, p1)" using c by (simp add: active_ok_def)
  then have "\<forall>x\<in>set (active ?s). active_ok (clients s) x"
    using assms(1) by (auto simp: service_ok_def dest!: set_update_in)
  with log assms(1) have "service_ok ?s" by (simp add: service_ok_def)
  then have "service_ok (settle i ?s)" using settle_effect [of i ?s] by (auto simp: service_ok_def)
  then show ?thesis using a r by (simp add: resume_at_def)
qed

lemma step_calls: "\<exists>more_calls. calls (world (i2c_step os ev s)) = calls (world s) @ more_calls"
proof (cases ev)
  case (Call who req)
  obtain c cs where g: "getOrCreateClient who (clients s) = (c, cs)" by fastforce
  obtain e c1 w1 where o1: "i2c_open os c (world s) = (e, c1, w1)" by (metis prod_cases3)
  have "\<exists>more_calls. calls w1 = calls (world s) @ more_calls"
    using o1 by (auto simp: i2c_open_def do_open_def do_slave_def fd_reset_def do_close_def Let_def
        split: option.splits prod.splits bool.splits)
  then show ?thesis using g o1 Call by (simp add: call_method_def Let_def)
next
  case (Resume i)
  obtain who req fd p where a: "active s ! i = (who, req, fd, p)" by (metis prod_cases4)
  obtain p1 w1 where r: "resume os who fd p (world s) = (p1, w1)" by fastforce
  show ?thesis using Resume a r resume_effect [OF r] by (auto simp: resume_at_def settle_effect)
qed

lemma run_service_ok:
  "all_calls fresh_open (\<lambda>_. None) (calls (world (fold (i2c_step os) evs (service_new b)))) \<Longrightarrow>
     service_ok (fold (i2c_step os) evs (service_new b))"
proof (induction evs rule: rev_induct)
  case Nil
  then show ?case by (simp add: service_new_def service_ok_def clients_ok_def)
next
  case (snoc ev evs)
  let ?s = "fold (i2c_step os) evs (service_new b)"
  from snoc.prems step_calls [of os ev ?s] have "all_calls fresh_open (\<lambda>_. None) (calls (world ?s))"
    by (auto simp: all_calls_append)
  with snoc.IH have ok: "service_ok ?s" by simp
  show ?case
  proof (cases ev)
    case (Call who req)
    then show ?thesis using call_method_ok [OF ok] snoc.prems by simp
  next
    case (Resume i)
    then show ?thesis using resume_at_ok [OF ok] ok by simp
  qed
qed

text \<open>
  (C32) Whatever requests arrive and however their coroutines interleave, also while the handler of
  one runs inside that of another: every transfer goes through a descriptor that was opened for
  the path and set to the address its request names, and descriptors are not shared between
  targets, provided the system only hands out descriptors that are not open.
\<close>

theorem i2c_requests_reach_own_device:
  assumes "s = fold (i2c_step os) evs (service_new b)" "all_calls fresh_open (\<lambda>_. None) (calls (world s))"
  shows "all_calls own_transfer (\<lambda>_. None) (calls (world s)) \<and>
    (\<forall>(who, req, fd, p)\<in>set (active s). log_table (calls (world s)) fd = Some (fst who, Some (snd who)))"
proof -
  have ok: "service_ok s" using run_service_ok [of os evs b] assms by simp
  have "log_table (calls (world s)) fd = Some (fst who, Some (snd who))"
    if a: "(who, req, fd, p) \<in> set (active s)" for who req fd p
  proof -
    from ok a have "active_ok (clients s) (who, req, fd, p)" by (simp add: service_ok_def)
    then obtain c where c: "map_of (clients s) (client_key who) = Some c" "client_stream c = Some fd"
      by (auto simp: active_ok_def)
    then have "client_ok (log_table (calls (world s))) (client_key who) c"
      using ok by (simp add: service_ok_def clients_ok_def)
    with c(2) show ?thesis by (auto simp: client_ok_def client_key_inj)
  qed
  then show ?thesis using ok by (auto simp: service_ok_def)
qed


section \<open>Every request is answered, with bounded effort\<close>

text \<open>
  \<open>effort p t m n\<close>: whatever the answers, the coroutine makes at most \<open>t\<close> transfers, waits at most
  \<open>m\<close> milliseconds and is resumed at most \<open>n\<close> times before it returns.
\<close>

primrec effort :: "'r prog \<Rightarrow> nat \<Rightarrow> nat \<Rightarrow> nat \<Rightarrow> bool" where
  "effort (Ret r) t m n \<longleftrightarrow> True"
| "effort (WriteSome d k) t m n \<longleftrightarrow> t > 0 \<and> n > 0 \<and> (\<forall>a. effort (k a) (t - 1) m (n - 1))"
| "effort (ReadSome b k) t m n \<longleftrightarrow> t > 0 \<and> n > 0 \<and> (\<forall>a. effort (k a) (t - 1) m (n - 1))"
| "effort (Sleep ms p) t m n \<longleftrightarrow> ms \<le> m \<and> n > 0 \<and> effort p t (m - ms) (n - 1)"

declare split_paired_All [simp del]

lemma effort_mono: "effort p t m n \<Longrightarrow> t \<le> t' \<Longrightarrow> m \<le> m' \<Longrightarrow> n \<le> n' \<Longrightarrow> effort p t' m' n'"
proof (induction p arbitrary: t m n t' m' n')
  case (WriteSome d k)
  have "effort (k a) (t' - 1) m' (n' - 1)" for a
    by (rule WriteSome.IH [of "k a" "t - 1" m "n - 1"]) (use WriteSome.prems in auto)
  with WriteSome.prems show ?case by auto
next
  case (ReadSome b k)
  have "effort (k a) (t' - 1) m' (n' - 1)" for a
    by (rule ReadSome.IH [of "k a" "t - 1" m "n - 1"]) (use ReadSome.prems in auto)
  with ReadSome.prems show ?case by auto
next
  case (Sleep ms p)
  have "effort p t' (m' - ms) (n' - 1)"
    by (rule Sleep.IH [of t "m - ms" "n - 1"]) (use Sleep.prems in auto)
  with Sleep.prems show ?case by auto
qed simp

lemma effort_bind:
  assumes "effort p t m n" "\<And>r. effort (f r) t' m' n'"
  shows "effort (pbind p f) (t + t') (m + m') (n + n')"
  using assms(1)
proof (induction p arbitrary: t m n)
  case (Ret r)
  show ?case by simp (rule effort_mono [OF assms(2)], auto)
next
  case (WriteSome d k)
  have "effort (pbind (k a) f) (t + t' - 1) (m + m') (n + n' - 1)" for a
    using WriteSome.prems WriteSome.IH [of "k a" "t - 1" m "n - 1"] by (auto simp: algebra_simps)
  with WriteSome.prems show ?case by auto
next
  case (ReadSome b k)
  have "effort (pbind (k a) f) (t + t' - 1) (m + m') (n + n' - 1)" for a
    using ReadSome.prems ReadSome.IH [of "k a" "t - 1" m "n - 1"] by (auto simp: algebra_simps)
  with ReadSome.prems show ?case by auto
next
  case (Sleep ms p)
  have "effort (pbind p f) (t + t') (m + m' - ms) (n + n' - 1)"
    using Sleep.prems Sleep.IH [of t "m - ms" "n - 1"] by (auto simp: algebra_simps)
  with Sleep.prems show ?case by auto
qed

lemma effort_ptry:
  assumes "effort p t m n" "\<And>a. effort (f a) t' m' n'"
  shows "effort (ptry p f) (t + t') (m + m') (n + n')"
  unfolding ptry_def by (rule effort_bind [OF assms(1)]) (auto simp: assms(2) split: sum.splits)

text \<open>The waits of the loops add up to a geometric sum.\<close>

lemma geometric_step:
  "100 * ((2 :: nat) ^ (k + Suc left) - 2 ^ k) - 100 * 2 ^ k = 100 * (2 ^ (Suc k + left) - 2 ^ Suc k)"
  "100 * 2 ^ k \<le> 100 * ((2 :: nat) ^ (k + Suc left) - 2 ^ k)"
proof -
  have "(2 :: nat) ^ k \<le> 2 ^ (k + left)" by (intro power_increasing) auto
  then have "2 ^ k + 2 ^ k \<le> (2 :: nat) ^ (k + Suc left)" unfolding add_Suc_right power_Suc by linarith
  then show "100 * ((2 :: nat) ^ (k + Suc left) - 2 ^ k) - 100 * 2 ^ k = 100 * (2 ^ (Suc k + left) - 2 ^ Suc k)"
    "100 * 2 ^ k \<le> 100 * ((2 :: nat) ^ (k + Suc left) - 2 ^ k)"
    by (simp, linarith)
qed

lemma write_attempts_effort:
  "effort (write_attempts data k left) (Suc left) (100 * (2 ^ (k + left) - 2 ^ k)) (2 * left + 1)"
proof (induction left arbitrary: k)
  case (Suc left)
  show ?case using Suc [of "Suc k"] geometric_step [of k left] by (subst write_attempts.simps) (auto split: prod.splits)
qed (auto simp: write_attempts.simps split: prod.splits)

lemma read_attempts_effort:
  "effort (read_attempts b k left) (Suc left) (100 * (2 ^ (k + left) - 2 ^ k)) (2 * left + 1)"
proof (induction left arbitrary: k)
  case (Suc left)
  show ?case using Suc [of "Suc k"] geometric_step [of k left] by (subst read_attempts.simps) (auto split: prod.splits)
qed (auto simp: read_attempts.simps split: prod.splits)

lemma write_effort: "maxRetries c = 6 \<Longrightarrow> effort (i2c_write c data) 6 3100 11"
  using write_attempts_effort [of data 0 5] by (simp add: i2c_write_def)

lemma read_effort: "maxRetries c = 6 \<Longrightarrow> effort (i2c_read c b) 6 3100 11"
  using read_attempts_effort [of b 0 5] by (simp add: i2c_read_def)

lemma typed_effort: "maxRetries c = 6 \<Longrightarrow> effort (readTyped T c) 6 3100 11"
  unfolding readTyped_def
  using effort_ptry [OF read_effort [of c "sizeof T"], of "\<lambda>bytes. if length bytes \<noteq> sizeof T then Ret (Inl ReadFailed) else Ret (Inr (of_bytes T bytes))" 0 0 0]
  by simp

lemma on_error_effort: "effort p t m n \<Longrightarrow> effort (on_error bad good p) t m n"
  using effort_bind [of p t m n "\<lambda>a. Ret (case a of Inl e \<Rightarrow> bad | Inr a \<Rightarrow> good a)" 0 0 0]
  by (simp add: on_error_def pmap_def)

lemma i2c_method_effort:
  assumes "maxRetries c = 6"
  shows "effort (i2c_method c req) 12 6200 22"
proof (cases req)
  case (WriteRead data n)
  then show ?thesis
    using on_error_effort [OF effort_ptry [OF write_effort [OF assms, of data] read_effort [OF assms, of "unat n"]]]
    by (simp add: i2c_methods)
next
  case ReadPairingState
  then show ?thesis
    using on_error_effort [OF effort_ptry [OF write_effort [OF assms] typed_effort [OF assms]]]
    by (simp add: i2c_methods readPic_def writeTyped_def)
next
  case ReadCredentialsFlag
  then show ?thesis
    using on_error_effort [OF effort_ptry [OF write_effort [OF assms] typed_effort [OF assms]]]
    by (simp add: i2c_methods readPic_def writeTyped_def)
next
  case ReadVersion
  then show ?thesis
    using on_error_effort [OF effort_ptry [OF write_effort [OF assms] typed_effort [OF assms]]]
    by (simp add: i2c_methods readPic_def writeTyped_def)
qed (auto simp: i2c_methods writeTyped_def intro!: on_error_effort effort_mono [OF write_effort [OF assms]]
    effort_mono [OF read_effort [OF assms]])

fun transfers :: "syscall list \<Rightarrow> nat" where
  "transfers [] = 0"
| "transfers (Sys_write _ _ _ _ _ # xs) = Suc (transfers xs)"
| "transfers (Sys_read _ _ _ _ _ # xs) = Suc (transfers xs)"
| "transfers (_ # xs) = transfers xs"

fun slept :: "syscall list \<Rightarrow> nat" where
  "slept [] = 0"
| "slept (Sys_sleep ms # xs) = ms + slept xs"
| "slept (_ # xs) = slept xs"

lemma transfers_append [simp]: "transfers (xs @ ys) = transfers xs + transfers ys"
  by (induction xs rule: transfers.induct) auto

lemma slept_append [simp]: "slept (xs @ ys) = slept xs + slept ys"
  by (induction xs rule: slept.induct) auto

fun called :: "i2c_event list \<Rightarrow> (i2c_target \<times> i2c_request) list" where
  "called [] = []"
| "called (Call who req # evs) = (who, req) # called evs"
| "called (Resume i # evs) = called evs"

lemma called_append [simp]: "called (xs @ ys) = called xs @ called ys"
  by (induction xs rule: called.induct) auto

lemma run_effort:
  assumes "effort p t m n"
  shows "transfers (calls (snd (run os who fd p w))) \<le> transfers (calls w) + t \<and>
    slept (calls (snd (run os who fd p w))) \<le> slept (calls w) + m"
  using assms
proof (induction p arbitrary: t m n w)
  case (WriteSome d k)
  obtain a b where a: "os_write_some os fd d (bus w) = (a, b)" by fastforce
  have "effort (k a) (t - 1) m (n - 1)" "t > 0" using WriteSome.prems by auto
  then show ?case
    using WriteSome.IH [of "k a" "t - 1" m "n - 1" "w\<lparr>bus := b, calls := calls w @ [Sys_write who fd d (fst a) (snd a)]\<rparr>"] a by simp
next
  case (ReadSome d k)
  obtain a b where a: "os_read_some os fd d (bus w) = (a, b)" by fastforce
  have "effort (k a) (t - 1) m (n - 1)" "t > 0" using ReadSome.prems by auto
  then show ?case
    using ReadSome.IH [of "k a" "t - 1" m "n - 1" "w\<lparr>bus := b, calls := calls w @ [Sys_read who fd d (fst a) (snd a)]\<rparr>"] a by simp
next
  case (Sleep ms p)
  then show ?case using Sleep.IH [of t "m - ms" "n - 1" "w\<lparr>calls := calls w @ [Sys_sleep ms]\<rparr>"] by simp
qed simp

text \<open>
  A coroutine resumed again and again; between two of its operations anything may happen to the
  world, so every resumption finds another one.
\<close>

fun resume_in :: "'b i2c_os \<Rightarrow> i2c_target \<Rightarrow> nat \<Rightarrow> 'r prog \<Rightarrow> 'b i2c_world list \<Rightarrow> 'r prog" where
  "resume_in os who fd p [] = p"
| "resume_in os who fd p (w # ws) = resume_in os who fd (fst (resume os who fd p w)) ws"

lemma resume_less:
  assumes "effort p t m n" "\<nexists>r. p = Ret r"
  shows "\<exists>t' m'. t' \<le> t \<and> m' \<le> m \<and> 0 < n \<and> effort (fst (resume os who fd p w)) t' m' (n - 1)"
proof (cases p)
  case (WriteSome d k)
  then have "t - 1 \<le> t \<and> m \<le> m \<and> 0 < n \<and> effort (fst (resume os who fd p w)) (t - 1) m (n - 1)"
    using assms(1) by (cases "os_write_some os fd d (bus w)") auto
  then show ?thesis by blast
next
  case (ReadSome d k)
  then have "t - 1 \<le> t \<and> m \<le> m \<and> 0 < n \<and> effort (fst (resume os who fd p w)) (t - 1) m (n - 1)"
    using assms(1) by (cases "os_read_some os fd d (bus w)") auto
  then show ?thesis by blast
next
  case (Sleep ms q)
  then have "t \<le> t \<and> m - ms \<le> m \<and> 0 < n \<and> effort (fst (resume os who fd p w)) t (m - ms) (n - 1)"
    using assms(1) by auto
  then show ?thesis by blast
qed (use assms in auto)

lemma resume_effort: "effort p t m n \<Longrightarrow> effort (fst (resume os who fd p w)) t m n"
proof (cases "\<exists>r. p = Ret r")
  case False
  assume e: "effort p t m n"
  from resume_less [OF e False, of os who fd w] obtain t' m'
    where "t' \<le> t" "m' \<le> m" "effort (fst (resume os who fd p w)) t' m' (n - 1)" by blast
  then show ?thesis by (auto intro: effort_mono)
qed auto

lemma resumed_returns: "effort p t m n \<Longrightarrow> n \<le> length ws \<Longrightarrow> \<exists>r. resume_in os who fd p ws = Ret r"
proof (induction ws arbitrary: p t m n)
  case Nil
  then show ?case by (cases p) auto
next
  case (Cons w ws)
  show ?case
  proof (cases "\<exists>r. p = Ret r")
    case True
    then obtain r where "p = Ret r" by blast
    then show ?thesis using Cons.IH [of p 0 0 0] by simp
  next
    case False
    from resume_less [OF Cons.prems(1) False, of os who fd w] obtain t' m'
      where "0 < n" "effort (fst (resume os who fd p w)) t' m' (n - 1)" by blast
    then show ?thesis using Cons.IH [of "fst (resume os who fd p w)" t' m' "n - 1"] Cons.prems(2) by simp
  qed
qed

text \<open>Calls are conserved, and what is left of every coroutine stays bounded.\<close>

abbreviation entry :: "i2c_target \<times> i2c_request \<times> 'x \<Rightarrow> i2c_target \<times> i2c_request" where
  "entry x \<equiv> (fst x, fst (snd x))"

definition work_ok :: "'b i2c_service \<Rightarrow> bool" where
  "work_ok s \<longleftrightarrow> (\<forall>(key, c)\<in>set (clients s). maxRetries c = 6) \<and>
     (\<forall>(who, req, fd, p)\<in>set (active s). effort p 12 6200 22)"

lemma open_keeps_retries:
  assumes "i2c_open os c w = (e, c1, w1)"
  shows "maxRetries c1 = maxRetries c"
proof -
  obtain r w2 where r: "do_open os (devicePath c) w = (r, w2)" by fastforce
  show ?thesis
  proof (cases r)
    case (Some fd)
    obtain ok w3 where "do_slave os fd (slaveAddress c) (fd_reset os (client_fd c) w2) = (ok, w3)" by fastforce
    then show ?thesis using assms r Some by (cases ok) (auto simp: i2c_open_def Let_def)
  qed (use assms r in \<open>auto simp: i2c_open_def\<close>)
qed

lemma call_method_work:
  assumes "work_ok s"
  shows "work_ok (call_method os who req s) \<and>
    mset (map entry (active (call_method os who req s))) + mset (map entry (replies (call_method os who req s))) =
      add_mset (who, req) (mset (map entry (active s)) + mset (map entry (replies s)))"
proof -
  obtain c cs where g: "getOrCreateClient who (clients s) = (c, cs)" by fastforce
  have c: "maxRetries c = 6 \<and> (\<forall>(key, c)\<in>set cs. maxRetries c = 6)"
  proof (cases "map_of (clients s) (client_key who)")
    case None
    then have "c = I2CClient (fst who) (snd who)" "cs = omap_put (client_key who) c (clients s)"
      using g by (auto simp: getOrCreateClient_def Let_def)
    then show ?thesis using assms set_omap_put [of "client_key who" c "clients s"] by (auto simp: work_ok_def)
  next
    case (Some x)
    then show ?thesis using g assms map_of_SomeD [OF Some] by (auto simp: getOrCreateClient_def work_ok_def)
  qed
  obtain e c1 w1 where o1: "i2c_open os c (world s) = (e, c1, w1)" by (metis prod_cases3)
  have c1: "maxRetries c1 = 6" using open_keeps_retries [OF o1] c by simp
  have put: "\<forall>(key, x)\<in>set (omap_put (client_key who) c1 cs). maxRetries x = 6"
    using set_omap_put [of "client_key who" c1 cs] c c1 by auto
  show ?thesis
    using assms g o1 c c1 put i2c_method_effort [of c req] i2c_method_effort [of c1 req]
    by (auto simp: call_method_def work_ok_def Let_def)
qed

lemma resume_at_work:
  assumes "work_ok s" "i < length (active s)"
  shows "work_ok (resume_at os i s) \<and>
    mset (map entry (active (resume_at os i s))) + mset (map entry (replies (resume_at os i s))) =
      mset (map entry (active s)) + mset (map entry (replies s))"
proof -
  obtain who req fd p where a: "active s ! i = (who, req, fd, p)" by (metis prod_cases4)
  obtain p1 w1 where r: "resume os who fd p (world s) = (p1, w1)" by fastforce
  have "(who, req, fd, p) \<in> set (active s)" using assms(2) a nth_mem by fastforce
  then have "effort p 12 6200 22" using assms(1) by (auto simp: work_ok_def)
  then have e: "effort p1 12 6200 22" using resume_effort [of p 12 6200 22 os who fd "world s"] r by simp
  let ?s = "s\<lparr>world := w1, active := (active s)[i := (who, req, fd, p1)]\<rparr>"
  have w: "work_ok ?s" using assms(1) e by (auto simp: work_ok_def dest!: set_update_in)
  have split: "active s = take i (active s) @ (who, req, fd, p) # drop (Suc i) (active s)"
    using assms(2) a by (metis id_take_nth_drop)
  have len: "length (take i (active s)) = i" using assms(2) by simp
  have upd: "(active s)[i := (who, req, fd, p1)] = take i (active s) @ (who, req, fd, p1) # drop (Suc i) (active s)"
    using assms(2) by (simp add: upd_conv_take_nth_drop)
  have "mset (map entry (active s)) = add_mset (who, req) (mset (map entry (take i (active s))) + mset (map entry (drop (Suc i) (active s))))"
    by (subst split) simp
  moreover have "work_ok (settle i ?s)"
    using w settle_effect [of i ?s] by (auto simp: work_ok_def)
  ultimately show ?thesis
    using a r assms(2) upd by (cases p1) (simp_all add: resume_at_def settle_def nth_append)
qed

text \<open>
  (C33) Under every interleaving no request is lost or answered twice, and what is left of the
  coroutine of a request returns after at most 22 more resumptions whatever happens in between;
  it makes at most 12 transfers and waits at most 6.2 seconds.
\<close>

theorem i2c_requests_answered:
  assumes "s = fold (i2c_step os) evs (service_new b)"
  shows "mset (map entry (active s)) + mset (map entry (replies s)) = mset (called evs) \<and>
    (\<forall>(who, req, fd, p)\<in>set (active s).
       (\<forall>ws. 22 \<le> length ws \<longrightarrow> (\<exists>r. resume_in os who fd p ws = Ret r)) \<and>
       (\<forall>w. transfers (calls (snd (run os who fd p w))) \<le> transfers (calls w) + 12 \<and>
            slept (calls (snd (run os who fd p w))) \<le> slept (calls w) + 6200))"
proof -
  have "work_ok (fold (i2c_step os) evs (service_new b)) \<and>
    mset (map entry (active (fold (i2c_step os) evs (service_new b)))) +
      mset (map entry (replies (fold (i2c_step os) evs (service_new b)))) = mset (called evs)"
  proof (induction evs rule: rev_induct)
    case Nil
    show ?case by (simp add: service_new_def work_ok_def)
  next
    case (snoc ev evs)
    then show ?case
      using call_method_work [of "fold (i2c_step os) evs (service_new b)" os]
        resume_at_work [of "fold (i2c_step os) evs (service_new b)" _ os]
      by (cases ev) auto
  qed
  then have i: "work_ok s" "mset (map entry (active s)) + mset (map entry (replies s)) = mset (called evs)"
    using assms by auto
  have "effort p 12 6200 22" if "(who, req, fd, p) \<in> set (active s)" for who req fd p
    using that i(1) by (auto simp: work_ok_def)
  with i(2) show ?thesis using resumed_returns [of _ 12 6200 22] run_effort [of _ 12 6200 22] by blast
qed


section \<open>An EEPROM behind an unreliable bus\<close>

lemma run_bind: "run os who fd (pbind p f) w = (case run os who fd p w of (r, w1) \<Rightarrow> run os who fd (f r) w1)"
  by (induction p arbitrary: w) (auto split: prod.splits)

lemma run_ptry:
  "run os who fd (ptry p f) w = (case run os who fd p w of
     (Inl e, w1) \<Rightarrow> (Inl e, w1) | (Inr a, w1) \<Rightarrow> run os who fd (f a) w1)"
  by (auto simp: ptry_def run_bind split: prod.splits sum.splits)

definition pod_ok :: "'t pod \<Rightarrow> bool" where
  "pod_ok T \<longleftrightarrow> sizeof T > 0 \<and> (\<forall>v. length (to_bytes T v) = sizeof T \<and> of_bytes T (to_bytes T v) = v)"

text \<open>
  The device: two address bytes set the read pointer, further bytes are stored from there, a read
  returns the bytes from the pointer on. A transfer fails while \<open>fails\<close> is positive and then
  changes nothing; a success may be followed by up to five failures.
\<close>

definition store_at :: "(nat \<Rightarrow> byte) \<Rightarrow> nat \<Rightarrow> byte list \<Rightarrow> nat \<Rightarrow> byte" where
  "store_at mem a bs = (\<lambda>i. if a \<le> i \<and> i < a + length bs then bs ! (i - a) else mem i)"

lemma store_at_Nil [simp]: "store_at mem a [] = mem"
  by (auto simp: store_at_def fun_eq_iff)

definition address_of :: "byte list \<Rightarrow> nat" where
  "address_of bs = 256 * unat (bs ! 0) + unat (bs ! 1)"

definition eeprom :: "'b i2c_os \<Rightarrow> nat \<Rightarrow> ('b \<Rightarrow> nat \<Rightarrow> byte) \<Rightarrow> ('b \<Rightarrow> nat) \<Rightarrow> ('b \<Rightarrow> nat) \<Rightarrow> bool" where
  "eeprom os fd mem pointer fails \<longleftrightarrow>
     (\<forall>b data. length data \<ge> 2 \<longrightarrow> (case os_write_some os fd data b of ((ec, n), b1) \<Rightarrow>
        if fails b = 0 then ec = None \<and> n = length data \<and> pointer b1 = address_of data \<and>
          mem b1 = store_at (mem b) (address_of data) (drop 2 data) \<and> fails b1 \<le> 5
        else (ec \<noteq> None \<or> n \<noteq> length data) \<and> mem b1 = mem b \<and> pointer b1 = pointer b \<and> fails b1 < fails b)) \<and>
     (\<forall>b n. n > 0 \<longrightarrow> (case os_read_some os fd n b of ((ec, bytes), b1) \<Rightarrow>
        if fails b = 0 then ec = None \<and> bytes = map (\<lambda>i. mem b (pointer b + i)) [0..<n] \<and> mem b1 = mem b \<and> fails b1 \<le> 5
        else (ec \<noteq> None \<or> bytes = []) \<and> mem b1 = mem b \<and> pointer b1 = pointer b \<and> fails b1 < fails b))"

lemma eeprom_write:
  assumes "eeprom os fd mem pointer fails" "length data \<ge> 2" "os_write_some os fd data b = ((ec, n), b1)"
  shows "if fails b = 0 then ec = None \<and> n = length data \<and> pointer b1 = address_of data \<and>
      mem b1 = store_at (mem b) (address_of data) (drop 2 data) \<and> fails b1 \<le> 5
    else (ec \<noteq> None \<or> n \<noteq> length data) \<and> mem b1 = mem b \<and> pointer b1 = pointer b \<and> fails b1 < fails b"
  using assms(1) [unfolded eeprom_def, THEN conjunct1, THEN spec [of _ b], THEN spec [of _ data]] assms(2,3) by simp

lemma eeprom_read:
  assumes "eeprom os fd mem pointer fails" "n > 0" "os_read_some os fd n b = ((ec, bytes), b1)"
  shows "if fails b = 0 then ec = None \<and> bytes = map (\<lambda>i. mem b (pointer b + i)) [0..<n] \<and> mem b1 = mem b \<and> fails b1 \<le> 5
    else (ec \<noteq> None \<or> bytes = []) \<and> mem b1 = mem b \<and> pointer b1 = pointer b \<and> fails b1 < fails b"
  using assms(1) [unfolded eeprom_def, THEN conjunct2, THEN spec [of _ b], THEN spec [of _ n]] assms(2,3) by simp

lemma write_persists:
  assumes dev: "eeprom os fd mem pointer fails" and "length data \<ge> 2" "fails (bus w) \<le> left"
  shows "\<exists>w1. run os who fd (write_attempts data k left) w = (Inr (length data), w1) \<and> pointer (bus w1) = address_of data \<and>
    mem (bus w1) = store_at (mem (bus w)) (address_of data) (drop 2 data) \<and> fails (bus w1) \<le> 5"
  using assms(3)
proof (induction left arbitrary: k w)
  case 0
  obtain ec n b where a: "os_write_some os fd data (bus w) = ((ec, n), b)" by (metis prod.collapse)
  with eeprom_write [OF dev assms(2) a] 0 a show ?case by (simp add: write_attempts.simps)
next
  case (Suc left)
  obtain ec n b where a: "os_write_some os fd data (bus w) = ((ec, n), b)" by (metis prod.collapse)
  note d = eeprom_write [OF dev assms(2) a]
  show ?case
  proof (cases "fails (bus w) = 0")
    case True
    with a d show ?thesis by (subst write_attempts.simps) simp
  next
    case False
    let ?w = "w\<lparr>bus := b, calls := calls w @ [Sys_write who fd data ec n] @ [Sys_sleep (100 * 2 ^ k)]\<rparr>"
    have "run os who fd (write_attempts data k (Suc left)) w = run os who fd (write_attempts data (Suc k) left) ?w"
      using a d False by (subst write_attempts.simps) auto
    moreover have "fails (bus ?w) \<le> left" "mem (bus ?w) = mem (bus w)" using d False Suc.prems by auto
    ultimately show ?thesis using Suc.IH [of ?w "Suc k"] by simp
  qed
qed

lemma read_persists:
  assumes dev: "eeprom os fd mem pointer fails" and "sz > 0" "fails (bus w) \<le> left"
  shows "\<exists>w1. run os who fd (read_attempts sz k left) w = (Inr (map (\<lambda>i. mem (bus w) (pointer (bus w) + i)) [0..<sz]), w1) \<and>
    mem (bus w1) = mem (bus w) \<and> fails (bus w1) \<le> 5"
  using assms(3)
proof (induction left arbitrary: k w)
  case 0
  obtain ec bs b where a: "os_read_some os fd sz (bus w) = ((ec, bs), b)" by (metis prod.collapse)
  with eeprom_read [OF dev assms(2) a] 0 a assms(2) show ?case by (simp add: read_attempts.simps)
next
  case (Suc left)
  obtain ec bs b where a: "os_read_some os fd sz (bus w) = ((ec, bs), b)" by (metis prod.collapse)
  note d = eeprom_read [OF dev assms(2) a]
  show ?case
  proof (cases "fails (bus w) = 0")
    case True
    with a d assms(2) show ?thesis by (subst read_attempts.simps) simp
  next
    case False
    let ?w = "w\<lparr>bus := b, calls := calls w @ [Sys_read who fd sz ec bs] @ [Sys_sleep (100 * 2 ^ k)]\<rparr>"
    have "run os who fd (read_attempts sz k (Suc left)) w = run os who fd (read_attempts sz (Suc k) left) ?w"
      using a d False by (subst read_attempts.simps) auto
    moreover have "fails (bus ?w) \<le> left" "mem (bus ?w) = mem (bus w)" "pointer (bus ?w) = pointer (bus w)"
      using d False Suc.prems by auto
    ultimately show ?thesis using Suc.IH [of ?w "Suc k"] by simp
  qed
qed

lemma offset_bytes_address: "address_of (offset_bytes off @ bs) = unat off"
proof -
  have "unat off < 2 ^ 16" using unsigned_less [of off, where ?'a = nat] by simp
  moreover have "unat (drop_bit 8 off) = unat off div 256"
    unfolding unat_drop_bit_eq by (simp add: drop_bit_eq_div)
  ultimately show ?thesis
    by (simp add: address_of_def offset_bytes_def unsigned_ucast_eq take_bit_eq_mod)
qed

text \<open>
  What is written to the device is read back, and nothing else in it changes, however the first
  five of six attempts of each transfer fail.
\<close>

theorem eeprom_roundtrip:
  assumes "eeprom os fd mem pointer fails" "pod_ok T" "isOpen c" "maxRetries c = 6" "fails (bus w) \<le> 5"
    "run os who fd (writeEEPROM T c off v) w = (r1, w1)" "run os who fd (readEEPROM T c off) w1 = (r2, w2)"
  shows "r1 = Inr (2 + sizeof T) \<and> r2 = Inr v \<and> mem (bus w2) = store_at (mem (bus w)) (unat off) (to_bytes T v)"
proof -
  have T: "sizeof T > 0" "length (to_bytes T v) = sizeof T" "of_bytes T (to_bytes T v) = v"
    using assms(2) by (simp_all add: pod_ok_def)
  have len: "length (offset_bytes x) = 2" for x by (simp add: offset_bytes_def)
  have wr: "i2c_write c (offset_bytes off @ bs) = write_attempts (offset_bytes off @ bs) 0 5" for bs
    using assms(3,4) by (simp add: i2c_write_def offset_bytes_def)
  from write_persists [OF assms(1) _ assms(5), of "offset_bytes off @ to_bytes T v" who 0] len
  have w1: "r1 = Inr (2 + sizeof T)" "mem (bus w1) = store_at (mem (bus w)) (unat off) (to_bytes T v)" "fails (bus w1) \<le> 5"
    using assms(6) T(2) by (auto simp: writeEEPROM_def wr offset_bytes_address)
  from write_persists [OF assms(1) _ w1(3), of "offset_bytes off" who 0] len [of off] offset_bytes_address [of off "[]"]
  obtain wa where wa: "run os who fd (write_attempts (offset_bytes off) 0 5) w1 = (Inr 2, wa)"
    "pointer (bus wa) = unat off" "mem (bus wa) = mem (bus w1)" "fails (bus wa) \<le> 5"
    by auto
  from read_persists [OF assms(1) T(1) wa(4), of who 0]
  obtain wb where wb: "run os who fd (read_attempts (sizeof T) 0 5) wa =
      (Inr (map (\<lambda>i. mem (bus wa) (unat off + i)) [0..<sizeof T]), wb)" "mem (bus wb) = mem (bus wa)"
    using wa(2) by auto
  have bytes: "map (\<lambda>i. mem (bus wa) (unat off + i)) [0..<sizeof T] = to_bytes T v"
    using T(2) wa(3) w1(2) by (intro nth_equalityI) (auto simp: store_at_def)
  have "i2c_read c (sizeof T) = read_attempts (sizeof T) 0 5" using assms(3,4) T(1) by (simp add: i2c_read_def)
  then have "run os who fd (readEEPROM T c off) w1 = (Inr v, wb)"
    using wa(1) wb(1) bytes T wr [of "[]"] by (simp add: readEEPROM_def readTyped_def run_ptry)
  then show ?thesis using assms(7) w1 wa(3) wb(2) by simp
qed


section \<open>Examples\<close>

text \<open>
  An operating system whose only device is a memory: descriptors are counted up, the first
  transfers fail.
\<close>

record demo_bus =
  cells :: "nat \<Rightarrow> byte"
  at_cell :: nat
  bad :: nat
  next_fd :: nat

definition demo_os :: "demo_bus i2c_os" where
  "demo_os = \<lparr>os_open = (\<lambda>p b. (Some (next_fd b), b\<lparr>next_fd := Suc (next_fd b)\<rparr>)),
     os_set_slave = (\<lambda>fd a b. (True, b)),
     os_write_some = (\<lambda>fd data b. if bad b \<noteq> 0 then ((Some Timed_out, 0), b\<lparr>bad := bad b - 1\<rparr>)
       else ((None, length data), b\<lparr>at_cell := address_of data, cells := store_at (cells b) (address_of data) (drop 2 data)\<rparr>)),
     os_read_some = (\<lambda>fd n b. if bad b \<noteq> 0 then ((Some Timed_out, []), b\<lparr>bad := bad b - 1\<rparr>)
       else ((None, map (\<lambda>i. cells b (at_cell b + i)) [0..<n]), b)),
     os_close = (\<lambda>fd b. b)\<rparr>"

definition demo_start :: demo_bus where
  "demo_start = \<lparr>cells = (\<lambda>_. 0), at_cell = 0, bad = 3, next_fd = 4\<rparr>"

lemma demo_eeprom: "eeprom demo_os fd cells at_cell bad"
  by (simp add: eeprom_def demo_os_def)

lemma uint16_ok: "pod_ok uint16"
proof -
  have "of_bytes uint16 (to_bytes uint16 v) = v" for v :: "16 word"
    by (rule bit_word_eqI)
      (auto simp: uint16_def bit_simps disjunctive_add less_diff_conv2)
  then show ?thesis by (simp add: pod_ok_def) (simp add: uint16_def)
qed


theorem eeprom_roundtrip_witness:
  "let c = opened 4 True (I2CClient ''/dev/i2c-1'' 0x50); who = (''/dev/i2c-1'', 0x50);
       w = \<lparr>bus = demo_start, calls = []\<rparr>;
       w1 = snd (run demo_os who 4 (writeEEPROM uint16 c 0x105 0x1234) w)
   in fst (run demo_os who 4 (readEEPROM uint16 c 0x105) w1) = Inr 0x1234"
proof -
  let ?c = "opened 4 True (I2CClient ''/dev/i2c-1'' 0x50)" and ?who = "(''/dev/i2c-1'', 0x50 :: 16 word)"
    and ?w = "\<lparr>bus = demo_start, calls = []\<rparr>"
  have "isOpen ?c" "maxRetries ?c = 6" "bad (bus ?w) \<le> 5" by (simp_all add: isOpen_def demo_start_def)
  from eeprom_roundtrip [OF demo_eeprom uint16_ok this, of ?who "4" "0x105" "0x1234"]
  show ?thesis by (simp add: Let_def) (metis prod.collapse)
qed

text \<open>
  A controller that answers the last command it was sent. Two requests to it whose coroutines
  interleave (the handler of the second runs inside the first one's wait) mix up their answers.
\<close>

definition pic_os :: "byte i2c_os" where
  "pic_os = \<lparr>os_open = (\<lambda>p b. (Some 3, b)), os_set_slave = (\<lambda>fd a b. (True, b)),
     os_write_some = (\<lambda>fd data b. ((None, length data), data ! 1)),
     os_read_some = (\<lambda>fd n b. ((None, take n (if b = CMD_GET_VERSION then [1, 2, 3, 4, 5, 6] else [0x55])), b)),
     os_close = (\<lambda>fd b. b)\<rparr>"

definition pic :: i2c_target where "pic = (''/dev/i2c-3'', 0x5a)"

definition nested_run :: "i2c_event list" where
  "nested_run = [Call pic ReadPairingState, Resume 0, Call pic ReadVersion, Resume 1, Resume 1, Resume 0]"

lemma nested_run_result:
  "replies (fold (i2c_step pic_os) nested_run (service_new 0)) =
     [(pic, ReadVersion, Bytes [1, 2, 3, 4, 5, 6]), (pic, ReadPairingState, Byte 1)]"
  "calls (world (fold (i2c_step pic_os) nested_run (service_new 0))) =
     [Sys_open ''/dev/i2c-3'' (Some 3), Sys_slave 3 0x5a True, Sys_write pic 3 [0xFF, 0x81, 0x81] None 3,
      Sys_write pic 3 [0xFF, 0x80, 0x80] None 3, Sys_read pic 3 6 None [1, 2, 3, 4, 5, 6], Sys_read pic 3 1 None [1]]"
  "active (fold (i2c_step pic_os) (take 3 nested_run) (service_new 0)) \<noteq> []"
  by code_simp+

lemma sequential_run_result:
  "replies (fold (i2c_step pic_os) [Call pic ReadPairingState, Resume 0, Resume 0, Call pic ReadVersion, Resume 0, Resume 0] (service_new 0)) =
     [(pic, ReadPairingState, Byte 0x55), (pic, ReadVersion, Bytes [1, 2, 3, 4, 5, 6])]"
  by code_simp

theorem i2c_requests_reach_own_device_witness:
  "all_calls own_transfer (\<lambda>_. None) (calls (world (fold (i2c_step pic_os) nested_run (service_new 0))))"
proof -
  have "all_calls fresh_open (\<lambda>_. None) (calls (world (fold (i2c_step pic_os) nested_run (service_new 0))))"
    by (simp add: nested_run_result(2))
  with i2c_requests_reach_own_device [of _ pic_os nested_run 0] show ?thesis by blast
qed

theorem i2c_requests_answered_witness:
  "mset (map entry (replies (fold (i2c_step pic_os) nested_run (service_new 0)))) \<subseteq># mset (called nested_run)"
proof -
  note i2c_requests_answered [of "fold (i2c_step pic_os) nested_run (service_new 0)" pic_os nested_run 0, OF refl, THEN conjunct1]
  from this [symmetric] show ?thesis by simp
qed

text \<open>The checksum of a command repeats the command, whatever the command.\<close>

lemma checksum_is_command: "pic_checksum (create cmd) = cmd"
proof -
  have "(0xFF :: byte) = - 1" by simp
  then have "NOT (0xFF XOR cmd) = NOT (- 1 XOR cmd)" by (rule arg_cong)
  then show ?thesis by (simp add: create_def)
qed

text \<open>Closing a client closes its descriptor twice: the stream owns it as well.\<close>

lemma close_closes_twice:
  "client_fd c = Some fd \<Longrightarrow> client_stream c = Some fd \<Longrightarrow>
     calls (snd (i2c_close os c w)) = calls w @ [Sys_close fd, Sys_close fd]"
  by (simp add: i2c_close_def fd_reset_def do_close_def)

text \<open>A byte \<open>0xFF\<close> read from the controller is reported as an error would be, and so is an empty read.\<close>

lemma error_replies_ambiguous:
  assumes "isOpen c"
  shows "i2c_method c (Read 0) = Ret (error_reply (Read 0))"
  using assms by (simp add: readI2C_def i2c_read_def on_error_def pmap_def)

end
