(* ===== verification/Redfish.thy ===== *)
theory Redfish
  imports WebClient Json "HOL-Library.Multiset"
begin

text \<open>
  The Redfish client of \<open>include/redfish_client.hpp\<close> (requests with a session token that is renewed
  after a 401, one renewal at a time) and the proxy of \<open>examples/redfishproxy/redfish_proxy.cpp\<close>.

  Any number of coroutines use one client. A coroutine is suspended while a request of its own
  is under way, or while it waits for the coroutine that renews the token; a step answers a
  request or resumes a waiter. What the network answers is arbitrary.
\<close>

section \<open>The client\<close>

text \<open>A response, with its header fields; \<open>base().at\<close> throws when the field is missing.\<close>

record rf_response =
  rf_status :: nat
  rf_fields :: "(string \<times> string) list"
  rf_body :: string

definition status_unauthorized :: nat where "status_unauthorized = 401"
definition status_created :: nat where "status_created = 201"

definition http_error_to_string :: "nat \<Rightarrow> string option" where
  "http_error_to_string st = map_of [(401, ''Unauthorized''), (404, ''Not Found''), (500, ''Internal Server Error'')] st"

record rf_request =
  rq_method :: verb
  rq_target :: string
  rq_body :: string
  rq_params :: "(string \<times> string) list"
  rq_version :: nat
  rq_headers :: "(string \<times> string) list"

definition rf_request_new :: rf_request where
  "rf_request_new = \<lparr>rq_method = get, rq_target = [], rq_body = [], rq_params = [], rq_version = 11, rq_headers = []\<rparr>"

text \<open>What \<open>execute\<close> and \<open>refreshToken\<close> return; the last is an exception (\<open>std::out_of_range\<close>).\<close>

datatype rf_result = Answer rf_response | Failed errc | Token string | Threw

text \<open>\<open>permission_denied\<close>.\<close>

abbreviation Permission_denied :: errc where "Permission_denied \<equiv> Sys_error 13"

text \<open>
  Where a coroutine is: its request is under way with a token, it renews the token, it waits for
  the renewal, it was woken by the end of the renewal, it has returned.
\<close>

datatype rf_phase = Sending string | Fetching | Waiting | Woken | Finished rf_result

text \<open>A caller of \<open>execute\<close> with its request and the number of attempts made, or of \<open>refreshToken\<close>.\<close>

record rf_coro =
  co_request :: "rf_request option"
  attempts :: nat
  phase :: rf_phase

record rf_client =
  userName :: string
  rf_password :: string
  token :: string
  rf_host :: string
  rf_port :: string
  protocol :: string
  tokenFetchInProgress :: bool
  coros :: "rf_coro list"

definition RedfishClient :: rf_client where
  "RedfishClient = \<lparr>userName = [], rf_password = [], token = [], rf_host = [], rf_port = ''443'', protocol = ''https'',
     tokenFetchInProgress = False, coros = []\<rparr>"

definition baseUrl :: "rf_client \<Rightarrow> string" where
  "baseUrl c = protocol c @ ''://'' @ rf_host c @ '':'' @ rf_port c @ ''/redfish/v1''"

text \<open>The two requests that go out.\<close>

definition login_client :: "rf_client \<Rightarrow> WebClient" where
  "login_client c = (let w = withTarget ''/redfish/v1/SessionService/Sessions''
       (withPort (rf_port c) (withHost (rf_host c) WebClient_tcp)) in
     w\<lparr>wc_request := (wc_request w)\<lparr>wr_method := post, wr_headers := [(''Content-Type'', ''application/json'')],
       wr_body := ''{\"UserName\":\"'' @ userName c @ ''\",\"Password\":\"'' @ rf_password c @ ''\"}''\<rparr>\<rparr>)"

definition request_client :: "rf_client \<Rightarrow> string \<Rightarrow> rf_request \<Rightarrow> WebClient" where
  "request_client c tok req = (let w = withKeepAlive True (withTarget (rq_target req)
       (withPort (rf_port c) (withHost (rf_host c) WebClient_tcp))) in
     w\<lparr>wc_request := (wc_request w)\<lparr>wr_method := rq_method req, wr_body := rq_body req,
       wr_headers := [(''Content-Type'', ''application/json''), (''X-Auth-Token'', tok)]\<rparr>\<rparr>)"

definition set_phase :: "nat \<Rightarrow> rf_phase \<Rightarrow> rf_client \<Rightarrow> rf_client" where
  "set_phase i p c = c\<lparr>coros := (coros c)[i := (coros c ! i)\<lparr>phase := p\<rparr>]\<rparr>"

text \<open>\<open>cancel\<close> on the timer: every waiter is woken; the slot is released.\<close>

definition wake :: "rf_coro \<Rightarrow> rf_coro" where
  "wake k = (if phase k = Waiting then k\<lparr>phase := Woken\<rparr> else k)"

definition release_fetch :: "rf_client \<Rightarrow> rf_client" where
  "release_fetch c = c\<lparr>tokenFetchInProgress := False, coros := map wake (coros c)\<rparr>"

text \<open>The start of \<open>refreshToken\<close>: wait for the renewal that is under way, or claim the slot.\<close>

definition refreshToken_start :: "nat \<Rightarrow> rf_client \<Rightarrow> rf_client" where
  "refreshToken_start i c =
     (if tokenFetchInProgress c then set_phase i Waiting c
      else set_phase i Fetching (c\<lparr>tokenFetchInProgress := True\<rparr>))"

text \<open>
  \<open>refreshToken\<close> returns to its caller: \<open>execute\<close> goes round its loop, at most three times in all.
\<close>

definition refreshToken_return :: "nat \<Rightarrow> errc + string \<Rightarrow> rf_client \<Rightarrow> rf_client" where
  "refreshToken_return i r c = (case co_request (coros c ! i) of
     None \<Rightarrow> set_phase i (Finished (case r of Inl e \<Rightarrow> Failed e | Inr t \<Rightarrow> Token t)) c
   | Some req \<Rightarrow> (case r of
       Inl e \<Rightarrow> set_phase i (Finished (Failed e)) c
     | Inr t \<Rightarrow>
         let c1 = c\<lparr>token := t\<rparr> in
         if attempts (coros c ! i) < 3
         then c1\<lparr>coros := (coros c)[i := (coros c ! i)\<lparr>attempts := Suc (attempts (coros c ! i)), phase := Sending t\<rparr>]\<rparr>
         else set_phase i (Finished (Failed Timed_out)) c1))"

text \<open>The answer to the login request.\<close>

definition login_done :: "nat \<Rightarrow> errc + rf_response \<Rightarrow> rf_client \<Rightarrow> rf_client" where
  "login_done i r c = (case r of
     Inl e \<Rightarrow> refreshToken_return i (Inl Permission_denied) (release_fetch c)
   | Inr res \<Rightarrow>
       if rf_status res \<noteq> status_created then
         let c1 = release_fetch c in
         (case http_error_to_string (rf_status res) of
            None \<Rightarrow> set_phase i (Finished Threw) c1
          | Some msg \<Rightarrow> refreshToken_return i (Inl Permission_denied) c1)
       else case map_of (rf_fields res) ''X-Auth-Token'' of
         None \<Rightarrow> set_phase i (Finished Threw) c
       | Some t \<Rightarrow> refreshToken_return i (Inr t) (release_fetch (c\<lparr>token := t\<rparr>)))"

text \<open>The answer to a request of \<open>execute\<close>.\<close>

definition request_done :: "nat \<Rightarrow> errc + rf_response \<Rightarrow> rf_client \<Rightarrow> rf_client" where
  "request_done i r c = (case r of
     Inl e \<Rightarrow> set_phase i (Finished (Failed e)) c
   | Inr res \<Rightarrow>
       if http_error_to_string (rf_status res) \<noteq> None \<and> rf_status res = status_unauthorized
       then refreshToken_start i c
       else set_phase i (Finished (Answer res)) c)"

datatype rf_event =
    Execute rf_request
  | Refresh
  | Answered nat "errc + rf_response"
  | Resumed nat

fun rf_step :: "rf_event \<Rightarrow> rf_client \<Rightarrow> rf_client" where
  "rf_step (Execute req) c =
     c\<lparr>coros := coros c @ [\<lparr>co_request = Some req, attempts = 1, phase = Sending (token c)\<rparr>]\<rparr>"
| "rf_step Refresh c = refreshToken_start (length (coros c))
     (c\<lparr>coros := coros c @ [\<lparr>co_request = None, attempts = 0, phase = Waiting\<rparr>]\<rparr>)"
| "rf_step (Answered i r) c =
     (if i < length (coros c) then
        (case phase (coros c ! i) of
           Sending t \<Rightarrow> request_done i r c
         | Fetching \<Rightarrow> login_done i r c
         | _ \<Rightarrow> c)
      else c)"
| "rf_step (Resumed i) c =
     (if i < length (coros c) \<and> phase (coros c ! i) = Woken then refreshToken_return i (Inr (token c)) c else c)"

section \<open>One renewal at a time\<close>

abbreviation count :: "rf_phase \<Rightarrow> rf_client \<Rightarrow> nat" where
  "count p c \<equiv> length (filter (\<lambda>k. phase k = p) (coros c))"

definition coro_ok :: "rf_coro \<Rightarrow> bool" where
  "coro_ok k \<longleftrightarrow> attempts k \<le> 3 \<and> (co_request k \<noteq> None \<longrightarrow> attempts k \<ge> 1) \<and>
     (\<forall>res. phase k = Finished (Answer res) \<longrightarrow> rf_status res \<noteq> 401) \<and>
     (\<forall>t. phase k = Sending t \<longrightarrow> co_request k \<noteq> None)"

definition rf_inv :: "rf_client \<Rightarrow> bool" where
  "rf_inv c \<longleftrightarrow> count Fetching c \<le> 1 \<and> (\<not> tokenFetchInProgress c \<longrightarrow> count Fetching c = 0 \<and> count Waiting c = 0) \<and>
     (\<forall>k\<in>set (coros c). coro_ok k)"

lemma count_set_phase:
  assumes "i < length (coros c)"
  shows "count p (set_phase i q c) + (if phase (coros c ! i) = p then 1 else 0) = count p c + (if q = p then 1 else 0)"
  using length_filter_update [OF assms, of "\<lambda>k. phase k = p" "(coros c ! i)\<lparr>phase := q\<rparr>"]
  by (simp add: set_phase_def)

lemma set_phase_fields [simp]:
  "tokenFetchInProgress (set_phase i q c) = tokenFetchInProgress c" "token (set_phase i q c) = token c"
  "length (coros (set_phase i q c)) = length (coros c)"
  "coros (set_phase i q c) = (coros c)[i := (coros c ! i)\<lparr>phase := q\<rparr>]"
  by (simp_all add: set_phase_def)

lemma wake_fields [simp]: "co_request (wake k) = co_request k" "attempts (wake k) = attempts k"
  by (simp_all add: wake_def)

lemma wake_phase: "phase (wake k) = (if phase k = Waiting then Woken else phase k)"
  by (simp add: wake_def)

lemma count_release: "count Fetching (release_fetch c) = count Fetching c" "count Waiting (release_fetch c) = 0"
proof -
  have "length (filter (\<lambda>k. phase k = Fetching) (map wake ks)) = length (filter (\<lambda>k. phase k = Fetching) ks)"
    "filter (\<lambda>k. phase k = Waiting) (map wake ks) = []" for ks
    by (induction ks) (auto simp: wake_phase)
  then show "count Fetching (release_fetch c) = count Fetching c" "count Waiting (release_fetch c) = 0"
    by (simp_all add: release_fetch_def)
qed

lemma release_fields [simp]:
  "\<not> tokenFetchInProgress (release_fetch c)" "token (release_fetch c) = token c"
  "coros (release_fetch c) = map wake (coros c)"
  by (simp_all add: release_fetch_def)


text \<open>A coroutine leaves the phase in which it was answered or woken.\<close>

definition leaving :: "nat \<Rightarrow> rf_client \<Rightarrow> bool" where
  "leaving i c \<longleftrightarrow> i < length (coros c) \<and> phase (coros c ! i) \<noteq> Waiting \<and> (\<forall>k\<in>set (coros c). coro_ok k) \<and>
     (let others = count Fetching c - of_bool (phase (coros c ! i) = Fetching) in
      others \<le> 1 \<and> (\<not> tokenFetchInProgress c \<longrightarrow> others = 0 \<and> count Waiting c = 0))"

lemma inv_update:
  assumes "leaving i c" "coro_ok k" "phase k \<noteq> Fetching" "phase k \<noteq> Waiting"
  shows "rf_inv (c\<lparr>token := t, coros := (coros c)[i := k]\<rparr>)"
proof -
  have i: "i < length (coros c)" using assms(1) by (simp add: leaving_def)
  have n: "length (filter (\<lambda>k. phase k = p) ((coros c)[i := k])) + (if phase (coros c ! i) = p then 1 else 0)
      = count p c + (if phase k = p then 1 else 0)" for p
    by (rule length_filter_update [OF i])
  have "\<forall>x\<in>set ((coros c)[i := k]). coro_ok x"
    using assms(1,2) by (auto simp: leaving_def dest!: set_update_in)
  moreover have "length (filter (\<lambda>k. phase k = Fetching) ((coros c)[i := k])) = count Fetching c - of_bool (phase (coros c ! i) = Fetching)"
    using n [of Fetching] assms(3) by (cases "phase (coros c ! i) = Fetching") simp_all
  moreover have "length (filter (\<lambda>k. phase k = Waiting) ((coros c)[i := k])) = count Waiting c"
    using n [of Waiting] assms(1,4) by (simp add: leaving_def)
  ultimately show ?thesis using assms(1) by (simp add: rf_inv_def leaving_def Let_def)
qed

lemma inv_set_phase:
  assumes "leaving i c" "coro_ok ((coros c ! i)\<lparr>phase := q\<rparr>)" "q \<noteq> Fetching" "q \<noteq> Waiting"
  shows "rf_inv (set_phase i q (c\<lparr>token := t\<rparr>))" "rf_inv (set_phase i q c)"
  using inv_update [OF assms(1,2), of t] inv_update [OF assms(1,2), of "token c"] assms(3,4) by (simp_all add: set_phase_def)

lemma leaving_inv: "rf_inv c \<Longrightarrow> i < length (coros c) \<Longrightarrow> phase (coros c ! i) \<noteq> Waiting \<Longrightarrow> leaving i c"
  by (auto simp: rf_inv_def leaving_def Let_def)

lemma leaving_release:
  assumes "rf_inv c" "i < length (coros c)" "phase (coros c ! i) = Fetching"
  shows "leaving i (release_fetch (c\<lparr>token := t\<rparr>))" "leaving i (release_fetch c)"
proof -
  have ok: "coro_ok (wake k)" if "coro_ok k" for k using that by (auto simp: coro_ok_def wake_phase split: if_splits)
  have "leaving i (release_fetch d)" if "coros d = coros c" for d
  proof -
    have "count Fetching (release_fetch d) \<le> 1" "count Waiting (release_fetch d) = 0"
      using assms(1) that count_release [of d] by (simp_all add: rf_inv_def)
    then show ?thesis using assms ok that by (auto simp: leaving_def wake_phase rf_inv_def)
  qed
  then show "leaving i (release_fetch (c\<lparr>token := t\<rparr>))" "leaving i (release_fetch c)" by simp_all
qed

lemma coro_at_ok: "leaving i c \<Longrightarrow> coro_ok (coros c ! i)"
  by (auto simp: leaving_def)

lemma return_inv:
  assumes "leaving i c"
  shows "rf_inv (refreshToken_return i r c)"
proof (cases "co_request (coros c ! i)")
  case None
  then show ?thesis using coro_at_ok [OF assms]
    by (auto simp: refreshToken_return_def coro_ok_def intro!: inv_set_phase [OF assms] split: sum.split)
next
  case (Some req)
  show ?thesis
  proof (cases r)
    case (Inl e)
    then show ?thesis using Some coro_at_ok [OF assms]
      by (auto simp: refreshToken_return_def coro_ok_def intro!: inv_set_phase [OF assms])
  next
    case (Inr t)
    show ?thesis
    proof (cases "attempts (coros c ! i) < 3")
      case True
      have "rf_inv (c\<lparr>token := t, coros := (coros c)[i := (coros c ! i)\<lparr>attempts := Suc (attempts (coros c ! i)), phase := Sending t\<rparr>]\<rparr>)"
        using True Some coro_at_ok [OF assms] by (intro inv_update [OF assms]) (auto simp: coro_ok_def)
      then show ?thesis using Some Inr True by (simp add: refreshToken_return_def Let_def)
    next
      case False
      then show ?thesis using Some Inr coro_at_ok [OF assms]
        by (auto simp: refreshToken_return_def Let_def coro_ok_def intro!: inv_set_phase [OF assms])
    qed
  qed
qed

lemma start_inv:
  assumes "i < length (coros c)" "\<forall>k\<in>set (coros c). coro_ok k" "phase (coros c ! i) \<noteq> Fetching"
    "count Fetching c \<le> 1" "\<not> tokenFetchInProgress c \<longrightarrow> count Fetching c = 0"
    "\<not> tokenFetchInProgress c \<longrightarrow> count Waiting c \<le> of_bool (phase (coros c ! i) = Waiting)"
  shows "rf_inv (refreshToken_start i c)"
proof -
  have "coro_ok (coros c ! i)" using assms(1,2) by simp
  then have "coro_ok ((coros c ! i)\<lparr>phase := Waiting\<rparr>)" "coro_ok ((coros c ! i)\<lparr>phase := Fetching\<rparr>)"
    by (auto simp: coro_ok_def)
  then have "\<forall>k\<in>set (coros (refreshToken_start i c)). coro_ok k"
    using assms(2) by (auto simp: refreshToken_start_def dest!: set_update_in)
  moreover have "tokenFetchInProgress (refreshToken_start i c)" by (simp add: refreshToken_start_def)
  moreover have "count Fetching (refreshToken_start i c) \<le> 1"
    using count_set_phase [of i c Fetching Waiting] count_set_phase [of i "c\<lparr>tokenFetchInProgress := True\<rparr>" Fetching Fetching]
      assms by (auto simp: refreshToken_start_def)
  ultimately show ?thesis by (simp add: rf_inv_def)
qed

lemma rf_step_inv:
  assumes "rf_inv c"
  shows "rf_inv (rf_step ev c)"
proof (cases ev)
  case (Execute req)
  then show ?thesis using assms by (auto simp: rf_inv_def coro_ok_def)
next
  case Refresh
  show ?thesis unfolding Refresh rf_step.simps
    by (rule start_inv) (use assms in \<open>auto simp: rf_inv_def coro_ok_def\<close>)
next
  case (Answered i r)
  show ?thesis
  proof (cases "i < length (coros c)")
    case True
    show ?thesis
    proof (cases "phase (coros c ! i)")
      case (Sending t)
      have lv: "leaving i c" using leaving_inv [OF assms True] Sending by simp
      have "rf_inv (refreshToken_start i c)"
        using assms True Sending by (intro start_inv) (auto simp: rf_inv_def)
      then have "rf_inv (request_done i r c)"
        using coro_at_ok [OF lv]
        by (auto simp: request_done_def coro_ok_def http_error_to_string_def status_unauthorized_def
            intro!: inv_set_phase [OF lv] split: sum.splits if_splits)
      then show ?thesis using Answered True Sending by simp
    next
      case Fetching
      note lv = leaving_release [OF assms True Fetching]
      have lc: "leaving i c" using leaving_inv [OF assms True] Fetching by simp
      have "rf_inv (login_done i r c)"
        using coro_at_ok [OF lc] coro_at_ok [OF lv(2)] return_inv [OF lv(1)] return_inv [OF lv(2)]
        by (auto simp: login_done_def Let_def coro_ok_def intro!: inv_set_phase [OF lc] inv_set_phase [OF lv(2)]
            split: sum.splits option.splits)
      then show ?thesis using Answered True Fetching by simp
    qed (use Answered assms in auto)
  qed (use Answered assms in auto)
next
  case (Resumed i)
  then show ?thesis using assms return_inv [OF leaving_inv [OF assms]] by auto
qed

lemma rf_run_inv: "rf_inv c \<Longrightarrow> rf_inv (fold rf_step evs c)"
  by (induction evs arbitrary: c) (simp_all add: rf_step_inv)

lemma rf_init_inv: "coros c = [] \<Longrightarrow> \<not> tokenFetchInProgress c \<Longrightarrow> rf_inv c"
  by (simp add: rf_inv_def)

text \<open>
  Whatever the requests, the answers and the order in which coroutines run: at most one login is
  under way, a coroutine waits only while the slot is claimed, every request is sent at most
  three times, and no caller is handed a 401.
\<close>

theorem one_login_at_a_time:
  assumes "coros c0 = []" "\<not> tokenFetchInProgress c0" "c = fold rf_step evs c0"
  shows "count Fetching c \<le> 1 \<and> (count Waiting c > 0 \<longrightarrow> tokenFetchInProgress c) \<and>
    (\<forall>k\<in>set (coros c). attempts k \<le> 3 \<and> (\<forall>res. phase k = Finished (Answer res) \<longrightarrow> rf_status res \<noteq> 401))"
  using rf_run_inv [OF rf_init_inv [OF assms(1,2)], of evs] unfolding assms(3) rf_inv_def coro_ok_def by auto


section \<open>Waiters and the slot\<close>

text \<open>An answer to a login that is created carries the token.\<close>

fun login_ok :: "rf_event \<Rightarrow> bool" where
  "login_ok (Answered i (Inr res)) \<longleftrightarrow> rf_status res = status_created \<longrightarrow> map_of (rf_fields res) ''X-Auth-Token'' \<noteq> None"
| "login_ok _ \<longleftrightarrow> True"

definition slot_held :: "rf_client \<Rightarrow> bool" where
  "slot_held c \<longleftrightarrow> (tokenFetchInProgress c \<longrightarrow> count Fetching c = 1)"

lemma return_slot: "tokenFetchInProgress (refreshToken_return i r c) = tokenFetchInProgress c"
  by (simp add: refreshToken_return_def Let_def split: option.splits sum.splits)

lemma return_count:
  assumes "i < length (coros c)" "phase (coros c ! i) \<noteq> Fetching" "p = Fetching \<or> p = Waiting" "phase (coros c ! i) \<noteq> Waiting"
  shows "count p (refreshToken_return i r c) = count p c"
proof -
  have n: "length (filter (\<lambda>k. phase k = p) ((coros c)[i := k])) = count p c" if "phase k \<noteq> Fetching" "phase k \<noteq> Waiting" for k
    using length_filter_update [OF assms(1), of "\<lambda>k. phase k = p" k] assms(2-4) that by auto
  show ?thesis
    by (cases "co_request (coros c ! i)"; cases r) (simp_all add: refreshToken_return_def set_phase_def Let_def n)
qed

lemma step_slot:
  assumes "rf_inv c" "slot_held c" "login_ok ev"
  shows "slot_held (rf_step ev c)"
proof (cases ev)
  case (Execute req)
  then show ?thesis using assms(2) by (simp add: slot_held_def)
next
  case Refresh
  let ?c = "c\<lparr>coros := coros c @ [\<lparr>co_request = None, attempts = 0, phase = Waiting\<rparr>]\<rparr>" and ?n = "length (coros c)"
  show ?thesis
    using assms(1,2) count_set_phase [of ?n ?c Fetching Waiting]
      count_set_phase [of ?n "?c\<lparr>tokenFetchInProgress := True\<rparr>" Fetching Fetching]
    unfolding Refresh by (simp add: slot_held_def refreshToken_start_def rf_inv_def)
next
  case (Answered i r)
  show ?thesis
  proof (cases "i < length (coros c)")
    case True
    show ?thesis
    proof (cases "phase (coros c ! i)")
      case (Sending t)
      have "slot_held (set_phase i q c)" if "q \<noteq> Fetching" for q
        using count_set_phase [OF True, of Fetching q] Sending assms(2) that by (simp add: slot_held_def)
      moreover have "slot_held (refreshToken_start i c)"
        using calculation [of Waiting] count_set_phase [of i "c\<lparr>tokenFetchInProgress := True\<rparr>" Fetching Fetching] True Sending assms(1)
        by (auto simp: refreshToken_start_def rf_inv_def slot_held_def)
      ultimately show ?thesis using Answered True Sending
        by (auto simp: request_done_def split: sum.splits)
    next
      case Fetching
      have "\<not> tokenFetchInProgress (login_done i r c)"
        using assms(3) Answered
        by (auto simp: login_done_def return_slot Let_def split: sum.splits option.splits)
      then show ?thesis using Answered True Fetching by (simp add: slot_held_def)
    qed (use Answered assms in auto)
  qed (use Answered assms in auto)
next
  case (Resumed i)
  show ?thesis
  proof (cases "i < length (coros c) \<and> phase (coros c ! i) = Woken")
    case True
    then have "count Fetching (refreshToken_return i (Inr (token c)) c) = count Fetching c" by (intro return_count) auto
    then show ?thesis using True Resumed assms(2) by (simp add: slot_held_def return_slot)
  qed (use Resumed assms in auto)
qed

text \<open>
  (C34) As long as the service sends the token with every session it creates, a claimed slot always
  has a login under way, so the coroutines that wait for it are woken when that is answered.
\<close>

theorem waiters_have_a_login:
  assumes "coros c0 = []" "\<not> tokenFetchInProgress c0" "c = fold rf_step evs c0" "\<forall>ev\<in>set evs. login_ok ev" "count Waiting c > 0"
  shows "\<exists>i < length (coros c). phase (coros c ! i) = Fetching \<and>
    (\<forall>r. login_ok (Answered i r) \<longrightarrow> count Waiting (rf_step (Answered i r) c) = 0)"
proof -
  have "rf_inv (fold rf_step evs c0) \<and> slot_held (fold rf_step evs c0)"
    using assms(4)
  proof (induction evs rule: rev_induct)
    case Nil
    then show ?case using assms(1,2) by (simp add: rf_init_inv slot_held_def)
  next
    case (snoc ev evs)
    then show ?case using step_slot [of "fold rf_step evs c0" ev] rf_step_inv [of "fold rf_step evs c0" ev] by simp
  qed
  then have inv: "rf_inv c" "slot_held c" using assms(3) by simp_all
  with assms(5) have "count Fetching c = 1" by (auto simp: rf_inv_def slot_held_def)
  then obtain i where i: "i < length (coros c)" "phase (coros c ! i) = Fetching"
    by (metis (mono_tags, lifting) filter_False in_set_conv_nth list.size(3) zero_neq_one)
  have "count Waiting (rf_step (Answered i r) c) = 0" if "login_ok (Answered i r)" for r
  proof -
    have nt: "\<not> tokenFetchInProgress (login_done i r c)"
      using that by (auto simp: login_done_def return_slot Let_def split: sum.splits option.splits)
    have "rf_inv (login_done i r c)" using rf_step_inv [OF inv(1), of "Answered i r"] i by simp
    with nt have "count Waiting (login_done i r c) = 0" by (simp add: rf_inv_def)
    then show ?thesis using i by simp
  qed
  with i show ?thesis by blast
qed

text \<open>
  A session created without a token header leaves the slot claimed for ever: from then on no
  coroutine ever logs in again, and whoever waits goes on waiting.
\<close>

definition stuck :: "rf_client \<Rightarrow> bool" where
  "stuck c \<longleftrightarrow> tokenFetchInProgress c \<and> count Fetching c = 0"

lemma set_phase_stuck: "stuck c \<Longrightarrow> i < length (coros c) \<Longrightarrow> q \<noteq> Fetching \<Longrightarrow> stuck (set_phase i q c)"
  using count_set_phase [of i c Fetching q] by (simp add: stuck_def del: set_phase_fields(4))

lemma not_fetching: "stuck c \<Longrightarrow> i < length (coros c) \<Longrightarrow> phase (coros c ! i) \<noteq> Fetching"
  unfolding stuck_def by (metis (mono_tags, lifting) filter_empty_conv length_0_conv nth_mem)

lemma stuck_step:
  assumes "stuck c"
  shows "stuck (rf_step ev c) \<and> (\<forall>j < length (coros c). phase (coros c ! j) = Waiting \<longrightarrow> phase (coros (rf_step ev c) ! j) = Waiting) \<and>
    length (coros c) \<le> length (coros (rf_step ev c))"
proof (cases ev)
  case (Execute req)
  then show ?thesis using assms by (auto simp: stuck_def nth_append)
next
  case Refresh
  let ?c = "c\<lparr>coros := coros c @ [\<lparr>co_request = None, attempts = 0, phase = Waiting\<rparr>]\<rparr>"
  have s: "stuck ?c" using assms by (simp add: stuck_def)
  have "rf_step ev c = set_phase (length (coros c)) Waiting ?c" using assms Refresh by (simp add: refreshToken_start_def stuck_def)
  then show ?thesis using set_phase_stuck [OF s, of "length (coros c)" Waiting] by (auto simp: nth_append)
next
  case (Answered i r)
  show ?thesis
  proof (cases "i < length (coros c)")
    case True
    show ?thesis
    proof (cases "phase (coros c ! i)")
      case (Sending t)
      then have "\<exists>q. q \<noteq> Fetching \<and> rf_step ev c = set_phase i q c"
        using assms Answered True by (auto simp: request_done_def refreshToken_start_def stuck_def split: sum.splits)
      then obtain q where "q \<noteq> Fetching" "rf_step ev c = set_phase i q c" by blast
      moreover have "phase ((coros c)[i := k] ! j) = Waiting" if "phase (coros c ! j) = Waiting" for j k
        using that Sending by (cases "j = i") auto
      ultimately show ?thesis using set_phase_stuck [OF assms True] by simp
    next
      case Fetching
      then show ?thesis using not_fetching [OF assms True] by simp
    qed (use Answered assms in auto)
  qed (use Answered assms in auto)
next
  case (Resumed i)
  show ?thesis
  proof (cases "i < length (coros c) \<and> phase (coros c ! i) = Woken")
    case True
    then have n: "count Fetching (refreshToken_return i (Inr (token c)) c) = count Fetching c" by (intro return_count) auto
    have "\<exists>k. coros (refreshToken_return i (Inr (token c)) c) = (coros c)[i := k]"
      by (auto simp: refreshToken_return_def Let_def split: option.split)
    then obtain k where "coros (refreshToken_return i (Inr (token c)) c) = (coros c)[i := k]" by blast
    then show ?thesis using True Resumed assms n by (auto simp: stuck_def return_slot nth_list_update)
  qed (use Resumed assms in auto)
qed

lemma stuck_run:
  "stuck c \<Longrightarrow> stuck (fold rf_step evs c) \<and>
     (\<forall>j < length (coros c). phase (coros c ! j) = Waiting \<longrightarrow> phase (coros (fold rf_step evs c) ! j) = Waiting)"
proof (induction evs arbitrary: c)
  case (Cons ev evs)
  have s: "stuck (rf_step ev c)" using stuck_step [OF Cons.prems] by simp
  show ?case using Cons.IH [OF s] stuck_step [OF Cons.prems, of ev] by fastforce
qed simp

definition no_token :: rf_response where
  "no_token = \<lparr>rf_status = 201, rf_fields = [], rf_body = []\<rparr>"

theorem missing_token_blocks_forever:
  "let c = fold rf_step (Refresh # Answered 0 (Inr no_token) # Refresh # evs) RedfishClient in
   tokenFetchInProgress c \<and> count Fetching c = 0 \<and> phase (coros c ! 1) = Waiting"
proof -
  let ?c = "fold rf_step [Refresh, Answered 0 (Inr no_token), Refresh] RedfishClient"
  have c: "stuck ?c" "phase (coros ?c ! 1) = Waiting" "length (coros ?c) = 2"
    by (simp_all add: RedfishClient_def refreshToken_start_def login_done_def no_token_def status_created_def stuck_def)
  then show ?thesis using stuck_run [OF c(1), of evs] by (simp add: Let_def stuck_def)
qed

text \<open>A waiter is told that the renewal succeeded also when it failed: it retries with the old token.\<close>

lemma failed_login_looks_successful:
  "map phase (coros (fold rf_step [Refresh, Execute rf_request_new, Answered 1 (Inr \<lparr>rf_status = 401, rf_fields = [], rf_body = []\<rparr>),
      Answered 0 (Inl Timed_out), Resumed 1] RedfishClient)) =
     [Finished (Failed Permission_denied), Sending []]"
  by (simp add: RedfishClient_def refreshToken_start_def login_done_def request_done_def http_error_to_string_def
      status_unauthorized_def refreshToken_return_def release_fetch_def set_phase_def wake_def rf_request_new_def)

text \<open>A login answered with a status outside the table throws instead of returning an error.\<close>

lemma forbidden_login_throws:
  "map phase (coros (fold rf_step [Refresh, Answered 0 (Inr \<lparr>rf_status = 403, rf_fields = [], rf_body = []\<rparr>)] RedfishClient)) =
     [Finished Threw]"
  by (simp add: RedfishClient_def refreshToken_start_def login_done_def http_error_to_string_def status_created_def
      release_fetch_def set_phase_def wake_def)

text \<open>The headers and parameters of a request are never sent.\<close>

lemma request_headers_dropped:
  "buildRequest (request_client c t (req\<lparr>rq_headers := hs, rq_params := ps\<rparr>)) = buildRequest (request_client c t req)"
  by (simp add: request_client_def Let_def)

definition with_token :: "string \<Rightarrow> rf_response" where
  "with_token t = \<lparr>rf_status = 201, rf_fields = [(''X-Auth-Token'', t)], rf_body = []\<rparr>"

definition unauthorized_answer :: rf_response where
  "unauthorized_answer = \<lparr>rf_status = 401, rf_fields = [], rf_body = []\<rparr>"

definition demo_events :: "rf_event list" where
  "demo_events = [Execute rf_request_new, Execute rf_request_new, Answered 0 (Inr unauthorized_answer), Answered 1 (Inr unauthorized_answer)]"

lemma demo_state:
  "map phase (coros (fold rf_step demo_events RedfishClient)) = [Fetching, Waiting]"
  by (simp add: demo_events_def RedfishClient_def request_done_def refreshToken_start_def http_error_to_string_def
      status_unauthorized_def unauthorized_answer_def set_phase_def)

theorem one_login_at_a_time_witness:
  "count Fetching (fold rf_step demo_events RedfishClient) \<le> 1"
  using one_login_at_a_time [of RedfishClient "fold rf_step demo_events RedfishClient" demo_events]
  by (simp add: RedfishClient_def)

theorem waiters_have_a_login_witness:
  "\<exists>i. phase (coros (fold rf_step demo_events RedfishClient) ! i) = Fetching \<and>
     count Waiting (rf_step (Answered i (Inr (with_token ''t''))) (fold rf_step demo_events RedfishClient)) = 0"
proof -
  let ?c = "fold rf_step demo_events RedfishClient"
  have "coros RedfishClient = []" "\<not> tokenFetchInProgress RedfishClient" by (simp_all add: RedfishClient_def)
  moreover have "\<forall>ev\<in>set demo_events. login_ok ev"
    by (simp add: demo_events_def unauthorized_answer_def status_created_def)
  moreover have "count Waiting ?c > 0"
  proof -
    have "count Waiting ?c = length (filter (\<lambda>p. p = Waiting) (map phase (coros ?c)))" by (simp add: filter_map o_def)
    then show ?thesis using demo_state by simp
  qed
  moreover have "login_ok (Answered i (Inr (with_token ''t'')))" for i by (simp add: with_token_def)
  ultimately show ?thesis using waiters_have_a_login [of RedfishClient ?c demo_events] by blast
qed


section \<open>The proxy\<close>

record proxy_state =
  configured :: bool
  proxy_client :: "rf_client option"

definition proxy_reset :: "proxy_state \<Rightarrow> proxy_state" where
  "proxy_reset p = \<lparr>configured = False, proxy_client = None\<rparr>"

text \<open>
  The fields of a configuration request. \<open>None\<close> for the body is a text that is not JSON; an
  exception of the JSON library is the first error.
\<close>

definition config_fields :: "'f json option \<Rightarrow> json_exn + string \<times> string \<times> string \<times> string \<times> string" where
  "config_fields body = (case body of
     None \<Rightarrow> Inl Type_error
   | Some j \<Rightarrow>
       ebind (json_value get_string j ''host'' '''') (\<lambda>hostname.
       ebind (json_value get_string j ''port'' ''443'') (\<lambda>portno.
       ebind (json_value get_string j ''protocol'' ''https'') (\<lambda>proto.
       ebind (json_value get_string j ''username'' '''') (\<lambda>user.
       ebind (json_value get_string j ''password'' '''') (\<lambda>pass.
       Inr (hostname, portno, proto, user, pass)))))))"

definition new_client :: "string \<Rightarrow> string \<Rightarrow> string \<Rightarrow> string \<Rightarrow> string \<Rightarrow> rf_client" where
  "new_client hostname portno proto user pass =
     RedfishClient\<lparr>rf_host := hostname, rf_port := portno, protocol := proto, userName := user, rf_password := pass\<rparr>"

text \<open>\<open>refreshToken\<close> called by the handler, with the answer to the login; its result and the client after it.\<close>

definition first_login :: "rf_client \<Rightarrow> errc + rf_response \<Rightarrow> rf_result \<times> rf_client" where
  "first_login c r = (let c1 = fold rf_step [Refresh, Answered 0 r] c in
     (case phase (coros c1 ! 0) of Finished x \<Rightarrow> x | _ \<Rightarrow> Threw, c1\<lparr>coros := []\<rparr>))"

text \<open>
  \<open>handleConfigEndpoint\<close>: the status, the token header of the response, and the state.
\<close>

definition handleConfigEndpoint ::
  "'f json option \<Rightarrow> errc + rf_response \<Rightarrow> proxy_state \<Rightarrow> (nat \<times> string option) \<times> proxy_state" where
  "handleConfigEndpoint body answer p = (case config_fields body of
     Inl e \<Rightarrow> ((400, None), proxy_reset p)
   | Inr (hostname, portno, proto, user, pass) \<Rightarrow>
       if hostname = [] \<or> user = [] \<or> pass = [] then ((400, None), p)
       else case first_login (new_client hostname portno proto user pass) answer of
         (Token t, c) \<Rightarrow> ((201, Some t), \<lparr>configured = True, proxy_client = Some c\<rparr>)
       | (Threw, c) \<Rightarrow> ((500, None), proxy_reset p)
       | (_, c) \<Rightarrow> ((401, None), proxy_reset p))"

definition forwarded_headers :: "(string \<times> string) list \<Rightarrow> (string \<times> string) list" where
  "forwarded_headers hdrs = filter (\<lambda>(name, v).
     name \<notin> {''host'', ''Host'', ''authorization'', ''Authorization'', ''X-Auth-Token''}) hdrs"

definition proxied_request :: "Request \<Rightarrow> (string \<times> string) list \<Rightarrow> rf_request" where
  "proxied_request req hdrs = rf_request_new\<lparr>rq_method := req_verb req, rq_target := req_target req,
     rq_body := req_body req, rq_headers := fold (\<lambda>(k, v). omap_put k v) (forwarded_headers hdrs) []\<rparr>"

text \<open>\<open>handleProxyRequest\<close>, given what \<open>execute\<close> returns for the forwarded request.\<close>

definition handleProxyRequest :: "proxy_state \<Rightarrow> (rf_client \<Rightarrow> rf_request \<Rightarrow> rf_result) \<Rightarrow> Request \<Rightarrow> (string \<times> string) list \<Rightarrow>
    nat \<times> (string \<times> string) list \<times> string option" where
  "handleProxyRequest p execute req hdrs = (case (configured p, proxy_client p) of
     (True, Some c) \<Rightarrow> (case execute c (proxied_request req hdrs) of
        Answer res \<Rightarrow> (rf_status res, rf_fields res, Some (rf_body res))
      | Failed e \<Rightarrow> (502, [], None)
      | _ \<Rightarrow> (500, [], None))
   | _ \<Rightarrow> (503, [], None))"

lemma first_login_result:
  assumes "first_login (new_client hostname portno proto user pass) r = (x, c)"
  shows "x = (case r of
      Inl e \<Rightarrow> Failed Permission_denied
    | Inr res \<Rightarrow> if rf_status res = 201 then (case map_of (rf_fields res) ''X-Auth-Token'' of None \<Rightarrow> Threw | Some t \<Rightarrow> Token t)
        else if http_error_to_string (rf_status res) = None then Threw else Failed Permission_denied)"
    "x = Token t \<Longrightarrow> c = (new_client hostname portno proto user pass)\<lparr>token := t\<rparr>"
  using assms
  by (auto simp: first_login_def new_client_def RedfishClient_def refreshToken_start_def login_done_def status_created_def
      refreshToken_return_def release_fetch_def set_phase_def wake_def Let_def split: sum.splits option.splits if_splits)

text \<open>
  A configuration is accepted exactly when its fields are strings, hostname and credentials are not
  empty and the service logs the proxy in; then requests go to that hostname with that token. An
  incomplete configuration leaves the proxy as it was, every other refusal leaves it unconfigured
  and every request is answered with 503.
\<close>

theorem proxy_configuration_exact:
  assumes "handleConfigEndpoint body answer p = ((status, hdr), p1)"
  shows "(status = 201 \<longleftrightarrow> (\<exists>hostname portno proto user pass res t.
        config_fields body = Inr (hostname, portno, proto, user, pass) \<and> hostname \<noteq> [] \<and> user \<noteq> [] \<and> pass \<noteq> [] \<and>
        answer = Inr res \<and> rf_status res = 201 \<and> map_of (rf_fields res) ''X-Auth-Token'' = Some t \<and>
        p1 = \<lparr>configured = True, proxy_client = Some ((new_client hostname portno proto user pass)\<lparr>token := t\<rparr>)\<rparr> \<and> hdr = Some t)) \<and>
    (status \<noteq> 201 \<longrightarrow> hdr = None \<and> (p1 = p \<or> (\<forall>execute req hdrs. fst (handleProxyRequest p1 execute req hdrs) = 503)))"
proof (cases "config_fields body")
  case (Inl e)
  then show ?thesis using assms by (auto simp: handleConfigEndpoint_def handleProxyRequest_def proxy_reset_def)
next
  case (Inr f)
  obtain hostname portno proto user pass where f: "f = (hostname, portno, proto, user, pass)" by (metis prod_cases5)
  show ?thesis
  proof (cases "hostname = [] \<or> user = [] \<or> pass = []")
    case True
    then show ?thesis using assms Inr f by (auto simp: handleConfigEndpoint_def)
  next
    case False
    obtain x c where l: "first_login (new_client hostname portno proto user pass) answer = (x, c)" by fastforce
    note fl = first_login_result [OF l]
    have h: "handleConfigEndpoint body answer p = (case x of
         Token t \<Rightarrow> ((201, Some t), \<lparr>configured = True, proxy_client = Some c\<rparr>)
       | Threw \<Rightarrow> ((500, None), proxy_reset p) | _ \<Rightarrow> ((401, None), proxy_reset p))"
      using False Inr f l by (auto simp: handleConfigEndpoint_def split: rf_result.split)
    show ?thesis
    proof (cases x)
      case (Token t)
      then obtain res where "answer = Inr res" "rf_status res = 201" "map_of (rf_fields res) ''X-Auth-Token'' = Some t"
        using fl(1) by (auto split: sum.splits if_splits option.splits)
      moreover have "c = (new_client hostname portno proto user pass)\<lparr>token := t\<rparr>" using fl(2) Token by blast
      ultimately show ?thesis using assms h Token Inr f False by auto
    next
      case (Failed e)
      then show ?thesis using assms h fl(1) Inr f
        by (auto simp: handleProxyRequest_def proxy_reset_def split: sum.splits if_splits option.splits)
    next
      case Threw
      then show ?thesis using assms h fl(1) Inr f
        by (auto simp: handleProxyRequest_def proxy_reset_def split: sum.splits if_splits option.splits)
    next
      case (Answer res)
      then show ?thesis using fl(1) by (auto split: sum.splits if_splits option.splits)
    qed
  qed
qed

theorem proxy_configuration_exact_witness:
  "fst (handleConfigEndpoint (Some (JObj [(''host'', JStr ''bmc''), (''password'', JStr ''p''), (''username'', JStr ''u'')] :: unit json))
     (Inr (with_token ''t'')) \<lparr>configured = False, proxy_client = None\<rparr>) = (201, Some ''t'')"
proof -
  let ?b = "Some (JObj [(''host'', JStr ''bmc''), (''password'', JStr ''p''), (''username'', JStr ''u'')] :: unit json)"
  let ?r = "handleConfigEndpoint ?b (Inr (with_token ''t'')) \<lparr>configured = False, proxy_client = None\<rparr>"
  have f: "config_fields ?b = Inr (''bmc'', ''443'', ''https'', ''u'', ''p'')" by (simp add: config_fields_def json_value_def)
  obtain status hdr p1 where r: "?r = ((status, hdr), p1)" by (metis prod.collapse)
  have "status = 201" using r f
    by (auto simp: handleConfigEndpoint_def first_login_def new_client_def RedfishClient_def refreshToken_start_def login_done_def
        status_created_def refreshToken_return_def release_fetch_def set_phase_def wake_def with_token_def Let_def)
  with proxy_configuration_exact [OF r] r show ?thesis by (auto simp: with_token_def)
qed

end
