(* ===== verification/GraphqlBridge.thy ===== *)
theory GraphqlBridge
  imports Redfish
begin

text \<open>
  The bridge from GraphQL subscriptions to D-Bus objects
  (\<open>examples/redfish_graphql_dbus_client/graphql_dbus_bridge.hpp\<close>): its configuration, the lookup of
  a dotted path in a payload, the D-Bus objects it keeps up to date, the event stream of a
  subscription, and how the parts are wired together.

  Parameters are the JSON parser, the printer of JSON values and floating-point numbers, and the
  conversion of a floating-point number to an integer. What the D-Bus side sees is the sequence
  of properties that are set.
\<close>

section \<open>Configuration\<close>

datatype AuthConfig = No_auth | PasswordAuth string string | MtlsAuth string string

record SubscriptionConfig =
  sub_name :: string
  dbusPath :: string
  dbusInterface :: string
  query :: string
  intervalSeconds :: int
  isList :: bool
  fieldMap :: "(string \<times> string) list"

record BridgeConfig =
  br_host :: string
  br_port :: string
  auth :: AuthConfig
  subscriptions :: "SubscriptionConfig list"

text \<open>A returned error, or an exception of the JSON library.\<close>

datatype load_error = Returned string | Raised json_exn

definition raised :: "json_exn + 'a \<Rightarrow> load_error + 'a" where
  "raised r = (case r of Inl e \<Rightarrow> Inl (Raised e) | Inr a \<Rightarrow> Inr a)"

abbreviation str_value :: "'f json \<Rightarrow> string \<Rightarrow> string \<Rightarrow> load_error + string" where
  "str_value j k d \<equiv> raised (json_value get_string j k d)"

definition load_auth :: "'f json \<Rightarrow> load_error + AuthConfig" where
  "load_auth doc = (case json_get doc ''auth'' of
     None \<Rightarrow> Inr No_auth
   | Some a \<Rightarrow>
       if \<not> is_object a then Inr No_auth
       else ebind (str_value a ''type'' '''') (\<lambda>authType.
         if authType = ''password'' then
           ebind (str_value a ''username'' '''') (\<lambda>user. ebind (str_value a ''password'' '''') (\<lambda>pass.
             if user = [] then Inl (Returned ''auth.username must not be empty'')
             else if pass = [] then Inl (Returned ''auth.password must not be empty'')
             else Inr (PasswordAuth user pass)))
         else if authType = ''mtls'' then
           ebind (str_value a ''cert_file'' '''') (\<lambda>cert. ebind (str_value a ''key_file'' '''') (\<lambda>key.
             if cert = [] \<or> key = [] then Inl (Returned ''auth.cert_file and auth.key_file must not be empty'')
             else Inr (MtlsAuth cert key)))
         else if authType \<noteq> [] then Inl (Returned (''auth.type must be 'password' or 'mtls', got: '' @ authType))
         else Inr No_auth))"

text \<open>A loop over a JSON value: the elements of an array, the values of an object, a scalar itself.\<close>

fun json_elements :: "'f json \<Rightarrow> 'f json list" where
  "json_elements (JArr xs) = xs"
| "json_elements (JObj m) = map snd m"
| "json_elements JNull = []"
| "json_elements j = [j]"

definition load_field_map :: "'f json \<Rightarrow> json_exn + (string \<times> string) list" where
  "load_field_map s = (case json_get s ''field_map'' of
     Some (JObj m) \<Rightarrow> ebind (emap (\<lambda>(k, v). ebind (get_string v) (\<lambda>p. Inr (k, p))) m)
       (\<lambda>kvs. Inr (fold (\<lambda>(k, v). omap_put k v) kvs []))
   | _ \<Rightarrow> Inr [])"

definition load_subscription :: "('f \<Rightarrow> int) \<Rightarrow> 'f json \<Rightarrow> json_exn + SubscriptionConfig" where
  "load_subscription trunc s =
     ebind (json_value get_string s ''name'' '''') (\<lambda>n.
     ebind (json_value get_string s ''dbus_path'' ''/xyz/openbmc_project/Satellite/Unknown'') (\<lambda>p.
     ebind (json_value get_string s ''dbus_interface'' ''xyz.openbmc_project.Satellite.Unknown'') (\<lambda>i.
     ebind (json_value get_string s ''query'' '''') (\<lambda>q.
     ebind (json_value (get_int trunc) s ''interval_seconds'' 10) (\<lambda>secs.
     ebind (json_value get_bool s ''list'' False) (\<lambda>l.
     ebind (load_field_map s) (\<lambda>fm.
     Inr \<lparr>sub_name = n, dbusPath = p, dbusInterface = i, query = q, intervalSeconds = secs, isList = l, fieldMap = fm\<rparr>)))))))"

text \<open>The file: \<open>None\<close> cannot be opened, \<open>Some None\<close> is not JSON.\<close>

definition loadBridgeConfig :: "('f \<Rightarrow> int) \<Rightarrow> string \<Rightarrow> 'f json option option \<Rightarrow> load_error + BridgeConfig" where
  "loadBridgeConfig trunc opath file = (case file of
     None \<Rightarrow> Inl (Returned (''Cannot open config: '' @ opath))
   | Some None \<Rightarrow> Inl (Returned (''JSON parse error in: '' @ opath))
   | Some (Some doc) \<Rightarrow>
       ebind (str_value doc ''host'' ''localhost'') (\<lambda>h.
       ebind (str_value doc ''port'' ''8444'') (\<lambda>p.
       ebind (load_auth doc) (\<lambda>a.
       ebind (raised (json_value Inr doc ''subscriptions'' (JArr []))) (\<lambda>subs.
       ebind (raised (emap (load_subscription trunc) (json_elements subs))) (\<lambda>scs.
       Inr \<lparr>br_host = h, br_port = p, auth = a, subscriptions = filter (\<lambda>sc. query sc \<noteq> []) scs\<rparr>))))))"

section \<open>Values of a payload\<close>

text \<open>What a lookup gives: nothing, a value, or an exception of \<open>std::stoul\<close>.\<close>

datatype 'f lookup = Absent | Present "'f json" | Lookup_threw

definition path_step :: "'f json \<Rightarrow> string \<Rightarrow> 'f lookup" where
  "path_step cur seg = (case cur of
     JArr xs \<Rightarrow>
       if seg = [] \<or> \<not> list_all is_digit seg then Absent
       else if digits_value seg \<ge> 2 ^ 64 then Lookup_threw
       else if digits_value seg \<ge> length xs then Absent
       else Present (xs ! digits_value seg)
   | JObj m \<Rightarrow> (case map_of m seg of None \<Rightarrow> Absent | Some v \<Rightarrow> Present v)
   | _ \<Rightarrow> Absent)"

fun path_loop :: "'f json \<Rightarrow> string \<Rightarrow> string \<Rightarrow> 'f lookup" where
  "path_loop cur seg [] = (if seg = [] then Present cur else path_step cur seg)"
| "path_loop cur seg (c # cs) =
     (if c = CHR ''.'' then (case path_step cur seg of Present v \<Rightarrow> path_loop v [] cs | r \<Rightarrow> r)
      else path_loop cur (seg @ [c]) cs)"

definition jsonAtPath :: "'f json \<Rightarrow> string \<Rightarrow> 'f lookup" where
  "jsonAtPath root dotPath = path_loop root [] dotPath"

text \<open>\<open>dump\<close> prints a value, \<open>ftoa\<close> a floating-point number. Integers are read as \<open>int64_t\<close>.\<close>

definition int_string :: "int \<Rightarrow> string" where
  "int_string i = (if i < 0 then CHR ''-'' # to_string (nat (- i)) else to_string (nat i))"

fun toStr :: "('f json \<Rightarrow> string) \<Rightarrow> ('f \<Rightarrow> string) \<Rightarrow> 'f json \<Rightarrow> string" where
  "toStr dump ftoa (JStr s) = s"
| "toStr dump ftoa (JInt i) = int_string (sint (word_of_int i :: 64 word))"
| "toStr dump ftoa (JFloat f) = ftoa f"
| "toStr dump ftoa (JBool b) = (if b then ''true'' else ''false'')"
| "toStr dump ftoa v = dump v"

section \<open>D-Bus objects\<close>

text \<open>\<open>known\<close> is the cache of the values; \<open>shown\<close> is what D-Bus shows; \<open>changes\<close> the calls of \<open>set_property\<close>.\<close>

record proxy_object =
  obj_path :: string
  obj_iface :: string
  known :: "(string \<times> string) list"
  shown :: "string \<rightharpoonup> string"
  changes :: "(string \<times> string) list"

definition DbusObjectProxy :: "string \<Rightarrow> string \<Rightarrow> (string \<times> string) list \<Rightarrow> proxy_object" where
  "DbusObjectProxy opath iface fm = \<lparr>obj_path = opath, obj_iface = iface,
     known = fold (\<lambda>(jsonKey, pn). omap_put pn []) fm [],
     shown = fold (\<lambda>(jsonKey, pn) m. m(pn \<mapsto> [])) fm (\<lambda>_. None), changes = []\<rparr>"

text \<open>The body of the loop; \<open>None\<close> is the exception.\<close>

definition update_field :: "('f json \<Rightarrow> string) \<Rightarrow> 'f json \<Rightarrow> string \<times> string \<Rightarrow> proxy_object \<Rightarrow> proxy_object option" where
  "update_field str payload fp o1 = (case jsonAtPath payload (fst fp) of
     Absent \<Rightarrow> Some o1
   | Lookup_threw \<Rightarrow> None
   | Present v \<Rightarrow> (case map_of (known o1) (snd fp) of
       None \<Rightarrow> Some o1
     | Some old \<Rightarrow>
         if old = str v then Some o1
         else Some (o1\<lparr>known := omap_put (snd fp) (str v) (known o1), shown := (shown o1)(snd fp \<mapsto> str v),
                       changes := changes o1 @ [(snd fp, str v)]\<rparr>)))"

fun applyUpdate :: "('f json \<Rightarrow> string) \<Rightarrow> 'f json \<Rightarrow> (string \<times> string) list \<Rightarrow> proxy_object \<Rightarrow> proxy_object option" where
  "applyUpdate str payload [] o1 = Some o1"
| "applyUpdate str payload (fp # fm) o1 = (case update_field str payload fp o1 of
     None \<Rightarrow> None | Some o2 \<Rightarrow> applyUpdate str payload fm o2)"

record registry =
  reg_iface :: string
  reg_fieldMap :: "(string \<times> string) list"
  objs :: "(string \<times> proxy_object) list"

definition registry_has :: "string \<Rightarrow> registry \<Rightarrow> bool" where
  "registry_has opath r \<longleftrightarrow> map_of (objs r) opath \<noteq> None"

definition registry_create :: "string \<Rightarrow> registry \<Rightarrow> registry" where
  "registry_create opath r =
     (if registry_has opath r then r
      else r\<lparr>objs := omap_put opath (DbusObjectProxy opath (reg_iface r) (reg_fieldMap r)) (objs r)\<rparr>)"

definition registry_applyUpdate :: "('f json \<Rightarrow> string) \<Rightarrow> string \<Rightarrow> 'f json \<Rightarrow> registry \<Rightarrow> registry option" where
  "registry_applyUpdate str opath payload r = (case map_of (objs r) opath of
     None \<Rightarrow> Some r
   | Some ob \<Rightarrow> map_option (\<lambda>o1. r\<lparr>objs := omap_put opath o1 (objs r)\<rparr>) (applyUpdate str payload (reg_fieldMap r) ob))"

section \<open>The event stream\<close>

text \<open>The values of the data lines of a frame.\<close>

definition strip_cr :: "string \<Rightarrow> string" where
  "strip_cr line = (if line \<noteq> [] \<and> last line = CHR 0x0D then butlast line else line)"

definition data_prefix :: string where "data_prefix = ''data: ''"

definition data_line :: "string \<Rightarrow> string list" where
  "data_line line = (if take 6 line = data_prefix then [drop 6 line] else [])"

text \<open>The lines are the pieces between the newlines; an empty rest ends the loop.\<close>

definition frame_data :: "string \<Rightarrow> string list" where
  "frame_data frame = concat (map (\<lambda>line. data_line (strip_cr line)) (pieces (CHR 0x0A) frame))"

text \<open>A client has an object for a scalar subscription or a registry for a list, and posts creations.\<close>

record stream_client =
  scalarProxy :: "proxy_object option"
  listRegistry :: "registry option"
  posted_creates :: "string list"

definition item_path :: "SubscriptionConfig \<Rightarrow> 'f json \<Rightarrow> string" where
  "item_path cfg item = (case json_get item ''id'' of
     Some (JStr i) \<Rightarrow> dbusPath cfg @ ''/'' @ i
   | _ \<Rightarrow> dbusPath cfg)"

definition apply_item :: "('f json \<Rightarrow> string) \<Rightarrow> SubscriptionConfig \<Rightarrow> 'f json \<Rightarrow> stream_client \<Rightarrow> stream_client option" where
  "apply_item str cfg item s = (case listRegistry s of
     None \<Rightarrow> Some s
   | Some r \<Rightarrow>
       let opath = item_path cfg item in
       if \<not> registry_has opath r then Some (s\<lparr>posted_creates := posted_creates s @ [opath]\<rparr>)
       else map_option (\<lambda>r1. s\<lparr>listRegistry := Some r1\<rparr>) (registry_applyUpdate str opath item r))"

fun fold_opt :: "('a \<Rightarrow> 's \<Rightarrow> 's option) \<Rightarrow> 'a list \<Rightarrow> 's \<Rightarrow> 's option" where
  "fold_opt f [] s = Some s"
| "fold_opt f (x # xs) s = (case f x s of None \<Rightarrow> None | Some s1 \<Rightarrow> fold_opt f xs s1)"

definition apply_payload :: "('f json \<Rightarrow> string) \<Rightarrow> SubscriptionConfig \<Rightarrow> 'f json \<Rightarrow> stream_client \<Rightarrow> stream_client option" where
  "apply_payload str cfg payload s = (case payload of
     JArr items \<Rightarrow> (if listRegistry s \<noteq> None then fold_opt (apply_item str cfg) items s else Some s)
   | JObj m \<Rightarrow> (case scalarProxy s of
       None \<Rightarrow> Some s
     | Some ob \<Rightarrow> map_option (\<lambda>o1. s\<lparr>scalarProxy := Some o1\<rparr>) (applyUpdate str payload (fieldMap cfg) ob))
   | _ \<Rightarrow> Some s)"

definition dispatchEvent ::
  "(string \<Rightarrow> 'f json option) \<Rightarrow> ('f json \<Rightarrow> string) \<Rightarrow> SubscriptionConfig \<Rightarrow> string \<Rightarrow> stream_client \<Rightarrow> stream_client option" where
  "dispatchEvent parse str cfg rawJson s = (case parse rawJson of
     None \<Rightarrow> Some s
   | Some event \<Rightarrow>
       if json_contains event ''errors'' then Some s
       else (case json_get event ''data'' of
         Some (JObj m) \<Rightarrow> fold_opt (\<lambda>(fieldName, payload). apply_payload str cfg payload) m s
       | _ \<Rightarrow> Some s))"

definition handleFrame ::
  "(string \<Rightarrow> 'f json option) \<Rightarrow> ('f json \<Rightarrow> string) \<Rightarrow> SubscriptionConfig \<Rightarrow> string \<Rightarrow> stream_client \<Rightarrow> stream_client option" where
  "handleFrame parse str cfg frame = fold_opt (dispatchEvent parse str cfg) (frame_data frame)"

text \<open>A posted creation runs at the top of the event loop, the oldest first.\<close>

definition run_posted :: "stream_client \<Rightarrow> stream_client" where
  "run_posted s = (case posted_creates s of
     [] \<Rightarrow> s
   | opath # rest \<Rightarrow> s\<lparr>listRegistry := map_option (registry_create opath) (listRegistry s), posted_creates := rest\<rparr>)"




text \<open>The percent-encoder.\<close>

definition urlEncode_char :: "char \<Rightarrow> string" where
  "urlEncode_char c = (let n = of_char c :: nat in
     if (48 \<le> n \<and> n \<le> 57 \<or> 65 \<le> n \<and> n \<le> 90 \<or> 97 \<le> n \<and> n \<le> 122) \<or> c = CHR ''-'' \<or> c = CHR ''_'' \<or> c = CHR ''.'' \<or> c = CHR ''~''
     then [c] else [CHR ''%'', ''0123456789ABCDEF'' ! (n div 16), ''0123456789ABCDEF'' ! (n mod 16)])"

definition urlEncode :: "string \<Rightarrow> string" where
  "urlEncode s = concat (map urlEncode_char s)"

definition stream_request :: "string \<Rightarrow> string \<Rightarrow> SubscriptionConfig \<Rightarrow> string \<Rightarrow> WebClient" where
  "stream_request h p cfg authToken = (let
       w = withParams [(''interval'', int_string (intervalSeconds cfg)), (''query'', urlEncode (query cfg))]
         (withTarget ''/graphql/subscribe'' (withPort p (withHost h WebClient_tcp)))
     in if authToken = [] then w
        else w\<lparr>wc_request := (wc_request w)\<lparr>wr_headers := [(''X-Auth-Token'', authToken)]\<rparr>\<rparr>)"

text \<open>
  \<open>runStream\<close> reads frames until the stream ends: \<open>None\<close> is a clean close. \<open>reconnectLoop\<close> waits
  after every stream; the waits are in seconds.
\<close>

fun read_frames ::
  "(string \<Rightarrow> 'f json option) \<Rightarrow> ('f json \<Rightarrow> string) \<Rightarrow> SubscriptionConfig \<Rightarrow> frame list \<Rightarrow> stream_client \<Rightarrow> (error_code \<times> stream_client) option" where
  "read_frames parse str cfg [] s = Some (None, s)"
| "read_frames parse str cfg (Frame ec data # fs) s =
     (if ec = Some End_of_file then Some (None, s)
      else if ec \<noteq> None then Some (ec, s)
      else case handleFrame parse str cfg data s of None \<Rightarrow> None | Some s1 \<Rightarrow> read_frames parse str cfg fs s1)"

fun reconnect_waits :: "nat \<Rightarrow> nat \<Rightarrow> nat list" where
  "reconnect_waits backoff 0 = []"
| "reconnect_waits backoff (Suc n) = backoff # reconnect_waits (min (backoff * 2) 60) n"

section \<open>The bridge\<close>

record bridge =
  proxies :: "proxy_object list"
  registries :: "registry list"

text \<open>The constructor, after the certificates are loaded: one object or one registry per subscription.\<close>

definition build_objects :: "SubscriptionConfig list \<Rightarrow> bridge" where
  "build_objects subs = fold (\<lambda>sub b.
     if isList sub then b\<lparr>registries := registries b @ [\<lparr>reg_iface = dbusInterface sub, reg_fieldMap = fieldMap sub, objs = []\<rparr>]\<rparr>
     else b\<lparr>proxies := proxies b @ [DbusObjectProxy (dbusPath sub) (dbusInterface sub) (fieldMap sub)]\<rparr>) subs
     \<lparr>proxies = [], registries = []\<rparr>"

text \<open>\<open>run\<close>: the token, if a login is needed (\<open>None\<close>: the login failed or threw), and the clients.\<close>

definition bridge_token :: "BridgeConfig \<Rightarrow> errc + rf_response \<Rightarrow> string option" where
  "bridge_token cfg answer = (case auth cfg of
     PasswordAuth user pass \<Rightarrow> (case first_login (new_client (br_host cfg) (br_port cfg) ''https'' user pass) answer of
        (Token t, c) \<Rightarrow> Some t | _ \<Rightarrow> None)
   | _ \<Rightarrow> Some [])"

fun wire :: "SubscriptionConfig list \<Rightarrow> bridge \<Rightarrow> nat \<Rightarrow> nat \<Rightarrow> (SubscriptionConfig \<times> stream_client) list" where
  "wire [] b proxyIdx registryIdx = []"
| "wire (sub # subs) b proxyIdx registryIdx =
     (if isList sub then
        (sub, \<lparr>scalarProxy = None, listRegistry = Some (registries b ! registryIdx), posted_creates = []\<rparr>)
          # wire subs b proxyIdx (Suc registryIdx)
      else (sub, \<lparr>scalarProxy = Some (proxies b ! proxyIdx), listRegistry = None, posted_creates = []\<rparr>)
          # wire subs b (Suc proxyIdx) registryIdx)"

definition bridge_run :: "BridgeConfig \<Rightarrow> errc + rf_response \<Rightarrow> (string \<times> (SubscriptionConfig \<times> stream_client) list) option" where
  "bridge_run cfg answer = (case bridge_token cfg answer of
     None \<Rightarrow> None
   | Some t \<Rightarrow> Some (t, wire (subscriptions cfg) (build_objects (subscriptions cfg)) 0 0))"


section \<open>The objects mirror the payloads\<close>




















section \<open>The subscription reaches the server\<close>

lemma hex_table: "n < 16 \<Longrightarrow> ''0123456789ABCDEF'' ! n = hex_digit n"
proof -
  have "\<forall>n\<in>set [0..<16]. ''0123456789ABCDEF'' ! n = hex_digit n" by code_simp
  then show "n < 16 \<Longrightarrow> ?thesis" by simp
qed

lemma urlEncode_char_eq: "urlEncode_char c = encode_char c"
proof -
  have u: "c = CHR ''-'' \<longleftrightarrow> of_char c = (45 :: nat)" "c = CHR ''_'' \<longleftrightarrow> of_char c = (95 :: nat)"
    "c = CHR ''.'' \<longleftrightarrow> of_char c = (46 :: nat)" "c = CHR ''~'' \<longleftrightarrow> of_char c = (126 :: nat)"
    by (simp_all flip: of_char_eq_iff [where ?'a = nat])
  have "of_char c mod 16 < (16 :: nat)" by simp
  then show ?thesis
    using of_char_small [of c]
    by (auto simp: urlEncode_char_def encode_char_def unreserved_def hex_table Let_def u)
qed

lemma urlEncode_eq: "urlEncode s = url_encode s"
proof -
  have "urlEncode_char = encode_char" by (rule ext) (rule urlEncode_char_eq)
  then show ?thesis by (simp add: urlEncode_def url_encode_def)
qed

lemma url_encode_unreserved: "list_all unreserved s \<Longrightarrow> url_encode s = s"
  by (induction s) (auto simp: url_encode_def encode_char_def)

lemma int_string_unreserved: "list_all unreserved (int_string i)"
proof -
  have "list_all unreserved (to_string n)" for n
    using to_string_digits [of n] by (auto simp: list_all_iff is_digit_def unreserved_def Let_def)
  then show ?thesis by (simp add: int_string_def) (simp add: unreserved_def)
qed

text \<open>
  The request of a subscription is parsed by the server of this library back into the interval
  and exactly the configured query, whatever characters that contains.
\<close>

theorem subscription_reaches_server:
  "parse_function (msg_target (buildRequest (stream_request h p cfg tok))) =
     \<lparr>fn_name = ''/graphql/subscribe'', fn_params = [(''interval'', int_string (intervalSeconds cfg)), (''query'', query cfg)]\<rparr>"
proof -
  let ?kvs = "[(''interval'', int_string (intervalSeconds cfg)), (''query'', query cfg)]"
  have "msg_target (buildRequest (stream_request h p cfg tok)) = build_target ''/graphql/subscribe'' ?kvs"
    using url_encode_unreserved [OF int_string_unreserved [of "intervalSeconds cfg"]]
    by (simp add: stream_request_def Let_def buildRequest_def withParams_def withTarget_def build_target_def
        query_token_def join_def urlEncode_eq)
  then show ?thesis using parse_build [of "''/graphql/subscribe''" ?kvs] by (simp add: key_ok_def)
qed

section \<open>Wiring\<close>

definition registry_for :: "SubscriptionConfig \<Rightarrow> registry" where
  "registry_for sub = \<lparr>reg_iface = dbusInterface sub, reg_fieldMap = fieldMap sub, objs = []\<rparr>"

definition proxy_for :: "SubscriptionConfig \<Rightarrow> proxy_object" where
  "proxy_for sub = DbusObjectProxy (dbusPath sub) (dbusInterface sub) (fieldMap sub)"

definition client_for :: "SubscriptionConfig \<Rightarrow> stream_client" where
  "client_for sub = \<lparr>scalarProxy = (if isList sub then None else Some (proxy_for sub)),
     listRegistry = (if isList sub then Some (registry_for sub) else None), posted_creates = []\<rparr>"

lemma build_objects_lists:
  "build_objects subs = \<lparr>proxies = map proxy_for (filter (\<lambda>s. \<not> isList s) subs), registries = map registry_for (filter isList subs)\<rparr>"
proof -
  have "fold (\<lambda>sub b.
     if isList sub then b\<lparr>registries := registries b @ [\<lparr>reg_iface = dbusInterface sub, reg_fieldMap = fieldMap sub, objs = []\<rparr>]\<rparr>
     else b\<lparr>proxies := proxies b @ [DbusObjectProxy (dbusPath sub) (dbusInterface sub) (fieldMap sub)]\<rparr>) subs
     \<lparr>proxies = ps, registries = rs\<rparr> =
     \<lparr>proxies = ps @ map proxy_for (filter (\<lambda>s. \<not> isList s) subs), registries = rs @ map registry_for (filter isList subs)\<rparr>" for ps rs
    by (induction subs arbitrary: ps rs) (simp_all add: proxy_for_def registry_for_def)
  then show ?thesis by (simp add: build_objects_def)
qed

lemma wire_result:
  assumes "proxies b = ps @ map proxy_for (filter (\<lambda>s. \<not> isList s) subs)" "registries b = rs @ map registry_for (filter isList subs)"
  shows "wire subs b (length ps) (length rs) = map (\<lambda>sub. (sub, client_for sub)) subs"
  using assms
proof (induction subs arbitrary: ps rs)
  case (Cons sub subs)
  show ?case
  proof (cases "isList sub")
    case True
    then show ?thesis using Cons.IH [of ps "rs @ [registry_for sub]"] Cons.prems by (simp add: client_for_def)
  next
    case False
    then show ?thesis using Cons.IH [of "ps @ [proxy_for sub]" rs] Cons.prems by (simp add: client_for_def)
  qed
qed simp

text \<open>
  The streams start exactly when no login is needed or the login gave a token; then every
  subscription has one stream, with the objects made for that subscription and no others.
\<close>

theorem streams_wired_to_own_objects:
  "bridge_run cfg answer = (case auth cfg of
     PasswordAuth user pass \<Rightarrow> (case answer of
        Inr res \<Rightarrow> (if rf_status res = 201 then map_option (\<lambda>t. (t, map (\<lambda>sub. (sub, client_for sub)) (subscriptions cfg)))
            (map_of (rf_fields res) ''X-Auth-Token'') else None)
      | Inl e \<Rightarrow> None)
   | _ \<Rightarrow> Some ([], map (\<lambda>sub. (sub, client_for sub)) (subscriptions cfg)))"
proof -
  let ?b = "build_objects (subscriptions cfg)"
  have w: "wire (subscriptions cfg) ?b 0 0 = map (\<lambda>sub. (sub, client_for sub)) (subscriptions cfg)"
    using wire_result [of ?b "[]" "subscriptions cfg" "[]"] by (simp add: build_objects_lists)
  have "bridge_token cfg answer = (case auth cfg of
     PasswordAuth user pass \<Rightarrow> (case answer of
        Inr res \<Rightarrow> (if rf_status res = 201 then map_of (rf_fields res) ''X-Auth-Token'' else None)
      | Inl e \<Rightarrow> None)
   | _ \<Rightarrow> Some [])"
  proof (cases "auth cfg")
    case (PasswordAuth user pass)
    obtain x c where l: "first_login (new_client (br_host cfg) (br_port cfg) ''https'' user pass) answer = (x, c)" by fastforce
    from first_login_result(1) [OF l] PasswordAuth l show ?thesis
      by (auto simp: bridge_token_def split: sum.splits option.splits if_splits)
  qed (simp_all add: bridge_token_def)
  then show ?thesis unfolding bridge_run_def w
    by (auto split: AuthConfig.split sum.split option.split)
qed

section \<open>The objects of a subscription mirror its events\<close>












subsection \<open>One object\<close>



subsection \<open>The objects of a list\<close>
















section \<open>Lists, waits, and what goes wrong\<close>

text \<open>
  The first event about an item of a list only creates its object; the values it carries are
  dropped, and the object shows empty strings until the next event.
\<close>

lemma first_item_event_dropped:
  assumes "listRegistry s = Some r" "\<not> registry_has (item_path cfg item) r" "posted_creates s = []"
    "s1 = the (apply_item str cfg item s)" "listRegistry (run_posted s1) = Some r1"
  shows "apply_item str cfg item s = Some s1 \<and>
    map_of (objs r1) (item_path cfg item) = Some (DbusObjectProxy (item_path cfg item) (reg_iface r) (reg_fieldMap r))"
  using assms by (auto simp: apply_item_def Let_def run_posted_def registry_create_def)

text \<open>The waits between two streams double from 5 up to 60 seconds, and never go down again.\<close>

lemma reconnect_waits_nth: "b \<le> 60 \<Longrightarrow> i < n \<Longrightarrow> reconnect_waits b n ! i = min (b * 2 ^ i) 60"
proof (induction n arbitrary: b i)
  case (Suc n)
  show ?case
  proof (cases i)
    case 0
    then show ?thesis using Suc.prems by simp
  next
    case (Suc j)
    have "reconnect_waits (min (b * 2) 60) n ! j = min (min (b * 2) 60 * 2 ^ j) 60"
      using Suc.IH [of "min (b * 2) 60" j] Suc.prems \<open>i = Suc j\<close> by simp
    also have "\<dots> = min (b * 2 ^ i) 60"
    proof (cases "b * 2 \<le> 60")
      case False
      have "60 * 1 \<le> 60 * (2 :: nat) ^ j" "60 * 1 \<le> b * 2 * 2 ^ j" using False by (intro mult_le_mono; simp)+
      then have "60 \<le> min (b * 2) 60 * 2 ^ j" "60 \<le> b * 2 ^ i" using False Suc by (simp_all add: mult.assoc)
      then show ?thesis by simp
    qed (simp add: Suc)
    finally show ?thesis using Suc by simp
  qed
qed simp

text \<open>An unsigned number of 64 bits with its top bit set is shown as a negative one.\<close>

lemma large_number_negative: "toStr dump ftoa (JInt (2 ^ 63)) = int_string (- (2 ^ 63))"
proof -
  have "sint (word_of_int (2 ^ 63) :: 64 word) = - (2 ^ 63)"
    by (simp add: sint_word_ariths signed_take_bit_eq_if_negative sint_sbintrunc')
  then show ?thesis by simp
qed

text \<open>The loader throws on a configuration of the wrong shape.\<close>

lemma config_can_throw: "loadBridgeConfig trunc p (Some (Some (JArr []))) = Inl (Raised Type_error)"
  by (simp add: loadBridgeConfig_def json_value_def raised_def)





end
