(* ===== verification/DbusWatcher.thy ===== *)
theory DbusWatcher
  imports Prelude "HOL-Library.Sublist" "HOL-Library.Multiset"
begin

text \<open>
  D-Bus properties and watchers (\<open>src/include/sdbus_calls.hpp\<close>,
  \<open>src/include/dbusproperty_watcher.hpp\<close>).

  The first section models the typed access to properties and the calls that the wrappers
  make. C++ leaves the order open in which the arguments of \<open>std::make_tuple\<close> are evaluated, and
  \<open>getPropertiesFromMapImpl\<close> threads its error code through them: the order is an argument of the
  model. The second section models a watcher as a step function. The atomic steps are the
  notifications of sd-bus, the expiry of the timer and the continuation of a suspended callback: completing
  the promise of \<open>co_await h()\<close> runs the coroutine on the spot until it suspends again. What a
  callback does is part of the event. sdbusplus (reading messages, transporting calls) is a
  parameter: the outcome of a call is an argument, a message is its content or \<open>None\<close> when
  reading it throws.
\<close>

section \<open>Properties\<close>

datatype prop_type = T_bool | T_int32 | T_string | T_uint32

datatype dbus_variant = V_bool bool | V_int32 "32 word" | V_string string | V_uint32 "32 word"

type_synonym PropertyMap = "(string \<times> dbus_variant) list"

fun variant_type :: "dbus_variant \<Rightarrow> prop_type" where
  "variant_type (V_bool _) = T_bool"
| "variant_type (V_int32 _) = T_int32"
| "variant_type (V_string _) = T_string"
| "variant_type (V_uint32 _) = T_uint32"

fun getDefaultValue :: "prop_type \<Rightarrow> dbus_variant" where
  "getDefaultValue T_bool = V_bool False"
| "getDefaultValue T_int32 = V_int32 0"
| "getDefaultValue T_string = V_string []"
| "getDefaultValue T_uint32 = V_uint32 0"

text \<open>\<open>boost::asio::error::not_found\<close> is the code 3 of a category of its own, outside the range of errno.\<close>

abbreviation Not_found :: errc where "Not_found \<equiv> Sys_error 10003"

definition getPropertyFromMap :: "prop_type \<Rightarrow> error_code \<Rightarrow> PropertyMap \<Rightarrow> string \<Rightarrow> error_code \<times> dbus_variant" where
  "getPropertyFromMap t ec propMap argname =
     (if ec \<noteq> None then (ec, getDefaultValue t)
      else case map_of propMap argname of
        None \<Rightarrow> (Some Not_found, getDefaultValue t)
      | Some v \<Rightarrow> if variant_type v \<noteq> t then (Some Invalid_argument, getDefaultValue t) else (None, v))"

text \<open>The arguments of the tuple, evaluated in the order \<open>is\<close>.\<close>

fun getPropertiesFromMapImpl ::
  "PropertyMap \<Rightarrow> (prop_type \<times> string) list \<Rightarrow> nat list \<Rightarrow> error_code \<times> dbus_variant list \<Rightarrow> error_code \<times> dbus_variant list"
where
  "getPropertiesFromMapImpl propMap args [] r = r"
| "getPropertiesFromMapImpl propMap args (i # order) (ec, vs) =
     (case getPropertyFromMap (fst (args ! i)) ec propMap (snd (args ! i)) of
        (ec', v) \<Rightarrow> getPropertiesFromMapImpl propMap args order (ec', vs[i := v]))"

definition getPropertiesFromMap :: "nat list \<Rightarrow> PropertyMap \<Rightarrow> (prop_type \<times> string) list \<Rightarrow> error_code \<times> dbus_variant list" where
  "getPropertiesFromMap order propMap args =
     getPropertiesFromMapImpl propMap args order (None, map (getDefaultValue \<circ> fst) args)"

subsection \<open>Calls\<close>

datatype dbus_arg = A_string string | A_int int | A_strings "string list"

record dbus_call =
  call_service :: string
  call_objpath :: string
  call_interf :: string
  call_member :: string
  call_args :: "dbus_arg list"

definition objectMapperService :: string where "objectMapperService = ''xyz.openbmc_project.ObjectMapper''"
definition objectMapperPath :: string where "objectMapperPath = ''/xyz/openbmc_project/object_mapper''"
definition objectMapperInterface :: string where "objectMapperInterface = ''xyz.openbmc_project.ObjectMapper''"
definition dbusPropertiesInterface :: string where "dbusPropertiesInterface = ''org.freedesktop.DBus.Properties''"
definition dbusObjectManagerInterface :: string where "dbusObjectManagerInterface = ''org.freedesktop.DBus.ObjectManager''"
definition dbusIntrospectableInterface :: string where "dbusIntrospectableInterface = ''org.freedesktop.DBus.Introspectable''"
definition associationInterface :: string where "associationInterface = ''xyz.openbmc_project.Association''"

text \<open>
  A reply to \<open>Get\<close> that holds another type than the one asked for is read as \<open>std::monostate\<close>.
\<close>

definition getProperty ::
  "prop_type \<Rightarrow> (dbus_call \<Rightarrow> error_code \<times> dbus_variant option) \<Rightarrow> string \<Rightarrow> string \<Rightarrow> string \<Rightarrow> string \<Rightarrow> error_code \<times> dbus_variant"
where
  "getProperty t bus service objpath interf property =
     (case bus \<lparr>call_service = service, call_objpath = objpath, call_interf = dbusPropertiesInterface,
                call_member = ''Get'', call_args = [A_string interf, A_string property]\<rparr> of
        (Some e, value) \<Rightarrow> (Some e, getDefaultValue t)
      | (None, Some v) \<Rightarrow> if variant_type v = t then (None, v) else (Some Invalid_argument, getDefaultValue t)
      | (None, None) \<Rightarrow> (Some Invalid_argument, getDefaultValue t))"

definition getAllProperties :: "string \<Rightarrow> string \<Rightarrow> string \<Rightarrow> dbus_call" where
  "getAllProperties service path interface = \<lparr>call_service = service, call_objpath = path,
     call_interf = dbusPropertiesInterface, call_member = ''GetAll'', call_args = [A_string interface]\<rparr>"

definition callObjectMapperMethod :: "string \<Rightarrow> dbus_arg list \<Rightarrow> dbus_call" where
  "callObjectMapperMethod member args = \<lparr>call_service = objectMapperService, call_objpath = objectMapperPath,
     call_interf = objectMapperInterface, call_member = member, call_args = args\<rparr>"

definition getSubTree :: "string \<Rightarrow> int \<Rightarrow> string list \<Rightarrow> dbus_call" where
  "getSubTree path depth interfaces =
     callObjectMapperMethod ''GetSubTree'' [A_string path, A_int depth, A_strings interfaces]"

definition getObjects :: "string \<Rightarrow> string list \<Rightarrow> dbus_call" where
  "getObjects path interfaces = callObjectMapperMethod ''GetObject'' [A_string path, A_strings interfaces]"

definition getSubTreePaths :: "string \<Rightarrow> int \<Rightarrow> string list \<Rightarrow> dbus_call" where
  "getSubTreePaths path depth interfaces =
     callObjectMapperMethod ''GetSubTreePaths'' [A_string path, A_int depth, A_strings interfaces]"

definition getAssociatedSubTree :: "string \<Rightarrow> string \<Rightarrow> int \<Rightarrow> string list \<Rightarrow> dbus_call" where
  "getAssociatedSubTree associatedPath path depth interfaces = callObjectMapperMethod ''GetAssociatedSubTree''
     [A_string associatedPath, A_string path, A_int depth, A_strings interfaces]"

definition getAssociatedSubTreePaths :: "string \<Rightarrow> string \<Rightarrow> int \<Rightarrow> string list \<Rightarrow> dbus_call" where
  "getAssociatedSubTreePaths associatedPath path depth interfaces = callObjectMapperMethod ''GetAssociatedSubTreePaths''
     [A_string associatedPath, A_string path, A_int depth, A_strings interfaces]"

definition getAssociatedSubTreeById :: "string \<Rightarrow> string \<Rightarrow> string list \<Rightarrow> string \<Rightarrow> string list \<Rightarrow> dbus_call" where
  "getAssociatedSubTreeById ident path subtreeInterfaces association endpointInterfaces =
     callObjectMapperMethod ''GetAssociatedSubTreeById'' [A_string ident, A_string path,
       A_strings subtreeInterfaces, A_string association, A_strings endpointInterfaces]"

definition getAssociatedSubTreePathsById :: "string \<Rightarrow> string \<Rightarrow> string list \<Rightarrow> string \<Rightarrow> string list \<Rightarrow> dbus_call" where
  "getAssociatedSubTreePathsById ident path subtreeInterfaces association endpointInterfaces =
     callObjectMapperMethod ''GetAssociatedSubTreePathsById'' [A_string ident, A_string path,
       A_strings subtreeInterfaces, A_string association, A_strings endpointInterfaces]"

definition getDbusObject :: "string \<Rightarrow> string list \<Rightarrow> dbus_call" where
  "getDbusObject path interfaces = callObjectMapperMethod ''GetObject'' [A_string path, A_strings interfaces]"

definition getManagedObjects :: "string \<Rightarrow> string \<Rightarrow> dbus_call" where
  "getManagedObjects service path = \<lparr>call_service = service, call_objpath = path,
     call_interf = dbusObjectManagerInterface, call_member = ''GetManagedObjects'', call_args = []\<rparr>"

definition getAncestors :: "string \<Rightarrow> string list \<Rightarrow> dbus_call" where
  "getAncestors path interfaces = callObjectMapperMethod ''GetAncestors'' [A_string path, A_strings interfaces]"

definition introspect :: "string \<Rightarrow> string \<Rightarrow> dbus_call" where
  "introspect service path = \<lparr>call_service = service, call_objpath = path,
     call_interf = dbusIntrospectableInterface, call_member = ''Introspect'', call_args = []\<rparr>"

section \<open>Watchers\<close>

datatype watch_phase = Waiting nat | In_callback bool | Ended

datatype watch_timer = Unarmed | Armed | Fired | Cancelled

text \<open>
  The promises are numbered. \<open>propHandler\<close> is the promise that the handler completes,
  \<open>fulfilled\<close> those that were completed, \<open>w_calls\<close> the calls of the callback. \<open>In_callback go_on\<close>: the
  callback is suspended, \<open>go_on\<close> is whether the loop may go on after it.
\<close>

record 'v watch =
  propHandler :: "nat option"
  promises :: nat
  fulfilled :: "nat list"
  w_phase :: watch_phase
  w_timer :: watch_timer
  w_calls :: "(error_code \<times> 'v option) list"

text \<open>What a callback does until it suspends; a callback without a result returns \<open>True\<close>.\<close>

datatype act = Suspends | Returns bool

definition makeWatchHandler :: "'v watch \<Rightarrow> 'v watch" where
  "makeWatchHandler s = s\<lparr>propHandler := Some (promises s), promises := Suc (promises s), w_phase := Waiting (promises s)\<rparr>"

definition watch_end :: "'v watch \<Rightarrow> 'v watch" where
  "watch_end s = s\<lparr>w_phase := Ended, w_timer := (if w_timer s = Armed then Cancelled else w_timer s)\<rparr>"

definition after_callback :: "bool \<Rightarrow> bool \<Rightarrow> 'v watch \<Rightarrow> 'v watch" where
  "after_callback go_on result s = (if go_on \<and> result then makeWatchHandler s else watch_end s)"

definition callback :: "bool \<Rightarrow> error_code \<times> 'v option \<Rightarrow> act \<Rightarrow> 'v watch \<Rightarrow> 'v watch" where
  "callback go_on arg a s = (let s1 = s\<lparr>w_calls := w_calls s @ [arg]\<rparr> in
     case a of Suspends \<Rightarrow> s1\<lparr>w_phase := In_callback go_on\<rparr> | Returns b \<Rightarrow> after_callback go_on b s1)"

text \<open>The body of the loop after \<open>co_await h()\<close>.\<close>

definition watch_resume :: "error_code \<Rightarrow> 'v \<Rightarrow> act \<Rightarrow> 'v watch \<Rightarrow> 'v watch" where
  "watch_resume ec res a s = (case ec of
     None \<Rightarrow> callback True (None, Some res) a s
   | Some e \<Rightarrow>
       if e = Operation_aborted then callback False (Some Timed_out, None) a s
       else if e \<noteq> No_such_device then callback False (Some e, None) a (s\<lparr>propHandler := None\<rparr>)
       else makeWatchHandler s)"

definition notifyChange :: "error_code \<Rightarrow> 'v \<Rightarrow> act \<Rightarrow> 'v watch \<Rightarrow> 'v watch" where
  "notifyChange ec value a s = (case propHandler s of
     None \<Rightarrow> s
   | Some n \<Rightarrow> watch_resume ec value a (s\<lparr>propHandler := None, fulfilled := fulfilled s @ [n]\<rparr>))"

text \<open>\<open>cancelWatch\<close> passes a default-constructed value, \<open>v0\<close>.\<close>

definition cancelWatch :: "'v \<Rightarrow> act \<Rightarrow> 'v watch \<Rightarrow> 'v watch" where
  "cancelWatch v0 a s = (case propHandler s of
     None \<Rightarrow> s
   | Some n \<Rightarrow> watch_resume (Some Operation_aborted) v0 a (s\<lparr>propHandler := None, fulfilled := fulfilled s @ [n]\<rparr>))"

definition watch_start :: "bool \<Rightarrow> 'v watch" where
  "watch_start finite_timeout = makeWatchHandler \<lparr>propHandler = None, promises = 0, fulfilled = [],
     w_phase = Ended, w_timer = (if finite_timeout then Armed else Unarmed), w_calls = []\<rparr>"

datatype 'v watch_event = Notify error_code 'v act | Timer_fires act | Callback_resumes act

fun watch_step :: "'v \<Rightarrow> 'v watch_event \<Rightarrow> 'v watch \<Rightarrow> 'v watch" where
  "watch_step v0 (Notify ec value a) s = notifyChange ec value a s"
| "watch_step v0 (Timer_fires a) s = (if w_timer s = Armed then cancelWatch v0 a (s\<lparr>w_timer := Fired\<rparr>) else s)"
| "watch_step v0 (Callback_resumes a) s = (case w_phase s of
     In_callback go_on \<Rightarrow> (case a of Suspends \<Rightarrow> s | Returns b \<Rightarrow> after_callback go_on b s)
   | _ \<Rightarrow> s)"

text \<open>
  \<open>watchOnce\<close>: its coroutine needs no further event once the promise is completed. The last
  component is the result once it has returned.
\<close>

record 'v watch_once =
  once_handler :: bool
  once_timer :: watch_timer
  once_result :: "'v option option"

definition once_start :: "'v watch_once" where
  "once_start = \<lparr>once_handler = True, once_timer = Armed, once_result = None\<rparr>"

definition once_resume :: "error_code \<Rightarrow> 'v \<Rightarrow> 'v watch_once \<Rightarrow> 'v watch_once" where
  "once_resume ec res s = s\<lparr>once_handler := False,
     once_timer := (if once_timer s = Armed then Cancelled else once_timer s),
     once_result := Some (if ec = None then Some res else None)\<rparr>"

fun watchOnce_step :: "'v \<Rightarrow> 'v watch_event \<Rightarrow> 'v watch_once \<Rightarrow> 'v watch_once" where
  "watchOnce_step v0 (Notify ec value _) s = (if once_handler s then once_resume ec value s else s)"
| "watchOnce_step v0 (Timer_fires _) s = (if once_timer s = Armed
     then (let s1 = s\<lparr>once_timer := Fired\<rparr> in
           if once_handler s1 then once_resume (Some Operation_aborted) v0 s1 else s1) else s)"
| "watchOnce_step v0 (Callback_resumes _) s = s"

text \<open>
  What a watcher of the property \<open>p\<close> of type \<open>t\<close> makes of a message; the trampoline \<open>MatchContext::callback\<close> drops
  a message whose reading throws.
\<close>

definition handlePropertyChange :: "prop_type \<Rightarrow> string \<Rightarrow> PropertyMap option \<Rightarrow> (error_code \<times> dbus_variant) option" where
  "handlePropertyChange t p msg = (case msg of
     None \<Rightarrow> None
   | Some changedProperties \<Rightarrow> (case getPropertiesFromMap [0] changedProperties [(t, p)] of (ec, vs) \<Rightarrow>
       if ec \<noteq> None \<and> ec \<noteq> Some Not_found then Some (ec, getDefaultValue t) else Some (None, vs ! 0)))"

text \<open>A signal watcher reads its value from the message.\<close>

definition handleSignalChange :: "'v option \<Rightarrow> (error_code \<times> 'v) option" where
  "handleSignalChange msg = map_option (Pair None) msg"

text \<open>
  The static \<open>watch\<close>: no time-out, and its callback spawns the user's coroutine and returns, so it never
  suspends. \<open>w_calls\<close> are the coroutines spawned.
\<close>

definition static_watch :: "'v \<Rightarrow> (error_code \<times> 'v) list \<Rightarrow> 'v watch" where
  "static_watch v0 ns = fold (\<lambda>(ec, v). watch_step v0 (Notify ec v (Returns True))) ns (watch_start False)"

section \<open>Reading properties in any order\<close>

definition failure :: "PropertyMap \<Rightarrow> prop_type \<times> string \<Rightarrow> error_code" where
  "failure m arg = (case map_of m (snd arg) of
     None \<Rightarrow> Some Not_found
   | Some v \<Rightarrow> if variant_type v = fst arg then None else Some Invalid_argument)"

lemma default_type [simp]: "variant_type (getDefaultValue t) = t"
  by (cases t) simp_all

lemma property_type [simp]: "variant_type (snd (getPropertyFromMap t ec m n)) = t"
  by (simp add: getPropertyFromMap_def split: option.splits)

lemma property_failure: "getPropertyFromMap t None m n = (failure m (t, n),
    if failure m (t, n) = None then the (map_of m n) else getDefaultValue t)"
  by (simp add: getPropertyFromMap_def failure_def split: option.splits)

lemma failure_None: "failure m arg = None \<longleftrightarrow> (\<exists>v. map_of m (snd arg) = Some v \<and> variant_type v = fst arg)"
  by (simp add: failure_def split: option.splits)

lemma impl_failed: "fst (getPropertiesFromMapImpl m args order (Some e, vs)) = Some e"
  by (induction order arbitrary: vs) (simp_all add: getPropertyFromMap_def)

lemma impl_types:
  assumes "map variant_type vs = map fst args" "set order \<subseteq> {..<length args}"
  shows "map variant_type (snd (getPropertiesFromMapImpl m args order (ec, vs))) = map fst args"
  using assms
proof (induction order arbitrary: ec vs)
  case (Cons i order)
  obtain ec' v where g: "getPropertyFromMap (fst (args ! i)) ec m (snd (args ! i)) = (ec', v)" by fastforce
  have "variant_type v = fst (args ! i)" using property_type [of "fst (args ! i)" ec m "snd (args ! i)"] g by simp
  then have "map variant_type (vs[i := v]) = map fst args"
    using Cons.prems by (metis list_update_id lessThan_iff list.set_intros(1) map_update nth_map subset_iff)
  with Cons g show ?case by simp
qed simp

lemma impl_values:
  assumes "length vs = length args" "distinct order" "set order \<subseteq> {..<length args}"
    and r: "getPropertiesFromMapImpl m args order (None, vs) = (ec, ws)"
  shows "(ec = None \<longleftrightarrow> (\<forall>i\<in>set order. failure m (args ! i) = None)) \<and>
    (ec \<noteq> None \<longrightarrow> (\<exists>i\<in>set order. failure m (args ! i) = ec)) \<and>
    (ec = None \<longrightarrow> length ws = length args \<and> (\<forall>i<length args. ws ! i =
        (if i \<in> set order then the (map_of m (snd (args ! i))) else vs ! i)))"
  using assms
proof (induction order arbitrary: vs)
  case (Cons i order)
  show ?case
  proof (cases "failure m (args ! i)")
    case None
    let ?v = "the (map_of m (snd (args ! i)))"
    have "getPropertiesFromMapImpl m args order (None, vs[i := ?v]) = (ec, ws)"
      using Cons.prems(4) None by (simp add: property_failure)
    with Cons.IH [of "vs[i := ?v]"] Cons.prems None show ?thesis by (auto simp: nth_list_update)
  next
    case (Some e)
    then have "ec = Some e"
      using Cons.prems(4) impl_failed [of m args order e] by (simp add: property_failure) (metis fst_conv)
    with Some show ?thesis by auto
  qed
qed simp

text \<open>
  In whatever order a compiler evaluates the arguments: the values have the types asked for;
  there is no error exactly when every property is present with its type, and then each value is that of its
  property; and an error is one that a requested property really has.
\<close>

theorem properties_in_any_order:
  assumes "mset order = mset [0..<length args]" "getPropertiesFromMap order m args = (ec, vs)"
  shows "map variant_type vs = map fst args \<and>
    (ec = None \<longleftrightarrow> (\<forall>(t, n)\<in>set args. \<exists>v. map_of m n = Some v \<and> variant_type v = t)) \<and>
    (ec = None \<longrightarrow> map Some vs = map (\<lambda>(t, n). map_of m n) args) \<and>
    (ec \<noteq> None \<longrightarrow> (\<exists>(t, n)\<in>set args. ec = (if map_of m n = None then Some Not_found else Some Invalid_argument)))"
proof -
  have o: "distinct order" "set order = {..<length args}"
    using assms(1) by (metis distinct_upt mset_eq_imp_distinct_iff, metis atLeast_upt mset_eq_setD)
  have i: "getPropertiesFromMapImpl m args order (None, map (getDefaultValue \<circ> fst) args) = (ec, vs)"
    using assms(2) by (simp add: getPropertiesFromMap_def)
  note v = impl_values [OF _ o(1) _ i]
  have all: "(\<forall>i<length args. failure m (args ! i) = None) \<longleftrightarrow>
      (\<forall>(t, n)\<in>set args. \<exists>v. map_of m n = Some v \<and> variant_type v = t)"
    by (simp add: all_set_conv_all_nth case_prod_beta failure_None)
  have "map variant_type vs = map fst args"
    using impl_types [of "map (getDefaultValue \<circ> fst) args" args order m None] i o(2) by (simp add: comp_def)
  moreover have none: "ec = None \<longleftrightarrow> (\<forall>(t, n)\<in>set args. \<exists>v. map_of m n = Some v \<and> variant_type v = t)"
    using v o(2) all by auto
  moreover have "map Some vs = map (\<lambda>(t, n). map_of m n) args" if "ec = None"
  proof (rule nth_equalityI)
    show "length (map Some vs) = length (map (\<lambda>(t, n). map_of m n) args)" using v o(2) that by simp
    fix i assume "i < length (map Some vs)"
    then have "i < length args" "vs ! i = the (map_of m (snd (args ! i)))" using v o(2) that by auto
    moreover have "map_of m (snd (args ! i)) \<noteq> None" using none that \<open>i < length args\<close> nth_mem by fastforce
    ultimately show "map Some vs ! i = map (\<lambda>(t, n). map_of m n) args ! i"
      using \<open>i < length (map Some vs)\<close> by (simp add: case_prod_unfold)
  qed
  moreover have "\<exists>(t, n)\<in>set args. ec = (if map_of m n = None then Some Not_found else Some Invalid_argument)" if "ec \<noteq> None"
  proof -
    from v o(2) that obtain i where "i < length args" "failure m (args ! i) = ec" by auto
    with that show ?thesis
      by (intro bexI [of _ "args ! i"]) (auto simp: failure_def split: option.splits if_splits prod.splits)
  qed
  ultimately show ?thesis by blast
qed

text \<open>
  The documentation says that the values after the first error are default values. With the
  arguments evaluated from the right, as some compilers do, those before it are.
\<close>

lemma right_to_left_loses_left:
  "getPropertiesFromMap [1, 0] [(''Speed'', V_uint32 9)] [(T_uint32, ''Speed''), (T_bool, ''Up'')] =
     (Some Not_found, [V_uint32 0, V_bool False])"
  by (simp add: getPropertiesFromMap_def getPropertyFromMap_def)

theorem properties_in_any_order_witness:
  "getPropertiesFromMap [1, 0] [(''Up'', V_bool True), (''Speed'', V_uint32 9)] [(T_uint32, ''Speed''), (T_bool, ''Up'')] =
     (None, [V_uint32 9, V_bool True])"
proof -
  let ?m = "[(''Up'', V_bool True), (''Speed'', V_uint32 9)]"
  let ?args = "[(T_uint32, ''Speed''), (T_bool, ''Up'')]"
  obtain ec vs where r: "getPropertiesFromMap [1, 0] ?m ?args = (ec, vs)" by fastforce
  have "mset [1, 0] = mset [0..<length ?args]" by simp
  from properties_in_any_order [OF this r] have "ec = None" "map Some vs = [Some (V_uint32 9), Some (V_bool True)]" by auto
  then show ?thesis using r by (auto simp: map_eq_Cons_conv)
qed

text \<open>A typed read is type safe as well, and reports an error exactly when the reply has none or another type.\<close>

lemma getProperty_typed:
  "variant_type (snd (getProperty t bus service objpath interf property)) = t"
  by (simp add: getProperty_def split: prod.splits option.splits)

section \<open>The protocol of a watch\<close>

text \<open>The values notified without an error.\<close>

fun notified :: "'v watch_event list \<Rightarrow> 'v list" where
  "notified [] = []"
| "notified (Notify None v a # evs) = v # notified evs"
| "notified (ev # evs) = notified evs"

definition handler_ok :: "'v watch \<Rightarrow> bool" where
  "handler_ok s = (case w_phase s of
     Waiting n \<Rightarrow> propHandler s = Some n \<and> promises s = Suc n \<and> fulfilled s = [0..<n]
   | _ \<Rightarrow> propHandler s = None \<and> fulfilled s = [0..<promises s])"

definition calls_ok :: "'v list \<Rightarrow> 'v watch \<Rightarrow> bool" where
  "calls_ok ns s \<longleftrightarrow> (\<exists>vs. subseq vs ns \<and> (w_calls s = map (\<lambda>v. (None, Some v)) vs \<or>
     ((\<exists>e. w_calls s = map (\<lambda>v. (None, Some v)) vs @ [(Some e, None)]) \<and> w_phase s \<in> {In_callback False, Ended})))"

lemma notified_append: "notified (xs @ ys) = notified xs @ notified ys"
  by (induction xs rule: notified.induct) simp_all

lemma calls_ok_more: "calls_ok ns s \<Longrightarrow> calls_ok (ns @ ms) s"
  unfolding calls_ok_def by (blast intro: list_emb_prefix)

lemmas watch_ops = makeWatchHandler_def watch_end_def after_callback_def callback_def watch_resume_def
  notifyChange_def cancelWatch_def Let_def

lemma resume_handler_ok:
  assumes "handler_ok s" "propHandler s = Some n"
  shows "handler_ok (watch_resume ec v a (s\<lparr>propHandler := None, fulfilled := fulfilled s @ [n]\<rparr>))"
  using assms by (auto simp: handler_ok_def watch_ops split: option.splits act.splits watch_phase.splits)

lemma step_handler_ok: "handler_ok s \<Longrightarrow> handler_ok (watch_step v0 ev s)"
proof (cases ev)
  case (Callback_resumes a)
  then show "handler_ok s \<Longrightarrow> handler_ok (watch_step v0 ev s)"
    by (auto simp: handler_ok_def watch_ops split: act.splits watch_phase.splits)
next
  case (Timer_fires a)
  assume h: "handler_ok s"
  then have "handler_ok (s\<lparr>w_timer := Fired\<rparr>)" by (simp add: handler_ok_def split: watch_phase.splits)
  with resume_handler_ok [of "s\<lparr>w_timer := Fired\<rparr>"] h Timer_fires show ?thesis
    by (auto simp: cancelWatch_def split: option.splits)
qed (auto simp: notifyChange_def intro: resume_handler_ok split: option.splits)

lemma waiting_iff: "handler_ok s \<Longrightarrow> propHandler s = Some n \<Longrightarrow> w_phase s = Waiting n"
  by (auto simp: handler_ok_def split: watch_phase.splits)

lemma resume_calls_ok:
  assumes "calls_ok ns s" "w_phase s = Waiting n"
  shows "calls_ok (ns @ (if ec = None then [v] else [])) (watch_resume ec v a (s\<lparr>propHandler := None, fulfilled := fulfilled s @ [n]\<rparr>))"
proof -
  from assms obtain vs where vs: "subseq vs ns" "w_calls s = map (\<lambda>v. (None, Some v)) vs" by (auto simp: calls_ok_def)
  show ?thesis
  proof (cases ec)
    case None
    have "subseq (vs @ [v]) (ns @ [v])" using vs by (simp add: list_emb_append_mono)
    with vs None show ?thesis
      by (auto simp: calls_ok_def watch_ops split: act.splits intro!: exI [of _ "vs @ [v]"])
  next
    case (Some e)
    with vs show ?thesis
      by (auto simp: calls_ok_def watch_ops split: act.splits intro!: exI [of _ vs])
  qed
qed

lemma step_calls_ok:
  assumes "calls_ok ns s" "handler_ok s"
  shows "calls_ok (ns @ notified [ev]) (watch_step v0 ev s)"
proof (cases ev)
  case (Notify ec v a)
  then have n: "notified [ev] = (if ec = None then [v] else [])" by (cases ec) simp_all
  show ?thesis
  proof (cases "propHandler s")
    case None
    then show ?thesis using Notify assms(1) calls_ok_more by (simp add: notifyChange_def)
  next
    case (Some m)
    show ?thesis
      using resume_calls_ok [OF assms(1) waiting_iff [OF assms(2) Some], of ec v a] Notify Some
      by (simp add: n [unfolded Notify] notifyChange_def)
  qed
next
  case (Timer_fires a)
  have c: "calls_ok ns (s\<lparr>w_timer := Fired\<rparr>)" using assms(1) by (simp add: calls_ok_def)
  show ?thesis
  proof (cases "propHandler s")
    case None
    then show ?thesis using Timer_fires assms(1) c by (simp add: cancelWatch_def)
  next
    case (Some m)
    then show ?thesis
      using resume_calls_ok [OF c, of m "Some Operation_aborted" v0 a] waiting_iff [OF assms(2) Some] Timer_fires assms(1)
      by (simp add: cancelWatch_def)
  qed
next
  case (Callback_resumes a)
  then show ?thesis
    using assms(1) by (auto simp: calls_ok_def watch_ops split: act.splits watch_phase.splits)
qed

lemma watch_run_ok:
  "handler_ok (fold (watch_step v0) evs (watch_start t)) \<and> calls_ok (notified evs) (fold (watch_step v0) evs (watch_start t))"
proof (induction evs rule: rev_induct)
  case Nil
  show ?case by (simp add: watch_start_def handler_ok_def calls_ok_def makeWatchHandler_def)
next
  case (snoc ev evs)
  then show ?case by (simp add: notified_append step_handler_ok step_calls_ok)
qed

text \<open>
  (C40) In every interleaving of notifications, the timer and the callback: each promise is completed
  at most once, in the order they were made; the coroutine waits exactly when the handler holds the
  promise it waits for, so a notification always finds it; the callback gets a
  subsequence of the values notified, in order, and an error or the time-out once at most, after
  everything else, and then the watch waits no more.
\<close>

theorem watch_protocol:
  assumes "s = fold (watch_step v0) evs (watch_start finite_timeout)"
  shows "fulfilled s = [0..<length (fulfilled s)] \<and>
    (\<forall>n. w_phase s = Waiting n \<longleftrightarrow> propHandler s = Some n) \<and>
    (\<forall>n. w_phase s = Waiting n \<longrightarrow> n \<notin> set (fulfilled s)) \<and>
    (\<exists>vs report. w_calls s = map (\<lambda>v. (None, Some v)) vs @ report \<and> subseq vs (notified evs) \<and>
       (report = [] \<or> (\<exists>e. report = [(Some e, None)] \<and> propHandler s = None)))"
proof -
  have h: "handler_ok s" and c: "calls_ok (notified evs) s" using assms by (simp_all add: watch_run_ok)
  have none: "w_phase s \<in> {In_callback False, Ended} \<Longrightarrow> propHandler s = None" using h by (auto simp: handler_ok_def)
  from c none have "\<exists>vs report. w_calls s = map (\<lambda>v. (None, Some v)) vs @ report \<and> subseq vs (notified evs) \<and>
       (report = [] \<or> (\<exists>e. report = [(Some e, None)] \<and> propHandler s = None))"
    unfolding calls_ok_def by (metis append_Nil2)
  moreover have "fulfilled s = [0..<length (fulfilled s)]" using h by (auto simp: handler_ok_def split: watch_phase.splits)
  moreover have "w_phase s = Waiting n \<longleftrightarrow> propHandler s = Some n" "w_phase s = Waiting n \<longrightarrow> n \<notin> set (fulfilled s)" for n
    using h by (auto simp: handler_ok_def split: watch_phase.splits)
  ultimately show ?thesis by blast
qed

theorem watch_protocol_witness:
  "w_calls (fold (watch_step 0) [Notify None 1 Suspends, Notify None 2 Suspends, Callback_resumes (Returns True),
       Notify None 3 (Returns True), Timer_fires (Returns True)] (watch_start True)) =
     [(None, Some 1), (None, Some 3), (Some Timed_out, None :: nat option)]"
proof -
  let ?s = "fold (watch_step (0 :: nat)) [Notify None 1 Suspends, Notify None 2 Suspends, Callback_resumes (Returns True),
       Notify None 3 (Returns True), Timer_fires (Returns True)] (watch_start True)"
  have "propHandler ?s = None \<and> w_calls ?s = [(None, Some 1), (None, Some 3), (Some Timed_out, None)]"
    by (simp add: watch_ops watch_start_def)
  with watch_protocol [OF refl, of "0 :: nat" "[Notify None 1 Suspends, Notify None 2 Suspends, Callback_resumes (Returns True),
       Notify None 3 (Returns True), Timer_fires (Returns True)]" True] show ?thesis by blast
qed

section \<open>What the watchers deliver\<close>

text \<open>The notifications of a static watch that lead to a call, and the error that ends it.\<close>

fun delivered :: "(error_code \<times> 'v) list \<Rightarrow> (error_code \<times> 'v option) list" where
  "delivered [] = []"
| "delivered ((ec, v) # ns) = (case ec of
     None \<Rightarrow> (None, Some v) # delivered ns
   | Some e \<Rightarrow> if e = No_such_device then delivered ns
       else [(Some (if e = Operation_aborted then Timed_out else e), None)])"

lemma ended_watch_silent:
  "propHandler s = None \<Longrightarrow> fold (\<lambda>(ec, v). watch_step v0 (Notify ec v (Returns True))) ns s = s"
  by (induction ns) (auto simp: notifyChange_def)

lemma static_watch_delivers: "w_calls (static_watch v0 ns) = delivered ns"
proof -
  have "propHandler s \<noteq> None \<Longrightarrow>
      w_calls (fold (\<lambda>(ec, v). watch_step v0 (Notify ec v (Returns True))) ns s) = w_calls s @ delivered ns" for s
  proof (induction ns arbitrary: s rule: delivered.induct)
    case (2 ec v ns)
    show ?case
    proof (cases ec)
      case None
      with 2(1) [of "watch_step v0 (Notify ec v (Returns True)) s"] 2(3) show ?thesis by (auto simp: watch_ops)
    next
      case (Some e)
      show ?thesis
      proof (cases "e = No_such_device")
        case True
        with 2(2) [of e "watch_step v0 (Notify ec v (Returns True)) s"] Some 2(3) show ?thesis by (auto simp: watch_ops)
      next
        case False
        then have "propHandler (watch_step v0 (Notify ec v (Returns True)) s) = None"
          "w_calls (watch_step v0 (Notify ec v (Returns True)) s) =
             w_calls s @ [(Some (if e = Operation_aborted then Timed_out else e), None)]"
          using Some 2(3) by (auto simp: watch_ops)
        with Some False show ?thesis by (simp add: ended_watch_silent del: watch_step.simps)
      qed
    qed
  qed simp
  then show ?thesis by (simp add: static_watch_def watch_start_def makeWatchHandler_def)
qed

text \<open>The property is absent from the message or has the type of the watcher.\<close>

definition typed :: "prop_type \<Rightarrow> string \<Rightarrow> PropertyMap \<Rightarrow> bool" where
  "typed t p m \<longleftrightarrow> (case map_of m p of None \<Rightarrow> True | Some v \<Rightarrow> variant_type v = t)"

lemma unreadable_change: "handlePropertyChange t p None = None"
  by (simp add: handlePropertyChange_def)

lemma property_change: "handlePropertyChange t p (Some m) =
    Some (if typed t p m then (None, case map_of m p of None \<Rightarrow> getDefaultValue t | Some v \<Rightarrow> v)
          else (Some Invalid_argument, getDefaultValue t))"
  by (simp add: handlePropertyChange_def getPropertiesFromMap_def getPropertyFromMap_def typed_def split: option.splits)

text \<open>
  The static watch of a property, over any sequence of messages: one coroutine of the user is
  spawned for every message that can be read, in order, up to the first one in which the property has
  another type; it gets the new value. For that one an error is reported, and nothing after it.
  A message about other properties only is reported too, as a change to the default value.
\<close>

theorem property_watch_exact:
  "w_calls (static_watch v0 (List.map_filter (handlePropertyChange t p) msgs)) =
     (let read = List.map_filter id msgs in
      map (\<lambda>m. (None, Some (case map_of m p of None \<Rightarrow> getDefaultValue t | Some v \<Rightarrow> v))) (takeWhile (typed t p) read)
      @ (if list_all (typed t p) read then [] else [(Some Invalid_argument, None)]))"
proof -
  have "delivered (List.map_filter (handlePropertyChange t p) msgs) =
      map (\<lambda>m. (None, Some (case map_of m p of None \<Rightarrow> getDefaultValue t | Some v \<Rightarrow> v)))
        (takeWhile (typed t p) (List.map_filter id msgs))
      @ (if list_all (typed t p) (List.map_filter id msgs) then [] else [(Some Invalid_argument, None)])"
  proof (induction msgs)
    case (Cons msg msgs)
    show ?case
    proof (cases msg)
      case None
      then show ?thesis using Cons by (simp add: map_filter_simps unreadable_change)
    next
      case (Some m)
      then show ?thesis using Cons by (simp add: map_filter_simps property_change)
    qed
  qed (simp add: map_filter_simps)
  then show ?thesis by (simp add: static_watch_delivers Let_def)
qed

text \<open>\<open>watchOnce\<close> returns with the first notification or the expiry of its timer, whichever comes first.\<close>

lemma once_returned_silent:
  "\<not> once_handler s \<Longrightarrow> once_result (fold (watchOnce_step v0) evs s) = once_result s"
proof (induction evs arbitrary: s)
  case (Cons ev evs)
  have "\<not> once_handler (watchOnce_step v0 ev s) \<and> once_result (watchOnce_step v0 ev s) = once_result s"
    using Cons.prems by (cases ev) (auto simp: Let_def)
  with Cons.IH show ?case by simp
qed simp

theorem watchOnce_returns:
  "once_result (fold (watchOnce_step v0) evs once_start) =
     (case dropWhile (\<lambda>ev. \<exists>a. ev = Callback_resumes a) evs of
        [] \<Rightarrow> None
      | Notify None v a # _ \<Rightarrow> Some (Some v)
      | _ \<Rightarrow> Some None)"
proof (induction evs)
  case Nil
  show ?case by (simp add: once_start_def)
next
  case (Cons ev evs)
  show ?case
  proof (cases ev)
    case (Notify ec v a)
    have "\<not> once_handler (watchOnce_step v0 ev once_start)"
      "once_result (watchOnce_step v0 ev once_start) = Some (if ec = None then Some v else None)"
      using Notify by (simp_all add: once_start_def once_resume_def)
    then show ?thesis using Notify by (cases ec) (simp_all add: once_returned_silent del: watchOnce_step.simps)
  next
    case (Timer_fires a)
    have "\<not> once_handler (watchOnce_step v0 ev once_start)" "once_result (watchOnce_step v0 ev once_start) = Some None"
      using Timer_fires by (simp_all add: once_start_def once_resume_def Let_def)
    then show ?thesis using Timer_fires by (simp add: once_returned_silent del: watchOnce_step.simps)
  qed (use Cons in simp)
qed

section \<open>Time-outs of a watch\<close>

text \<open>A timer that expires while the coroutine waits ends the watch with one report.\<close>

lemma timeout_reported:
  assumes "propHandler s \<noteq> None" "w_timer s = Armed"
  shows "w_calls (watch_step v0 (Timer_fires a) s) = w_calls s @ [(Some Timed_out, None)] \<and>
    propHandler (watch_step v0 (Timer_fires a) s) = None"
  using assms by (auto simp: watch_ops split: act.splits)

lemma disarmed_stays: "w_timer s \<noteq> Armed \<Longrightarrow> w_timer (watch_step v0 ev s) \<noteq> Armed"
  by (cases ev) (auto simp: watch_ops split: option.splits act.splits watch_phase.splits)

fun no_cancel :: "'v watch_event \<Rightarrow> bool" where
  "no_cancel (Notify (Some e) v a) \<longleftrightarrow> e \<noteq> Operation_aborted \<and> e \<noteq> Timed_out"
| "no_cancel ev \<longleftrightarrow> True"

lemma disarmed_step:
  assumes "w_timer s \<noteq> Armed" "no_cancel ev"
  shows "(Some Timed_out, None) \<in> set (w_calls (watch_step v0 ev s)) \<longleftrightarrow> (Some Timed_out, None) \<in> set (w_calls s)"
  using assms by (cases ev rule: no_cancel.cases) (auto simp: watch_ops split: option.splits act.splits watch_phase.splits)

text \<open>
  A timer that expires while the callback is suspended is lost for good: whatever happens
  afterwards, the time-out is never reported, so a watch that should end by its time-out goes on
  as long as the callback lets it.
\<close>

theorem timeout_lost_in_callback:
  assumes "s = fold (watch_step v0) evs (watch_start True)" "w_phase s = In_callback True" "list_all no_cancel evs"
    "list_all no_cancel more_evs"
  shows "(Some Timed_out, None) \<notin> set (w_calls (fold (watch_step v0) (Timer_fires a # more_evs) s))"
proof -
  have h: "handler_ok s" and c: "calls_ok (notified evs) s" using assms(1) by (simp_all add: watch_run_ok)
  then have "propHandler s = None" "(Some Timed_out, None) \<notin> set (w_calls s)"
    using assms(2) by (auto simp: handler_ok_def calls_ok_def)
  then have now: "(Some Timed_out, None) \<notin> set (w_calls (watch_step v0 (Timer_fires a) s))"
    "w_timer (watch_step v0 (Timer_fires a) s) \<noteq> Armed"
    by (simp_all add: cancelWatch_def)
  have "w_timer s' \<noteq> Armed \<Longrightarrow> (Some Timed_out, None) \<notin> set (w_calls s') \<Longrightarrow>
      (Some Timed_out, None) \<notin> set (w_calls (fold (watch_step v0) more_evs s'))" for s'
    using assms(4) by (induction more_evs arbitrary: s') (simp_all add: disarmed_stays disarmed_step)
  from this [OF now(2,1)] show ?thesis by simp
qed

theorem timeout_lost_in_callback_witness:
  "w_calls (fold (watch_step 0) [Notify None (7 :: nat) Suspends, Timer_fires (Returns True), Callback_resumes (Returns True),
     Notify None 8 (Returns True)] (watch_start True)) = [(None, Some 7), (None, Some 8)] \<and>
   (Some Timed_out, None) \<notin> set (w_calls (fold (watch_step 0) (Timer_fires (Returns True) #
     [Callback_resumes (Returns True), Notify None 8 (Returns True)])
     (fold (watch_step 0) [Notify None (7 :: nat) Suspends] (watch_start True))))"
proof (intro conjI)
  show "(Some Timed_out, None) \<notin> set (w_calls (fold (watch_step 0) (Timer_fires (Returns True) #
     [Callback_resumes (Returns True), Notify None 8 (Returns True)])
     (fold (watch_step 0) [Notify None (7 :: nat) Suspends] (watch_start True))))"
    by (rule timeout_lost_in_callback [OF refl]) (simp_all add: watch_ops watch_start_def)
qed (simp add: watch_ops watch_start_def)

end
