(* ===== verification/SocketStreams.thy ===== *)
theory SocketStreams
  imports Prelude
begin

text \<open>
  Timed sockets, the plain TCP server and the clients that use them (\<open>src/include/socket_streams.hpp\<close>,
  \<open>tcp_server.hpp\<close>, \<open>tcp_client.hpp\<close>, \<open>unix_client.hpp\<close>).

  A \<open>TimedStreamer\<close> is a socket with one timer that all its operations share: a timed operation sets
  the timer to 30 seconds and cancels it when it completes, and the handler of an expired wait cancels
  whatever the socket is doing. Time is counted in seconds. An expired wait and the run of
  its handler are two events, because the handler is queued and other handlers may run before it;
  cancelling the timer does not take back a handler that is already queued. Reading, writing and connecting themselves
  are Asio's: when an operation completes is an event.
\<close>

section \<open>Timed operations\<close>

text \<open>
  \<open>Timed\<close> and \<open>Untimed\<close>: a read, write or \<open>readUntil\<close> with and without time-out. \<open>Connecting\<close>: a connect or a TLS handshake of
  a client, which sets the timer and does not cancel it.
\<close>

datatype op_kind = Timed | Untimed | Connecting

record streamer =
  st_now :: nat
  st_deadline :: "nat option"
  st_queued :: nat
  st_ops :: "(nat \<times> nat \<times> op_kind) list"
  st_aborts :: "(nat \<times> nat \<times> nat) list"

definition streamer_new :: streamer where
  "streamer_new = \<lparr>st_now = 0, st_deadline = None, st_queued = 0, st_ops = [], st_aborts = []\<rparr>"

text \<open>\<open>expires_after\<close> ends a pending wait with an error, and the handler does nothing then.\<close>

definition setTimeout :: "nat \<Rightarrow> streamer \<Rightarrow> streamer" where
  "setTimeout timeout s = s\<lparr>st_deadline := Some (st_now s + timeout)\<rparr>"

definition timeout_cancel :: "streamer \<Rightarrow> streamer" where
  "timeout_cancel s = s\<lparr>st_deadline := None\<rparr>"

definition op_start :: "nat \<Rightarrow> op_kind \<Rightarrow> streamer \<Rightarrow> streamer" where
  "op_start i k s = (let s1 = (if k = Untimed then s else setTimeout 30 s) in
     s1\<lparr>st_ops := st_ops s1 @ [(i, st_now s1, k)]\<rparr>)"

definition op_finish :: "nat \<Rightarrow> streamer \<Rightarrow> streamer" where
  "op_finish i s = (case find (\<lambda>op. fst op = i) (st_ops s) of
     None \<Rightarrow> s
   | Some op \<Rightarrow> let s1 = s\<lparr>st_ops := filter (\<lambda>op. fst op \<noteq> i) (st_ops s)\<rparr> in
       if snd (snd op) = Connecting then s1 else timeout_cancel s1)"

text \<open>The operations that the socket cancels, with the times of their start and of the cancellation.\<close>

definition timeout_handler :: "streamer \<Rightarrow> streamer" where
  "timeout_handler s = s\<lparr>st_aborts := st_aborts s @ map (\<lambda>(i, t0, k). (i, t0, st_now s)) (st_ops s)\<rparr>"

datatype st_event = Tick | Expire | Run_handler | Start nat op_kind | Finish nat

fun st_step :: "st_event \<Rightarrow> streamer \<Rightarrow> streamer" where
  "st_step Tick s = s\<lparr>st_now := Suc (st_now s)\<rparr>"
| "st_step Expire s = (case st_deadline s of
     None \<Rightarrow> s
   | Some d \<Rightarrow> if d \<le> st_now s then s\<lparr>st_deadline := None, st_queued := Suc (st_queued s)\<rparr> else s)"
| "st_step Run_handler s = (if st_queued s = 0 then s else timeout_handler (s\<lparr>st_queued := st_queued s - 1\<rparr>))"
| "st_step (Start i k) s = op_start i k s"
| "st_step (Finish i) s = op_finish i s"

text \<open>The events of \<open>TcpClient::connect\<close> and \<open>UnixClient::connect\<close> on the streamer, from the outcome of its steps.\<close>

definition connect_events :: "error_code \<Rightarrow> error_code \<Rightarrow> nat \<Rightarrow> st_event list" where
  "connect_events resolve_ec connect_ec i =
     (if resolve_ec \<noteq> None then []
      else [Start i Connecting, Finish i] @
        (if connect_ec \<noteq> None then [] else [Start (Suc i) Connecting, Finish (Suc i)]))"

definition connect_result :: "error_code \<Rightarrow> error_code \<Rightarrow> error_code \<Rightarrow> error_code" where
  "connect_result resolve_ec connect_ec handshake_ec =
     (if resolve_ec \<noteq> None then resolve_ec else if connect_ec \<noteq> None then connect_ec else handshake_ec)"

text \<open>
  The address of an abstract Unix socket: \<open>sun_path\<close> has 108 bytes, and the name is copied behind the first. A longer
  name is written past the structure (\<open>None\<close>).
\<close>

definition is_abstract :: "string \<Rightarrow> bool" where
  "is_abstract path \<longleftrightarrow> path \<noteq> [] \<and> path ! 0 \<noteq> CHR ''/''"

definition abstract_address :: "string \<Rightarrow> (string \<times> nat) option" where
  "abstract_address path = (if 1 + length path > 108 then None
     else Some (CHR 0x00 # path @ replicate (107 - length path) (CHR 0x00), 2 + 1 + length path))"

section \<open>The server\<close>

text \<open>\<open>accept\<close> with a handler that takes the error code, and with one that does not.\<close>

definition accept_done :: "bool \<Rightarrow> error_code \<Rightarrow> (error_code \<Rightarrow> 's \<Rightarrow> 's) \<Rightarrow> 's \<Rightarrow> 's" where
  "accept_done takes_error ec handler s =
     (if takes_error then handler ec s else if ec \<noteq> None then s else handler None s)"

record tcp_server =
  srv_accepting :: bool
  srv_clients :: nat

definition start_accept :: "tcp_server \<Rightarrow> tcp_server" where
  "start_accept s = s\<lparr>srv_accepting := True\<rparr>"

definition tcp_server_new :: tcp_server where
  "tcp_server_new = start_accept \<lparr>srv_accepting = False, srv_clients = 0\<rparr>"

definition server_handler :: "error_code \<Rightarrow> tcp_server \<Rightarrow> tcp_server" where
  "server_handler ec s = (if ec \<noteq> None then s else start_accept (s\<lparr>srv_clients := Suc (srv_clients s)\<rparr>))"

text \<open>The outcome of an accept, when one is pending.\<close>

definition accept_step :: "error_code \<Rightarrow> tcp_server \<Rightarrow> tcp_server" where
  "accept_step ec s = (if srv_accepting s then accept_done True ec server_handler (s\<lparr>srv_accepting := False\<rparr>) else s)"

datatype client_step = Handshake | Route_socket | Route_streamer | Cancel_timer | Shutdown

text \<open>What \<open>handle_client\<close> does with a socket.\<close>

definition handle_tcp_client :: "bool \<Rightarrow> error_code \<Rightarrow> bool \<Rightarrow> client_step list" where
  "handle_tcp_client is_ssl handshake_ec routes_socket =
     (if is_ssl \<and> handshake_ec \<noteq> None then [Handshake]
      else (if is_ssl then [Handshake] else []) @
        (if routes_socket then [Route_socket] else [Route_streamer, Cancel_timer]) @
        (if is_ssl then [Shutdown] else []))"

section \<open>Time-outs of operations that do not overlap\<close>

text \<open>An operation is started only when none is under way.\<close>

fun sequential :: "st_event list \<Rightarrow> streamer \<Rightarrow> bool" where
  "sequential [] s \<longleftrightarrow> True"
| "sequential (ev # evs) s \<longleftrightarrow> (case ev of Start i k \<Rightarrow> st_ops s = [] | _ \<Rightarrow> True) \<and> sequential evs (st_step ev s)"

definition guarded :: "streamer \<Rightarrow> bool" where
  "guarded s \<longleftrightarrow> length (st_ops s) \<le> 1 \<and> (\<forall>(i, t0, k)\<in>set (st_ops s). t0 \<le> st_now s \<and>
     (k \<noteq> Untimed \<longrightarrow> st_deadline s = Some (t0 + 30) \<or> st_queued s > 0 \<or> (\<exists>t. (i, t0, t) \<in> set (st_aborts s))))"

lemmas st_ops_defs = setTimeout_def timeout_cancel_def op_start_def op_finish_def timeout_handler_def Let_def

lemma filter_short: "length xs \<le> 1 \<Longrightarrow> find P xs = Some x \<Longrightarrow> \<forall>y. P y \<longrightarrow> \<not> Q y \<Longrightarrow> filter Q xs = []"
  by (cases xs) (auto split: if_splits)

lemma guarded_step:
  assumes "guarded s" "case ev of Start i k \<Rightarrow> st_ops s = [] | _ \<Rightarrow> True"
  shows "guarded (st_step ev s)"
proof (cases ev)
  case (Finish i)
  then show ?thesis
    using assms(1) filter_short [of "st_ops s" "\<lambda>op. fst op = i" _ "\<lambda>op. fst op \<noteq> i"]
    by (auto simp: st_ops_defs guarded_def split: option.splits)
next
  case Run_handler
  then show ?thesis using assms(1) by (force simp: guarded_def st_ops_defs)
qed (use assms in \<open>auto simp: guarded_def st_ops_defs split: option.splits\<close>)

lemma guarded_run: "guarded s \<Longrightarrow> sequential evs s \<Longrightarrow> guarded (fold st_step evs s)"
  by (induction evs arbitrary: s) (auto simp: guarded_step simp del: st_step.simps)

lemma tick_pow: "(st_step Tick ^^ n) s = s\<lparr>st_now := st_now s + n\<rparr>"
  by (induction n arbitrary: s) simp_all

lemma ticks: "fold st_step (replicate n Tick) s = s\<lparr>st_now := st_now s + n\<rparr>"
  by (simp add: fold_replicate tick_pow)

lemma handler_aborts: "(i, t0, k) \<in> set (st_ops s) \<Longrightarrow> (i, t0, st_now s) \<in> set (st_aborts (timeout_handler s))"
  by (force simp: timeout_handler_def)

lemma handler_keeps: "x \<in> set (st_aborts s) \<Longrightarrow> x \<in> set (st_aborts (timeout_handler s))"
  by (simp add: timeout_handler_def)

lemma aborted_by_handler:
  assumes "(i, t0, k) \<in> set (st_ops s)"
    "st_queued s > 0 \<or> (\<exists>d. st_deadline s = Some d \<and> d \<le> st_now s) \<or> (\<exists>t. (i, t0, t) \<in> set (st_aborts s))"
  shows "\<exists>t. (i, t0, t) \<in> set (st_aborts (st_step Run_handler (st_step Expire s)))"
proof -
  have e: "st_ops (st_step Expire s) = st_ops s" "st_aborts (st_step Expire s) = st_aborts s"
    by (simp_all split: option.splits)
  show ?thesis
  proof (cases "st_queued (st_step Expire s) = 0")
    case True
    then have "st_queued s = 0 \<and> \<not> (\<exists>d. st_deadline s = Some d \<and> d \<le> st_now s)" by (auto split: option.splits if_splits)
    with assms(2) e True show ?thesis by auto
  next
    case False
    then show ?thesis
      using handler_aborts [of i t0 k "(st_step Expire s)\<lparr>st_queued := st_queued (st_step Expire s) - 1\<rparr>"] assms(1) e
      by (auto simp del: st_step.simps(2))
  qed
qed

text \<open>
  When operations do not overlap, one that has a time-out cannot block the socket: at any moment,
  if it does not complete within the next 30 seconds, the expiry of the timer and its handler cancel
  it, unless that has happened before.
\<close>

theorem timed_operation_expires:
  assumes "s = fold st_step evs streamer_new" "sequential evs streamer_new" "(i, t0, k) \<in> set (st_ops s)" "k \<noteq> Untimed"
  shows "\<exists>t. (i, t0, t) \<in> set (st_aborts (fold st_step (replicate 30 Tick @ [Expire, Run_handler]) s))"
proof -
  have "guarded streamer_new" by (simp add: guarded_def streamer_new_def)
  then have "guarded s" using guarded_run assms(1,2) by simp
  then have "t0 \<le> st_now s" "st_deadline s = Some (t0 + 30) \<or> st_queued s > 0 \<or> (\<exists>t. (i, t0, t) \<in> set (st_aborts s))"
    using assms(3,4) by (auto simp: guarded_def)
  then have "\<exists>t. (i, t0, t) \<in> set (st_aborts (st_step Run_handler (st_step Expire (s\<lparr>st_now := st_now s + 30\<rparr>))))"
    using assms(3) by (intro aborted_by_handler [of _ _ k]) auto
  moreover have "fold st_step (replicate 30 Tick @ [Expire, Run_handler]) s =
      st_step Run_handler (st_step Expire (s\<lparr>st_now := st_now s + 30\<rparr>))"
    unfolding fold_append by (simp only: comp_apply fold_simps ticks)
  ultimately show ?thesis by presburger
qed

theorem timed_operation_expires_witness:
  "\<exists>t. (1, 2, t) \<in> set (st_aborts (fold st_step (replicate 30 Tick @ [Expire, Run_handler])
     (fold st_step [Start 0 Timed, Tick, Finish 0, Tick, Start 1 Timed] streamer_new)))"
  by (rule timed_operation_expires [OF refl, of "[Start 0 Timed, Tick, Finish 0, Tick, Start 1 Timed]" 1 2 Timed])
    (simp_all add: st_ops_defs streamer_new_def)

section \<open>When a time-out hits the wrong operation\<close>

text \<open>
  A run without two races: no handler of an expired wait is queued while an operation completes or starts, and an
  operation without time-out is started only when the timer is off.
\<close>

fun orderly :: "st_event list \<Rightarrow> streamer \<Rightarrow> bool" where
  "orderly [] s \<longleftrightarrow> True"
| "orderly (ev # evs) s \<longleftrightarrow> (case ev of
     Start i k \<Rightarrow> st_ops s = [] \<and> st_queued s = 0 \<and> (k = Untimed \<longrightarrow> st_deadline s = None)
   | Finish i \<Rightarrow> st_queued s = 0
   | _ \<Rightarrow> True) \<and> orderly evs (st_step ev s)"

definition own_timer :: "streamer \<Rightarrow> bool" where
  "own_timer s \<longleftrightarrow> length (st_ops s) \<le> 1 \<and>
     (\<forall>(i, t0, k)\<in>set (st_ops s). (st_queued s > 0 \<longrightarrow> t0 + 30 \<le> st_now s) \<and>
        (case st_deadline s of None \<Rightarrow> True | Some d \<Rightarrow> d = t0 + 30)) \<and>
     (\<forall>(i, t0, t)\<in>set (st_aborts s). t0 + 30 \<le> t)"

lemma own_timer_step:
  assumes "own_timer s" "orderly [ev] s"
  shows "own_timer (st_step ev s)"
proof (cases ev)
  case (Finish i)
  then show ?thesis
    using assms filter_short [of "st_ops s" "\<lambda>op. fst op = i" _ "\<lambda>op. fst op \<noteq> i"]
    by (auto simp: st_ops_defs own_timer_def split: option.splits)
qed (use assms in \<open>auto simp: own_timer_def st_ops_defs split: option.splits\<close>)

text \<open>
  In such a run an operation is cancelled by the timer only when it has been under way for 30
  seconds.
\<close>

theorem no_early_abort:
  assumes "s = fold st_step evs streamer_new" "orderly evs streamer_new"
  shows "\<forall>(i, t0, t)\<in>set (st_aborts s). t0 + 30 \<le> t"
proof -
  have "own_timer s' \<Longrightarrow> orderly evs s' \<Longrightarrow> own_timer (fold st_step evs s')" for s'
    by (induction evs arbitrary: s') (simp_all add: own_timer_step del: st_step.simps)
  moreover have "own_timer streamer_new" by (simp add: own_timer_def streamer_new_def)
  ultimately show ?thesis using assms by (simp add: own_timer_def)
qed

theorem no_early_abort_witness:
  "st_aborts (fold st_step (Start 7 Timed # replicate 30 Tick @ [Expire, Run_handler]) streamer_new) = [(7, 0, 30)] \<and>
   (\<forall>(i, t0, t)\<in>set (st_aborts (fold st_step (Start 7 Timed # replicate 30 Tick @ [Expire, Run_handler]) streamer_new)). t0 + 30 \<le> t)"
proof (intro conjI)
  have "orderly (replicate n Tick @ [Expire, Run_handler]) s" for n s
    by (induction n arbitrary: s) simp_all
  then have "orderly (Start 7 Timed # replicate 30 Tick @ [Expire, Run_handler]) streamer_new"
    by (simp add: streamer_new_def)
  from no_early_abort [OF refl this]
  show "\<forall>(i, t0, t)\<in>set (st_aborts (fold st_step (Start 7 Timed # replicate 30 Tick @ [Expire, Run_handler]) streamer_new)). t0 + 30 \<le> t" .
qed (simp add: tick_pow st_ops_defs streamer_new_def)

text \<open>
  Both races occur. A read that completes after its wait has expired and before the handler runs leaves the
  handler queued, and that cancels the next read as soon as it has started. A client that has
  connected leaves the timer of the handshake running: a read without time-out is cancelled 30
  seconds after the connection was made.
\<close>

lemma stale_timeout_aborts_next:
  "st_aborts (fold st_step (Start 0 Timed # replicate 30 Tick @ [Expire, Finish 0, Start 1 Timed, Run_handler]) streamer_new)
   = [(1, 30, 30)]"
  by (simp add: tick_pow st_ops_defs streamer_new_def)

lemma connect_timer_aborts_read:
  "st_aborts (fold st_step (connect_events None None 0 @ replicate 29 Tick @ [Start 2 Untimed, Tick, Expire, Run_handler]) streamer_new)
   = [(2, 29, 30)]"
  by (simp add: connect_events_def tick_pow st_ops_defs streamer_new_def)

text \<open>
  Operations that overlap share the timer: a write that completes while a read is under way switches the
  time-out of the read off, and then no amount of waiting cancels it.
\<close>

lemma overlapped_read_never_expires:
  "st_aborts (fold st_step evs (fold st_step [Start 0 Timed, Start 1 Timed, Finish 1] streamer_new)) = []"
  if "set evs \<subseteq> {Tick, Expire, Run_handler}"
proof -
  have "st_deadline s = None \<Longrightarrow> st_queued s = 0 \<Longrightarrow> set evs \<subseteq> {Tick, Expire, Run_handler} \<Longrightarrow>
      st_aborts (fold st_step evs s) = st_aborts s" for s
    by (induction evs arbitrary: s) auto
  from this [OF _ _ that] show ?thesis by (simp add: st_ops_defs streamer_new_def)
qed

section \<open>The accept loop\<close>

text \<open>
  The server serves every connection up to the first failed accept, and none afterwards: one error,
  such as a shortage of descriptors, ends it for good.
\<close>

theorem accepts_until_first_error:
  "srv_clients (fold accept_step outcomes tcp_server_new) = length (takeWhile (\<lambda>ec. ec = None) outcomes)"
proof -
  have off: "\<not> srv_accepting s \<Longrightarrow> fold accept_step outcomes s = s" for s outcomes
    by (induction outcomes) (simp_all add: accept_step_def)
  have "srv_accepting s \<Longrightarrow> srv_clients (fold accept_step outcomes s) = srv_clients s + length (takeWhile (\<lambda>ec. ec = None) outcomes)" for s
  proof (induction outcomes arbitrary: s)
    case (Cons ec outcomes)
    show ?case
    proof (cases ec)
      case None
      with Cons.prems Cons.IH [of "accept_step None s"] show ?thesis
        by (simp add: accept_step_def accept_done_def server_handler_def start_accept_def)
    next
      case (Some e)
      then have "\<not> srv_accepting (accept_step ec s)" "srv_clients (accept_step ec s) = srv_clients s"
        using Cons.prems by (simp_all add: accept_step_def accept_done_def server_handler_def)
      with Some off show ?thesis by simp
    qed
  qed simp
  then show ?thesis by (simp add: tcp_server_new_def start_accept_def)
qed

text \<open>The name of an abstract socket that fits is found in the address, after the marker.\<close>

lemma abstract_address_exact:
  "abstract_address path = Some (bytes, len) \<Longrightarrow> length bytes = 108 \<and> take (len - 2) bytes = CHR 0x00 # path"
  by (auto simp: abstract_address_def split: if_splits)

end
