(* ===== verification/Worker.thy ===== *)
theory Worker
  imports Prelude
begin

text \<open>
  The pool of worker threads (\<open>src/include/worker.hpp\<close>), the one part of the library that runs on several
  threads.

  The pool is a step relation. A step of a thread is what it does between two points where another
  thread may observe it: the mutex is taken and given back, the predicate of the condition
  variable is evaluated with the mutex held, and blocking on the condition variable gives the mutex back and
  enters the set of waiting threads at once. \<open>addTask\<close> holds the mutex until it has notified; the
  destructor requests the stop and notifies without it. Wake-ups without a notification are
  allowed, as the language allows them. What a task does is not modelled, only that it
  returns; a task is \<open>None\<close> when the function object is empty.
\<close>

section \<open>The pool\<close>

text \<open>
  \<open>Top\<close>: before the test of the loop. \<open>Wants\<close>: waits for the mutex. \<open>Holds\<close>: evaluates the
  predicate. \<open>To_block\<close>: found it false and has not yet blocked. \<open>Blocked\<close>, \<open>Woken\<close>: in the condition variable. \<open>Takes\<close>: found it true.
\<close>

datatype 't thread = Top | Wants | Holds | To_block | Blocked | Woken | Takes | Runs 't | Exited

record 't worker_pool =
  task_queue :: "'t option list"
  pool_mutex :: "nat option"
  stop_requested :: bool
  stop_notified :: bool
  threads :: "'t thread list"
  tasks_added :: "'t option list"
  tasks_taken :: "'t option list"

definition WorkerPool :: "nat \<Rightarrow> 't worker_pool" where
  "WorkerPool num_threads = \<lparr>task_queue = [], pool_mutex = None, stop_requested = False, stop_notified = False,
     threads = replicate num_threads Top, tasks_added = [], tasks_taken = []\<rparr>"

definition notify_all :: "'t thread list \<Rightarrow> 't thread list" where
  "notify_all ts = map (\<lambda>t. case t of Blocked \<Rightarrow> Woken | _ \<Rightarrow> t) ts"

text \<open>\<open>addTask\<close>, when the mutex is free.\<close>

definition addTask :: "'t option \<Rightarrow> 't worker_pool \<Rightarrow> 't worker_pool" where
  "addTask task p = p\<lparr>task_queue := task_queue p @ [task], tasks_added := tasks_added p @ [task],
     threads := notify_all (threads p)\<rparr>"

text \<open>The end of the block in which the mutex is held: the next task, or none when the stop was requested.\<close>

definition take_task :: "nat \<Rightarrow> 't worker_pool \<Rightarrow> 't worker_pool" where
  "take_task i p = (if stop_requested p then p\<lparr>pool_mutex := None, threads := (threads p)[i := Exited]\<rparr>
     else p\<lparr>pool_mutex := None, task_queue := tl (task_queue p), tasks_taken := tasks_taken p @ [hd (task_queue p)],
            threads := (threads p)[i := (case hd (task_queue p) of None \<Rightarrow> Exited | Some t \<Rightarrow> Runs t)]\<rparr>)"

inductive worker_step :: "'t worker_pool \<Rightarrow> 't worker_pool \<Rightarrow> bool" where
  Add: "pool_mutex p = None \<Longrightarrow> worker_step p (addTask task p)"
| Request_stop: "worker_step p (p\<lparr>stop_requested := True\<rparr>)"
| Notify_stop: "stop_requested p \<Longrightarrow> worker_step p (p\<lparr>stop_notified := True, threads := notify_all (threads p)\<rparr>)"
| Loop_test: "i < length (threads p) \<Longrightarrow> threads p ! i = Top \<Longrightarrow>
    worker_step p (p\<lparr>threads := (threads p)[i := (if stop_requested p then Exited else Wants)]\<rparr>)"
| Lock: "i < length (threads p) \<Longrightarrow> threads p ! i = Wants \<or> threads p ! i = Woken \<Longrightarrow> pool_mutex p = None \<Longrightarrow>
    worker_step p (p\<lparr>pool_mutex := Some i, threads := (threads p)[i := Holds]\<rparr>)"
| Test: "i < length (threads p) \<Longrightarrow> threads p ! i = Holds \<Longrightarrow>
    worker_step p (p\<lparr>threads := (threads p)[i := (if task_queue p \<noteq> [] \<or> stop_requested p then Takes else To_block)]\<rparr>)"
| Block: "i < length (threads p) \<Longrightarrow> threads p ! i = To_block \<Longrightarrow>
    worker_step p (p\<lparr>pool_mutex := None, threads := (threads p)[i := Blocked]\<rparr>)"
| Take: "i < length (threads p) \<Longrightarrow> threads p ! i = Takes \<Longrightarrow> worker_step p (take_task i p)"
| Finish: "i < length (threads p) \<Longrightarrow> threads p ! i = Runs t \<Longrightarrow> worker_step p (p\<lparr>threads := (threads p)[i := Top]\<rparr>)"
| Spurious: "i < length (threads p) \<Longrightarrow> threads p ! i = Blocked \<Longrightarrow> worker_step p (p\<lparr>threads := (threads p)[i := Woken]\<rparr>)"

text \<open>What \<open>asyncCall\<close> hands to the waiting coroutine: the value, or a cancellation when the task threw.\<close>

definition asyncCall :: "'e + 'r \<Rightarrow> 'r \<Rightarrow> error_code \<times> 'r" where
  "asyncCall outcome default_value = (case outcome of
     Inr ret \<Rightarrow> (None, ret)
   | Inl e \<Rightarrow> (Some Operation_canceled, default_value))"

section \<open>Tasks\<close>

definition owns :: "'t thread \<Rightarrow> bool" where
  "owns t \<longleftrightarrow> t = Holds \<or> t = To_block \<or> t = Takes"

definition pool_inv :: "'t worker_pool \<Rightarrow> bool" where
  "pool_inv p \<longleftrightarrow> tasks_taken p @ task_queue p = tasks_added p \<and>
     (\<forall>i<length (threads p). owns (threads p ! i) \<longleftrightarrow> pool_mutex p = Some i) \<and>
     (task_queue p \<noteq> [] \<longrightarrow> (\<forall>i<length (threads p). threads p ! i \<noteq> To_block \<and> threads p ! i \<noteq> Blocked)) \<and>
     (\<forall>i<length (threads p). threads p ! i = Takes \<longrightarrow> task_queue p \<noteq> [] \<or> stop_requested p)"

lemma notify_all_nth: "i < length ts \<Longrightarrow> notify_all ts ! i = (if ts ! i = Blocked then Woken else ts ! i)"
  by (cases "ts ! i") (simp_all add: notify_all_def)

lemma length_notify_all [simp]: "length (notify_all ts) = length ts"
  by (simp add: notify_all_def)

lemma pool_inv_init: "pool_inv (WorkerPool n)"
  by (simp add: pool_inv_def WorkerPool_def owns_def)

lemma sole_owner:
  assumes "pool_inv p" "i < length (threads p)" "owns (threads p ! i)" "j < length (threads p)" "j \<noteq> i"
  shows "\<not> owns (threads p ! j)"
  using assms by (metis option.inject pool_inv_def)

lemma pool_inv_take:
  assumes "pool_inv p" "i < length (threads p)" "threads p ! i = Takes"
  shows "pool_inv (take_task i p)"
proof -
  have q: "task_queue p \<noteq> [] \<or> stop_requested p" using assms by (auto simp: pool_inv_def)
  have others: "\<not> owns (threads p ! j)" if "j < length (threads p)" "j \<noteq> i" for j
    using sole_owner [OF assms(1,2) _ that] assms(3) by (simp add: owns_def)
  show ?thesis
  proof (cases "stop_requested p")
    case True
    then show ?thesis using assms others by (auto simp: pool_inv_def take_task_def nth_list_update owns_def)
  next
    case False
    then obtain t ts where qs: "task_queue p = t # ts" using q by (cases "task_queue p") auto
    have "\<not> owns (case t of None \<Rightarrow> Exited | Some t \<Rightarrow> Runs t)" by (simp add: owns_def split: option.splits)
    moreover have "(case t of None \<Rightarrow> Exited | Some t \<Rightarrow> Runs t) \<notin> {To_block, Blocked, Takes}" by (simp split: option.splits)
    ultimately show ?thesis
      using assms others False qs by (auto simp: pool_inv_def take_task_def nth_list_update owns_def split: option.splits)
  qed
qed

lemma pool_inv_step:
  assumes "pool_inv p" "worker_step p p'"
  shows "pool_inv p'"
  using assms(2)
proof cases
  case (Add task)
  then show ?thesis
    using assms(1) by (auto simp: pool_inv_def addTask_def notify_all_nth owns_def)
next
  case Request_stop
  then show ?thesis using assms(1) by (auto simp: pool_inv_def)
next
  case Notify_stop
  then show ?thesis using assms(1) by (auto simp: pool_inv_def notify_all_nth owns_def)
next
  case (Take i)
  then show ?thesis using pool_inv_take assms(1) by blast
next
  case (Loop_test i)
  then show ?thesis using assms(1) by (auto simp: pool_inv_def nth_list_update owns_def)
next
  case (Lock i)
  then show ?thesis using assms(1) by (auto simp: pool_inv_def nth_list_update owns_def)
next
  case (Test i)
  then show ?thesis using assms(1) by (auto simp: pool_inv_def nth_list_update owns_def)
next
  case (Block i)
  then have "\<not> owns (threads p ! j)" if "j < length (threads p)" "j \<noteq> i" for j
    using sole_owner [OF assms(1) Block(2) _ that] by (simp add: owns_def)
  with Block assms(1) show ?thesis by (auto simp: pool_inv_def nth_list_update owns_def)
next
  case (Finish i t)
  then show ?thesis using assms(1) by (auto simp: pool_inv_def nth_list_update owns_def)
next
  case (Spurious i)
  then show ?thesis using assms(1) by (auto simp: pool_inv_def nth_list_update owns_def)
qed

interpretation wk: invariant_system "\<lambda>p. p = WorkerPool n" worker_step pool_inv for n
  by unfold_locales (simp_all add: pool_inv_init pool_inv_step)

text \<open>
  (C39) However the threads of the pool and its users interleave, tasks are taken exactly once and in
  the order in which they were added; a thread that takes one finds the queue non-empty unless it is to stop;
  at most one thread is inside the mutex; and while a task waits no thread sleeps: the notification
  of \<open>addTask\<close> is never lost.
\<close>

theorem pool_takes_in_order:
  assumes "reachable (\<lambda>p. p = WorkerPool n) worker_step p"
  shows "tasks_taken p @ task_queue p = tasks_added p \<and>
    (\<forall>i<length (threads p). threads p ! i = Takes \<longrightarrow> task_queue p \<noteq> [] \<or> stop_requested p) \<and>
    (\<forall>i<length (threads p). \<forall>j<length (threads p). owns (threads p ! i) \<and> owns (threads p ! j) \<longrightarrow> i = j) \<and>
    (task_queue p \<noteq> [] \<longrightarrow> (\<forall>i<length (threads p). threads p ! i \<noteq> Blocked \<and> threads p ! i \<noteq> To_block))"
  using wk.reachable_inv [OF assms] by (auto simp: pool_inv_def)

section \<open>Stopping\<close>

lemma reach_step_eq: "reachable I worker_step p \<Longrightarrow> worker_step p q \<Longrightarrow> q = r \<Longrightarrow> reachable I worker_step r"
  by (auto intro: reach_step)

text \<open>A run in which the stop is requested and notified between the test of a thread and its blocking.\<close>

definition hung :: "'t worker_pool" where
  "hung = \<lparr>task_queue = [], pool_mutex = None, stop_requested = True, stop_notified = True,
     threads = [Blocked], tasks_added = [], tasks_taken = []\<rparr>"

lemma hung_reachable: "reachable (\<lambda>p. p = WorkerPool 1) worker_step hung"
proof -
  let ?R = "reachable (\<lambda>p. p = WorkerPool 1) worker_step"
  let ?p = "\<lambda>m st nt t. \<lparr>task_queue = [], pool_mutex = m, stop_requested = st, stop_notified = nt,
     threads = [t], tasks_added = [], tasks_taken = []\<rparr>"
  have "?R (?p None False False Top)" by (rule reach_init) (simp add: WorkerPool_def)
  then have "?R (?p None False False Wants)" by (rule reach_step_eq [OF _ Loop_test [of 0]]) simp_all
  then have "?R (?p (Some 0) False False Holds)" by (rule reach_step_eq [OF _ Lock [of 0]]) simp_all
  then have "?R (?p (Some 0) False False To_block)" by (rule reach_step_eq [OF _ Test [of 0]]) simp_all
  then have "?R (?p (Some 0) True False To_block)" by (rule reach_step_eq [OF _ Request_stop]) simp_all
  then have "?R (?p (Some 0) True True To_block)" by (rule reach_step_eq [OF _ Notify_stop]) (simp_all add: notify_all_def)
  then have "?R (?p None True True Blocked)" by (rule reach_step_eq [OF _ Block [of 0]]) simp_all
  then show ?thesis by (simp add: hung_def)
qed

lemma hung_steps: "{q. worker_step hung q \<and> tasks_added q = tasks_added hung} = {hung, hung\<lparr>threads := [Woken]\<rparr>}"
proof (intro set_eqI iffI)
  fix q
  assume "q \<in> {q. worker_step hung q \<and> tasks_added q = tasks_added hung}"
  then have "worker_step hung q" "tasks_added q = tasks_added hung" by auto
  then show "q \<in> {hung, hung\<lparr>threads := [Woken]\<rparr>}"
    by cases (auto simp: hung_def addTask_def notify_all_def)
next
  fix q
  assume "q \<in> {hung, hung\<lparr>threads := [Woken]\<rparr>}"
  moreover have "worker_step hung hung" using Request_stop [of hung] by (simp add: hung_def)
  moreover have "worker_step hung (hung\<lparr>threads := [Woken]\<rparr>)" using Spurious [of 0 hung] by (simp add: hung_def)
  ultimately show "q \<in> {q. worker_step hung q \<and> tasks_added q = tasks_added hung}" by (auto simp: hung_def)
qed

text \<open>
  The destructor may hang. Its notification is not under the mutex, so it can fall between the
  test of a thread and its blocking: a state is reachable in which the stop has been requested and
  notified and the thread sleeps; the only way on, as no task is added any more and the
  destructor has done its part, is a spurious wake-up.
\<close>

theorem stop_can_be_missed:
  "\<exists>p. reachable (\<lambda>p. p = WorkerPool 1) worker_step p \<and> stop_requested p \<and> stop_notified p \<and> threads p = [Blocked] \<and>
     pool_mutex p = None \<and>
     {q. worker_step p q \<and> tasks_added q = tasks_added p} =
       {p, p\<lparr>threads := [Woken]\<rparr>}"
  by (rule exI [of _ hung]) (simp only: hung_reachable hung_steps, simp add: hung_def)

definition served :: "nat worker_pool" where
  "served = \<lparr>task_queue = [Some 8], pool_mutex = None, stop_requested = False, stop_notified = False,
     threads = [Runs 7], tasks_added = [Some 7, Some 8], tasks_taken = [Some 7]\<rparr>"

lemma served_reachable: "reachable (\<lambda>p. p = WorkerPool 1) worker_step served"
proof -
  let ?R = "reachable (\<lambda>p. p = WorkerPool 1) worker_step"
  let ?p = "\<lambda>q m t a k. \<lparr>task_queue = q, pool_mutex = m, stop_requested = False, stop_notified = False,
     threads = [t :: nat thread], tasks_added = a, tasks_taken = k\<rparr>"
  have "?R (?p [] None Top [] [])" by (rule reach_init) (simp add: WorkerPool_def)
  then have "?R (?p [Some 7] None Top [Some 7] [])"
    by (rule reach_step_eq [OF _ Add [of _ "Some 7"]]) (simp_all add: addTask_def notify_all_def)
  then have "?R (?p [Some 7] None Wants [Some 7] [])" by (rule reach_step_eq [OF _ Loop_test [of 0]]) simp_all
  then have "?R (?p [Some 7] (Some 0) Holds [Some 7] [])" by (rule reach_step_eq [OF _ Lock [of 0]]) simp_all
  then have "?R (?p [Some 7] (Some 0) Takes [Some 7] [])" by (rule reach_step_eq [OF _ Test [of 0]]) simp_all
  then have "?R (?p [] None (Runs 7) [Some 7] [Some 7])"
    by (rule reach_step_eq [OF _ Take [of 0]]) (simp_all add: take_task_def)
  then have "?R (?p [Some 8] None (Runs 7) [Some 7, Some 8] [Some 7])"
    by (rule reach_step_eq [OF _ Add [of _ "Some 8"]]) (simp_all add: addTask_def notify_all_def)
  then show ?thesis by (simp add: served_def)
qed

theorem pool_takes_in_order_witness:
  "tasks_taken served = [Some 7] \<and> tasks_taken served @ task_queue served = tasks_added served"
  using pool_takes_in_order [OF served_reachable, THEN conjunct1] by (simp add: served_def)

end
