(* ===== verification/Serializer.thy ===== *)
theory Serializer
  imports Json
begin

text \<open>
  Values kept in a JSON file under paths (\<open>src/include/serializer.hpp\<close>). The event queue stores its
  events with it.

  \<open>merge_patch\<close> is that of the JSON library (RFC 7396). \<open>makeJson\<close> builds its document with
  \<open>std::reduce\<close>, which may group and permute its operands; the standard library applies them from the left
  when there are fewer than four, and the model gives a value only for such keys. Whether a file can be opened
  is a parameter, and so is the reading and writing of JSON text.
\<close>

section \<open>The serialiser\<close>

record 'f JsonSerializer =
  serPath :: string
  jsonData :: "'f json"

definition path_keys :: "string \<Rightarrow> string list" where
  "path_keys key = (if key = [] then [] else pieces CHR ''/'' key)"

text \<open>\<open>None\<close>: \<open>front()\<close> of an empty range, or an unspecified grouping.\<close>

definition makeJson :: "string \<Rightarrow> 'f json \<Rightarrow> 'f json option" where
  "makeJson key v = (case rev (path_keys key) of
     [] \<Rightarrow> None
   | k # rv \<Rightarrow> if length rv \<ge> 4 then None
       else Some (fold (\<lambda>currentKey sofar. json_put currentKey sofar JNull) rv (json_put k v JNull)))"

fun leaf_node :: "string list \<Rightarrow> 'f json \<Rightarrow> 'f json option" where
  "leaf_node [] current = Some current"
| "leaf_node (key # keys) current = (case json_get current key of None \<Rightarrow> None | Some sub \<Rightarrow> leaf_node keys sub)"

definition getLeafNode :: "string \<Rightarrow> 'f JsonSerializer \<Rightarrow> 'f json option" where
  "getLeafNode keyPath s = leaf_node (path_keys keyPath) (jsonData s)"

fun members :: "'f json \<Rightarrow> (string \<times> 'f json) list" where
  "members (JObj m) = m"
| "members _ = []"

definition omap_del :: "string \<Rightarrow> (string \<times> 'v) list \<Rightarrow> (string \<times> 'v) list" where
  "omap_del k m = filter (\<lambda>kv. fst kv \<noteq> k) m"

function (sequential) merge_patch :: "'f json \<Rightarrow> 'f json \<Rightarrow> 'f json"
  and merge_members :: "(string \<times> 'f json) list \<Rightarrow> (string \<times> 'f json) list \<Rightarrow> (string \<times> 'f json) list"
where
  "merge_patch target (JObj patch) = JObj (merge_members (members target) patch)"
| "merge_patch target patch = patch"
| "merge_members m [] = m"
| "merge_members m ((k, v) # patch) = merge_members
     (if v = JNull then omap_del k m
      else omap_put k (merge_patch (case map_of m k of None \<Rightarrow> JNull | Some x \<Rightarrow> x) v) m) patch"
  by pat_completeness auto
termination
  by (relation "measure (case_sum (\<lambda>(t, p). size p) (\<lambda>(m, p). size_list (size_prod (\<lambda>_. 0) size) p))") simp_all

definition serialize :: "string \<Rightarrow> 'f json \<Rightarrow> 'f JsonSerializer \<Rightarrow> 'f JsonSerializer option" where
  "serialize key v s = map_option (\<lambda>patch. s\<lparr>jsonData := merge_patch (jsonData s) patch\<rparr>) (makeJson key v)"

text \<open>\<open>deserialize\<close> leaves the value of the caller as it is when there is no leaf; \<open>rd\<close> converts and may throw.\<close>

definition deserialize :: "('f json \<Rightarrow> json_exn + 'a) \<Rightarrow> string \<Rightarrow> 'a \<Rightarrow> 'f JsonSerializer \<Rightarrow> json_exn + 'a" where
  "deserialize rd key v s = (case getLeafNode key s of None \<Rightarrow> Inr v | Some leaf \<Rightarrow> rd leaf)"

definition json_erase :: "string \<Rightarrow> 'f JsonSerializer \<Rightarrow> 'f JsonSerializer" where
  "json_erase key s = (if json_contains (jsonData s) key
     then s\<lparr>jsonData := JObj (omap_del key (members (jsonData s)))\<rparr> else s)"

text \<open>The file system: the text of a file when it can be opened.\<close>

definition ser_store :: "('f json \<Rightarrow> string) \<Rightarrow> bool \<Rightarrow> bool \<Rightarrow> 'f JsonSerializer \<Rightarrow> (string \<Rightarrow> string option) \<Rightarrow> bool \<times> (string \<Rightarrow> string option)" where
  "ser_store dump dir_ok open_ok s files =
     (if \<not> dir_ok \<or> \<not> open_ok then (False, files)
      else (True, files(serPath s \<mapsto> dump (jsonData s))))"

text \<open>\<open>None\<close>: the text is not JSON and the parser throws.\<close>

definition ser_load :: "(string \<Rightarrow> 'f json option) \<Rightarrow> (string \<Rightarrow> string option) \<Rightarrow> 'f JsonSerializer \<Rightarrow> 'f JsonSerializer option" where
  "ser_load parse files s = (case files (serPath s) of
     None \<Rightarrow> Some s
   | Some t \<Rightarrow> map_option (\<lambda>j. s\<lparr>jsonData := j\<rparr>) (parse t))"

section \<open>Reading what was written\<close>

fun nest :: "string list \<Rightarrow> 'f json \<Rightarrow> 'f json" where
  "nest [] v = v"
| "nest (k # ks) v = JObj [(k, nest ks v)]"

lemma nest_append: "nest (ks @ [k]) v = nest ks (JObj [(k, v)])"
  by (induction ks) simp_all

lemma makeJson_nest:
  assumes "makeJson key v = Some patch"
  shows "patch = nest (path_keys key) v \<and> path_keys key \<noteq> []"
proof -
  have "fold (\<lambda>k sofar. json_put k sofar JNull) rv v' = nest (rev rv) v'" for rv and v' :: "'a json"
    by (induction rv arbitrary: v') (simp_all add: nest_append)
  moreover obtain k rv where "rev (path_keys key) = k # rv" using assms by (auto simp: makeJson_def split: list.splits)
  moreover from this have "path_keys key = rev rv @ [k]" by (metis rev.simps(2) rev_rev_ident)
  ultimately show ?thesis
    using assms by (auto simp: makeJson_def nest_append split: if_splits)
qed

lemma nest_null: "nest ks v = JNull \<longleftrightarrow> ks = [] \<and> v = JNull"
  by (cases ks) simp_all

lemma json_get_members: "json_get j k = map_of (members j) k"
  by (cases j) simp_all

definition child :: "'f json \<Rightarrow> string \<Rightarrow> 'f json" where
  "child j k = (case json_get j k of None \<Rightarrow> JNull | Some x \<Rightarrow> x)"

lemma map_of_omap_del: "map_of (omap_del k m) = (map_of m)(k := None)"
  unfolding omap_del_def by (rule ext) (induction m, auto)

lemma merge_nest:
  "json_get (merge_patch j (nest (k # ks) v)) k' =
     (if k' = k then (if nest ks v = JNull then None else Some (merge_patch (child j k) (nest ks v))) else json_get j k')"
  by (simp add: json_get_members child_def map_of_omap_del)

lemma leaf_null: "leaf_node (k # ks) JNull = None"
  by simp

lemma leaf_child: "leaf_node (k # ks) j = (if json_get j k = None then None else leaf_node ks (child j k))"
  by (simp add: child_def split: option.splits)

lemma leaf_merge_same:
  assumes "ks \<noteq> []"
  shows "leaf_node ks (merge_patch j (nest ks v)) =
     (if v = JNull then None
      else Some (merge_patch (case leaf_node ks j of None \<Rightarrow> JNull | Some old \<Rightarrow> old) v))"
  using assms
proof (induction ks arbitrary: j)
  case (Cons k ks)
  show ?case
  proof (cases ks)
    case Nil
    then show ?thesis by (simp only: leaf_node.simps merge_nest) (simp add: nest_null child_def split: option.splits)
  next
    case (Cons k2 ks2)
    have none: "leaf_node ks (child j k) = None" if "json_get j k = None"
      using that Cons by (simp add: child_def)
    have "leaf_node (k # ks) (merge_patch j (nest (k # ks) v)) = leaf_node ks (merge_patch (child j k) (nest ks v))"
      by (simp only: leaf_node.simps merge_nest) (simp add: nest_null Cons)
    also have "\<dots> = (if v = JNull then None
        else Some (merge_patch (case leaf_node ks (child j k) of None \<Rightarrow> JNull | Some old \<Rightarrow> old) v))"
      using Cons.IH Cons by simp
    finally show ?thesis using none by (auto simp: leaf_child simp del: leaf_node.simps)
  qed
qed simp

lemma leaf_merge_other:
  assumes "\<nexists>r. ks = qs @ r" "\<nexists>r. qs = ks @ r"
  shows "leaf_node qs (merge_patch j (nest ks v)) = leaf_node qs j"
  using assms
proof (induction ks arbitrary: qs j)
  case (Cons k ks)
  then obtain q qs' where qs: "qs = q # qs'" by (cases qs) auto
  show ?case
  proof (cases "q = k")
    case True
    then have n: "\<nexists>r. ks = qs' @ r" "\<nexists>r. qs' = ks @ r" using Cons.prems qs by auto
    then have "ks \<noteq> []" and q': "qs' \<noteq> []" by auto
    then have "leaf_node qs (merge_patch j (nest (k # ks) v)) = leaf_node qs' (merge_patch (child j k) (nest ks v))"
      unfolding qs by (simp only: leaf_node.simps merge_nest True) (simp add: nest_null)
    also have "\<dots> = leaf_node qs' (child j k)" by (rule Cons.IH [OF n])
    also have "\<dots> = leaf_node qs j"
      using q' by (cases qs') (auto simp: qs True leaf_child [of k] child_def split: option.splits)
    finally show ?thesis .
  next
    case False
    then show ?thesis unfolding qs by (simp only: leaf_node.simps merge_nest if_False)
  qed
qed simp

text \<open>Neither path leads through the other.\<close>

definition independent :: "string \<Rightarrow> string \<Rightarrow> bool" where
  "independent key key' \<longleftrightarrow> (\<nexists>r. path_keys key = path_keys key' @ r) \<and> (\<nexists>r. path_keys key' = path_keys key @ r)"

lemma serialize_defined: "(\<exists>s'. serialize key v s = Some s') \<longleftrightarrow> key \<noteq> [] \<and> length (pieces CHR ''/'' key) \<le> 4"
proof -
  have "length (rev (path_keys key)) = length (path_keys key)" by simp
  then show ?thesis
    by (cases "rev (path_keys key)") (auto simp: serialize_def makeJson_def path_keys_def split: if_splits)
qed

text \<open>
  A value that was serialised under a path is read back under it, unless it is null, which removes
  the leaf. An object is merged with the one that was there, every other value replaces it. Paths that do not lead
  through each other do not disturb each other, whatever lies on them.
\<close>

theorem serialize_then_read:
  assumes "serialize key v s = Some s'"
  shows "getLeafNode key s' = (if v = JNull then None
      else Some (merge_patch (case getLeafNode key s of None \<Rightarrow> JNull | Some old \<Rightarrow> old) v)) \<and>
    (\<not> is_object v \<and> v \<noteq> JNull \<longrightarrow> getLeafNode key s' = Some v) \<and>
    (\<forall>key'. independent key key' \<longrightarrow> getLeafNode key' s' = getLeafNode key' s)"
proof -
  from assms obtain patch where p: "makeJson key v = Some patch" "s' = s\<lparr>jsonData := merge_patch (jsonData s) patch\<rparr>"
    by (auto simp: serialize_def)
  from makeJson_nest [OF p(1)] have n: "patch = nest (path_keys key) v" "path_keys key \<noteq> []" by auto
  have same: "getLeafNode key s' = (if v = JNull then None
      else Some (merge_patch (case getLeafNode key s of None \<Rightarrow> JNull | Some old \<Rightarrow> old) v))"
    by (simp add: getLeafNode_def p(2) n(1) leaf_merge_same [OF n(2)])
  moreover have "getLeafNode key s' = Some v" if "\<not> is_object v" "v \<noteq> JNull"
    using same that by (cases v) simp_all
  moreover have "getLeafNode key' s' = getLeafNode key' s" if "independent key key'" for key'
    using that by (simp add: getLeafNode_def p(2) n(1) independent_def leaf_merge_other)
  ultimately show ?thesis by blast
qed

theorem serialize_then_read_witness:
  "map_option (\<lambda>s. (getLeafNode ''a/c'' s, getLeafNode ''a/b'' s))
     (serialize ''a/c'' (JInt 2) \<lparr>serPath = ''f'', jsonData = JObj [(''a'', JObj [(''b'', JInt 1 :: unit json)])]\<rparr>) =
   Some (Some (JInt 2), Some (JInt 1))"
proof -
  let ?s = "\<lparr>serPath = ''f'', jsonData = JObj [(''a'', JObj [(''b'', JInt 1 :: unit json)])]\<rparr>"
  obtain s' where s': "serialize ''a/c'' (JInt 2) ?s = Some s'"
    by (simp add: serialize_def makeJson_def path_keys_def)
  have "independent ''a/c'' ''a/b''" by (auto simp: independent_def path_keys_def)
  with serialize_then_read [OF s'] have "getLeafNode ''a/c'' s' = Some (JInt 2)" "getLeafNode ''a/b'' s' = getLeafNode ''a/b'' ?s"
    by auto
  then show ?thesis by (simp add: s' getLeafNode_def path_keys_def)
qed

text \<open>What was stored is loaded, when the text that is printed is parsed back.\<close>

lemma store_then_load:
  assumes "parse (dump (jsonData s)) = Some (jsonData s)" "ser_store dump dir_ok open_ok s files = (True, files')"
  shows "ser_load parse files' (t\<lparr>serPath := serPath s\<rparr>) = Some (t\<lparr>serPath := serPath s, jsonData := jsonData s\<rparr>)"
  using assms by (auto simp: ser_store_def ser_load_def split: if_splits)

text \<open>
  A map that is serialised twice keeps the entries that have gone in between: this is how the events of the
  queue, a list, escape the merge and a map would not. And \<open>erase\<close> takes its argument as a
  member of the document, not as a path: what was serialised under a path cannot be erased by it.
\<close>

lemma removed_entries_come_back:
  "serialize ''m'' (JObj [(''new'', JInt 2)]) \<lparr>serPath = ''f'', jsonData = JObj [(''m'', JObj [(''gone'', JInt 1)])]\<rparr> =
     Some \<lparr>serPath = ''f'', jsonData = JObj [(''m'', JObj [(''gone'', JInt 1), (''new'', JInt 2)])]\<rparr>"
  by (simp add: serialize_def makeJson_def path_keys_def less_list_code)

lemma erase_ignores_paths:
  "json_erase ''a/b'' \<lparr>serPath = ''f'', jsonData = JObj [(''a'', JObj [(''b'', v)])]\<rparr> =
     \<lparr>serPath = ''f'', jsonData = JObj [(''a'', JObj [(''b'', v)])]\<rparr>"
  by (simp add: json_erase_def)

end
