(* ===== verification/FileTransfer.thy ===== *)
theory FileTransfer
  imports EventQueue "HOL-Library.Sublist" "HOL-Library.List_Lexorder" "HOL-Library.Char_ord"
begin

text \<open>
  Synchronising files between two brokers: the watcher (\<open>src/include/file_watcher.hpp\<close>), the
  events it makes (\<open>src/examples/event_broker/file_sync.hpp\<close>) and the transfer of a file over the
  connection of the event queue (\<open>event_file_methods.hpp\<close>, with \<open>readUntil\<close> of \<open>socket_streams.hpp\<close>).

  A connection is the list of the chunks that its reads return. inotify events are values, not bytes.
  What is a parameter: which descriptors the system hands out, how much of a buffer a write takes, the
  clock of the queue.
\<close>

section \<open>The watcher\<close>

record inotify_event =
  ev_wd :: int
  ev_mask :: "32 word"
  ev_name :: string

definition IN_MODIFY :: "32 word" where "IN_MODIFY = 0x2"
definition IN_CREATE :: "32 word" where "IN_CREATE = 0x100"
definition IN_DELETE :: "32 word" where "IN_DELETE = 0x200"

datatype FileStatus = created | modified | erased

type_synonym watch_fds = "(int \<times> string) list"

definition trimmed :: "string \<Rightarrow> string" where
  "trimmed p = (if p \<noteq> [] \<and> last p = CHR ''/'' then butlast p else p)"

text \<open>The result of \<open>inotify_add_watch\<close> is an argument; a negative one is an error.\<close>

definition addToWatch :: "int \<Rightarrow> string \<Rightarrow> watch_fds \<Rightarrow> watch_fds" where
  "addToWatch wd p fds = (if wd < 0 then fds else omap_put wd (trimmed p) fds)"

text \<open>The path and the directories below it, each with the descriptor the system gives for it.\<close>

definition addToWatchRecursive :: "bool \<Rightarrow> (string \<times> int) list \<Rightarrow> watch_fds \<Rightarrow> watch_fds" where
  "addToWatchRecursive path_exists dirs fds =
     (if path_exists then fold (\<lambda>(p, wd). addToWatch wd p) dirs fds else fds)"

text \<open>One read: the events by path, the later of two events for a path replacing the earlier. \<open>None\<close>: \<open>at\<close> throws.\<close>

fun watch_events :: "watch_fds \<Rightarrow> inotify_event list \<Rightarrow> (string \<times> inotify_event) list \<Rightarrow> (string \<times> inotify_event) list option" where
  "watch_events fds [] evs = Some evs"
| "watch_events fds (e # es) evs = (case map_of fds (ev_wd e) of
     None \<Rightarrow> None
   | Some p \<Rightarrow> watch_events fds es (omap_put (if ev_name e \<noteq> [] then p @ ''/'' @ ev_name e else p) e evs))"

unbundle bit_operations_syntax

definition event_status :: "32 word \<Rightarrow> FileStatus option" where
  "event_status m = (if m AND IN_CREATE \<noteq> 0 then Some created
     else if m AND IN_DELETE \<noteq> 0 then Some erased
     else if m AND IN_MODIFY \<noteq> 0 then Some modified else None)"

definition watchForChanges :: "(string \<Rightarrow> FileStatus \<Rightarrow> 's \<Rightarrow> 's) \<Rightarrow> watch_fds \<Rightarrow> inotify_event list \<Rightarrow> 's \<Rightarrow> 's option" where
  "watchForChanges handler fds es s = map_option
     (\<lambda>evs. fold (\<lambda>(name, e). case event_status (ev_mask e) of None \<Rightarrow> id | Some st \<Rightarrow> handler name st) evs s)
     (watch_events fds es [])"

text \<open>\<open>FileSync::operator()\<close>. The clock ticks with every event.\<close>

definition file_changed :: "string \<Rightarrow> FileStatus \<Rightarrow> EventQueue \<times> 64 word \<Rightarrow> EventQueue \<times> 64 word" where
  "file_changed p st qt = (case qt of (q, now) \<Rightarrow> (case st of
     created \<Rightarrow> (q, now)
   | modified \<Rightarrow> let event = makeEvent ''FileModified'' p HEDER_DELIM in
       if eventExists event q then (q, now) else (addEvent event now q, now + 1)
   | erased \<Rightarrow> (addEvent (makeEvent ''FileDeleted'' p HEDER_DELIM) now q, now + 1)))"

section \<open>The connection\<close>

text \<open>\<open>async_read_some\<close> into a buffer of \<open>n\<close> bytes.\<close>

fun read_some :: "nat \<Rightarrow> string list \<Rightarrow> (errc + string) \<times> string list" where
  "read_some n [] = (Inl End_of_file, [])"
| "read_some n (c # cs) = (Inr (take n c), if length c \<le> n then cs else drop n c # cs)"

fun cut_at :: "string \<Rightarrow> string \<Rightarrow> (string \<times> string) option" where
  "cut_at d [] = (if d = [] then Some ([], []) else None)"
| "cut_at d (c # cs) = (if prefix d (c # cs) then Some (d, drop (length d) (c # cs))
     else map_option (\<lambda>(a, b). (c # a, b)) (cut_at d cs))"

text \<open>
  \<open>readUntil\<close>: chunks are read into a buffer that is local to the call until it contains the delimiter. The
  text up to its end is returned; what was read beyond it goes with the buffer.
\<close>

fun readUntil :: "string \<Rightarrow> string \<Rightarrow> string list \<Rightarrow> (errc + string) \<times> string list" where
  "readUntil delim buffer cs = (case cut_at delim buffer of
     Some (a, b) \<Rightarrow> (Inr a, cs)
   | None \<Rightarrow> (case cs of [] \<Rightarrow> (Inl End_of_file, []) | c # cs' \<Rightarrow> readUntil delim (buffer @ c) cs'))"

declare readUntil.simps [simp del]

definition readHeader :: "string list \<Rightarrow> (errc + string) \<times> string list" where
  "readHeader cs = (case readUntil HEDER_DELIM [] cs of
     (Inl e, cs') \<Rightarrow> (Inl e, cs')
   | (Inr data, cs') \<Rightarrow> (Inr (strip_delim data), cs'))"

text \<open>\<open>header.find(h) != npos\<close> for one of the names; at most \<open>n\<close> headers are read.\<close>

fun readFor :: "string list \<Rightarrow> nat \<Rightarrow> string list \<Rightarrow> (errc + string) \<times> string list" where
  "readFor names 0 cs = (Inr [], cs)"
| "readFor names (Suc n) cs = (case readHeader cs of
     (Inl e, cs') \<Rightarrow> if \<exists>h\<in>set names. h = [] then (Inr [], cs') else (Inl e, cs')
   | (Inr header, cs') \<Rightarrow> if \<exists>h\<in>set names. contains_text h header then (Inr header, cs') else readFor names n cs')"

section \<open>The transfer\<close>

definition BUFFER_SIZE :: nat where "BUFFER_SIZE = 8192"

text \<open>
  The loop of \<open>sendFile\<close> over the blocks that the reads of the file return. A write takes a prefix of the block
  (\<open>wr\<close>); the rest of the block is not sent.
\<close>

fun send_blocks :: "(string \<Rightarrow> errc + nat) \<Rightarrow> string list \<Rightarrow> error_code \<times> string" where
  "send_blocks wr [] = (None, [])"
| "send_blocks wr (b # bs) = (case wr b of
     Inl e \<Rightarrow> (Some e, [])
   | Inr k \<Rightarrow> (case send_blocks wr bs of (ec, out) \<Rightarrow> (ec, take k b @ out)))"

text \<open>\<open>None\<close>: the file cannot be opened. The second component is what is put on the wire.\<close>

definition sendFile :: "(string \<Rightarrow> errc + nat) \<Rightarrow> string list option \<Rightarrow> error_code \<times> string" where
  "sendFile wr file = (case file of
     None \<Rightarrow> (Some Operation_aborted, [])
   | Some blocks \<Rightarrow>
       let header = sendHeader_text (''Content-Size:'' @ to_string (length (concat blocks))) in
       (case wr header of
          Inl e \<Rightarrow> (Some e, [])
        | Inr k \<Rightarrow> (case send_blocks wr blocks of (ec, out) \<Rightarrow> (ec, take k header @ out))))"

lemma read_some_less:
  assumes "read_some n cs = (Inr b, cs')" "n > 0"
  shows "length (concat cs') + length cs' < length (concat cs) + length cs"
  using assms by (cases cs) (auto split: if_splits)

function receive_blocks :: "(string \<Rightarrow> errc + nat) \<Rightarrow> nat \<Rightarrow> nat \<Rightarrow> string list \<Rightarrow> string \<Rightarrow> error_code \<times> string \<times> string list" where
  "receive_blocks wr fileSize recSofar cs file =
     (if recSofar \<ge> fileSize then (None, file, cs)
      else case read_some (min fileSize BUFFER_SIZE) cs of
        (Inl e, cs') \<Rightarrow> (Some e, file, cs')
      | (Inr b, cs') \<Rightarrow> (case wr b of
          Inl e \<Rightarrow> (Some e, file, cs')
        | Inr k \<Rightarrow> receive_blocks wr fileSize (recSofar + length b) cs' (file @ take k b)))"
  by pat_completeness auto

termination
  by (relation "measure (\<lambda>(wr, n, got, cs, file). length (concat cs) + length cs)")
    (auto simp: BUFFER_SIZE_def dest!: read_some_less [OF sym])

declare receive_blocks.simps [simp del]

datatype received = Done error_code | Created_file string string error_code | Archive string string | Renamed string string | Threw

text \<open>
  \<open>recieveFile\<close>: what arrives is a file, the announcement of an archive or of another name, or nothing.
  \<open>Created_file\<close> has the path and the content that was written; the recursive calls for archives and
  names are left to the caller.
\<close>

definition recieveFile :: "(string \<Rightarrow> errc + nat) \<Rightarrow> bool \<Rightarrow> string \<Rightarrow> string \<Rightarrow> string list \<Rightarrow> received \<times> string list" where
  "recieveFile wr open_ok root destPath cs =
     (case readFor [''FileNotFound'', ''Content-Size'', ''FileType''] 3 cs of
        (Inl e, cs') \<Rightarrow> (Done (Some e), cs')
      | (Inr header, cs') \<Rightarrow> (case parseEvent header of (i, data) \<Rightarrow>
          if i = ''FileType'' then (case parseEvent data of (ftype, archfilePath) \<Rightarrow>
            (if ftype = ''archive'' then Archive destPath archfilePath else Renamed (root @ destPath) ftype, cs'))
          else if i = ''FileNotFound'' then (Done None, cs')
          else if i = ''Content-Size'' then (case stoull data of
              None \<Rightarrow> (Threw, cs')
            | Some n \<Rightarrow> if n = 0 then (Done None, cs')
                else if \<not> open_ok then (Done (Some Operation_aborted), cs')
                else (case receive_blocks wr (unat n) 0 cs' [] of (ec, file, cs'') \<Rightarrow>
                  (Created_file (root @ destPath) file ec, cs'')))
          else (Done (Some Operation_not_supported), cs')))"

text \<open>What \<open>providerHandler\<close> and \<open>fileConsumer\<close> do with an event of the peer.\<close>

datatype provided = Provide_file string | Provide_archive string string | Provide_nothing

definition providerHandler :: "string \<Rightarrow> provided" where
  "providerHandler event = (case parseEvent event of (i, p) \<Rightarrow>
     if i = ''Fetch'' then Provide_file p
     else if i = ''FetchArchive'' then Provide_archive p (''/tmp/.archive/'' @ map (\<lambda>c. if c = CHR ''/'' then CHR ''_'' else c) p @ ''.tar.gz'')
     else Provide_nothing)"

datatype consumed = Fetches string string | Deletes string | Not_supported

definition fileConsumer :: "string \<Rightarrow> string \<Rightarrow> consumed" where
  "fileConsumer root event = (case parseEvent event of (i, data) \<Rightarrow>
     if i = ''FileModified'' then Fetches (sendHeader_text (''Fetch:'' @ data)) data
     else if i = ''FileDeleted'' then Deletes (root @ data)
     else if i = ''ArchiveModified'' then Fetches (sendHeader_text (''FetchArchive:'' @ data)) data
     else Not_supported)"

section \<open>Reading a header\<close>

lemma cut_at_Some: "cut_at d s = Some (a, b) \<Longrightarrow> s = a @ b \<and> length d \<le> length s"
proof (induction d s arbitrary: a b rule: cut_at.induct)
  case (2 d c cs)
  show ?case
  proof (cases "prefix d (c # cs)")
    case True
    then show ?thesis using 2(2) prefix_length_le [OF True] by (auto simp: prefix_def)
  next
    case False
    then show ?thesis using 2 by fastforce
  qed
qed (auto split: if_splits)

lemma cut_at_extend: "cut_at d p = Some (a, b) \<Longrightarrow> cut_at d (p @ q) = Some (a, b @ q)"
proof (induction d p arbitrary: a b rule: cut_at.induct)
  case (1 d)
  then show ?case by (cases q) (auto split: if_splits)
next
  case (2 d c cs)
  show ?case
  proof (cases "prefix d (c # cs)")
    case True
    then obtain zs where zs: "c # cs = d @ zs" by (auto simp: prefix_def)
    then have "prefix d (c # cs @ q)" by (metis append.assoc append_Cons prefix_def)
    moreover have "drop (length d) (c # cs @ q) = drop (length d) (c # cs) @ q"
      using zs by (metis append.assoc append_Cons append_eq_conv_conj)
    ultimately show ?thesis using 2(2) True by auto
  next
    case False
    then obtain a' where a': "cut_at d cs = Some (a', b)" "a = c # a'" using 2(2) by auto
    then have "length d \<le> length cs" using cut_at_Some by blast
    then have "take (length d) (c # cs @ q) = take (length d) (c # cs)" by (cases "length d") simp_all
    then have "\<not> prefix d (c # cs @ q)" using False take_is_prefix [of "length d" "c # cs"] by (auto simp: prefix_def)
    then show ?thesis using 2(1) [OF False a'(1)] a'(2) by simp
  qed
qed

text \<open>The delimiter occurs for the first time at the end.\<close>

abbreviation ends_first :: "string \<Rightarrow> string \<Rightarrow> bool" where
  "ends_first d s \<equiv> cut_at d s = Some (s, [])"

lemma ends_first_before: "ends_first d (p @ q) \<Longrightarrow> q \<noteq> [] \<Longrightarrow> cut_at d p = None"
  using cut_at_extend [of d p _ _ q] by (cases "cut_at d p") auto

lemma readUntil_exact:
  assumes "ends_first d (buffer @ concat hs)" "[] \<notin> set hs"
  shows "readUntil d buffer (hs @ ds) = (Inr (buffer @ concat hs), ds)"
  using assms
proof (induction hs arbitrary: buffer)
  case Nil
  then show ?case by (subst readUntil.simps) simp
next
  case (Cons c hs)
  then have "cut_at d buffer = None" by (intro ends_first_before [of d buffer "c @ concat hs"]) auto
  moreover have "readUntil d (buffer @ c) (hs @ ds) = (Inr ((buffer @ c) @ concat hs), ds)"
    using Cons by (intro Cons.IH) simp_all
  ultimately show ?case by (subst readUntil.simps) simp
qed

lemma header_ends_first: "CHR 0x0D \<notin> set t \<Longrightarrow> ends_first HEDER_DELIM (t @ HEDER_DELIM)"
  by (induction t) (auto simp: HEDER_DELIM_def)

lemma readHeader_exact:
  assumes "CHR 0x0D \<notin> set t" "concat hs = sendHeader_text t" "[] \<notin> set hs"
  shows "readHeader (hs @ ds) = (Inr t, ds)"
  using readUntil_exact [of HEDER_DELIM "[]" hs ds] header_ends_first [OF assms(1)] assms
  by (simp add: readHeader_def sendHeader_text_def strip_delim_def)

section \<open>A file arrives as it was sent\<close>

lemma receive_blocks_exact:
  assumes "\<And>b. wr b = Inr (length b)" "recSofar + length (concat ds) = fileSize"
  shows "\<exists>rest. receive_blocks wr fileSize recSofar (ds @ more_chunks) out = (None, out @ concat ds, rest) \<and>
    concat rest = concat more_chunks"
  using assms(2)
proof (induction "length (concat ds) + length ds" arbitrary: recSofar ds out rule: less_induct)
  case less
  show ?case
  proof (cases "recSofar \<ge> fileSize")
    case True
    with less.prems show ?thesis by (auto simp: receive_blocks.simps [of wr fileSize recSofar])
  next
    case False
    let ?n = "min fileSize BUFFER_SIZE"
    have n: "?n > 0" using False by (simp add: BUFFER_SIZE_def)
    obtain c cs where ds: "ds = c # cs" using False less.prems by (cases ds) auto
    define b rs where "b = take ?n c" and "rs = (if length c \<le> ?n then cs else drop ?n c # cs)"
    have r: "read_some ?n (ds @ more_chunks) = (Inr b, rs @ more_chunks)" using ds by (simp add: b_def rs_def)
    have cat: "concat ds = b @ concat rs" using ds by (simp add: b_def rs_def)
    have "length (concat rs) + length rs < length (concat ds) + length ds" using n ds by (auto simp: rs_def)
    moreover have "recSofar + length b + length (concat rs) = fileSize" using less.prems cat by simp
    ultimately obtain rest where
      "receive_blocks wr fileSize (recSofar + length b) (rs @ more_chunks) (out @ b) = (None, (out @ b) @ concat rs, rest)"
      "concat rest = concat more_chunks"
      using less.hyps [of rs "recSofar + length b" "out @ b"] by blast
    then show ?thesis
      using False r cat assms(1) [of b]
      by (intro exI [of _ rest]) (subst receive_blocks.simps, simp del: read_some.simps)
  qed
qed

lemma strip_sent: "strip_delim (sendHeader_text t) = t"
  by (simp add: strip_delim_def sendHeader_text_def)

lemma send_blocks_exact: "(\<And>b. wr b = Inr (length b)) \<Longrightarrow> send_blocks wr bs = (None, concat bs)"
  by (induction bs) simp_all

lemma no_cr_in_number: "CHR 0x0D \<notin> set (to_string n)"
  using to_string_digits [of n] by (auto simp: list_all_iff is_digit_def)

lemma size_header_read:
  assumes "concat hs = sendHeader_text (''Content-Size:'' @ to_string n)" "[] \<notin> set hs"
  shows "readFor [''FileNotFound'', ''Content-Size'', ''FileType''] 3 (hs @ ds) = (Inr (''Content-Size:'' @ to_string n), ds)"
proof -
  have "readHeader (hs @ ds) = (Inr (''Content-Size:'' @ to_string n), ds)"
    using assms no_cr_in_number by (intro readHeader_exact) simp_all
  then show ?thesis by (simp add: numeral_3_eq_3)
qed

text \<open>
  A file that is not empty arrives at the other broker as it was, for every cutting of the stream
  into reads in which no read spans the end of the header, provided the writes take all they are given: the
  receiver writes exactly the content, under its root, and leaves what follows on the connection alone.
\<close>

theorem file_arrives:
  assumes "\<And>b. wr b = Inr (length b)" "sendFile wr (Some blocks) = (ec, wire)"
    "concat blocks \<noteq> []" "length (concat blocks) < 2 ^ 64"
    "concat hs = sendHeader_text (''Content-Size:'' @ to_string (length (concat blocks)))" "[] \<notin> set hs" "concat ds = concat blocks"
  shows "ec = None \<and> wire = concat (hs @ ds) \<and>
    (\<exists>rest. recieveFile wr True root destPath (hs @ ds @ more_chunks) =
       (Created_file (root @ destPath) (concat blocks) None, rest) \<and> concat rest = concat more_chunks)"
proof -
  let ?n = "length (concat blocks)"
  have "ec = None" "wire = concat (hs @ ds)"
    using assms(1,2,5,7) by (auto simp: sendFile_def send_blocks_exact)
  moreover have n: "unat (of_nat ?n :: 64 word) = ?n" using assms(4) by (simp add: unat_of_nat)
  then have s: "stoull (to_string ?n) = Some (of_nat ?n)" by (metis stoull_to_string)
  have nz: "(of_nat ?n :: 64 word) \<noteq> 0" using n assms(3) by (metis length_0_conv unat_0)
  have p: "parseEvent (''Content-Size:'' @ to_string ?n) = (''Content-Size'', to_string ?n)" by (simp add: parseEvent_def)
  obtain rest where "receive_blocks wr ?n 0 (ds @ more_chunks) [] = (None, concat blocks, rest)" "concat rest = concat more_chunks"
    using receive_blocks_exact [of wr 0 ds ?n more_chunks "[]"] assms(1,7) by auto
  then have "recieveFile wr True root destPath (hs @ ds @ more_chunks) =
       (Created_file (root @ destPath) (concat blocks) None, rest) \<and> concat rest = concat more_chunks"
    using size_header_read [OF assms(5,6), of "ds @ more_chunks"] p s n nz by (simp add: recieveFile_def)
  ultimately show ?thesis by blast
qed

theorem file_arrives_witness:
  "\<exists>rest. recieveFile (\<lambda>b. Inr (length b)) True ''/r'' ''/f''
      ([sendHeader_text ''Content-Size:3''] @ [''ab'', ''c''] @ [''X'']) = (Created_file ''/r/f'' ''abc'' None, rest) \<and> concat rest = ''X''"
proof -
  have "to_string 3 = ''3''" by code_simp
  then have h: "to_string (Suc (Suc (Suc 0))) = ''3''" by (simp add: eval_nat_numeral)
  have "sendHeader_text ''Content-Size:3'' \<noteq> []" by (simp add: sendHeader_text_def)
  with file_arrives [of "\<lambda>b. Inr (length b)" "[''abc'']" None "sendHeader_text ''Content-Size:3'' @ ''abc''"
      "[sendHeader_text ''Content-Size:3'']" "[''ab'', ''c'']" "''/r''" "''/f''" "[''X'']"]
  show ?thesis by (simp add: sendFile_def h)
qed

text \<open>
  When the first bytes of the file come with the end of the header, as the two writes of \<open>sendFile\<close> easily
  do on a stream, they are lost with the buffer of \<open>readUntil\<close>; the receiver waits for them in vain.
\<close>

lemma joined_chunk_loses_file:
  assumes "0 < n" "n < 2 ^ 64"
  shows "recieveFile wr True root destPath [sendHeader_text (''Content-Size:'' @ to_string n) @ content] =
     (Created_file (root @ destPath) [] (Some End_of_file), [])"
proof -
  let ?h = "''Content-Size:'' @ to_string n"
  have "cut_at HEDER_DELIM (?h @ HEDER_DELIM @ content) = Some (?h @ HEDER_DELIM, content)"
    using cut_at_extend [OF header_ends_first [of ?h], of content] no_cr_in_number by simp
  then have "readUntil HEDER_DELIM [] [sendHeader_text ?h @ content] = (Inr (sendHeader_text ?h), [])"
    by (simp add: readUntil.simps sendHeader_text_def HEDER_DELIM_def)
  then have "readHeader [sendHeader_text ?h @ content] = (Inr ?h, [])"
    by (simp only: readHeader_def prod.case sum.case strip_sent)
  then have r: "readFor [''FileNotFound'', ''Content-Size'', ''FileType''] 3 [sendHeader_text ?h @ content] = (Inr ?h, [])"
    by (simp add: numeral_3_eq_3)
  have u: "unat (of_nat n :: 64 word) = n" using assms(2) by (simp add: unat_of_nat)
  then have "stoull (to_string n) = Some (of_nat n)" "(of_nat n :: 64 word) \<noteq> 0"
    using assms(1) by (metis stoull_to_string, metis less_irrefl unat_0)
  with r u assms(1) show ?thesis by (simp add: recieveFile_def parseEvent_def receive_blocks.simps)
qed

text \<open>
  The buffer is as large as the file, not as what is left of it: a read can run into the header of the
  next message, which then is written to the file.
\<close>

lemma overread_corrupts_file:
  "receive_blocks (\<lambda>b. Inr (length b)) 3 0 [''a'', ''bcX''] [] = (None, ''abcX'', [])"
  by (simp add: receive_blocks.simps BUFFER_SIZE_def)

text \<open>The name comes from the peer and is appended to the root as it is.\<close>

lemma delete_leaves_root: "fileConsumer ''/data'' ''FileDeleted:/../etc/passwd'' = Deletes ''/data/../etc/passwd''"
  by code_simp

text \<open>The request of the consumer is understood by the provider, for every name without a carriage return.\<close>

lemma fetch_understood:
  assumes "CHR 0x0D \<notin> set p" "concat hs = sendHeader_text (''Fetch:'' @ p)" "[] \<notin> set hs"
  shows "fileConsumer root (makeEvent ''FileModified'' p '''') = Fetches (sendHeader_text (''Fetch:'' @ p)) p \<and>
    readHeader (hs @ ds) = (Inr (''Fetch:'' @ p), ds) \<and> providerHandler (''Fetch:'' @ p) = Provide_file p"
  using readHeader_exact [OF _ assms(2,3), of ds] assms(1)
  by (simp add: fileConsumer_def makeEvent_def providerHandler_def parseEvent_def)

section \<open>What the watcher reports\<close>

definition event_path :: "watch_fds \<Rightarrow> inotify_event \<Rightarrow> string option" where
  "event_path fds e = map_option (\<lambda>p. if ev_name e \<noteq> [] then p @ ''/'' @ ev_name e else p) (map_of fds (ev_wd e))"

lemma watch_events_step:
  "watch_events fds (e # es) evs = (case event_path fds e of None \<Rightarrow> None | Some p \<Rightarrow> watch_events fds es (omap_put p e evs))"
  by (simp add: event_path_def split: option.splits)

lemma find_snoc: "find P (xs @ [x]) = (case find P xs of Some y \<Rightarrow> Some y | None \<Rightarrow> if P x then Some x else None)"
  by (induction xs) simp_all

lemma watch_events_from:
  assumes "watch_events fds es acc = Some evs" "omap_ok acc"
  shows "omap_ok evs \<and> (\<forall>p. map_of evs p = (case find (\<lambda>e. event_path fds e = Some p) (rev es) of Some e \<Rightarrow> Some e | None \<Rightarrow> map_of acc p))"
  using assms
proof (induction es arbitrary: acc)
  case (Cons e es)
  obtain p where p: "event_path fds e = Some p" "watch_events fds es (omap_put p e acc) = Some evs"
    using Cons.prems(1) by (auto simp: watch_events_step simp del: watch_events.simps split: option.splits)
  with Cons.IH [OF p(2)] Cons.prems(2) show ?case
    by (auto simp: omap_ok_put find_snoc split: option.splits)
qed simp

lemma watch_events_defined:
  "watch_events fds es acc \<noteq> None \<longleftrightarrow> (\<forall>e\<in>set es. event_path fds e \<noteq> None)"
  by (induction es arbitrary: acc) (auto simp: watch_events_step simp del: watch_events.simps(2) split: option.splits)

text \<open>
  One read of the watcher: it succeeds exactly when every descriptor in it is known, and then each path
  with an event is reported once, with the last of its events, in the order of the paths: a file that was
  created and then written in one read is reported as modified, one that was written and then deleted as erased.
\<close>

theorem watch_reports_last:
  "(watch_events fds es [] \<noteq> None \<longleftrightarrow> list_all (\<lambda>e. event_path fds e \<noteq> None) es) \<and>
   (case watch_events fds es [] of None \<Rightarrow> True | Some evs \<Rightarrow> sorted_wrt (<) (map fst evs) \<and>
      map_of evs = (\<lambda>p. find (\<lambda>e. event_path fds e = Some p) (rev es)))"
proof -
  have "sorted_wrt (<) (map fst evs) \<and> map_of evs = (\<lambda>p. find (\<lambda>e. event_path fds e = Some p) (rev es))"
    if "watch_events fds es [] = Some evs" for evs
    using watch_events_from [OF that] by (auto simp: omap_ok_def fun_eq_iff split: option.splits)
  then show ?thesis
    using watch_events_defined [of fds es "[]"] by (auto simp: list_all_iff split: option.splits)
qed

text \<open>
  When the queue of inotify overflows it sends an event with the descriptor \<open>- 1\<close>, which is never in the table:
  the read throws, and the watch is not started again.
\<close>

lemma overflow_ends_watch:
  assumes "\<forall>(wd, p)\<in>set fds. wd \<ge> 0" "ev_wd e = - 1"
  shows "watchForChanges handler fds (es @ e # es') s = None"
proof -
  have "map_of fds (- 1) = None" using assms(1) by (fastforce simp: map_of_eq_None_iff)
  then have "event_path fds e = None" using assms(2) by (simp add: event_path_def)
  then have "watch_events fds (es @ e # es') [] = None" using watch_events_defined [of fds "es @ e # es'" "[]"] by auto
  then show ?thesis by (simp add: watchForChanges_def)
qed

text \<open>A change of a file whose path contains the word Barrier is queued as a barrier and never sent.\<close>

lemma barrier_path_not_sent:
  assumes "eventExists (makeEvent ''FileModified'' ''/Barrier'' HEDER_DELIM) q = False"
  shows "events (fst (file_changed ''/Barrier'' modified (q, now))) = events q"
  using assms by (simp add: file_changed_def addEvent_def makeEvent_def queue_task_def)

end
