(* ===== verification/CommandLine.thy ===== *)
theory CommandLine
  imports HttpRouting "HOL-Library.List_Lexorder" "HOL-Library.Char_ord"
begin

text \<open>
  The command line of the programs (\<open>src/include/command_line_parser.hpp\<close>): the arguments are
  taken in pairs of a name and a value into a \<open>std::map\<close>, and an option is looked up under any of its names.
\<close>

section \<open>The parser\<close>

text \<open>The arguments after the name of the program.\<close>

fun parse_pairs :: "string list \<Rightarrow> (string \<times> string) list \<Rightarrow> (string \<times> string) list" where
  "parse_pairs (k # v # args) comline = parse_pairs args (omap_put k v comline)"
| "parse_pairs _ comline = comline"

definition parseCommandline :: "string list \<Rightarrow> (string \<times> string) list" where
  "parseCommandline argv = parse_pairs (tl argv) []"

text \<open>One option of \<open>getArgs\<close>: the names are separated by commas, the map is searched in its order.\<close>

definition extact :: "(string \<times> string) list \<Rightarrow> string \<Rightarrow> string option" where
  "extact commLine a = map_option snd (find (\<lambda>kv. fst kv \<in> set (split a CHR '','' 0)) commLine)"

definition getArgs :: "(string \<times> string) list \<Rightarrow> string list \<Rightarrow> string option list" where
  "getArgs commLine args = map (extact commLine) args"

section \<open>Options are found under each of their names\<close>

fun pairs :: "string list \<Rightarrow> (string \<times> string) list" where
  "pairs (k # v # args) = (k, v) # pairs args"
| "pairs _ = []"

lemma parse_pairs_ok: "omap_ok m \<Longrightarrow> omap_ok (parse_pairs args m)"
  by (induction args m rule: parse_pairs.induct) (simp_all add: omap_ok_put)

lemma parse_pairs_map: "map_of (parse_pairs args m) = map_of m ++ map_of (rev (pairs args))"
  by (induction args m rule: parse_pairs.induct) (simp_all add: map_add_def fun_eq_iff split: option.splits)

lemma find_least:
  assumes "omap_ok m" "find (\<lambda>kv. fst kv \<in> N) m = Some (k, v)"
  shows "k \<in> N \<and> map_of m k = Some v \<and> (\<forall>k'\<in>N. map_of m k' \<noteq> None \<longrightarrow> k \<le> k')"
  using assms
proof (induction m)
  case (Cons kv m)
  show ?case
  proof (cases "fst kv \<in> N")
    case True
    then have kv: "kv = (k, v)" using Cons.prems by simp
    have "k \<le> k'" if "map_of m k' \<noteq> None" for k'
    proof -
      from that obtain x where "x \<in> set m" "fst x = k'" unfolding map_of_eq_None_iff by auto
      then show ?thesis using Cons.prems(1) by (auto simp: omap_ok_def kv)
    qed
    then show ?thesis using True kv by simp
  next
    case False
    then have f: "find (\<lambda>kv. fst kv \<in> N) m = Some (k, v)" "omap_ok m" using Cons.prems by (auto simp: omap_ok_def)
    have "fst kv \<noteq> k" using False Cons.IH [OF f(2,1)] by auto
    with Cons.IH [OF f(2,1)] False show ?thesis by (cases kv) auto
  qed
qed simp

text \<open>
  An option is absent exactly when none of its names is given as the first of a pair. If some are, the value is the last
  one given for the smallest of those names, whatever their order on the command line.
\<close>

theorem option_lookup:
  assumes "r = extact (parseCommandline (prog # args)) names" "N = set (split names CHR '','' 0)"
  shows "(r = None \<longleftrightarrow> N \<inter> fst ` set (pairs args) = {}) \<and>
    (\<forall>v. r = Some v \<longrightarrow> (\<exists>k\<in>N. map_of (rev (pairs args)) k = Some v \<and>
       (\<forall>k'\<in>N. map_of (rev (pairs args)) k' \<noteq> None \<longrightarrow> k \<le> k')))"
proof -
  let ?m = "parse_pairs args []"
  have ok: "omap_ok ?m" by (rule parse_pairs_ok) (simp add: omap_ok_def)
  have m: "map_of ?m = map_of (rev (pairs args))" by (simp add: parse_pairs_map)
  have r: "r = map_option snd (find (\<lambda>kv. fst kv \<in> N) ?m)" using assms by (simp add: extact_def parseCommandline_def)
  have dom: "fst ` set ?m = fst ` set (pairs args)"
    using m by (metis dom_map_of_conv_image_fst set_rev)
  have "r = None \<longleftrightarrow> N \<inter> fst ` set (pairs args) = {}"
    unfolding r dom [symmetric] by (force simp: find_None_iff)
  moreover have "\<exists>k\<in>N. map_of (rev (pairs args)) k = Some v \<and>
       (\<forall>k'\<in>N. map_of (rev (pairs args)) k' \<noteq> None \<longrightarrow> k \<le> k')" if "r = Some v" for v
    using that find_least [OF ok] unfolding r m [symmetric] by fastforce
  ultimately show ?thesis by blast
qed

theorem option_lookup_witness:
  "extact (parseCommandline [''prog'', ''-p'', ''1'', ''--port'', ''2'', ''-p'']) ''--port,-p'' = Some ''2''"
proof -
  let ?args = "[''-p'', ''1'', ''--port'', ''2'', ''-p'']"
  have n: "set (split ''--port,-p'' CHR '','' 0) = {''--port'', ''-p''}" by code_simp
  have "\<exists>v. extact (parseCommandline (''prog'' # ?args)) ''--port,-p'' = Some v"
    using option_lookup [OF refl refl, of "''prog''" ?args "''--port,-p''"] n by auto
  then obtain v where v: "extact (parseCommandline (''prog'' # ?args)) ''--port,-p'' = Some v" by auto
  with option_lookup [OF v [symmetric] n [symmetric]] have "\<exists>k\<in>{''--port'', ''-p''}. map_of (rev (pairs ?args)) k = Some v \<and> k \<le> ''--port''"
    by auto
  moreover have "\<not> ''-p'' \<le> ''--port''" by code_simp
  ultimately show ?thesis using v by auto
qed

text \<open>A flag without a value is not seen: \<open>--help\<close> alone leaves the map empty.\<close>

lemma lone_flag_ignored: "parseCommandline [prog, flag] = []"
  by (simp add: parseCommandline_def)

end
