(* ===== verification/Uart.thy ===== *)
theory Uart
  imports Prelude
begin

text \<open>
  The serial line (\<open>src/include/uart_server.hpp\<close>): how the settings of a configuration become the flags
  of a terminal, opening and closing the device, and the search for the device node of a virtual
  UART. The flags are those of Linux; the outcome of the system calls and the symbolic links are
  arguments.
\<close>

unbundle bit_operations_syntax

section \<open>Settings\<close>

record UartConfig =
  uart_device :: string
  uart_baudRate :: "32 word"
  rawMode :: bool
  enableParity :: bool
  evenParity :: bool
  stopBits :: int
  dataBits :: int
  hardwareFlowControl :: bool

record termios =
  c_iflag :: "32 word"
  c_oflag :: "32 word"
  c_cflag :: "32 word"
  c_lflag :: "32 word"
  c_ispeed :: "32 word"
  c_ospeed :: "32 word"

definition CSIZE :: "32 word" where "CSIZE = 0x30"
definition CS5 :: "32 word" where "CS5 = 0"
definition CS6 :: "32 word" where "CS6 = 0x10"
definition CS7 :: "32 word" where "CS7 = 0x20"
definition CS8 :: "32 word" where "CS8 = 0x30"
definition CSTOPB :: "32 word" where "CSTOPB = 0x40"
definition CREAD :: "32 word" where "CREAD = 0x80"
definition PARENB :: "32 word" where "PARENB = 0x100"
definition PARODD :: "32 word" where "PARODD = 0x200"
definition CLOCAL :: "32 word" where "CLOCAL = 0x800"
definition CRTSCTS :: "32 word" where "CRTSCTS = 0x80000000"

definition B115200 :: "32 word" where "B115200 = 0x1002"

definition UartConfig_new :: UartConfig where
  "UartConfig_new = \<lparr>uart_device = ''/dev/ttyS0'', uart_baudRate = B115200, rawMode = True, enableParity = False,
     evenParity = False, stopBits = 1, dataBits = 8, hardwareFlowControl = False\<rparr>"

text \<open>\<open>cfmakeraw\<close>, as its manual page states it.\<close>

definition cfmakeraw :: "termios \<Rightarrow> termios" where
  "cfmakeraw t = t\<lparr>c_iflag := c_iflag t AND NOT 0x5EB, c_oflag := c_oflag t AND NOT 0x1,
     c_lflag := c_lflag t AND NOT 0x804B, c_cflag := (c_cflag t AND NOT (CSIZE OR PARENB)) OR CS8\<rparr>"

definition size_flag :: "int \<Rightarrow> 32 word" where
  "size_flag n = (if n = 5 then CS5 else if n = 6 then CS6 else if n = 7 then CS7 else CS8)"

definition configure_tty :: "UartConfig \<Rightarrow> termios \<Rightarrow> termios" where
  "configure_tty c t =
     (let t = t\<lparr>c_ospeed := uart_baudRate c, c_ispeed := uart_baudRate c\<rparr>;
          f = (c_cflag t AND NOT CSIZE) OR size_flag (dataBits c);
          f = (if stopBits c = 2 then f OR CSTOPB else f AND NOT CSTOPB);
          f = (if enableParity c then (if evenParity c then (f OR PARENB) AND NOT PARODD else (f OR PARENB) OR PARODD)
               else f AND NOT PARENB);
          f = (if hardwareFlowControl c then f OR CRTSCTS else f AND NOT CRTSCTS);
          t = t\<lparr>c_cflag := f OR (CLOCAL OR CREAD)\<rparr>
      in if rawMode c then cfmakeraw t else t)"

section \<open>The device\<close>

record uart_dev =
  uart_fd :: "nat option"
  uart_stream :: bool
  uart_tty :: "termios option"
  uart_closed :: "nat list"

definition uart_new :: uart_dev where
  "uart_new = \<lparr>uart_fd = None, uart_stream = False, uart_tty = None, uart_closed = []\<rparr>"

text \<open>The outcomes of \<open>open\<close>, \<open>tcgetattr\<close> and \<open>tcsetattr\<close> are arguments; \<open>True\<close> is success.\<close>

definition uart_open :: "nat option \<Rightarrow> termios option \<Rightarrow> bool \<Rightarrow> UartConfig \<Rightarrow> uart_dev \<Rightarrow> bool \<times> uart_dev" where
  "uart_open opened_fd attrs set_ok c u = (case opened_fd of
     None \<Rightarrow> (False, u\<lparr>uart_fd := None\<rparr>)
   | Some fd \<Rightarrow> (case attrs of
       None \<Rightarrow> (False, u\<lparr>uart_fd := None, uart_closed := uart_closed u @ [fd]\<rparr>)
     | Some t \<Rightarrow> if \<not> set_ok then (False, u\<lparr>uart_fd := None, uart_closed := uart_closed u @ [fd]\<rparr>)
         else (True, u\<lparr>uart_fd := Some fd, uart_stream := True, uart_tty := Some (configure_tty c t)\<rparr>)))"

definition uart_close :: "uart_dev \<Rightarrow> uart_dev" where
  "uart_close u = (case uart_fd u of None \<Rightarrow> u
     | Some fd \<Rightarrow> u\<lparr>uart_fd := None, uart_stream := False, uart_closed := uart_closed u @ [fd]\<rparr>)"

definition uart_isOpen :: "uart_dev \<Rightarrow> bool" where
  "uart_isOpen u \<longleftrightarrow> uart_fd u \<noteq> None \<and> uart_stream u"

text \<open>\<open>canonical\<close> resolves a path; the empty string is the result when no node is found.\<close>

definition sysfs_candidate :: "(string \<Rightarrow> string option) \<Rightarrow> (string \<Rightarrow> bool) \<Rightarrow> string \<Rightarrow> string \<Rightarrow> string option" where
  "sysfs_candidate canonical file_exists classPath relDir = (case canonical (classPath @ ''/'' @ relDir) of
     None \<Rightarrow> None
   | Some node \<Rightarrow> if file_exists (node @ ''/lpc_address'') then Some node else None)"

definition findSysfsDeviceNode :: "(string \<Rightarrow> string option) \<Rightarrow> (string \<Rightarrow> bool) \<Rightarrow> UartConfig \<Rightarrow> string" where
  "findSysfsDeviceNode canonical file_exists c =
     (let deviceName = (case canonical (uart_device c) of None \<Rightarrow> path_filename (uart_device c) | Some p \<Rightarrow> path_filename p) in
      case canonical (''/sys/class/tty/'' @ deviceName) of
        None \<Rightarrow> []
      | Some classPath \<Rightarrow> (case List.map_filter (sysfs_candidate canonical file_exists classPath) [''../../../../'', ''../../''] of
          [] \<Rightarrow> [] | node # _ \<Rightarrow> node))"

datatype sysfs_write = Skipped | Refused | Written string string

text \<open>The value is written in hexadecimal (\<open>hex\<close>).\<close>

definition configureSysfsAttribute ::
  "(16 word \<Rightarrow> string) \<Rightarrow> (string \<Rightarrow> string option) \<Rightarrow> (string \<Rightarrow> bool) \<Rightarrow> (string \<Rightarrow> bool) \<Rightarrow> UartConfig \<Rightarrow> string \<Rightarrow> 16 word \<Rightarrow> sysfs_write"
where
  "configureSysfsAttribute hex canonical file_exists writable c attrName v =
     (let sysfsPath = findSysfsDeviceNode canonical file_exists c; attrPath = sysfsPath @ ''/'' @ attrName in
      if sysfsPath = [] then Skipped else if \<not> writable attrPath then Refused else Written attrPath (''0x'' @ hex v))"

definition getBaudRateString :: "32 word \<Rightarrow> string" where
  "getBaudRateString baud = (case map_of
     [(1, ''50''), (2, ''75''), (3, ''110''), (4, ''134''), (5, ''150''), (6, ''200''), (7, ''300''), (8, ''600''),
      (9, ''1200''), (10, ''1800''), (11, ''2400''), (12, ''4800''), (13, ''9600''), (14, ''19200''), (15, ''38400''),
      (0x1001, ''57600''), (0x1002, ''115200''), (0x1003, ''230400'')] baud of
     None \<Rightarrow> ''unknown'' | Some s \<Rightarrow> s)"

text \<open>\<open>UartServer::start\<close>: whether the read loop is started.\<close>

definition uart_start :: "nat option \<Rightarrow> termios option \<Rightarrow> bool \<Rightarrow> UartConfig \<Rightarrow> uart_dev \<Rightarrow> bool \<times> uart_dev" where
  "uart_start opened_fd attrs set_ok c u = uart_open opened_fd attrs set_ok c u"

section \<open>What the line is set to\<close>

definition line_bits :: "termios \<Rightarrow> nat" where
  "line_bits t = 5 + of_bool (bit (c_cflag t) 4) + 2 * of_bool (bit (c_cflag t) 5)"

lemmas uart_flags = CSIZE_def CS5_def CS6_def CS7_def CS8_def CSTOPB_def CREAD_def PARENB_def PARODD_def CLOCAL_def CRTSCTS_def

lemma one_bit: "w = push_bit k 1 \<Longrightarrow> k < 32 \<Longrightarrow> bit w n \<longleftrightarrow> n = k" for w :: "32 word"
  by (auto simp: bit_simps)

lemma flag_bits:
  "bit CS6 n \<longleftrightarrow> n = 4" "bit CS7 n \<longleftrightarrow> n = 5" "bit CSTOPB n \<longleftrightarrow> n = 6" "bit CREAD n \<longleftrightarrow> n = 7"
  "bit PARENB n \<longleftrightarrow> n = 8" "bit PARODD n \<longleftrightarrow> n = 9" "bit CLOCAL n \<longleftrightarrow> n = 11" "bit CRTSCTS n \<longleftrightarrow> n = 31" "\<not> bit CS5 n"
  by ((rule one_bit; simp add: uart_flags)+) (simp add: CS5_def)

lemma size_bits: "bit CSIZE n \<longleftrightarrow> n = 4 \<or> n = 5" "bit CS8 n \<longleftrightarrow> n = 4 \<or> n = 5"
proof -
  have s: "CSIZE = CS6 OR CS7" "CS8 = CS6 OR CS7" by (simp_all add: uart_flags)
  show "bit CSIZE n \<longleftrightarrow> n = 4 \<or> n = 5" "bit CS8 n \<longleftrightarrow> n = 4 \<or> n = 5" by (simp_all add: s bit_or_iff flag_bits)
qed

text \<open>
  What the driver is told, for every configuration and whatever the line was set to before: the speeds, the stop bits
  and the flow control are as configured and the receiver is on. The data bits and the parity are as
  configured only outside raw mode, with eight data bits for a number other than five to eight; in raw mode, which is the
  default, the line has eight data bits and no parity, whatever the configuration says.
\<close>

theorem line_settings:
  "let t' = configure_tty c t in
   c_ispeed t' = uart_baudRate c \<and> c_ospeed t' = uart_baudRate c \<and>
   bit (c_cflag t') 6 = (stopBits c = 2) \<and> bit (c_cflag t') 31 = hardwareFlowControl c \<and>
   bit (c_cflag t') 7 \<and> bit (c_cflag t') 11 \<and>
   line_bits t' = (if rawMode c \<or> dataBits c \<notin> {5, 6, 7, 8} then 8 else nat (dataBits c)) \<and>
   bit (c_cflag t') 8 = (enableParity c \<and> \<not> rawMode c)"
  by (auto simp: configure_tty_def cfmakeraw_def Let_def line_bits_def size_flag_def bit_simps flag_bits size_bits)

text \<open>A failed start leaves the device closed, with no descriptor open; a successful one can be closed again.\<close>

lemma open_close_balanced:
  assumes "uart_start opened_fd attrs set_ok c u = (ok, u')"
  shows "if ok then opened_fd \<noteq> None \<and> uart_isOpen u' \<and> uart_closed (uart_close u') = uart_closed u @ [the opened_fd]
    else uart_fd u' = None \<and> uart_closed u' = uart_closed u @ (case opened_fd of None \<Rightarrow> [] | Some fd \<Rightarrow> [fd])"
  using assms by (auto simp: uart_start_def uart_open_def uart_isOpen_def uart_close_def split: option.splits if_splits)

end
