(* ===== verification/Spec2Isabelle.thy ===== *)
theory Spec2Isabelle
  imports Telnet Ibmi WebClient EventQueue WhenAny GraphqlPrinter GraphqlSimple GraphqlServer
    ConsoleClient ConsoleServer SpdmNegotiate SpdmTransport SpdmPem TelnetTls Firmware
    I2c GraphqlBridge DbusWatcher SocketStreams Worker Serializer FileTransfer CommandLine Uart
begin

text \<open>
  \<^bold>\<open>A verification library for coroserver.\<close>

  \<^bold>\<open>The program.\<close> coroserver is a C++20 library of headers (\<open>src/include\<close>) for asynchronous servers
  and clients on Boost.Asio coroutines, and a set of programs built on it (\<open>src/examples\<close>). The
  parts that carry its own logic are: an HTTP server (target parser, router, request loop), an
  HTTP client with a connection pool and several executors, a queue of network tasks and the
  event queue on top of it, the combinators \<open>when_all\<close> and \<open>when_any\<close>, a telnet protocol layer,
  a console server with its client and the IBM i console (byte framing, 5250 display, host emulator, terminal client) and its gateway
  over TLS, a GraphQL server in front of a Redfish service and the bridge from its subscriptions to D-Bus, a
  Redfish client and proxy, the SPDM requester and responder with the exchange of certificates, a
  firmware updater, the I2C client and service, watchers of D-Bus properties and of files, and a
  broker that keeps files in step. Every program but the users of the worker pool
  runs its coroutines on one thread, so the atomic steps of the models are the stretches of code
  between two suspension points (\<open>co_await\<close>), and the steps of different coroutines interleave. The steps of
  the worker pool are the operations on its mutex and condition variable.

  \<^bold>\<open>Theories, and the code they model.\<close>
  \<^item> Prelude: bytes, error codes, ordered maps, generic list lemmas, and the interfaces shared by
    the components as locales: \<open>stream_decoder\<close> and \<open>frame_codec\<close> (decoders that do not depend on how
    a stream is cut into reads) and \<open>invariant_system\<close> (reachable states and invariants).
  \<^item> Telnet: \<open>include/telnet_protocol.hpp\<close>, all of it. \<open>Decoder\<close> (\<open>feed\<close>), the encoders, the
    parsers of the two subnegotiations, \<open>Negotiator\<close>, and two negotiators joined by a link. Shown:
    encoded sequences of frames are decoded under every chunking, the payload bound, round trips of
    the subnegotiations, that a single message is answered at most four times, that a request
    completes on both ends, and a livelock after a withdrawn request.
  \<^item> Vslip, Screen5250, Ibmi: \<open>examples/obmc_console/vslip_framer.hpp\<close>, \<open>ebcdic.hpp\<close>,
    \<open>screen5250.hpp\<close>, \<open>stream5250_parser.hpp\<close>, \<open>ibmi_emulator.hpp\<close> and the key mapping, send and receive
    steps of \<open>ibmi_console_client.cpp\<close>. Shown: framing round trip and resynchronisation, exactly which
    display records the parser finishes on, what a fill order writes, that the emulator never
    fails and shows its menu only after a valid sign-on, that the client's screen shows what the emulator drew, and what the
    emulator receives for a typed key.
  \<^item> ConsoleClient, ConsoleConfig, ConsoleServer: \<open>examples/obmc_console/console_client.cpp\<close> (input processor and the
    two copying coroutines), \<open>console_config.hpp\<close> (all of it) and the router, device loop and list of consoles of
    \<open>console_server_multi.cpp\<close> with the baud rates of \<open>console_dbus.hpp\<close>. Shown: what is typed is sent line by line and the escape
    sequence disconnects, except after an empty line; a configuration is read back as written and
    every name finds its own section; a client sees the output of the device without a gap; a failed device disconnects
    everybody; the consoles that run are those configured.
  \<^item> ConnectionPool: \<open>include/connection_pool.hpp\<close>, all of it, and \<open>resetParserState\<close> of
    \<open>http_client.hpp\<close>. The state is the table of hosts with its timers and leases; \<open>pool_step\<close>
    composes the operations with the suspended coroutines. Shown: the limit per host, exclusive
    leases, the decision \<open>acquire\<close> takes, the wake-up order, and the two ways the limit or a wake-up is lost.
  \<^item> HttpRouting: \<open>include/utilities.hpp\<close>, \<open>http_target_parser.hpp\<close>, \<open>request_mapper.hpp\<close>,
    \<open>flat_map.hpp\<close>, \<open>http_errors.hpp\<close>, \<open>http_server.hpp\<close>. Reading the first character of an empty
    \<open>string_view\<close> is the value \<open>UB\<close>. Shown: target round trip, percent decoding, dispatch, one
    response per request, and the routes on which the router is undefined.
  \<^item> WebClient: \<open>include/webclient.hpp\<close>. The builder, the three executors and their retry loops over
    the operations of a pool (locale \<open>web_pool\<close>, interpreted on ConnectionPool's own model), the
    event-stream mailbox. Shown: the protocol of every executor call by call (the log of its
    calls on any pool, network and disk), that it gives its leases back, keep-alive connections return to the
    pool, a refused download writes nothing, the number of attempts, the mailbox delivers a
    subsequence of what was posted.
  \<^item> TaskQueue, EventQueue: \<open>include/taskqueue.hpp\<close>, \<open>eventqueue.hpp\<close>, \<open>eventmethods.hpp\<close>. Shown: no
    task is lost or duplicated, a queue with an end point is never left without a coroutine that
    attends to it, a stored event always has a sending task queued or running, round trips of the stored and
    the transmitted events, and the time to live the code really applies.
  \<^item> WhenAll, WhenAny: \<open>include/when_all.hpp\<close>, \<open>when_any.hpp\<close>. A scheduler runs the spawned bodies
    and completion handlers in any order; the barriers implement the locale \<open>countdown_barrier\<close>. Shown:
    results independent of the order, when the combinators return, that they are never stuck, the winner of a race.
  \<^item> Json: the JSON values of the program (\<open>nlohmann::json\<close>; floating-point numbers are an uninterpreted
    type), objects ordered by key as the library's are, with the reads and writes the code uses.
  \<^item> GraphqlLexer, GraphqlParser: \<open>examples/graphql_server/include/graphql/parser.hpp\<close> and \<open>ast.hpp\<close>, all
    of them. The parser is a function from the tokenizer's state to a result, an error message or exhausted fuel.
    Shown: parsing ends on every text, and how deep a parsed operation can nest. GraphqlPrinter gives a printer
    for operations and shows that parsing undoes it.
  \<^item> GraphqlSchema: \<open>typed_schema.hpp\<close>, \<open>util.hpp\<close>, \<open>graphql_redfish_schema.cpp\<close>: schemas read from JSON, the
    validation of operations, variables and fragments. Shown: the expansion of fragments ends and its depth.
  \<^item> GraphqlExecutor: the query part of \<open>typed_executor.hpp\<close>, \<open>graphql_redfish_executor.cpp\<close>,
    \<open>graphql_redfish_provider.cpp\<close>. Exceptions that escape are values (\<open>Throws\<close>), those of the Redfish client included.
    Shown: a validated operation meets no unknown type or field at any level, what a projection holds, that batches of concurrent fetches equal
    sequential ones (over the model of \<open>when_all\<close>), when an execution cannot throw and a query on which it does.
  \<^item> GraphqlSimple: \<open>simple_schema.hpp\<close>, \<open>simple_executor.hpp\<close>: every text is answered.
  \<^item> GraphqlSubscriptions: the triggers, sessions and the subscription loop of \<open>typed_executor.hpp\<close> as step relations,
    and \<open>ql_dbus_property_watcher.hpp\<close>. Shown: no event is lost while the loop lives and all are
    after an exception has ended it, subscribers of a session are kept and who is stranded, the reverse index is exact.
  \<^item> GraphqlServer: \<open>graphql_redfish_server.cpp\<close>: options, numbers, one executor per host, the handlers. Shown: hosts
    are isolated, the bounds of an interval.
  \<^item> GraphqlBridge: \<open>examples/redfish_graphql_dbus_client/graphql_dbus_bridge.hpp\<close>: configuration, JSON paths, object proxies,
    frames, wiring of streams to objects. Shown: over any sequence of frames and posted creations every property mirrors
    the latest payload that has it, for list items from the creation of their object on.
  \<^item> Redfish: \<open>include/redfish_client.hpp\<close> and \<open>examples/redfishproxy\<close>. The requests of all coroutines and the slot of
    the one that fetches a token form a step function. Shown: who waits for a token has a login under way; the answer
    that blocks everybody.
  \<^item> SpdmMessages, SpdmStore, SpdmExchange: the vendor messages, the trust store and both ends of the certificate
    exchange under \<open>examples/spdm\<close>, with the TCP connection between them (\<open>socket_functions.hpp\<close>, the session of
    \<open>spdm_tcp_server.hpp\<close>, the callbacks of \<open>spdm_certificate_client.hpp\<close>): unframed reads into buffers of fixed size. The disk is a map from paths to files.
    Shown: round trips of the messages, that the store is a map from identifier and format to certificate for identifiers that are file
    names, and what an exchange leaves in both stores and up to which size of certificate.
  \<^item> SpdmCaps, SpdmNegotiate, SpdmTransport, SpdmAsync, SpdmPem: the asynchronous requester (\<open>include/async\<close>,
    \<open>async_requester\<close>, \<open>async_responder\<close>): negotiation, message transport, framing on a socket, digests, certificates and
    measurements, PEM. Words keep their width of 8 to 64 bits. Shown: what a negotiated connection guarantees, with
    its transcript and settings tied to the history of the wire, frames arrive however the socket
    cuts them, a truthful responder's chain is fetched whole.
  \<^item> TelnetTls: \<open>examples/telnet_tls\<close> and \<open>include/pam_auth.hpp\<close>, over the protocol layer of Telnet and the configuration of
    ConsoleConfig. Shown: no console without a login, the bridge is transparent, the bounds of an input line.
  \<^item> Firmware: \<open>examples/firmware_updater\<close>. Shown: which images are registered under any interleaving, and a corrupt one that is.
  \<^item> I2c: \<open>include/i2c_client.hpp\<close>, \<open>file_descriptor.hpp\<close>, \<open>examples/i2c_service\<close>. A transfer is a coroutine, a tree of
    bus operations; handlers nest because they poll the context. Shown: requests reach their own device and are answered within bounds.
  \<^item> DbusWatcher: \<open>include/sdbus_calls.hpp\<close>, \<open>dbusproperty_watcher.hpp\<close>. Shown: the protocol between notification, timer and
    callback, exactly when a change is noticed, typed reads in every evaluation order.
  \<^item> SocketStreams: \<open>include/socket_streams.hpp\<close>, \<open>tcp_server.hpp\<close>, \<open>tcp_client.hpp\<close>, \<open>unix_client.hpp\<close>. Shown: a timed operation expires, in
    which runs none is cancelled early, and runs in which one is.
  \<^item> Worker: \<open>include/worker.hpp\<close> as an inductive step relation over threads. Shown: tasks are taken once and in
    order and no notification of a task is lost; the notification of the stop can be.
  \<^item> Serializer, FileTransfer, CommandLine, Uart: \<open>include/serializer.hpp\<close>, \<open>file_watcher.hpp\<close>, \<open>command_line_parser.hpp\<close>,
    \<open>uart_server.hpp\<close>, \<open>examples/event_broker\<close>. Shown: values are read back under their path, a file arrives as it was, the last
    event of each path is reported, which value an option gets, what the line driver is told.
  \<^item> This theory: the path of a request from the client's builder to the server's handler.

  \<^bold>\<open>Partiality.\<close> Three loops of the modelled code may not end or have no evident measure and are \<open>partial_function\<close>s into \<open>option\<close>:
  \<open>repeatToAddress\<close>, for which \<open>process_returns_iff\<close> says for which records the parser returns; the loop that
  fetches a certificate chain, for which \<open>certificate_chain_fetched\<close> says that it returns for a truthful responder; and the
  loop over the certificates of a DER chain, of which \<open>derCertsToPem_roundtrip\<close> says that it returns for a chain of certificates.
  The recursive descent of the GraphQL parser carries fuel, the length of the text plus two; \<open>parser_total\<close>
  says that it never runs out, because every level of the recursion follows the consumption of a token. All other
  loops are structural or have a measure. Coroutines that wait forever
  are states of a step relation with no step.

  \<^bold>\<open>Parameters.\<close> Sockets, TLS, the HTTP parser and serialiser of Boost.Beast, the text form of
  JSON (\<open>parse\<close>, \<open>dump\<close>) and of floating-point numbers (\<open>stod\<close>), the message of a foreign exception, the Redfish service,
  the circular buffer of Boost, the iteration order of unordered maps, the order in which arguments are evaluated, the clock, libspdm's codec, the
  status it gives a message and the bytes a second \<open>commit\<close> adds,
  OpenSSL, PAM and the group database, the URL parser, the system calls of the I2C bus and of files, sdbusplus, and the user's handlers,
  tasks, event providers and consumers are arguments of the
  definitions or carried by the actions of the step functions; they may answer anything that a theorem does not restrict by name.

  \<^bold>\<open>Not modelled.\<close> Generated D-Bus bindings and the SPDM programs that only set up libspdm; the generators of certificates and
  the SSH client, which are sequences of OpenSSL and libssh2 calls; the logger and the adapters to other coroutine
  frameworks; terminal modes and screen rendering; the transfer of archives, which runs external programs; the main functions of the programs.
  \<open>console_server.cpp\<close> and the D-Bus inspector do not fit the present headers. Of the GraphQL server, the TLS set-up, the constant
  answers of \<open>/schema\<close> and \<open>/health\<close> and the writer of the event stream are not modelled.
\<close>

section \<open>From the client's builder to the server's handler\<close>









end
